(* ===== verification/Prelude.thy ===== *)
theory Prelude
  imports Main "HOL-Library.Word" "HOL-Library.Monad_Syntax"
begin

text \<open>
  What every component of the development shares: the types that stand for Go's byte
  slices and error values, the fixed-width integer encodings of \<open>encoding/binary\<close>,
  the integer conversions of the language, and the list lemmas about slices that the
  component proofs use.

  Conventions. A Go byte slice is a list of 8-bit words. A Go \<open>int64\<close> is an \<open>int\<close>
  (each component says where its values stay in range, and writes the wrap-around out
  with \<open>int64\<close> where they may not); a \<open>uint64\<close> field of a wire structure is a
  \<open>64 word\<close>. A function that can panic returns an option, \<open>None\<close> being the panic. A
  function that returns \<open>(T, error)\<close> returns \<open>goerr + T\<close>.
\<close>

section \<open>Collections of facts\<close>

named_theorems slice_simps "rewriting of slices of lists and of integer ranges"
named_theorems codec_simps "facts that unfold the wire encoders and decoders"
named_theorems run_simps "evaluation of store operations without driver failures"

declare Option.bind_cong [fundef_cong]

section \<open>Types\<close>

type_synonym byte = "8 word"
type_synonym bytes = "byte list"

text \<open>The files of the machine.\<close>

type_synonym files = "string \<Rightarrow> bytes option"

text \<open>
  Error values. \<open>Errorf\<close> carries the format string of the \<open>fmt.Errorf\<close> call (its
  arguments are not part of the model), \<open>Wrap\<close> is a \<open>%w\<close> wrapper around an inner
  error, \<open>ErrNoRows\<close> is \<open>sql.ErrNoRows\<close> and \<open>ErrDB\<close> any other failure of the
  database driver.
\<close>

datatype goerr = ErrNoRows | ErrDB | Errorf string | Wrap string goerr

text \<open>\<open>errors.Is(err, sql.ErrNoRows)\<close>: unwrap until the sentinel is found.\<close>

fun errors_Is_NoRows :: "goerr \<Rightarrow> bool" where
  "errors_Is_NoRows ErrNoRows = True"
| "errors_Is_NoRows (Wrap _ e) = errors_Is_NoRows e"
| "errors_Is_NoRows _ = False"

text \<open>A Go string is a byte sequence; \<open>[]byte(s)\<close> and \<open>string(b)\<close> are conversions.\<close>

definition str_bytes :: "string \<Rightarrow> bytes" where
  "str_bytes s = map of_char s"

definition bytes_str :: "bytes \<Rightarrow> string" where
  "bytes_str bs = map (\<lambda>b. char_of (unat b)) bs"

lemma length_str_bytes [simp]: "length (str_bytes s) = length s"
  by (simp add: str_bytes_def)

lemma unat_of_char [simp]: "unat (of_char c :: byte) = of_char c"
proof -
  have "(of_char c :: byte) = of_nat (of_char c)"
    by (simp add: of_nat_of_char)
  moreover have "(of_char c :: nat) < 256"
    by (rule nat_of_char_less_256)
  ultimately show ?thesis
    by (simp add: unat_of_nat)
qed

lemma unat_byte_less [simp]: "unat (b :: byte) < 256"
  using unsigned_less [of b] by simp

lemma bytes_str_str_bytes [simp]: "bytes_str (str_bytes s) = s"
  by (induction s) (simp_all add: bytes_str_def str_bytes_def)

lemma str_bytes_inject [simp]: "str_bytes s = str_bytes t \<longleftrightarrow> s = t"
  by (metis bytes_str_str_bytes)

text \<open>The conversion \<open>int64(x)\<close> of a \<open>uint64\<close>, and 64-bit signed subtraction.\<close>

definition int64 :: "64 word \<Rightarrow> int" where
  "int64 w = sint w"

definition sub64 :: "int \<Rightarrow> int \<Rightarrow> int" where
  "sub64 a b = sint (word_of_int (a - b) :: 64 word)"

lemma int64_small: "unat w < 2 ^ 63 \<Longrightarrow> int64 w = int (unat w)"
proof -
  assume "unat w < 2 ^ 63"
  then have *: "uint w < 2 ^ 63"
    using of_nat_less_iff [where 'a = int, of "unat w" "2 ^ 63"] by simp
  have **: "- (2 ^ 63) \<le> uint w"
    by (rule order_trans [of _ 0]) simp_all
  have "sint w = signed_take_bit 63 (uint w)"
    by (subst sint_uint) simp
  also have "\<dots> = uint w"
    using ** * by (rule signed_take_bit_int_eq_self)
  finally show ?thesis
    by (simp add: int64_def)
qed

lemma sub64_small: "- (2 ^ 63) \<le> a - b \<Longrightarrow> a - b < 2 ^ 63 \<Longrightarrow> sub64 a b = a - b"
  by (simp only: sub64_def sint_sbintrunc') (simp add: signed_take_bit_int_eq_self)

text \<open>
  The wrap-around of an \<open>int64\<close> result, and Go's division and remainder, which truncate
  towards zero.
\<close>

definition wrap64 :: "int \<Rightarrow> int" where
  "wrap64 x = sint (word_of_int x :: 64 word)"

definition go_div :: "int \<Rightarrow> int \<Rightarrow> int" where
  "go_div a b = sgn a * sgn b * (\<bar>a\<bar> div \<bar>b\<bar>)"

definition go_rem :: "int \<Rightarrow> int \<Rightarrow> int" where
  "go_rem a b = sgn a * (\<bar>a\<bar> mod \<bar>b\<bar>)"

lemma wrap64_id: "- (2 ^ 63) \<le> x \<Longrightarrow> x < 2 ^ 63 \<Longrightarrow> wrap64 x = x"
  by (simp only: wrap64_def sint_sbintrunc') (simp add: signed_take_bit_int_eq_self)

lemma go_div_nonneg [simp]: "0 \<le> a \<Longrightarrow> 0 < b \<Longrightarrow> go_div a b = a div b"
  by (cases "a = 0") (simp_all add: go_div_def)

lemma go_rem_nonneg [simp]: "0 \<le> a \<Longrightarrow> 0 < b \<Longrightarrow> go_rem a b = a mod b"
  by (cases "a = 0") (simp_all add: go_rem_def)

text \<open>Times are nanoseconds since 1970; \<open>time.Time{}\<close> is the first of January of year 1.\<close>

definition zero_time :: int where
  "zero_time = - 62135596800000000000"

section \<open>Fixed-width integers on the wire\<close>

text \<open>
  \<open>be_bytes k n\<close> is the \<open>k\<close>-byte big-endian encoding of \<open>n\<close> (its low \<open>8 * k\<close>
  bits, as the truncating conversions of the code give), \<open>be_nat\<close> the value of a
  big-endian byte string. Little endian is the reverse.
\<close>

primrec be_bytes :: "nat \<Rightarrow> nat \<Rightarrow> bytes" where
  "be_bytes 0 n = []"
| "be_bytes (Suc k) n = be_bytes k (n div 256) @ [of_nat n]"

definition be_nat :: "bytes \<Rightarrow> nat" where
  "be_nat bs = foldl (\<lambda>acc b. acc * 256 + unat b) 0 bs"

definition le_bytes :: "nat \<Rightarrow> nat \<Rightarrow> bytes" where
  "le_bytes k n = rev (be_bytes k n)"

definition le_nat :: "bytes \<Rightarrow> nat" where
  "le_nat bs = be_nat (rev bs)"

lemma length_be_bytes [simp]: "length (be_bytes k n) = k"
  by (induction k arbitrary: n) simp_all

lemma length_le_bytes [simp]: "length (le_bytes k n) = k"
  by (simp add: le_bytes_def)

lemma be_nat_Nil [simp]: "be_nat [] = 0"
  by (simp add: be_nat_def)

lemma be_nat_snoc [simp]: "be_nat (bs @ [b]) = be_nat bs * 256 + unat b"
  by (simp add: be_nat_def)

lemma be_nat_Cons: "be_nat (b # bs) = unat b * 256 ^ length bs + be_nat bs"
  by (induction bs rule: rev_induct) (simp_all add: be_nat_def algebra_simps)

lemma be_nat_bound: "be_nat bs < 256 ^ length bs"
proof (induction bs rule: rev_induct)
  case Nil
  show ?case by simp
next
  case (snoc b bs)
  have "be_nat bs * 256 + unat b < (be_nat bs + 1) * 256"
    using unat_byte_less [of b] by simp
  also have "\<dots> \<le> 256 ^ length bs * 256"
    using snoc by (intro mult_le_mono1) simp
  finally show ?case by simp
qed

lemma unat_byte_of_nat [simp]: "unat (of_nat n :: byte) = n mod 256"
  by (simp add: unat_of_nat)

lemma be_nat_be_bytes: "be_nat (be_bytes k n) = n mod 256 ^ k"
proof (induction k arbitrary: n)
  case 0
  show ?case by simp
next
  case (Suc k)
  have "be_nat (be_bytes (Suc k) n) = (n div 256 mod 256 ^ k) * 256 + n mod 256"
    by (simp add: Suc.IH)
  also have "\<dots> = n mod (256 * 256 ^ k)"
    by (simp add: mod_mult2_eq)
  finally show ?case by simp
qed

lemma be_nat_be_bytes_id [simp]: "n < 256 ^ k \<Longrightarrow> be_nat (be_bytes k n) = n"
  by (simp add: be_nat_be_bytes)

lemma be_bytes_be_nat: "be_bytes (length bs) (be_nat bs) = bs"
proof (induction bs rule: rev_induct)
  case Nil
  show ?case by simp
next
  case (snoc b bs)
  have b: "unat b < 256"
    by (rule unat_byte_less)
  then have "(be_nat bs * 256 + unat b) div 256 = be_nat bs"
    by simp
  moreover have "(of_nat (be_nat bs * 256 + unat b) :: byte) = b"
    using b by (simp only: word_unat_eq_iff unat_byte_of_nat) simp
  ultimately show ?case
    using snoc by simp
qed

lemma be_bytes_be_nat_eq: "length bs = k \<Longrightarrow> be_bytes k (be_nat bs) = bs"
  using be_bytes_be_nat by blast

lemma be_nat_less: "length bs = k \<Longrightarrow> be_nat bs < 256 ^ k"
  using be_nat_bound by blast

text \<open>A \<open>uint64\<close> and a \<open>uint16\<close> on the wire.\<close>

lemma unat64_less: "unat (w :: 64 word) < 256 ^ 8"
  using unsigned_less [of w] by simp

lemma of_nat_be_nat64 [simp]: "of_nat (be_nat (be_bytes 8 (unat (w :: 64 word)))) = w"
  by (simp only: be_nat_be_bytes_id [OF unat64_less]) simp

lemma be_bytes_unat64:
  assumes "length bs = 8"
  shows "be_bytes 8 (unat (of_nat (be_nat bs) :: 64 word)) = bs"
proof -
  have "unat (of_nat (be_nat bs) :: 64 word) = be_nat bs"
    using be_nat_less [OF assms] by (simp add: unat_of_nat)
  with be_bytes_be_nat_eq [OF assms] show ?thesis by simp
qed

text \<open>\<open>big.Int.Bytes\<close>: the absolute value, big endian, without leading zeros.\<close>

function big_Bytes :: "nat \<Rightarrow> bytes" where
  "big_Bytes n = (if n = 0 then [] else big_Bytes (n div 256) @ [of_nat n])"
  by pat_completeness auto
termination by (relation "measure id") auto

declare big_Bytes.simps [simp del]

lemma be_nat_big_Bytes [simp]: "be_nat (big_Bytes n) = n"
proof (induction n rule: big_Bytes.induct)
  case (1 n)
  show ?case
  proof (cases "n = 0")
    case False
    with 1 show ?thesis by (subst big_Bytes.simps) simp
  qed (simp add: big_Bytes.simps)
qed

lemma big_Bytes_hd: "0 < n \<Longrightarrow> big_Bytes n \<noteq> [] \<and> hd (big_Bytes n) \<noteq> 0"
proof (induction n rule: big_Bytes.induct)
  case (1 n)
  show ?case
  proof (cases "n < 256")
    case True
    then have "big_Bytes n = [of_nat n]" using 1 by (simp add: big_Bytes.simps [of n] big_Bytes.simps [of 0])
    moreover have "(of_nat n :: byte) \<noteq> 0" using 1(2) True by (simp add: word_unat_eq_iff)
    ultimately show ?thesis by simp
  next
    case False
    then have "0 < n div 256" by (simp add: div_greater_zero_iff)
    with 1(1) False have "big_Bytes (n div 256) \<noteq> [] \<and> hd (big_Bytes (n div 256)) \<noteq> 0" by simp
    with False show ?thesis by (subst (1 2) big_Bytes.simps) simp
  qed
qed

section \<open>Slices of integer ranges\<close>

text \<open>
  \<open>rng h s e\<close> lists \<open>h s, \<dots>, h (e - 1)\<close>: what a callback \<open>func(int64) T\<close> gives on the
  half-open range \<open>[s, e)\<close> that the Merkle code recurses on.
\<close>

definition rng :: "(int \<Rightarrow> 'a) \<Rightarrow> int \<Rightarrow> int \<Rightarrow> 'a list" where
  "rng h s e = map h [s..e - 1]"

lemma length_rng [simp]: "length (rng h s e) = nat (e - s)"
  by (simp add: rng_def)

lemma rng_split: "s \<le> m \<Longrightarrow> m \<le> e \<Longrightarrow> rng h s e = rng h s m @ rng h m e"
proof -
  assume "s \<le> m" "m \<le> e"
  then have "[s..e - 1] = [s..m - 1] @ [m..e - 1]"
    using upto_split1 [of s m "e - 1"] upto_rec1 by (cases "m = e") auto
  then show ?thesis by (simp add: rng_def)
qed

lemma rng_single [simp]: "rng h s (s + 1) = [h s]"
  by (simp add: rng_def)

lemma rng_empty [simp]: "e \<le> s \<Longrightarrow> rng h s e = []"
  by (simp add: rng_def)

lemma take_rng [slice_simps]:
  "0 \<le> k \<Longrightarrow> s + k \<le> e \<Longrightarrow> take (nat k) (rng h s e) = rng h s (s + k)"
  by (subst rng_split [of s "s + k" e]) (simp_all)

lemma drop_rng [slice_simps]:
  "0 \<le> k \<Longrightarrow> s + k \<le> e \<Longrightarrow> drop (nat k) (rng h s e) = rng h (s + k) e"
  by (subst rng_split [of s "s + k" e]) (simp_all)

lemma nth_rng [slice_simps]:
  "i < nat (e - s) \<Longrightarrow> rng h s e ! i = h (s + int i)"
  by (simp add: rng_def nth_upto)

lemma rng_cong: "(\<And>i. s \<le> i \<Longrightarrow> i < e \<Longrightarrow> h i = h' i) \<Longrightarrow> rng h s e = rng h' s e"
  by (simp add: rng_def)

text \<open>A list as the callback that indexes it.\<close>

definition at :: "'a list \<Rightarrow> 'a \<Rightarrow> int \<Rightarrow> 'a" where
  "at xs d i = (if 0 \<le> i \<and> nat i < length xs then xs ! nat i else d)"

lemma rng_at [simp]: "rng (at xs d) 0 (int (length xs)) = xs"
  by (rule nth_equalityI) (simp_all add: nth_rng at_def)

lemma rng_at_slice [slice_simps]:
  assumes "0 \<le> s" "s \<le> e" "e \<le> int (length xs)"
  shows "rng (at xs d) s e = take (nat (e - s)) (drop (nat s) xs)"
  using assms by (intro nth_equalityI) (auto simp: nth_rng at_def nat_add_distrib min_def)

end
