(* ===== verification/Sha256.thy ===== *)
theory Sha256
  imports Prelude
begin

text \<open>
  The hash function of the program. Every package calls \<open>crypto/sha256\<close> of the Go
  standard library; this theory is FIPS 180-4 over 32-bit words, so that the hashes of
  the model are computed and not assumed. The rest of the development relies on one fact
  about it only: the digest has 32 bytes. No theorem assumes that it is injective; the
  soundness theorems name the pair of inputs that would collide.
\<close>

unbundle bit_operations_syntax

section \<open>The compression function\<close>

text \<open>The round constants of the standard, in decimal.\<close>

definition sha_K :: "32 word list" where
  "sha_K = [
   1116352408, 1899447441, 3049323471, 3921009573, 961987163, 1508970993,
   2453635748, 2870763221, 3624381080, 310598401, 607225278, 1426881987,
   1925078388, 2162078206, 2614888103, 3248222580, 3835390401, 4022224774,
   264347078, 604807628, 770255983, 1249150122, 1555081692, 1996064986,
   2554220882, 2821834349, 2952996808, 3210313671, 3336571891, 3584528711,
   113926993, 338241895, 666307205, 773529912, 1294757372, 1396182291,
   1695183700, 1986661051, 2177026350, 2456956037, 2730485921, 2820302411,
   3259730800, 3345764771, 3516065817, 3600352804, 4094571909, 275423344,
   430227734, 506948616, 659060556, 883997877, 958139571, 1322822218,
   1537002063, 1747873779, 1955562222, 2024104815, 2227730452, 2361852424,
   2428436474, 2756734187, 3204031479, 3329325298]"

definition rotr :: "nat \<Rightarrow> 32 word \<Rightarrow> 32 word" where
  "rotr k w = drop_bit k w OR push_bit (32 - k) w"

definition sha_Ch :: "32 word \<Rightarrow> 32 word \<Rightarrow> 32 word \<Rightarrow> 32 word" where
  "sha_Ch x y z = (x AND y) XOR (NOT x AND z)"

definition sha_Maj :: "32 word \<Rightarrow> 32 word \<Rightarrow> 32 word \<Rightarrow> 32 word" where
  "sha_Maj x y z = (x AND y) XOR (x AND z) XOR (y AND z)"

definition sha_S0 :: "32 word \<Rightarrow> 32 word" where
  "sha_S0 x = rotr 2 x XOR rotr 13 x XOR rotr 22 x"

definition sha_S1 :: "32 word \<Rightarrow> 32 word" where
  "sha_S1 x = rotr 6 x XOR rotr 11 x XOR rotr 25 x"

definition sha_s0 :: "32 word \<Rightarrow> 32 word" where
  "sha_s0 x = rotr 7 x XOR rotr 18 x XOR drop_bit 3 x"

definition sha_s1 :: "32 word \<Rightarrow> 32 word" where
  "sha_s1 x = rotr 17 x XOR rotr 19 x XOR drop_bit 10 x"

text \<open>
  The message schedule keeps the last sixteen words and consumes one round constant per
  round; the eight working variables are one tuple.
\<close>

type_synonym sha_vars =
  "32 word \<times> 32 word \<times> 32 word \<times> 32 word \<times> 32 word \<times> 32 word \<times> 32 word \<times> 32 word"

fun sha_round :: "32 word \<Rightarrow> 32 word \<Rightarrow> sha_vars \<Rightarrow> sha_vars" where
  "sha_round k w (a, b, c, d, e, f, g, h) =
     (let t1 = h + sha_S1 e + sha_Ch e f g + k + w;
          t2 = sha_S0 a + sha_Maj a b c
      in (t1 + t2, a, b, c, d + t1, e, f, g))"

fun sha_rounds :: "32 word list \<Rightarrow> 32 word list \<Rightarrow> sha_vars \<Rightarrow> sha_vars" where
  "sha_rounds [] ws v = v"
| "sha_rounds (k # ks) ws v =
     (let w = ws ! 0;
          next_w = sha_s1 (ws ! 14) + ws ! 9 + sha_s0 (ws ! 1) + w
      in sha_rounds ks (tl ws @ [next_w]) (sha_round k w v))"

fun sha_compress :: "sha_vars \<Rightarrow> 32 word list \<Rightarrow> sha_vars" where
  "sha_compress (a, b, c, d, e, f, g, h) ws =
     (case sha_rounds sha_K ws (a, b, c, d, e, f, g, h) of
        (a', b', c', d', e', f', g', h') \<Rightarrow>
          (a + a', b + b', c + c', d + d', e + e', f + f', g + g', h + h'))"

section \<open>Padding, blocks and the digest\<close>

definition sha_pad :: "bytes \<Rightarrow> bytes" where
  "sha_pad m = m @ [0x80] @ replicate ((119 - length m mod 64) mod 64) 0 @ be_bytes 8 (8 * length m)"

fun sha_words :: "bytes \<Rightarrow> 32 word list" where
  "sha_words (a # b # c # d # bs) = 
     (push_bit 24 (ucast a) OR push_bit 16 (ucast b) OR push_bit 8 (ucast c) OR ucast d) # sha_words bs"
| "sha_words _ = []"

function sha_blocks :: "sha_vars \<Rightarrow> bytes \<Rightarrow> sha_vars" where
  "sha_blocks v bs =
     (if length bs < 64 then v
      else sha_blocks (sha_compress v (sha_words (take 64 bs))) (drop 64 bs))"
  by pat_completeness auto
termination by (relation "measure (length \<circ> snd)") auto

declare sha_blocks.simps [simp del]

definition sha_word_bytes :: "32 word \<Rightarrow> bytes" where
  "sha_word_bytes w = [ucast (drop_bit 24 w), ucast (drop_bit 16 w), ucast (drop_bit 8 w), ucast w]"

fun sha_out :: "sha_vars \<Rightarrow> bytes" where
  "sha_out (a, b, c, d, e, f, g, h) =
     concat (map sha_word_bytes [a, b, c, d, e, f, g, h])"

definition sha256 :: "bytes \<Rightarrow> bytes" where
  "sha256 m = sha_out (sha_blocks
     (1779033703, 3144134277, 1013904242, 2773480762, 1359893119, 2600822924, 528734635, 1541459225)
     (sha_pad m))"

lemma length_sha_out [simp]: "length (sha_out v) = 32"
  by (cases v rule: sha_out.cases) (simp add: sha_word_bytes_def)

lemma length_sha256 [simp]: "length (sha256 m) = 32"
  by (simp add: sha256_def)

text \<open>The padded message is a whole number of blocks, so \<open>sha_blocks\<close> consumes all of it.\<close>

lemma length_sha_pad: "64 dvd length (sha_pad m)"
proof -
  define r where "r = length m mod 64"
  have r: "r < 64" and m: "length m = 64 * (length m div 64) + r"
    by (simp_all add: r_def)
  have "64 dvd r + 1 + (119 - r) mod 64 + 8"
  proof (cases "r \<le> 55")
    case True
    then have "(119 - r) mod 64 = 55 - r"
      by (simp add: le_mod_geq)
    with True show ?thesis by simp
  next
    case False
    with r show ?thesis by simp
  qed
  then have *: "64 dvd 64 * (length m div 64) + (r + 1 + (119 - r) mod 64 + 8)"
    by simp
  have "length (sha_pad m) = length m + (1 + (119 - r) mod 64 + 8)"
    by (simp add: sha_pad_def r_def)
  also have "\<dots> = 64 * (length m div 64) + (r + 1 + (119 - r) mod 64 + 8)"
    by (subst m) (simp only: add.assoc)
  finally show ?thesis
    using * by (simp only:)
qed

end
