(* ===== verification/MerkleTree.thy ===== *)
theory MerkleTree
  imports Sha256
begin

text \<open>
  \<open>src/internal/merkle/merkle.go\<close>, first part: hashes, leaf and interior hashing, the
  split point, the Merkle Tree Hash and the hash of a range of leaves.

  The code computes on \<open>int64\<close> ranges with callbacks. The reference is RFC 9162, section
  2.1.1, on lists of leaf hashes (\<open>mth\<close>), and the main lemmas say that the code never
  reaches the panic of \<open>splitPoint\<close> on a non-empty range and returns the reference value.
\<close>

section \<open>Hashes\<close>

text \<open>
  \<open>Hash\<close> is \<open>[32]byte\<close>, here the 256-bit word with those bytes in big-endian order:
  \<open>hash_bytes h\<close> is the slice \<open>h[:]\<close> and \<open>bytes_hash\<close> is \<open>copy(h[:], b)\<close> into a zero
  hash, which drops excess bytes and leaves missing ones zero.
\<close>

type_synonym hash = "256 word"

definition hash_bytes :: "hash \<Rightarrow> bytes" where
  "hash_bytes h = be_bytes 32 (unat h)"

definition bytes_hash :: "bytes \<Rightarrow> hash" where
  "bytes_hash bs = of_nat (be_nat (take 32 (bs @ replicate 32 0)))"

definition EmptyHash :: hash where
  "EmptyHash = 0"

lemma length_hash_bytes [simp]: "length (hash_bytes h) = 32"
  by (simp add: hash_bytes_def)

lemma unat_hash_less: "unat (h :: hash) < 256 ^ 32"
  using unsigned_less [of h] by simp

lemma bytes_hash_hash_bytes [simp]: "bytes_hash (hash_bytes h) = h"
proof -
  have "be_nat (be_bytes 32 (unat h)) = unat h"
    by (rule be_nat_be_bytes_id [OF unat_hash_less])
  then show ?thesis
    by (simp add: bytes_hash_def hash_bytes_def)
qed

lemma hash_bytes_bytes_hash:
  assumes "length bs = 32"
  shows "hash_bytes (bytes_hash bs) = bs"
proof -
  have "be_nat bs < 2 ^ 256"
    using be_nat_bound [of bs] assms by simp
  then have "unat (of_nat (be_nat bs) :: hash) = be_nat bs"
    by (simp add: unat_of_nat)
  then show ?thesis
    using be_bytes_be_nat [of bs] assms by (simp add: hash_bytes_def bytes_hash_def)
qed

lemma hash_bytes_inject [simp]: "hash_bytes a = hash_bytes b \<longleftrightarrow> a = b"
  by (metis bytes_hash_hash_bytes)

text \<open>\<open>sha256.Sum256\<close>.\<close>

definition Sum256 :: "bytes \<Rightarrow> hash" where
  "Sum256 m = bytes_hash (sha256 m)"

lemma hash_bytes_Sum256 [simp]: "hash_bytes (Sum256 m) = sha256 m"
  by (simp add: Sum256_def hash_bytes_bytes_hash)

lemma Sum256_eq_iff: "Sum256 x = Sum256 y \<longleftrightarrow> sha256 x = sha256 y"
  by (metis Sum256_def hash_bytes_Sum256)

text \<open>The inputs that the two domain-separated hashes are applied to, and the hashes.\<close>

definition leaf_input :: "bytes \<Rightarrow> bytes" where
  "leaf_input data = 0x00 # data"

definition interior_input :: "hash \<Rightarrow> hash \<Rightarrow> bytes" where
  "interior_input left right = 0x01 # hash_bytes left @ hash_bytes right"

definition LeafHash :: "bytes \<Rightarrow> hash" where
  "LeafHash data = Sum256 (leaf_input data)"

definition InteriorHash :: "hash \<Rightarrow> hash \<Rightarrow> hash" where
  "InteriorHash left right = Sum256 (interior_input left right)"

lemma interior_input_inject [simp]:
  "interior_input a b = interior_input c d \<longleftrightarrow> a = c \<and> b = d"
  by (simp add: interior_input_def)

lemma leaf_input_inject [simp]: "leaf_input a = leaf_input b \<longleftrightarrow> a = b"
  by (simp add: leaf_input_def)

lemma leaf_input_not_interior [simp]: "leaf_input d \<noteq> interior_input a b"
  by (simp add: leaf_input_def interior_input_def)

text \<open>A collision of the hash function, as a pair of inputs.\<close>

definition collides :: "bytes \<Rightarrow> bytes \<Rightarrow> bool" where
  "collides x y \<longleftrightarrow> x \<noteq> y \<and> sha256 x = sha256 y"

lemma InteriorHash_eqD:
  "InteriorHash a b = InteriorHash c d \<Longrightarrow>
     a = c \<and> b = d \<or> collides (interior_input a b) (interior_input c d)"
  by (auto simp: InteriorHash_def Sum256_eq_iff collides_def)

lemma LeafHash_eqD: "LeafHash a = LeafHash b \<Longrightarrow> a = b \<or> collides (leaf_input a) (leaf_input b)"
  by (auto simp: LeafHash_def Sum256_eq_iff collides_def)

section \<open>The split point\<close>

text \<open>\<open>bits.Len\<close>: the number of bits of a natural number, 0 for 0.\<close>

fun bits_Len :: "nat \<Rightarrow> nat" where
  "bits_Len n = (if n = 0 then 0 else Suc (bits_Len (n div 2)))"

declare bits_Len.simps [simp del]

definition splitPoint :: "int \<Rightarrow> int option" where
  "splitPoint n = (if n < 2 then None else Some (2 ^ (bits_Len (nat (n - 1)) - 1)))"

lemma bits_Len_0 [simp]: "bits_Len 0 = 0"
  by (simp add: bits_Len.simps)

lemma bits_Len_pos [simp]: "0 < n \<Longrightarrow> 0 < bits_Len n"
  by (subst bits_Len.simps) simp

lemma bits_Len_upper: "n < 2 ^ bits_Len n"
proof (induction n rule: bits_Len.induct)
  case (1 n)
  show ?case
  proof (cases "n = 0")
    case False
    with 1 have "n div 2 < 2 ^ bits_Len (n div 2)" by simp
    then have "n < 2 * 2 ^ bits_Len (n div 2)" by linarith
    with False show ?thesis by (subst bits_Len.simps) simp
  qed simp
qed

lemma bits_Len_lower: "0 < n \<Longrightarrow> 2 ^ (bits_Len n - 1) \<le> n"
proof (induction n rule: bits_Len.induct)
  case (1 n)
  show ?case
  proof (cases "n = 1")
    case True
    then show ?thesis by (simp add: bits_Len.simps)
  next
    case False
    with 1(2) have half: "0 < n div 2" by linarith
    with 1 have "2 ^ (bits_Len (n div 2) - 1) \<le> n div 2" by simp
    then have "2 * 2 ^ (bits_Len (n div 2) - 1) \<le> n" by linarith
    then have "2 ^ bits_Len (n div 2) \<le> n"
      using bits_Len_pos [OF half] by (metis Suc_diff_1 power_Suc)
    with 1(2) show ?thesis by (subst bits_Len.simps) simp
  qed
qed

text \<open>The split of a list of \<open>n\<close> leaves: the largest power of two smaller than \<open>n\<close>.\<close>

definition split :: "nat \<Rightarrow> nat" where
  "split n = 2 ^ (bits_Len (n - 1) - 1)"

lemma split_less: "2 \<le> n \<Longrightarrow> split n < n"
  using bits_Len_lower [of "n - 1"] by (simp add: split_def)

lemma split_half: "2 \<le> n \<Longrightarrow> n \<le> 2 * split n"
proof -
  assume n: "2 \<le> n"
  have "n - 1 < 2 ^ bits_Len (n - 1)" by (rule bits_Len_upper)
  moreover have "2 * 2 ^ (bits_Len (n - 1) - 1) = (2 :: nat) ^ bits_Len (n - 1)"
    using n bits_Len_pos [of "n - 1"] by (metis Suc_diff_1 power_Suc diff_is_0_eq not_less_eq_eq
        numeral_2_eq_2 zero_less_diff One_nat_def Suc_le_lessD)
  ultimately show ?thesis by (simp add: split_def)
qed

lemma split_pos [simp]: "0 < split n"
  by (simp add: split_def)

lemma split_unique:
  assumes "2 ^ j < n" "n \<le> 2 * 2 ^ j"
  shows "split n = 2 ^ j"
proof -
  have n: "2 \<le> n"
    using assms(1) order_le_less_trans [of 1 "2 ^ j" n] by simp
  obtain i where i: "split n = 2 ^ i"
    by (simp add: split_def)
  have "2 ^ i < (2 :: nat) ^ Suc j" "2 ^ j < (2 :: nat) ^ Suc i"
    using split_less [OF n] split_half [OF n] assms unfolding i by simp_all
  then have "i < Suc j" "j < Suc i"
    by (simp_all only: power_strict_increasing_iff)
  then have "i = j" by simp
  with i show ?thesis by simp
qed

lemma split_pow2 [simp]: "split (2 * 2 ^ j) = 2 ^ j"
  by (rule split_unique) simp_all

lemma split_small [simp]:
  "split 2 = 1" "split (Suc (Suc 0)) = 1" "split 3 = 2" "split (Suc (Suc (Suc 0))) = 2"
  by (simp_all add: split_def bits_Len.simps)

lemma splitPoint_split: "2 \<le> n \<Longrightarrow> splitPoint n = Some (int (split (nat n)))"
  by (simp add: splitPoint_def split_def nat_diff_distrib)

lemma splitPoint_None [simp]: "splitPoint n = None \<longleftrightarrow> n < 2"
  by (simp add: splitPoint_def)

lemma split_rest_less [simp]: "2 \<le> n \<Longrightarrow> n - split n < n"
  by simp

lemma splitPoint_eq: "splitPoint n = Some k \<Longrightarrow> nat k = split (nat n)"
  by (auto simp: splitPoint_def split_def nat_diff_distrib split: if_splits)

lemma splitPoint_Some:
  assumes "splitPoint n = Some k"
  shows "2 \<le> n \<and> 0 < k \<and> k < n \<and> n \<le> 2 * k"
proof -
  have n: "2 \<le> n"
    using assms by (simp add: splitPoint_def split: if_splits)
  then have k: "k = int (split (nat n))"
    using assms by (simp add: splitPoint_split)
  have "2 \<le> nat n" using n by simp
  then have "split (nat n) < nat n" "nat n \<le> 2 * split (nat n)"
    by (rule split_less, rule split_half)
  then show ?thesis
    using n split_pos [of "nat n"] unfolding k by (intro conjI; linarith)
qed

lemma splitPoint_ex: "2 \<le> n \<Longrightarrow> \<exists>k. splitPoint n = Some k"
  by (simp add: splitPoint_split)

section \<open>The Merkle Tree Hash\<close>

function MTH :: "bytes list \<Rightarrow> hash option" where
  "MTH entries =
     (let n = int (length entries) in
      if n = 0 then Some (Sum256 [])
      else if n = 1 then Some (LeafHash (entries ! 0))
      else do {
        k \<leftarrow> splitPoint n;
        left \<leftarrow> MTH (take (nat k) entries);
        right \<leftarrow> MTH (drop (nat k) entries);
        Some (InteriorHash left right)
      })"
  by pat_completeness auto
termination by (relation "measure length") (auto dest!: splitPoint_Some)

declare MTH.simps [simp del]

text \<open>\<open>computeSubtreeHash\<close> on the range \<open>[start, end)\<close>; \<open>SubtreeHash\<close> is its exported name.\<close>

function computeSubtreeHash :: "int \<Rightarrow> int \<Rightarrow> (int \<Rightarrow> hash) \<Rightarrow> hash option" where
  "computeSubtreeHash start e hashAt =
     (let n = e - start in
      if n = 1 then Some (hashAt start)
      else do {
        k \<leftarrow> splitPoint n;
        left \<leftarrow> computeSubtreeHash start (start + k) hashAt;
        right \<leftarrow> computeSubtreeHash (start + k) e hashAt;
        Some (InteriorHash left right)
      })"
  by pat_completeness auto
termination by (relation "measure (\<lambda>(s, e, _). nat (e - s))") (auto dest!: splitPoint_Some)

declare computeSubtreeHash.simps [simp del]

definition SubtreeHash :: "int \<Rightarrow> int \<Rightarrow> (int \<Rightarrow> hash) \<Rightarrow> hash option" where
  "SubtreeHash start e hashAt = computeSubtreeHash start e hashAt"

subsection \<open>The reference definition\<close>

text \<open>RFC 9162, section 2.1.1, over the list of leaf hashes.\<close>

function mth :: "hash list \<Rightarrow> hash" where
  "mth L =
     (if length L = 0 then Sum256 []
      else if length L = 1 then hd L
      else InteriorHash (mth (take (split (length L)) L)) (mth (drop (split (length L)) L)))"
  by pat_completeness auto
termination
proof (relation "measure length", goal_cases)
  case (2 L)
  then have "2 \<le> length L" by (cases L rule: remdups_adj.cases) auto
  then show ?case using split_less [of "length L"] by simp
next
  case (3 L)
  then have "2 \<le> length L" by (cases L rule: remdups_adj.cases) auto
  then show ?case by simp
qed simp

declare mth.simps [simp del]

lemma mth_Nil [simp]: "mth [] = Sum256 []"
  by (simp add: mth.simps)

lemma mth_single [simp]: "mth [x] = x"
  by (simp add: mth.simps)

lemma mth_split:
  "2 \<le> length L \<Longrightarrow>
     mth L = InteriorHash (mth (take (split (length L)) L)) (mth (drop (split (length L)) L))"
  by (subst mth.simps) auto

text \<open>The induction that follows the tree.\<close>

lemma tree_induct [case_names Nil Leaf Node]:
  assumes "P []" "\<And>x. P [x]"
    and "\<And>L. 2 \<le> length L \<Longrightarrow> P (take (split (length L)) L) \<Longrightarrow> P (drop (split (length L)) L) \<Longrightarrow> P L"
  shows "P L"
proof (induction L rule: measure_induct_rule [where f = length])
  case (less L)
  consider "L = []" | x where "L = [x]" | "2 \<le> length L"
    by (cases L rule: remdups_adj.cases) auto
  then show ?case
  proof cases
    case 3
    then have "P (take (split (length L)) L)" "P (drop (split (length L)) L)"
      using split_less [OF 3] split_rest_less [OF 3] by (simp_all add: less)
    with 3 show ?thesis by (rule assms(3))
  qed (simp_all add: assms(1,2))
qed

theorem MTH_mth: "MTH entries = Some (mth (map LeafHash entries))"
proof (induction entries rule: measure_induct_rule [where f = length])
  case (less es)
  consider "es = []" | x where "es = [x]" | "2 \<le> length es"
    by (cases es rule: remdups_adj.cases) auto
  then show ?case
  proof cases
    case 3
    let ?k = "split (length es)"
    have "MTH (take ?k es) = Some (mth (map LeafHash (take ?k es)))"
      "MTH (drop ?k es) = Some (mth (map LeafHash (drop ?k es)))"
      using split_less [OF 3] split_rest_less [OF 3] by (simp_all add: less)
    with 3 show ?thesis
      by (subst MTH.simps)
        (auto simp: Let_def splitPoint_split mth_split [of "map LeafHash es"] take_map drop_map)
  qed (simp_all add: MTH.simps)
qed

lemma mth_rng_split:
  assumes "splitPoint (e - s) = Some k"
  shows "mth (rng h s e) = InteriorHash (mth (rng h s (s + k))) (mth (rng h (s + k) e))"
proof -
  note k = splitPoint_Some [OF assms]
  have "mth (rng h s e) = InteriorHash (mth (take (nat k) (rng h s e))) (mth (drop (nat k) (rng h s e)))"
    using mth_split [of "rng h s e"] k splitPoint_eq [OF assms] by (simp add: nat_le_iff le_nat_iff)
  with k show ?thesis
    by (simp add: slice_simps)
qed

theorem computeSubtreeHash_mth:
  "s < e \<Longrightarrow> computeSubtreeHash s e h = Some (mth (rng h s e))"
proof (induction s e h rule: computeSubtreeHash.induct)
  case (1 s e h)
  show ?case
  proof (cases "e - s = 1")
    case True
    then have "e = s + 1" by simp
    then show ?thesis by (simp add: computeSubtreeHash.simps)
  next
    case False
    with "1.prems" obtain k where k: "splitPoint (e - s) = Some k"
      using splitPoint_ex [of "e - s"] by auto
    note kb = splitPoint_Some [OF k]
    have left: "computeSubtreeHash s (s + k) h = Some (mth (rng h s (s + k)))"
      using "1.IH"(1) [OF refl False k] kb by simp
    moreover have "computeSubtreeHash (s + k) e h = Some (mth (rng h (s + k) e))"
      using "1.IH"(2) [OF refl False k left] kb by simp
    ultimately show ?thesis
      using False k by (subst computeSubtreeHash.simps) (simp add: mth_rng_split [OF k])
  qed
qed

text \<open>On an empty or inverted range the recursion reaches the panic of \<open>splitPoint\<close>.\<close>

lemma computeSubtreeHash_panics: "e \<le> s \<Longrightarrow> computeSubtreeHash s e h = None"
  by (subst computeSubtreeHash.simps) (simp add: splitPoint_def)

end
