(* ===== verification/MerkleInclusion.thy ===== *)
theory MerkleInclusion
  imports MerkleTree
begin

text \<open>
  \<open>src/internal/merkle/merkle.go\<close>, second part: inclusion proofs. Generation
  (\<open>InclusionProof\<close>) is shown to be the \<open>PATH\<close> of RFC 9162, section 2.1.3.1; verification
  by recomputing the root (\<open>RootFromInclusionProof\<close>) accepts every generated proof, and a
  proof of the right length that it accepts is the generated one or exhibits a collision.
  \<open>VerifyInclusion\<close>, which walks the bits of the index, agrees with it on the complete
  trees and is characterised on the smallest tree where it does not.
\<close>

section \<open>The code\<close>

function inclusionProof :: "int \<Rightarrow> int \<Rightarrow> int \<Rightarrow> (int \<Rightarrow> hash) \<Rightarrow> hash list option" where
  "inclusionProof index start e hashAt =
     (let n = e - start in
      if n = 1 then Some []
      else do {
        k \<leftarrow> splitPoint n;
        if index - start < k then do {
          proof \<leftarrow> inclusionProof index start (start + k) hashAt;
          sibling \<leftarrow> computeSubtreeHash (start + k) e hashAt;
          Some (proof @ [sibling])
        } else do {
          proof \<leftarrow> inclusionProof index (start + k) e hashAt;
          sibling \<leftarrow> computeSubtreeHash start (start + k) hashAt;
          Some (proof @ [sibling])
        }
      })"
  by pat_completeness auto
termination
  by (relation "measure (\<lambda>(_, s, e, _). nat (e - s))") (auto dest!: splitPoint_Some)

declare inclusionProof.simps [simp del]

definition InclusionProof :: "int \<Rightarrow> int \<Rightarrow> (int \<Rightarrow> hash) \<Rightarrow> (goerr + hash list) option" where
  "InclusionProof index sz hashAt =
     (if index < 0 \<or> index \<ge> sz then
        Some (Inl (Errorf ''merkle.InclusionProof: index %d out of range [0, %d)''))
      else if sz \<le> 0 then
        Some (Inl (Errorf ''merkle.InclusionProof: invalid tree size %d''))
      else do {
        proof \<leftarrow> inclusionProof index 0 sz hashAt;
        Some (Inr proof)
      })"

function pathLen :: "int \<Rightarrow> int \<Rightarrow> nat option" where
  "pathLen index sz =
     (if sz \<le> 1 then Some 0
      else do {
        k \<leftarrow> splitPoint sz;
        if index < k then do {
          l \<leftarrow> pathLen index k;
          Some (l + 1)
        } else do {
          l \<leftarrow> pathLen (index - k) (sz - k);
          Some (l + 1)
        }
      })"
  by pat_completeness auto
termination by (relation "measure (\<lambda>(_, s). nat s)") (auto dest!: splitPoint_Some)

declare pathLen.simps [simp del]

function rootFromProof :: "int \<Rightarrow> int \<Rightarrow> int \<Rightarrow> hash \<Rightarrow> hash list \<Rightarrow> nat \<Rightarrow> hash option" where
  "rootFromProof index start e leafHash proof proofIdx =
     (let n = e - start in
      if n = 1 then Some leafHash
      else if proofIdx \<ge> length proof then Some leafHash
      else do {
        k \<leftarrow> splitPoint n;
        if index - start < k then do {
          leftHash \<leftarrow> rootFromProof index start (start + k) leafHash proof proofIdx;
          l \<leftarrow> pathLen (index - start) k;
          if proofIdx + l < length proof then
            Some (InteriorHash leftHash (proof ! (proofIdx + l)))
          else Some leftHash
        } else do {
          rightHash \<leftarrow> rootFromProof index (start + k) e leafHash proof proofIdx;
          l \<leftarrow> pathLen (index - start - k) (n - k);
          if proofIdx + l < length proof then
            Some (InteriorHash (proof ! (proofIdx + l)) rightHash)
          else Some rightHash
        }
      })"
  by pat_completeness auto
termination
  by (relation "measure (\<lambda>(_, s, e, _). nat (e - s))") (auto dest!: splitPoint_Some)

declare rootFromProof.simps [simp del]

definition RootFromInclusionProof :: "int \<Rightarrow> int \<Rightarrow> hash \<Rightarrow> hash list \<Rightarrow> hash option" where
  "RootFromInclusionProof index sz leafHash proof = rootFromProof index 0 sz leafHash proof 0"

text \<open>
  The loop of \<open>VerifyInclusion\<close>: Go's \<open>index%2\<close> and \<open>index /= 2\<close> on a non-negative index.
\<close>

primrec verifyInclusionLoop :: "hash list \<Rightarrow> int \<Rightarrow> hash \<Rightarrow> hash" where
  "verifyInclusionLoop [] index h = h"
| "verifyInclusionLoop (sibling # proof) index h =
     verifyInclusionLoop proof (index div 2)
       (if index mod 2 = 0 then InteriorHash h sibling else InteriorHash sibling h)"

definition VerifyInclusion :: "hash \<Rightarrow> int \<Rightarrow> int \<Rightarrow> hash list \<Rightarrow> hash \<Rightarrow> bool" where
  "VerifyInclusion leafHash index sz proof root =
     (if index < 0 \<or> index \<ge> sz then False
      else verifyInclusionLoop proof index leafHash = root)"

section \<open>The reference definitions\<close>

text \<open>\<open>path m L\<close> is \<open>PATH(m, D[n])\<close> of RFC 9162 for the list \<open>L\<close> of leaf hashes.\<close>

function path :: "nat \<Rightarrow> hash list \<Rightarrow> hash list" where
  "path m L =
     (if length L < 2 then []
      else let k = split (length L) in
        if m < k then path m (take k L) @ [mth (drop k L)]
        else path (m - k) (drop k L) @ [mth (take k L)])"
  by pat_completeness auto
termination
  by (relation "measure (length \<circ> snd)") (auto simp: split_less not_less)

declare path.simps [simp del]

text \<open>
  \<open>climb m n leaf proof\<close> recomputes the root of a tree of \<open>n\<close> leaves from the leaf at \<open>m\<close>
  and a proof, last element outermost; \<open>depth m n\<close> is the length of such a proof.
\<close>

function depth :: "nat \<Rightarrow> nat \<Rightarrow> nat" where
  "depth m n =
     (if n < 2 then 0
      else if m < split n then Suc (depth m (split n)) else Suc (depth (m - split n) (n - split n)))"
  by pat_completeness auto
termination by (relation "measure snd") (auto simp: split_less not_less)

declare depth.simps [simp del]

function climb :: "nat \<Rightarrow> nat \<Rightarrow> hash \<Rightarrow> hash list \<Rightarrow> hash" where
  "climb m n leaf proof =
     (if n < 2 then leaf
      else if m < split n then InteriorHash (climb m (split n) leaf (butlast proof)) (last proof)
      else InteriorHash (last proof) (climb (m - split n) (n - split n) leaf (butlast proof)))"
  by pat_completeness auto
termination by (relation "measure (fst \<circ> snd)") (auto simp: split_less not_less)

declare climb.simps [simp del]

lemma depth_small [simp]: "n < 2 \<Longrightarrow> depth m n = 0"
  by (simp add: depth.simps)

lemma depth_split:
  "2 \<le> n \<Longrightarrow> depth m n = (if m < split n then Suc (depth m (split n)) else Suc (depth (m - split n) (n - split n)))"
  by (subst depth.simps) simp

lemma climb_small [simp]: "n < 2 \<Longrightarrow> climb m n leaf proof = leaf"
  by (simp add: climb.simps)

lemma climb_split:
  "2 \<le> n \<Longrightarrow> climb m n leaf proof =
     (if m < split n then InteriorHash (climb m (split n) leaf (butlast proof)) (last proof)
      else InteriorHash (last proof) (climb (m - split n) (n - split n) leaf (butlast proof)))"
  by (subst climb.simps) simp

lemma path_small [simp]: "length L < 2 \<Longrightarrow> path m L = []"
  by (simp add: path.simps)

lemma path_split:
  "2 \<le> length L \<Longrightarrow> path m L =
     (if m < split (length L)
      then path m (take (split (length L)) L) @ [mth (drop (split (length L)) L)]
      else path (m - split (length L)) (drop (split (length L)) L) @ [mth (take (split (length L)) L)])"
  by (subst path.simps) (simp add: Let_def)

lemma length_path [simp]: "length (path m L) = depth m (length L)"
proof (induction L arbitrary: m rule: tree_induct)
  case (Node L)
  then show ?case
    using split_less [OF Node(1)] by (simp add: path_split depth_split min_def)
qed simp_all

theorem climb_path: "m < length L \<Longrightarrow> climb m (length L) (L ! m) (path m L) = mth L"
proof (induction L arbitrary: m rule: tree_induct)
  case (Node L)
  let ?k = "split (length L)"
  note k = split_less [OF Node(1)]
  show ?case
  proof (cases "m < ?k")
    case True
    then have "climb m ?k (L ! m) (path m (take ?k L)) = mth (take ?k L)"
      using Node(2) [of m] k by (simp add: min_def)
    with True show ?thesis
      by (simp add: climb_split [OF Node(1)] path_split [OF Node(1)] mth_split [OF Node(1)])
  next
    case False
    then have "climb (m - ?k) (length L - ?k) (L ! m) (path (m - ?k) (drop ?k L)) = mth (drop ?k L)"
      using Node(3) [of "m - ?k"] Node(4) by simp
    with False show ?thesis
      by (simp add: climb_split [OF Node(1)] path_split [OF Node(1)] mth_split [OF Node(1)])
  qed
qed simp_all

section \<open>The code computes the reference\<close>

lemma path_rng_split:
  assumes "splitPoint (e - s) = Some k" "s \<le> i"
  shows "path (nat (i - s)) (rng h s e) =
    (if i - s < k then path (nat (i - s)) (rng h s (s + k)) @ [mth (rng h (s + k) e)]
     else path (nat (i - (s + k))) (rng h (s + k) e) @ [mth (rng h s (s + k))])"
proof -
  note k = splitPoint_Some [OF assms(1)]
  have sp: "split (nat (e - s)) = nat k"
    using splitPoint_eq [OF assms(1)] by simp
  have "2 \<le> length (rng h s e)"
    using k by (simp add: le_nat_iff)
  moreover have "nat (i - s) < nat k \<longleftrightarrow> i - s < k" "nat (i - s) - nat k = nat (i - (s + k))"
    using k assms(2) by linarith+
  ultimately show ?thesis
    using k by (simp add: path_split sp slice_simps)
qed

lemma inclusionProof_path:
  "s \<le> i \<Longrightarrow> i < e \<Longrightarrow> inclusionProof i s e h = Some (path (nat (i - s)) (rng h s e))"
proof (induction i s e h rule: inclusionProof.induct)
  case (1 i s e h)
  show ?case
  proof (cases "e - s = 1")
    case True
    then show ?thesis by (subst inclusionProof.simps) simp
  next
    case False
    with "1.prems" obtain k where k: "splitPoint (e - s) = Some k"
      using splitPoint_ex [of "e - s"] by auto
    note kb = splitPoint_Some [OF k]
    have split: "computeSubtreeHash s (s + k) h = Some (mth (rng h s (s + k)))"
      "computeSubtreeHash (s + k) e h = Some (mth (rng h (s + k) e))"
      using kb by (simp_all add: computeSubtreeHash_mth)
    show ?thesis
    proof (cases "i - s < k")
      case True
      then have "inclusionProof i s (s + k) h = Some (path (nat (i - s)) (rng h s (s + k)))"
        using "1.IH"(1) [OF refl False k True] "1.prems" kb by simp
      with True False k split "1.prems" show ?thesis
        by (subst inclusionProof.simps) (simp add: path_rng_split [OF k])
    next
      case 2: False
      then have "inclusionProof i (s + k) e h = Some (path (nat (i - (s + k))) (rng h (s + k) e))"
        using "1.IH"(2) [OF refl False k 2] "1.prems" kb by simp
      with 2 False k split "1.prems" show ?thesis
        by (subst inclusionProof.simps) (simp add: path_rng_split [OF k])
    qed
  qed
qed

lemma depth_int_split:
  assumes "splitPoint n = Some k" "0 \<le> i"
  shows "depth (nat i) (nat n) =
    (if i < k then Suc (depth (nat i) (nat k)) else Suc (depth (nat (i - k)) (nat (n - k))))"
  using splitPoint_Some [OF assms(1)] splitPoint_eq [OF assms(1)] assms(2)
  by (subst depth_split) (auto simp: nat_less_eq_zless nat_diff_distrib)

lemma climb_int_split:
  assumes "splitPoint n = Some k" "0 \<le> i"
  shows "climb (nat i) (nat n) leaf proof =
    (if i < k then InteriorHash (climb (nat i) (nat k) leaf (butlast proof)) (last proof)
     else InteriorHash (last proof) (climb (nat (i - k)) (nat (n - k)) leaf (butlast proof)))"
  using splitPoint_Some [OF assms(1)] splitPoint_eq [OF assms(1)] assms(2)
  by (subst climb_split) (auto simp: nat_less_eq_zless nat_diff_distrib)

lemma pathLen_depth: "0 \<le> i \<Longrightarrow> i < n \<Longrightarrow> pathLen i n = Some (depth (nat i) (nat n))"
proof (induction i n rule: pathLen.induct)
  case (1 i n)
  show ?case
  proof (cases "n \<le> 1")
    case True
    then show ?thesis by (subst pathLen.simps) simp
  next
    case False
    then obtain k where k: "splitPoint n = Some k"
      using splitPoint_ex [of n] by auto
    with 1 False splitPoint_Some [OF k] show ?thesis
      by (subst pathLen.simps) (cases "i < k"; simp add: depth_int_split [OF k])
  qed
qed

lemma rootFromProof_climb:
  assumes "s \<le> i" "i < e" "p + depth (nat (i - s)) (nat (e - s)) \<le> length pf"
  shows "rootFromProof i s e leaf pf p =
    Some (climb (nat (i - s)) (nat (e - s)) leaf (take (depth (nat (i - s)) (nat (e - s))) (drop p pf)))"
  using assms
proof (induction i s e leaf pf p rule: rootFromProof.induct)
  case (1 i s e leaf pf p)
  show ?case
  proof (cases "e - s = 1")
    case True
    then show ?thesis by (subst rootFromProof.simps) simp
  next
    case False
    with "1.prems" obtain k where k: "splitPoint (e - s) = Some k"
      using splitPoint_ex [of "e - s"] by auto
    note kb = splitPoint_Some [OF k]
    have i0: "0 \<le> i - s" using "1.prems" by simp
    note d = depth_int_split [OF k i0] and c = climb_int_split [OF k i0]
    have p: "\<not> length pf \<le> p" using "1.prems"(3) d by (auto split: if_splits)
    show ?thesis
    proof (cases "i - s < k")
      case True
      let ?d = "depth (nat (i - s)) (nat k)"
      have len: "p + ?d < length pf" using "1.prems"(3) d True by simp
      have "rootFromProof i s (s + k) leaf pf p =
          Some (climb (nat (i - s)) (nat k) leaf (take ?d (drop p pf)))"
        using "1.IH"(1) [OF refl False p k True] "1.prems" len True by simp
      moreover have "pathLen (i - s) k = Some ?d"
        using i0 True by (simp add: pathLen_depth)
      ultimately show ?thesis
        using False p k True len
        by (subst rootFromProof.simps) (simp add: Let_def c d take_Suc_conv_app_nth)
    next
      case 2: False
      let ?d = "depth (nat (i - s - k)) (nat (e - s - k))"
      have len: "p + ?d < length pf" using "1.prems"(3) d 2 by simp
      have "rootFromProof i (s + k) e leaf pf p =
          Some (climb (nat (i - s - k)) (nat (e - s - k)) leaf (take ?d (drop p pf)))"
        using "1.IH"(2) [OF refl False p k 2] "1.prems" len 2 by (simp add: diff_diff_eq)
      moreover have "pathLen (i - s - k) (e - s - k) = Some ?d"
        using i0 2 "1.prems" by (simp add: pathLen_depth)
      ultimately show ?thesis
        using False p k 2 len
        by (subst rootFromProof.simps) (simp add: Let_def c d take_Suc_conv_app_nth)
    qed
  qed
qed

lemma RootFromInclusionProof_climb:
  assumes "0 \<le> i" "i < n" "depth (nat i) (nat n) \<le> length pf"
  shows "RootFromInclusionProof i n leaf pf =
    Some (climb (nat i) (nat n) leaf (take (depth (nat i) (nat n)) pf))"
  using rootFromProof_climb [of 0 i n 0 pf leaf] assms by (simp add: RootFromInclusionProof_def)

text \<open>
  The remaining branch of \<open>rootFromProof\<close>: on an empty or inverted range a non-empty proof
  reaches the panic, an empty one returns the leaf hash.
\<close>

lemma RootFromInclusionProof_degenerate:
  "n \<le> 0 \<Longrightarrow> RootFromInclusionProof i n leaf pf = (if pf = [] then Some leaf else None)"
  unfolding RootFromInclusionProof_def by (subst rootFromProof.simps) (simp add: splitPoint_def)

section \<open>Soundness of an accepted proof\<close>

text \<open>
  The interior inputs that the honest tree hashes on the way from leaf \<open>m\<close> to its root, and
  the ones that a verifier hashes when it recomputes the root from a proof.
\<close>

function path_inputs :: "nat \<Rightarrow> hash list \<Rightarrow> bytes list" where
  "path_inputs m L =
     (if length L < 2 then []
      else let k = split (length L) in
        interior_input (mth (take k L)) (mth (drop k L)) #
        (if m < k then path_inputs m (take k L) else path_inputs (m - k) (drop k L)))"
  by pat_completeness auto
termination
  by (relation "measure (length \<circ> snd)") (auto simp: split_less not_less)

declare path_inputs.simps [simp del]

function climb_inputs :: "nat \<Rightarrow> nat \<Rightarrow> hash \<Rightarrow> hash list \<Rightarrow> bytes list" where
  "climb_inputs m n leaf proof =
     (if n < 2 then []
      else if m < split n then
        interior_input (climb m (split n) leaf (butlast proof)) (last proof) #
        climb_inputs m (split n) leaf (butlast proof)
      else
        interior_input (last proof) (climb (m - split n) (n - split n) leaf (butlast proof)) #
        climb_inputs (m - split n) (n - split n) leaf (butlast proof))"
  by pat_completeness auto
termination by (relation "measure (fst \<circ> snd)") (auto simp: split_less not_less)

declare climb_inputs.simps [simp del]

definition clash :: "bytes list \<Rightarrow> bytes list \<Rightarrow> bool" where
  "clash xs ys \<longleftrightarrow> (\<exists>x\<in>set xs. \<exists>y\<in>set ys. collides x y)"

lemma clash_Cons:
  "clash (x # xs) (y # ys) \<longleftrightarrow> collides x y \<or> clash [x] ys \<or> clash xs [y] \<or> clash xs ys"
  by (auto simp: clash_def)

lemma clash_ConsI [intro]:
  "collides x y \<Longrightarrow> clash (x # xs) (y # ys)" "clash xs ys \<Longrightarrow> clash (x # xs) (y # ys)"
  by (auto simp: clash_def)

lemma climb_sound:
  assumes "m < length L" "length pf = depth m (length L)" "climb m (length L) leaf pf = mth L"
  shows "leaf = L ! m \<and> pf = path m L \<or> clash (path_inputs m L) (climb_inputs m (length L) leaf pf)"
  using assms
proof (induction L arbitrary: m pf rule: tree_induct)
  case (Node L)
  let ?k = "split (length L)"
  note k = split_less [OF Node(1)]
  have ne: "pf \<noteq> []"
    using Node(1,5) by (auto simp: depth_split split: if_splits)
  show ?case
  proof (cases "m < ?k")
    case True
    have eq: "InteriorHash (climb m ?k leaf (butlast pf)) (last pf) = InteriorHash (mth (take ?k L)) (mth (drop ?k L))"
      using Node(6) True by (simp add: climb_split [OF Node(1)] mth_split [OF Node(1)])
    have cl: "path_inputs m L = interior_input (mth (take ?k L)) (mth (drop ?k L)) # path_inputs m (take ?k L)"
      "climb_inputs m (length L) leaf pf =
        interior_input (climb m ?k leaf (butlast pf)) (last pf) # climb_inputs m ?k leaf (butlast pf)"
      using Node(1) True by (simp_all add: Let_def path_inputs.simps [of m L] climb_inputs.simps [of m "length L"])
    have IH: "climb m ?k leaf (butlast pf) = mth (take ?k L) \<Longrightarrow>
        leaf = L ! m \<and> butlast pf = path m (take ?k L) \<or>
        clash (path_inputs m (take ?k L)) (climb_inputs m ?k leaf (butlast pf))"
      using Node(2) [of m "butlast pf"] Node(5) True k
      by (simp add: depth_split [OF Node(1)] min_def)
    show ?thesis
      using InteriorHash_eqD [OF eq [symmetric]] IH True append_butlast_last_id [OF ne]
      unfolding cl path_split [OF Node(1)] by auto
  next
    case False
    have eq: "InteriorHash (last pf) (climb (m - ?k) (length L - ?k) leaf (butlast pf)) =
        InteriorHash (mth (take ?k L)) (mth (drop ?k L))"
      using Node(6) False by (simp add: climb_split [OF Node(1)] mth_split [OF Node(1)])
    have cl: "path_inputs m L = interior_input (mth (take ?k L)) (mth (drop ?k L)) # path_inputs (m - ?k) (drop ?k L)"
      "climb_inputs m (length L) leaf pf =
        interior_input (last pf) (climb (m - ?k) (length L - ?k) leaf (butlast pf)) #
        climb_inputs (m - ?k) (length L - ?k) leaf (butlast pf)"
      using Node(1) False by (simp_all add: Let_def path_inputs.simps [of m L] climb_inputs.simps [of m "length L"])
    have IH: "climb (m - ?k) (length L - ?k) leaf (butlast pf) = mth (drop ?k L) \<Longrightarrow>
        leaf = L ! m \<and> butlast pf = path (m - ?k) (drop ?k L) \<or>
        clash (path_inputs (m - ?k) (drop ?k L)) (climb_inputs (m - ?k) (length L - ?k) leaf (butlast pf))"
      using Node(3) [of "m - ?k" "butlast pf"] Node(4,5) False k
      by (simp add: depth_split [OF Node(1)])
    show ?thesis
      using InteriorHash_eqD [OF eq [symmetric]] IH False append_butlast_last_id [OF ne]
      unfolding cl path_split [OF Node(1)] by auto
  qed
qed simp_all

section \<open>The bit-walking verifier\<close>

lemma verifyInclusionLoop_snoc:
  "verifyInclusionLoop (pf @ [x]) i h =
     (if i div 2 ^ length pf mod 2 = 0 then InteriorHash (verifyInclusionLoop pf i h) x
      else InteriorHash x (verifyInclusionLoop pf i h))"
  by (induction pf arbitrary: i h) (simp_all add: zdiv_zmult2_eq)

lemma mod_double_cases:
  fixes i M :: int
  assumes "0 < M"
  shows "i div M mod 2 = 0 \<Longrightarrow> i mod (2 * M) = i mod M \<and> i mod (2 * M) < M"
    and "i div M mod 2 \<noteq> 0 \<Longrightarrow> i mod (2 * M) = M + i mod M \<and> M \<le> i mod (2 * M)"
  using assms by (simp_all add: mult.commute [of 2] mod_mult2_eq' zmod_zmult2_eq)

lemma verifyInclusionLoop_climb:
  "verifyInclusionLoop pf i h = climb (nat (i mod 2 ^ length pf)) (2 ^ length pf) h pf"
proof (induction pf rule: rev_induct)
  case Nil
  show ?case by simp
next
  case (snoc x pf)
  let ?M = "2 ^ length pf :: int"
  have two: "2 \<le> (2 :: nat) * 2 ^ length pf" by simp
  have nat_M: "nat ?M = 2 ^ length pf" by (simp add: nat_power_eq)
  have pos: "0 \<le> i mod ?M" "0 < ?M" by simp_all
  show ?case
  proof (cases "i div ?M mod 2 = 0")
    case True
    note * = mod_double_cases(1) [OF pos(2) True]
    then have "nat (i mod (2 * ?M)) < 2 ^ length pf"
      using pos nat_M by (metis nat_mono_iff)
    with True * snoc show ?thesis
      by (simp add: verifyInclusionLoop_snoc climb_split [OF two])
  next
    case False
    note * = mod_double_cases(2) [OF pos(2) False]
    have "nat (i mod (2 * ?M)) = 2 ^ length pf + nat (i mod ?M)"
      using * pos nat_M by (simp add: nat_add_distrib)
    with False snoc show ?thesis
      by (simp add: verifyInclusionLoop_snoc climb_split [OF two])
  qed
qed

lemma depth_pow2 [simp]: "m < 2 ^ d \<Longrightarrow> depth m (2 ^ d) = d"
proof (induction d arbitrary: m)
  case (Suc d)
  have two: "2 \<le> (2 :: nat) * 2 ^ d" by simp
  show ?case
    using Suc by (auto simp: depth_split [OF two])
qed simp

lemma RootFromInclusionProof_path:
  assumes "0 \<le> i" "i < sz"
  shows "RootFromInclusionProof i sz (h i) (path (nat i) (rng h 0 sz)) = Some (mth (rng h 0 sz))"
proof -
  let ?L = "rng h 0 sz"
  have "RootFromInclusionProof i sz (h i) (path (nat i) ?L) =
      Some (climb (nat i) (length ?L) (?L ! nat i) (path (nat i) ?L))"
    using assms by (subst RootFromInclusionProof_climb) (simp_all add: nth_rng)
  also have "\<dots> = Some (mth ?L)"
    using assms by (subst climb_path) simp_all
  finally show ?thesis .
qed

section \<open>Properties\<close>

text \<open>
  C16. \<open>InclusionProof\<close> never panics; for an index outside \<open>[0, size)\<close> it returns the range
  error and otherwise exactly the RFC 9162 audit path of the leaf in the tree of the leaf
  hashes \<open>hashAt(0), ..., hashAt(size - 1)\<close>.
\<close>

theorem InclusionProof_is_rfc_path:
  "InclusionProof i sz h = Some
     (if 0 \<le> i \<and> i < sz then Inr (path (nat i) (rng h 0 sz))
      else Inl (Errorf ''merkle.InclusionProof: index %d out of range [0, %d)''))"
  using inclusionProof_path [of 0 i sz h] by (auto simp: InclusionProof_def)

text \<open>
  Round trip: for every tree size and every index in range, \<open>RootFromInclusionProof\<close> on
  the leaf hash and the proof that \<open>InclusionProof\<close> returns is the Merkle Tree Hash of the
  whole tree, also when the size is not a power of two.
\<close>

lemma inclusion_roundtrip:
  assumes "0 \<le> i" "i < sz" "InclusionProof i sz h = Some (Inr pf)"
  shows "RootFromInclusionProof i sz (h i) pf = Some (mth (rng h 0 sz))"
  using assms inclusionProof_path [of 0 i sz h] RootFromInclusionProof_path [of i sz h]
  by (simp add: InclusionProof_def)

lemma inclusion_roundtrip_witness:
  "RootFromInclusionProof 2 3 (of_int 2) [InteriorHash (of_int 0) (of_int 1)] = Some (mth [0, 1, 2])"
proof -
  have "splitPoint 3 = Some 2" "splitPoint 2 = Some 1"
    by (simp_all add: splitPoint_def bits_Len.simps)
  then have "InclusionProof 2 3 of_int = Some (Inr [InteriorHash (of_int 0) (of_int 1)])"
    by (simp add: InclusionProof_def inclusionProof.simps [of 2 0 3] inclusionProof.simps [of 2 2 3]
        computeSubtreeHash.simps [of 0 2] computeSubtreeHash.simps [of 0 1] computeSubtreeHash.simps [of 1 2])
  moreover have "rng of_int 0 3 = [0, 1, 2 :: hash]"
    by (simp add: rng_def upto.simps)
  ultimately show ?thesis
    using inclusion_roundtrip [of 2 3 of_int "[InteriorHash (of_int 0) (of_int 1)]"] by simp
qed

text \<open>
  C8. Soundness: if a proof is at least as long as the audit path of its index and tree size and
  \<open>RootFromInclusionProof\<close> gives the Merkle Tree Hash of the leaf hashes \<open>L\<close>, then the leaf
  hash is the one at that index of \<open>L\<close> and the proof begins with the audit path, or two different
  interior inputs, one hashed in the tree over \<open>L\<close> and one hashed by the verifier, collide
  under SHA-256. What follows the path in the proof is ignored. The length is not checked by the
  code, and it matters: \<open>short_proof_wrong_leaf\<close> shows a proof that is too short and that is
  accepted for the hash of another leaf.
\<close>

theorem inclusion_sound:
  assumes "m < length L" "pathLen (int m) (int (length L)) = Some l" "l \<le> length pf"
    and "RootFromInclusionProof (int m) (int (length L)) leaf pf = Some (mth L)"
  shows "leaf = L ! m \<and> take l pf = path m L \<or>
    clash (path_inputs m L) (climb_inputs m (length L) leaf (take l pf))"
proof -
  have "l = depth m (length L)"
    using assms(1,2) by (simp add: pathLen_depth)
  then show ?thesis
    using assms(1,3,4) by (intro climb_sound) (simp_all add: RootFromInclusionProof_climb)
qed

theorem inclusion_sound_witness:
  "(1 :: hash) = [0, 1] ! 1 \<and> [0] = path 1 [0, 1] \<or>
   clash (path_inputs 1 [0, 1]) (climb_inputs 1 2 1 [0])"
proof -
  have "splitPoint 2 = Some 1"
    by (simp add: splitPoint_def bits_Len.simps)
  then have "pathLen 1 2 = Some 1" "RootFromInclusionProof 1 2 1 [0, 5] = Some (mth [0, 1])"
    by (simp_all add: pathLen.simps [of 1 2] pathLen.simps [of 0 1] RootFromInclusionProof_def
        rootFromProof.simps [of 1 0 2] rootFromProof.simps [of 1 1 2] mth_split)
  then show ?thesis
    using inclusion_sound [of 1 "[0, 1]" 1 "[0, 5]" 1] by (simp add: numeral_2_eq_2)
qed

lemma short_proof_wrong_leaf: "RootFromInclusionProof 1 3 c [InteriorHash a b] = Some (mth [a, b, c])"
proof -
  have "splitPoint 3 = Some 2" "splitPoint 2 = Some 1" by (simp_all add: splitPoint_def bits_Len.simps)
  moreover have "mth [a, b, c] = InteriorHash (InteriorHash a b) c"
    using mth_split [of "[a, b, c]"] mth_split [of "[a, b]"] by (simp add: split_def bits_Len.simps)
  ultimately show ?thesis
    by (simp add: RootFromInclusionProof_def rootFromProof.simps [of 1 0 3] rootFromProof.simps [of 1 0 2]
        rootFromProof.simps [of 1 1 2] pathLen.simps [of 1 2] pathLen.simps [of 0 1])
qed

lemma verifyInclusionLoop_root:
  "RootFromInclusionProof (i mod 2 ^ length pf) (2 ^ length pf) leaf pf = Some (verifyInclusionLoop pf i leaf)"
proof -
  let ?M = "2 ^ length pf :: int"
  have r: "0 \<le> i mod ?M" "i mod ?M < ?M" by simp_all
  have M: "nat ?M = 2 ^ length pf" by (simp add: nat_power_eq)
  then have "nat (i mod ?M) < 2 ^ length pf"
    using r by (metis nat_mono_iff zero_less_numeral zero_less_power)
  then have d: "depth (nat (i mod ?M)) (nat ?M) = length pf"
    by (simp add: M)
  show ?thesis
    using r by (subst RootFromInclusionProof_climb) (simp_all add: d verifyInclusionLoop_climb M)
qed

text \<open>
  What \<open>VerifyInclusion\<close> decides, for every input: it accepts exactly when the index is
  in range and the proof recomputes the root at index \<open>index mod 2^d\<close> of the complete tree
  with \<open>2^d\<close> leaves, where \<open>d\<close> is the length of the proof. The tree size and the index bits
  above \<open>d\<close> play no part beyond the range check, so the check is the right one on complete
  trees only.
\<close>

lemma VerifyInclusion_decides:
  "VerifyInclusion leaf i sz pf root \<longleftrightarrow>
     0 \<le> i \<and> i < sz \<and>
     RootFromInclusionProof (i mod 2 ^ length pf) (2 ^ length pf) leaf pf = Some root"
  by (auto simp: VerifyInclusion_def verifyInclusionLoop_root)

text \<open>
  On a complete tree \<open>VerifyInclusion\<close> accepts the generated proof against the Merkle
  Tree Hash, for every index.
\<close>

lemma VerifyInclusion_complete_tree:
  assumes "0 \<le> i" "i < 2 ^ d" "InclusionProof i (2 ^ d) h = Some (Inr pf)"
  shows "VerifyInclusion (h i) i (2 ^ d) pf (mth (rng h 0 (2 ^ d)))"
proof -
  let ?L = "rng h 0 (2 ^ d)" and ?m = "nat i"
  have n: "nat (2 ^ d) = 2 ^ d" by (simp add: nat_power_eq)
  have m: "?m < 2 ^ d" using assms(1,2) by (simp add: nat_less_iff)
  have pf: "pf = path ?m ?L"
    using assms inclusionProof_path [of 0 i "2 ^ d" h] by (simp add: InclusionProof_def)
  have len: "length pf = d"
    using m by (simp add: pf n)
  have "verifyInclusionLoop pf i (h i) = climb ?m (length ?L) (?L ! ?m) pf"
    using assms(1,2) m by (simp add: verifyInclusionLoop_climb len n nth_rng)
  also have "\<dots> = mth ?L"
    using m climb_path [of ?m ?L] by (simp add: pf n)
  finally show ?thesis
    using assms(1,2) by (simp add: VerifyInclusion_def)
qed

lemma VerifyInclusion_complete_tree_witness:
  "VerifyInclusion 1 1 (2 ^ 1) [0] (mth [0, 1])"
proof -
  have "splitPoint 2 = Some 1"
    by (simp add: splitPoint_def bits_Len.simps)
  then have "InclusionProof 1 (2 ^ 1) of_int = Some (Inr [of_int 0])"
    by (simp add: InclusionProof_def inclusionProof.simps [of 1 0 2] inclusionProof.simps [of 1 1 2]
        computeSubtreeHash.simps [of 0 1])
  moreover have "rng of_int 0 (2 ^ 1) = [0, 1 :: hash]"
    by (simp add: rng_def upto.simps)
  ultimately show ?thesis
    using VerifyInclusion_complete_tree [of 1 1 of_int "[of_int 0]"] by simp
qed

text \<open>
  On the right edge of an incomplete tree it is not: in the tree of three leaves the
  generated proof of the last leaf is accepted against the true root exactly when swapping
  the two children of the root does not change its hash. So either the leaf hash equals the
  hash of its sibling subtree or the two orders collide under SHA-256.
\<close>

lemma VerifyInclusion_right_edge:
  "InclusionProof 2 3 h = Some (Inr [InteriorHash (h 0) (h 1)]) \<and>
   (VerifyInclusion (h 2) 2 3 [InteriorHash (h 0) (h 1)] (mth (rng h 0 3)) \<longleftrightarrow>
    h 2 = InteriorHash (h 0) (h 1) \<or>
    collides (interior_input (h 2) (InteriorHash (h 0) (h 1)))
             (interior_input (InteriorHash (h 0) (h 1)) (h 2)))"
proof -
  have L: "rng h 0 3 = [h 0, h 1, h 2]"
    by (simp add: rng_def upto.simps)
  have "inclusionProof 2 0 3 h = Some [InteriorHash (h 0) (h 1)]"
    using inclusionProof_path [of 0 2 3 h] by (simp add: L path_split mth_split)
  moreover have "mth (rng h 0 3) = InteriorHash (InteriorHash (h 0) (h 1)) (h 2)"
    by (simp add: L mth_split)
  ultimately show ?thesis
    by (auto simp: InclusionProof_def VerifyInclusion_def collides_def InteriorHash_def Sum256_eq_iff)
qed

end
