(* ===== verification/MerkleConsistency.thy ===== *)
theory MerkleConsistency
  imports MerkleInclusion
begin

text \<open>
  \<open>src/internal/merkle/merkle.go\<close>, third part: consistency proofs. Generation is the
  \<open>SUBPROOF\<close> of RFC 9162, section 2.1.4.1; the recursive verifier accepts every generated
  proof, and when it accepts a proof against the root of the new tree the old root is the
  root of the first leaves of that tree, or two different interior inputs that the honest
  trees and the verifier hash collide.
\<close>

section \<open>The code\<close>

function consistencyProof ::
  "int \<Rightarrow> int \<Rightarrow> int \<Rightarrow> bool \<Rightarrow> (int \<Rightarrow> hash) \<Rightarrow> hash list option" where
  "consistencyProof m n start openRight hashAt =
     (let e = start + n in
      if m = n then
        (if openRight then Some []
         else do {
           h \<leftarrow> computeSubtreeHash start e hashAt;
           Some [h]
         })
      else do {
        k \<leftarrow> splitPoint n;
        if m \<le> k then do {
          proof \<leftarrow> consistencyProof m k start openRight hashAt;
          h \<leftarrow> computeSubtreeHash (start + k) e hashAt;
          Some (proof @ [h])
        } else do {
          proof \<leftarrow> consistencyProof (m - k) (n - k) (start + k) False hashAt;
          h \<leftarrow> computeSubtreeHash start (start + k) hashAt;
          Some (proof @ [h])
        }
      })"
  by pat_completeness auto
termination by (relation "measure (\<lambda>(_, n, _). nat n)") (auto dest!: splitPoint_Some)

declare consistencyProof.simps [simp del]

definition ConsistencyProof :: "int \<Rightarrow> int \<Rightarrow> (int \<Rightarrow> hash) \<Rightarrow> (goerr + hash list) option" where
  "ConsistencyProof oldSize newSize hashAt =
     (if oldSize < 0 \<or> oldSize > newSize then
        Some (Inl (Errorf ''merkle.ConsistencyProof: invalid sizes old=%d new=%d''))
      else if oldSize = 0 then Some (Inr [])
      else if oldSize = newSize then Some (Inr [])
      else do {
        proof \<leftarrow> consistencyProof oldSize newSize 0 True hashAt;
        Some (Inr proof)
      })"

text \<open>
  The verifier. The cursor \<open>*pIdx\<close> into the proof is an argument and part of the result;
  the result is the triple (old hash, new hash, ok) of the code with the cursor, and the
  outer option is the panic of \<open>splitPoint\<close>. When \<open>ok\<close> is false the hashes are the zero
  hash, as in the code.
\<close>

function verifyConsistencyRec ::
  "int \<Rightarrow> int \<Rightarrow> bool \<Rightarrow> hash \<Rightarrow> hash list \<Rightarrow> nat \<Rightarrow> ((hash \<times> hash \<times> bool) \<times> nat) option" where
  "verifyConsistencyRec m n openRight passThrough proof pIdx =
     (if m = n then
        (if openRight then Some ((passThrough, passThrough, True), pIdx)
         else if pIdx \<ge> length proof then Some ((EmptyHash, EmptyHash, False), pIdx)
         else Some ((proof ! pIdx, proof ! pIdx, True), pIdx + 1))
      else do {
        k \<leftarrow> splitPoint n;
        if m \<le> k then do {
          r \<leftarrow> verifyConsistencyRec m k openRight passThrough proof pIdx;
          (case r of ((oldH, newLeftH, ok), pIdx) \<Rightarrow>
            if \<not> ok then Some ((EmptyHash, EmptyHash, False), pIdx)
            else if pIdx \<ge> length proof then Some ((EmptyHash, EmptyHash, False), pIdx)
            else Some ((oldH, InteriorHash newLeftH (proof ! pIdx), True), pIdx + 1))
        } else do {
          r \<leftarrow> verifyConsistencyRec (m - k) (n - k) False EmptyHash proof pIdx;
          (case r of ((oldRightH, newRightH, ok), pIdx) \<Rightarrow>
            if \<not> ok then Some ((EmptyHash, EmptyHash, False), pIdx)
            else if pIdx \<ge> length proof then Some ((EmptyHash, EmptyHash, False), pIdx)
            else Some ((InteriorHash (proof ! pIdx) oldRightH,
                        InteriorHash (proof ! pIdx) newRightH, True), pIdx + 1))
        }
      })"
  by pat_completeness auto
termination by (relation "measure (\<lambda>(_, n, _). nat n)") (auto dest!: splitPoint_Some)

declare verifyConsistencyRec.simps [simp del]

definition VerifyConsistency :: "int \<Rightarrow> int \<Rightarrow> hash list \<Rightarrow> hash \<Rightarrow> hash \<Rightarrow> bool option" where
  "VerifyConsistency oldSize newSize proof oldRoot newRoot =
     (if oldSize > newSize \<or> oldSize < 0 \<or> newSize < 0 then Some False
      else if oldSize = newSize then Some (length proof = 0 \<and> oldRoot = newRoot)
      else if oldSize = 0 then Some (length proof = 0)
      else if length proof = 0 then Some False
      else do {
        r \<leftarrow> verifyConsistencyRec oldSize newSize True oldRoot proof 0;
        (case r of ((oh, nh, ok), pIdx) \<Rightarrow>
          Some (ok \<and> pIdx = length proof \<and> oh = oldRoot \<and> nh = newRoot))
      })"

section \<open>The reference definitions\<close>

text \<open>\<open>subproof m L b\<close> is \<open>SUBPROOF(m, D[n], b)\<close> of RFC 9162 for the leaf hashes \<open>L\<close>.\<close>

function subproof :: "nat \<Rightarrow> hash list \<Rightarrow> bool \<Rightarrow> hash list" where
  "subproof m L b =
     (if length L \<le> m \<or> length L < 2 then (if b then [] else [mth L])
      else let k = split (length L) in
        if m \<le> k then subproof m (take k L) b @ [mth (drop k L)]
        else subproof (m - k) (drop k L) False @ [mth (take k L)])"
  by pat_completeness auto
termination
  by (relation "measure (\<lambda>(_, L, _). length L)") (auto simp: split_less not_less not_le)

declare subproof.simps [simp del]

text \<open>
  The pair of roots that a proof of the right length determines, with the list of proof
  elements consumed from the end: the shape of the recursion without the cursor.
\<close>

function rebuild :: "nat \<Rightarrow> nat \<Rightarrow> bool \<Rightarrow> hash \<Rightarrow> hash list \<Rightarrow> hash \<times> hash" where
  "rebuild m n b pass proof =
     (if n \<le> m \<or> n < 2 then (if b then (pass, pass) else (last proof, last proof))
      else if m \<le> split n then
        (case rebuild m (split n) b pass (butlast proof) of
          (oldH, newH) \<Rightarrow> (oldH, InteriorHash newH (last proof)))
      else
        (case rebuild (m - split n) (n - split n) False EmptyHash (butlast proof) of
          (oldH, newH) \<Rightarrow> (InteriorHash (last proof) oldH, InteriorHash (last proof) newH)))"
  by pat_completeness auto
termination
  by (relation "measure (\<lambda>(_, n, _). n)") (auto simp: split_less not_less not_le)

declare rebuild.simps [simp del]

function plen :: "nat \<Rightarrow> nat \<Rightarrow> bool \<Rightarrow> nat" where
  "plen m n b =
     (if n \<le> m \<or> n < 2 then (if b then 0 else 1)
      else if m \<le> split n then Suc (plen m (split n) b)
      else Suc (plen (m - split n) (n - split n) False))"
  by pat_completeness auto
termination
  by (relation "measure (\<lambda>(_, n, _). n)") (auto simp: split_less not_less not_le)

declare plen.simps [simp del]

text \<open>Inputs hashed on the way, in the tree over \<open>L\<close> and by the verifier for the new root.\<close>

function subproof_inputs :: "nat \<Rightarrow> hash list \<Rightarrow> bytes list" where
  "subproof_inputs m L =
     (if length L \<le> m \<or> length L < 2 then []
      else let k = split (length L) in
        interior_input (mth (take k L)) (mth (drop k L)) #
        (if m \<le> k then subproof_inputs m (take k L) else subproof_inputs (m - k) (drop k L)))"
  by pat_completeness auto
termination
  by (relation "measure (\<lambda>(_, L). length L)") (auto simp: split_less not_less not_le)

declare subproof_inputs.simps [simp del]

function rebuild_inputs :: "nat \<Rightarrow> nat \<Rightarrow> bool \<Rightarrow> hash \<Rightarrow> hash list \<Rightarrow> bytes list" where
  "rebuild_inputs m n b pass proof =
     (if n \<le> m \<or> n < 2 then []
      else if m \<le> split n then
        interior_input (snd (rebuild m (split n) b pass (butlast proof))) (last proof) #
        rebuild_inputs m (split n) b pass (butlast proof)
      else
        interior_input (last proof) (snd (rebuild (m - split n) (n - split n) False EmptyHash (butlast proof))) #
        rebuild_inputs (m - split n) (n - split n) False EmptyHash (butlast proof))"
  by pat_completeness auto
termination
  by (relation "measure (\<lambda>(_, n, _). n)") (auto simp: split_less not_less not_le)

declare rebuild_inputs.simps [simp del]

subsection \<open>Unfolding\<close>

lemma base_unfold:
  "subproof m L b = (if b then [] else [mth L])" if "length L \<le> m"
  using that by (subst subproof.simps) simp

lemma rebuild_base:
  "n \<le> m \<Longrightarrow> rebuild m n b pass pf = (if b then (pass, pass) else (last pf, last pf))"
  by (subst rebuild.simps) simp

lemma plen_base: "n \<le> m \<Longrightarrow> plen m n b = (if b then 0 else 1)"
  by (subst plen.simps) simp

lemma inputs_base: "n \<le> m \<Longrightarrow> rebuild_inputs m n b pass pf = []"
  by (subst rebuild_inputs.simps) simp

lemma subproof_step:
  "0 < m \<Longrightarrow> m < length L \<Longrightarrow> subproof m L b =
     (if m \<le> split (length L)
      then subproof m (take (split (length L)) L) b @ [mth (drop (split (length L)) L)]
      else subproof (m - split (length L)) (drop (split (length L)) L) False @ [mth (take (split (length L)) L)])"
  by (subst subproof.simps) (simp add: Let_def)

lemma rebuild_step:
  "0 < m \<Longrightarrow> m < n \<Longrightarrow> rebuild m n b pass pf =
     (if m \<le> split n then
        (case rebuild m (split n) b pass (butlast pf) of
          (oldH, newH) \<Rightarrow> (oldH, InteriorHash newH (last pf)))
      else
        (case rebuild (m - split n) (n - split n) False EmptyHash (butlast pf) of
          (oldH, newH) \<Rightarrow> (InteriorHash (last pf) oldH, InteriorHash (last pf) newH)))"
  by (subst rebuild.simps) simp

lemma plen_step:
  "0 < m \<Longrightarrow> m < n \<Longrightarrow> plen m n b =
     (if m \<le> split n then Suc (plen m (split n) b) else Suc (plen (m - split n) (n - split n) False))"
  by (subst plen.simps) simp

lemma inputs_step:
  "0 < m \<Longrightarrow> m < length L \<Longrightarrow> subproof_inputs m L =
     interior_input (mth (take (split (length L)) L)) (mth (drop (split (length L)) L)) #
     (if m \<le> split (length L) then subproof_inputs m (take (split (length L)) L)
      else subproof_inputs (m - split (length L)) (drop (split (length L)) L))"
  by (subst subproof_inputs.simps) (simp add: Let_def)

lemma rebuild_inputs_step:
  "0 < m \<Longrightarrow> m < n \<Longrightarrow> rebuild_inputs m n b pass pf =
     (if m \<le> split n then
        interior_input (snd (rebuild m (split n) b pass (butlast pf))) (last pf) #
        rebuild_inputs m (split n) b pass (butlast pf)
      else
        interior_input (last pf) (snd (rebuild (m - split n) (n - split n) False EmptyHash (butlast pf))) #
        rebuild_inputs (m - split n) (n - split n) False EmptyHash (butlast pf))"
  by (subst rebuild_inputs.simps) simp

text \<open>
  The tree of the first \<open>m\<close> leaves shares the split of the whole tree when \<open>m\<close> reaches
  into its right part.
\<close>

lemma split_prefix:
  assumes "split n < m" "m \<le> n"
  shows "split m = split n"
proof -
  obtain j where j: "split n = 2 ^ j"
    by (simp add: split_def)
  have "2 \<le> n" using assms split_pos [of n] by linarith
  then have "n \<le> 2 * split n" by (rule split_half)
  then show ?thesis
    using assms split_unique [of j m] by (simp add: j)
qed

lemma mth_take_right:
  assumes "split (length L) < m" "m \<le> length L"
  shows "mth (take m L) =
    InteriorHash (mth (take (split (length L)) L)) (mth (take (m - split (length L)) (drop (split (length L)) L)))"
proof -
  have "2 \<le> m"
    using assms split_pos [of "length L"] by linarith
  with assms(2) have "2 \<le> length (take m L)" by simp
  note split = mth_split [OF this]
  have "length (take m L) = m" using assms(2) by simp
  with assms(1) show ?thesis
    unfolding split split_prefix [OF assms] by (simp add: split_prefix [OF assms] min_absorb1 drop_take)
qed

text \<open>Induction along the old size.\<close>

lemma subproof_induct [consumes 2, case_names Base Left Right]:
  assumes "0 < m" "m \<le> length L"
    and "\<And>L b. 0 < length L \<Longrightarrow> P (length L) L b"
    and "\<And>m L b. 0 < m \<Longrightarrow> m < length L \<Longrightarrow> m \<le> split (length L) \<Longrightarrow>
       P m (take (split (length L)) L) b \<Longrightarrow> P m L b"
    and "\<And>m L b. m < length L \<Longrightarrow> split (length L) < m \<Longrightarrow>
       P (m - split (length L)) (drop (split (length L)) L) False \<Longrightarrow> P m L b"
  shows "P m L b"
  using assms(1,2)
proof (induction L arbitrary: m b rule: measure_induct_rule [where f = length])
  case (less L m b)
  show ?case
  proof (cases "m = length L")
    case True
    with less.prems show ?thesis by (simp add: assms(3))
  next
    case False
    with less.prems have n: "m < length L" "2 \<le> length L" by simp_all
    note k = split_less [OF n(2)] split_rest_less [OF n(2)]
    show ?thesis
    proof (cases "m \<le> split (length L)")
      case True
      have "P m (take (split (length L)) L) b"
        by (rule less.IH) (use True less.prems k(1) in simp_all)
      then show ?thesis
        by (rule assms(4) [OF less.prems(1) n(1) True])
    next
      case False
      have "P (m - split (length L)) (drop (split (length L)) L) False"
        by (rule less.IH) (use False n(1) k(2) in simp_all)
      then show ?thesis
        by (rule assms(5) [OF n(1) not_le_imp_less [OF False]])
    qed
  qed
qed

section \<open>The code computes the reference\<close>

lemma length_subproof:
  assumes "0 < m" "m \<le> length L"
  shows "length (subproof m L b) = plen m (length L) b"
  using assms
proof (induction m L b rule: subproof_induct)
  case (Base L b)
  then show ?case by (simp add: base_unfold plen_base)
next
  case (Left m L b)
  then show ?case using split_less [of "length L"] by (simp add: subproof_step [of m L] plen_step [of m "length L"] min_def)
next
  case (Right m L b)
  then show ?case by (simp add: subproof_step [of m L] plen_step [of m "length L"])
qed

lemma rebuild_subproof:
  assumes "0 < m" "m \<le> length L"
  shows "(b \<longrightarrow> pass = mth (take m L)) \<Longrightarrow>
    rebuild m (length L) b pass (subproof m L b) = (mth (take m L), mth L)"
  using assms
proof (induction m L b arbitrary: pass rule: subproof_induct)
  case (Base L b)
  then show ?case by (simp add: base_unfold rebuild_base)
next
  case (Left m L b)
  then have "length (take (split (length L)) L) = split (length L)"
    using split_less [of "length L"] by simp
  with Left show ?case
    by (simp add: subproof_step [of m L] rebuild_step [of m "length L"] mth_split [of L] min_absorb1)
next
  case (Right m L b)
  then show ?case
    by (simp add: subproof_step [of m L] rebuild_step [of m "length L"] mth_split [of L] mth_take_right [of L m])
qed

lemma rebuild_sound:
  assumes "0 < m" "m \<le> length L"
  shows "length pf = plen m (length L) b \<Longrightarrow> rebuild m (length L) b pass pf = (oldH, mth L) \<Longrightarrow>
    oldH = mth (take m L) \<and> pf = subproof m L b \<or>
    clash (subproof_inputs m L) (rebuild_inputs m (length L) b pass pf)"
  using assms
proof (induction m L b arbitrary: pass pf oldH rule: subproof_induct)
  case (Base L b)
  then show ?case
    by (cases pf) (auto simp: base_unfold rebuild_base plen_base split: if_splits)
next
  case (Left m L b)
  let ?k = "split (length L)"
  have n: "2 \<le> length L" using Left by simp
  have lk: "length (take ?k L) = ?k" using split_less [OF n] by simp
  have ne: "pf \<noteq> []" using Left by (auto simp: plen_step [of m "length L"])
  obtain o' w' where ow: "rebuild m ?k b pass (butlast pf) = (o', w')" by fastforce
  have eq: "oldH = o'" "InteriorHash w' (last pf) = InteriorHash (mth (take ?k L)) (mth (drop ?k L))"
    using Left ow by (simp_all add: rebuild_step [of m "length L"] mth_split [OF n])
  have IH: "w' = mth (take ?k L) \<Longrightarrow> o' = mth (take m L) \<and> butlast pf = subproof m (take ?k L) b \<or>
      clash (subproof_inputs m (take ?k L)) (rebuild_inputs m ?k b pass (butlast pf))"
    using Left.IH [of "butlast pf" pass o'] Left.prems Left.hyps ow lk
    by (simp add: plen_step [of m "length L"] min_absorb1)
  show ?case
    using InteriorHash_eqD [OF eq(2) [symmetric]] IH Left.hyps ow eq(1) append_butlast_last_id [OF ne]
    by (auto simp: inputs_step [of m L] rebuild_inputs_step [of m "length L"] subproof_step [of m L])
next
  case (Right m L b)
  let ?k = "split (length L)"
  have n: "2 \<le> length L" and m: "0 < m" using Right by simp_all
  have ne: "pf \<noteq> []" using Right by (auto simp: plen_step [of m "length L"])
  obtain o' w' where ow: "rebuild (m - ?k) (length L - ?k) False EmptyHash (butlast pf) = (o', w')"
    by fastforce
  have eq: "oldH = InteriorHash (last pf) o'"
    "InteriorHash (last pf) w' = InteriorHash (mth (take ?k L)) (mth (drop ?k L))"
    using Right m ow by (simp_all add: rebuild_step [of m "length L"] mth_split [OF n])
  have IH: "w' = mth (drop ?k L) \<Longrightarrow>
      o' = mth (take (m - ?k) (drop ?k L)) \<and> butlast pf = subproof (m - ?k) (drop ?k L) False \<or>
      clash (subproof_inputs (m - ?k) (drop ?k L))
        (rebuild_inputs (m - ?k) (length L - ?k) False EmptyHash (butlast pf))"
    using Right.IH [of "butlast pf" EmptyHash o'] Right.prems Right.hyps m ow by (simp add: plen_step [of m "length L"])
  show ?case
    using InteriorHash_eqD [OF eq(2) [symmetric]] IH Right.hyps m ow eq(1) append_butlast_last_id [OF ne]
    by (auto simp: inputs_step [of m L] rebuild_inputs_step [of m "length L"] subproof_step [of m L] mth_take_right [of L m])
qed

lemma consistencyProof_subproof:
  "0 < m \<Longrightarrow> m \<le> n \<Longrightarrow> consistencyProof m n s b h = Some (subproof (nat m) (rng h s (s + n)) b)"
proof (induction m n s b h rule: consistencyProof.induct)
  case (1 m n s b h)
  let ?L = "rng h s (s + n)"
  show ?case
  proof (cases "m = n")
    case True
    with 1 show ?thesis
      by (subst consistencyProof.simps) (simp add: base_unfold computeSubtreeHash_mth)
  next
    case False
    with "1.prems" obtain k where k: "splitPoint n = Some k"
      using splitPoint_ex [of n] by auto
    note kb = splitPoint_Some [OF k]
    have L: "split (nat n) = nat k" "take (nat k) ?L = rng h s (s + k)" "drop (nat k) ?L = rng h (s + k) (s + n)"
      using kb splitPoint_eq [OF k, symmetric] by (simp_all add: slice_simps)
    have sub: "computeSubtreeHash s (s + k) h = Some (mth (rng h s (s + k)))"
      "computeSubtreeHash (s + k) (s + n) h = Some (mth (rng h (s + k) (s + n)))"
      using kb by (simp_all add: computeSubtreeHash_mth)
    have m: "0 < nat m" "nat m < length ?L"
      using "1.prems" False by simp_all
    show ?thesis
    proof (cases "m \<le> k")
      case True
      then have "consistencyProof m k s b h = Some (subproof (nat m) (rng h s (s + k)) b)"
        using "1.IH"(1) [OF refl False k True] "1.prems" by simp
      with True False k sub show ?thesis
        by (subst consistencyProof.simps, subst subproof_step [OF m]) (simp add: L nat_mono Let_def)
    next
      case 2: False
      then have "consistencyProof (m - k) (n - k) (s + k) False h =
          Some (subproof (nat (m - k)) (rng h (s + k) (s + n)) False)"
        using "1.IH"(2) [OF refl False k 2] "1.prems" by simp
      with 2 False k sub kb show ?thesis
        by (subst consistencyProof.simps, subst subproof_step [OF m])
          (simp add: L nat_le_eq_zle Let_def nat_diff_distrib)
    qed
  qed
qed

text \<open>The recursive verifier on a cursor, by the reference on the consumed slice of the proof.\<close>

definition vc_result :: "nat \<Rightarrow> nat \<Rightarrow> bool \<Rightarrow> hash \<Rightarrow> hash list \<Rightarrow> nat \<Rightarrow> (hash \<times> hash \<times> bool) \<times> nat" where
  "vc_result m n b pass pf p =
     (if p + plen m n b \<le> length pf then
        (case rebuild m n b pass (take (plen m n b) (drop p pf)) of
          (oldH, newH) \<Rightarrow> ((oldH, newH, True), p + plen m n b))
      else ((EmptyHash, EmptyHash, False), length pf))"

lemma vc_base: "n \<le> m \<Longrightarrow> p \<le> length pf \<Longrightarrow> vc_result m n b pass pf p =
   (if b then ((pass, pass, True), p)
    else if p \<ge> length pf then ((EmptyHash, EmptyHash, False), p)
    else ((pf ! p, pf ! p, True), p + 1))"
  by (auto simp: vc_result_def plen_base rebuild_base take_Suc_conv_app_nth [of 0] hd_drop_conv_nth)

lemma take_Suc_last:
  "p + d < length pf \<Longrightarrow> last (take (Suc d) (drop p pf)) = pf ! (p + d)"
  "p + d < length pf \<Longrightarrow> butlast (take (Suc d) (drop p pf)) = take d (drop p pf)"
  by (simp_all add: take_Suc_conv_app_nth)

lemma vc_left:
  assumes "0 < m" "m < n" "m \<le> split n"
  shows "vc_result m n b pass pf p =
    (case vc_result m (split n) b pass pf p of ((oldH, newLeftH, ok), p) \<Rightarrow>
       if \<not> ok then ((EmptyHash, EmptyHash, False), p)
       else if p \<ge> length pf then ((EmptyHash, EmptyHash, False), p)
       else ((oldH, InteriorHash newLeftH (pf ! p), True), p + 1))"
  using assms by (auto simp: vc_result_def plen_step [of m n] rebuild_step [of m n] take_Suc_last
      split: prod.splits)

lemma vc_right:
  assumes "m < n" "split n < m"
  shows "vc_result m n b pass pf p =
    (case vc_result (m - split n) (n - split n) False EmptyHash pf p of ((oldRightH, newRightH, ok), p) \<Rightarrow>
       if \<not> ok then ((EmptyHash, EmptyHash, False), p)
       else if p \<ge> length pf then ((EmptyHash, EmptyHash, False), p)
       else ((InteriorHash (pf ! p) oldRightH, InteriorHash (pf ! p) newRightH, True), p + 1))"
  using assms by (auto simp: vc_result_def plen_step [of m n] rebuild_step [of m n] take_Suc_last
      split: prod.splits)

lemma verifyConsistencyRec_result:
  "0 < m \<Longrightarrow> m \<le> n \<Longrightarrow> p \<le> length pf \<Longrightarrow>
     verifyConsistencyRec m n b pass pf p = Some (vc_result (nat m) (nat n) b pass pf p)"
proof (induction m n b pass pf p rule: verifyConsistencyRec.induct)
  case (1 m n b pass pf p)
  show ?case
  proof (cases "m = n")
    case True
    with "1.prems" show ?thesis
      by (subst verifyConsistencyRec.simps) (simp add: vc_base)
  next
    case False
    with "1.prems" obtain k where k: "splitPoint n = Some k"
      using splitPoint_ex [of n] by auto
    note kb = splitPoint_Some [OF k] and ke = splitPoint_eq [OF k, symmetric]
    have mn: "0 < nat m" "nat m < nat n" using "1.prems" False by simp_all
    show ?thesis
    proof (cases "m \<le> k")
      case True
      then have "verifyConsistencyRec m k b pass pf p = Some (vc_result (nat m) (nat k) b pass pf p)"
        using "1.IH"(1) [OF False k True] "1.prems" by simp
      moreover have "nat m \<le> split (nat n)" using True by (simp add: ke nat_le_eq_zle)
      ultimately show ?thesis
        using True False k
        by (subst verifyConsistencyRec.simps) (simp add: vc_left [OF mn] ke split: prod.splits)
    next
      case 2: False
      then have "verifyConsistencyRec (m - k) (n - k) False EmptyHash pf p =
          Some (vc_result (nat m - nat k) (nat n - nat k) False EmptyHash pf p)"
        using "1.IH"(2) [OF False k 2] "1.prems" kb by (simp add: nat_diff_distrib)
      moreover have "split (nat n) < nat m" using 2 kb by (simp add: ke nat_less_eq_zless)
      ultimately show ?thesis
        using 2 False k
        by (subst verifyConsistencyRec.simps) (simp add: vc_right [OF mn(2)] ke split: prod.splits)
    qed
  qed
qed

lemma plen_pos: "0 < m \<Longrightarrow> m < n \<Longrightarrow> 0 < plen m n b"
  by (simp add: plen_step)

lemma VerifyConsistency_rebuild:
  assumes "0 < m" "m < n"
  shows "VerifyConsistency (int m) (int n) pf oldRoot newRoot =
    Some (length pf = plen m n True \<and> rebuild m n True oldRoot pf = (oldRoot, newRoot))"
proof (cases "pf = []")
  case True
  with assms plen_pos [OF assms, of True] show ?thesis
    by (simp add: VerifyConsistency_def)
next
  case False
  with assms show ?thesis
    by (auto simp: VerifyConsistency_def verifyConsistencyRec_result vc_result_def split: prod.splits)
qed

lemma VerifyConsistency_subproof:
  assumes "0 < old" "old < new"
  shows "VerifyConsistency old new (subproof (nat old) (rng h 0 new) True)
     (mth (rng h 0 old)) (mth (rng h 0 new)) = Some True"
proof -
  let ?L = "rng h 0 new" and ?m = "nat old"
  have m: "0 < ?m" "?m < length ?L" using assms by simp_all
  have "take ?m ?L = rng h 0 old"
    using assms take_rng [of old 0 new h] by simp
  then show ?thesis
    using m VerifyConsistency_rebuild [of ?m "length ?L" "subproof ?m ?L True" "mth (rng h 0 old)" "mth ?L"] assms
      rebuild_subproof [of ?m ?L True "mth (rng h 0 old)"] length_subproof [of ?m ?L True]
    by simp
qed

section \<open>Properties\<close>

text \<open>
  \<open>ConsistencyProof\<close> never panics and returns the \<open>SUBPROOF\<close> of RFC 9162 for
  \<open>0 < old < new\<close>, the empty proof for an empty or equal old tree, and the error otherwise.
\<close>

lemma ConsistencyProof_is_rfc_subproof:
  "ConsistencyProof old new h = Some
     (if old < 0 \<or> new < old then
        Inl (Errorf ''merkle.ConsistencyProof: invalid sizes old=%d new=%d'')
      else if old = 0 \<or> old = new then Inr []
      else Inr (subproof (nat old) (rng h 0 new) True))"
  using consistencyProof_subproof [of old new 0 True h] by (auto simp: ConsistencyProof_def)

text \<open>
  C10. Completeness: for all sizes \<open>0 \<le> old \<le> new\<close>, \<open>VerifyConsistency\<close> accepts the proof
  that \<open>ConsistencyProof\<close> returns, against the Merkle Tree Hashes of the two trees.
\<close>

theorem consistency_complete:
  assumes "0 \<le> old" "old \<le> new" "ConsistencyProof old new h = Some (Inr pf)"
  shows "VerifyConsistency old new pf (mth (rng h 0 old)) (mth (rng h 0 new)) = Some True"
  using assms VerifyConsistency_subproof [of old new h] consistencyProof_subproof [of old new 0 True h]
  by (auto simp: ConsistencyProof_def VerifyConsistency_def split: if_splits)

theorem consistency_complete_witness:
  "VerifyConsistency 1 2 [1] (mth [0]) (mth [0, 1]) = Some True"
proof -
  have "splitPoint 2 = Some 1"
    by (simp add: splitPoint_def bits_Len.simps)
  then have "ConsistencyProof 1 2 of_int = Some (Inr [of_int 1])"
    by (simp add: ConsistencyProof_def consistencyProof.simps [of 1 2] consistencyProof.simps [of 1 1]
        computeSubtreeHash.simps [of 1 2])
  moreover have "rng of_int 0 1 = [0 :: hash]" "rng of_int 0 2 = [0, 1 :: hash]"
    by (simp_all add: rng_def upto.simps)
  ultimately show ?thesis
    using consistency_complete [of 1 2 of_int "[of_int 1]"] by simp
qed

text \<open>
  C9. Soundness: if \<open>VerifyConsistency\<close> accepts against the Merkle Tree Hash of the leaf
  hashes \<open>L\<close>, the old root is the Merkle Tree Hash of the first \<open>m\<close> of them and the proof is
  the generated one, or two different interior inputs, one of the tree over \<open>L\<close> and one
  hashed by the verifier, collide under SHA-256.
\<close>

theorem consistency_sound:
  assumes "0 < m" "m < length L"
    and "VerifyConsistency (int m) (int (length L)) pf oldRoot (mth L) = Some True"
  shows "oldRoot = mth (take m L) \<and> pf = subproof m L True \<or>
    clash (subproof_inputs m L) (rebuild_inputs m (length L) True oldRoot pf)"
proof -
  have "length pf = plen m (length L) True" "rebuild m (length L) True oldRoot pf = (oldRoot, mth L)"
    using assms by (simp_all add: VerifyConsistency_rebuild)
  with assms(1,2) show ?thesis
    by (intro rebuild_sound) simp_all
qed

theorem consistency_sound_witness:
  "(0 :: hash) = mth (take 1 [0, 1]) \<and> [1] = subproof 1 [0, 1] True \<or>
   clash (subproof_inputs 1 [0, 1]) (rebuild_inputs 1 (length [0 :: hash, 1]) True 0 [1])"
proof -
  have "splitPoint 2 = Some 1"
    by (simp add: splitPoint_def bits_Len.simps)
  then have "VerifyConsistency 1 2 [1] 0 (mth [0, 1]) = Some True"
    by (simp add: VerifyConsistency_def verifyConsistencyRec.simps [of 1 2] verifyConsistencyRec.simps [of 1 1]
        mth_split)
  then show ?thesis
    by (intro consistency_sound) simp_all
qed

text \<open>
  C18. \<open>VerifyConsistency\<close> never panics, for any sizes, proof and roots.
\<close>

theorem VerifyConsistency_total: "\<exists>r. VerifyConsistency old new pf oldRoot newRoot = Some r"
proof (cases "0 < old \<and> old < new")
  case True
  then show ?thesis
    using VerifyConsistency_rebuild [of "nat old" "nat new" pf oldRoot newRoot] by auto
qed (auto simp: VerifyConsistency_def)

end
