(* ===== verification/Asn1.thy ===== *)
theory Asn1
  imports Prelude
begin

text \<open>
  The part of the Go standard library's \<open>encoding/asn1\<close> that the program uses on raw
  values: the tag and length octets of DER, \<open>asn1.Marshal\<close> of an \<open>asn1.RawValue\<close> and
  \<open>asn1.Unmarshal\<close> into one, with the checks and the error kinds of the library. The two
  are inverse on every value whose contents are shorter than \<open>2^31\<close> bytes.
\<close>

section \<open>The code of the library\<close>

record RawValue =
  rv_Class :: nat
  rv_Tag :: nat
  rv_IsCompound :: bool
  rv_Bytes :: bytes
  rv_FullBytes :: bytes

text \<open>\<open>appendBase128Int\<close> and \<open>parseBase128Int\<close>.\<close>

fun base128_hi :: "nat \<Rightarrow> bytes" where
  "base128_hi n = (if n = 0 then [] else base128_hi (n div 128) @ [of_nat (128 + n mod 128)])"

declare base128_hi.simps [simp del]

definition appendBase128Int :: "nat \<Rightarrow> bytes" where
  "appendBase128Int n = base128_hi (n div 128) @ [of_nat (n mod 128)]"

fun parseBase128 :: "nat \<Rightarrow> nat \<Rightarrow> bytes \<Rightarrow> goerr + nat \<times> bytes" where
  "parseBase128 shifted acc [] = Inl (Errorf ''asn1: syntax error: truncated base 128 integer'')"
| "parseBase128 shifted acc (b # bs) =
     (if shifted = 5 then Inl (Errorf ''asn1: structure error: base 128 integer too large'')
      else if shifted = 0 \<and> b = 0x80 then
        Inl (Errorf ''asn1: syntax error: integer is not minimally encoded'')
      else let v = acc * 128 + unat b mod 128 in
        if unat b < 128 then
          (if v > 2147483647 then Inl (Errorf ''asn1: structure error: base 128 integer too large'')
           else Inr (v, bs))
        else parseBase128 (Suc shifted) v bs)"

text \<open>\<open>lengthLength\<close> and \<open>appendLength\<close>: the minimal big-endian octets of a length.\<close>

fun lengthLength :: "nat \<Rightarrow> nat" where
  "lengthLength n = (if n \<le> 255 then 1 else Suc (lengthLength (n div 256)))"

declare lengthLength.simps [simp del]

definition appendTagAndLength :: "nat \<Rightarrow> nat \<Rightarrow> bool \<Rightarrow> nat \<Rightarrow> bytes" where
  "appendTagAndLength class tag isCompound len =
     (let b = class * 64 + (if isCompound then 32 else 0) in
      if tag \<ge> 31 then of_nat (b + 31) # appendBase128Int tag else [of_nat (b + tag)]) @
     (if len \<ge> 128 then of_nat (128 + lengthLength len) # be_bytes (lengthLength len) len
      else [of_nat len])"

definition asn1_Marshal_RawValue :: "RawValue \<Rightarrow> bytes" where
  "asn1_Marshal_RawValue rv =
     (if rv_FullBytes rv \<noteq> [] then rv_FullBytes rv
      else appendTagAndLength (rv_Class rv) (rv_Tag rv) (rv_IsCompound rv) (length (rv_Bytes rv)) @ rv_Bytes rv)"

text \<open>The long form of the length: \<open>k\<close> further octets.\<close>

fun parseLength :: "nat \<Rightarrow> nat \<Rightarrow> bytes \<Rightarrow> goerr + nat \<times> bytes" where
  "parseLength 0 len bs = Inr (len, bs)"
| "parseLength (Suc k) len [] = Inl (Errorf ''asn1: syntax error: truncated tag or length'')"
| "parseLength (Suc k) len (b # bs) =
     (if len \<ge> 2 ^ 23 then Inl (Errorf ''asn1: structure error: length too large'')
      else let len' = len * 256 + unat b in
        if len' = 0 then Inl (Errorf ''asn1: structure error: superfluous leading zeros in length'')
        else parseLength k len' bs)"

definition parseTagAndLength :: "bytes \<Rightarrow> goerr + (nat \<times> nat \<times> bool \<times> nat) \<times> bytes" where
  "parseTagAndLength data =
     (case data of
        [] \<Rightarrow> Inl (Errorf ''asn1: internal error in parseTagAndLength'')
      | b # rest \<Rightarrow>
        let class = unat b div 64; isCompound = (unat b div 32 mod 2 = 1); tag5 = unat b mod 32 in
        case (if tag5 = 31 then
                (case parseBase128 0 0 rest of
                   Inl e \<Rightarrow> Inl e
                 | Inr (tag, rest) \<Rightarrow>
                     if tag < 31 then Inl (Errorf ''asn1: syntax error: non-minimal tag'') else Inr (tag, rest))
              else Inr (tag5, rest)) of
          Inl e \<Rightarrow> Inl e
        | Inr (tag, []) \<Rightarrow> Inl (Errorf ''asn1: syntax error: truncated tag or length'')
        | Inr (tag, l # rest) \<Rightarrow>
            if unat l < 128 then Inr ((class, tag, isCompound, unat l), rest)
            else if unat l = 128 then Inl (Errorf ''asn1: syntax error: indefinite length found (not DER)'')
            else (case parseLength (unat l - 128) 0 rest of
                Inl e \<Rightarrow> Inl e
              | Inr (len, rest) \<Rightarrow>
                  if len < 128 then Inl (Errorf ''asn1: structure error: non-minimal length'')
                  else Inr ((class, tag, isCompound, len), rest)))"

text \<open>\<open>asn1.Unmarshal(data, &raw)\<close>: the value and the rest of the input.\<close>

definition asn1_Unmarshal_RawValue :: "bytes \<Rightarrow> goerr + RawValue \<times> bytes" where
  "asn1_Unmarshal_RawValue data =
     (if data = [] then Inl (Errorf ''asn1: syntax error: sequence truncated'')
      else case parseTagAndLength data of
        Inl e \<Rightarrow> Inl e
      | Inr ((class, tag, isCompound, len), rest) \<Rightarrow>
          if length rest < len then Inl (Errorf ''asn1: syntax error: data truncated'')
          else Inr (\<lparr>rv_Class = class, rv_Tag = tag, rv_IsCompound = isCompound, rv_Bytes = take len rest,
                     rv_FullBytes = take (length data - length rest + len) data\<rparr>, drop len rest))"

section \<open>Inverse laws\<close>

lemma lengthLength_bounds: "0 < n \<Longrightarrow> n < 256 ^ lengthLength n \<and> 256 ^ (lengthLength n - 1) \<le> n"
proof (induction n rule: lengthLength.induct)
  case (1 n)
  show ?case
  proof (cases "n \<le> 255")
    case True
    with 1 show ?thesis by (simp add: lengthLength.simps)
  next
    case False
    then have "0 < n div 256" by (simp add: div_greater_zero_iff)
    with 1 False have IH: "n div 256 < 256 ^ lengthLength (n div 256)" "256 ^ (lengthLength (n div 256) - 1) \<le> n div 256"
      by simp_all
    have pos: "0 < lengthLength (n div 256)" by (subst lengthLength.simps) simp
    then have "(256 :: nat) ^ lengthLength (n div 256) = 256 * 256 ^ (lengthLength (n div 256) - 1)"
      by (metis Suc_diff_1 power_Suc)
    with IH False show ?thesis
      by (subst (1 2) lengthLength.simps) (simp, linarith)
  qed
qed

lemma parseLength_acc:
  "0 < acc \<Longrightarrow> acc * 256 ^ length bs + be_nat bs < 2 ^ 31 \<Longrightarrow>
     parseLength (length bs) acc (bs @ rest) = Inr (acc * 256 ^ length bs + be_nat bs, rest)"
proof (induction bs arbitrary: acc)
  case (Cons b bs)
  have eq: "acc * 256 ^ length (b # bs) + be_nat (b # bs) = (acc * 256 + unat b) * 256 ^ length bs + be_nat bs"
    by (simp add: be_nat_Cons algebra_simps)
  have "acc * 256 + unat b \<le> (acc * 256 + unat b) * 256 ^ length bs"
    by simp
  then have "acc * 256 + unat b < 2 ^ 31"
    using Cons.prems(2) unfolding eq by (rule le_less_trans [OF trans_le_add1])
  then have "acc < 2 ^ 23" by simp
  with Cons.IH [of "acc * 256 + unat b"] Cons.prems show ?case
    unfolding eq by (simp add: Let_def)
qed simp

lemma parseLength_be_bytes:
  assumes "0 < n" "n < 2 ^ 31"
  shows "parseLength (lengthLength n) 0 (be_bytes (lengthLength n) n @ rest) = Inr (n, rest)"
proof -
  let ?k = "lengthLength n"
  have k: "n < 256 ^ ?k" "256 ^ (?k - 1) \<le> n" "0 < ?k"
    using lengthLength_bounds [OF assms(1)] by simp_all (subst lengthLength.simps, simp)
  then obtain b bs where bs: "be_bytes ?k n = b # bs" "length bs = ?k - 1"
    by (metis length_be_bytes length_Cons Suc_diff_1 diff_Suc_1 list.exhaust list.size(3) less_numeral_extra(3))
  have n: "n = unat b * 256 ^ length bs + be_nat bs"
    using be_nat_be_bytes_id [OF k(1)] by (simp add: bs(1) be_nat_Cons)
  have b: "0 < unat b"
  proof (rule ccontr)
    assume "\<not> 0 < unat b"
    with n have "n = be_nat bs" by simp
    with k(2) be_nat_bound [of bs] bs(2) show False by simp
  qed
  have "parseLength (length bs) (unat b) (bs @ rest) = Inr (n, rest)"
    using parseLength_acc [OF b, of bs rest] assms(2) n by simp
  moreover have "?k = Suc (length bs)" using k(3) bs(2) by simp
  ultimately show ?thesis
    using b unfolding bs(1) by (simp add: Let_def)
qed

lemma lengthLength_4: "n < 2 ^ 31 \<Longrightarrow> lengthLength n \<le> 4"
proof -
  assume n: "n < 2 ^ 31"
  show ?thesis
  proof (cases "n = 0")
    case False
    then have "256 ^ (lengthLength n - 1) \<le> n" using lengthLength_bounds by simp
    then have "(256 :: nat) ^ (lengthLength n - 1) < 256 ^ 4" using n by simp
    then have "lengthLength n - 1 < 4" by (rule power_less_imp_less_exp [rotated]) simp
    then show ?thesis by simp
  qed (simp add: lengthLength.simps)
qed

lemma parseTagAndLength_append:
  assumes "class < 4" "tag < 31" "len < 2 ^ 31"
  shows "parseTagAndLength (appendTagAndLength class tag cmp len @ rest) = Inr ((class, tag, cmp, len), rest)"
proof -
  define B where "B = class * 64 + (if cmp then 32 else 0) + tag"
  define c :: nat where "c = (if cmp then 1 else 0)"
  have c: "c < 2" "cmp \<longleftrightarrow> c = 1" by (simp_all add: c_def)
  define q where "q = class * 2 + c"
  have "B = q * 32 + tag" by (simp add: B_def c_def q_def)
  then have "B div 32 = q" "B mod 32 = tag" using assms(2) by simp_all
  then have "B div 32 = class * 2 + c" "B mod 32 = tag" by (simp_all add: q_def)
  moreover from this have "B div 64 = (class * 2 + c) div 2" using div_mult2_eq [of B 32 2] by simp
  ultimately have B: "B < 256" "B div 64 = class" "(B div 32 mod 2 = 1) = cmp" "B mod 32 = tag"
    using assms(1,2) c by (simp_all add: B_def)
  define x :: byte where "x = of_nat B"
  have x: "unat x = B" using B(1) by (simp add: x_def)
  have head: "appendTagAndLength class tag cmp len = x # (if len \<ge> 128
      then of_nat (128 + lengthLength len) # be_bytes (lengthLength len) len else [of_nat len])"
    using assms(2) by (simp only: appendTagAndLength_def x_def B_def Let_def if_False not_le [symmetric]) simp
  show ?thesis
  proof (cases "len < 128")
    case True
    then have "unat (of_nat len :: byte) = len" by simp
    with True assms(2) B show ?thesis
      by (simp add: head parseTagAndLength_def x Let_def)
  next
    case False
    have l: "lengthLength len \<le> 4" "0 < lengthLength len"
      using lengthLength_4 [OF assms(3)] by simp (subst lengthLength.simps, simp)
    define y :: byte where "y = of_nat (128 + lengthLength len)"
    have y: "unat y = 128 + lengthLength len"
      using l by (simp only: y_def unat_byte_of_nat) simp
    from False have "appendTagAndLength class tag cmp len = x # y # be_bytes (lengthLength len) len"
      by (simp only: head y_def) simp
    with False assms B l y parseLength_be_bytes [of len rest] show ?thesis
      by (simp add: parseTagAndLength_def x Let_def)
  qed
qed

lemma asn1_roundtrip:
  assumes "rv_Class rv < 4" "rv_Tag rv < 31" "length (rv_Bytes rv) < 2 ^ 31" "rv_FullBytes rv = []"
  shows "asn1_Unmarshal_RawValue (asn1_Marshal_RawValue rv @ rest) =
    Inr (rv\<lparr>rv_FullBytes := asn1_Marshal_RawValue rv\<rparr>, rest)"
proof -
  let ?h = "appendTagAndLength (rv_Class rv) (rv_Tag rv) (rv_IsCompound rv) (length (rv_Bytes rv))"
  have "parseTagAndLength (?h @ rv_Bytes rv @ rest) =
      Inr ((rv_Class rv, rv_Tag rv, rv_IsCompound rv, length (rv_Bytes rv)), rv_Bytes rv @ rest)"
    using assms by (intro parseTagAndLength_append)
  moreover have "?h \<noteq> []"
    by (simp add: appendTagAndLength_def Let_def)
  ultimately show ?thesis
    using assms(4) by (simp add: asn1_Unmarshal_RawValue_def asn1_Marshal_RawValue_def)
qed

end
