(* ===== verification/Mtcformat.thy ===== *)
theory Mtcformat
  imports Asn1
begin

text \<open>
  \<open>src/internal/mtcformat/encoding.go\<close>: the wire formats of log entries, of the proof in
  the certificate's signature value and of the message that cosigners sign. Encoders and
  decoders are shown to be inverse to each other in both directions where they are, and the
  exact point where they are not (a signature section of more than 65535 bytes) is part of
  the statement.
\<close>

section \<open>Log entries\<close>

record MerkleTreeCertEntry =
  me_Type :: "16 word"
  me_Data :: bytes

definition EntryTypeNull :: "16 word" where
  "EntryTypeNull = 0"

definition EntryTypeTBSCert :: "16 word" where
  "EntryTypeTBSCert = 1"

definition MarshalEntry :: "MerkleTreeCertEntry \<Rightarrow> goerr + bytes" where
  "MarshalEntry e =
     (if me_Type e = EntryTypeNull then Inr (be_bytes 2 (unat EntryTypeNull))
      else if me_Type e = EntryTypeTBSCert then
        (if length (me_Data e) = 0 then Inl (Errorf ''mtcformat: tbs_cert_entry data cannot be empty'')
         else if length (me_Data e) > 0xFFFFFF then
           Inl (Errorf ''mtcformat: tbs_cert_entry data too large (%d bytes)'')
         else Inr (be_bytes 2 (unat EntryTypeTBSCert) @ be_bytes 3 (length (me_Data e)) @ me_Data e))
      else Inl (Errorf ''mtcformat: unknown entry type %d''))"

definition UnmarshalEntry :: "bytes \<Rightarrow> goerr + MerkleTreeCertEntry" where
  "UnmarshalEntry data =
     (if length data < 2 then Inl (Errorf ''mtcformat: entry data too short for type field (%d bytes)'')
      else let entryType = of_nat (be_nat (take 2 data)) in
      if entryType = EntryTypeNull then
        (if length data \<noteq> 2 then Inl (Errorf ''mtcformat: null_entry has trailing data (%d bytes)'')
         else Inr \<lparr>me_Type = EntryTypeNull, me_Data = []\<rparr>)
      else if entryType = EntryTypeTBSCert then
        (if length data < 5 then Inl (Errorf ''mtcformat: tbs_cert_entry too short for length prefix'')
         else let dataLen = be_nat (take 3 (drop 2 data)) in
         if dataLen = 0 then Inl (Errorf ''mtcformat: tbs_cert_entry has zero length'')
         else if length data < 5 + dataLen then
           Inl (Errorf ''mtcformat: tbs_cert_entry truncated: need %d bytes, have %d'')
         else if length data > 5 + dataLen then
           Inl (Errorf ''mtcformat: tbs_cert_entry has trailing data'')
         else Inr \<lparr>me_Type = EntryTypeTBSCert, me_Data = take dataLen (drop 5 data)\<rparr>)
      else Inl (Errorf ''mtcformat: unknown entry type %d''))"

section \<open>Signatures\<close>

record MTCSignature =
  ms_CosignerID :: bytes
  ms_Signature :: bytes

text \<open>The size pass of \<open>marshalSignatures\<close>, which rejects the first bad signature.\<close>

fun checkSignatures :: "MTCSignature list \<Rightarrow> goerr option" where
  "checkSignatures [] = None"
| "checkSignatures (s # ss) =
     (if length (ms_CosignerID s) = 0 \<or> length (ms_CosignerID s) > 255 then
        Some (Errorf ''mtcformat: cosigner_id %d has invalid length %d (must be 1..255)'')
      else if length (ms_Signature s) > 0xFFFF then
        Some (Errorf ''mtcformat: signature %d too large (%d bytes)'')
      else checkSignatures ss)"

definition encodeSignature :: "MTCSignature \<Rightarrow> bytes" where
  "encodeSignature s =
     of_nat (length (ms_CosignerID s)) # ms_CosignerID s @
     be_bytes 2 (length (ms_Signature s)) @ ms_Signature s"

definition marshalSignatures :: "MTCSignature list \<Rightarrow> goerr + bytes" where
  "marshalSignatures sigs =
     (if length sigs = 0 then Inr []
      else case checkSignatures sigs of
        Some err \<Rightarrow> Inl err
      | None \<Rightarrow> Inr (concat (map encodeSignature sigs)))"

text \<open>The loop of \<open>unmarshalSignatures\<close> on \<open>data[off:]\<close>, with the signatures read so far.\<close>

function unmarshalSignaturesLoop :: "bytes \<Rightarrow> MTCSignature list \<Rightarrow> goerr + MTCSignature list" where
  "unmarshalSignaturesLoop rest sigs =
     (if length rest = 0 then Inr sigs
      else let idLen = unat (rest ! 0); rest = drop 1 rest in
      if idLen = 0 then Inl (Errorf ''mtcformat: zero-length cosigner_id at offset %d'')
      else if idLen > length rest then Inl (Errorf ''mtcformat: truncated cosigner_id at offset %d'')
      else let cosignerID = take idLen rest; rest = drop idLen rest in
      if 2 > length rest then Inl (Errorf ''mtcformat: truncated signature length at offset %d'')
      else let sigLen = be_nat (take 2 rest); rest = drop 2 rest in
      if sigLen > length rest then Inl (Errorf ''mtcformat: truncated signature data at offset %d'')
      else unmarshalSignaturesLoop (drop sigLen rest)
             (sigs @ [\<lparr>ms_CosignerID = cosignerID, ms_Signature = take sigLen rest\<rparr>]))"
  by pat_completeness auto
termination by (relation "measure (length \<circ> fst)") auto

declare unmarshalSignaturesLoop.simps [simp del]

definition unmarshalSignatures :: "bytes \<Rightarrow> goerr + MTCSignature list" where
  "unmarshalSignatures data =
     (if length data = 0 then Inr [] else unmarshalSignaturesLoop data [])"

section \<open>Proofs\<close>

record MTCProof =
  mp_Start :: "64 word"
  mp_End :: "64 word"
  mp_InclusionProof :: "bytes list"
  mp_Signatures :: "MTCSignature list"

definition HashSize :: nat where
  "HashSize = 32"

definition MarshalProof :: "MTCProof \<Rightarrow> goerr + bytes" where
  "MarshalProof p =
     (if mp_End p \<le> mp_Start p then Inl (Errorf ''mtcformat: invalid subtree range [%d, %d)'')
      else let proofLen = length (mp_InclusionProof p) * HashSize in
      if proofLen > 0xFFFF then Inl (Errorf ''mtcformat: inclusion proof too large (%d hashes)'')
      else if \<exists>h\<in>set (mp_InclusionProof p). length h \<noteq> HashSize then
        Inl (Errorf ''mtcformat: proof hash %d has wrong size %d (want %d)'')
      else case marshalSignatures (mp_Signatures p) of
        Inl err \<Rightarrow> Inl err
      | Inr sigsBytes \<Rightarrow>
          Inr (be_bytes 8 (unat (mp_Start p)) @ be_bytes 8 (unat (mp_End p)) @
               be_bytes 2 proofLen @ concat (mp_InclusionProof p) @
               be_bytes 2 (length sigsBytes) @ sigsBytes))"

definition UnmarshalProof :: "bytes \<Rightarrow> goerr + MTCProof" where
  "UnmarshalProof data =
     (if length data < 20 then Inl (Errorf ''mtcformat: proof data too short (%d bytes)'')
      else let start = of_nat (be_nat (take 8 data));
               e = of_nat (be_nat (take 8 (drop 8 data))) in
      if e \<le> start then Inl (Errorf ''mtcformat: invalid subtree range [%d, %d)'')
      else if 16 + 2 > length data then Inl (Errorf ''mtcformat: truncated at proof length'')
      else let proofLen = be_nat (take 2 (drop 16 data)) in
      if proofLen mod HashSize \<noteq> 0 then
        Inl (Errorf ''mtcformat: proof length %d not a multiple of %d'')
      else if 18 + proofLen > length data then Inl (Errorf ''mtcformat: truncated inclusion proof'')
      else let numHashes = proofLen div HashSize;
               hashes = map (\<lambda>i. take HashSize (drop (18 + i * HashSize) data)) [0..<numHashes];
               off = 18 + numHashes * HashSize in
      if off + 2 > length data then Inl (Errorf ''mtcformat: truncated at signatures length'')
      else let sigsLen = be_nat (take 2 (drop off data)); off = off + 2 in
      if off + sigsLen > length data then Inl (Errorf ''mtcformat: truncated signatures'')
      else if off + sigsLen < length data then Inl (Errorf ''mtcformat: trailing data after signatures'')
      else case unmarshalSignatures (take sigsLen (drop off data)) of
        Inl err \<Rightarrow> Inl err
      | Inr sigs \<Rightarrow>
          Inr \<lparr>mp_Start = start, mp_End = e, mp_InclusionProof = hashes, mp_Signatures = sigs\<rparr>)"

section \<open>The message that cosigners sign\<close>

definition MTCSubtreeLabel :: bytes where
  "MTCSubtreeLabel = str_bytes ''mtc-subtree/v1'' @ [10, 0]"

definition BuildSubtreeSignatureInput ::
  "bytes \<Rightarrow> bytes \<Rightarrow> 64 word \<Rightarrow> 64 word \<Rightarrow> bytes \<Rightarrow> goerr + bytes" where
  "BuildSubtreeSignatureInput cosignerID logID start e h =
     (if length h \<noteq> HashSize then Inl (Errorf ''mtcformat: hash must be %d bytes, got %d'')
      else if length cosignerID = 0 then Inl (Errorf ''mtcformat: empty cosigner_id'')
      else Inr (MTCSubtreeLabel @ cosignerID @ logID @ be_bytes 8 (unat start) @ be_bytes 8 (unat e) @ h))"

section \<open>DER contents octets\<close>

definition DERContentsOctets :: "bytes \<Rightarrow> goerr + bytes" where
  "DERContentsOctets der =
     (case asn1_Unmarshal_RawValue der of
        Inl err \<Rightarrow> Inl (Wrap ''mtcformat: strip DER envelope: %w'' err)
      | Inr (raw, _) \<Rightarrow> Inr (rv_Bytes raw))"

definition WrapContentsOctets :: "bytes \<Rightarrow> goerr + bytes" where
  "WrapContentsOctets contents =
     Inr (asn1_Marshal_RawValue
       \<lparr>rv_Class = 0, rv_Tag = 16, rv_IsCompound = True, rv_Bytes = contents, rv_FullBytes = []\<rparr>)"

section \<open>Lemmas\<close>

lemma type_bytes [codec_simps]:
  "be_nat (be_bytes 2 (unat EntryTypeNull)) = 0" "be_nat (be_bytes 2 (unat EntryTypeTBSCert)) = 1"
  by (simp_all add: EntryTypeNull_def EntryTypeTBSCert_def)

lemma types_distinct [simp]: "EntryTypeTBSCert \<noteq> EntryTypeNull" "EntryTypeNull \<noteq> EntryTypeTBSCert"
  by (simp_all add: EntryTypeNull_def EntryTypeTBSCert_def)

lemma UnmarshalEntry_MarshalEntry:
  assumes "MarshalEntry e = Inr d" "me_Data e = [] \<or> me_Type e = EntryTypeTBSCert"
  shows "UnmarshalEntry d = Inr e"
proof (cases "me_Type e = EntryTypeNull")
  case True
  have "(of_nat 0 :: 16 word) = EntryTypeNull" by (simp add: EntryTypeNull_def)
  moreover from True assms have "d = be_bytes 2 (unat EntryTypeNull)" "me_Data e = []"
    by (auto simp: MarshalEntry_def)
  ultimately show ?thesis
    using True by (cases e) (simp add: UnmarshalEntry_def codec_simps Let_def)
next
  case False
  with assms have t: "me_Type e = EntryTypeTBSCert" and l: "length (me_Data e) < 256 ^ 3" "me_Data e \<noteq> []"
    and d: "d = be_bytes 2 (unat EntryTypeTBSCert) @ be_bytes 3 (length (me_Data e)) @ me_Data e"
    by (auto simp: MarshalEntry_def split: if_splits)
  have "(of_nat 1 :: 16 word) = EntryTypeTBSCert" "EntryTypeNull \<noteq> 1"
    by (simp_all add: EntryTypeTBSCert_def EntryTypeNull_def)
  with t l show ?thesis
    by (cases e) (simp add: UnmarshalEntry_def d codec_simps Let_def be_nat_be_bytes)
qed

lemma MarshalEntry_UnmarshalEntry:
  assumes "UnmarshalEntry d = Inr e"
  shows "MarshalEntry e = Inr d \<and> (me_Data e = [] \<or> me_Type e = EntryTypeTBSCert)"
proof -
  define t where "t = take 2 d"
  have len: "2 \<le> length d"
    using assms by (simp add: UnmarshalEntry_def split: if_splits)
  then have t: "length t = 2" by (simp add: t_def)
  have bnd: "be_nat t < 65536" using be_nat_less [OF t] by simp
  have un: "unat (of_nat (be_nat t) :: 16 word) = be_nat t" using bnd by (simp add: unat_of_nat)
  have tb: "be_bytes 2 (be_nat t) = t" using be_bytes_be_nat_eq [OF t] .
  show ?thesis
  proof (cases "(of_nat (be_nat t) :: 16 word) = EntryTypeNull")
    case True
    with assms len have e: "e = \<lparr>me_Type = EntryTypeNull, me_Data = []\<rparr>" "length d = 2"
      by (auto simp: UnmarshalEntry_def t_def [symmetric] Let_def split: if_splits)
    then have "d = t" by (simp add: t_def)
    with True un tb e show ?thesis by (simp add: MarshalEntry_def)
  next
    case False
    define l where "l = take 3 (drop 2 d)"
    have tt: "(of_nat (be_nat t) :: 16 word) = EntryTypeTBSCert" and l5: "5 \<le> length d"
      and n: "be_nat l \<noteq> 0" "length d = 5 + be_nat l"
      and e0: "e = \<lparr>me_Type = EntryTypeTBSCert, me_Data = take (be_nat l) (drop 5 d)\<rparr>"
      using assms False unfolding UnmarshalEntry_def t_def [symmetric] l_def [symmetric] Let_def
      by (simp_all split: if_splits)
    from n e0 have e: "e = \<lparr>me_Type = EntryTypeTBSCert, me_Data = drop 5 d\<rparr>" by simp
    from l5 have l: "length l = 3" by (simp add: l_def)
    have "d = t @ l @ drop 5 d"
      using append_take_drop_id [of 2 d] append_take_drop_id [of 3 "drop 2 d"]
      by (simp add: t_def l_def)
    moreover have "be_bytes 3 (length (drop 5 d)) = l"
      using n be_bytes_be_nat_eq [OF l] by simp
    moreover have "be_bytes 2 (unat EntryTypeTBSCert) = t"
      using tt un tb by simp
    moreover have "be_nat l < 16777216" using be_nat_less [OF l] by simp
    ultimately show ?thesis
      using n by (simp add: MarshalEntry_def e)
  qed
qed

lemma encodeSignature_step:
  assumes "checkSignatures [s] = None"
  shows "unmarshalSignaturesLoop (encodeSignature s @ tail) acc = unmarshalSignaturesLoop tail (acc @ [s])"
proof -
  have l: "length (ms_CosignerID s) \<noteq> 0" "length (ms_CosignerID s) < 256" "length (ms_Signature s) < 256 ^ 2"
    using assms by (auto split: if_splits)
  have "be_nat (be_bytes 2 (length (ms_Signature s))) = length (ms_Signature s)"
    by (rule be_nat_be_bytes_id [OF l(3)])
  with l show ?thesis
    by (subst unmarshalSignaturesLoop.simps) (cases s, simp add: encodeSignature_def Let_def)
qed

lemma unmarshal_marshal_loop:
  "checkSignatures ss = None \<Longrightarrow>
     unmarshalSignaturesLoop (concat (map encodeSignature ss)) acc = Inr (acc @ ss)"
proof (induction ss arbitrary: acc)
  case Nil
  show ?case by (simp add: unmarshalSignaturesLoop.simps)
next
  case (Cons s ss)
  then have "checkSignatures [s] = None" "checkSignatures ss = None"
    by (auto split: if_splits)
  with Cons.IH show ?case by (simp add: encodeSignature_step)
qed

lemma marshal_unmarshal_loop:
  "unmarshalSignaturesLoop rest acc = Inr r \<Longrightarrow>
     \<exists>ss. r = acc @ ss \<and> checkSignatures ss = None \<and> rest = concat (map encodeSignature ss)"
proof (induction rest acc rule: unmarshalSignaturesLoop.induct)
  case (1 rest acc)
  show ?case
  proof (cases "rest = []")
    case True
    with "1.prems" show ?thesis by (auto simp: unmarshalSignaturesLoop.simps intro: exI [of _ "[]"])
  next
    case False
    then obtain b r1 where rest: "rest = b # r1" by (cases rest) auto
    define n where "n = unat b"
    define r2 where "r2 = drop n r1"
    define k where "k = be_nat (take 2 r2)"
    define r3 where "r3 = drop 2 r2"
    define s where "s = \<lparr>ms_CosignerID = take n r1, ms_Signature = take k r3\<rparr>"
    have g: "n \<noteq> 0" "n \<le> length r1" "2 \<le> length r2" "k \<le> length r3"
      and res: "unmarshalSignaturesLoop (drop k r3) (acc @ [s]) = Inr r"
      using "1.prems" unfolding unmarshalSignaturesLoop.simps [of rest]
      by (auto simp: rest Let_def n_def r2_def k_def r3_def s_def split: if_splits)
    have "\<exists>ss. r = (acc @ [s]) @ ss \<and> checkSignatures ss = None \<and> drop k r3 = concat (map encodeSignature ss)"
      using "1.IH" [OF _ refl refl _ _ refl refl _ refl refl] g res
      by (simp add: rest n_def [symmetric] r2_def [symmetric] k_def [symmetric] r3_def [symmetric] s_def [symmetric])
    then obtain ss where ss: "r = acc @ s # ss" "checkSignatures ss = None" "drop k r3 = concat (map encodeSignature ss)"
      by auto
    have k: "k < 65536" using be_nat_less [of "take 2 r2" 2] g(3) by (simp add: k_def)
    have n: "n < 256" by (simp add: n_def)
    have "be_bytes 2 k = take 2 r2" using be_bytes_be_nat_eq [of "take 2 r2" 2] g(3) by (simp add: k_def)
    then have "r1 = take n r1 @ be_bytes 2 k @ take k r3 @ drop k r3"
      using append_take_drop_id [of n r1] append_take_drop_id [of 2 r2] append_take_drop_id [of k r3]
      by (simp add: r2_def r3_def)
    moreover have "encodeSignature s = b # take n r1 @ be_bytes 2 k @ take k r3"
      using g by (simp add: encodeSignature_def s_def n_def min_absorb2)
    moreover have "checkSignatures (s # ss) = None"
      using ss(2) g n k by (simp add: s_def)
    ultimately show ?thesis
      using ss by (intro exI [of _ "s # ss"]) (simp add: rest)
  qed
qed

lemma unmarshal_marshal_signatures:
  assumes "marshalSignatures ss = Inr sb"
  shows "unmarshalSignatures sb = Inr ss"
proof (cases "ss = []")
  case True
  with assms show ?thesis by (simp add: unmarshalSignatures_def marshalSignatures_def)
next
  case False
  with assms have c: "checkSignatures ss = None" "sb = concat (map encodeSignature ss)"
    by (auto simp: marshalSignatures_def split: option.splits)
  with False have "sb \<noteq> []" by (cases ss) (auto simp: encodeSignature_def)
  with unmarshal_marshal_loop [OF c(1), of "[]"] show ?thesis
    by (simp add: unmarshalSignatures_def c(2) [symmetric])
qed

lemma marshal_unmarshal_signatures:
  assumes "unmarshalSignatures sb = Inr ss"
  shows "marshalSignatures ss = Inr sb"
proof (cases "sb = []")
  case True
  with assms show ?thesis by (simp add: unmarshalSignatures_def marshalSignatures_def)
next
  case False
  with assms have "unmarshalSignaturesLoop sb [] = Inr ss"
    by (simp add: unmarshalSignatures_def)
  from marshal_unmarshal_loop [OF this] have "checkSignatures ss = None" "sb = concat (map encodeSignature ss)"
    by simp_all
  with False show ?thesis by (auto simp: marshalSignatures_def)
qed

text \<open>Concatenation and slicing of 32-byte hashes.\<close>

lemma take_concat_chunks:
  "\<forall>h\<in>set hs. length h = n \<Longrightarrow> map (\<lambda>i. take n (drop (i * n) (concat hs @ rest))) [0..<length hs] = hs"
proof (induction hs)
  case (Cons h hs)
  then have n: "length h = n" by simp
  have "map (\<lambda>i. take n (drop (i * n) (concat (h # hs) @ rest))) [0..<length (h # hs)] =
      h # map (\<lambda>i. take n (drop (Suc i * n) (concat (h # hs) @ rest))) [0..<length hs]"
    by (simp only: length_Cons map_upt_Suc) (simp add: n)
  also have "\<dots> = h # map (\<lambda>i. take n (drop (i * n) (concat hs @ rest))) [0..<length hs]"
    by (simp add: n)
  finally show ?case using Cons by simp
qed simp

lemma concat_chunks:
  "m * n \<le> length xs \<Longrightarrow> concat (map (\<lambda>i. take n (drop (i * n) xs)) [0..<m]) = take (m * n) xs"
proof (induction m)
  case (Suc m)
  have "take (Suc m * n) xs = take (m * n) xs @ take n (drop (m * n) xs)"
    by (simp only: mult_Suc add.commute [of n] take_add)
  with Suc show ?case by simp
qed simp

lemma length_concat_chunks: "\<forall>h\<in>set hs. length h = n \<Longrightarrow> length (concat hs) = length hs * n"
  by (induction hs) simp_all

lemma UnmarshalProof_MarshalProof:
  assumes "MarshalProof p = Inr d" "marshalSignatures (mp_Signatures p) = Inr sb"
  shows "UnmarshalProof d =
    (if length sb \<le> 0xFFFF then Inr p else Inl (Errorf ''mtcformat: trailing data after signatures''))"
proof -
  let ?hs = "mp_InclusionProof p"
  have r: "\<not> mp_End p \<le> mp_Start p" and pl: "length ?hs * 32 < 256 ^ 2" and hs: "\<forall>h\<in>set ?hs. length h = 32"
    and d: "d = be_bytes 8 (unat (mp_Start p)) @ be_bytes 8 (unat (mp_End p)) @
      be_bytes 2 (length ?hs * 32) @ concat ?hs @ be_bytes 2 (length sb) @ sb"
    using assms by (auto simp: MarshalProof_def HashSize_def Let_def split: if_splits sum.splits)
  note lc = length_concat_chunks [OF hs]
  have bl: "be_nat (be_bytes 2 (length ?hs * 32)) = length ?hs * 32"
    by (rule be_nat_be_bytes_id [OF pl])
  have d18: "drop 18 d = concat ?hs @ be_bytes 2 (length sb) @ sb" by (simp add: d)
  have chunks: "map (\<lambda>i. take 32 (drop (18 + i * 32) d)) [0..<length ?hs] = ?hs"
    using take_concat_chunks [OF hs, of "be_bytes 2 (length sb) @ sb"] by (simp add: d18 [symmetric] add.commute)
  have pos: "take 8 d = be_bytes 8 (unat (mp_Start p))" "take 8 (drop 8 d) = be_bytes 8 (unat (mp_End p))"
    "take 2 (drop 16 d) = be_bytes 2 (length ?hs * 32)"
    "take 2 (drop (18 + length ?hs * 32) d) = be_bytes 2 (length sb)"
    "drop (18 + length ?hs * 32 + 2) d = sb"
    "length d = 20 + length ?hs * 32 + length sb"
    using lc by (simp_all add: d)
  have sl: "be_nat (be_bytes 2 (length sb)) = length sb mod 65536"
    by (simp add: be_nat_be_bytes)
  have r': "\<not> (of_nat (be_nat (be_bytes 8 (unat (mp_End p)))) :: 64 word) \<le> of_nat (be_nat (be_bytes 8 (unat (mp_Start p))))"
    using r by simp
  show ?thesis
  proof (cases "length sb \<le> 0xFFFF")
    case True
    then have "length sb mod 65536 = length sb" by simp
    with True r pos bl sl chunks unmarshal_marshal_signatures [OF assms(2)] show ?thesis
      by (simp add: UnmarshalProof_def HashSize_def Let_def)
  next
    case False
    then have "65536 \<le> length sb" by simp
    then have "length sb mod 65536 < length sb"
      by (rule less_le_trans [of _ 65536, rotated]) simp
    with False r pos bl sl show ?thesis
      by (simp add: UnmarshalProof_def HashSize_def Let_def)
  qed
qed

lemma MarshalProof_UnmarshalProof:
  assumes "UnmarshalProof d = Inr p"
  shows "MarshalProof p = Inr d"
proof -
  define n where "n = be_nat (take 2 (drop 16 d))"
  define q where "q = n div 32"
  define k where "k = be_nat (take 2 (drop (18 + q * 32) d))"
  define hs where "hs = map (\<lambda>i. take 32 (drop (18 + i * 32) d)) [0..<q]"
  define ws where "ws = (of_nat (be_nat (take 8 d)) :: 64 word)"
  define we where "we = (of_nat (be_nat (take 8 (drop 8 d))) :: 64 word)"
  have g: "20 \<le> length d" "\<not> we \<le> ws" "n mod 32 = 0" "18 + n \<le> length d" "18 + q * 32 + 2 \<le> length d"
    "18 + q * 32 + 2 + k = length d"
    and sg: "unmarshalSignatures (take k (drop (18 + q * 32 + 2) d)) = Inr (mp_Signatures p)"
    and p: "mp_Start p = ws" "mp_End p = we" "mp_InclusionProof p = hs"
    using assms unfolding UnmarshalProof_def Let_def HashSize_def n_def [symmetric] q_def [symmetric]
      k_def [symmetric] hs_def [symmetric] ws_def [symmetric] we_def [symmetric]
    by (auto split: if_splits sum.splits)
  have n: "n = q * 32" "n < 65536"
    using g(1,3) be_nat_less [of "take 2 (drop 16 d)" 2] by (auto simp: q_def n_def)
  define sb where "sb = drop (18 + q * 32 + 2) d"
  have sb: "length sb = k" "marshalSignatures (mp_Signatures p) = Inr sb"
    using g(6) marshal_unmarshal_signatures [OF sg] by (simp_all add: sb_def)
  have hl: "\<forall>h\<in>set hs. length h = 32"
  proof
    fix h assume "h \<in> set hs"
    then obtain i where i: "i < q" "h = take 32 (drop (18 + i * 32) d)" by (auto simp: hs_def)
    then have "Suc i * 32 \<le> q * 32" by (intro mult_le_mono1) simp
    with i g(5) show "length h = 32" by simp
  qed
  have hc: "concat hs = take (q * 32) (drop 18 d)"
    using concat_chunks [of q 32 "drop 18 d"] g(5) by (simp add: hs_def add.commute)
  have parts: "be_bytes 8 (unat ws) = take 8 d" "be_bytes 8 (unat we) = take 8 (drop 8 d)"
    "be_bytes 2 k = take 2 (drop (18 + q * 32) d)"
    using g(1,5) unfolding ws_def we_def k_def
    by (simp_all add: be_bytes_unat64 be_bytes_be_nat_eq)
  have nb: "be_bytes 2 (q * 32) = take 2 (drop 16 d)"
    using be_bytes_be_nat_eq [of "take 2 (drop 16 d)" 2] g(1) by (simp add: n_def [symmetric] n(1))
  have "d = take 8 d @ take 8 (drop 8 d) @ take 2 (drop 16 d) @ take (q * 32) (drop 18 d) @
      take 2 (drop (18 + q * 32) d) @ sb"
    using append_take_drop_id [of 8 d] append_take_drop_id [of 8 "drop 8 d"] append_take_drop_id [of 2 "drop 16 d"]
      append_take_drop_id [of "q * 32" "drop 18 d"] append_take_drop_id [of 2 "drop (18 + q * 32) d"]
    by (simp add: sb_def add.commute)
  moreover have "length hs = q" by (simp add: hs_def)
  ultimately show ?thesis
    using g(2) n hl sb by (simp add: MarshalProof_def HashSize_def Let_def p parts nb hc)
qed

section \<open>Properties\<close>

text \<open>
  Log entries: \<open>UnmarshalEntry\<close> returns an entry exactly when \<open>MarshalEntry\<close> encodes
  that entry to the given bytes (and the entry carries no data unless its type does), so the
  two are mutually inverse, every accepted encoding is canonical and no two entries share one.
\<close>

lemma entry_codec:
  "UnmarshalEntry d = Inr e \<longleftrightarrow>
     MarshalEntry e = Inr d \<and> (me_Data e = [] \<or> me_Type e = EntryTypeTBSCert)"
  using UnmarshalEntry_MarshalEntry MarshalEntry_UnmarshalEntry by blast

text \<open>
  C15. Certificate proofs: what \<open>MarshalProof\<close> writes, \<open>UnmarshalProof\<close> reads back to the
  same proof as long as the encoded signatures fit their 16-bit length; when they do not,
  \<open>MarshalProof\<close> still succeeds and \<open>UnmarshalProof\<close> rejects the result as trailing data.
\<close>

theorem proof_roundtrip:
  assumes "MarshalProof p = Inr d" "marshalSignatures (mp_Signatures p) = Inr sb"
  shows "UnmarshalProof d =
    (if length sb \<le> 0xFFFF then Inr p else Inl (Errorf ''mtcformat: trailing data after signatures''))"
  using assms by (rule UnmarshalProof_MarshalProof)

theorem proof_roundtrip_witness:
  "\<exists>d. MarshalProof \<lparr>mp_Start = 1, mp_End = 3, mp_InclusionProof = [replicate 32 7],
      mp_Signatures = [\<lparr>ms_CosignerID = [1], ms_Signature = replicate 40000 0\<rparr>,
        \<lparr>ms_CosignerID = [2], ms_Signature = replicate 40000 0\<rparr>]\<rparr> = Inr d \<and>
     UnmarshalProof d = Inl (Errorf ''mtcformat: trailing data after signatures'')"
proof -
  let ?ss = "[\<lparr>ms_CosignerID = [1 :: byte], ms_Signature = replicate 40000 0\<rparr>,
        \<lparr>ms_CosignerID = [2], ms_Signature = replicate 40000 0\<rparr>]"
  let ?p = "\<lparr>mp_Start = 1, mp_End = 3, mp_InclusionProof = [replicate 32 7], mp_Signatures = ?ss\<rparr>"
  let ?sb = "concat (map encodeSignature ?ss)"
  have sb: "marshalSignatures (mp_Signatures ?p) = Inr ?sb"
    by (simp add: marshalSignatures_def)
  have len: "length ?sb = 80008"
    by (simp add: encodeSignature_def)
  have "\<not> (3 :: 64 word) \<le> 1" by (simp add: word_le_nat_alt)
  with sb have "\<exists>d. MarshalProof ?p = Inr d"
    by (simp add: MarshalProof_def HashSize_def Let_def)
  then obtain d where d: "MarshalProof ?p = Inr d" ..
  have "\<not> length ?sb \<le> 0xFFFF" by (simp only: len)
  with proof_roundtrip [OF d sb] d show ?thesis by auto
qed

text \<open>
  Certificate proofs, the other direction: every accepted byte string is the encoding
  of the proof it decodes to, so there is no malleability in the encoding.
\<close>

lemma proof_canonical:
  assumes "UnmarshalProof d = Inr p"
  shows "MarshalProof p = Inr d"
  using assms by (rule MarshalProof_UnmarshalProof)

lemma proof_canonical_witness:
  "MarshalProof \<lparr>mp_Start = 0, mp_End = 1, mp_InclusionProof = [], mp_Signatures = []\<rparr> =
     Inr (replicate 15 0 @ [1] @ replicate 4 0)"
proof -
  have "UnmarshalProof (replicate 15 0 @ [1] @ replicate 4 0) =
      Inr \<lparr>mp_Start = 0, mp_End = 1, mp_InclusionProof = [], mp_Signatures = []\<rparr>"
    by code_simp
  then show ?thesis by (rule proof_canonical)
qed

text \<open>
  The message that a cosigner signs determines the range, the subtree hash and the
  concatenation of cosigner and log identifier, and nothing more: the two identifiers are
  not delimited, so two messages are equal exactly when these agree.
\<close>

lemma subtree_message_injective:
  assumes "BuildSubtreeSignatureInput c l s e h = Inr m"
    and "BuildSubtreeSignatureInput c' l' s' e' h' = Inr m'"
  shows "m = m' \<longleftrightarrow> c @ l = c' @ l' \<and> s = s' \<and> e = e' \<and> h = h'"
proof -
  have tail: "c @ l @ x = c' @ l' @ y \<longleftrightarrow> c @ l = c' @ l' \<and> x = y" if "length x = length y" for x y
    using append_eq_append_conv [of "c @ l" "c' @ l'" x y] that by simp
  have w: "be_bytes 8 (unat s) = be_bytes 8 (unat s') \<longleftrightarrow> s = s'" for s s' :: "64 word"
    by (metis of_nat_be_nat64)
  have "length h = 32" "length h' = 32" and
    "m = MTCSubtreeLabel @ c @ l @ be_bytes 8 (unat s) @ be_bytes 8 (unat e) @ h"
    "m' = MTCSubtreeLabel @ c' @ l' @ be_bytes 8 (unat s') @ be_bytes 8 (unat e') @ h'"
    using assms by (auto simp: BuildSubtreeSignatureInput_def HashSize_def split: if_splits)
  then show ?thesis
    by (simp add: tail w)
qed

lemma subtree_message_injective_witness:
  "\<exists>m. BuildSubtreeSignatureInput [1] [2, 3] 0 8 (replicate 32 0) = Inr m \<and>
       BuildSubtreeSignatureInput [1, 2] [3] 0 8 (replicate 32 0) = Inr m"
proof -
  obtain m m' where m: "BuildSubtreeSignatureInput [1] [2, 3] 0 8 (replicate 32 0) = Inr m"
    "BuildSubtreeSignatureInput [1, 2] [3] 0 8 (replicate 32 0) = Inr m'"
    by (simp add: BuildSubtreeSignatureInput_def HashSize_def)
  with subtree_message_injective [OF m] show ?thesis by auto
qed

end
