(* ===== verification/MerkleNodes.thy ===== *)
theory MerkleNodes
  imports MerkleConsistency
begin

text \<open>
  \<open>src/internal/merkle/merkle.go\<close>, fourth part: subtree alignment and the functions that
  read precomputed tree nodes instead of leaves. The contract of the node store is the
  locale \<open>node_store\<close>: the node at level \<open>l\<close> and index \<open>i\<close> is the Merkle Tree Hash of the
  leaves \<open>[i * 2^l, (i + 1) * 2^l)\<close> whenever all of them are in the tree. Inside it the
  node-based functions are shown equal to the leaf-based ones.
\<close>

unbundle bit_operations_syntax

section \<open>The code\<close>

definition BitCeil :: "int \<Rightarrow> int" where
  "BitCeil n = (if n \<le> 1 then 1 else wrap64 (2 ^ bits_Len (nat (n - 1))))"

definition IsValidSubtree :: "int \<Rightarrow> int \<Rightarrow> bool" where
  "IsValidSubtree start e =
     (if start \<ge> e then False
      else let sz = e - start; alignment = BitCeil sz in go_rem start alignment = 0)"

text \<open>\<open>bits.TrailingZeros64\<close>.\<close>

fun trailing_zeros :: "nat \<Rightarrow> nat" where
  "trailing_zeros n = (if n = 0 \<or> odd n then 0 else Suc (trailing_zeros (n div 2)))"

declare trailing_zeros.simps [simp del]

definition TrailingZeros64 :: "nat \<Rightarrow> nat" where
  "TrailingZeros64 n = (if n = 0 then 64 else trailing_zeros n)"

type_synonym nodeAt = "int \<Rightarrow> int \<Rightarrow> hash"

function subtreeHashFromNodes :: "int \<Rightarrow> int \<Rightarrow> int \<Rightarrow> nodeAt \<Rightarrow> hash option" where
  "subtreeHashFromNodes start e level nodeAt =
     (let n = e - start in
      if n = 1 then Some (nodeAt level start)
      else if n AND (n - 1) = 0 then
        (let h = TrailingZeros64 (nat n);
             storageIdx = drop_bit h start
         in Some (nodeAt (level + int h) storageIdx))
      else do {
        k \<leftarrow> splitPoint n;
        left \<leftarrow> subtreeHashFromNodes start (start + k) level nodeAt;
        right \<leftarrow> subtreeHashFromNodes (start + k) e level nodeAt;
        Some (InteriorHash left right)
      })"
  by pat_completeness auto
termination by (relation "measure (\<lambda>(s, e, _). nat (e - s))") (auto dest!: splitPoint_Some)

declare subtreeHashFromNodes.simps [simp del]

function inclusionProofFromNodes :: "int \<Rightarrow> int \<Rightarrow> int \<Rightarrow> int \<Rightarrow> nodeAt \<Rightarrow> hash list option" where
  "inclusionProofFromNodes index start e level nodeAt =
     (let n = e - start in
      if n = 1 then Some []
      else do {
        k \<leftarrow> splitPoint n;
        if index - start < k then do {
          proof \<leftarrow> inclusionProofFromNodes index start (start + k) level nodeAt;
          sibling \<leftarrow> subtreeHashFromNodes (start + k) e level nodeAt;
          Some (proof @ [sibling])
        } else do {
          proof \<leftarrow> inclusionProofFromNodes index (start + k) e level nodeAt;
          sibling \<leftarrow> subtreeHashFromNodes start (start + k) level nodeAt;
          Some (proof @ [sibling])
        }
      })"
  by pat_completeness auto
termination
  by (relation "measure (\<lambda>(_, s, e, _). nat (e - s))") (auto dest!: splitPoint_Some)

declare inclusionProofFromNodes.simps [simp del]

definition InclusionProofFromNodes :: "int \<Rightarrow> int \<Rightarrow> nodeAt \<Rightarrow> (goerr + hash list) option" where
  "InclusionProofFromNodes index sz nodeAt =
     (if index < 0 \<or> index \<ge> sz then
        Some (Inl (Errorf ''merkle.InclusionProofFromNodes: index %d out of range [0, %d)''))
      else if sz \<le> 0 then
        Some (Inl (Errorf ''merkle.InclusionProofFromNodes: invalid tree size %d''))
      else do {
        proof \<leftarrow> inclusionProofFromNodes index 0 sz 0 nodeAt;
        Some (Inr proof)
      })"

function consistencyProofFromNodes ::
  "int \<Rightarrow> int \<Rightarrow> int \<Rightarrow> int \<Rightarrow> bool \<Rightarrow> nodeAt \<Rightarrow> hash list option" where
  "consistencyProofFromNodes m n start level openRight nodeAt =
     (let e = start + n in
      if m = n then
        (if openRight then Some []
         else do {
           h \<leftarrow> subtreeHashFromNodes start e level nodeAt;
           Some [h]
         })
      else do {
        k \<leftarrow> splitPoint n;
        if m \<le> k then do {
          proof \<leftarrow> consistencyProofFromNodes m k start level openRight nodeAt;
          h \<leftarrow> subtreeHashFromNodes (start + k) e level nodeAt;
          Some (proof @ [h])
        } else do {
          proof \<leftarrow> consistencyProofFromNodes (m - k) (n - k) (start + k) level False nodeAt;
          h \<leftarrow> subtreeHashFromNodes start (start + k) level nodeAt;
          Some (proof @ [h])
        }
      })"
  by pat_completeness auto
termination by (relation "measure (\<lambda>(_, n, _). nat n)") (auto dest!: splitPoint_Some)

declare consistencyProofFromNodes.simps [simp del]

definition ConsistencyProofFromNodes :: "int \<Rightarrow> int \<Rightarrow> nodeAt \<Rightarrow> (goerr + hash list) option" where
  "ConsistencyProofFromNodes oldSize newSize nodeAt =
     (if oldSize < 0 \<or> oldSize > newSize then
        Some (Inl (Errorf ''merkle.ConsistencyProofFromNodes: invalid sizes old=%d new=%d''))
      else if oldSize = 0 then Some (Inr [])
      else if oldSize = newSize then Some (Inr [])
      else do {
        proof \<leftarrow> consistencyProofFromNodes oldSize newSize 0 0 True nodeAt;
        Some (Inr proof)
      })"

definition RootFromNodes :: "int \<Rightarrow> nodeAt \<Rightarrow> hash option" where
  "RootFromNodes sz nodeAt =
     (if sz \<le> 0 then Some (Sum256 []) else subtreeHashFromNodes 0 sz 0 nodeAt)"

section \<open>Powers of two and alignment\<close>

lemma pow2_and:
  fixes n :: nat
  assumes "0 < n"
  shows "int n AND (int n - 1) = 0 \<longleftrightarrow> (\<exists>h. n = 2 ^ h)"
  using assms
proof (induction n rule: less_induct)
  case (less n)
  show ?case
  proof (cases "even n")
    case True
    then obtain m where m: "n = 2 * m" by auto
    with less have IH: "int m AND (int m - 1) = 0 \<longleftrightarrow> (\<exists>h. m = 2 ^ h)"
      by simp
    have half: "(2 * int m - 1) div 2 = int m - 1" by linarith
    have "int n AND (int n - 1) = 2 * (int m AND (int m - 1))"
      by (subst and_rec) (simp add: m half)
    moreover have "(\<exists>h. n = 2 ^ h) \<longleftrightarrow> (\<exists>h. m = 2 ^ h)"
    proof
      assume "\<exists>h. n = 2 ^ h"
      then obtain h where "2 * m = 2 ^ h" using m by auto
      then show "\<exists>h. m = 2 ^ h" by (cases h) auto
    qed (auto simp: m intro: exI [of _ "Suc _"])
    ultimately show ?thesis using IH by simp
  next
    case False
    then obtain m where m: "n = 2 * m + 1" by (elim oddE)
    have "int n AND (int n - 1) = 2 * int m"
      by (subst and_rec) (simp add: m)
    moreover have "(\<exists>h. n = 2 ^ h) \<longleftrightarrow> m = 0"
    proof
      assume "\<exists>h. n = 2 ^ h"
      then obtain h where "2 * m + 1 = 2 ^ h" using m by auto
      then show "m = 0" by (cases h) (auto, presburger)
    qed (simp add: m exI [of _ 0])
    ultimately show ?thesis by simp
  qed
qed

lemma trailing_zeros_pow2 [simp]: "trailing_zeros (2 ^ h) = h"
  by (induction h) (subst trailing_zeros.simps, simp)+

text \<open>
  A range is aligned when its start is a multiple of a power of two that is at least its
  length. This is \<open>IsValidSubtree\<close> without the bound of the 64-bit shift.
\<close>

definition aligned :: "int \<Rightarrow> int \<Rightarrow> bool" where
  "aligned s e \<longleftrightarrow> (\<exists>j. e - s \<le> 2 ^ j \<and> 2 ^ j dvd s)"

lemma aligned_0 [simp]: "aligned 0 e"
proof -
  have "e \<le> 2 ^ nat e"
    using of_nat_mono [OF less_imp_le [OF less_exp [of "nat e"]], where 'a = int]
    by (simp split: if_splits)
  then show ?thesis unfolding aligned_def by auto
qed

lemma splitPoint_pow2: "splitPoint n = Some k \<Longrightarrow> \<exists>j. k = 2 ^ j"
  by (auto simp: splitPoint_def split: if_splits)

lemma aligned_split:
  assumes "aligned s e" "splitPoint (e - s) = Some k"
  shows "aligned s (s + k)" "aligned (s + k) e"
proof -
  obtain i j where k: "k = 2 ^ i" and j: "e - s \<le> 2 ^ j" "2 ^ j dvd s"
    using assms(1) splitPoint_pow2 [OF assms(2)] by (auto simp: aligned_def)
  note kb = splitPoint_Some [OF assms(2)]
  have "2 ^ i < (2 :: int) ^ j" using kb j(1) unfolding k by linarith
  then have "i \<le> j" by (simp add: power_strict_increasing_iff)
  then have "k dvd s" using j(2) by (metis k le_imp_power_dvd dvd_trans)
  then show "aligned s (s + k)" "aligned (s + k) e"
    using kb by (auto simp: aligned_def k intro!: exI [of _ i])
qed

lemma IsValidSubtree_aligned:
  assumes "0 \<le> s" "s < e" "e - s \<le> 2 ^ 62"
  shows "IsValidSubtree s e \<longleftrightarrow> aligned s e"
proof -
  define b where "b = bits_Len (nat (e - s - 1))"
  have ceil: "BitCeil (e - s) = 2 ^ b \<and> e - s \<le> 2 ^ b \<and> (\<forall>j. e - s \<le> 2 ^ j \<longrightarrow> b \<le> j)"
  proof (cases "e - s = 1")
    case True
    then show ?thesis by (simp add: BitCeil_def b_def)
  next
    case False
    with assms(2) have n: "0 < nat (e - s - 1)" by simp
    have up: "e - s \<le> 2 ^ b"
    proof -
      have "int (nat (e - s - 1)) < 2 ^ b"
        using of_nat_less_iff [where 'a = int, THEN iffD2, OF bits_Len_upper [of "nat (e - s - 1)"]]
        by (simp add: b_def)
      then show ?thesis using n by simp
    qed
    have low: "2 ^ (b - 1) < e - s"
    proof -
      have "int (2 ^ (b - 1)) \<le> int (nat (e - s - 1))"
        using bits_Len_lower [OF n] by (simp only: of_nat_le_iff b_def)
      then show ?thesis using n by simp
    qed
    have least: "b \<le> j" if "e - s \<le> 2 ^ j" for j
    proof -
      have "2 ^ (b - 1) < (2 :: int) ^ j" using low that by linarith
      then have "b - 1 < j" by simp
      then show ?thesis by simp
    qed
    then have "b \<le> 62" using assms(3) by simp
    then have "(2 :: int) ^ b \<le> 2 ^ 62" by (intro power_increasing) simp_all
    then have "wrap64 (2 ^ b) = 2 ^ b"
      by (intro wrap64_id) (simp_all add: order_trans [of _ 0])
    with False assms(2) up least show ?thesis
      by (auto simp: BitCeil_def b_def)
  qed
  have "IsValidSubtree s e \<longleftrightarrow> 2 ^ b dvd s"
    using assms ceil by (simp add: IsValidSubtree_def Let_def dvd_eq_mod_eq_0)
  also have "\<dots> \<longleftrightarrow> aligned s e"
    using ceil unfolding aligned_def by (meson le_imp_power_dvd dvd_trans)
  finally show ?thesis .
qed

section \<open>The node store contract\<close>

locale node_store =
  fixes inv :: "'s \<Rightarrow> bool"
    and nodeAt :: "'s \<Rightarrow> int \<Rightarrow> int \<Rightarrow> hash"
    and leaf :: "'s \<Rightarrow> int \<Rightarrow> hash"
    and sz :: "'s \<Rightarrow> int"
  assumes nodeAt_complete:
    "inv st \<Longrightarrow> 0 \<le> i \<Longrightarrow> (i + 1) * 2 ^ l \<le> sz st \<Longrightarrow>
       nodeAt st (int l) i = mth (rng (leaf st) (i * 2 ^ l) ((i + 1) * 2 ^ l))"
begin

lemma stored_subtree:
  assumes "inv st" "0 \<le> s" "e - s = 2 ^ h" "2 ^ h dvd s" "e \<le> sz st"
  shows "nodeAt st (int h) (drop_bit h s) = mth (rng (leaf st) s e)"
proof -
  obtain q where q: "s = 2 ^ h * q" using assms(4) by auto
  then have "0 \<le> q" using assms(2) by (simp add: zero_le_mult_iff)
  then show ?thesis
    using nodeAt_complete [OF assms(1), of q h] assms(3,5) q
    by (simp add: drop_bit_eq_div algebra_simps)
qed

lemma subtreeHashFromNodes_mth:
  assumes "inv st" "0 \<le> s" "s < e" "e \<le> sz st" "aligned s e"
  shows "subtreeHashFromNodes s e 0 (nodeAt st) = Some (mth (rng (leaf st) s e))"
  using assms(2-)
proof (induction s e "0 :: int" "nodeAt st" rule: subtreeHashFromNodes.induct)
  case (1 s e)
  let ?n = "e - s"
  show ?case
  proof (cases "?n = 1")
    case True
    then show ?thesis
      using stored_subtree [OF assms(1), of s e 0] "1.prems"
      by (subst subtreeHashFromNodes.simps) simp
  next
    case n1: False
    show ?thesis
    proof (cases "?n AND (?n - 1) = 0")
      case True
      then obtain h where h: "nat ?n = 2 ^ h"
        using pow2_and [of "nat ?n"] "1.prems" by auto
      then have n: "?n = 2 ^ h"
        using "1.prems"(2) by (metis int_nat_eq diff_ge_0_iff_ge less_imp_le of_nat_numeral of_nat_power)
      obtain j where j: "?n \<le> 2 ^ j" "2 ^ j dvd s"
        using "1.prems" by (auto simp: aligned_def)
      then have "2 ^ h dvd s"
        using n by (metis le_imp_power_dvd dvd_trans power_le_imp_le_exp one_less_numeral_iff semiring_norm(76))
      then have "nodeAt st (int h) (drop_bit h s) = mth (rng (leaf st) s e)"
        using stored_subtree [OF assms(1)] "1.prems" n by blast
      then show ?thesis
        using n1 True h by (subst subtreeHashFromNodes.simps) (simp add: Let_def TrailingZeros64_def nat_power_eq)
    next
      case False
      obtain k where k: "splitPoint ?n = Some k"
        using n1 "1.prems" splitPoint_ex [of ?n] by auto
      note kb = splitPoint_Some [OF k] and al = aligned_split [OF "1.prems"(4) k]
      have l: "subtreeHashFromNodes s (s + k) 0 (nodeAt st) = Some (mth (rng (leaf st) s (s + k)))"
        using "1.hyps"(1) [OF refl n1 False k] "1.prems" kb al by simp
      have r: "subtreeHashFromNodes (s + k) e 0 (nodeAt st) = Some (mth (rng (leaf st) (s + k) e))"
        using "1.hyps"(2) [OF refl n1 False k l] "1.prems" kb al by simp
      from l r n1 False k show ?thesis
        by (subst subtreeHashFromNodes.simps) (simp add: Let_def mth_rng_split [OF k])
    qed
  qed
qed

lemma RootFromNodes_mth:
  assumes "inv st" "n \<le> sz st"
  shows "RootFromNodes n (nodeAt st) = Some (mth (rng (leaf st) 0 n))"
  using assms by (simp add: RootFromNodes_def subtreeHashFromNodes_mth)

lemma inclusionProofFromNodes_eq:
  assumes "inv st" "0 \<le> s" "s < e" "e \<le> sz st" "aligned s e"
  shows "inclusionProofFromNodes i s e 0 (nodeAt st) = inclusionProof i s e (leaf st)"
  using assms(2-)
proof (induction i s e "leaf st" rule: inclusionProof.induct)
  case (1 i s e)
  show ?case
  proof (cases "e - s = 1")
    case True
    then show ?thesis
      by (simp add: inclusionProof.simps [of i s] inclusionProofFromNodes.simps [of i s])
  next
    case False
    then obtain k where k: "splitPoint (e - s) = Some k"
      using "1.prems" splitPoint_ex [of "e - s"] by auto
    note kb = splitPoint_Some [OF k] and al = aligned_split [OF "1.prems"(4) k]
    have "subtreeHashFromNodes s (s + k) 0 (nodeAt st) = computeSubtreeHash s (s + k) (leaf st)"
      "subtreeHashFromNodes (s + k) e 0 (nodeAt st) = computeSubtreeHash (s + k) e (leaf st)"
      using "1.prems" kb al assms(1) by (simp_all add: subtreeHashFromNodes_mth computeSubtreeHash_mth)
    with "1.hyps" [OF refl False k] "1.prems" kb al k show ?thesis
      by (simp add: inclusionProof.simps [of i s e] inclusionProofFromNodes.simps [of i s e])
  qed
qed

lemma InclusionProofFromNodes_path:
  assumes "inv st" "0 \<le> i" "i < n" "n \<le> sz st"
  shows "InclusionProofFromNodes i n (nodeAt st) = Some (Inr (path (nat i) (rng (leaf st) 0 n)))"
  using assms inclusionProofFromNodes_eq [of st 0 n i] inclusionProof_path [of 0 i n "leaf st"]
  by (simp add: InclusionProofFromNodes_def)

lemma consistencyProofFromNodes_eq:
  assumes "inv st" "0 \<le> s" "0 < m" "m \<le> n" "s + n \<le> sz st" "aligned s (s + n)"
  shows "consistencyProofFromNodes m n s 0 b (nodeAt st) = consistencyProof m n s b (leaf st)"
  using assms(2-)
proof (induction m n s b "leaf st" rule: consistencyProof.induct)
  case (1 m n s b)
  show ?case
  proof (cases "m = n")
    case True
    then show ?thesis
      using "1.prems" assms(1)
      by (simp add: consistencyProof.simps [of n n] consistencyProofFromNodes.simps [of n n]
          subtreeHashFromNodes_mth computeSubtreeHash_mth)
  next
    case False
    then obtain k where k: "splitPoint n = Some k"
      using "1.prems" splitPoint_ex [of n] by auto
    then have k': "splitPoint (s + n - s) = Some k" by simp
    note kb = splitPoint_Some [OF k] and al = aligned_split [OF "1.prems"(5) k']
    have "subtreeHashFromNodes s (s + k) 0 (nodeAt st) = computeSubtreeHash s (s + k) (leaf st)"
      "subtreeHashFromNodes (s + k) (s + n) 0 (nodeAt st) = computeSubtreeHash (s + k) (s + n) (leaf st)"
      using "1.prems" kb al assms(1) by (simp_all add: subtreeHashFromNodes_mth computeSubtreeHash_mth)
    with "1.hyps" [OF refl False k] "1.prems" kb al k False show ?thesis
      by (simp add: consistencyProof.simps [of m n s] consistencyProofFromNodes.simps [of m n s] Let_def)
  qed
qed

lemma ConsistencyProofFromNodes_subproof:
  assumes "inv st" "0 < m" "m < n" "n \<le> sz st"
  shows "ConsistencyProofFromNodes m n (nodeAt st) = Some (Inr (subproof (nat m) (rng (leaf st) 0 n) True))"
  using assms consistencyProofFromNodes_eq [of st 0 m n True] consistencyProof_subproof [of m n 0 True "leaf st"]
  by (simp add: ConsistencyProofFromNodes_def)

end

end
