(* ===== verification/Store.thy ===== *)
theory Store
  imports MerkleNodes
begin

text \<open>
  \<open>src/internal/store/store.go\<close>: the PostgreSQL state store. The state is one record of
  tables, each the list of its rows in the order of insertion (\<open>tree_nodes\<close>, which is only
  ever read by its key, is a map). An operation is a function from the state to a Go result
  and the new state.

  The database driver may fail at any statement. The field \<open>db_sched\<close> is the schedule of
  these failures: every statement consumes one decision, and an exhausted schedule means no
  further failure. A failed statement changes nothing, a failed transaction is rolled back.
  Where SQL leaves the order of a list of rows open, the model takes the order of insertion; which row
  a query for one of several gets is decided by \<open>db_scan\<close>, an arbitrary function on their keys. \<open>db_now\<close>
  is the clock that \<open>NOW()\<close> and \<open>time.Now()\<close> read.
\<close>

section \<open>Rows and tables\<close>

text \<open>
  JSON documents, as what the program passes to \<open>json.Marshal\<close> for events, bundles and
  responses. Marshalling of such a value cannot fail, and the model keeps the document instead
  of its text. A \<open>time.Time\<close> is kept as its nanoseconds, a number with a fraction or an exponent as
  its text. A \<open>JSONB\<close> column holds a document.
\<close>

datatype json = JNull | JBool bool | JNum int | JReal string | JStr string | JTime int | JArr "json list" | JObj "(string \<times> json) list"

record LogEntry =
  le_Index :: int
  le_EntryType :: int
  le_EntryData :: bytes
  le_CertSHA256 :: bytes
  le_SerialHex :: string
  le_CACertID :: string
  le_CreatedAt :: int

record TreeNode =
  tn_Level :: int
  tn_Index :: int
  tn_Hash :: hash

record Checkpoint =
  cp_ID :: int
  cp_TreeSize :: int
  cp_RootHash :: bytes
  cp_Timestamp :: int
  cp_Signature :: bytes
  cp_Body :: string
  cp_CreatedAt :: int

record RevokedIndex =
  ri_EntryIdx :: int
  ri_SerialHex :: string
  ri_RevokedAt :: int
  ri_Reason :: int

record AssertionBundle =
  ab_EntryIdx :: int
  ab_SerialHex :: string
  ab_CheckpointID :: int
  ab_TreeSize :: int
  ab_BundleJSON :: json
  ab_BundlePEM :: string
  ab_Stale :: bool
  ab_CreatedAt :: int
  ab_UpdatedAt :: int

record WatcherCursor =
  wc_LastCreatedAt :: int
  wc_LastCertID :: string
  wc_UpdatedAt :: int

record Event =
  ev_ID :: int
  ev_EventType :: string
  ev_Payload :: json
  ev_CreatedAt :: int

record SubtreeSignature =
  ss_ID :: int
  ss_StartIdx :: int
  ss_EndIdx :: int
  ss_SubtreeHash :: bytes
  ss_CosignerID :: string
  ss_Algorithm :: int
  ss_Signature :: bytes
  ss_CheckpointID :: "int option"
  ss_CreatedAt :: int

record Landmark =
  lm_ID :: int
  lm_TreeSize :: int
  lm_RootHash :: bytes
  lm_CheckpointID :: int
  lm_CreatedAt :: int

record ACMEAccount =
  aa_ID :: string
  aa_Status :: string
  aa_KeyThumbprint :: string
  aa_JWK :: json
  aa_Contact :: json
  aa_CreatedAt :: int

record ACMEOrder =
  ao_ID :: string
  ao_AccountID :: string
  ao_Status :: string
  ao_Identifiers :: json
  ao_NotBefore :: "int option"
  ao_NotAfter :: "int option"
  ao_Expires :: int
  ao_CSR :: string
  ao_CertificateURL :: string
  ao_CertSerial :: string
  ao_AssertionURL :: string
  ao_ErrorType :: string
  ao_ErrorDetail :: string
  ao_CreatedAt :: int
  ao_UpdatedAt :: int
  ao_FinalCertDER :: bytes
  ao_CACertDER :: bytes

record ACMEAuthorization =
  az_ID :: string
  az_OrderID :: string
  az_Identifier :: json
  az_Status :: string
  az_Expires :: int
  az_Wildcard :: bool
  az_CreatedAt :: int

record ACMEChallenge =
  ch_ID :: string
  ch_AuthzID :: string
  ch_Type :: string
  ch_Status :: string
  ch_Token :: string
  ch_Validated :: "int option"
  ch_ErrorType :: string
  ch_ErrorDetail :: string
  ch_CreatedAt :: int

record CertMetadata =
  cm_EntryIdx :: int
  cm_CACertID :: string
  cm_CAName :: string
  cm_KeyAlgorithm :: string
  cm_SigAlgorithm :: string
  cm_CommonName :: string
  cm_IsPQ :: bool
  cm_BatchWindow :: int
  cm_CreatedAt :: int

record db =
  log_entries :: "LogEntry list"
  tree_nodes :: "int \<times> int \<Rightarrow> hash option"
  checkpoints :: "Checkpoint list"
  checkpoints_seq :: int
  revoked_indices :: "RevokedIndex list"
  watcher_cursor :: "WatcherCursor option"
  events :: "Event list"
  events_seq :: int
  assertion_bundles :: "AssertionBundle list"
  acme_accounts :: "ACMEAccount list"
  acme_orders :: "ACMEOrder list"
  acme_authorizations :: "ACMEAuthorization list"
  acme_challenges :: "ACMEChallenge list"
  cert_metadata :: "CertMetadata list"
  subtree_signatures :: "SubtreeSignature list"
  subtree_signatures_seq :: int
  landmarks :: "Landmark list"
  landmarks_seq :: int
  db_now :: int
  db_sched :: "bool list"
  db_scan :: "int list \<Rightarrow> int list"

text \<open>The database after \<open>Migrate\<close> on an empty server.\<close>

definition empty_db :: db where
  "empty_db = \<lparr>log_entries = [], tree_nodes = (\<lambda>_. None), checkpoints = [], checkpoints_seq = 0,
     revoked_indices = [], watcher_cursor = None, events = [], events_seq = 0,
     assertion_bundles = [], acme_accounts = [], acme_orders = [], acme_authorizations = [],
     acme_challenges = [], cert_metadata = [], subtree_signatures = [], subtree_signatures_seq = 0,
     landmarks = [], landmarks_seq = 0, db_now = 0, db_sched = [], db_scan = (\<lambda>is. is)\<rparr>"

section \<open>Statements and transactions\<close>

type_synonym 'a io = "db \<Rightarrow> (goerr + 'a) \<times> db"

text \<open>One statement: it fails by decision of the schedule or by its own error, or takes effect.\<close>

definition stmt :: "(db \<Rightarrow> goerr + 'a \<times> db) \<Rightarrow> 'a io" where
  "stmt f d =
     (case db_sched d of
        True # bs \<Rightarrow> (Inl ErrDB, d\<lparr>db_sched := bs\<rparr>)
      | _ \<Rightarrow>
        (let d1 = d\<lparr>db_sched := tl (db_sched d)\<rparr> in
         case f d1 of Inl e \<Rightarrow> (Inl e, d1) | Inr (v, d2) \<Rightarrow> (Inr v, d2)))"

definition exec :: "(db \<Rightarrow> goerr + db) \<Rightarrow> unit io" where
  "exec f = stmt (\<lambda>d. case f d of Inl e \<Rightarrow> Inl e | Inr d' \<Rightarrow> Inr ((), d'))"

definition query :: "(db \<Rightarrow> goerr + 'a) \<Rightarrow> 'a io" where
  "query f = stmt (\<lambda>d. case f d of Inl e \<Rightarrow> Inl e | Inr v \<Rightarrow> Inr (v, d))"

text \<open>\<open>QueryRow(...).Scan\<close>: the first row, or \<open>sql.ErrNoRows\<close>.\<close>

definition query_row :: "(db \<Rightarrow> 'a list) \<Rightarrow> 'a io" where
  "query_row f = query (\<lambda>d. case f d of [] \<Rightarrow> Inl ErrNoRows | r # _ \<Rightarrow> Inr r)"

text \<open>\<open>if err != nil { return fmt.Errorf(msg, err) }\<close>.\<close>

definition wrap :: "string \<Rightarrow> 'a io \<Rightarrow> 'a io" where
  "wrap msg m d = (case m d of (Inl e, d') \<Rightarrow> (Inl (Wrap msg e), d') | (Inr v, d') \<Rightarrow> (Inr v, d'))"

text \<open>Sequencing with an early return on error, iteration over a slice, and a transaction.\<close>

definition io_bind :: "'a io \<Rightarrow> ('a \<Rightarrow> 'b io) \<Rightarrow> 'b io" where
  "io_bind m f d = (case m d of (Inl e, d') \<Rightarrow> (Inl e, d') | (Inr v, d') \<Rightarrow> f v d')"

definition io_return :: "'a \<Rightarrow> 'a io" where
  "io_return v d = (Inr v, d)"

primrec for_each :: "('a \<Rightarrow> unit io) \<Rightarrow> 'a list \<Rightarrow> unit io" where
  "for_each f [] = io_return ()"
| "for_each f (x # xs) = io_bind (f x) (\<lambda>_. for_each f xs)"

definition tx :: "'a io \<Rightarrow> 'a io" where
  "tx body d =
     (case body d of
        (Inl e, d') \<Rightarrow> (Inl e, d\<lparr>db_sched := db_sched d'\<rparr>)
      | (Inr v, d') \<Rightarrow> (Inr v, d'))"

definition noop :: "unit io" where
  "noop = exec Inr"

text \<open>\<open>LIMIT\<close> with a negative argument is an error of the server.\<close>

definition sql_limit :: "int \<Rightarrow> 'a list \<Rightarrow> goerr + 'a list" where
  "sql_limit n xs = (if n < 0 then Inl ErrDB else Inr (take (nat n) xs))"

text \<open>\<open>ORDER BY key DESC\<close>.\<close>

definition desc :: "('a \<Rightarrow> int) \<Rightarrow> 'a list \<Rightarrow> 'a list" where
  "desc key xs = rev (sort_key key xs)"

section \<open>Log entries\<close>

definition insert_log_entry :: "LogEntry \<Rightarrow> db \<Rightarrow> goerr + db" where
  "insert_log_entry e d =
     (if \<exists>r\<in>set (log_entries d). le_Index r = le_Index e then Inl ErrDB
      else Inr (d\<lparr>log_entries := log_entries d @ [e\<lparr>le_CreatedAt := db_now d\<rparr>]\<rparr>))"

definition AppendEntry :: "LogEntry \<Rightarrow> unit io" where
  "AppendEntry entry = wrap ''store.AppendEntry: %w'' (exec (insert_log_entry entry))"

definition AppendEntries :: "LogEntry list \<Rightarrow> unit io" where
  "AppendEntries entries = tx (
     io_bind (wrap ''store.AppendEntries: begin: %w'' noop) (\<lambda>_.
     io_bind (wrap ''store.AppendEntries: prepare: %w'' noop) (\<lambda>_.
     io_bind (for_each (\<lambda>e. wrap ''store.AppendEntries: insert idx=%d: %w'' (exec (insert_log_entry e))) entries) (\<lambda>_.
     wrap ''store.AppendEntries: commit: %w'' noop))))"

definition GetEntry :: "int \<Rightarrow> LogEntry io" where
  "GetEntry idx = wrap ''store.GetEntry: %w''
     (query_row (\<lambda>d. filter (\<lambda>r. le_Index r = idx) (log_entries d)))"

definition GetEntries :: "int \<Rightarrow> int \<Rightarrow> LogEntry list io" where
  "GetEntries start e = wrap ''store.GetEntries: %w''
     (query (\<lambda>d. Inr (sort_key le_Index (filter (\<lambda>r. start \<le> le_Index r \<and> le_Index r < e) (log_entries d)))))"

definition max_plus_1 :: "int list \<Rightarrow> int" where
  "max_plus_1 xs = (if xs = [] then 0 else Max (set xs) + 1)"

definition TreeSize :: "int io" where
  "TreeSize = wrap ''store.TreeSize: %w'' (query (\<lambda>d. Inr (max_plus_1 (map le_Index (log_entries d)))))"

section \<open>Tree nodes\<close>

definition upsert_node :: "int \<Rightarrow> int \<Rightarrow> hash \<Rightarrow> db \<Rightarrow> db" where
  "upsert_node level index h d = d\<lparr>tree_nodes := (tree_nodes d)((level, index) \<mapsto> h)\<rparr>"

definition SetTreeNode :: "int \<Rightarrow> int \<Rightarrow> hash \<Rightarrow> unit io" where
  "SetTreeNode level index h = wrap ''store.SetTreeNode: %w'' (exec (\<lambda>d. Inr (upsert_node level index h d)))"

definition SetTreeNodes :: "TreeNode list \<Rightarrow> unit io" where
  "SetTreeNodes nodes = tx (
     io_bind (wrap ''store.SetTreeNodes: begin: %w'' noop) (\<lambda>_.
     io_bind (wrap ''store.SetTreeNodes: prepare: %w'' noop) (\<lambda>_.
     io_bind (for_each (\<lambda>n. wrap ''store.SetTreeNodes: insert level=%d index=%d: %w''
                (exec (\<lambda>d. Inr (upsert_node (tn_Level n) (tn_Index n) (tn_Hash n) d)))) nodes) (\<lambda>_.
     noop))))"

definition GetTreeNode :: "int \<Rightarrow> int \<Rightarrow> hash io" where
  "GetTreeNode level index = wrap ''store.GetTreeNode: %w''
     (query (\<lambda>d. case tree_nodes d (level, index) of None \<Rightarrow> Inl ErrNoRows | Some h \<Rightarrow> Inr h))"

text \<open>
  \<open>GetTileHashes\<close>: the rows in the window are placed at their offset in a slice of \<open>count\<close>
  zero hashes, and the slice is cut to the number of rows found.
\<close>

definition GetTileHashes :: "int \<Rightarrow> int \<Rightarrow> int \<Rightarrow> hash list io" where
  "GetTileHashes level nodeStart count = wrap ''store.GetTileHashes: %w''
     (query (\<lambda>d.
        let row = (\<lambda>idx. tree_nodes d (level, idx));
            window = [nodeStart..nodeStart + count - 1];
            hashes = map (\<lambda>idx. case row idx of None \<Rightarrow> EmptyHash | Some h \<Rightarrow> h) window;
            found = length (filter (\<lambda>idx. row idx \<noteq> None) window)
        in Inr (take found hashes)))"

section \<open>Executions without driver failures\<close>

text \<open>
  \<open>no_faults d\<close> says that the schedule holds no further failure. The rules below evaluate the
  combinators in such a state; they are collected in \<open>run_simps\<close>.
\<close>

definition no_faults :: "db \<Rightarrow> bool" where
  "no_faults d \<longleftrightarrow> db_sched d = []"

lemma stmt_run [run_simps]:
  "no_faults d \<Longrightarrow> stmt f d = (case f d of Inl e \<Rightarrow> (Inl e, d) | Inr (v, d2) \<Rightarrow> (Inr v, d2))"
proof -
  assume "no_faults d"
  then have s: "db_sched d = []" and eq: "d\<lparr>db_sched := []\<rparr> = d"
    by (cases d, simp add: no_faults_def)+
  show ?thesis by (simp add: stmt_def Let_def s eq)
qed

lemma exec_run [run_simps]:
  "no_faults d \<Longrightarrow> exec f d = (case f d of Inl e \<Rightarrow> (Inl e, d) | Inr d2 \<Rightarrow> (Inr (), d2))"
  by (simp add: exec_def stmt_run split: sum.split)

lemma query_run [run_simps]: "no_faults d \<Longrightarrow> query f d = (f d, d)"
  by (simp add: query_def stmt_run split: sum.split)

lemma noop_run [run_simps]: "no_faults d \<Longrightarrow> noop d = (Inr (), d)"
  by (simp add: noop_def exec_run)

lemma query_row_run [run_simps]:
  "no_faults d \<Longrightarrow> query_row f d = ((case f d of [] \<Rightarrow> Inl ErrNoRows | r # _ \<Rightarrow> Inr r), d)"
  by (simp add: query_row_def query_run)

lemma wrap_Inr [run_simps]: "m d = (Inr v, d') \<Longrightarrow> wrap msg m d = (Inr v, d')"
  by (simp add: wrap_def)

lemma wrap_Inl [run_simps]: "m d = (Inl e, d') \<Longrightarrow> wrap msg m d = (Inl (Wrap msg e), d')"
  by (simp add: wrap_def)

lemma io_bind_Inr [run_simps]: "m d = (Inr v, d') \<Longrightarrow> io_bind m f d = f v d'"
  by (simp add: io_bind_def)

lemma io_bind_Inl [run_simps]: "m d = (Inl e, d') \<Longrightarrow> io_bind m f d = (Inl e, d')"
  by (simp add: io_bind_def)

lemma io_return_run [run_simps]: "io_return v d = (Inr v, d)"
  by (simp add: io_return_def)

lemma tx_Inr [run_simps]: "body d = (Inr v, d') \<Longrightarrow> tx body d = (Inr v, d')"
  by (simp add: tx_def)

lemma no_faults_update [simp]:
  "no_faults (d\<lparr>log_entries := a\<rparr>) = no_faults d" "no_faults (d\<lparr>tree_nodes := b\<rparr>) = no_faults d"
  "no_faults (d\<lparr>checkpoints := c\<rparr>) = no_faults d" "no_faults (d\<lparr>checkpoints_seq := i\<rparr>) = no_faults d"
  by (simp_all add: no_faults_def)

lemma no_faults_upsert [simp]: "no_faults (upsert_node l i h d) = no_faults d"
  by (simp add: upsert_node_def)

text \<open>A loop of statements that cannot fail on their own is a fold.\<close>

lemma for_each_fold:
  assumes "\<And>x d. no_faults d \<Longrightarrow> f x d = (Inr (), g x d)" "\<And>x d. no_faults d \<Longrightarrow> no_faults (g x d)"
    and "no_faults d"
  shows "for_each f xs d = (Inr (), fold g xs d)"
  using assms(3)
proof (induction xs arbitrary: d)
  case Nil
  show ?case by (simp add: io_return_run)
next
  case (Cons x xs)
  then have "for_each f xs (g x d) = (Inr (), fold g xs (g x d))"
    using assms(2) by blast
  then show ?case
    using Cons.prems assms(1) by (simp add: io_bind_Inr)
qed

definition upsert_nodes :: "TreeNode list \<Rightarrow> db \<Rightarrow> db" where
  "upsert_nodes nodes d = fold (\<lambda>n. upsert_node (tn_Level n) (tn_Index n) (tn_Hash n)) nodes d"

lemma no_faults_upsert_nodes [simp]: "no_faults (upsert_nodes nodes d) = no_faults d"
  unfolding upsert_nodes_def by (induction nodes arbitrary: d) simp_all

lemma SetTreeNode_run [run_simps]: "no_faults d \<Longrightarrow> SetTreeNode l i h d = (Inr (), upsert_node l i h d)"
  by (simp add: SetTreeNode_def run_simps)

lemma SetTreeNodes_run [run_simps]: "no_faults d \<Longrightarrow> SetTreeNodes nodes d = (Inr (), upsert_nodes nodes d)"
proof -
  assume d: "no_faults d"
  let ?f = "\<lambda>n. wrap ''store.SetTreeNodes: insert level=%d index=%d: %w''
      (exec (\<lambda>d. Inr (upsert_node (tn_Level n) (tn_Index n) (tn_Hash n) d)))"
  have "for_each ?f nodes d = (Inr (), upsert_nodes nodes d)"
    unfolding upsert_nodes_def
    by (rule for_each_fold [OF _ _ d]) (simp_all add: run_simps)
  with d show ?thesis
    by (simp add: SetTreeNodes_def run_simps)
qed

lemma GetTreeNode_run [run_simps]:
  "no_faults d \<Longrightarrow> GetTreeNode l i d =
     (case tree_nodes d (l, i) of
        None \<Rightarrow> (Inl (Wrap ''store.GetTreeNode: %w'' ErrNoRows), d) | Some h \<Rightarrow> (Inr h, d))"
  by (simp add: GetTreeNode_def query_run wrap_def split: option.split)

lemma TreeSize_run [run_simps]:
  "no_faults d \<Longrightarrow> TreeSize d = (Inr (max_plus_1 (map le_Index (log_entries d))), d)"
  by (simp add: TreeSize_def run_simps)

text \<open>Effect of storing nodes on the node table: the other tables are untouched.\<close>

lemma tree_nodes_upsert_nodes:
  assumes "distinct (map (\<lambda>n. (tn_Level n, tn_Index n)) nodes)"
  shows "tree_nodes (upsert_nodes nodes d) k =
    (case map_of (map (\<lambda>n. ((tn_Level n, tn_Index n), tn_Hash n)) nodes) k of
       Some h \<Rightarrow> Some h | None \<Rightarrow> tree_nodes d k)"
  using assms unfolding upsert_nodes_def
proof (induction nodes arbitrary: d)
  case (Cons n ns)
  have "map_of (map (\<lambda>n. ((tn_Level n, tn_Index n), tn_Hash n)) ns) (tn_Level n, tn_Index n) = None"
    using Cons.prems by (auto simp: map_of_eq_None_iff)
  with Cons show ?case
    by (auto simp: upsert_node_def split: option.split)
qed simp

lemma log_entries_upsert_nodes [simp]:
  "log_entries (upsert_nodes nodes d) = log_entries d" "checkpoints (upsert_nodes nodes d) = checkpoints d"
  "checkpoints_seq (upsert_nodes nodes d) = checkpoints_seq d" "db_now (upsert_nodes nodes d) = db_now d"
  unfolding upsert_nodes_def by (induction nodes arbitrary: d) (simp_all add: upsert_node_def)

end
