(* ===== verification/StoreTables.thy ===== *)
theory StoreTables
  imports Store
begin

text \<open>
  \<open>src/internal/store/store.go\<close>, second part: checkpoints, revocations, searches, assertion
  bundles, the watcher cursor, events, statistics, subtree signatures, landmarks and the
  housekeeping statements.
\<close>

section \<open>Checkpoints\<close>

text \<open>\<open>SaveCheckpoint\<close> fills in the generated id and creation time of its argument.\<close>

definition SaveCheckpoint :: "Checkpoint \<Rightarrow> Checkpoint io" where
  "SaveCheckpoint cp = wrap ''store.SaveCheckpoint: %w''
     (stmt (\<lambda>d. let id = checkpoints_seq d + 1; row = cp\<lparr>cp_ID := id, cp_CreatedAt := db_now d\<rparr>
        in Inr (row, d\<lparr>checkpoints := checkpoints d @ [row], checkpoints_seq := id\<rparr>)))"

definition LatestCheckpoint :: "Checkpoint io" where
  "LatestCheckpoint = wrap ''store.LatestCheckpoint: %w''
     (query_row (\<lambda>d. take 1 (desc cp_ID (checkpoints d))))"

text \<open>The first row of a descending order is one with the greatest key.\<close>

lemma desc_first:
  assumes "xs \<noteq> []"
  shows "\<exists>x. take 1 (desc key xs) = [x] \<and> x \<in> set xs \<and> (\<forall>y\<in>set xs. key y \<le> key x)"
proof -
  let ?s = "sort_key key xs"
  have ne: "?s \<noteq> []" using assms by (metis length_sort length_0_conv)
  have "y \<in> set xs \<Longrightarrow> key y \<le> key (last ?s)" for y
  proof -
    assume "y \<in> set xs"
    then have "y \<in> set ?s" by simp
    then obtain i where i: "i < length ?s" "?s ! i = y" by (metis in_set_conv_nth)
    have "sorted (map key ?s)" by simp
    then have "map key ?s ! i \<le> map key ?s ! (length ?s - 1)"
      using i by (intro sorted_nth_mono) (auto simp del: sorted_sort_key)
    with i ne show ?thesis by (simp add: last_conv_nth)
  qed
  moreover have "take 1 (desc key xs) = [last ?s]"
    unfolding desc_def using ne by (cases ?s rule: rev_cases) simp_all
  moreover have "last ?s \<in> set xs" using last_in_set [OF ne] by simp
  ultimately show ?thesis by blast
qed

lemma LatestCheckpoint_run:
  assumes "no_faults d" "checkpoints d \<noteq> []"
  shows "\<exists>cp. LatestCheckpoint d = (Inr cp, d) \<and> cp \<in> set (checkpoints d) \<and> (\<forall>c\<in>set (checkpoints d). cp_ID c \<le> cp_ID cp)"
  using desc_first [OF assms(2), of cp_ID] assms(1)
  by (auto simp: LatestCheckpoint_def wrap_def query_row_run)

lemma LatestCheckpoint_mem:
  assumes "no_faults d" "LatestCheckpoint d = (Inr cp, d')"
  shows "cp \<in> set (checkpoints d)" "d' = d" "\<forall>c\<in>set (checkpoints d). cp_ID c \<le> cp_ID cp"
proof -
  have "checkpoints d \<noteq> []"
    using assms by (auto simp: LatestCheckpoint_def wrap_def query_row_run desc_def)
  from LatestCheckpoint_run [OF assms(1) this] assms(2)
  show "cp \<in> set (checkpoints d)" "d' = d" "\<forall>c\<in>set (checkpoints d). cp_ID c \<le> cp_ID cp" by auto
qed

definition GetCheckpoint :: "int \<Rightarrow> Checkpoint io" where
  "GetCheckpoint treeSize = wrap ''store.GetCheckpoint: %w''
     (query_row (\<lambda>d. take 1 (desc cp_ID (filter (\<lambda>r. cp_TreeSize r = treeSize) (checkpoints d)))))"

definition RecentCheckpoints :: "int \<Rightarrow> Checkpoint list io" where
  "RecentCheckpoints limit = wrap ''store.RecentCheckpoints: %w''
     (query (\<lambda>d. sql_limit limit (desc cp_ID (checkpoints d))))"

section \<open>Revocation\<close>

text \<open>
  \<open>ON CONFLICT DO NOTHING\<close> keeps the first revocation of an entry; the foreign key demands
  that the entry exists.
\<close>

definition AddRevocation :: "RevokedIndex \<Rightarrow> unit io" where
  "AddRevocation rv = wrap ''store.AddRevocation: %w''
     (exec (\<lambda>d.
        if \<exists>r\<in>set (revoked_indices d). ri_EntryIdx r = ri_EntryIdx rv then Inr d
        else if \<not> (\<exists>e\<in>set (log_entries d). le_Index e = ri_EntryIdx rv) then Inl ErrDB
        else Inr (d\<lparr>revoked_indices := revoked_indices d @ [rv]\<rparr>)))"

definition GetRevokedIndices :: "int list io" where
  "GetRevokedIndices = wrap ''store.GetRevokedIndices: %w''
     (query (\<lambda>d. Inr (sort (map ri_EntryIdx (revoked_indices d)))))"

definition RevocationCount :: "int io" where
  "RevocationCount = wrap ''store.RevocationCount: %w''
     (query (\<lambda>d. Inr (int (length (revoked_indices d)))))"

text \<open>
  Serial numbers are not unique in the table, and the query has no order: of several entries with
  one serial number the database returns the one it comes upon first.
\<close>

definition FindEntryBySerial :: "string \<Rightarrow> int io" where
  "FindEntryBySerial serialHex = wrap ''store.FindEntryBySerial: %w''
     (query_row (\<lambda>d. db_scan d (map le_Index (filter (\<lambda>r. le_SerialHex r = serialHex) (log_entries d)))))"

definition scan_ok :: "db \<Rightarrow> bool" where
  "scan_ok d \<longleftrightarrow> (\<forall>is. set (db_scan d is) = set is)"

section \<open>Search\<close>

record SearchResult =
  sr_Entry :: LogEntry
  sr_Revoked :: bool
  sr_RevokedAt :: "int option"

definition revoked_at :: "db \<Rightarrow> int \<Rightarrow> int option" where
  "revoked_at d idx = map_option ri_RevokedAt (find (\<lambda>r. ri_EntryIdx r = idx) (revoked_indices d))"

text \<open>One row of the \<open>LEFT JOIN\<close> with \<open>revoked_indices\<close>, and the scan into a result.\<close>

definition search_row :: "db \<Rightarrow> LogEntry \<Rightarrow> SearchResult" where
  "search_row d e =
     (let ra = revoked_at d (le_Index e)
      in \<lparr>sr_Entry = e, sr_Revoked = (ra \<noteq> None), sr_RevokedAt = ra\<rparr>)"

text \<open>\<open>ILIKE\<close>: \<open>%\<close> matches any string, \<open>_\<close> one character, a backslash escapes.\<close>

definition lower :: "char \<Rightarrow> char" where
  "lower c = (let n = (of_char c :: nat) in if 65 \<le> n \<and> n \<le> 90 then char_of (n + 32) else c)"

function like :: "string \<Rightarrow> string \<Rightarrow> bool" where
  "like pat s =
     (case pat of
        [] \<Rightarrow> s = []
      | p # ps \<Rightarrow>
        if p = CHR ''%'' then like ps s \<or> (case s of [] \<Rightarrow> False | _ # cs \<Rightarrow> like pat cs)
        else case s of
          [] \<Rightarrow> False
        | c # cs \<Rightarrow>
          if p = CHR ''_'' then like ps cs
          else if p = CHR 0x5C \<and> ps \<noteq> [] then c = hd ps \<and> like (tl ps) cs
          else p = c \<and> like ps cs)"
  by pat_completeness auto
termination
  by (relation "measures [\<lambda>(p, s). length p + length s]") auto

declare like.simps [simp del]

definition ilike :: "string \<Rightarrow> string \<Rightarrow> bool" where
  "ilike s pat = like (map lower pat) (map lower s)"

definition search_match :: "string \<Rightarrow> LogEntry \<Rightarrow> bool" where
  "search_match q e \<longleftrightarrow> ilike (le_SerialHex e) (''%'' @ q @ ''%'') \<or> le_CACertID e = q"

definition SearchEntries :: "string \<Rightarrow> int \<Rightarrow> SearchResult list io" where
  "SearchEntries q limit =
     (let limit = (if limit \<le> 0 then 50 else limit); limit = (if limit > 500 then 500 else limit)
      in wrap ''store.SearchEntries: %w'' (query (\<lambda>d.
           sql_limit limit (map (search_row d) (desc le_Index (filter (search_match q) (log_entries d)))))))"

definition GetEntryDetail :: "int \<Rightarrow> SearchResult io" where
  "GetEntryDetail idx = wrap ''store.GetEntryDetail: %w''
     (query_row (\<lambda>d. map (search_row d) (filter (\<lambda>r. le_Index r = idx) (log_entries d))))"

definition RecentEntries :: "int \<Rightarrow> SearchResult list io" where
  "RecentEntries limit =
     (let limit = (if limit \<le> 0 then 50 else limit)
      in wrap ''store.RecentEntries: %w'' (query (\<lambda>d.
           sql_limit limit (map (search_row d) (desc le_Index (log_entries d))))))"

definition RevokedEntries :: "string \<Rightarrow> int \<Rightarrow> SearchResult list io" where
  "RevokedEntries q limit =
     (let limit = (if limit \<le> 0 then 50 else limit); limit = (if limit > 500 then 500 else limit)
      in wrap ''store.RevokedEntries: %w'' (query (\<lambda>d.
           let rows = filter sr_Revoked (map (search_row d) (log_entries d));
               rows = (if q = '''' then rows else filter (\<lambda>r. search_match q (sr_Entry r)) rows)
           in sql_limit limit (desc (\<lambda>r. the (sr_RevokedAt r)) rows))))"

section \<open>Assertion bundles\<close>

text \<open>
  The upsert of one bundle: both foreign keys are checked, an existing row keeps its serial
  number and creation time.
\<close>

definition upsert_bundle :: "AssertionBundle \<Rightarrow> db \<Rightarrow> goerr + db" where
  "upsert_bundle ab d =
     (if \<not> (\<exists>e\<in>set (log_entries d). le_Index e = ab_EntryIdx ab) then Inl ErrDB
      else if \<not> (\<exists>c\<in>set (checkpoints d). cp_ID c = ab_CheckpointID ab) then Inl ErrDB
      else if \<exists>r\<in>set (assertion_bundles d). ab_EntryIdx r = ab_EntryIdx ab then
        Inr (d\<lparr>assertion_bundles := map (\<lambda>r. if ab_EntryIdx r = ab_EntryIdx ab then
               r\<lparr>ab_CheckpointID := ab_CheckpointID ab, ab_TreeSize := ab_TreeSize ab,
                 ab_BundleJSON := ab_BundleJSON ab, ab_BundlePEM := ab_BundlePEM ab,
                 ab_Stale := ab_Stale ab, ab_UpdatedAt := db_now d\<rparr> else r) (assertion_bundles d)\<rparr>)
      else Inr (d\<lparr>assertion_bundles := assertion_bundles d @
               [ab\<lparr>ab_CreatedAt := db_now d, ab_UpdatedAt := db_now d\<rparr>]\<rparr>))"

definition UpsertAssertionBundle :: "AssertionBundle \<Rightarrow> unit io" where
  "UpsertAssertionBundle ab = wrap ''store.UpsertAssertionBundle: %w'' (exec (upsert_bundle ab))"

definition UpsertAssertionBundles :: "AssertionBundle list \<Rightarrow> unit io" where
  "UpsertAssertionBundles bundles =
     (if length bundles = 0 then io_return ()
      else tx (
        io_bind (wrap ''store.UpsertAssertionBundles: begin: %w'' noop) (\<lambda>_.
        io_bind (wrap ''store.UpsertAssertionBundles: prepare: %w'' noop) (\<lambda>_.
        io_bind (for_each (\<lambda>ab. wrap ''store.UpsertAssertionBundles: idx=%d: %w'' (exec (upsert_bundle ab))) bundles) (\<lambda>_.
        noop)))))"

definition GetAssertionBundle :: "int \<Rightarrow> AssertionBundle io" where
  "GetAssertionBundle entryIdx = wrap ''store.GetAssertionBundle: %w''
     (query_row (\<lambda>d. filter (\<lambda>r. ab_EntryIdx r = entryIdx) (assertion_bundles d)))"

definition GetAssertionBundleBySerial :: "string \<Rightarrow> AssertionBundle io" where
  "GetAssertionBundleBySerial serialHex = wrap ''store.GetAssertionBundleBySerial: %w''
     (query_row (\<lambda>d. let rows = filter (\<lambda>r. ab_SerialHex r = serialHex) (assertion_bundles d) in
        concat (map (\<lambda>i. filter (\<lambda>r. ab_EntryIdx r = i) rows) (db_scan d (map ab_EntryIdx rows)))))"

definition pending_entries :: "db \<Rightarrow> int list" where
  "pending_entries d =
     map le_Index (filter (\<lambda>e. le_EntryType e = 1 \<and>
       \<not> (\<exists>r\<in>set (assertion_bundles d). ab_EntryIdx r = le_Index e \<and> \<not> ab_Stale r)) (log_entries d))"

definition ListPendingEntries :: "int \<Rightarrow> int list io" where
  "ListPendingEntries limit =
     (let limit = (if limit \<le> 0 then 100 else limit)
      in wrap ''store.ListPendingEntries: %w'' (query (\<lambda>d. sql_limit limit (desc id (pending_entries d)))))"

definition MarkStaleBundles :: "int \<Rightarrow> int io" where
  "MarkStaleBundles currentTreeSize = wrap ''store.MarkStaleBundles: %w''
     (stmt (\<lambda>d. let hit = (\<lambda>r. ab_TreeSize r < currentTreeSize \<and> \<not> ab_Stale r) in
        Inr (int (length (filter hit (assertion_bundles d))),
             d\<lparr>assertion_bundles := map (\<lambda>r. if hit r then r\<lparr>ab_Stale := True, ab_UpdatedAt := db_now d\<rparr> else r)
                 (assertion_bundles d)\<rparr>)))"

definition ListStaleBundles :: "int \<Rightarrow> int list io" where
  "ListStaleBundles limit =
     (let limit = (if limit \<le> 0 then 100 else limit)
      in wrap ''store.ListStaleBundles: %w'' (query (\<lambda>d.
           sql_limit limit (desc id (map ab_EntryIdx (filter ab_Stale (assertion_bundles d)))))))"

definition GetFreshBundlesSince :: "int \<Rightarrow> int \<Rightarrow> AssertionBundle list io" where
  "GetFreshBundlesSince sinceCheckpointID limit =
     (let limit = (if limit \<le> 0 then 100 else limit)
      in wrap ''store.GetFreshBundlesSince: %w'' (query (\<lambda>d.
           sql_limit limit (desc ab_CreatedAt
             (filter (\<lambda>r. ab_CheckpointID r > sinceCheckpointID \<and> \<not> ab_Stale r) (assertion_bundles d))))))"

record AssertionStats =
  as_TotalBundles :: int
  as_FreshBundles :: int
  as_StaleBundles :: int
  as_PendingEntries :: int
  as_LastGenerated :: int

text \<open>\<open>COALESCE(MAX(col), '1970-01-01')\<close>; the epoch is time 0.\<close>

definition max_or_epoch :: "int list \<Rightarrow> int" where
  "max_or_epoch xs = (if xs = [] then 0 else Max (set xs))"

definition GetAssertionStats :: "AssertionStats io" where
  "GetAssertionStats = wrap ''store.GetAssertionStats: %w'' (query (\<lambda>d. Inr
     \<lparr>as_TotalBundles = int (length (assertion_bundles d)),
      as_FreshBundles = int (length (filter (\<lambda>r. \<not> ab_Stale r) (assertion_bundles d))),
      as_StaleBundles = int (length (filter ab_Stale (assertion_bundles d))),
      as_PendingEntries = int (length (pending_entries d)),
      as_LastGenerated = max_or_epoch (map ab_UpdatedAt (assertion_bundles d))\<rparr>))"

section \<open>Watcher cursor\<close>

definition GetWatcherCursor :: "WatcherCursor io" where
  "GetWatcherCursor = wrap ''store.GetWatcherCursor: %w''
     (query (\<lambda>d. case watcher_cursor d of None \<Rightarrow> Inl ErrNoRows | Some c \<Rightarrow> Inr c))"

definition UpdateWatcherCursor :: "int \<Rightarrow> string \<Rightarrow> unit io" where
  "UpdateWatcherCursor lastCreatedAt lastCertID = wrap ''store.UpdateWatcherCursor: %w''
     (exec (\<lambda>d. Inr (d\<lparr>watcher_cursor := Some \<lparr>wc_LastCreatedAt = lastCreatedAt,
        wc_LastCertID = lastCertID, wc_UpdatedAt = db_now d\<rparr>\<rparr>)))"

section \<open>Events\<close>

definition EmitEvent :: "string \<Rightarrow> json \<Rightarrow> unit io" where
  "EmitEvent eventType payload = wrap ''store.EmitEvent: %w''
     (exec (\<lambda>d. let id = events_seq d + 1 in
        Inr (d\<lparr>events := events d @ [\<lparr>ev_ID = id, ev_EventType = eventType, ev_Payload = payload,
                 ev_CreatedAt = db_now d\<rparr>], events_seq := id\<rparr>)))"

definition RecentEvents :: "int \<Rightarrow> Event list io" where
  "RecentEvents limit = wrap ''store.RecentEvents: %w''
     (query (\<lambda>d. sql_limit limit (desc ev_ID (events d))))"

definition RecentEventsByType :: "string \<Rightarrow> int \<Rightarrow> Event list io" where
  "RecentEventsByType eventType limit = wrap ''store.RecentEventsByType: %w''
     (query (\<lambda>d. sql_limit limit (desc ev_ID (filter (\<lambda>e. ev_EventType e = eventType) (events d)))))"

definition EventsSince :: "int \<Rightarrow> Event list io" where
  "EventsSince sinceID = wrap ''store.EventsSince: %w''
     (query (\<lambda>d. sql_limit 100 (sort_key ev_ID (filter (\<lambda>e. ev_ID e > sinceID) (events d)))))"

section \<open>Statistics\<close>

record Stats =
  st_TreeSize :: int
  st_RevocationCount :: int
  st_CheckpointCount :: int
  st_LatestCheckpoint :: int
  st_EventCount :: int

definition GetStats :: "Stats io" where
  "GetStats = wrap ''store.GetStats: %w'' (query (\<lambda>d. Inr
     \<lparr>st_TreeSize = max_plus_1 (map le_Index (log_entries d)),
      st_RevocationCount = int (length (revoked_indices d)),
      st_CheckpointCount = int (length (checkpoints d)),
      st_LatestCheckpoint = max_or_epoch (map cp_CreatedAt (checkpoints d)),
      st_EventCount = int (length (events d))\<rparr>))"

section \<open>Subtree signatures and landmarks\<close>

definition SaveSubtreeSignature :: "SubtreeSignature \<Rightarrow> unit io" where
  "SaveSubtreeSignature sg = wrap ''store.SaveSubtreeSignature: %w''
     (exec (\<lambda>d. let id = subtree_signatures_seq d + 1 in
        Inr (d\<lparr>subtree_signatures := subtree_signatures d @ [sg\<lparr>ss_ID := id, ss_CreatedAt := db_now d\<rparr>],
               subtree_signatures_seq := id\<rparr>)))"

text \<open>\<open>ORDER BY cosigner_id\<close>, a text column: insertion sort on the byte order.\<close>

fun str_le :: "string \<Rightarrow> string \<Rightarrow> bool" where
  "str_le [] _ = True"
| "str_le (_ # _) [] = False"
| "str_le (a # as) (b # bs) =
     ((of_char a :: nat) < of_char b \<or> a = b \<and> str_le as bs)"

fun insert_by :: "('a \<Rightarrow> string) \<Rightarrow> 'a \<Rightarrow> 'a list \<Rightarrow> 'a list" where
  "insert_by key x [] = [x]"
| "insert_by key x (y # ys) = (if str_le (key x) (key y) then x # y # ys else y # insert_by key x ys)"

definition sort_by :: "('a \<Rightarrow> string) \<Rightarrow> 'a list \<Rightarrow> 'a list" where
  "sort_by key xs = foldr (insert_by key) xs []"

definition GetSubtreeSignatures :: "int \<Rightarrow> int \<Rightarrow> SubtreeSignature list io" where
  "GetSubtreeSignatures start e = wrap ''store.GetSubtreeSignatures: %w''
     (query (\<lambda>d. Inr (sort_by ss_CosignerID
        (filter (\<lambda>r. ss_StartIdx r = start \<and> ss_EndIdx r = e) (subtree_signatures d)))))"

text \<open>
  \<open>ON CONFLICT (tree_size) DO NOTHING\<close>; the sequence of the id column advances also when the
  row is dropped.
\<close>

definition SaveLandmark :: "Landmark \<Rightarrow> unit io" where
  "SaveLandmark lm = wrap ''store.SaveLandmark: %w''
     (exec (\<lambda>d. let id = landmarks_seq d + 1 in
        if \<exists>r\<in>set (landmarks d). lm_TreeSize r = lm_TreeSize lm then Inr (d\<lparr>landmarks_seq := id\<rparr>)
        else Inr (d\<lparr>landmarks := landmarks d @ [lm\<lparr>lm_ID := id, lm_CreatedAt := db_now d\<rparr>], landmarks_seq := id\<rparr>)))"

definition GetLandmark :: "int \<Rightarrow> Landmark io" where
  "GetLandmark treeSize = wrap ''store.GetLandmark: %w''
     (query_row (\<lambda>d. filter (\<lambda>r. lm_TreeSize r = treeSize) (landmarks d)))"

definition LatestLandmark :: "Landmark io" where
  "LatestLandmark = wrap ''store.LatestLandmark: %w''
     (query_row (\<lambda>d. take 1 (desc lm_TreeSize (landmarks d))))"

definition ListLandmarks :: "Landmark list io" where
  "ListLandmarks = wrap ''store.ListLandmarks: %w'' (query (\<lambda>d. Inr (sort_key lm_TreeSize (landmarks d))))"

section \<open>Housekeeping\<close>

definition DeleteStaleAssertionBundles :: "int \<Rightarrow> int io" where
  "DeleteStaleAssertionBundles olderThan = wrap ''store.DeleteStaleAssertionBundles: %w''
     (stmt (\<lambda>d. let cutoff = db_now d - olderThan; gone = (\<lambda>r. ab_Stale r \<and> ab_UpdatedAt r < cutoff) in
        Inr (int (length (filter gone (assertion_bundles d))),
             d\<lparr>assertion_bundles := filter (\<lambda>r. \<not> gone r) (assertion_bundles d)\<rparr>)))"

text \<open>
  The rows that \<open>PruneOldCheckpoints\<close> selects. The statement fails as a whole when one of
  them is still referenced by an assertion bundle, because the foreign key has no
  \<open>ON DELETE\<close> action.
\<close>

definition prunable :: "int \<Rightarrow> int \<Rightarrow> db \<Rightarrow> Checkpoint \<Rightarrow> bool" where
  "prunable cutoff keepRecent d c \<longleftrightarrow>
     cp_CreatedAt c < cutoff \<and>
     cp_ID c \<notin> set (map cp_ID (take (nat keepRecent) (desc cp_ID (checkpoints d)))) \<and>
     cp_TreeSize c \<notin> set (map lm_TreeSize (landmarks d))"

definition PruneOldCheckpoints :: "int \<Rightarrow> int \<Rightarrow> int io" where
  "PruneOldCheckpoints olderThan keepRecent =
     (let keepRecent = (if keepRecent < 10 then 10 else keepRecent)
      in wrap ''store.PruneOldCheckpoints: %w'' (stmt (\<lambda>d.
           let gone = prunable (db_now d - olderThan) keepRecent d in
           if \<exists>c\<in>set (checkpoints d). gone c \<and> (\<exists>r\<in>set (assertion_bundles d). ab_CheckpointID r = cp_ID c)
           then Inl ErrDB
           else Inr (int (length (filter gone (checkpoints d))),
                     d\<lparr>checkpoints := filter (\<lambda>c. \<not> gone c) (checkpoints d)\<rparr>))))"

definition PruneOldEvents :: "int \<Rightarrow> int \<Rightarrow> int io" where
  "PruneOldEvents olderThan keepRecent =
     (let keepRecent = (if keepRecent < 100 then 100 else keepRecent)
      in wrap ''store.PruneOldEvents: %w'' (stmt (\<lambda>d.
           let cutoff = db_now d - olderThan;
               recent = set (map ev_ID (take (nat keepRecent) (desc ev_ID (events d))));
               gone = (\<lambda>e. ev_CreatedAt e < cutoff \<and> ev_ID e \<notin> recent) in
           Inr (int (length (filter gone (events d))), d\<lparr>events := filter (\<lambda>e. \<not> gone e) (events d)\<rparr>))))"

section \<open>Pages\<close>

record 'a page =
  pg_Rows :: "'a list"
  pg_Total :: int
  pg_Page :: int
  pg_PageSize :: int

definition paginate :: "string \<Rightarrow> string \<Rightarrow> (db \<Rightarrow> 'a list) \<Rightarrow> ('a \<Rightarrow> int) \<Rightarrow> int \<Rightarrow> int \<Rightarrow> 'a page io" where
  "paginate msg_count msg rows key pg pageSize =
     io_bind (wrap msg_count (query (\<lambda>d. Inr (int (length (rows d)))))) (\<lambda>total.
     io_bind (wrap msg (query (\<lambda>d.
        let offset = (pg - 1) * pageSize in
        if offset < 0 then Inl ErrDB else sql_limit pageSize (drop (nat offset) (desc key (rows d)))))) (\<lambda>cps.
     io_return \<lparr>pg_Rows = cps, pg_Total = total, pg_Page = pg, pg_PageSize = pageSize\<rparr>))"

definition PaginatedCheckpoints :: "int \<Rightarrow> int \<Rightarrow> Checkpoint page io" where
  "PaginatedCheckpoints pg pageSize =
     (let pg = (if pg < 1 then 1 else pg); pageSize = (if pageSize < 1 \<or> pageSize > 100 then 10 else pageSize)
      in paginate ''store.PaginatedCheckpoints: count: %w'' ''store.PaginatedCheckpoints: %w'' checkpoints cp_ID pg pageSize)"

definition PaginatedEvents :: "int \<Rightarrow> int \<Rightarrow> Event page io" where
  "PaginatedEvents pg pageSize =
     (let pg = (if pg < 1 then 1 else pg); pageSize = (if pageSize < 1 \<or> pageSize > 100 then 20 else pageSize)
      in paginate ''store.PaginatedEvents: count: %w'' ''store.PaginatedEvents: %w'' events ev_ID pg pageSize)"

end
