(* ===== verification/StoreAcme.thy ===== *)
theory StoreAcme
  imports StoreTables
begin

text \<open>
  \<open>src/internal/store/store.go\<close>, third part: the tables of the ACME server, accounts,
  orders, authorizations and challenges.
\<close>

section \<open>Accounts\<close>

definition CreateACMEAccount :: "ACMEAccount \<Rightarrow> unit io" where
  "CreateACMEAccount acct = wrap ''store.CreateACMEAccount: %w''
     (exec (\<lambda>d.
        if \<exists>r\<in>set (acme_accounts d). aa_ID r = aa_ID acct \<or> aa_KeyThumbprint r = aa_KeyThumbprint acct
        then Inl ErrDB
        else Inr (d\<lparr>acme_accounts := acme_accounts d @ [acct\<lparr>aa_CreatedAt := db_now d\<rparr>]\<rparr>)))"

definition GetACMEAccount :: "string \<Rightarrow> ACMEAccount io" where
  "GetACMEAccount i = wrap ''store.GetACMEAccount: %w''
     (query_row (\<lambda>d. filter (\<lambda>r. aa_ID r = i) (acme_accounts d)))"

definition GetACMEAccountByThumbprint :: "string \<Rightarrow> ACMEAccount io" where
  "GetACMEAccountByThumbprint thumbprint = wrap ''store.GetACMEAccountByThumbprint: %w''
     (query_row (\<lambda>d. filter (\<lambda>r. aa_KeyThumbprint r = thumbprint) (acme_accounts d)))"

section \<open>Orders\<close>

text \<open>
  The three inserts of \<open>CreateACMEOrder\<close>. Only the listed columns are written; the others
  take their defaults, which \<open>GetACMEOrder\<close> reads back as empty strings.
\<close>

definition insert_order :: "ACMEOrder \<Rightarrow> db \<Rightarrow> goerr + db" where
  "insert_order o' d =
     (if \<exists>r\<in>set (acme_orders d). ao_ID r = ao_ID o' then Inl ErrDB
      else if \<not> (\<exists>a\<in>set (acme_accounts d). aa_ID a = ao_AccountID o') then Inl ErrDB
      else Inr (d\<lparr>acme_orders := acme_orders d @
        [o'\<lparr>ao_CSR := '''', ao_CertificateURL := '''', ao_CertSerial := '''', ao_AssertionURL := '''',
           ao_ErrorType := '''', ao_ErrorDetail := '''', ao_CreatedAt := db_now d, ao_UpdatedAt := db_now d,
           ao_FinalCertDER := [], ao_CACertDER := []\<rparr>]\<rparr>))"

definition insert_authz :: "ACMEAuthorization \<Rightarrow> db \<Rightarrow> goerr + db" where
  "insert_authz a d =
     (if \<exists>r\<in>set (acme_authorizations d). az_ID r = az_ID a then Inl ErrDB
      else if \<not> (\<exists>r\<in>set (acme_orders d). ao_ID r = az_OrderID a) then Inl ErrDB
      else Inr (d\<lparr>acme_authorizations := acme_authorizations d @ [a\<lparr>az_CreatedAt := db_now d\<rparr>]\<rparr>))"

definition insert_challenge :: "ACMEChallenge \<Rightarrow> db \<Rightarrow> goerr + db" where
  "insert_challenge c d =
     (if \<exists>r\<in>set (acme_challenges d). ch_ID r = ch_ID c then Inl ErrDB
      else if \<not> (\<exists>r\<in>set (acme_authorizations d). az_ID r = ch_AuthzID c) then Inl ErrDB
      else Inr (d\<lparr>acme_challenges := acme_challenges d @
        [c\<lparr>ch_Validated := None, ch_ErrorType := '''', ch_ErrorDetail := '''', ch_CreatedAt := db_now d\<rparr>]\<rparr>))"

definition CreateACMEOrder :: "ACMEOrder \<Rightarrow> ACMEAuthorization list \<Rightarrow> ACMEChallenge list \<Rightarrow> unit io" where
  "CreateACMEOrder order authzs challenges = tx (
     io_bind (wrap ''store.CreateACMEOrder: begin: %w'' noop) (\<lambda>_.
     io_bind (wrap ''store.CreateACMEOrder: order: %w'' (exec (insert_order order))) (\<lambda>_.
     io_bind (for_each (\<lambda>a. wrap ''store.CreateACMEOrder: authz %s: %w'' (exec (insert_authz a))) authzs) (\<lambda>_.
     io_bind (for_each (\<lambda>c. wrap ''store.CreateACMEOrder: challenge %s: %w'' (exec (insert_challenge c))) challenges) (\<lambda>_.
     noop)))))"

definition GetACMEOrder :: "string \<Rightarrow> ACMEOrder io" where
  "GetACMEOrder i = wrap ''store.GetACMEOrder: %w''
     (query_row (\<lambda>d. filter (\<lambda>r. ao_ID r = i) (acme_orders d)))"

text \<open>
  \<open>UpdateACMEOrderStatus\<close> builds its \<open>SET\<close> list from the keys of a map that are known
  columns and ignores the others. The map is a partial function on column names.
\<close>

definition set_column :: "(string \<Rightarrow> string option) \<Rightarrow> string \<Rightarrow> string \<Rightarrow> string" where
  "set_column updates col old = (case updates col of None \<Rightarrow> old | Some v \<Rightarrow> v)"

definition UpdateACMEOrderStatus :: "string \<Rightarrow> string \<Rightarrow> (string \<Rightarrow> string option) \<Rightarrow> unit io" where
  "UpdateACMEOrderStatus i status updates = wrap ''store.UpdateACMEOrderStatus: %w''
     (exec (\<lambda>d. Inr (d\<lparr>acme_orders := map (\<lambda>r. if ao_ID r = i then
        r\<lparr>ao_Status := status, ao_UpdatedAt := db_now d,
          ao_CSR := set_column updates ''csr'' (ao_CSR r),
          ao_CertificateURL := set_column updates ''certificate_url'' (ao_CertificateURL r),
          ao_CertSerial := set_column updates ''cert_serial'' (ao_CertSerial r),
          ao_AssertionURL := set_column updates ''assertion_url'' (ao_AssertionURL r),
          ao_ErrorType := set_column updates ''error_type'' (ao_ErrorType r),
          ao_ErrorDetail := set_column updates ''error_detail'' (ao_ErrorDetail r)\<rparr>
        else r) (acme_orders d)\<rparr>)))"

definition ListACMEOrdersByAccount :: "string \<Rightarrow> int \<Rightarrow> ACMEOrder list io" where
  "ListACMEOrdersByAccount accountID limit =
     (let limit = (if limit \<le> 0 then 50 else limit)
      in wrap ''store.ListACMEOrdersByAccount: %w'' (query (\<lambda>d.
           sql_limit limit (desc ao_CreatedAt (filter (\<lambda>r. ao_AccountID r = accountID) (acme_orders d))))))"

text \<open>
  An order without a certificate has a NULL serial, which equals nothing. The database takes any of
  several orders with one serial.
\<close>

definition FindACMEOrderBySerial :: "string \<Rightarrow> ACMEOrder io" where
  "FindACMEOrderBySerial serial =
     io_bind (wrap ''store.FindACMEOrderBySerial: %w''
       (query (\<lambda>d. let rows = filter (\<lambda>r. ao_CertSerial r \<noteq> '''' \<and> ao_CertSerial r = serial) (acme_orders d) in
          sql_limit 1 (map (\<lambda>i. rows ! nat i) (db_scan d [0..int (length rows) - 1]))))) (\<lambda>orders.
     case orders of [] \<Rightarrow> (\<lambda>d. (Inl ErrNoRows, d)) | r # _ \<Rightarrow> io_return r)"

definition SetOrderFinalCertDER :: "string \<Rightarrow> bytes \<Rightarrow> bytes \<Rightarrow> unit io" where
  "SetOrderFinalCertDER orderID finalCertDER caCertDER = wrap ''store.SetOrderFinalCertDER: %w''
     (exec (\<lambda>d. Inr (d\<lparr>acme_orders := map (\<lambda>r. if ao_ID r = orderID then
        r\<lparr>ao_FinalCertDER := finalCertDER, ao_CACertDER := caCertDER, ao_UpdatedAt := db_now d\<rparr> else r) (acme_orders d)\<rparr>)))"

definition GetOrderFinalCertDER :: "string \<Rightarrow> (bytes \<times> bytes) io" where
  "GetOrderFinalCertDER orderID = wrap ''store.GetOrderFinalCertDER: %w''
     (query_row (\<lambda>d. map (\<lambda>r. (ao_FinalCertDER r, ao_CACertDER r)) (filter (\<lambda>r. ao_ID r = orderID) (acme_orders d))))"

section \<open>Authorizations and challenges\<close>

definition GetACMEAuthorization :: "string \<Rightarrow> ACMEAuthorization io" where
  "GetACMEAuthorization i = wrap ''store.GetACMEAuthorization: %w''
     (query_row (\<lambda>d. filter (\<lambda>r. az_ID r = i) (acme_authorizations d)))"

definition ListACMEAuthorizationsByOrder :: "string \<Rightarrow> ACMEAuthorization list io" where
  "ListACMEAuthorizationsByOrder orderID = wrap ''store.ListACMEAuthorizationsByOrder: %w''
     (query (\<lambda>d. Inr (filter (\<lambda>r. az_OrderID r = orderID) (acme_authorizations d))))"

definition UpdateACMEAuthorizationStatus :: "string \<Rightarrow> string \<Rightarrow> unit io" where
  "UpdateACMEAuthorizationStatus i status = wrap ''store.UpdateACMEAuthorizationStatus: %w''
     (exec (\<lambda>d. Inr (d\<lparr>acme_authorizations :=
        map (\<lambda>r. if az_ID r = i then r\<lparr>az_Status := status\<rparr> else r) (acme_authorizations d)\<rparr>)))"

definition GetACMEChallenge :: "string \<Rightarrow> ACMEChallenge io" where
  "GetACMEChallenge i = wrap ''store.GetACMEChallenge: %w''
     (query_row (\<lambda>d. filter (\<lambda>r. ch_ID r = i) (acme_challenges d)))"

definition ListACMEChallengesByAuthz :: "string \<Rightarrow> ACMEChallenge list io" where
  "ListACMEChallengesByAuthz authzID = wrap ''store.ListACMEChallengesByAuthz: %w''
     (query (\<lambda>d. Inr (filter (\<lambda>r. ch_AuthzID r = authzID) (acme_challenges d))))"

definition UpdateACMEChallengeStatus :: "string \<Rightarrow> string \<Rightarrow> int option \<Rightarrow> string \<Rightarrow> string \<Rightarrow> unit io" where
  "UpdateACMEChallengeStatus i status validated errType errDetail = wrap ''store.UpdateACMEChallengeStatus: %w''
     (exec (\<lambda>d. Inr (d\<lparr>acme_challenges := map (\<lambda>r. if ch_ID r = i then
        r\<lparr>ch_Status := status, ch_Validated := validated, ch_ErrorType := errType, ch_ErrorDetail := errDetail\<rparr>
        else r) (acme_challenges d)\<rparr>)))"

definition GetACMEChallengeByToken :: "string \<Rightarrow> ACMEChallenge io" where
  "GetACMEChallengeByToken token = wrap ''store.GetACMEChallengeByToken: %w''
     (query_row (\<lambda>d. filter (\<lambda>r. ch_Token r = token) (acme_challenges d)))"

end
