(* ===== verification/GoStrings.thy ===== *)
theory GoStrings
  imports Prelude
begin

text \<open>
  The text functions of the Go standard library that the program uses, on strings of bytes:
  decimal numbers, hexadecimal and base64, splitting and trimming. White space is ASCII
  white space. The encoders are inverted by their decoders.
\<close>

section \<open>Decimal numbers\<close>

definition digit :: "nat \<Rightarrow> char" where
  "digit n = char_of (48 + n)"

definition digit_val :: "char \<Rightarrow> nat option" where
  "digit_val c = (let n = (of_char c :: nat) in if 48 \<le> n \<and> n \<le> 57 then Some (n - 48) else None)"

fun dec_nat :: "nat \<Rightarrow> string" where
  "dec_nat n = (if n < 10 then [digit n] else dec_nat (n div 10) @ [digit (n mod 10)])"

declare dec_nat.simps [simp del]

definition dec_int :: "int \<Rightarrow> string" where
  "dec_int i = (if i < 0 then CHR ''-'' # dec_nat (nat (- i)) else dec_nat (nat i))"

text \<open>\<open>fmt.Sprintf("%03d", n)\<close>.\<close>

definition dec_03 :: "int \<Rightarrow> string" where
  "dec_03 i =
     (if i < 0 then CHR ''-'' # replicate (2 - length (dec_nat (nat (- i)))) CHR ''0'' @ dec_nat (nat (- i))
      else replicate (3 - length (dec_nat (nat i))) CHR ''0'' @ dec_nat (nat i))"

text \<open>The longest prefix of digits, and the number that digits denote.\<close>

definition is_digit :: "char \<Rightarrow> bool" where
  "is_digit c \<longleftrightarrow> digit_val c \<noteq> None"

definition digits_nat :: "string \<Rightarrow> nat" where
  "digits_nat s = foldl (\<lambda>acc c. acc * 10 + the (digit_val c)) 0 s"

text \<open>\<open>strconv.ParseInt(s, 10, 64)\<close>: an optional sign and digits, all of the input, in range.\<close>

definition ParseInt :: "string \<Rightarrow> goerr + int" where
  "ParseInt s =
     (let (neg, ds) = (case s of c # cs \<Rightarrow> if c = CHR ''-'' then (True, cs) else if c = CHR ''+'' then (False, cs) else (False, s)
                       | [] \<Rightarrow> (False, s)) in
      if ds = [] \<or> \<not> list_all is_digit ds then Inl (Errorf ''strconv.ParseInt: invalid syntax'')
      else let v = (if neg then - int (digits_nat ds) else int (digits_nat ds)) in
        if v < - (2 ^ 63) \<or> v \<ge> 2 ^ 63 then Inl (Errorf ''strconv.ParseInt: value out of range'')
        else Inr v)"

text \<open>\<open>fmt.Sscanf(s, "%d", &n)\<close>: leading blanks, sign and digits; what follows is ignored.\<close>

definition Sscanf_d :: "string \<Rightarrow> goerr + int" where
  "Sscanf_d s =
     (let s = dropWhile (\<lambda>c. c = CHR '' '' \<or> c = CHR 0x09) s;
          (neg, r) = (case s of c # cs \<Rightarrow> if c = CHR ''-'' then (True, cs) else if c = CHR ''+'' then (False, cs) else (False, s)
                      | [] \<Rightarrow> (False, s));
          ds = takeWhile is_digit r in
      if ds = [] then Inl (Errorf ''expected integer'')
      else let v = (if neg then - int (digits_nat ds) else int (digits_nat ds)) in
        if v < - (2 ^ 63) \<or> v \<ge> 2 ^ 63 then Inl (Errorf ''integer overflow on token'')
        else Inr v)"

lemma of_char_less [simp]: "(of_char c :: nat) < 256"
  by (rule nat_of_char_less_256)

lemma of_char_digit [simp]: "n < 10 \<Longrightarrow> (of_char (digit n) :: nat) = 48 + n"
  by (simp add: digit_def of_char_of)

lemma digit_val_digit [simp]: "n < 10 \<Longrightarrow> digit_val (digit n) = Some n"
  by (simp add: digit_val_def)

lemma is_digit_digit [simp]: "n < 10 \<Longrightarrow> is_digit (digit n)"
  by (simp add: is_digit_def)

lemma dec_nat_not_Nil [simp]: "dec_nat n \<noteq> []"
  by (subst dec_nat.simps) simp

lemma dec_nat_digits: "list_all is_digit (dec_nat n)"
proof (induction n rule: dec_nat.induct)
  case (1 n)
  then show ?case
    by (subst dec_nat.simps) auto
qed

lemma digits_nat_snoc [simp]: "digits_nat (s @ [c]) = digits_nat s * 10 + the (digit_val c)"
  by (simp add: digits_nat_def)

lemma digits_nat_dec_nat [simp]: "digits_nat (dec_nat n) = n"
proof (induction n rule: dec_nat.induct)
  case (1 n)
  show ?case
  proof (cases "n < 10")
    case True
    then show ?thesis by (simp add: dec_nat.simps digits_nat_def)
  next
    case False
    with 1 show ?thesis by (subst dec_nat.simps) simp
  qed
qed

lemma digit_not_sign:
  assumes "is_digit c" shows "c \<noteq> CHR ''-''" "c \<noteq> CHR ''+''" "c \<noteq> CHR '' ''" "c \<noteq> CHR 0x09" "c \<noteq> CHR 0x0A"
  using assms by (auto simp: is_digit_def digit_val_def Let_def)

lemma dec_nat_hd: "\<exists>c cs. dec_nat n = c # cs \<and> is_digit c"
  using dec_nat_digits [of n] by (cases "dec_nat n") auto

lemma Sscanf_d_dec_int:
  assumes "- (2 ^ 63) \<le> i" "i < 2 ^ 63"
  shows "Sscanf_d (dec_int i) = Inr i"
proof -
  obtain c cs where c: "dec_nat (nat \<bar>i\<bar>) = c # cs" "is_digit c"
    using dec_nat_hd by blast
  have tw: "takeWhile is_digit cs = cs"
    using dec_nat_digits [of "nat \<bar>i\<bar>"] c(1) by (simp add: list_all_iff takeWhile_eq_all_conv)
  have dn: "int (digits_nat (c # cs)) = \<bar>i\<bar>"
    using digits_nat_dec_nat [of "nat \<bar>i\<bar>"] c(1) by simp
  show ?thesis
    using assms c digit_not_sign [OF c(2)] dn
    by (cases "i < 0") (simp_all add: Sscanf_d_def dec_int_def Let_def tw)
qed

lemma ParseInt_dec_int:
  assumes "- (2 ^ 63) \<le> i" "i < 2 ^ 63"
  shows "ParseInt (dec_int i) = Inr i"
proof -
  obtain c cs where c: "dec_nat (nat \<bar>i\<bar>) = c # cs" "is_digit c"
    using dec_nat_hd by blast
  have all: "list_all is_digit (c # cs)"
    using dec_nat_digits [of "nat \<bar>i\<bar>"] c(1) by simp
  have dn: "int (digits_nat (c # cs)) = \<bar>i\<bar>"
    using digits_nat_dec_nat [of "nat \<bar>i\<bar>"] c(1) by simp
  show ?thesis
    using assms c digit_not_sign [OF c(2)] all dn
    by (cases "i < 0") (simp_all add: ParseInt_def dec_int_def Let_def)
qed

section \<open>Hexadecimal\<close>

definition hex_digit :: "nat \<Rightarrow> char" where
  "hex_digit n = (if n < 10 then char_of (48 + n) else char_of (87 + n))"

definition hex_val :: "char \<Rightarrow> nat option" where
  "hex_val c =
     (let n = (of_char c :: nat) in
      if 48 \<le> n \<and> n \<le> 57 then Some (n - 48)
      else if 97 \<le> n \<and> n \<le> 102 then Some (n - 87)
      else if 65 \<le> n \<and> n \<le> 70 then Some (n - 55) else None)"

definition hex_EncodeToString :: "bytes \<Rightarrow> string" where
  "hex_EncodeToString bs = concat (map (\<lambda>b. [hex_digit (unat b div 16), hex_digit (unat b mod 16)]) bs)"

fun hex_DecodeString :: "string \<Rightarrow> goerr + bytes" where
  "hex_DecodeString [] = Inr []"
| "hex_DecodeString [c] = (case hex_val c of None \<Rightarrow> Inl (Errorf ''encoding/hex: invalid byte: %#U'')
                           | Some _ \<Rightarrow> Inl (Errorf ''encoding/hex: odd length hex string''))"
| "hex_DecodeString (a # b # cs) =
     (case (hex_val a, hex_val b) of
        (Some x, Some y) \<Rightarrow>
          (case hex_DecodeString cs of Inl e \<Rightarrow> Inl e | Inr bs \<Rightarrow> Inr (of_nat (x * 16 + y) # bs))
      | _ \<Rightarrow> Inl (Errorf ''encoding/hex: invalid byte: %#U''))"

lemma hex_val_digit [simp]: "n < 16 \<Longrightarrow> hex_val (hex_digit n) = Some n"
  by (auto simp: hex_val_def hex_digit_def of_char_of Let_def)

lemma hex_roundtrip [simp]: "hex_DecodeString (hex_EncodeToString bs) = Inr bs"
proof (induction bs)
  case (Cons b bs)
  have "unat b div 16 < 16"
    using unat_byte_less [of b] by linarith
  moreover have "(of_nat (unat b div 16 * 16 + unat b mod 16) :: byte) = b"
    by (simp only: div_mult_mod_eq) simp
  ultimately show ?case
    using Cons by (simp add: hex_EncodeToString_def del: of_nat_add of_nat_mult)
qed (simp add: hex_EncodeToString_def)

section \<open>Base64\<close>

definition b64_std :: string where
  "b64_std = ''ABCDEFGHIJKLMNOPQRSTUVWXYZabcdefghijklmnopqrstuvwxyz0123456789+/''"

definition b64_url :: string where
  "b64_url = ''ABCDEFGHIJKLMNOPQRSTUVWXYZabcdefghijklmnopqrstuvwxyz0123456789-_''"

fun index_of :: "char \<Rightarrow> string \<Rightarrow> nat option" where
  "index_of c [] = None"
| "index_of c (x # xs) = (if c = x then Some 0 else map_option Suc (index_of c xs))"

text \<open>The four characters of three bytes, and the encodings of the one or two last bytes.\<close>

fun b64_encode :: "string \<Rightarrow> bool \<Rightarrow> bytes \<Rightarrow> string" where
  "b64_encode al pad [] = []"
| "b64_encode al pad [a] =
     (let n = unat a * 16 in [al ! (n div 64), al ! (n mod 64)] @ (if pad then ''=='' else []))"
| "b64_encode al pad [a, b] =
     (let n = (unat a * 256 + unat b) * 4
      in [al ! (n div 4096), al ! (n div 64 mod 64), al ! (n mod 64)] @ (if pad then ''='' else []))"
| "b64_encode al pad (a # b # c # bs) =
     (let n = (unat a * 256 + unat b) * 256 + unat c
      in [al ! (n div 262144), al ! (n div 4096 mod 64), al ! (n div 64 mod 64), al ! (n mod 64)] @
         b64_encode al pad bs)"

definition b64_err :: goerr where
  "b64_err = Errorf ''illegal base64 data at input byte %d''"

fun b64_decode :: "string \<Rightarrow> bool \<Rightarrow> string \<Rightarrow> goerr + bytes" where
  "b64_decode al pad [] = Inr []"
| "b64_decode al pad [a, b] =
     (if pad then Inl b64_err
      else case (index_of a al, index_of b al) of
        (Some x, Some y) \<Rightarrow> Inr [of_nat ((x * 64 + y) div 16)]
      | _ \<Rightarrow> Inl b64_err)"
| "b64_decode al pad [a, b, c] =
     (if pad then Inl b64_err
      else case (index_of a al, index_of b al, index_of c al) of
        (Some x, Some y, Some z) \<Rightarrow>
          Inr [of_nat (((x * 64 + y) * 64 + z) div 1024), of_nat (((x * 64 + y) * 64 + z) div 4)]
      | _ \<Rightarrow> Inl b64_err)"
| "b64_decode al pad (a # b # c # d # cs) =
     (if pad \<and> cs = [] \<and> c = CHR ''='' \<and> d = CHR ''='' then b64_decode al False [a, b]
      else if pad \<and> cs = [] \<and> d = CHR ''='' then b64_decode al False [a, b, c]
      else case (index_of a al, index_of b al, index_of c al, index_of d al) of
        (Some x, Some y, Some z, Some w) \<Rightarrow>
          (let n = ((x * 64 + y) * 64 + z) * 64 + w in
           case b64_decode al pad cs of
             Inl e \<Rightarrow> Inl e
           | Inr bs \<Rightarrow> Inr (of_nat (n div 65536) # of_nat (n div 256) # of_nat n # bs))
      | _ \<Rightarrow> Inl b64_err)"
| "b64_decode al pad [a] = Inl b64_err"

text \<open>
  \<open>base64.StdEncoding\<close> and \<open>base64.RawURLEncoding\<close>; the decoder skips line breaks.
\<close>

definition skip_newlines :: "string \<Rightarrow> string" where
  "skip_newlines s = filter (\<lambda>c. c \<noteq> CHR 0x0A \<and> c \<noteq> CHR 0x0D) s"

definition base64_EncodeToString :: "bytes \<Rightarrow> string" where
  "base64_EncodeToString bs = b64_encode b64_std True bs"

definition base64_DecodeString :: "string \<Rightarrow> goerr + bytes" where
  "base64_DecodeString s = b64_decode b64_std True (skip_newlines s)"

definition base64url_EncodeToString :: "bytes \<Rightarrow> string" where
  "base64url_EncodeToString bs = b64_encode b64_url False bs"

definition base64url_DecodeString :: "string \<Rightarrow> goerr + bytes" where
  "base64url_DecodeString s = b64_decode b64_url False (skip_newlines s)"

text \<open>An alphabet: 64 different characters, none of them the padding or a line break.\<close>

definition alphabet :: "string \<Rightarrow> bool" where
  "alphabet al \<longleftrightarrow> length al = 64 \<and> distinct al \<and>
     CHR ''='' \<notin> set al \<and> CHR 0x0A \<notin> set al \<and> CHR 0x0D \<notin> set al \<and> CHR '' '' \<notin> set al"

lemma alphabet_std [simp]: "alphabet b64_std"
  by (simp add: alphabet_def b64_std_def)

lemma alphabet_url [simp]: "alphabet b64_url"
  by (simp add: alphabet_def b64_url_def)

lemma index_of_nth: "distinct xs \<Longrightarrow> i < length xs \<Longrightarrow> index_of (xs ! i) xs = Some i"
proof (induction xs arbitrary: i)
  case (Cons x xs)
  then show ?case by (cases i) auto
qed simp

lemma alphabet_nth:
  assumes "alphabet al" "i < 64"
  shows "index_of (al ! i) al = Some i" "al ! i \<in> set al" "al ! i \<noteq> CHR ''=''"
proof -
  have l: "length al = 64" "distinct al" "CHR ''='' \<notin> set al"
    using assms(1) by (simp_all add: alphabet_def)
  show "index_of (al ! i) al = Some i" using l assms(2) by (simp add: index_of_nth)
  show mem: "al ! i \<in> set al" using l assms(2) by simp
  show "al ! i \<noteq> CHR ''=''" using mem l(3) by metis
qed

lemma byte_of_nat: "n mod 256 = unat b \<Longrightarrow> (of_nat n :: byte) = b"
  by (simp add: word_unat_eq_iff)

text \<open>A number is recovered from its base-64 digits.\<close>

lemma base64_digits:
  fixes n :: nat
  shows "n div 64 * 64 + n mod 64 = n"
    and "(n div 4096 * 64 + n div 64 mod 64) * 64 + n mod 64 = n"
    and "((n div 262144 * 64 + n div 4096 mod 64) * 64 + n div 64 mod 64) * 64 + n mod 64 = n"
proof -
  have s: "m div 64 * 64 + m mod 64 = m" for m :: nat by simp
  have d: "n div 4096 = n div 64 div 64" "n div 262144 = n div 64 div 64 div 64"
    by (simp_all add: div_mult2_eq [symmetric])
  show "n div 64 * 64 + n mod 64 = n"
    and "(n div 4096 * 64 + n div 64 mod 64) * 64 + n mod 64 = n"
    and "((n div 262144 * 64 + n div 4096 mod 64) * 64 + n div 64 mod 64) * 64 + n mod 64 = n"
    unfolding d s by (rule refl)+
qed

lemma three_bytes_bound:
  fixes a b c :: nat
  assumes "a < 256" "b < 256" "c < 256"
  shows "(a * 256 + b) * 4 < 64 * 4096" "(a * 256 + b) * 256 + c < 64 * 262144"
  using assms by simp_all

lemma two_bytes_sextet: "(unat (a :: byte) * 256 + unat (b :: byte)) * 4 div 4096 < 64"
  by (rule less_mult_imp_div_less) (rule three_bytes_bound(1) [of _ _ 0]; simp)

lemma three_bytes_sextet:
  "((unat (a :: byte) * 256 + unat (b :: byte)) * 256 + unat (c :: byte)) div 262144 < 64"
  by (rule less_mult_imp_div_less) (rule three_bytes_bound(2); simp)

lemma b64_roundtrip:
  assumes "alphabet al"
  shows "b64_decode al pad (b64_encode al pad bs) = Inr bs"
  using assms
proof (induction al pad bs rule: b64_encode.induct)
  case (2 al pad a)
  let ?n = "unat a * 16"
  have "?n div 64 < 64" "?n mod 64 < 64"
    using unat_byte_less [of a] by linarith+
  note i = this [THEN alphabet_nth(1) [OF 2]]
  have "b64_decode al False [al ! (?n div 64), al ! (?n mod 64)] = Inr [a]"
    by (simp only: b64_decode.simps i base64_digits if_False prod.case option.case) simp
  then show ?case
    by (cases pad) (simp_all add: Let_def)
next
  case (3 al pad a b)
  let ?n = "(unat a * 256 + unat b) * 4"
  have "?n div 4096 < 64" "?n div 64 mod 64 < 64" "?n mod 64 < 64"
    by (rule two_bytes_sextet) simp_all
  note i = this [THEN alphabet_nth(1) [OF 3]] and ne = this(3) [THEN alphabet_nth(3) [OF 3]]
  have "?n div 1024 mod 256 = unat a" "?n div 4 mod 256 = unat b"
    using unat_byte_less [of a] unat_byte_less [of b] by simp_all
  note bytes = this [THEN byte_of_nat]
  have "b64_decode al False [al ! (?n div 4096), al ! (?n div 64 mod 64), al ! (?n mod 64)] = Inr [a, b]"
    by (simp only: b64_decode.simps i base64_digits bytes if_False prod.case option.case)
  with ne show ?case
    by (cases pad) (simp_all add: Let_def)
next
  case (4 al pad a b c bs)
  define n where "n = (unat a * 256 + unat b) * 256 + unat c"
  have "n div 262144 < 64" "n div 4096 mod 64 < 64" "n div 64 mod 64 < 64" "n mod 64 < 64"
    using three_bytes_sextet [of a b c] by (simp_all add: n_def)
  note i = this [THEN alphabet_nth(1) [OF 4(2)]] and ne = this(4) [THEN alphabet_nth(3) [OF 4(2)]]
  have "n div 65536 mod 256 = unat a" "n div 256 mod 256 = unat b" "n mod 256 = unat c"
  proof -
    define q where "q = unat a * 256 + unat b"
    have n: "n = q * 256 + unat c" by (simp add: n_def q_def)
    then have nq: "n div 256 = q" by simp
    have "q div 256 = unat a" "q mod 256 = unat b" by (simp_all add: q_def)
    moreover have "n div 65536 = n div 256 div 256" by (simp add: div_mult2_eq [symmetric])
    ultimately show "n div 65536 mod 256 = unat a" "n div 256 mod 256 = unat b" "n mod 256 = unat c"
      by (simp_all only: nq mod_less unat_byte_less) (simp add: n)
  qed
  note bytes = this [THEN byte_of_nat]
  have "b64_decode al pad (al ! (n div 262144) # al ! (n div 4096 mod 64) # al ! (n div 64 mod 64) # al ! (n mod 64) #
      b64_encode al pad bs) = Inr (a # b # c # bs)"
    using 4 ne
    by (simp only: b64_decode.simps i base64_digits bytes Let_def prod.case option.case sum.case if_False conj_assoc simp_thms)
  then show ?case
    by (simp add: Let_def n_def)
qed simp

lemma b64_encode_set:
  "alphabet al \<Longrightarrow> set (b64_encode al pad bs) \<subseteq> set al \<union> {CHR ''=''}"
proof (induction al pad bs rule: b64_encode.induct)
  case (2 al pad a)
  have "unat a * 16 div 64 < 64" using unat_byte_less [of a] by linarith
  with 2 show ?case by (auto simp: Let_def alphabet_nth(2))
next
  case (3 al pad a b)
  with two_bytes_sextet [of a b] show ?case by (auto simp: Let_def alphabet_nth(2))
next
  case (4 al pad a b c bs)
  with three_bytes_sextet [of a b c] show ?case by (auto simp: Let_def alphabet_nth(2))
qed simp

lemma base64_no_break:
  "CHR 0x0A \<notin> set (base64_EncodeToString bs)" "CHR 0x0D \<notin> set (base64_EncodeToString bs)"
  "CHR '' '' \<notin> set (base64_EncodeToString bs)"
  using b64_encode_set [OF alphabet_std, of True bs] alphabet_std
  by (auto simp: base64_EncodeToString_def alphabet_def)

lemma base64url_no_break:
  "CHR 0x0A \<notin> set (base64url_EncodeToString bs)" "CHR 0x0D \<notin> set (base64url_EncodeToString bs)"
  using b64_encode_set [OF alphabet_url, of False bs] alphabet_url
  by (auto simp: base64url_EncodeToString_def alphabet_def)

lemma skip_newlines_id: "CHR 0x0A \<notin> set s \<Longrightarrow> CHR 0x0D \<notin> set s \<Longrightarrow> skip_newlines s = s"
  by (auto simp: skip_newlines_def filter_id_conv)

lemma base64_roundtrip [simp]: "base64_DecodeString (base64_EncodeToString bs) = Inr bs"
  using skip_newlines_id [OF base64_no_break(1,2)] b64_roundtrip [OF alphabet_std]
  by (simp add: base64_DecodeString_def base64_EncodeToString_def)

lemma base64url_roundtrip [simp]: "base64url_DecodeString (base64url_EncodeToString bs) = Inr bs"
  using skip_newlines_id [OF base64url_no_break] b64_roundtrip [OF alphabet_url]
  by (simp add: base64url_DecodeString_def base64url_EncodeToString_def)

section \<open>Splitting and trimming\<close>

abbreviation NL :: char where "NL \<equiv> CHR 0x0A"

definition HasPrefix :: "string \<Rightarrow> string \<Rightarrow> bool" where
  "HasPrefix s p \<longleftrightarrow> take (length p) s = p"

definition HasSuffix :: "string \<Rightarrow> string \<Rightarrow> bool" where
  "HasSuffix s p \<longleftrightarrow> HasPrefix (rev s) (rev p)"

definition TrimPrefix :: "string \<Rightarrow> string \<Rightarrow> string" where
  "TrimPrefix s p = (if HasPrefix s p then drop (length p) s else s)"

definition TrimSuffix :: "string \<Rightarrow> string \<Rightarrow> string" where
  "TrimSuffix s p = (if HasSuffix s p then take (length s - length p) s else s)"

text \<open>\<open>strings.Split(s, sep)\<close> with a one-byte separator.\<close>

fun Split :: "char \<Rightarrow> string \<Rightarrow> string list" where
  "Split sep [] = [[]]"
| "Split sep (c # cs) =
     (if c = sep then [] # Split sep cs
      else case Split sep cs of [] \<Rightarrow> [[c]] | x # xs \<Rightarrow> (c # x) # xs)"

text \<open>The first occurrence of a separator: what \<open>strings.SplitN(s, sep, 2)\<close> cuts at.\<close>

fun cut :: "string \<Rightarrow> string \<Rightarrow> (string \<times> string) option" where
  "cut sep [] = (if sep = [] then Some ([], []) else None)"
| "cut sep (c # cs) =
     (if HasPrefix (c # cs) sep then Some ([], drop (length sep) (c # cs))
      else map_option (\<lambda>(a, b). (c # a, b)) (cut sep cs))"

definition is_space :: "char \<Rightarrow> bool" where
  "is_space c \<longleftrightarrow> c \<in> set [CHR '' '', CHR 0x09, CHR 0x0A, CHR 0x0B, CHR 0x0C, CHR 0x0D]"

definition trim_right :: "(char \<Rightarrow> bool) \<Rightarrow> string \<Rightarrow> string" where
  "trim_right p s = rev (dropWhile p (rev s))"

definition TrimSpace :: "string \<Rightarrow> string" where
  "TrimSpace s = trim_right is_space (dropWhile is_space s)"

text \<open>\<open>strings.Fields\<close>: the maximal runs of characters that are not white space.\<close>

fun fields_aux :: "string \<Rightarrow> string \<Rightarrow> string list" where
  "fields_aux w [] = (if w = [] then [] else [w])"
| "fields_aux w (c # cs) =
     (if is_space c then (if w = [] then fields_aux [] cs else w # fields_aux [] cs)
      else fields_aux (w @ [c]) cs)"

definition Fields :: "string \<Rightarrow> string list" where
  "Fields s = fields_aux [] s"

definition to_lower :: "char \<Rightarrow> char" where
  "to_lower c = (let n = (of_char c :: nat) in if 65 \<le> n \<and> n \<le> 90 then char_of (n + 32) else c)"

definition to_upper :: "char \<Rightarrow> char" where
  "to_upper c = (let n = (of_char c :: nat) in if 97 \<le> n \<and> n \<le> 122 then char_of (n - 32) else c)"

definition ToLower :: "string \<Rightarrow> string" where
  "ToLower s = map to_lower s"

definition ToUpper :: "string \<Rightarrow> string" where
  "ToUpper s = map to_upper s"

text \<open>\<open>strings.Join\<close>.\<close>

fun Join :: "string \<Rightarrow> string list \<Rightarrow> string" where
  "Join sep [] = []"
| "Join sep [s] = s"
| "Join sep (s # t # ts) = s @ sep @ Join sep (t # ts)"

fun Contains :: "string \<Rightarrow> string \<Rightarrow> bool" where
  "Contains [] sub = (sub = [])"
| "Contains (c # cs) sub = (HasPrefix (c # cs) sub \<or> Contains cs sub)"

lemma HasPrefix_append [simp]: "HasPrefix (p @ s) p"
  by (simp add: HasPrefix_def)

lemma Split_no_sep: "sep \<notin> set s \<Longrightarrow> Split sep s = [s]"
  by (induction s) auto

lemma Split_append: "sep \<notin> set s \<Longrightarrow> Split sep (s @ sep # t) = s # Split sep t"
  by (induction s) auto

lemma cut_first:
  assumes "c \<notin> set s"
  shows "cut [c, c] (s @ [c, c] @ t) = Some (s, t)"
  using assms by (induction s) (auto simp: HasPrefix_def)

lemma cut_skip:
  assumes "c \<notin> set s" "x \<noteq> c"
  shows "cut [c, c] (s @ c # x # t) = map_option (\<lambda>(a, b). (s @ c # a, b)) (cut [c, c] (x # t))"
  using assms by (induction s) (auto simp: HasPrefix_def option.map_comp comp_def split_beta)

lemma trim_right_id: "s = [] \<or> \<not> p (last s) \<Longrightarrow> trim_right p s = s"
  by (cases s rule: rev_cases) (auto simp: trim_right_def)

lemma dropWhile_id: "s = [] \<or> \<not> p (hd s) \<Longrightarrow> dropWhile p s = s"
  by (cases s) auto

lemma TrimSpace_id: "s = [] \<or> \<not> is_space (hd s) \<and> \<not> is_space (last s) \<Longrightarrow> TrimSpace s = s"
  by (auto simp: TrimSpace_def dropWhile_id trim_right_id)

lemma fields_aux_word: "\<forall>c\<in>set s. \<not> is_space c \<Longrightarrow> fields_aux w (s @ t) = fields_aux (w @ s) t"
  by (induction s arbitrary: w) auto

lemma Fields_two:
  assumes "a \<noteq> []" "b \<noteq> []" "\<forall>c\<in>set a. \<not> is_space c" "\<forall>c\<in>set b. \<not> is_space c"
  shows "Fields (a @ CHR '' '' # b) = [a, b]"
proof -
  have "is_space CHR '' ''" by (simp add: is_space_def)
  with assms show ?thesis
    using fields_aux_word [OF assms(4), of "[]" "[]"]
    by (simp add: Fields_def fields_aux_word)
qed

lemma digit_not_space: "is_digit c \<Longrightarrow> \<not> is_space c"
  by (auto simp: is_digit_def digit_val_def is_space_def Let_def)

lemma base64_not_space: "c \<in> set (base64_EncodeToString bs) \<Longrightarrow> \<not> is_space c"
proof -
  assume c: "c \<in> set (base64_EncodeToString bs)"
  have "\<forall>c\<in>set b64_std \<union> {CHR ''=''}. \<not> is_space c"
    by (simp add: b64_std_def is_space_def)
  with c b64_encode_set [OF alphabet_std, of True bs] show ?thesis
    by (auto simp: base64_EncodeToString_def)
qed

lemma base64_Nil [simp]: "base64_EncodeToString bs = [] \<longleftrightarrow> bs = []"
proof
  assume "base64_EncodeToString bs = []"
  then have "Inr [] = (Inr bs :: goerr + bytes)"
    using base64_roundtrip [of bs] by (simp add: base64_DecodeString_def skip_newlines_def)
  then show "bs = []" by simp
qed (simp add: base64_EncodeToString_def)

end
