(* ===== verification/Cosigner.thy ===== *)
theory Cosigner
  imports MerkleNodes Mtcformat GoStrings
begin

text \<open>
  \<open>src/internal/cosigner/cosigner.go\<close>: keys, checkpoint notes and subtree signatures.

  The signature algorithms are code outside this repository. They are the functions of the
  record \<open>crypto\<close>, an argument of every operation that signs or verifies; what the program
  relies on is the predicate \<open>key_pair\<close>: a signature made with a key verifies under the
  public key that belongs to it. Reading a key file and decoding PEM are arguments too.
\<close>

section \<open>Algorithms\<close>

datatype SignatureAlgorithm = AlgEd25519 | AlgMLDSA44 | AlgMLDSA65 | AlgMLDSA87

fun alg_String :: "SignatureAlgorithm \<Rightarrow> string" where
  "alg_String AlgEd25519 = ''ed25519''"
| "alg_String AlgMLDSA44 = ''mldsa44''"
| "alg_String AlgMLDSA65 = ''mldsa65''"
| "alg_String AlgMLDSA87 = ''mldsa87''"

definition ParseAlgorithm :: "string \<Rightarrow> goerr + SignatureAlgorithm" where
  "ParseAlgorithm s =
     (let l = ToLower s in
      if l = ''ed25519'' \<or> l = '''' then Inr AlgEd25519
      else if l = ''mldsa44'' \<or> l = ''ml-dsa-44'' then Inr AlgMLDSA44
      else if l = ''mldsa65'' \<or> l = ''ml-dsa-65'' then Inr AlgMLDSA65
      else if l = ''mldsa87'' \<or> l = ''ml-dsa-87'' then Inr AlgMLDSA87
      else Inl (Errorf ''cosigner: unknown algorithm %q''))"

section \<open>The signature algorithms\<close>

record crypto =
  ed25519_NewKeyFromSeed :: "bytes \<Rightarrow> bytes"
  ed25519_Public :: "bytes \<Rightarrow> bytes"
  ed25519_Sign :: "bytes \<Rightarrow> bytes \<Rightarrow> bytes"
  ed25519_Verify :: "bytes \<Rightarrow> bytes \<Rightarrow> bytes \<Rightarrow> bool"
  mldsa_Unmarshal :: "SignatureAlgorithm \<Rightarrow> bytes \<Rightarrow> goerr + bytes"
  mldsa_Public :: "SignatureAlgorithm \<Rightarrow> bytes \<Rightarrow> bytes"
  mldsa_Sign :: "SignatureAlgorithm \<Rightarrow> bytes \<Rightarrow> bytes \<Rightarrow> goerr + bytes"
  mldsa_Verify :: "SignatureAlgorithm \<Rightarrow> bytes \<Rightarrow> bytes \<Rightarrow> bytes \<Rightarrow> bool"

record Cosigner =
  cs_algorithm :: SignatureAlgorithm
  cs_privateKey :: bytes
  cs_publicKey :: bytes
  cs_mldsaKey :: bytes
  cs_mldsaPub :: bytes
  cs_keyID :: string
  cs_keyHash :: "32 word"
  cs_origin :: string
  cs_cosignerID :: bytes

definition PublicKeyBytes :: "Cosigner \<Rightarrow> bytes" where
  "PublicKeyBytes c = (if cs_algorithm c = AlgEd25519 then cs_publicKey c else cs_mldsaPub c)"

definition PublicKeyHex :: "Cosigner \<Rightarrow> string" where
  "PublicKeyHex c = hex_EncodeToString (PublicKeyBytes c)"

definition SetCosignerID :: "bytes \<Rightarrow> Cosigner \<Rightarrow> Cosigner" where
  "SetCosignerID i c = c\<lparr>cs_cosignerID := i\<rparr>"

definition computeKeyHash :: "Cosigner \<Rightarrow> 32 word" where
  "computeKeyHash c = of_nat (be_nat (take 4 (sha256 (str_bytes (cs_keyID c @ [NL]) @ PublicKeyBytes c))))"

section \<open>Construction\<close>

text \<open>The size check of \<open>extractEd25519Seed\<close> is on the expanded key, always 64 bytes.\<close>

definition extractEd25519Seed :: "crypto \<Rightarrow> bytes \<Rightarrow> goerr + bytes" where
  "extractEd25519Seed cr der =
     (if length der < 34 then Inl (Errorf ''DER too short: %d bytes'')
      else if length der = 48 \<and> der ! 14 = 0x04 \<and> der ! 15 = 0x20 then Inr (take 32 (drop 16 der))
      else let seed = drop (length der - 32) der; key = ed25519_NewKeyFromSeed cr seed in
        if length key \<noteq> 64 then Inl (Errorf ''failed to extract Ed25519 seed from PKCS8'')
        else Inr seed)"

definition ed25519_cosigner :: "crypto \<Rightarrow> bytes \<Rightarrow> string \<Rightarrow> string \<Rightarrow> Cosigner" where
  "ed25519_cosigner cr privKey keyID origin =
     (let c = \<lparr>cs_algorithm = AlgEd25519, cs_privateKey = privKey, cs_publicKey = ed25519_Public cr privKey,
               cs_mldsaKey = [], cs_mldsaPub = [], cs_keyID = keyID, cs_keyHash = 0, cs_origin = origin,
               cs_cosignerID = []\<rparr>
      in c\<lparr>cs_keyHash := computeKeyHash c\<rparr>)"

definition New :: "crypto \<Rightarrow> goerr + bytes \<Rightarrow> (bytes \<Rightarrow> (string \<times> bytes) option) \<Rightarrow> string \<Rightarrow> string \<Rightarrow> goerr + Cosigner" where
  "New cr readFile pem_Decode keyID origin =
     (case readFile of
        Inl err \<Rightarrow> Inl (Wrap ''cosigner.New: read key: %w'' err)
      | Inr data \<Rightarrow>
        (case pem_Decode data of
           None \<Rightarrow> Inl (Errorf ''cosigner.New: no PEM block found in %s'')
         | Some (typ, block) \<Rightarrow>
             if typ = ''PRIVATE KEY'' then
               (case extractEd25519Seed cr block of
                  Inl err \<Rightarrow> Inl (Wrap ''cosigner.New: extract seed: %w'' err)
                | Inr seed \<Rightarrow> Inr (ed25519_cosigner cr (ed25519_NewKeyFromSeed cr seed) keyID origin))
             else if typ = ''ED25519 PRIVATE KEY'' then
               (if length block = 32 then Inr (ed25519_cosigner cr (ed25519_NewKeyFromSeed cr block) keyID origin)
                else if length block = 64 then Inr (ed25519_cosigner cr block keyID origin)
                else Inl (Errorf ''cosigner.New: unexpected key size %d''))
             else Inl (Errorf ''cosigner.New: unsupported PEM type %q'')))"

definition NewFromSeed :: "crypto \<Rightarrow> bytes \<Rightarrow> string \<Rightarrow> string \<Rightarrow> goerr + Cosigner" where
  "NewFromSeed cr seed keyID origin =
     (if length seed \<noteq> 32 then Inl (Errorf ''cosigner.NewFromSeed: seed must be %d bytes, got %d'')
      else Inr (ed25519_cosigner cr (ed25519_NewKeyFromSeed cr seed) keyID origin))"

definition NewMLDSA ::
  "crypto \<Rightarrow> goerr + bytes \<Rightarrow> (bytes \<Rightarrow> (string \<times> bytes) option) \<Rightarrow> SignatureAlgorithm \<Rightarrow> string \<Rightarrow> string \<Rightarrow> bytes \<Rightarrow>
     goerr + Cosigner" where
  "NewMLDSA cr readFile pem_Decode algorithm keyID origin cosignerID =
     (if algorithm \<noteq> AlgMLDSA44 \<and> algorithm \<noteq> AlgMLDSA65 \<and> algorithm \<noteq> AlgMLDSA87 then
        Inl (Errorf ''cosigner.NewMLDSA: expected ML-DSA algorithm, got %s'')
      else case readFile of
        Inl err \<Rightarrow> Inl (Wrap ''cosigner.NewMLDSA: read key: %w'' err)
      | Inr data \<Rightarrow>
        (case pem_Decode data of
           None \<Rightarrow> Inl (Errorf ''cosigner.NewMLDSA: no PEM block found in %s'')
         | Some (_, block) \<Rightarrow>
           (case mldsa_Unmarshal cr algorithm block of
              Inl err \<Rightarrow> Inl (Wrap (''cosigner.NewMLDSA: unpack '' @ alg_String algorithm @ '' key: %w'') err)
            | Inr sk \<Rightarrow>
                (let c = \<lparr>cs_algorithm = algorithm, cs_privateKey = [], cs_publicKey = [], cs_mldsaKey = sk,
                          cs_mldsaPub = mldsa_Public cr algorithm sk, cs_keyID = keyID, cs_keyHash = 0,
                          cs_origin = origin, cs_cosignerID = cosignerID\<rparr>
                 in Inr (c\<lparr>cs_keyHash := computeKeyHash c\<rparr>)))))"

subsection \<open>Key files\<close>

text \<open>
  Writing a key file: the error of \<open>os.OpenFile\<close>, which creates or empties the file, and what
  \<open>pem.Encode\<close> has written when it returns, with its error. The result of the key generation,
  the public key and the encoded private key, is an argument.
\<close>

record pem_writer =
  pw_OpenFile :: "string \<Rightarrow> goerr option"
  pw_Encode :: "string \<times> bytes \<Rightarrow> bytes \<times> goerr option"

definition save_key :: "string \<Rightarrow> pem_writer \<Rightarrow> string \<Rightarrow> string \<times> bytes \<Rightarrow> bytes \<Rightarrow> files \<Rightarrow> (goerr + bytes) \<times> files" where
  "save_key fn pw keyFile block pub fs =
     (case pw_OpenFile pw keyFile of
        Some err \<Rightarrow> (Inl (Wrap (fn @ '': create file: %w'') err), fs)
      | None \<Rightarrow>
        (case pw_Encode pw block of
           (written, Some err) \<Rightarrow> (Inl (Wrap (fn @ '': encode PEM: %w'') err), fs(keyFile \<mapsto> written))
         | (written, None) \<Rightarrow> (Inr pub, fs(keyFile \<mapsto> written))))"

definition GenerateKey :: "goerr + bytes \<times> bytes \<Rightarrow> pem_writer \<Rightarrow> string \<Rightarrow> files \<Rightarrow> (goerr + bytes) \<times> files" where
  "GenerateKey generated pw keyFile fs =
     (case generated of
        Inl err \<Rightarrow> (Inl (Wrap ''cosigner.GenerateKey: %w'' err), fs)
      | Inr (pub, seed) \<Rightarrow> save_key ''cosigner.GenerateKey'' pw keyFile (''ED25519 PRIVATE KEY'', seed) pub fs)"

fun mldsa_pemType :: "SignatureAlgorithm \<Rightarrow> string option" where
  "mldsa_pemType AlgMLDSA44 = Some ''ML-DSA-44 PRIVATE KEY''"
| "mldsa_pemType AlgMLDSA65 = Some ''ML-DSA-65 PRIVATE KEY''"
| "mldsa_pemType AlgMLDSA87 = Some ''ML-DSA-87 PRIVATE KEY''"
| "mldsa_pemType AlgEd25519 = None"

definition GenerateMLDSAKey ::
  "(SignatureAlgorithm \<Rightarrow> goerr + bytes \<times> bytes) \<Rightarrow> pem_writer \<Rightarrow> string \<Rightarrow> SignatureAlgorithm \<Rightarrow> files \<Rightarrow> (goerr + bytes) \<times> files" where
  "GenerateMLDSAKey generated pw keyFile algorithm fs =
     (case mldsa_pemType algorithm of
        None \<Rightarrow> (Inl (Errorf ''cosigner.GenerateMLDSAKey: not an ML-DSA algorithm: %s''), fs)
      | Some pemType \<Rightarrow>
        (case generated algorithm of
           Inl err \<Rightarrow> (Inl (Wrap ''cosigner.GenerateMLDSAKey: %w'' err), fs)
         | Inr (pubBytes, privBytes) \<Rightarrow>
             save_key ''cosigner.GenerateMLDSAKey'' pw keyFile (pemType, privBytes) pubBytes fs))"

text \<open>A key that was generated without an error is the key that \<open>New\<close> reads from the file.\<close>

lemma GenerateKey_New:
  assumes "GenerateKey (Inr (pub, seed)) pw keyFile fs = (Inr pub', fs')"
    and "\<forall>w. pw_Encode pw (''ED25519 PRIVATE KEY'', seed) = (w, None) \<longrightarrow> dec w = Some (''ED25519 PRIVATE KEY'', seed)"
    and "length seed = 32" "ed25519_Public cr (ed25519_NewKeyFromSeed cr seed) = pub"
  obtains data c where "fs' keyFile = Some data" "New cr (Inr data) dec keyID origin = Inr c" "cs_publicKey c = pub'"
proof -
  obtain w where "pw_Encode pw (''ED25519 PRIVATE KEY'', seed) = (w, None)" "fs' = fs(keyFile \<mapsto> w)" "pub' = pub"
    using assms(1) by (auto simp: GenerateKey_def save_key_def split: option.splits prod.splits)
  then show ?thesis
    using assms(2-4) by (intro that [of w]) (auto simp: New_def ed25519_cosigner_def Let_def)
qed

lemma GenerateMLDSAKey_New:
  assumes "GenerateMLDSAKey (\<lambda>_. Inr (pub, priv)) pw keyFile algorithm fs = (Inr pub', fs')"
    and "\<forall>t w. pw_Encode pw (t, priv) = (w, None) \<longrightarrow> dec w = Some (t, priv)"
    and "mldsa_Unmarshal cr algorithm priv = Inr sk" "mldsa_Public cr algorithm sk = pub"
  obtains data c where "fs' keyFile = Some data" "NewMLDSA cr (Inr data) dec algorithm keyID origin cid = Inr c" "cs_mldsaPub c = pub'"
proof -
  obtain t w where "pw_Encode pw (t, priv) = (w, None)" "fs' = fs(keyFile \<mapsto> w)" "pub' = pub" "algorithm \<noteq> AlgEd25519"
    using assms(1) by (cases algorithm) (auto simp: GenerateMLDSAKey_def save_key_def split: option.splits prod.splits)
  note w = this
  then have "dec w = Some (t, priv)" using assms(2) by blast
  then have "\<exists>c. NewMLDSA cr (Inr w) dec algorithm keyID origin cid = Inr c \<and> cs_mldsaPub c = pub'"
    using assms(3,4) w(3,4) by (cases algorithm) (simp_all add: NewMLDSA_def Let_def)
  then show ?thesis using that [of w] w(2) by auto
qed

section \<open>Signing and verifying\<close>

definition Sign :: "crypto \<Rightarrow> Cosigner \<Rightarrow> bytes \<Rightarrow> goerr + bytes" where
  "Sign cr c msg =
     (if cs_algorithm c = AlgEd25519 then Inr (ed25519_Sign cr (cs_privateKey c) msg)
      else mldsa_Sign cr (cs_algorithm c) (cs_mldsaKey c) msg)"

definition Verify :: "crypto \<Rightarrow> Cosigner \<Rightarrow> bytes \<Rightarrow> bytes \<Rightarrow> bool" where
  "Verify cr c msg sig =
     (if cs_algorithm c = AlgEd25519 then ed25519_Verify cr (cs_publicKey c) msg sig
      else mldsa_Verify cr (cs_algorithm c) (cs_mldsaPub c) msg sig)"

text \<open>The em dash of a signature line, in UTF-8, with the blank that follows it.\<close>

definition sig_prefix :: string where
  "sig_prefix = [CHR 0xE2, CHR 0x80, CHR 0x94, CHR '' '']"

definition checkpoint_body :: "string \<Rightarrow> int \<Rightarrow> hash \<Rightarrow> string" where
  "checkpoint_body origin treeSize rootHash =
     origin @ [NL] @ dec_int treeSize @ [NL] @ base64_EncodeToString (hash_bytes rootHash) @ [NL]"

definition SignCheckpoint :: "crypto \<Rightarrow> Cosigner \<Rightarrow> int \<Rightarrow> hash \<Rightarrow> goerr + string \<times> bytes" where
  "SignCheckpoint cr c treeSize rootHash =
     (let body = checkpoint_body (cs_origin c) treeSize rootHash in
      case Sign cr c (str_bytes body) of
        Inl err \<Rightarrow> Inl (Wrap ''cosigner.SignCheckpoint: %w'' err)
      | Inr sig \<Rightarrow>
          (let sigData = be_bytes 4 (unat (cs_keyHash c)) @ sig;
               sigB64 = base64_EncodeToString sigData
           in Inr (body @ [NL] @ sig_prefix @ cs_keyID c @ '' '' @ sigB64 @ [NL], sig)))"

text \<open>The loop over the signature lines.\<close>

fun verify_lines :: "crypto \<Rightarrow> Cosigner \<Rightarrow> string \<Rightarrow> string list \<Rightarrow> bool" where
  "verify_lines cr c body [] = False"
| "verify_lines cr c body (line # lines) =
     (let line = TrimSpace line in
      if line = '''' then verify_lines cr c body lines
      else if \<not> HasPrefix line sig_prefix then verify_lines cr c body lines
      else let sigParts = Fields (drop (length sig_prefix) line) in
      if length sigParts < 2 then verify_lines cr c body lines
      else case base64_DecodeString (sigParts ! 1) of
        Inl _ \<Rightarrow> verify_lines cr c body lines
      | Inr sigData \<Rightarrow>
          if length sigData < 5 then verify_lines cr c body lines
          else if Verify cr c (str_bytes body) (drop 4 sigData) then True
          else verify_lines cr c body lines)"

definition VerifyCheckpoint :: "crypto \<Rightarrow> Cosigner \<Rightarrow> string \<Rightarrow> goerr + int \<times> hash" where
  "VerifyCheckpoint cr c note =
     (case cut [NL, NL] note of
        None \<Rightarrow> Inl (Errorf ''cosigner.VerifyCheckpoint: invalid note format'')
      | Some (part0, sigSection) \<Rightarrow>
          let body = part0 @ [NL];
              lines = Split NL (trim_right (\<lambda>ch. ch = NL) part0) in
          if length lines < 3 then Inl (Errorf ''cosigner.VerifyCheckpoint: body needs 3 lines, got %d'')
          else case Sscanf_d (lines ! 1) of
            Inl err \<Rightarrow> Inl (Wrap ''cosigner.VerifyCheckpoint: parse tree size: %w'' err)
          | Inr treeSize \<Rightarrow>
            (case base64_DecodeString (lines ! 2) of
               Inl err \<Rightarrow> Inl (Wrap ''cosigner.VerifyCheckpoint: decode root hash: %w'' err)
             | Inr rootBytes \<Rightarrow>
                 if verify_lines cr c body (Split NL sigSection) then Inr (treeSize, bytes_hash rootBytes)
                 else Inl (Errorf ''cosigner.VerifyCheckpoint: no valid signature found'')))"

text \<open>The conversion \<open>uint64(x)\<close> of an \<open>int64\<close> is \<open>word_of_int\<close>.\<close>

definition subtree_message :: "int \<Rightarrow> int \<Rightarrow> hash \<Rightarrow> bytes" where
  "subtree_message start e h =
     be_bytes 8 (unat (word_of_int start :: 64 word)) @ be_bytes 8 (unat (word_of_int e :: 64 word)) @ hash_bytes h"

definition SignSubtree :: "crypto \<Rightarrow> Cosigner \<Rightarrow> int \<Rightarrow> int \<Rightarrow> hash \<Rightarrow> goerr + bytes" where
  "SignSubtree cr c start e h = Sign cr c (subtree_message start e h)"

definition VerifySubtree :: "crypto \<Rightarrow> Cosigner \<Rightarrow> int \<Rightarrow> int \<Rightarrow> hash \<Rightarrow> bytes \<Rightarrow> bool" where
  "VerifySubtree cr c start e h sig = Verify cr c (subtree_message start e h) sig"

definition SignSubtreeMTC :: "crypto \<Rightarrow> Cosigner \<Rightarrow> bytes \<Rightarrow> int \<Rightarrow> int \<Rightarrow> hash \<Rightarrow> goerr + MTCSignature" where
  "SignSubtreeMTC cr c logID start e h =
     (case BuildSubtreeSignatureInput (cs_cosignerID c) logID (word_of_int start) (word_of_int e) (hash_bytes h) of
        Inl err \<Rightarrow> Inl (Wrap ''cosigner.SignSubtreeMTC: build input: %w'' err)
      | Inr input \<Rightarrow>
        (case Sign cr c input of
           Inl err \<Rightarrow> Inl (Wrap ''cosigner.SignSubtreeMTC: sign: %w'' err)
         | Inr sig \<Rightarrow> Inr \<lparr>ms_CosignerID = cs_cosignerID c, ms_Signature = sig\<rparr>))"

definition VerifySubtreeMTC :: "crypto \<Rightarrow> Cosigner \<Rightarrow> bytes \<Rightarrow> int \<Rightarrow> int \<Rightarrow> hash \<Rightarrow> MTCSignature \<Rightarrow> bool" where
  "VerifySubtreeMTC cr c logID start e h sig =
     (case BuildSubtreeSignatureInput (ms_CosignerID sig) logID (word_of_int start) (word_of_int e) (hash_bytes h) of
        Inl err \<Rightarrow> False
      | Inr input \<Rightarrow> Verify cr c input (ms_Signature sig))"

section \<open>What is assumed of the signature algorithms\<close>

definition key_pair :: "crypto \<Rightarrow> Cosigner \<Rightarrow> bool" where
  "key_pair cr c \<longleftrightarrow>
     (if cs_algorithm c = AlgEd25519
      then \<forall>m. ed25519_Verify cr (cs_publicKey c) m (ed25519_Sign cr (cs_privateKey c) m)
      else \<forall>m sig. mldsa_Sign cr (cs_algorithm c) (cs_mldsaKey c) m = Inr sig \<longrightarrow>
             mldsa_Verify cr (cs_algorithm c) (cs_mldsaPub c) m sig)"

lemma Sign_Verify: "key_pair cr c \<Longrightarrow> Sign cr c m = Inr sig \<Longrightarrow> Verify cr c m sig"
  by (auto simp: key_pair_def Sign_def Verify_def split: if_splits)

text \<open>Names that can appear on a signature line.\<close>

definition line_name :: "string \<Rightarrow> bool" where
  "line_name s \<longleftrightarrow> s \<noteq> [] \<and> (\<forall>ch\<in>set s. \<not> is_space ch)"

section \<open>Lemmas on notes\<close>

lemma NL_is_space [simp]: "is_space NL"
  by (simp add: is_space_def)

lemma dec_int_no_NL: "NL \<notin> set (dec_int i)" "dec_int i \<noteq> []" "hd (dec_int i) \<noteq> NL"
proof -
  have "NL \<notin> set (dec_nat n)" for n
    using dec_nat_digits [of n] digit_not_sign(5) by (auto simp: list_all_iff)
  then show a: "NL \<notin> set (dec_int i)" by (simp add: dec_int_def)
  show b: "dec_int i \<noteq> []" by (simp add: dec_int_def)
  show "hd (dec_int i) \<noteq> NL" using hd_in_set [OF b] a by metis
qed

lemma root_line:
  "base64_EncodeToString (hash_bytes h) \<noteq> []" "NL \<notin> set (base64_EncodeToString (hash_bytes h))"
  "hd (base64_EncodeToString (hash_bytes h)) \<noteq> NL" "last (base64_EncodeToString (hash_bytes h)) \<noteq> NL"
proof -
  have "hash_bytes h \<noteq> []" using length_hash_bytes [of h] by (metis list.size(3) zero_neq_numeral)
  then show ne: "base64_EncodeToString (hash_bytes h) \<noteq> []" by simp
  show no: "NL \<notin> set (base64_EncodeToString (hash_bytes h))" by (rule base64_no_break)
  show "hd (base64_EncodeToString (hash_bytes h)) \<noteq> NL" using hd_in_set [OF ne] no by metis
  show "last (base64_EncodeToString (hash_bytes h)) \<noteq> NL" using last_in_set [OF ne] no by metis
qed

lemma cut_skip':
  assumes "c \<notin> set s" "u \<noteq> []" "hd u \<noteq> c"
  shows "cut [c, c] (s @ c # u) = map_option (\<lambda>(a, b). (s @ c # a, b)) (cut [c, c] u)"
  using cut_skip [of c s "hd u" "tl u"] assms by simp

lemma cut_note:
  assumes "NL \<notin> set o'"
  shows "cut [NL, NL] (checkpoint_body o' n h @ NL # t) =
    Some (o' @ NL # dec_int n @ NL # base64_EncodeToString (hash_bytes h), t)"
proof -
  let ?d = "dec_int n" and ?r = "base64_EncodeToString (hash_bytes h)"
  have "cut [NL, NL] (?r @ NL # NL # t) = Some (?r, t)"
    using cut_first [OF root_line(2), of h t] by simp
  then have "cut [NL, NL] (?d @ NL # ?r @ NL # NL # t) = Some (?d @ NL # ?r, t)"
    using cut_skip' [OF dec_int_no_NL(1), of "?r @ NL # NL # t" n] root_line [of h] by simp
  then show ?thesis
    using cut_skip' [OF assms, of "?d @ NL # ?r @ NL # NL # t"] dec_int_no_NL [of n]
    by (simp add: checkpoint_body_def)
qed

lemma verify_line:
  assumes "line_name k" "length sd \<ge> 5" "Verify cr c (str_bytes body) (drop 4 sd)"
  shows "verify_lines cr c body (Split NL (sig_prefix @ k @ '' '' @ base64_EncodeToString sd @ [NL]))"
proof -
  let ?b = "base64_EncodeToString sd" and ?l = "sig_prefix @ k @ '' '' @ base64_EncodeToString sd"
  have b: "?b \<noteq> []" "\<forall>ch\<in>set ?b. \<not> is_space ch"
    using assms(2) base64_not_space by auto
  have k: "k \<noteq> []" "\<forall>ch\<in>set k. \<not> is_space ch"
    using assms(1) by (simp_all add: line_name_def)
  have "NL \<notin> set ?l"
    using k b NL_is_space by (auto simp: sig_prefix_def)
  then have split: "Split NL (?l @ [NL]) = [?l, []]"
    using Split_append [of NL ?l "[]"] by simp
  have "hd ?l = CHR 0xE2" "last ?l \<in> set ?b"
    using b(1) by (simp_all add: sig_prefix_def)
  then have trim: "TrimSpace ?l = ?l"
    using b(2) by (intro TrimSpace_id) (auto simp: is_space_def)
  have fields: "Fields (drop (length sig_prefix) ?l) = [k, ?b]"
    using Fields_two [OF k(1) b(1) k(2) b(2)] by simp
  have "?l \<noteq> []" "HasPrefix ?l sig_prefix"
    by (simp_all add: sig_prefix_def HasPrefix_def)
  with trim fields assms(2,3) have "verify_lines cr c body [?l, []]"
    by (simp add: Let_def)
  with split show ?thesis by simp
qed

lemma VerifyCheckpoint_note:
  assumes "NL \<notin> set (cs_origin c)" "- (2 ^ 63) \<le> n" "n < 2 ^ 63"
    and "verify_lines cr c (checkpoint_body (cs_origin c) n h) (Split NL t)"
  shows "VerifyCheckpoint cr c (checkpoint_body (cs_origin c) n h @ NL # t) = Inr (n, h)"
proof -
  let ?d = "dec_int n" and ?r = "base64_EncodeToString (hash_bytes h)"
  let ?p = "cs_origin c @ NL # ?d @ NL # ?r"
  have trim: "trim_right (\<lambda>ch. ch = NL) ?p = ?p"
    using root_line [of h] by (intro trim_right_id) simp
  have lines: "Split NL ?p = [cs_origin c, ?d, ?r]"
    using Split_append [OF assms(1)] Split_append [OF dec_int_no_NL(1)] Split_no_sep [OF root_line(2)] by simp
  have "?p @ [NL] = checkpoint_body (cs_origin c) n h"
    by (simp add: checkpoint_body_def)
  with assms(4) lines show ?thesis
    using Sscanf_d_dec_int [OF assms(2,3)]
    by (simp add: VerifyCheckpoint_def cut_note [OF assms(1)] trim Let_def)
qed

lemma Sign_VerifyCheckpoint:
  assumes "key_pair cr c" "NL \<notin> set (cs_origin c)" "line_name (cs_keyID c)"
    and "- (2 ^ 63) \<le> n" "n < 2 ^ 63"
    and "SignCheckpoint cr c n h = Inr (note, sig)" "sig \<noteq> []"
  shows "VerifyCheckpoint cr c note = Inr (n, h)"
proof -
  let ?b = "checkpoint_body (cs_origin c) n h" and ?sd = "be_bytes 4 (unat (cs_keyHash c)) @ sig"
  have sg: "Sign cr c (str_bytes ?b) = Inr sig"
    and note_eq: "note = ?b @ NL # sig_prefix @ cs_keyID c @ '' '' @ base64_EncodeToString ?sd @ [NL]"
    using assms(6) by (auto simp: SignCheckpoint_def Let_def split: sum.splits)
  have "5 \<le> length ?sd" using assms(7) by (cases sig) simp_all
  moreover have "Verify cr c (str_bytes ?b) (drop 4 ?sd)"
    using Sign_Verify [OF assms(1) sg] by simp
  ultimately show ?thesis
    unfolding note_eq using assms by (intro VerifyCheckpoint_note verify_line)
qed

lemma cut_append: "cut sep s = Some (a, b) \<Longrightarrow> s = a @ sep @ b"
proof (induction s arbitrary: a)
  case Nil
  then show ?case by (auto split: if_splits)
next
  case (Cons x xs)
  show ?case
  proof (cases "HasPrefix (x # xs) sep")
    case True
    with Cons.prems have "a = []" "b = drop (length sep) (x # xs)" by simp_all
    with True append_take_drop_id [of "length sep" "x # xs"] show ?thesis
      by (simp add: HasPrefix_def)
  next
    case False
    with Cons.prems obtain a' where "cut sep xs = Some (a', b)" "a = x # a'" by auto
    with Cons.IH show ?thesis by simp
  qed
qed

text \<open>The signatures that the lines of a note carry, without the hash of the key in front of each.\<close>

definition line_signature :: "string \<Rightarrow> bytes option" where
  "line_signature line =
     (let words = Fields (drop (length sig_prefix) (TrimSpace line)) in
      if HasPrefix (TrimSpace line) sig_prefix \<and> 2 \<le> length words then
        (case base64_DecodeString (words ! 1) of
           Inr data \<Rightarrow> if 4 < length data then Some (drop 4 data) else None
         | Inl _ \<Rightarrow> None)
      else None)"

lemma verify_lines_sound:
  "verify_lines cr c body ls \<Longrightarrow> \<exists>line\<in>set ls. \<exists>sig. line_signature line = Some sig \<and> Verify cr c (str_bytes body) sig"
proof (induction ls)
  case (Cons line ls)
  show ?case
  proof (cases "verify_lines cr c body ls")
    case False
    with Cons.prems have "\<exists>sig. line_signature line = Some sig \<and> Verify cr c (str_bytes body) sig"
      by (auto simp: line_signature_def Let_def split: if_splits sum.splits)
    then show ?thesis by simp
  qed (use Cons.IH in auto)
qed simp

text \<open>The first blank line of a note, and the lines of the text before it.\<close>

lemma cut_at_first: "cut [NL, NL] s = Some (a, b) \<Longrightarrow> a @ [NL] \<noteq> u @ [NL, NL] @ v"
proof (induction s arbitrary: a u)
  case (Cons x xs)
  show ?case
  proof (cases "HasPrefix (x # xs) [NL, NL]")
    case True
    with Cons.prems have "a = []" by simp
    then show ?thesis by (cases u) auto
  next
    case False
    with Cons.prems obtain a' where a': "cut [NL, NL] xs = Some (a', b)" "a = x # a'" by auto
    have "HasPrefix (x # xs) [NL, NL]" if "x # a' @ [NL] = NL # NL # v"
    proof -
      have "xs = a' @ [NL, NL] @ b" using a'(1) by (rule cut_append)
      then show ?thesis using that by (cases a') (auto simp: HasPrefix_def)
    qed
    with False Cons.IH [OF a'(1)] a'(2) show ?thesis by (cases u) auto
  qed
qed (simp add: HasPrefix_def split: if_splits)

lemma body_lines:
  assumes "text @ [NL] = checkpoint_body origin m r @ ext" "NL \<notin> set origin"
  shows "Split NL (trim_right (\<lambda>ch. ch = NL) text) ! 1 = dec_int m"
    and "Split NL (trim_right (\<lambda>ch. ch = NL) text) ! 2 = base64_EncodeToString (hash_bytes r)"
proof -
  let ?d = "dec_int m" and ?r = "base64_EncodeToString (hash_bytes r)"
  let ?p = "origin @ NL # ?d @ NL # ?r"
  obtain s where s: "text = ?p @ s" "s = [] \<or> hd s = NL"
  proof (cases "ext = []")
    case True
    with assms(1) that [of "[]"] show ?thesis by (simp add: checkpoint_body_def)
  next
    case False
    then obtain e z where "ext = e @ [z]" by (cases ext rule: rev_cases) auto
    with assms(1) that [of "NL # e"] show ?thesis by (simp add: checkpoint_body_def)
  qed
  have trim: "\<exists>t. trim_right (\<lambda>ch. ch = NL) (?p @ s) = ?p @ t \<and> (t = [] \<or> hd t = NL)" using s(2)
  proof (induction s rule: rev_induct)
    case Nil
    have "trim_right (\<lambda>ch. ch = NL) ?p = ?p" using root_line [of r] by (intro trim_right_id) simp
    then show ?case by simp
  next
    case (snoc z s)
    show ?case
    proof (cases "z = NL")
      case True
      then have "trim_right (\<lambda>ch. ch = NL) (?p @ s @ [z]) = trim_right (\<lambda>ch. ch = NL) (?p @ s)" by (simp add: trim_right_def)
      moreover have "s = [] \<or> hd s = NL" using snoc.prems by (cases s) auto
      ultimately show ?thesis using snoc.IH by simp
    next
      case False
      then have "trim_right (\<lambda>ch. ch = NL) (?p @ s @ [z]) = ?p @ s @ [z]" by (intro trim_right_id) auto
      with snoc.prems show ?thesis by blast
    qed
  qed
  then obtain t where t: "trim_right (\<lambda>ch. ch = NL) text = ?p @ t" "t = [] \<or> hd t = NL" using s(1) by blast
  have "Split NL (?p @ t) = origin # ?d # Split NL (?r @ t)"
    using Split_append [OF assms(2)] Split_append [OF dec_int_no_NL(1)] by simp
  moreover have "Split NL (?r @ t) ! 0 = ?r"
    using t(2) Split_append [OF root_line(2)] Split_no_sep [OF root_line(2)] by (cases t) simp_all
  ultimately show "Split NL (trim_right (\<lambda>ch. ch = NL) text) ! 1 = ?d" "Split NL (trim_right (\<lambda>ch. ch = NL) text) ! 2 = ?r"
    by (simp_all add: t(1) numeral_2_eq_2)
qed

text \<open>
  An instance of the assumptions, for the witnesses: a scheme whose signature is the message.
\<close>

definition toy_crypto :: crypto where
  "toy_crypto = \<lparr>ed25519_NewKeyFromSeed = (\<lambda>s. s @ s), ed25519_Public = (\<lambda>k. k), ed25519_Sign = (\<lambda>k m. m),
     ed25519_Verify = (\<lambda>p m s. s = m), mldsa_Unmarshal = (\<lambda>a b. Inr b), mldsa_Public = (\<lambda>a k. k),
     mldsa_Sign = (\<lambda>a k m. Inr m), mldsa_Verify = (\<lambda>a p m s. s = m)\<rparr>"

definition toy_cosigner :: Cosigner where
  "toy_cosigner = \<lparr>cs_algorithm = AlgEd25519, cs_privateKey = [], cs_publicKey = [], cs_mldsaKey = [],
     cs_mldsaPub = [], cs_keyID = ''key'', cs_keyHash = 7, cs_origin = ''log'', cs_cosignerID = [1]\<rparr>"

lemma toy_ok:
  "key_pair toy_crypto toy_cosigner" "NL \<notin> set (cs_origin toy_cosigner)" "line_name (cs_keyID toy_cosigner)"
  "str_bytes (checkpoint_body ''log'' 5 3) \<noteq> []"
  by (simp_all add: key_pair_def toy_crypto_def toy_cosigner_def line_name_def is_space_def
      checkpoint_body_def str_bytes_def)

lemma toy_sign:
  "\<exists>note. SignCheckpoint toy_crypto toy_cosigner 5 3 = Inr (note, str_bytes (checkpoint_body ''log'' 5 3))"
  by (simp add: SignCheckpoint_def Sign_def toy_crypto_def toy_cosigner_def Let_def)

lemma SignSubtreeMTC_verifies:
  "key_pair cr c \<Longrightarrow> SignSubtreeMTC cr c logID s e h = Inr sig \<Longrightarrow> VerifySubtreeMTC cr c logID s e h sig"
  using Sign_Verify by (auto simp: SignSubtreeMTC_def VerifySubtreeMTC_def split: sum.splits)

section \<open>Properties\<close>

text \<open>
  C11. A checkpoint note that \<open>SignCheckpoint\<close> makes is accepted by \<open>VerifyCheckpoint\<close> of the
  same cosigner and gives back the tree size and the root hash, for every algorithm whose
  signatures verify, every origin without a line break, every key name without blanks and
  every tree size.
\<close>

theorem checkpoint_roundtrip:
  assumes "key_pair cr c" "NL \<notin> set (cs_origin c)" "line_name (cs_keyID c)"
    and "- (2 ^ 63) \<le> n" "n < 2 ^ 63"
    and "SignCheckpoint cr c n h = Inr (note, sig)" "sig \<noteq> []"
  shows "VerifyCheckpoint cr c note = Inr (n, h)"
  using assms by (rule Sign_VerifyCheckpoint)

theorem checkpoint_roundtrip_witness:
  "\<exists>note. SignCheckpoint toy_crypto toy_cosigner 5 3 = Inr (note, str_bytes (checkpoint_body ''log'' 5 3)) \<and>
     VerifyCheckpoint toy_crypto toy_cosigner note = Inr (5, 3)"
proof -
  obtain nt where n: "SignCheckpoint toy_crypto toy_cosigner 5 3 = Inr (nt, str_bytes (checkpoint_body ''log'' 5 3))"
    using toy_sign by blast
  have "VerifyCheckpoint toy_crypto toy_cosigner nt = Inr (5, 3)"
    by (rule checkpoint_roundtrip [OF toy_ok(1-3) _ _ n toy_ok(4)]) simp_all
  with n show ?thesis by blast
qed

text \<open>
  C12. Whatever \<open>VerifyCheckpoint\<close> accepts is signed: the text up to the first blank line is the
  message of a signature that verifies under the key of the cosigner and that is decoded from a
  signature line of the note, after the four bytes of the key hash. If this text is a checkpoint
  text of some size and root hash, with any lines after it, then size and root hash are the ones
  returned. So with a key that signs nothing else, only what it signed is accepted, and nothing
  outside the signed text influences the result.
\<close>

theorem checkpoint_authentic:
  assumes "VerifyCheckpoint cr c note = Inr (n, h)"
  shows "\<exists>text rest line sig. note = text @ [NL, NL] @ rest \<and> (\<forall>u v. text @ [NL] \<noteq> u @ [NL, NL] @ v) \<and>
    line \<in> set (Split NL rest) \<and> line_signature line = Some sig \<and> Verify cr c (str_bytes (text @ [NL])) sig \<and>
    (\<forall>origin m r ext. text @ [NL] = checkpoint_body origin m r @ ext \<and> NL \<notin> set origin \<and> - (2 ^ 63) \<le> m \<and> m < 2 ^ 63 \<longrightarrow>
       n = m \<and> h = r)"
proof -
  obtain msg rest where c: "cut [NL, NL] note = Some (msg, rest)"
    using assms by (auto simp: VerifyCheckpoint_def split: option.splits)
  let ?ls = "Split NL (trim_right (\<lambda>ch. ch = NL) msg)"
  obtain root where v: "Sscanf_d (?ls ! 1) = Inr n" "base64_DecodeString (?ls ! 2) = Inr root" "h = bytes_hash root"
      "verify_lines cr c (msg @ [NL]) (Split NL rest)"
    using assms c by (auto simp: VerifyCheckpoint_def Let_def split: sum.splits if_splits)
  obtain line sig where s: "line \<in> set (Split NL rest)" "line_signature line = Some sig" "Verify cr c (str_bytes (msg @ [NL])) sig"
    using verify_lines_sound [OF v(4)] by blast
  have "n = m \<and> h = r" if "msg @ [NL] = checkpoint_body origin m r @ ext" "NL \<notin> set origin" "- (2 ^ 63) \<le> m" "m < 2 ^ 63" for origin m r ext
    using v(1-3) Sscanf_d_dec_int [OF that(3,4)] unfolding body_lines [OF that(1,2)] by auto
  with cut_append [OF c] cut_at_first [OF c] s show ?thesis by blast
qed

theorem checkpoint_authentic_witness:
  "\<exists>note text rest line sig. VerifyCheckpoint toy_crypto toy_cosigner note = Inr (5, 3) \<and> note = text @ [NL, NL] @ rest \<and>
    line \<in> set (Split NL rest) \<and> line_signature line = Some sig \<and> Verify toy_crypto toy_cosigner (str_bytes (text @ [NL])) sig"
proof -
  obtain nt where n: "SignCheckpoint toy_crypto toy_cosigner 5 3 = Inr (nt, str_bytes (checkpoint_body ''log'' 5 3))"
    using toy_sign by blast
  have v: "VerifyCheckpoint toy_crypto toy_cosigner nt = Inr (5, 3)"
    by (rule Sign_VerifyCheckpoint [OF toy_ok(1-3) _ _ n toy_ok(4)]) simp_all
  from checkpoint_authentic [OF this] v show ?thesis by blast
qed

text \<open>
  The verifier of checkpoint notes uses nothing of the cosigner but its public key: the
  origin in the note, the key name and the key hash on the signature line are never compared
  with those of the cosigner.
\<close>

lemma checkpoint_identity_unchecked:
  "VerifyCheckpoint cr (c\<lparr>cs_origin := o', cs_keyID := k', cs_keyHash := h'\<rparr>) note = VerifyCheckpoint cr c note"
proof -
  have "Verify cr (c\<lparr>cs_origin := o', cs_keyID := k', cs_keyHash := h'\<rparr>) = Verify cr c"
    by (simp add: Verify_def fun_eq_iff)
  then have "verify_lines cr (c\<lparr>cs_origin := o', cs_keyID := k', cs_keyHash := h'\<rparr>) b ls = verify_lines cr c b ls" for b ls
    by (induction ls) (simp_all add: Let_def split: sum.split)
  then have eq: "verify_lines cr (c\<lparr>cs_origin := o', cs_keyID := k', cs_keyHash := h'\<rparr>) = verify_lines cr c"
    by (intro ext)
  show ?thesis unfolding VerifyCheckpoint_def eq by (rule refl)
qed

text \<open>
  A subtree signature made by \<open>SignSubtreeMTC\<close> is accepted by \<open>VerifySubtreeMTC\<close> for the
  same log, range and hash.
\<close>

lemma subtree_signature_roundtrip:
  assumes "key_pair cr c" "SignSubtreeMTC cr c logID s e h = Inr sig"
  shows "VerifySubtreeMTC cr c logID s e h sig"
  using assms by (rule SignSubtreeMTC_verifies)

lemma subtree_signature_roundtrip_witness:
  "\<exists>sig. SignSubtreeMTC toy_crypto toy_cosigner [9] 0 8 1 = Inr sig \<and>
     VerifySubtreeMTC toy_crypto toy_cosigner [9] 0 8 1 sig"
proof -
  have "\<exists>sig. SignSubtreeMTC toy_crypto toy_cosigner [9] 0 8 1 = Inr sig"
    by (simp add: SignSubtreeMTC_def BuildSubtreeSignatureInput_def HashSize_def Sign_def
        toy_crypto_def toy_cosigner_def)
  then obtain sig where "SignSubtreeMTC toy_crypto toy_cosigner [9] 0 8 1 = Inr sig" ..
  with subtree_signature_roundtrip [OF toy_ok(1) this] show ?thesis by blast
qed

end
