(* ===== verification/Cadb.thy ===== *)
theory Cadb
  imports MerkleTree
begin

text \<open>
  \<open>src/internal/cadb/adapter.go\<close>: the read-only adapter to the CA database. The CA database
  is the state, its certificate table in the order of the rows; a schedule of driver failures
  is consumed by the queries as in the state store. Times are integers.
\<close>

record CAInfo =
  ca_ID :: string
  ca_Name :: string
  ca_CertType :: string
  ca_Status :: string
  ca_CertBlob :: bytes

record Certificate =
  ce_ID :: string
  ce_SerialNumber :: string
  ce_CertBlob :: bytes
  ce_ValidFrom :: int
  ce_ValidTo :: int
  ce_CreatedDate :: int
  ce_IsRevoked :: bool
  ce_RevokedDate :: "int option"
  ce_RevokedReason :: "int option"
  ce_IssuerID :: string
  ce_ThumbprintSHA256 :: string

definition CertSHA256 :: "Certificate \<Rightarrow> hash" where
  "CertSHA256 c = Sum256 (ce_CertBlob c)"

record RevocationEvent =
  re_CertID :: string
  re_SerialNumber :: string
  re_RevokedDate :: int
  re_RevokedReason :: int

record cadb =
  ca_rows :: "CAInfo list"
  cert_rows :: "Certificate list"
  ca_sched :: "bool list"

record Adapter =
  ad_IssuerID :: string
  ad_caCache :: "string \<Rightarrow> CAInfo option"

type_synonym 'a cio = "cadb \<Rightarrow> (goerr + 'a) \<times> cadb"

definition ca_query :: "string \<Rightarrow> (cadb \<Rightarrow> goerr + 'a) \<Rightarrow> 'a cio" where
  "ca_query msg f d =
     (let d1 = d\<lparr>ca_sched := tl (ca_sched d)\<rparr> in
      case ca_sched d of
        True # _ \<Rightarrow> (Inl (Wrap msg ErrDB), d1)
      | _ \<Rightarrow> ((case f d1 of Inl e \<Rightarrow> Inl (Wrap msg e) | Inr v \<Rightarrow> Inr v), d1))"

text \<open>The cache of active CAs that \<open>New\<close> fills; a later row overrides an earlier one.\<close>

definition loadCAs :: "(string \<Rightarrow> CAInfo option) cio" where
  "loadCAs = ca_query ''cadb.loadCAs: %w''
     (\<lambda>d. Inr (foldl (\<lambda>m ca. m(ca_ID ca \<mapsto> ca)) (\<lambda>_. None) (filter (\<lambda>ca. ca_Status ca = ''active'') (ca_rows d))))"

definition GetCA :: "Adapter \<Rightarrow> string \<Rightarrow> CAInfo option" where
  "GetCA a i = ad_caCache a i"

text \<open>
  The keyset order \<open>(created_date, id)\<close>; ids compare bytewise. \<open>after\<close> is the \<open>WHERE\<close> clause
  of the cursor, \<open>insert_cert\<close> sorts by it.
\<close>

fun id_less :: "string \<Rightarrow> string \<Rightarrow> bool" where
  "id_less _ [] = False"
| "id_less [] (_ # _) = True"
| "id_less (a # as) (b # bs) = ((of_char a :: nat) < of_char b \<or> a = b \<and> id_less as bs)"

definition after :: "int \<Rightarrow> string \<Rightarrow> Certificate \<Rightarrow> bool" where
  "after afterDate afterID c \<longleftrightarrow>
     ce_CreatedDate c > afterDate \<or> ce_CreatedDate c = afterDate \<and> id_less afterID (ce_ID c)"

fun insert_cert :: "Certificate \<Rightarrow> Certificate list \<Rightarrow> Certificate list" where
  "insert_cert c [] = [c]"
| "insert_cert c (x # xs) =
     (if after (ce_CreatedDate c) (ce_ID c) x then c # x # xs else x # insert_cert c xs)"

definition sort_certs :: "Certificate list \<Rightarrow> Certificate list" where
  "sort_certs cs = foldr insert_cert cs []"

definition FetchNewCertificates :: "Adapter \<Rightarrow> int \<Rightarrow> string \<Rightarrow> int \<Rightarrow> Certificate list cio" where
  "FetchNewCertificates a afterDate afterID limit = ca_query ''cadb.FetchNewCertificates: %w''
     (\<lambda>d. if limit < 0 then Inl ErrDB
      else Inr (take (nat limit) (sort_certs (filter
        (\<lambda>c. (ad_IssuerID a = '''' \<or> ce_IssuerID c = ad_IssuerID a) \<and> after afterDate afterID c) (cert_rows d)))))"

text \<open>
  A revocation row: missing date and reason become the zero time and reason 0.
\<close>

definition revocation_of :: "Certificate \<Rightarrow> RevocationEvent" where
  "revocation_of c = \<lparr>re_CertID = ce_ID c, re_SerialNumber = ce_SerialNumber c,
     re_RevokedDate = (case ce_RevokedDate c of None \<Rightarrow> zero_time | Some t \<Rightarrow> t),
     re_RevokedReason = (case ce_RevokedReason c of None \<Rightarrow> 0 | Some r \<Rightarrow> r)\<rparr>"

definition FetchAllRevocations :: "Adapter \<Rightarrow> RevocationEvent list cio" where
  "FetchAllRevocations a = ca_query ''cadb.FetchAllRevocations: %w''
     (\<lambda>d. Inr (map revocation_of (sort_key (\<lambda>c. case ce_RevokedDate c of None \<Rightarrow> zero_time | Some t \<Rightarrow> t)
        (filter (\<lambda>c. ce_IsRevoked c \<and> (ad_IssuerID a = '''' \<or> ce_IssuerID c = ad_IssuerID a)) (cert_rows d)))))"

definition CertificateCount :: "int cio" where
  "CertificateCount = ca_query ''cadb.CertificateCount: %w'' (\<lambda>d. Inr (int (length (cert_rows d))))"

definition RevokedCount :: "int cio" where
  "RevokedCount = ca_query ''cadb.RevokedCount: %w'' (\<lambda>d. Inr (int (length (filter ce_IsRevoked (cert_rows d)))))"

end
