(* ===== verification/Issuancelog.thy ===== *)
theory Issuancelog
  imports StoreTables Cosigner Cadb
begin

text \<open>
  \<open>src/internal/issuancelog/issuancelog.go\<close>: the issuance log over the state store. The
  Merkle tree is kept as one stored node per level and index; \<open>recomputeInterior\<close> rewrites
  the nodes above new leaves.
\<close>

section \<open>Entries\<close>

definition EntryTypeCertificate :: int where "EntryTypeCertificate = 1"
definition EntryTypePrecert :: int where "EntryTypePrecert = 2"
definition EntryTypeMTC :: int where "EntryTypeMTC = 3"

text \<open>\<open>mtcformat.NullEntryBytes\<close>.\<close>

definition NullEntryBytes :: bytes where
  "NullEntryBytes = [0x00, 0x00]"

text \<open>The index and creation time are filled in later; zero values stand for them here.\<close>

definition log_entry :: "int \<Rightarrow> bytes \<Rightarrow> bytes \<Rightarrow> string \<Rightarrow> string \<Rightarrow> LogEntry" where
  "log_entry typ data h serial ca =
     \<lparr>le_Index = 0, le_EntryType = typ, le_EntryData = data, le_CertSHA256 = h, le_SerialHex = serial,
      le_CACertID = ca, le_CreatedAt = 0\<rparr>"

definition BuildEntry :: "Certificate \<Rightarrow> LogEntry" where
  "BuildEntry cert =
     (let data = le_bytes 2 (nat EntryTypeCertificate) @ le_bytes 4 (length (ce_CertBlob cert)) @ ce_CertBlob cert
      in log_entry EntryTypeCertificate data (hash_bytes (CertSHA256 cert)) (ce_SerialNumber cert) (ce_IssuerID cert))"

definition BuildPrecertEntry :: "bytes \<Rightarrow> string \<Rightarrow> LogEntry" where
  "BuildPrecertEntry tbsDER serialHex =
     (let data = le_bytes 2 (nat EntryTypePrecert) @ le_bytes 4 (length tbsDER) @ tbsDER
      in log_entry EntryTypePrecert data (hash_bytes (Sum256 tbsDER)) serialHex ''local-ca'')"

definition BuildMTCEntry :: "bytes \<Rightarrow> string \<Rightarrow> goerr + LogEntry" where
  "BuildMTCEntry logEntryDER serialHex =
     (case DERContentsOctets logEntryDER of
        Inl err \<Rightarrow> Inl (Wrap ''issuancelog.BuildMTCEntry: strip DER envelope: %w'' err)
      | Inr contentsOctets \<Rightarrow>
        (case MarshalEntry \<lparr>me_Type = EntryTypeTBSCert, me_Data = contentsOctets\<rparr> of
           Inl err \<Rightarrow> Inl (Wrap ''issuancelog.BuildMTCEntry: marshal: %w'' err)
         | Inr wireData \<Rightarrow>
             Inr (log_entry EntryTypeMTC wireData (hash_bytes (Sum256 logEntryDER)) serialHex ''local-ca'')))"

section \<open>The tree\<close>

text \<open>
  One level of \<open>recomputeInterior\<close>: the nodes for the indices of a level from their stored
  children. Any error of a read, a missing row or a failing driver, is taken for a missing
  child: without a left child the node is skipped, without a right child it is the left one.
\<close>

fun collectNodes :: "int \<Rightarrow> int list \<Rightarrow> db \<Rightarrow> TreeNode list \<times> db" where
  "collectNodes level [] d = ([], d)"
| "collectNodes level (idx # is) d =
     (case GetTreeNode (level - 1) (idx * 2) d of
        (Inl _, d1) \<Rightarrow> collectNodes level is d1
      | (Inr left, d1) \<Rightarrow>
        (case GetTreeNode (level - 1) (idx * 2 + 1) d1 of
           (Inl _, d2) \<Rightarrow>
             (let (ns, d3) = collectNodes level is d2
              in (\<lparr>tn_Level = level, tn_Index = idx, tn_Hash = left\<rparr> # ns, d3))
         | (Inr right, d2) \<Rightarrow>
             (let (ns, d3) = collectNodes level is d2
              in (\<lparr>tn_Level = level, tn_Index = idx, tn_Hash = InteriorHash left right\<rparr> # ns, d3))))"

function recomputeFrom :: "int \<Rightarrow> int \<Rightarrow> int \<Rightarrow> unit io" where
  "recomputeFrom level oldSize newSize d =
     (if level \<ge> 64 then (Inr (), d)
      else let startIdx = drop_bit (nat level) oldSize; endIdx = drop_bit (nat level) (newSize - 1) in
      if startIdx > endIdx then (Inr (), d)
      else case collectNodes level [startIdx..endIdx] d of (nodes, d1) \<Rightarrow>
        if length nodes = 0 then (Inr (), d1)
        else case wrap ''issuancelog: recompute level %d: %w'' (SetTreeNodes nodes) d1 of
          (Inl err, d2) \<Rightarrow> (Inl err, d2)
        | (Inr _, d2) \<Rightarrow> recomputeFrom (level + 1) oldSize newSize d2)"
  by pat_completeness auto
termination by (relation "measure (\<lambda>(level, _). nat (64 - level))") auto

declare recomputeFrom.simps [simp del]

definition recomputeInterior :: "int \<Rightarrow> int \<Rightarrow> unit io" where
  "recomputeInterior oldSize newSize = recomputeFrom 1 oldSize newSize"

section \<open>Operations\<close>

definition Initialize :: "unit io" where
  "Initialize =
     io_bind (wrap ''issuancelog.Initialize: tree size: %w'' TreeSize) (\<lambda>sz.
     if sz > 0 then io_return ()
     else
       io_bind (wrap ''issuancelog.Initialize: append null entry: %w''
         (AppendEntry (log_entry 0 NullEntryBytes [] '''' ''''))) (\<lambda>_.
       wrap ''issuancelog.Initialize: set leaf hash: %w'' (SetTreeNode 0 0 (LeafHash NullEntryBytes))))"

definition AppendDirectEntry :: "LogEntry \<Rightarrow> int io" where
  "AppendDirectEntry entry =
     io_bind (wrap ''issuancelog.AppendDirectEntry: tree size: %w'' TreeSize) (\<lambda>currentSize.
     io_bind (wrap ''issuancelog.AppendDirectEntry: append: %w'' (AppendEntry (entry\<lparr>le_Index := currentSize\<rparr>))) (\<lambda>_.
     io_bind (wrap ''issuancelog.AppendDirectEntry: set leaf: %w''
       (SetTreeNode 0 currentSize (LeafHash (le_EntryData entry)))) (\<lambda>_.
     io_bind (wrap ''issuancelog.AppendDirectEntry: recompute: %w''
       (recomputeInterior currentSize (currentSize + 1))) (\<lambda>_.
     io_return currentSize))))"

text \<open>\<open>for i, x := range xs\<close> with the offset of the first index.\<close>

definition indexed :: "int \<Rightarrow> 'a list \<Rightarrow> (int \<times> 'a) list" where
  "indexed start xs = zip [start..start + int (length xs) - 1] xs"

definition AppendCertificates :: "Certificate list \<Rightarrow> (int \<times> int) io" where
  "AppendCertificates certs =
     (if length certs = 0 then io_bind TreeSize (\<lambda>sz. io_return (0, sz))
      else
        io_bind (wrap ''issuancelog.AppendCertificates: tree size: %w'' TreeSize) (\<lambda>currentSize.
        let entries = map (\<lambda>(i, cert). (BuildEntry cert)\<lparr>le_Index := i\<rparr>) (indexed currentSize certs);
            nodes = map (\<lambda>e. \<lparr>tn_Level = 0, tn_Index = le_Index e, tn_Hash = LeafHash (le_EntryData e)\<rparr>) entries;
            newSize = currentSize + int (length certs)
        in
        io_bind (wrap ''issuancelog.AppendCertificates: append: %w'' (AppendEntries entries)) (\<lambda>_.
        io_bind (wrap ''issuancelog.AppendCertificates: set leaf hashes: %w'' (SetTreeNodes nodes)) (\<lambda>_.
        io_bind (wrap ''issuancelog.AppendCertificates: recompute: %w'' (recomputeInterior currentSize newSize)) (\<lambda>_.
        io_return (int (length certs), newSize))))))"

text \<open>The level of the root: the number of halvings, rounded up, that lead to one.\<close>

function halvings :: "int \<Rightarrow> nat" where
  "halvings n = (if n > 1 then Suc (halvings ((n + 1) div 2)) else 0)"
  by pat_completeness auto
termination by (relation "measure nat") auto

declare halvings.simps [simp del]

text \<open>
  The loop \<open>for k*2 < n { k *= 2 }\<close> of \<open>computeMTH\<close>, and \<open>computeMTH\<close> itself. Its second
  argument is the length of a range, a natural number.
\<close>

function doubled :: "nat \<Rightarrow> nat \<Rightarrow> nat" where
  "doubled k n = (if 0 < k \<and> k * 2 < n then doubled (k * 2) n else k)"
  by pat_completeness auto
termination by (relation "measure (\<lambda>(k, n). n - k)") auto

declare doubled.simps [simp del]

lemma doubled_split:
  "k = 2 ^ i \<Longrightarrow> k < n \<Longrightarrow> doubled k n = split n"
proof (induction k n arbitrary: i rule: doubled.induct)
  case (1 k n)
  show ?case
  proof (cases "k * 2 < n")
    case True
    with 1 have "doubled (k * 2) n = split n"
      using "1.IH" [of "Suc i"] by simp
    with 1 True show ?thesis by (subst doubled.simps) simp
  next
    case False
    with 1 have "split n = k" using split_unique [of i n] by simp
    with False show ?thesis by (subst doubled.simps) simp
  qed
qed

lemma doubled_bounds: "2 \<le> n \<Longrightarrow> doubled 1 n = split n"
  using doubled_split [of 1 0 n] by simp

lemma doubled_less: "0 < n \<Longrightarrow> n \<noteq> Suc 0 \<Longrightarrow> 0 < doubled (Suc 0) n \<and> doubled (Suc 0) n < n"
  using doubled_bounds [of n] split_less [of n] by simp

function computeMTH :: "int \<Rightarrow> nat \<Rightarrow> hash io" where
  "computeMTH start n d =
     (if n = 0 then (Inr (Sum256 []), d)
      else if n = 1 then GetTreeNode 0 start d
      else let k = doubled 1 n in
        case computeMTH start k d of
          (Inl err, d1) \<Rightarrow> (Inl err, d1)
        | (Inr left, d1) \<Rightarrow>
          (case computeMTH (start + int k) (n - k) d1 of
             (Inl err, d2) \<Rightarrow> (Inl err, d2)
           | (Inr right, d2) \<Rightarrow> (Inr (InteriorHash left right), d2)))"
  by pat_completeness auto
termination
  by (relation "measure (\<lambda>(_, n, _). n)") (auto simp: doubled_less)

declare computeMTH.simps [simp del]

definition computeRootHash :: "int \<Rightarrow> hash io" where
  "computeRootHash treeSize d =
     (if treeSize = 0 then (Inr (Sum256 []), d)
      else if treeSize = 1 then GetTreeNode 0 0 d
      else case GetTreeNode (int (halvings treeSize)) 0 d of
        (Inr h, d1) \<Rightarrow> (Inr h, d1)
      | (Inl _, d1) \<Rightarrow> computeMTH 0 (nat treeSize) d1)"

text \<open>\<open>CreateCheckpoint\<close> returns the checkpoint with its database id.\<close>

definition CreateCheckpoint :: "crypto \<Rightarrow> Cosigner \<Rightarrow> Checkpoint io" where
  "CreateCheckpoint cr cs =
     io_bind (wrap ''issuancelog.CreateCheckpoint: tree size: %w'' TreeSize) (\<lambda>treeSize.
     if treeSize = 0 then (\<lambda>d. (Inl (Errorf ''issuancelog.CreateCheckpoint: log is empty''), d))
     else
       io_bind (wrap ''issuancelog.CreateCheckpoint: root hash: %w'' (computeRootHash treeSize)) (\<lambda>rootHash.
       (\<lambda>d. case SignCheckpoint cr cs treeSize rootHash of
          Inl err \<Rightarrow> (Inl (Wrap ''issuancelog.CreateCheckpoint: sign: %w'' err), d)
        | Inr (note, sig) \<Rightarrow>
            wrap ''issuancelog.CreateCheckpoint: save: %w''
              (SaveCheckpoint \<lparr>cp_ID = 0, cp_TreeSize = treeSize, cp_RootHash = hash_bytes rootHash,
                 cp_Timestamp = db_now d, cp_Signature = sig, cp_Body = note, cp_CreatedAt = 0\<rparr>) d)))"

end
