(* ===== verification/IssuancelogTree.thy ===== *)
theory IssuancelogTree
  imports Issuancelog
begin

text \<open>
  The tree of the issuance log: the invariant of the stored nodes, its preservation by every
  operation that appends, and the root that checkpoints sign. The abstraction of the database
  is the list of entry data; the stored node at level \<open>l\<close> and index \<open>i\<close> is the Merkle Tree
  Hash of the leaves \<open>[i * 2^l, (i + 1) * 2^l)\<close> that exist, for a partial right-edge range too.
\<close>

section \<open>Nodes of a list of leaves\<close>

definition nodeval :: "hash list \<Rightarrow> nat \<Rightarrow> nat \<Rightarrow> hash" where
  "nodeval L l i = mth (take (2 ^ l) (drop (i * 2 ^ l) L))"

lemma nodeval_leaf: "i < length L \<Longrightarrow> nodeval L 0 i = L ! i"
  by (simp add: nodeval_def take_Suc_conv_app_nth [of 0] hd_drop_conv_nth)

lemma nodeval_Suc:
  assumes "i * 2 ^ Suc l < length L"
  shows "nodeval L (Suc l) i =
    (if (2 * i + 1) * 2 ^ l < length L then InteriorHash (nodeval L l (2 * i)) (nodeval L l (2 * i + 1))
     else nodeval L l (2 * i))"
proof -
  define S where "S = take (2 ^ Suc l) (drop (i * 2 ^ Suc l) L)"
  have left: "take (2 ^ l) S = take (2 ^ l) (drop (2 * i * 2 ^ l) L)"
    by (simp add: S_def min_def mult.assoc mult.left_commute)
  have right: "drop (2 ^ l) S = take (2 ^ l) (drop ((2 * i + 1) * 2 ^ l) L)"
    by (simp add: S_def drop_take algebra_simps)
  have len: "length S = min (length L - i * 2 ^ Suc l) (2 ^ Suc l)"
    by (simp add: S_def min.commute)
  show ?thesis
  proof (cases "(2 * i + 1) * 2 ^ l < length L")
    case True
    then have S2: "2 ^ l < length S" "length S \<le> 2 * 2 ^ l"
      by (auto simp: len algebra_simps)
    then have "split (length S) = 2 ^ l" by (rule split_unique)
    moreover have "2 \<le> length S" using S2(1) order_le_less_trans [of 1 "2 ^ l" "length S"] by simp
    ultimately have "mth S = InteriorHash (mth (take (2 ^ l) S)) (mth (drop (2 ^ l) S))"
      using mth_split [of S] by simp
    with True show ?thesis
      by (simp only: nodeval_def S_def [symmetric] left right if_True)
  next
    case False
    then have "length S \<le> 2 ^ l" by (simp add: len algebra_simps)
    then have "S = take (2 ^ l) S" by simp
    with False left show ?thesis
      by (simp only: nodeval_def S_def [symmetric] if_False)
  qed
qed

lemma nodeval_append:
  "(i + 1) * 2 ^ l \<le> length L \<Longrightarrow> nodeval (L @ M) l i = nodeval L l i"
  by (simp add: nodeval_def algebra_simps)

text \<open>The node \<open>(l, i)\<close> exists when some leaf below it does and its level is at most 63.\<close>

definition covered :: "hash list \<Rightarrow> int \<Rightarrow> int \<Rightarrow> bool" where
  "covered L l i \<longleftrightarrow> 0 \<le> l \<and> l < 64 \<and> 0 \<le> i \<and> i * 2 ^ nat l < int (length L)"

lemma covered_nat:
  "covered L l i \<Longrightarrow> nat i * 2 ^ nat l < length L"
proof -
  assume c: "covered L l i"
  then have "int (nat i * 2 ^ nat l) < int (length L)" by (simp add: covered_def)
  then show ?thesis by (simp only: of_nat_less_iff)
qed

definition exact :: "hash list \<Rightarrow> int \<Rightarrow> int \<Rightarrow> hash option" where
  "exact L l i = (if covered L l i then Some (nodeval L (nat l) (nat i)) else None)"

text \<open>
  The stored value may be missing above the leaf level while there is a single leaf, because
  \<open>Initialize\<close> stores the leaf only.
\<close>

definition node_ok :: "hash list \<Rightarrow> int \<Rightarrow> int \<Rightarrow> hash option \<Rightarrow> bool" where
  "node_ok L l i v \<longleftrightarrow> v = exact L l i \<or> v = None \<and> l \<noteq> 0 \<and> length L \<le> 1"

section \<open>The invariant\<close>

definition leaves :: "db \<Rightarrow> hash list" where
  "leaves d = map (\<lambda>e. LeafHash (le_EntryData e)) (log_entries d)"

definition entries :: "db \<Rightarrow> bytes list" where
  "entries d = map le_EntryData (log_entries d)"

definition numbered :: "LogEntry list \<Rightarrow> bool" where
  "numbered es \<longleftrightarrow> map le_Index es = [0..int (length es) - 1]"

definition log_inv :: "db \<Rightarrow> bool" where
  "log_inv d \<longleftrightarrow> numbered (log_entries d) \<and> (\<forall>l i. node_ok (leaves d) l i (tree_nodes d (l, i)))"

lemma length_leaves [simp]: "length (leaves d) = length (log_entries d)"
  by (simp add: leaves_def)

lemma numbered_size: "numbered es \<Longrightarrow> max_plus_1 (map le_Index es) = int (length es)"
proof (cases "es = []")
  case False
  assume n: "numbered es"
  have "Max {0..int (length es) - 1} = int (length es) - 1"
    using False by (intro Max_eqI) (auto simp: Suc_le_eq)
  with False n show ?thesis
    by (simp add: max_plus_1_def numbered_def)
qed (simp add: max_plus_1_def)

lemma numbered_snoc:
  assumes "numbered es" "map le_Index fs = [int (length es)..int (length es) + int (length fs) - 1]"
  shows "numbered (es @ fs)"
proof -
  have "[0..int (length es) + int (length fs) - 1] =
      [0..int (length es) - 1] @ [int (length es)..int (length es) + int (length fs) - 1]"
    using rng_split [of 0 "int (length es)" "int (length es) + int (length fs)" id] by (simp add: rng_def)
  with assms show ?thesis by (simp add: numbered_def)
qed

lemma empty_inv: "log_inv empty_db"
  by (simp add: log_inv_def empty_db_def numbered_def node_ok_def exact_def covered_def leaves_def)
    (metis mult_nonneg_nonneg not_less zero_le_numeral zero_le_power)

section \<open>Recomputing the interior\<close>

lemma exact_Some:
  "l < 64 \<Longrightarrow> i * 2 ^ l < length L \<Longrightarrow> exact L (int l) (int i) = Some (nodeval L l i)"
proof -
  assume "l < 64" "i * 2 ^ l < length L"
  moreover from this have "int (i * 2 ^ l) < int (length L)" by (simp only: of_nat_less_iff)
  ultimately show ?thesis by (simp add: exact_def covered_def)
qed

lemma exact_None: "length L \<le> i * 2 ^ l \<Longrightarrow> exact L (int l) (int i) = None"
proof -
  assume "length L \<le> i * 2 ^ l"
  then have "int (length L) \<le> int (i * 2 ^ l)" by (simp only: of_nat_le_iff)
  then show ?thesis by (simp add: exact_def covered_def)
qed

lemma collectNodes_run:
  assumes "no_faults d" "Suc l < 64" "\<And>j. tree_nodes d (int l, j) = exact L (int l) j"
    and "\<forall>idx\<in>set is. covered L (int (Suc l)) idx"
  shows "collectNodes (int (Suc l)) is d =
    (map (\<lambda>idx. \<lparr>tn_Level = int (Suc l), tn_Index = idx, tn_Hash = nodeval L (Suc l) (nat idx)\<rparr>) is, d)"
  using assms(4)
proof (induction "is")
  case (Cons idx "is")
  then have c: "covered L (int (Suc l)) idx" by simp
  define i where "i = nat idx"
  have idx: "idx = int i" using c by (simp add: i_def covered_def)
  have lt: "i * 2 ^ Suc l < length L" using covered_nat [OF c] by (simp only: nat_int i_def)
  have left: "exact L (int l) (idx * 2) = Some (nodeval L l (2 * i))"
    using exact_Some [of l "2 * i" L] assms(2) lt by (simp add: idx mult.commute)
  have right: "exact L (int l) (idx * 2 + 1) =
      (if (2 * i + 1) * 2 ^ l < length L then Some (nodeval L l (2 * i + 1)) else None)"
    using exact_Some [of l "2 * i + 1" L] exact_None [of L "2 * i + 1" l] assms(2)
    by (auto simp: idx mult.commute add.commute not_less)
  show ?case
    using Cons assms(1,3) left right nodeval_Suc [OF lt]
    by (simp add: GetTreeNode_run i_def [symmetric])
qed simp

text \<open>
  The state between two levels of the recomputation after the leaves \<open>L\<close> have grown to \<open>L'\<close>:
  below the level everything is exact for \<open>L'\<close>, from it on the nodes are still those of \<open>L\<close>.
\<close>

definition mid :: "hash list \<Rightarrow> hash list \<Rightarrow> int \<Rightarrow> db \<Rightarrow> bool" where
  "mid L L' level d \<longleftrightarrow> (\<forall>l i. if l < level then tree_nodes d (l, i) = exact L' l i
                               else node_ok L l i (tree_nodes d (l, i)))"

lemma le_div_mult:
  fixes i a m :: int
  assumes "0 < m"
  shows "i \<le> a div m \<longleftrightarrow> i * m \<le> a"
proof
  assume "i \<le> a div m"
  then have "i * m \<le> a div m * m" using assms by (intro mult_right_mono) simp_all
  also have "\<dots> \<le> a" using div_mult_mod_eq [of a m] pos_mod_sign [OF assms, of a] by linarith
  finally show "i * m \<le> a" .
next
  assume "i * m \<le> a"
  then have "i * m div m \<le> a div m" using assms by (rule zdiv_mono1)
  with assms show "i \<le> a div m" by simp
qed

lemma exact_grow:
  assumes "0 \<le> l" "i < drop_bit (nat l) (int (length L))" "covered L l i"
  shows "exact (L @ M) l i = exact L l i"
proof -
  have i0: "0 \<le> i" using assms(3) by (simp add: covered_def)
  have "i + 1 \<le> int (length L) div 2 ^ nat l"
    using assms(2) by (simp add: drop_bit_eq_div)
  then have "(i + 1) * 2 ^ nat l \<le> int (length L)"
    by (simp add: le_div_mult)
  then have "int ((nat i + 1) * 2 ^ nat l) \<le> int (length L)" using i0 by (simp add: algebra_simps)
  then have "(nat i + 1) * 2 ^ nat l \<le> length L" by (simp only: of_nat_le_iff)
  moreover have "covered (L @ M) l i" using assms(3) by (simp add: covered_def)
  ultimately show ?thesis
    using assms(3) nodeval_append [of "nat i" "nat l" L M] by (simp add: exact_def)
qed

lemma covered_window:
  assumes "L' \<noteq> []" "0 \<le> l" "l < 64" "0 \<le> i"
  shows "covered L' l i \<longleftrightarrow> i \<le> drop_bit (nat l) (int (length L') - 1)"
proof -
  have "i \<le> (int (length L') - 1) div 2 ^ nat l \<longleftrightarrow> i * 2 ^ nat l \<le> int (length L') - 1"
    by (simp add: le_div_mult)
  then show ?thesis
    using assms(2-4) by (auto simp: covered_def drop_bit_eq_div)
qed

lemma append_window:
  "M \<noteq> [] \<Longrightarrow> drop_bit k (int (length L)) \<le> drop_bit k (int (length (L @ M)) - 1)"
  unfolding drop_bit_eq_div by (rule zdiv_mono1) (auto simp: Suc_le_eq)

text \<open>The nodes of one level over a window of indices, and what storing them does to a lookup.\<close>

definition level_nodes :: "hash list \<Rightarrow> nat \<Rightarrow> int list \<Rightarrow> TreeNode list" where
  "level_nodes L l is = map (\<lambda>idx. \<lparr>tn_Level = int l, tn_Index = idx, tn_Hash = nodeval L l (nat idx)\<rparr>) is"

lemma tree_nodes_level_nodes:
  "tree_nodes (upsert_nodes (level_nodes L l [a..b]) d) (lv, i) =
     (if lv = int l \<and> a \<le> i \<and> i \<le> b then Some (nodeval L l (nat i)) else tree_nodes d (lv, i))"
proof -
  let ?ns = "level_nodes L l [a..b]"
  have dist: "distinct (map (\<lambda>n. (tn_Level n, tn_Index n)) ?ns)"
    by (simp add: level_nodes_def comp_def distinct_map inj_on_def)
  have eq: "map (\<lambda>n. ((tn_Level n, tn_Index n), tn_Hash n)) ?ns =
      map (\<lambda>k. (k, nodeval L l (nat (snd k)))) (map (Pair (int l)) [a..b])"
    by (simp add: level_nodes_def comp_def)
  show ?thesis
    unfolding tree_nodes_upsert_nodes [OF dist] eq map_of_map_restrict by (auto simp: restrict_map_def)
qed

text \<open>A node left of the window that the appended leaves touch keeps its value.\<close>

lemma node_ok_grow:
  assumes ok: "node_ok L l i v" and l: "0 < l" "l < 64"
    and out: "\<not> (drop_bit (nat l) (int (length L)) \<le> i \<and> i \<le> drop_bit (nat l) (int (length (L @ M)) - 1))"
    and M: "M \<noteq> []"
  shows "v = exact (L @ M) l i"
proof (cases "0 \<le> i \<and> i < drop_bit (nat l) (int (length L))")
  case True
  then have "i + 1 \<le> int (length L) div 2 ^ nat l" by (simp add: drop_bit_eq_div)
  then have le: "(i + 1) * 2 ^ nat l \<le> int (length L)" by (simp add: le_div_mult)
  moreover have pw: "2 \<le> (2::int) ^ nat l"
    using l(1) self_le_power [of "2::int" "nat l"] by simp
  ultimately have "i * 2 ^ nat l < int (length L)" by (simp add: algebra_simps)
  then have cov: "covered L l i" using True l by (simp add: covered_def)
  have "(2::int) ^ nat l \<le> (i + 1) * 2 ^ nat l" using True by (simp add: mult_le_cancel_right1)
  then have "2 \<le> int (length L)" using le pw by linarith
  then show ?thesis
    using ok exact_grow [of l i L M] cov True l by (simp add: node_ok_def)
next
  case False
  then have "\<not> covered (L @ M) l i"
    using out M l covered_window [of "L @ M" l i] by (auto simp: covered_def)
  moreover from this have "\<not> covered L l i" by (auto simp: covered_def)
  ultimately show ?thesis using ok by (auto simp: node_ok_def exact_def)
qed

lemma mid_step:
  assumes m: "mid L (L @ M) (int (Suc l)) d" and l: "Suc l < 64" and M: "M \<noteq> []" and d: "no_faults d"
  defines "is \<equiv> [drop_bit (Suc l) (int (length L))..drop_bit (Suc l) (int (length (L @ M)) - 1)]"
  shows "collectNodes (int (Suc l)) is d = (level_nodes (L @ M) (Suc l) is, d)"
    "mid L (L @ M) (int (Suc (Suc l))) (upsert_nodes (level_nodes (L @ M) (Suc l) is) d)"
proof -
  let ?L = "L @ M" and ?lv = "int (Suc l)"
  let ?d = "upsert_nodes (level_nodes ?L (Suc l) is) d"
  have cov: "covered ?L ?lv i \<longleftrightarrow> i \<le> drop_bit (Suc l) (int (length ?L) - 1)" if "0 \<le> i" for i
    using covered_window [of ?L ?lv i] l that M by (simp only: nat_int of_nat_0_le_iff) simp
  have inside: "covered ?L ?lv i" if "i \<in> set is" for i
  proof -
    have "0 \<le> i" using that order_trans [of 0 "drop_bit (Suc l) (int (length L))" i] by (simp add: is_def)
    with that show ?thesis by (simp add: cov is_def del: of_nat_Suc)
  qed
  show "collectNodes ?lv is d = (level_nodes ?L (Suc l) is, d)"
    unfolding level_nodes_def
    by (rule collectNodes_run [OF d l]) (use m inside in \<open>auto simp: mid_def\<close>)
  have at: "tree_nodes ?d (?lv, i) = exact ?L ?lv i" for i
  proof (cases "i \<in> set is")
    case True
    then show ?thesis
      using inside [OF True] unfolding is_def tree_nodes_level_nodes exact_def by (simp only: nat_int) simp
  next
    case False
    have "node_ok L ?lv i (tree_nodes d (?lv, i))"
      using m by (simp add: mid_def)
    then have "tree_nodes d (?lv, i) = exact ?L ?lv i"
      by (rule node_ok_grow) (use False l M in \<open>simp_all only: nat_int is_def, simp_all\<close>)
    moreover have "tree_nodes ?d (?lv, i) = tree_nodes d (?lv, i)"
      using False by (auto simp: is_def tree_nodes_level_nodes)
    ultimately show ?thesis by simp
  qed
  have other: "tree_nodes ?d (lv, i) = tree_nodes d (lv, i)" if "lv \<noteq> ?lv" for lv i
    using that by (simp add: is_def tree_nodes_level_nodes del: of_nat_Suc)
  show "mid L ?L (int (Suc (Suc l))) ?d"
    unfolding mid_def
  proof (intro allI)
    fix lv i
    show "if lv < int (Suc (Suc l)) then tree_nodes ?d (lv, i) = exact ?L lv i
        else node_ok L lv i (tree_nodes ?d (lv, i))"
      using m at other [of lv i] by (cases "lv = ?lv") (auto simp: mid_def)
  qed
qed

text \<open>Operations that touch the node table only.\<close>

definition nodes_only :: "db \<Rightarrow> db \<Rightarrow> bool" where
  "nodes_only d d' \<longleftrightarrow> (\<exists>f. d' = d\<lparr>tree_nodes := f\<rparr>)"

lemma nodes_only_refl: "nodes_only d d"
  unfolding nodes_only_def by (rule exI [of _ "tree_nodes d"]) simp

lemma nodes_only_trans: "nodes_only d d' \<Longrightarrow> nodes_only d' d'' \<Longrightarrow> nodes_only d d''"
  by (auto simp: nodes_only_def)

lemma nodes_only_node: "nodes_only d (upsert_node l i h d)"
  by (auto simp: nodes_only_def upsert_node_def)

lemma nodes_only_upsert: "nodes_only d (upsert_nodes ns d)"
  unfolding upsert_nodes_def
proof (induction ns arbitrary: d)
  case (Cons n ns)
  show ?case
    using nodes_only_trans [OF nodes_only_node Cons.IH] by simp
qed (simp add: nodes_only_refl)

lemma recomputeFrom_run:
  assumes "mid L (L @ M) (int (Suc l)) d" "Suc l \<le> 64" "M \<noteq> []" "no_faults d"
  shows "\<exists>d'. recomputeFrom (int (Suc l)) (int (length L)) (int (length (L @ M))) d = (Inr (), d') \<and>
    mid L (L @ M) 64 d' \<and> nodes_only d d' \<and> no_faults d'"
  using assms(1,2,4)
proof (induction "64 - Suc l" arbitrary: l d)
  case 0
  then have "l = 63" by simp
  with 0 show ?case
    by (subst recomputeFrom.simps) (auto simp: nodes_only_refl)
next
  case (Suc n)
  then have l: "Suc l < 64" by simp
  let ?is = "[drop_bit (Suc l) (int (length L))..drop_bit (Suc l) (int (length (L @ M)) - 1)]"
  let ?ns = "level_nodes (L @ M) (Suc l) ?is"
  note step = mid_step [OF Suc.prems(1) l assms(3) Suc.prems(3)]
  have nf: "no_faults (upsert_nodes ?ns d)" using Suc.prems(3) by simp
  have n: "n = 64 - Suc (Suc l)" and l': "Suc (Suc l) \<le> 64" using Suc.hyps(2) l by simp_all
  obtain d' where d': "recomputeFrom (int (Suc (Suc l))) (int (length L)) (int (length (L @ M))) (upsert_nodes ?ns d) = (Inr (), d')"
    "mid L (L @ M) 64 d'" "nodes_only (upsert_nodes ?ns d) d'" "no_faults d'"
    using Suc.hyps(1) [OF n step(2) l' nf] by blast
  have ne: "?ns \<noteq> []" "\<not> drop_bit (Suc l) (int (length L)) > drop_bit (Suc l) (int (length (L @ M)) - 1)"
    using append_window [OF assms(3), of "Suc l" L] by (simp_all add: level_nodes_def)
  have "recomputeFrom (int (Suc l)) (int (length L)) (int (length (L @ M))) d = (Inr (), d')"
    using step(1) ne l d'(1) SetTreeNodes_run [OF Suc.prems(3), of ?ns]
    by (subst recomputeFrom.simps) (simp add: Let_def nat_add_distrib add.commute wrap_Inr)
  with d' nodes_only_trans [OF nodes_only_upsert d'(3)] show ?case by blast
qed

section \<open>Appending\<close>

lemma mid_start:
  assumes "log_inv d" "leaves d = L"
  shows "mid L (L @ M) 1 (upsert_nodes (level_nodes (L @ M) 0 [int (length L)..int (length (L @ M)) - 1])
     (d\<lparr>log_entries := es\<rparr>))"
  unfolding mid_def
proof (intro allI)
  fix l i
  let ?d = "upsert_nodes (level_nodes (L @ M) 0 [int (length L)..int (length (L @ M)) - 1]) (d\<lparr>log_entries := es\<rparr>)"
  have ok: "node_ok L l i (tree_nodes d (l, i))" using assms by (auto simp: log_inv_def)
  show "if l < 1 then tree_nodes ?d (l, i) = exact (L @ M) l i else node_ok L l i (tree_nodes ?d (l, i))"
  proof (cases "l = 0")
    case False
    with ok show ?thesis
      by (auto simp: tree_nodes_level_nodes node_ok_def exact_def covered_def)
  next
    case True
    then have old: "tree_nodes d (0, i) = exact L 0 i" using ok by (simp add: node_ok_def)
    consider "i < 0" | "0 \<le> i" "i < int (length L)" | "int (length L) \<le> i" by linarith
    then show ?thesis
    proof cases
      case 2
      then have "exact (L @ M) 0 i = exact L 0 i" by (intro exact_grow) (simp_all add: covered_def)
      with 2 True old show ?thesis by (simp add: tree_nodes_level_nodes)
    qed (use True old in \<open>simp_all add: tree_nodes_level_nodes exact_def covered_def\<close>)
  qed
qed

lemma mid_end:
  "mid L L' 64 d \<Longrightarrow> node_ok L' l i (tree_nodes d (l, i))"
proof (cases "l < 64")
  case False
  assume m: "mid L L' 64 d"
  have "node_ok L l i (tree_nodes d (l, i))"
    using m [unfolded mid_def, THEN spec, THEN spec, of l i] False by simp
  with False show ?thesis by (auto simp: node_ok_def exact_def covered_def)
qed (simp add: mid_def node_ok_def)

text \<open>
  The common end of both append operations: with the new rows and their leaves stored, the
  recomputation succeeds and re-establishes the invariant.
\<close>

lemma recomputeInterior_run:
  assumes inv: "log_inv d" and d: "no_faults d" and ne: "fs \<noteq> []"
    and idx: "map le_Index fs = [int (length (log_entries d))..int (length (log_entries d)) + int (length fs) - 1]"
  defines "L' \<equiv> leaves d @ map (\<lambda>e. LeafHash (le_EntryData e)) fs" and "n \<equiv> int (length (log_entries d))"
  defines "d1 \<equiv> d\<lparr>log_entries := log_entries d @ fs\<rparr>"
  shows "\<exists>d'. recomputeInterior n (n + int (length fs)) (upsert_nodes (level_nodes L' 0 [n..n + int (length fs) - 1]) d1) = (Inr (), d')
     \<and> nodes_only d1 d' \<and> no_faults d' \<and> log_inv d'"
proof -
  let ?M = "map (\<lambda>e. LeafHash (le_EntryData e)) fs"
  let ?d = "upsert_nodes (level_nodes L' 0 [n..n + int (length fs) - 1]) d1"
  have len: "int (length L') = n + int (length fs)" by (simp add: L'_def n_def)
  have nf: "no_faults ?d" using d by (simp add: d1_def)
  have "mid (leaves d) L' (int (Suc 0)) ?d"
    using mid_start [OF inv refl, of ?M "log_entries d @ fs"] len by (simp add: L'_def n_def d1_def)
  from recomputeFrom_run [OF this [unfolded L'_def] _ _ nf [unfolded L'_def]] ne obtain d' where
    d': "recomputeInterior n (n + int (length fs)) ?d = (Inr (), d')" "mid (leaves d) L' 64 d'"
      "nodes_only ?d d'" "no_faults d'"
    by (auto simp: recomputeInterior_def n_def L'_def)
  then have only: "nodes_only d1 d'" using nodes_only_trans [OF nodes_only_upsert] by blast
  then have es: "log_entries d' = log_entries d @ fs" by (auto simp: nodes_only_def d1_def)
  have "leaves d' = L'" by (simp add: leaves_def es L'_def)
  moreover have "numbered (log_entries d')"
    using inv idx numbered_snoc by (simp add: es log_inv_def)
  ultimately have "log_inv d'" using mid_end [OF d'(2)] by (simp add: log_inv_def)
  with d' only show ?thesis by blast
qed

text \<open>A row as the store keeps it: with the creation time of the statement.\<close>

definition stamped :: "db \<Rightarrow> LogEntry \<Rightarrow> LogEntry" where
  "stamped d e = e\<lparr>le_CreatedAt := db_now d\<rparr>"

lemma stamped_simps [simp]:
  "le_Index (stamped d e) = le_Index e" "le_EntryData (stamped d e) = le_EntryData e"
  by (simp_all add: stamped_def)

lemma numbered_set: "numbered es \<Longrightarrow> r \<in> set es \<Longrightarrow> le_Index r < int (length es)"
proof -
  assume "numbered es" "r \<in> set es"
  then have "le_Index r \<in> set [0..int (length es) - 1]"
    unfolding numbered_def by (metis image_eqI set_map)
  then show ?thesis by simp
qed

lemma insert_fresh:
  "numbered (log_entries d) \<Longrightarrow> le_Index e = int (length (log_entries d)) \<Longrightarrow>
     insert_log_entry e d = Inr (d\<lparr>log_entries := log_entries d @ [stamped d e]\<rparr>)"
  using numbered_set by (fastforce simp: insert_log_entry_def stamped_def)

lemma AppendEntry_run:
  assumes "no_faults d" "numbered (log_entries d)" "le_Index e = int (length (log_entries d))"
  shows "AppendEntry e d = (Inr (), d\<lparr>log_entries := log_entries d @ [stamped d e]\<rparr>)"
  using assms by (simp add: AppendEntry_def wrap_Inr exec_run insert_fresh)

lemma insert_loop:
  assumes "no_faults d" "numbered (log_entries d)"
    "map le_Index es = [int (length (log_entries d))..int (length (log_entries d)) + int (length es) - 1]"
  shows "for_each (\<lambda>e. wrap msg (exec (insert_log_entry e))) es d =
     (Inr (), d\<lparr>log_entries := log_entries d @ map (stamped d) es\<rparr>)"
  using assms
proof (induction es arbitrary: d)
  case Nil
  show ?case by (simp add: io_return_run)
next
  case (Cons e es)
  let ?d = "d\<lparr>log_entries := log_entries d @ [stamped d e]\<rparr>"
  have upt: "le_Index e = int (length (log_entries d))"
    "map le_Index es = [int (length (log_entries d)) + 1..int (length (log_entries d)) + 1 + int (length es) - 1]"
    using Cons.prems(3) upto_rec1 [of "int (length (log_entries d))" "int (length (log_entries d)) + int (length (e # es)) - 1"]
    by simp_all
  have e: "wrap msg (exec (insert_log_entry e)) d = (Inr (), ?d)"
    using Cons.prems(1,2) upt(1) by (simp add: wrap_Inr exec_run insert_fresh)
  have "numbered (log_entries ?d)"
    using numbered_snoc [OF Cons.prems(2), of "[stamped d e]"] upt(1) by simp
  with Cons.IH [of ?d] Cons.prems(1) upt(2) have
    "for_each (\<lambda>e. wrap msg (exec (insert_log_entry e))) es ?d =
       (Inr (), ?d\<lparr>log_entries := log_entries ?d @ map (stamped ?d) es\<rparr>)"
    by (simp add: add.commute add.left_commute)
  moreover have "stamped ?d = stamped d" by (simp add: stamped_def fun_eq_iff)
  ultimately show ?case by (simp add: io_bind_Inr [of "wrap msg (exec (insert_log_entry e))", OF e])
qed

lemma AppendEntries_run:
  assumes "no_faults d" "numbered (log_entries d)"
    "map le_Index es = [int (length (log_entries d))..int (length (log_entries d)) + int (length es) - 1]"
  shows "AppendEntries es d = (Inr (), d\<lparr>log_entries := log_entries d @ map (stamped d) es\<rparr>)"
  using assms(1) unfolding AppendEntries_def
  by (simp add: run_simps insert_loop [OF assms])

lemma TreeSize_inv: "log_inv d \<Longrightarrow> no_faults d \<Longrightarrow> TreeSize d = (Inr (int (length (log_entries d))), d)"
  by (simp add: TreeSize_run numbered_size log_inv_def)

text \<open>The effect that the append operations have in common.\<close>

definition appended :: "LogEntry list \<Rightarrow> db \<Rightarrow> db \<Rightarrow> bool" where
  "appended es d d' \<longleftrightarrow> nodes_only (d\<lparr>log_entries := log_entries d @ map (stamped d) es\<rparr>) d'"

lemma AppendDirectEntry_run:
  assumes "log_inv d" "no_faults d"
  shows "\<exists>d'. AppendDirectEntry e d = (Inr (int (length (log_entries d))), d') \<and>
     appended [e\<lparr>le_Index := int (length (log_entries d))\<rparr>] d d' \<and> no_faults d' \<and> log_inv d'"
proof -
  let ?n = "int (length (log_entries d))"
  let ?e = "stamped d (e\<lparr>le_Index := ?n\<rparr>)" and ?L = "leaves d @ [LeafHash (le_EntryData e)]"
  let ?d1 = "d\<lparr>log_entries := log_entries d @ [?e]\<rparr>"
  have nf: "no_faults ?d1" using assms(2) by simp
  have num: "numbered (log_entries d)" using assms(1) by (simp add: log_inv_def)
  have h: "nodeval ?L 0 (length (log_entries d)) = LeafHash (le_EntryData e)"
    by (subst nodeval_leaf) (simp_all add: nth_append)
  have leaf: "upsert_node 0 ?n (LeafHash (le_EntryData e)) ?d1 = upsert_nodes (level_nodes ?L 0 [?n..?n]) ?d1"
    by (simp add: upsert_nodes_def level_nodes_def h)
  obtain d' where "recomputeInterior ?n (?n + 1) (upsert_node 0 ?n (LeafHash (le_EntryData e)) ?d1) = (Inr (), d')"
    "nodes_only ?d1 d'" "no_faults d'" "log_inv d'"
    using recomputeInterior_run [OF assms, of "[?e]"] by (auto simp: leaf)
  moreover from this(1) have "AppendDirectEntry e d = (Inr ?n, d')"
    unfolding AppendDirectEntry_def using assms nf
    by (simp add: run_simps numbered_size [OF num] AppendEntry_run [OF assms(2) num])
  ultimately show ?thesis by (auto simp: appended_def)
qed

text \<open>The rows that \<open>AppendCertificates\<close> builds.\<close>

definition new_rows :: "int \<Rightarrow> Certificate list \<Rightarrow> LogEntry list" where
  "new_rows n certs = map (\<lambda>(i, cert). (BuildEntry cert)\<lparr>le_Index := i\<rparr>) (indexed n certs)"

lemma length_indexed [simp]: "length (indexed n xs) = length xs"
  by (simp add: indexed_def)

lemma new_rows_simps:
  "length (new_rows n certs) = length certs"
  "map le_Index (new_rows n certs) = [n..n + int (length certs) - 1]"
  "map le_EntryData (new_rows n certs) = map (\<lambda>c. le_EntryData (BuildEntry c)) certs"
proof -
  show "length (new_rows n certs) = length certs" by (simp add: new_rows_def)
  have "map le_Index (new_rows n certs) = map fst (indexed n certs)"
    by (simp add: new_rows_def case_prod_unfold)
  then show "map le_Index (new_rows n certs) = [n..n + int (length certs) - 1]"
    by (simp add: indexed_def)
  have "map le_EntryData (new_rows n certs) = map (\<lambda>c. le_EntryData (BuildEntry c)) (map snd (indexed n certs))"
    by (simp add: new_rows_def case_prod_unfold)
  then show "map le_EntryData (new_rows n certs) = map (\<lambda>c. le_EntryData (BuildEntry c)) certs"
    by (simp add: indexed_def)
qed

text \<open>The leaf nodes stored for appended rows are the level-0 nodes of the longer list.\<close>

lemma leaf_nodes:
  assumes "map le_Index fs = [int (length L)..int (length L) + int (length fs) - 1]"
  shows "map (\<lambda>e. \<lparr>tn_Level = 0, tn_Index = le_Index e, tn_Hash = LeafHash (le_EntryData e)\<rparr>) fs =
    level_nodes (L @ map (\<lambda>e. LeafHash (le_EntryData e)) fs) 0 [int (length L)..int (length L) + int (length fs) - 1]"
  (is "_ = level_nodes ?L 0 ?is")
proof (rule nth_equalityI)
  fix k assume "k < length (map (\<lambda>e. \<lparr>tn_Level = 0, tn_Index = le_Index e, tn_Hash = LeafHash (le_EntryData e)\<rparr>) fs)"
  then have k: "k < length fs" by simp
  then have idx: "le_Index (fs ! k) = int (length L + k)" and at: "?is ! k = int (length L + k)"
    using arg_cong [OF assms, of "\<lambda>xs. xs ! k"] nth_upto [of "int (length L)" k "int (length L) + int (length fs) - 1"] by simp_all
  have "nodeval ?L 0 (length L + k) = LeafHash (le_EntryData (fs ! k))"
    using k by (subst nodeval_leaf) (simp_all add: nth_append)
  moreover have "level_nodes ?L 0 ?is ! k = \<lparr>tn_Level = 0, tn_Index = ?is ! k, tn_Hash = nodeval ?L 0 (nat (?is ! k))\<rparr>"
    using k by (simp add: level_nodes_def)
  ultimately show "map (\<lambda>e. \<lparr>tn_Level = 0, tn_Index = le_Index e, tn_Hash = LeafHash (le_EntryData e)\<rparr>) fs ! k =
      level_nodes ?L 0 ?is ! k"
    unfolding at nat_int using k idx by simp
qed (simp add: level_nodes_def)

lemma AppendCertificates_run:
  assumes "log_inv d" "no_faults d" "certs \<noteq> []"
  defines "n \<equiv> int (length (log_entries d))"
  shows "\<exists>d'. AppendCertificates certs d = (Inr (int (length certs), n + int (length certs)), d') \<and>
     appended (new_rows n certs) d d' \<and> no_faults d' \<and> log_inv d'"
proof -
  let ?es = "new_rows n certs"
  let ?d1 = "d\<lparr>log_entries := log_entries d @ map (stamped d) ?es\<rparr>"
  let ?ns = "map (\<lambda>e. \<lparr>tn_Level = 0, tn_Index = le_Index e, tn_Hash = LeafHash (le_EntryData e)\<rparr>) ?es"
  have num: "numbered (log_entries d)" using assms(1) by (simp add: log_inv_def)
  have nf: "no_faults ?d1" using assms(2) by simp
  have len: "length ?es = length certs" and idx: "map le_Index ?es = [n..n + int (length ?es) - 1]"
    by (simp_all add: new_rows_simps)
  have idx': "map le_Index (map (stamped d) ?es) = [n..n + int (length certs) - 1]"
    using idx by (simp add: comp_def len)
  have ns: "?ns = level_nodes (leaves d @ map (\<lambda>e. LeafHash (le_EntryData e)) ?es) 0 [n..n + int (length certs) - 1]"
    using leaf_nodes [of ?es "leaves d"] idx len by (simp add: n_def new_rows_simps)
  have "?es \<noteq> []" using assms(3) len by auto
  then obtain d' where "recomputeInterior n (n + int (length certs)) (upsert_nodes ?ns ?d1) = (Inr (), d')"
    "nodes_only ?d1 d'" "no_faults d'" "log_inv d'"
    using recomputeInterior_run [OF assms(1,2), of "map (stamped d) ?es"] idx'
    by (auto simp: n_def ns [unfolded n_def] new_rows_simps comp_def)
  moreover from this(1) have "AppendCertificates certs d = (Inr (int (length certs), n + int (length certs)), d')"
    unfolding AppendCertificates_def using assms(2,3) nf idx
    by (simp add: run_simps numbered_size [OF num] AppendEntries_run [OF assms(2) num] n_def Let_def new_rows_def [symmetric])
  ultimately show ?thesis by (auto simp: appended_def)
qed

lemma AppendCertificates_empty:
  "log_inv d \<Longrightarrow> no_faults d \<Longrightarrow> AppendCertificates [] d = (Inr (0, int (length (log_entries d))), d)"
  by (simp add: AppendCertificates_def io_bind_Inr [OF TreeSize_inv] io_return_run)

text \<open>\<open>Initialize\<close> stores entry 0 and its leaf, once.\<close>

definition null_entry :: LogEntry where
  "null_entry = log_entry 0 NullEntryBytes [] '''' ''''"

lemma single_leaf_inv:
  assumes "log_inv d" "log_entries d = []" "le_Index e = 0"
  shows "log_inv (upsert_node 0 0 (LeafHash (le_EntryData e)) (d\<lparr>log_entries := [e]\<rparr>))"
proof -
  have none: "tree_nodes d (l, i) = None" for l i
  proof -
    have "node_ok [] l i (tree_nodes d (l, i))" using assms(1,2) by (simp add: log_inv_def leaves_def)
    then show ?thesis by (auto simp: node_ok_def exact_def covered_def mult_less_0_iff)
  qed
  have "nodeval [LeafHash (le_EntryData e)] 0 0 = LeafHash (le_EntryData e)" by (simp add: nodeval_leaf)
  moreover have "covered [h] 0 i \<longleftrightarrow> i = 0" for h i by (auto simp: covered_def)
  ultimately show ?thesis
    using assms(3) by (auto simp: log_inv_def numbered_def node_ok_def exact_def leaves_def upsert_node_def none)
qed

lemma Initialize_run:
  assumes "log_inv d" "no_faults d"
  shows "\<exists>d'. Initialize d = (Inr (), d') \<and> no_faults d' \<and> log_inv d' \<and>
     (if log_entries d = [] then appended [null_entry] d d' else d' = d)"
proof (cases "log_entries d = []")
  case True
  let ?d1 = "d\<lparr>log_entries := [stamped d null_entry]\<rparr>"
  let ?d2 = "upsert_node 0 0 (LeafHash NullEntryBytes) ?d1"
  have nf: "no_faults ?d1" using assms(2) by simp
  have num: "numbered (log_entries d)" using assms(1) by (simp add: log_inv_def)
  have e: "le_Index null_entry = 0" "le_EntryData null_entry = NullEntryBytes"
    by (simp_all add: null_entry_def log_entry_def)
  have "Initialize d = (Inr (), ?d2)"
    unfolding Initialize_def null_entry_def [symmetric] using assms(2) nf True e
    by (simp add: run_simps max_plus_1_def AppendEntry_run [OF assms(2) num])
  moreover have "log_inv ?d2"
    using single_leaf_inv [OF assms(1) True, of "stamped d null_entry"] e by simp
  moreover have "appended [null_entry] d ?d2"
    using nodes_only_node [of ?d1] True by (simp add: appended_def)
  ultimately show ?thesis using nf True by (intro exI [of _ ?d2]) simp
next
  case False
  then have "Initialize d = (Inr (), d)"
    unfolding Initialize_def using assms
    by (simp add: run_simps numbered_size log_inv_def)
  with False assms show ?thesis by simp
qed

section \<open>The root\<close>

lemma halvings_bound: "1 \<le> n \<Longrightarrow> n \<le> 2 ^ halvings n"
proof (induction n rule: halvings.induct)
  case (1 n)
  show ?case
  proof (cases "n > 1")
    case True
    with 1 have "(n + 1) div 2 \<le> 2 ^ halvings ((n + 1) div 2)" by simp
    then have "n \<le> 2 * 2 ^ halvings ((n + 1) div 2)" by linarith
    with True show ?thesis by (subst halvings.simps) simp
  next
    case False
    with "1.prems" show ?thesis by (subst halvings.simps) simp
  qed
qed

lemma leaf_stored:
  "log_inv d \<Longrightarrow> k < length (leaves d) \<Longrightarrow> tree_nodes d (0, int k) = Some (leaves d ! k)"
proof -
  assume inv: "log_inv d" and k: "k < length (leaves d)"
  have "node_ok (leaves d) 0 (int k) (tree_nodes d (0, int k))" using inv by (simp add: log_inv_def)
  then show ?thesis
    using exact_Some [of 0 k "leaves d"] k nodeval_leaf [OF k] by (simp add: node_ok_def)
qed

lemma computeMTH_run:
  assumes "log_inv d" "no_faults d" "s + n \<le> length (leaves d)"
  shows "computeMTH (int s) n d = (Inr (mth (take n (drop s (leaves d)))), d)"
  using assms(3)
proof (induction n arbitrary: s rule: less_induct)
  case (less n)
  consider "n = 0" | "n = 1" | "2 \<le> n" by linarith
  then show ?case
  proof cases
    case 2
    then have "tree_nodes d (0, int s) = Some (leaves d ! s)"
      using leaf_stored [OF assms(1), of s] less.prems by simp
    with 2 less.prems assms(2) show ?thesis
      by (subst computeMTH.simps) (simp add: GetTreeNode_run take_Suc_conv_app_nth [of 0] hd_drop_conv_nth)
  next
    case 3
    let ?k = "split n" and ?S = "take n (drop s (leaves d))"
    have k: "0 < ?k" "?k < n" using split_less [OF 3] by auto
    have l: "computeMTH (int s) ?k d = (Inr (mth (take ?k ?S)), d)"
      using less.IH [OF k(2), of s] less.prems k by (simp add: min_def)
    have "computeMTH (int (s + ?k)) (n - ?k) d = (Inr (mth (drop ?k ?S)), d)"
      using less.IH [of "n - ?k" "s + ?k"] less.prems k by (simp add: drop_take add.commute)
    moreover have "length ?S = n" using less.prems by simp
    then have "mth ?S = InteriorHash (mth (take ?k ?S)) (mth (drop ?k ?S))"
      using mth_split [of ?S] 3 by (simp only: simp_thms)
    ultimately show ?thesis
      using l 3 doubled_bounds [OF 3] by (subst computeMTH.simps) (simp add: Let_def)
  qed (subst computeMTH.simps, simp)
qed

lemma computeRootHash_run:
  assumes "log_inv d" "no_faults d"
  shows "computeRootHash (int (length (log_entries d))) d = (Inr (mth (leaves d)), d)"
proof -
  let ?L = "leaves d" and ?n = "length (log_entries d)"
  consider "?n = 0" | "?n = 1" | "2 \<le> ?n" by linarith
  then show ?thesis
  proof cases
    case 1
    then show ?thesis by (simp add: computeRootHash_def leaves_def)
  next
    case 2
    then obtain e where e: "log_entries d = [e]" by (auto simp: length_Suc_conv)
    with leaf_stored [OF assms(1), of 0] assms(2) show ?thesis
      by (simp add: computeRootHash_def GetTreeNode_run leaves_def)
  next
    case 3
    let ?h = "halvings (int ?n)"
    have "int ?n \<le> 2 ^ ?h" using halvings_bound [of "int ?n"] 3 by simp
    then have "?n \<le> 2 ^ ?h" by (metis of_nat_le_iff of_nat_numeral of_nat_power)
    then have root: "nodeval ?L ?h 0 = mth ?L" by (simp add: nodeval_def)
    have "node_ok ?L (int ?h) 0 (tree_nodes d (int ?h, 0))" using assms(1) by (simp add: log_inv_def)
    then have "tree_nodes d (int ?h, 0) = exact ?L (int ?h) 0" using 3 by (simp add: node_ok_def)
    then have at: "tree_nodes d (int ?h, 0) = (if ?h < 64 then Some (mth ?L) else None)"
      using 3 root by (auto simp: exact_def covered_def)
    show ?thesis
      using 3 at assms computeMTH_run [OF assms, of 0 ?n]
      by (auto simp: computeRootHash_def GetTreeNode_run)
  qed
qed

text \<open>The root of a list of entries: by \<open>MTH_mth\<close> the value of \<open>merkle.MTH\<close>.\<close>

definition root_of :: "bytes list \<Rightarrow> hash" where
  "root_of es = mth (map LeafHash es)"

lemma leaves_entries: "mth (leaves d) = root_of (entries d)"
  by (simp add: root_of_def leaves_def entries_def comp_def)

text \<open>What a checkpoint row claims about the entries: its root is the Merkle Tree Hash of a prefix.\<close>

definition cp_true :: "bytes list \<Rightarrow> Checkpoint \<Rightarrow> bool" where
  "cp_true es cp \<longleftrightarrow> 0 < cp_TreeSize cp \<and> cp_TreeSize cp \<le> int (length es) \<and>
     cp_RootHash cp = hash_bytes (root_of (take (nat (cp_TreeSize cp)) es))"

lemma CreateCheckpoint_run:
  assumes "log_inv d" "no_faults d" "log_entries d \<noteq> []"
    and "SignCheckpoint cr cs (int (length (log_entries d))) (root_of (entries d)) = Inr (nt, sg)"
  shows "\<exists>cp. CreateCheckpoint cr cs d = (Inr cp, d\<lparr>checkpoints := checkpoints d @ [cp], checkpoints_seq := checkpoints_seq d + 1\<rparr>) \<and>
     cp_TreeSize cp = int (length (log_entries d)) \<and> cp_true (entries d) cp \<and>
     cp_Body cp = nt \<and> cp_Signature cp = sg \<and> cp_ID cp = checkpoints_seq d + 1"
proof -
  have num: "numbered (log_entries d)" using assms(1) by (simp add: log_inv_def)
  show ?thesis
    unfolding CreateCheckpoint_def using assms computeRootHash_run [OF assms(1,2)]
    by (simp add: run_simps numbered_size [OF num] leaves_entries SaveCheckpoint_def Let_def cp_true_def Suc_le_eq)
      (simp add: entries_def)
qed

end
