(* ===== verification/IssuancelogSafety.thy ===== *)
theory IssuancelogSafety
  imports IssuancelogTree
begin

text \<open>
  Runs of the issuance log: a step relation over its operations, what every reachable
  database satisfies, the node store contract of the Merkle package discharged for the
  database, and what a failure in the middle of an append does.
\<close>

section \<open>Append-only logs\<close>

text \<open>
  The contract of a log whose content only grows and whose claims about it stay true. It is
  interpreted below on the issuance log with its checkpoints.
\<close>

locale append_log =
  fixes step :: "'s \<Rightarrow> 's \<Rightarrow> bool"
    and inv :: "'s \<Rightarrow> bool"
    and content :: "'s \<Rightarrow> 'e list"
    and claims :: "'s \<Rightarrow> 'c set"
    and holds :: "'e list \<Rightarrow> 'c \<Rightarrow> bool"
  assumes step_inv: "inv s \<Longrightarrow> step s t \<Longrightarrow> inv t"
    and step_extends: "inv s \<Longrightarrow> step s t \<Longrightarrow> \<exists>new. content t = content s @ new"
    and step_claims: "inv s \<Longrightarrow> step s t \<Longrightarrow> c \<in> claims t \<Longrightarrow> c \<in> claims s \<or> holds (content t) c"
    and holds_mono: "holds es c \<Longrightarrow> holds (es @ new) c"
begin

lemma run_inv: "step\<^sup>*\<^sup>* s t \<Longrightarrow> inv s \<Longrightarrow> inv t"
  by (induction rule: rtranclp_induct) (auto intro: step_inv)

lemma run_extends: "step\<^sup>*\<^sup>* s t \<Longrightarrow> inv s \<Longrightarrow> \<exists>new. content t = content s @ new"
proof (induction rule: rtranclp_induct)
  case (step t u)
  then obtain new where "content t = content s @ new" by blast
  moreover obtain new' where "content u = content t @ new'"
    using step_extends [OF run_inv [OF step.hyps(1) step.prems] step.hyps(2)] by blast
  ultimately show ?case by simp
qed simp

lemma run_claims:
  assumes "step\<^sup>*\<^sup>* s t" "inv s" "\<forall>c\<in>claims s. holds (content s) c"
  shows "\<forall>c\<in>claims t. holds (content t) c"
  using assms
proof (induction rule: rtranclp_induct)
  case (step t u)
  have inv: "inv t" using run_inv step by blast
  obtain new where new: "content u = content t @ new" using step_extends [OF inv step.hyps(2)] by blast
  show ?case
  proof
    fix c assume "c \<in> claims u"
    then consider "c \<in> claims t" | "holds (content u) c" using step_claims [OF inv step.hyps(2)] by blast
    then show "holds (content u) c"
      using step.IH [OF step.prems] holds_mono new by cases auto
  qed
qed simp

end

section \<open>Steps\<close>

text \<open>
  The steps of a log that works on a responsive database. \<open>other\<close> stands for every operation
  of the other tables: it leaves the entries and nodes alone and adds no checkpoint.
\<close>

definition log_frame :: "db \<Rightarrow> db \<Rightarrow> bool" where
  "log_frame d d' \<longleftrightarrow> log_entries d' = log_entries d \<and> tree_nodes d' = tree_nodes d \<and>
     set (checkpoints d') \<subseteq> set (checkpoints d) \<and> no_faults d'"

inductive log_step :: "crypto \<Rightarrow> Cosigner \<Rightarrow> db \<Rightarrow> db \<Rightarrow> bool" for cr cs where
  init: "Initialize d = (r, d') \<Longrightarrow> log_step cr cs d d'"
| direct: "AppendDirectEntry e d = (r, d') \<Longrightarrow> log_step cr cs d d'"
| certificates: "AppendCertificates certs d = (r, d') \<Longrightarrow> log_step cr cs d d'"
| checkpoint: "CreateCheckpoint cr cs d = (r, d') \<Longrightarrow> log_step cr cs d d'"
| prune: "PruneOldCheckpoints olderThan keepRecent d = (r, d') \<Longrightarrow> log_step cr cs d d'"
| other: "log_frame d d' \<Longrightarrow> log_step cr cs d d'"

definition log_ready :: "db \<Rightarrow> bool" where
  "log_ready d \<longleftrightarrow> log_inv d \<and> no_faults d"

lemma log_inv_cong:
  "log_entries d' = log_entries d \<Longrightarrow> tree_nodes d' = tree_nodes d \<Longrightarrow> log_inv d' = log_inv d"
  by (simp add: log_inv_def leaves_def)

lemma entries_cong: "log_entries d' = log_entries d \<Longrightarrow> entries d' = entries d"
  by (simp add: entries_def)

lemma log_frame_refl: "no_faults d \<Longrightarrow> log_frame d d"
  by (simp add: log_frame_def)

lemma frame_ready: "log_ready d \<Longrightarrow> log_frame d d' \<Longrightarrow> log_ready d' \<and> entries d' = entries d"
  using log_inv_cong [of d' d] entries_cong [of d' d] by (simp add: log_ready_def log_frame_def)

lemma prune_frame:
  "no_faults d \<Longrightarrow> PruneOldCheckpoints olderThan keepRecent d = (r, d') \<Longrightarrow> log_frame d d'"
  by (auto simp: PruneOldCheckpoints_def Let_def wrap_def stmt_run log_frame_def split: if_splits prod.splits sum.splits)

lemma appended_entries:
  "appended es d d' \<Longrightarrow> entries d' = entries d @ map le_EntryData es \<and> checkpoints d' = checkpoints d \<and>
     checkpoints_seq d' = checkpoints_seq d"
  by (auto simp: appended_def nodes_only_def entries_def)

text \<open>\<open>CreateCheckpoint\<close> either adds one true checkpoint or fails and changes nothing.\<close>

lemma CreateCheckpoint_cases:
  assumes "log_ready d" "CreateCheckpoint cr cs d = (r, d')"
  obtains e where "r = Inl e" "d' = d"
  | cp where "r = Inr cp" "d' = d\<lparr>checkpoints := checkpoints d @ [cp], checkpoints_seq := checkpoints_seq d + 1\<rparr>"
      "cp_true (entries d) cp" "cp_TreeSize cp = int (length (entries d))"
proof -
  have inv: "log_inv d" "no_faults d" using assms(1) by (simp_all add: log_ready_def)
  show ?thesis
  proof (cases "log_entries d = []")
    case True
    with assms(2) inv have "\<exists>e. r = Inl e \<and> d' = d"
      by (auto simp: CreateCheckpoint_def run_simps max_plus_1_def)
    then show ?thesis using that(1) by blast
  next
    case ne: False
    show ?thesis
    proof (cases "SignCheckpoint cr cs (int (length (log_entries d))) (root_of (entries d))")
      case (Inl e)
      have "numbered (log_entries d)" using inv by (simp add: log_inv_def)
      with assms(2) inv ne Inl computeRootHash_run [OF inv] have "\<exists>e. r = Inl e \<and> d' = d"
        by (auto simp: CreateCheckpoint_def run_simps numbered_size leaves_entries)
      then show ?thesis using that(1) by blast
    next
      case (Inr ns)
      then obtain nt sg where "SignCheckpoint cr cs (int (length (log_entries d))) (root_of (entries d)) = Inr (nt, sg)"
        by (cases ns) simp
      from CreateCheckpoint_run [OF inv ne this] assms(2) that(2) show ?thesis
        by (auto simp: entries_def)
    qed
  qed
qed

text \<open>All that one step can do.\<close>

lemma log_step_cases:
  assumes "log_ready d" "log_step cr cs d d'"
  obtains (grow) es where "log_ready d'" "entries d' = entries d @ es" "set (checkpoints d') \<subseteq> set (checkpoints d)"
  | (claim) cp where "log_ready d'" "entries d' = entries d" "set (checkpoints d') = insert cp (set (checkpoints d))"
      "cp_true (entries d) cp"
  using assms(2)
proof (cases rule: log_step.cases)
  case (init r)
  with Initialize_run [of d] assms(1) have "log_ready d' \<and> (\<exists>es. entries d' = entries d @ es) \<and> checkpoints d' = checkpoints d"
    by (auto simp: log_ready_def dest!: appended_entries split: if_splits)
  with grow show ?thesis by auto
next
  case (direct e r)
  with AppendDirectEntry_run [of d e] assms(1) have "log_ready d' \<and> (\<exists>es. entries d' = entries d @ es) \<and> checkpoints d' = checkpoints d"
    by (auto simp: log_ready_def dest!: appended_entries)
  with grow show ?thesis by auto
next
  case (certificates certs r)
  have "log_ready d' \<and> (\<exists>es. entries d' = entries d @ es) \<and> checkpoints d' = checkpoints d"
  proof (cases "certs = []")
    case True
    with certificates AppendCertificates_empty [of d] assms(1) show ?thesis by (simp add: log_ready_def)
  next
    case False
    with certificates AppendCertificates_run [of d certs] assms(1) show ?thesis
      by (auto simp: log_ready_def dest!: appended_entries)
  qed
  with grow show ?thesis by auto
next
  case (checkpoint r)
  from CreateCheckpoint_cases [OF assms(1) this] show ?thesis
  proof cases
    case (2 cp)
    moreover from this have "log_ready d'" using assms(1) by (simp add: log_ready_def log_inv_def leaves_def)
    ultimately show ?thesis using claim [of cp] by (simp add: entries_def)
  qed (use grow [of "[]"] assms(1) in simp)
next
  case (prune olderThan keepRecent r)
  with prune_frame assms(1) have "log_frame d d'" by (simp add: log_ready_def)
  with frame_ready [OF assms(1)] grow [of "[]"] show ?thesis by (simp add: log_frame_def)
next
  case other
  with frame_ready [OF assms(1)] grow [of "[]"] show ?thesis by (simp add: log_frame_def)
qed

lemma cp_true_mono: "cp_true es cp \<Longrightarrow> cp_true (es @ new) cp"
  by (auto simp: cp_true_def nat_le_iff)

interpretation issuance: append_log "log_step cr cs" log_ready entries "\<lambda>d. set (checkpoints d)" cp_true
  for cr cs
proof unfold_locales
  fix d d' assume d: "log_ready d" and s: "log_step cr cs d d'"
  from d s show "log_ready d'" by (cases rule: log_step_cases) auto
  from d s show "\<exists>new. entries d' = entries d @ new" by (cases rule: log_step_cases) auto
  fix cp assume "cp \<in> set (checkpoints d')"
  with d s show "cp \<in> set (checkpoints d) \<or> cp_true (entries d') cp" by (cases rule: log_step_cases) auto
qed (rule cp_true_mono)

lemma empty_ready: "log_ready empty_db"
  using empty_inv by (simp add: log_ready_def no_faults_def empty_db_def)

lemma reachable_ready: "(log_step cr cs)\<^sup>*\<^sup>* empty_db d \<Longrightarrow> log_ready d"
  using issuance.run_inv empty_ready by blast

lemma reachable_claims:
  "(log_step cr cs)\<^sup>*\<^sup>* empty_db d \<Longrightarrow> cp \<in> set (checkpoints d) \<Longrightarrow> cp_true (entries d) cp"
  using issuance.run_claims [of cr cs empty_db d] empty_ready by (simp add: empty_db_def)

lemma cp_true_MTH:
  "cp_true es cp \<longleftrightarrow> 0 < cp_TreeSize cp \<and> cp_TreeSize cp \<le> int (length es) \<and>
     (\<exists>r. MTH (take (nat (cp_TreeSize cp)) es) = Some r \<and> cp_RootHash cp = hash_bytes r)"
  by (simp add: cp_true_def MTH_mth root_of_def)

section \<open>The stored nodes as a node store\<close>

text \<open>
  The callback \<open>nodeAt\<close> that the proof endpoints, the bundle builder and the finalizer pass
  to the Merkle package: a node that cannot be read counts as the empty hash. The callback
  reads one state of the database; a failing driver makes all of its reads fail.
\<close>

definition node_at :: "db \<Rightarrow> int \<Rightarrow> int \<Rightarrow> hash" where
  "node_at d level idx = (case fst (GetTreeNode level idx d) of Inl _ \<Rightarrow> EmptyHash | Inr h \<Rightarrow> h)"

definition leaf_at :: "db \<Rightarrow> int \<Rightarrow> hash" where
  "leaf_at d = at (leaves d) EmptyHash"

definition log_size :: "db \<Rightarrow> int" where
  "log_size d = int (length (log_entries d))"

text \<open>Sizes are \<open>int64\<close>; the levels of the store stop at 63.\<close>

definition log_served :: "db \<Rightarrow> bool" where
  "log_served d \<longleftrightarrow> log_ready d \<and> log_size d < 2 ^ 63"

lemma node_at_exact: "no_faults d \<Longrightarrow> tree_nodes d (l, i) = Some h \<Longrightarrow> node_at d l i = h"
  by (simp add: node_at_def GetTreeNode_run)

lemma node_at_complete:
  assumes "log_served d" "0 \<le> i" "(i + 1) * 2 ^ l \<le> log_size d"
  shows "node_at d (int l) i = mth (rng (leaf_at d) (i * 2 ^ l) ((i + 1) * 2 ^ l))"
proof -
  let ?L = "leaves d" and ?p = "2 ^ l :: int"
  have p: "1 \<le> ?p" "?p \<le> (i + 1) * ?p" using assms(2) by (simp_all add: mult_le_cancel_right1)
  have pl: "?p \<le> log_size d" using order_trans [OF p(2) assms(3)] .
  then have "?p < 2 ^ 63" using assms(1) by (simp add: log_served_def)
  then have l: "l < 63" using power_less_imp_less_exp [of "2 :: int" l 63] by simp
  have "i * ?p < log_size d" using assms(3) p(1) unfolding distrib_right by linarith
  then have "int (nat i * 2 ^ l) < int (length ?L)" using assms(2) by (simp add: log_size_def)
  then have "nat i * 2 ^ l < length ?L" by (simp only: of_nat_less_iff)
  then have ex: "exact ?L (int l) i = Some (nodeval ?L l (nat i))"
    using exact_Some [of l "nat i" ?L] l assms(2) by simp
  have "l = 0" if "length ?L \<le> 1"
  proof (rule ccontr)
    assume "l \<noteq> 0"
    then have "2 \<le> ?p" using self_le_power [of 2 l] by simp
    with pl have "2 \<le> log_size d" by linarith
    with that show False by (simp add: log_size_def)
  qed
  moreover have "node_ok ?L (int l) i (tree_nodes d (int l, i))"
    using assms(1) by (simp add: log_served_def log_ready_def log_inv_def)
  ultimately have "tree_nodes d (int l, i) = Some (nodeval ?L l (nat i))"
    using ex by (auto simp: node_ok_def)
  then have "node_at d (int l) i = nodeval ?L l (nat i)"
    using assms(1) by (simp add: node_at_exact log_served_def log_ready_def)
  also have "\<dots> = mth (rng (leaf_at d) (i * ?p) ((i + 1) * ?p))"
    using assms(2,3) p rng_at_slice [of "i * ?p" "(i + 1) * ?p" ?L EmptyHash]
    by (simp add: nodeval_def leaf_at_def log_size_def nat_mult_distrib nat_power_eq algebra_simps)
  finally show ?thesis .
qed

interpretation log_nodes: node_store log_served node_at leaf_at log_size
  by unfold_locales (rule node_at_complete)

lemma leaf_at_root:
  "0 \<le> n \<Longrightarrow> n \<le> log_size d \<Longrightarrow> mth (rng (leaf_at d) 0 n) = root_of (take (nat n) (entries d))"
  by (simp add: leaf_at_def log_size_def rng_at_slice root_of_def entries_def leaves_def take_map comp_def)

lemma leaf_at_entry:
  "0 \<le> i \<Longrightarrow> i < log_size d \<Longrightarrow> leaf_at d i = LeafHash (entries d ! nat i)"
  by (simp add: leaf_at_def at_def log_size_def leaves_def entries_def nat_less_iff)

lemma served_path:
  assumes "log_served d" "0 \<le> i" "i < n" "n \<le> log_size d"
  shows "\<exists>pf. InclusionProofFromNodes i n (node_at d) = Some (Inr pf) \<and>
     RootFromInclusionProof i n (LeafHash (entries d ! nat i)) pf = Some (root_of (take (nat n) (entries d)))"
  using log_nodes.InclusionProofFromNodes_path [OF assms] RootFromInclusionProof_path [OF assms(2,3), of "leaf_at d"]
    assms leaf_at_root [of n d] leaf_at_entry [of i d] by simp

lemma served_subproof:
  assumes "log_served d" "0 < m" "m \<le> n" "n \<le> log_size d"
  shows "\<exists>pf. ConsistencyProofFromNodes m n (node_at d) = Some (Inr pf) \<and>
     VerifyConsistency m n pf (root_of (take (nat m) (entries d))) (root_of (take (nat n) (entries d))) = Some True"
proof (cases "m = n")
  case True
  with assms show ?thesis by (simp add: ConsistencyProofFromNodes_def VerifyConsistency_def)
next
  case False
  with assms log_nodes.ConsistencyProofFromNodes_subproof [of d m n] VerifyConsistency_subproof [of m n "leaf_at d"]
    leaf_at_root [of n d] leaf_at_root [of m d] show ?thesis by simp
qed

lemma served_root:
  "log_served d \<Longrightarrow> 0 < n \<Longrightarrow> n \<le> log_size d \<Longrightarrow> RootFromNodes n (node_at d) = Some (root_of (take (nat n) (entries d)))"
  using log_nodes.RootFromNodes_mth [of d n] leaf_at_root [of n d] by simp

section \<open>A failure in the middle of an append\<close>

text \<open>
  \<open>AppendDirectEntry\<close> is not a transaction: when the driver fails between the row and its
  leaf, the row stays. The two lemmas follow such a row and the next append.
\<close>

lemma stale_root:
  assumes "log_inv d" "length (log_entries d) = 2"
  shows "tree_nodes d (0, 2) = None" "tree_nodes d (2, 0) = Some (mth (leaves d))"
proof -
  have ok: "node_ok (leaves d) l i (tree_nodes d (l, i))" for l i using assms(1) by (simp add: log_inv_def)
  show "tree_nodes d (0, 2) = None"
    using ok [of 0 2] assms(2) by (simp add: node_ok_def exact_def covered_def)
  show "tree_nodes d (2, 0) = Some (mth (leaves d))"
    using ok [of 2 0] assms(2) by (simp add: node_ok_def exact_def covered_def nodeval_def)
qed

lemma torn_first:
  assumes "log_inv d" "no_faults d" "length (log_entries d) = 2"
    "AppendDirectEntry e (d\<lparr>db_sched := [False, False, True]\<rparr>) = (r, d1)"
  shows "(\<exists>err. r = Inl err) \<and> d1 = d\<lparr>log_entries := log_entries d @ [stamped d (e\<lparr>le_Index := 2\<rparr>)]\<rparr>"
proof -
  have num: "numbered (log_entries d)" using assms(1) by (simp add: log_inv_def)
  have sz: "max_plus_1 (map le_Index (log_entries d)) = 2" using numbered_size [OF num] assms(3) by simp
  have fresh: "le_Index x \<noteq> 2" if "x \<in> set (log_entries d)" for x
    using numbered_set [OF num that] assms(3) by simp
  have "d\<lparr>log_entries := es, db_sched := []\<rparr> = d\<lparr>log_entries := es\<rparr>" for es
    using assms(2) by (cases d) (simp add: no_faults_def)
  then show ?thesis
    using assms(4) fresh
    by (auto simp: AppendDirectEntry_def TreeSize_def AppendEntry_def SetTreeNode_def io_bind_def wrap_def
        query_def exec_def stmt_def insert_log_entry_def sz Let_def stamped_def)
qed

lemma torn_second:
  assumes "log_inv d" "no_faults d" "length (log_entries d) = 2" "le_Index row = 2"
    "AppendDirectEntry e (d\<lparr>log_entries := log_entries d @ [row]\<rparr>) = (r, d2)"
  shows "r = Inr 3 \<and> d2 = upsert_node 0 3 (LeafHash (le_EntryData e))
     (d\<lparr>log_entries := log_entries d @ [row, stamped d (e\<lparr>le_Index := 3\<rparr>)]\<rparr>)"
proof -
  let ?d1 = "d\<lparr>log_entries := log_entries d @ [row]\<rparr>"
  let ?d2 = "upsert_node 0 3 (LeafHash (le_EntryData e)) (d\<lparr>log_entries := log_entries d @ [row, stamped d (e\<lparr>le_Index := 3\<rparr>)]\<rparr>)"
  have num: "numbered (log_entries ?d1)"
    using numbered_snoc [of "log_entries d" "[row]"] assms(1,3,4) by (simp add: log_inv_def)
  have nf: "no_faults ?d1" "no_faults ?d2" using assms(2) by simp_all
  have "tree_nodes ?d2 (0, 2) = None" using stale_root [OF assms(1,3)] by (simp add: upsert_node_def)
  then have rec: "recomputeInterior 3 4 ?d2 = (Inr (), ?d2)"
    unfolding recomputeInterior_def using nf(2)
    by (subst recomputeFrom.simps) (simp add: Let_def drop_bit_eq_div GetTreeNode_run)
  have "AppendDirectEntry e ?d1 = (Inr 3, ?d2)"
    unfolding AppendDirectEntry_def using nf rec assms(2,3)
    by (simp add: run_simps numbered_size [OF num, simplified] AppendEntry_run [OF nf(1) num] stamped_def)
  with assms(5) show ?thesis by simp
qed

text \<open>The state after both appends, and that a checkpoint of it is the stale one.\<close>

lemma torn_state:
  assumes "(log_step cr cs)\<^sup>*\<^sup>* empty_db d" "length (entries d) = 2"
    and "AppendDirectEntry e (d\<lparr>db_sched := [False, False, True]\<rparr>) = (r1, d1)" "AppendDirectEntry e' d1 = (r2, d2)"
  shows "\<exists>err. r1 = Inl err" "r2 = Inr 3" "entries d2 = entries d @ [le_EntryData e, le_EntryData e']"
    "no_faults d2" "TreeSize d2 = (Inr 4, d2)" "computeRootHash 4 d2 = (Inr (root_of (entries d)), d2)"
proof -
  have inv: "log_inv d" "no_faults d" and len: "length (log_entries d) = 2"
    using reachable_ready [OF assms(1)] assms(2) by (simp_all add: log_ready_def entries_def)
  note first = torn_first [OF inv len assms(3)]
  have "le_Index (stamped d (e\<lparr>le_Index := 2\<rparr>)) = 2" by simp
  note second = torn_second [OF inv len this assms(4) [unfolded conjunct2 [OF first]]]
  let ?rows = "[stamped d (e\<lparr>le_Index := 2\<rparr>), stamped d (e'\<lparr>le_Index := 3\<rparr>)]"
  have es: "log_entries d2 = log_entries d @ ?rows" using second by (simp add: upsert_node_def)
  show "\<exists>err. r1 = Inl err" "r2 = Inr 3" using first second by blast+
  show "entries d2 = entries d @ [le_EntryData e, le_EntryData e']" by (simp add: entries_def es)
  show nf: "no_faults d2" using second inv by simp
  have "numbered (log_entries d2)"
    using numbered_snoc [of "log_entries d" ?rows] inv(1) len by (simp add: log_inv_def es)
  from numbered_size [OF this] show "TreeSize d2 = (Inr 4, d2)"
    using nf len by (simp add: TreeSize_run es)
  have "tree_nodes d2 (2, 0) = Some (root_of (entries d))"
    using second stale_root [OF inv(1) len] by (simp add: upsert_node_def leaves_entries)
  then show "computeRootHash 4 d2 = (Inr (root_of (entries d)), d2)"
    using nf by (simp add: computeRootHash_def GetTreeNode_run halvings.simps)
qed

lemma torn_checkpoint:
  assumes "(log_step cr cs)\<^sup>*\<^sup>* empty_db d" "length (entries d) = 2"
    and "AppendDirectEntry e (d\<lparr>db_sched := [False, False, True]\<rparr>) = (r1, d1)" "AppendDirectEntry e' d1 = (r2, d2)"
    and "CreateCheckpoint cr' cs' d2 = (Inr cp, d3)"
  shows "cp_TreeSize cp = 4 \<and> cp_RootHash cp = hash_bytes (root_of (entries d)) \<and> entries d3 = entries d2"
  using assms(5) torn_state(4-6) [OF assms(1-4)]
  by (auto simp: CreateCheckpoint_def io_bind_def wrap_def stmt_run SaveCheckpoint_def Let_def entries_def
      split: sum.splits prod.splits)

lemma torn_signed:
  assumes "(log_step cr cs)\<^sup>*\<^sup>* empty_db d" "length (entries d) = 2"
    and "AppendDirectEntry e (d\<lparr>db_sched := [False, False, True]\<rparr>) = (r1, d1)" "AppendDirectEntry e' d1 = (r2, d2)"
    and "\<exists>nt sg. SignCheckpoint cr' cs' 4 (root_of (entries d)) = Inr (nt, sg)"
  shows "\<exists>cp d3. CreateCheckpoint cr' cs' d2 = (Inr cp, d3)"
  using assms(5) torn_state(4-6) [OF assms(1-4)]
  by (auto simp: CreateCheckpoint_def io_bind_def wrap_def stmt_run SaveCheckpoint_def Let_def)

section \<open>Properties\<close>

text \<open>
  C2. Every checkpoint row of a log driven from the empty database by its operations, in any
  order and number, states the truth: its size is positive and within the log, and its root
  hash is the Merkle Tree Hash of the first \<open>tree_size\<close> entries.
\<close>

theorem checkpoints_true:
  assumes "(log_step cr cs)\<^sup>*\<^sup>* empty_db d" "cp \<in> set (checkpoints d)"
  shows "0 < cp_TreeSize cp \<and> cp_TreeSize cp \<le> int (length (entries d)) \<and>
    (\<exists>r. MTH (take (nat (cp_TreeSize cp)) (entries d)) = Some r \<and> cp_RootHash cp = hash_bytes r)"
  using reachable_claims [OF assms] by (simp only: cp_true_MTH)

text \<open>The example run of the witnesses: two entries and a checkpoint.\<close>

definition demo_entry :: LogEntry where
  "demo_entry = log_entry 1 [7] [] '''' ''''"

definition demo_log :: db where
  "demo_log = snd (AppendDirectEntry demo_entry (snd (Initialize empty_db)))"

definition demo_cp_db :: db where
  "demo_cp_db = snd (CreateCheckpoint toy_crypto toy_cosigner demo_log)"

lemma demo_log_run:
  "(log_step cr cs)\<^sup>*\<^sup>* empty_db demo_log" "entries demo_log = [NullEntryBytes, [7]]" "checkpoints demo_log = []"
proof -
  obtain d where d: "Initialize empty_db = (Inr (), d)" "log_ready d" "appended [null_entry] empty_db d"
    using Initialize_run [of empty_db] empty_ready by (auto simp: log_ready_def empty_db_def)
  obtain r d' where d': "AppendDirectEntry demo_entry d = (r, d')"
      "appended [demo_entry\<lparr>le_Index := int (length (log_entries d))\<rparr>] d d'"
    using AppendDirectEntry_run [of d demo_entry] d(2) by (auto simp: log_ready_def)
  have eq: "demo_log = d'" by (simp add: demo_log_def d d')
  have "log_step cr cs empty_db d" "log_step cr cs d d'"
    using d(1) d'(1) by (auto intro: log_step.init log_step.direct)
  then show "(log_step cr cs)\<^sup>*\<^sup>* empty_db demo_log" by (simp add: eq)
  show "entries demo_log = [NullEntryBytes, [7]]" "checkpoints demo_log = []"
    using appended_entries [OF d(3)] appended_entries [OF d'(2)]
    by (simp_all add: eq null_entry_def demo_entry_def log_entry_def entries_def empty_db_def)
qed

lemma demo_log_rows:
  "\<exists>t t'. log_entries demo_log = [null_entry\<lparr>le_CreatedAt := t\<rparr>, demo_entry\<lparr>le_Index := 1, le_CreatedAt := t'\<rparr>]"
  "revoked_indices demo_log = []" "assertion_bundles demo_log = []" "landmarks demo_log = []"
  "watcher_cursor demo_log = None" "db_scan demo_log = (\<lambda>is. is)"
proof -
  obtain d where d: "Initialize empty_db = (Inr (), d)" "log_ready d" "appended [null_entry] empty_db d"
    using Initialize_run [of empty_db] empty_ready by (auto simp: log_ready_def empty_db_def)
  then have e: "log_entries d = [stamped empty_db null_entry]" and s: "db_sched d = []"
    by (auto simp: appended_def nodes_only_def empty_db_def)
  obtain r d' where d': "AppendDirectEntry demo_entry d = (r, d')"
      "appended [demo_entry\<lparr>le_Index := int (length (log_entries d))\<rparr>] d d'"
    using AppendDirectEntry_run [of d demo_entry] d(2) by (auto simp: log_ready_def)
  have eq: "demo_log = d'" by (simp add: demo_log_def d d')
  show "\<exists>t t'. log_entries demo_log = [null_entry\<lparr>le_CreatedAt := t\<rparr>, demo_entry\<lparr>le_Index := 1, le_CreatedAt := t'\<rparr>]"
    using d'(2) e by (auto simp: eq appended_def nodes_only_def stamped_def)
  show "revoked_indices demo_log = []" "assertion_bundles demo_log = []" "landmarks demo_log = []"
    "watcher_cursor demo_log = None" "db_scan demo_log = (\<lambda>is. is)"
    using d'(2) d(3) by (auto simp: eq appended_def nodes_only_def empty_db_def)
qed

lemma toy_signs: "\<exists>nt sg. SignCheckpoint toy_crypto toy_cosigner n h = Inr (nt, sg)"
  by (simp add: SignCheckpoint_def Sign_def toy_crypto_def toy_cosigner_def Let_def)

lemma demo_cp_run:
  "(log_step toy_crypto toy_cosigner)\<^sup>*\<^sup>* demo_log demo_cp_db" "entries demo_cp_db = [NullEntryBytes, [7]]"
  "\<exists>cp. checkpoints demo_cp_db = [cp] \<and> cp_TreeSize cp = 2 \<and> cp_ID cp = checkpoints_seq demo_log + 1"
  "\<exists>cps n. demo_cp_db = demo_log\<lparr>checkpoints := cps, checkpoints_seq := n\<rparr>"
proof -
  have ready: "log_inv demo_log" "no_faults demo_log"
    using reachable_ready [OF demo_log_run(1)] by (simp_all add: log_ready_def)
  have len: "length (log_entries demo_log) = 2"
    using arg_cong [OF demo_log_run(2), of length] by (simp add: entries_def)
  then have ne: "log_entries demo_log \<noteq> []" by auto
  obtain nt sg where "SignCheckpoint toy_crypto toy_cosigner (int (length (log_entries demo_log))) (root_of (entries demo_log)) = Inr (nt, sg)"
    using toy_signs by blast
  from CreateCheckpoint_run [OF ready ne this] obtain cp d where
    c: "CreateCheckpoint toy_crypto toy_cosigner demo_log = (Inr cp, d)"
      "d = demo_log\<lparr>checkpoints := checkpoints demo_log @ [cp], checkpoints_seq := checkpoints_seq demo_log + 1\<rparr>"
      "cp_TreeSize cp = int (length (log_entries demo_log))" "cp_ID cp = checkpoints_seq demo_log + 1"
    by blast
  then have eq: "demo_cp_db = d" by (simp add: demo_cp_db_def)
  show "(log_step toy_crypto toy_cosigner)\<^sup>*\<^sup>* demo_log demo_cp_db"
    unfolding eq by (rule r_into_rtranclp) (rule log_step.checkpoint [OF c(1)])
  show "entries demo_cp_db = [NullEntryBytes, [7]]"
    using demo_log_run(2) by (simp add: eq c(2) entries_def)
  show "\<exists>cp. checkpoints demo_cp_db = [cp] \<and> cp_TreeSize cp = 2 \<and> cp_ID cp = checkpoints_seq demo_log + 1"
    using c(3,4) len demo_log_run(3) by (simp add: eq c(2))
  show "\<exists>cps n. demo_cp_db = demo_log\<lparr>checkpoints := cps, checkpoints_seq := n\<rparr>"
    using eq c(2) by blast
qed

theorem checkpoints_true_witness:
  "\<exists>cp r. checkpoints demo_cp_db = [cp] \<and> MTH [NullEntryBytes, [7]] = Some r \<and> cp_RootHash cp = hash_bytes r"
proof -
  obtain cp where cp: "checkpoints demo_cp_db = [cp]" "cp_TreeSize cp = 2" using demo_cp_run(3) by blast
  have "(log_step toy_crypto toy_cosigner)\<^sup>*\<^sup>* empty_db demo_cp_db"
    using rtranclp_trans [OF demo_log_run(1) demo_cp_run(1)] .
  from checkpoints_true [OF this, of cp] cp demo_cp_run(2) show ?thesis by simp
qed

text \<open>
  C4. The log is append-only: along any run the entries only grow, and every checkpoint that
  was ever stored, also one that has been pruned since, still names the Merkle Tree Hash of a
  prefix of the present entries.
\<close>

theorem log_append_only:
  assumes "(log_step cr cs)\<^sup>*\<^sup>* empty_db d" "(log_step cr cs)\<^sup>*\<^sup>* d d'"
  shows "(\<exists>new. entries d' = entries d @ new) \<and>
    (\<forall>cp\<in>set (checkpoints d). \<exists>r. MTH (take (nat (cp_TreeSize cp)) (entries d')) = Some r \<and> cp_RootHash cp = hash_bytes r)"
proof -
  obtain new where new: "entries d' = entries d @ new"
    using issuance.run_extends [OF assms(2) reachable_ready [OF assms(1)]] by blast
  moreover have "cp_true (entries d') cp" if "cp \<in> set (checkpoints d)" for cp
    using cp_true_mono [OF reachable_claims [OF assms(1) that]] new by simp
  ultimately show ?thesis by (auto simp: cp_true_MTH)
qed

theorem log_append_only_witness:
  "(\<exists>new. entries demo_cp_db = entries demo_log @ new) \<and> entries demo_log = [NullEntryBytes, [7]]"
  using log_append_only [OF demo_log_run(1) demo_cp_run(1)] demo_log_run(2) by simp

text \<open>
  C7. \<open>AppendCertificates\<close> on a reachable log succeeds, returns the number of certificates and
  the new size, and appends exactly the entries that \<open>BuildEntry\<close> makes of the certificates,
  in order; the root computed from the stored nodes is then the Merkle Tree Hash of all entries.
\<close>

theorem append_certificates_correct:
  assumes "(log_step cr cs)\<^sup>*\<^sup>* empty_db d"
  shows "\<exists>d' r. AppendCertificates certs d =
      (Inr (int (length certs), int (length (entries d)) + int (length certs)), d') \<and>
    entries d' = entries d @ map (\<lambda>c. le_EntryData (BuildEntry c)) certs \<and>
    MTH (entries d') = Some r \<and> computeRootHash (int (length (entries d'))) d' = (Inr r, d')"
proof -
  have inv: "log_inv d" "no_faults d" using reachable_ready [OF assms] by (simp_all add: log_ready_def)
  have "\<exists>d'. AppendCertificates certs d = (Inr (int (length certs), int (length (entries d)) + int (length certs)), d') \<and>
      entries d' = entries d @ map (\<lambda>c. le_EntryData (BuildEntry c)) certs \<and> log_inv d' \<and> no_faults d'"
  proof (cases "certs = []")
    case True
    with AppendCertificates_empty [OF inv] inv show ?thesis by (simp add: entries_def)
  next
    case False
    with AppendCertificates_run [OF inv] show ?thesis
      by (fastforce simp: entries_def new_rows_simps dest!: appended_entries)
  qed
  moreover have "computeRootHash (int (length (entries d'))) d' = (Inr (root_of (entries d')), d')"
    if "log_inv d'" "no_faults d'" for d'
    using computeRootHash_run [OF that] by (simp add: leaves_entries entries_def)
  ultimately show ?thesis by (fastforce simp: MTH_mth root_of_def)
qed

definition demo_cert :: Certificate where
  "demo_cert = \<lparr>ce_ID = ''a'', ce_SerialNumber = ''01'', ce_CertBlob = [1, 2], ce_ValidFrom = 0, ce_ValidTo = 0,
     ce_CreatedDate = 0, ce_IsRevoked = False, ce_RevokedDate = None, ce_RevokedReason = None, ce_IssuerID = ''ca'',
     ce_ThumbprintSHA256 = ''''\<rparr>"

theorem append_certificates_correct_witness:
  "\<exists>d'. AppendCertificates [demo_cert] demo_log = (Inr (1, 3), d') \<and>
     entries d' = [NullEntryBytes, [7], [1, 0, 2, 0, 0, 0, 1, 2]]"
proof -
  have "le_bytes 2 1 = [1, 0]" "le_bytes 4 2 = [2, 0, 0, 0]" by code_simp+
  then have "le_EntryData (BuildEntry demo_cert) = [1, 0, 2, 0, 0, 0, 1, 2]"
    by (simp add: BuildEntry_def demo_cert_def log_entry_def EntryTypeCertificate_def Let_def numeral_2_eq_2)
  with append_certificates_correct [OF demo_log_run(1), of "[demo_cert]"] show ?thesis
    by (auto simp: demo_log_run(2))
qed

text \<open>
  C1. Proofs served for a checkpoint verify against it: for every checkpoint of a reachable
  log and every index below its size, \<open>InclusionProofFromNodes\<close> over the stored nodes returns
  a proof with which \<open>RootFromInclusionProof\<close> leads from the hash of that entry to the root
  the checkpoint signs, also after the log has grown past the checkpoint.
\<close>

theorem served_inclusion_verifies:
  assumes "(log_step cr cs)\<^sup>*\<^sup>* empty_db d" "int (length (entries d)) < 2 ^ 63"
    and "cp \<in> set (checkpoints d)" "0 \<le> i" "i < cp_TreeSize cp"
  shows "\<exists>pf r. InclusionProofFromNodes i (cp_TreeSize cp) (node_at d) = Some (Inr pf) \<and>
    RootFromInclusionProof i (cp_TreeSize cp) (LeafHash (entries d ! nat i)) pf = Some r \<and> cp_RootHash cp = hash_bytes r"
proof -
  have "log_served d" "cp_true (entries d) cp"
    using reachable_ready [OF assms(1)] reachable_claims [OF assms(1,3)] assms(2)
    by (simp_all add: log_served_def log_size_def entries_def)
  with served_path [of d i "cp_TreeSize cp"] assms(4,5) show ?thesis
    by (auto simp: cp_true_def log_size_def entries_def)
qed

theorem served_inclusion_verifies_witness:
  "\<exists>cp pf r. checkpoints demo_cp_db = [cp] \<and> InclusionProofFromNodes 1 2 (node_at demo_cp_db) = Some (Inr pf) \<and>
     RootFromInclusionProof 1 2 (LeafHash [7]) pf = Some r \<and> cp_RootHash cp = hash_bytes r"
proof -
  obtain cp where cp: "checkpoints demo_cp_db = [cp]" "cp_TreeSize cp = 2" using demo_cp_run(3) by blast
  from served_inclusion_verifies [OF rtranclp_trans [OF demo_log_run(1) demo_cp_run(1)], of cp 1] cp show ?thesis
    by (simp add: demo_cp_run(2))
qed

text \<open>
  C3. Any two checkpoints of a reachable log are consistent and the log can show it: the proof
  that \<open>ConsistencyProofFromNodes\<close> computes from the stored nodes is accepted by
  \<open>VerifyConsistency\<close> for the two signed roots, and \<open>RootFromNodes\<close> recomputes these roots.
\<close>

theorem served_consistency_verifies:
  assumes "(log_step cr cs)\<^sup>*\<^sup>* empty_db d" "int (length (entries d)) < 2 ^ 63"
    and "old \<in> set (checkpoints d)" "new \<in> set (checkpoints d)" "cp_TreeSize old \<le> cp_TreeSize new"
  shows "\<exists>pf r r'. ConsistencyProofFromNodes (cp_TreeSize old) (cp_TreeSize new) (node_at d) = Some (Inr pf) \<and>
    VerifyConsistency (cp_TreeSize old) (cp_TreeSize new) pf r r' = Some True \<and>
    cp_RootHash old = hash_bytes r \<and> cp_RootHash new = hash_bytes r' \<and>
    RootFromNodes (cp_TreeSize old) (node_at d) = Some r \<and> RootFromNodes (cp_TreeSize new) (node_at d) = Some r'"
proof -
  have "log_served d" "cp_true (entries d) old" "cp_true (entries d) new"
    using reachable_ready [OF assms(1)] reachable_claims [OF assms(1)] assms(2-4)
    by (simp_all add: log_served_def log_size_def entries_def)
  with served_subproof [of d "cp_TreeSize old" "cp_TreeSize new"] served_root [of d] assms(5) show ?thesis
    by (auto simp: cp_true_def log_size_def entries_def)
qed

theorem served_consistency_verifies_witness:
  "\<exists>cp pf r. checkpoints demo_cp_db = [cp] \<and> ConsistencyProofFromNodes 2 2 (node_at demo_cp_db) = Some (Inr pf) \<and>
     VerifyConsistency 2 2 pf r r = Some True \<and> cp_RootHash cp = hash_bytes r"
proof -
  obtain cp where cp: "checkpoints demo_cp_db = [cp]" "cp_TreeSize cp = 2" using demo_cp_run(3) by blast
  from served_consistency_verifies [OF rtranclp_trans [OF demo_log_run(1) demo_cp_run(1)], of cp cp] cp show ?thesis
    by (auto simp: demo_cp_run(2))
qed

text \<open>
  C17. An append that the database interrupts between the row and its leaf leaves the log in a
  state from which the next append succeeds and the next checkpoint is wrong: with two entries
  present, the checkpoint of size four signs the root of the first two.
\<close>

theorem torn_append:
  assumes "(log_step cr cs)\<^sup>*\<^sup>* empty_db d" "length (entries d) = 2"
    and "AppendDirectEntry e (d\<lparr>db_sched := [False, False, True]\<rparr>) = (r1, d1)"
    and "AppendDirectEntry e' d1 = (r2, d2)" "CreateCheckpoint cr cs d2 = (Inr cp, d3)"
  shows "(\<exists>err. r1 = Inl err) \<and> r2 = Inr 3 \<and> entries d3 = entries d @ [le_EntryData e, le_EntryData e'] \<and>
    cp_TreeSize cp = 4 \<and> (\<exists>r. MTH (entries d) = Some r \<and> cp_RootHash cp = hash_bytes r)"
  using torn_state [OF assms(1-4)] torn_checkpoint [OF assms] by (simp add: MTH_mth root_of_def)

theorem torn_append_witness:
  "\<exists>d2 cp d3. AppendDirectEntry demo_entry (snd (AppendDirectEntry demo_entry (demo_log\<lparr>db_sched := [False, False, True]\<rparr>))) = (Inr 3, d2) \<and>
     CreateCheckpoint toy_crypto toy_cosigner d2 = (Inr cp, d3) \<and>
     cp_TreeSize cp = 4 \<and> (\<exists>r. MTH [NullEntryBytes, [7]] = Some r \<and> cp_RootHash cp = hash_bytes r)"
proof -
  obtain r1 d1 where a1: "AppendDirectEntry demo_entry (demo_log\<lparr>db_sched := [False, False, True]\<rparr>) = (r1, d1)" by fastforce
  obtain r2 d2 where a2: "AppendDirectEntry demo_entry d1 = (r2, d2)" by fastforce
  have len: "length (entries demo_log) = 2" by (simp add: demo_log_run(2))
  obtain cp d3 where c: "CreateCheckpoint toy_crypto toy_cosigner d2 = (Inr cp, d3)"
    using torn_signed [OF demo_log_run(1) len a1 a2 toy_signs] by blast
  from torn_append [OF demo_log_run(1) len a1 a2 c] a1 a2 c show ?thesis
    by (simp add: demo_log_run(2))
qed

end
