(* ===== verification/Batch.thy ===== *)
theory Batch
  imports IssuancelogSafety
begin

text \<open>
  \<open>src/internal/batch/\<close>: signing a range of the tree with all cosigners, building the
  \<open>MTCProof\<close> of a leaf of the range, and landmarks.
\<close>

section \<open>Operations\<close>

record Batcher =
  bt_cosigners :: "Cosigner list"
  bt_logID :: bytes

record BatchResult =
  br_Start :: int
  br_End :: int
  br_SubtreeHash :: hash
  br_Signatures :: "MTCSignature list"

text \<open>\<open>computeSubtreeHash\<close> of the batcher, on the length of the range as \<open>computeMTH\<close>.\<close>

function batchSubtreeHash :: "int \<Rightarrow> int \<Rightarrow> hash io" where
  "batchSubtreeHash start e d =
     (if e - start \<le> 0 then (Inl (Errorf ''empty range''), d)
      else if e - start = 1 then GetTreeNode 0 start d
      else let k = int (doubled 1 (nat (e - start))) in
        case batchSubtreeHash start (start + k) d of
          (Inl err, d1) \<Rightarrow> (Inl err, d1)
        | (Inr left, d1) \<Rightarrow>
          (case batchSubtreeHash (start + k) e d1 of
             (Inl err, d2) \<Rightarrow> (Inl err, d2)
           | (Inr right, d2) \<Rightarrow> (Inr (InteriorHash left right), d2)))"
  by pat_completeness auto
termination
proof (relation "measure (\<lambda>(start, e, _). nat (e - start))", goal_cases)
  case (2 start e d)
  then show ?case using doubled_less [of "nat (e - start)"] by (simp add: zless_nat_eq_int_zless)
next
  case (3 start e d)
  then show ?case using doubled_less [of "nat (e - start)"] by simp
qed simp

declare batchSubtreeHash.simps [simp del]

text \<open>The signatures of the cosigners that can sign; failures are logged and skipped.\<close>

definition collectSignatures :: "crypto \<Rightarrow> bytes \<Rightarrow> int \<Rightarrow> int \<Rightarrow> hash \<Rightarrow> Cosigner list \<Rightarrow> MTCSignature list" where
  "collectSignatures cr logID start e h cosigners =
     concat (map (\<lambda>c. case SignSubtreeMTC cr c logID start e h of Inl _ \<Rightarrow> [] | Inr sig \<Rightarrow> [sig]) cosigners)"

definition ProcessBatch :: "crypto \<Rightarrow> Batcher \<Rightarrow> int \<Rightarrow> BatchResult io" where
  "ProcessBatch cr b batchStart =
     io_bind (wrap ''batch: tree size: %w'' TreeSize) (\<lambda>treeSize.
     if batchStart \<ge> treeSize then (\<lambda>d. (Inl (Errorf ''batch: batchStart (%d) >= treeSize (%d)''), d))
     else
       io_bind (wrap ''batch: compute subtree hash: %w'' (batchSubtreeHash batchStart treeSize)) (\<lambda>h.
       let sigs = collectSignatures cr (bt_logID b) batchStart treeSize h (bt_cosigners b) in
       if length sigs = 0 \<and> length (bt_cosigners b) > 0
       then (\<lambda>d. (Inl (Errorf ''batch: all cosigners failed to sign''), d))
       else io_return \<lparr>br_Start = batchStart, br_End = treeSize, br_SubtreeHash = h, br_Signatures = sigs\<rparr>))"

text \<open>\<open>None\<close> is the panic that \<open>InclusionProofFromNodes\<close> may have; the range check excludes it.\<close>

definition BuildProof :: "int \<Rightarrow> BatchResult \<Rightarrow> db \<Rightarrow> (goerr + MTCProof) option" where
  "BuildProof leafIdx batch d =
     (if leafIdx < br_Start batch \<or> leafIdx \<ge> br_End batch then
        Some (Inl (Errorf ''batch: leaf %d not in batch [%d, %d)''))
      else case InclusionProofFromNodes leafIdx (br_End batch) (node_at d) of
        None \<Rightarrow> None
      | Some (Inl err) \<Rightarrow> Some (Inl (Wrap ''batch: inclusion proof: %w'' err))
      | Some (Inr proofHashes) \<Rightarrow>
          Some (Inr \<lparr>mp_Start = word_of_int (br_Start batch), mp_End = word_of_int (br_End batch),
                     mp_InclusionProof = map hash_bytes proofHashes, mp_Signatures = br_Signatures batch\<rparr>))"

text \<open>Landmarks: the map from tree size to root that verifiers of certificates without signatures use.\<close>

definition GetLandmarks :: "(int \<Rightarrow> hash option) io" where
  "GetLandmarks =
     io_bind (wrap ''landmark: list: %w'' ListLandmarks) (\<lambda>lms.
     io_return (foldl (\<lambda>m lm. m(lm_TreeSize lm \<mapsto> bytes_hash (lm_RootHash lm))) (\<lambda>_. None) lms))"

definition DesignateLandmark :: "Landmark io" where
  "DesignateLandmark =
     io_bind (wrap ''landmark: latest checkpoint: %w'' LatestCheckpoint) (\<lambda>cp.
     let lm = \<lparr>lm_ID = 0, lm_TreeSize = cp_TreeSize cp, lm_RootHash = cp_RootHash cp, lm_CheckpointID = cp_ID cp,
               lm_CreatedAt = 0\<rparr> in
     io_bind (wrap ''landmark: save: %w'' (SaveLandmark lm)) (\<lambda>_. io_return lm))"

section \<open>Subtrees at the right edge\<close>

text \<open>
  A range that ends where the tree ends and is aligned is a node of the tree, and the path of
  a leaf in the tree starts with its path in the range.
\<close>

lemma aligned_node:
  fixes n a k :: int
  assumes "2 ^ j dvd a" "0 < a" "a < n" "n - a \<le> 2 ^ j" "splitPoint n = Some k"
  shows "k \<le> a" "2 ^ j dvd a - k"
proof -
  note kb = splitPoint_Some [OF assms(5)]
  obtain i where k: "k = 2 ^ i" using splitPoint_pow2 [OF assms(5)] by blast
  have "2 ^ j \<le> a" using assms(1,2) by (rule zdvd_imp_le)
  then have "(2::int) ^ j < 2 ^ Suc i" using assms(3) kb unfolding k power_Suc by linarith
  then have "j < Suc i" by (rule power_less_imp_less_exp [rotated]) simp
  then have dk: "2 ^ j dvd k" unfolding k by (intro le_imp_power_dvd) simp
  then show d: "2 ^ j dvd a - k" using assms(1) by simp
  show "k \<le> a"
  proof (rule ccontr)
    assume "\<not> k \<le> a"
    then have "2 ^ j \<le> k - a" using dk assms(1) by (intro zdvd_imp_le) simp_all
    then show False using kb assms(4) by linarith
  qed
qed

lemma path_prefix:
  assumes "s \<le> a" "a \<le> i" "i < e" "2 ^ j dvd a - s" "e - a \<le> 2 ^ j"
  shows "\<exists>rest. path (nat (i - s)) (rng h s e) = path (nat (i - a)) (rng h a e) @ rest"
  using assms
proof (induction "nat (a - s)" arbitrary: s rule: less_induct)
  case less
  show ?case
  proof (cases "s = a")
    case False
    then have pos: "0 < a - s" "a - s < e - s" "e - s - (a - s) \<le> 2 ^ j" "2 \<le> e - s" using less.prems by simp_all
    then obtain k where k: "splitPoint (e - s) = Some k" using splitPoint_ex by blast
    note kb = splitPoint_Some [OF k] and node = aligned_node [OF less.prems(4) pos(1-3) k]
    have "path (nat (i - s)) (rng h s e) = path (nat (i - (s + k))) (rng h (s + k) e) @ [mth (rng h s (s + k))]"
      using path_rng_split [OF k, of i h] less.prems node(1) by simp
    moreover have "\<exists>rest. path (nat (i - (s + k))) (rng h (s + k) e) = path (nat (i - a)) (rng h a e) @ rest"
      using node kb less.prems pos by (intro less.hyps) (simp_all add: algebra_simps)
    ultimately show ?thesis by auto
  qed simp
qed

lemma RootFromInclusionProof_prefix:
  assumes "a \<le> i" "i < e"
  shows "RootFromInclusionProof (i - a) (e - a) (h i) (path (nat (i - a)) (rng h a e) @ rest) = Some (mth (rng h a e))"
proof -
  let ?L = "rng h a e" and ?m = "nat (i - a)"
  have "climb ?m (length ?L) (?L ! ?m) (path ?m ?L) = mth ?L"
    using assms by (intro climb_path) simp
  moreover have "?L ! ?m = h i" using assms by (simp add: nth_rng)
  ultimately show ?thesis
    using assms by (subst RootFromInclusionProof_climb) simp_all
qed

section \<open>The subtree hash\<close>

lemma leaf_at_stored:
  "log_ready d \<Longrightarrow> 0 \<le> i \<Longrightarrow> i < log_size d \<Longrightarrow> GetTreeNode 0 i d = (Inr (leaf_at d i), d)"
  using leaf_stored [of d "nat i"]
  by (simp add: log_ready_def GetTreeNode_run leaf_at_def at_def log_size_def nat_less_iff)

lemma batchSubtreeHash_run:
  assumes "log_ready d" "0 \<le> s" "s < e" "e \<le> log_size d"
  shows "batchSubtreeHash s e d = (Inr (mth (rng (leaf_at d) s e)), d)"
  using assms(2-)
proof (induction "nat (e - s)" arbitrary: s e rule: less_induct)
  case less
  show ?case
  proof (cases "e - s = 1")
    case True
    then have "rng (leaf_at d) s e = [leaf_at d s]" using rng_single [of "leaf_at d" s] by (simp add: algebra_simps)
    with True less.prems leaf_at_stored [OF assms(1), of s] show ?thesis
      by (subst batchSubtreeHash.simps) simp
  next
    case False
    then have n: "2 \<le> nat (e - s)" "2 \<le> e - s" using less.prems by simp_all
    obtain k where k: "splitPoint (e - s) = Some k" using splitPoint_ex [OF n(2)] by blast
    note kb = splitPoint_Some [OF k]
    have "doubled 1 (nat (e - s)) = nat k" using doubled_bounds [OF n(1)] splitPoint_eq [OF k] by simp
    then have dk: "int (doubled 1 (nat (e - s))) = k" using kb by simp
    have "batchSubtreeHash s (s + k) d = (Inr (mth (rng (leaf_at d) s (s + k))), d)"
      "batchSubtreeHash (s + k) e d = (Inr (mth (rng (leaf_at d) (s + k) e)), d)"
      using less.hyps [of "s + k" s] less.hyps [of e "s + k"] less.prems kb by simp_all
    with False n(2) dk show ?thesis
      by (subst batchSubtreeHash.simps) (simp add: Let_def mth_rng_split [OF k])
  qed
qed

lemma leaf_at_drop:
  "0 \<le> s \<Longrightarrow> s \<le> log_size d \<Longrightarrow> mth (rng (leaf_at d) s (log_size d)) = root_of (drop (nat s) (entries d))"
  by (simp add: leaf_at_def log_size_def rng_at_slice root_of_def entries_def leaves_def drop_map comp_def nat_diff_distrib)

lemma collectSignatures_member:
  "sig \<in> set (collectSignatures cr logID s e h css) \<Longrightarrow> \<exists>c\<in>set css. SignSubtreeMTC cr c logID s e h = Inr sig"
  by (auto simp: collectSignatures_def split: sum.splits)

lemma ProcessBatch_run:
  assumes "log_ready d" "0 \<le> s" "ProcessBatch cr b s d = (Inr br, d')"
  shows "d' = d" "s < log_size d" "br = \<lparr>br_Start = s, br_End = log_size d,
      br_SubtreeHash = root_of (drop (nat s) (entries d)),
      br_Signatures = collectSignatures cr (bt_logID b) s (log_size d) (root_of (drop (nat s) (entries d))) (bt_cosigners b)\<rparr>"
proof -
  have nf: "no_faults d" and inv: "log_inv d" using assms(1) by (simp_all add: log_ready_def)
  have sz: "TreeSize d = (Inr (log_size d), d)"
    using TreeSize_inv [OF inv nf] by (simp add: log_size_def)
  show s: "s < log_size d"
    using assms(3) by (auto simp: ProcessBatch_def io_bind_Inr wrap_Inr sz split: if_splits)
  have h: "batchSubtreeHash s (log_size d) d = (Inr (root_of (drop (nat s) (entries d))), d)"
    using batchSubtreeHash_run [OF assms(1,2) s] leaf_at_drop [OF assms(2)] s by simp
  from assms(3) s show "d' = d" "br = \<lparr>br_Start = s, br_End = log_size d,
      br_SubtreeHash = root_of (drop (nat s) (entries d)),
      br_Signatures = collectSignatures cr (bt_logID b) s (log_size d) (root_of (drop (nat s) (entries d))) (bt_cosigners b)\<rparr>"
    by (auto simp: ProcessBatch_def io_bind_Inr wrap_Inr sz h io_return_run Let_def split: if_splits)
qed

section \<open>Properties\<close>

text \<open>The batch of the witnesses: both entries of the example log, signed by the toy cosigner.\<close>

definition demo_batcher :: Batcher where
  "demo_batcher = \<lparr>bt_cosigners = [toy_cosigner], bt_logID = [9]\<rparr>"

lemma demo_batch_run: "\<exists>br. ProcessBatch toy_crypto demo_batcher 0 demo_log = (Inr br, demo_log) \<and> br_Signatures br \<noteq> []"
proof -
  have ready: "log_ready demo_log" by (rule reachable_ready [OF demo_log_run(1)])
  have sz: "log_size demo_log = 2"
    using arg_cong [OF demo_log_run(2), of length] by (simp add: log_size_def entries_def)
  have t: "TreeSize demo_log = (Inr 2, demo_log)"
    using TreeSize_inv [of demo_log] ready sz by (simp add: log_ready_def log_size_def)
  have h: "\<exists>h. batchSubtreeHash 0 2 demo_log = (Inr h, demo_log)"
    using batchSubtreeHash_run [OF ready, of 0 2] sz by simp
  have sg: "collectSignatures toy_crypto [9] 0 2 h [toy_cosigner] \<noteq> []" for h
    by (simp add: collectSignatures_def SignSubtreeMTC_def BuildSubtreeSignatureInput_def HashSize_def Sign_def
        toy_crypto_def toy_cosigner_def)
  from t h sg show ?thesis
    by (auto simp: ProcessBatch_def demo_batcher_def io_bind_Inr wrap_Inr io_return_run Let_def)
qed

text \<open>
  C30. What \<open>ProcessBatch\<close> signs: on a reachable log the subtree hash is the Merkle Tree Hash
  of the entries from the start of the batch to the end of the log, the range is recorded as
  such, and every collected signature verifies for one of the cosigners over exactly that
  range and hash.
\<close>

theorem batch_signs_range:
  assumes "(log_step cr cs)\<^sup>*\<^sup>* empty_db d" "0 \<le> s" "ProcessBatch cr' b s d = (Inr br, d')"
    and "\<forall>c\<in>set (bt_cosigners b). key_pair cr' c"
  shows "d' = d \<and> br_Start br = s \<and> br_End br = int (length (entries d)) \<and>
    MTH (drop (nat s) (entries d)) = Some (br_SubtreeHash br) \<and>
    (\<forall>sig\<in>set (br_Signatures br). \<exists>c\<in>set (bt_cosigners b).
       VerifySubtreeMTC cr' c (bt_logID b) s (br_End br) (br_SubtreeHash br) sig)"
proof -
  note run = ProcessBatch_run [OF reachable_ready [OF assms(1)] assms(2,3)]
  have sz: "log_size d = int (length (entries d))" by (simp add: log_size_def entries_def)
  have "\<exists>c\<in>set (bt_cosigners b). VerifySubtreeMTC cr' c (bt_logID b) s (br_End br) (br_SubtreeHash br) sig"
    if sig: "sig \<in> set (br_Signatures br)" for sig
  proof -
    obtain c where c: "c \<in> set (bt_cosigners b)" "SignSubtreeMTC cr' c (bt_logID b) s (br_End br) (br_SubtreeHash br) = Inr sig"
      using sig run(3) collectSignatures_member [of sig cr' "bt_logID b" s "log_size d"] by auto
    then show ?thesis using SignSubtreeMTC_verifies assms(4) by blast
  qed
  with run sz show ?thesis by (simp add: MTH_mth root_of_def)
qed

theorem batch_signs_range_witness:
  "\<exists>br. ProcessBatch toy_crypto demo_batcher 0 demo_log = (Inr br, demo_log) \<and> br_Signatures br \<noteq> [] \<and> br_End br = 2 \<and>
     MTH [NullEntryBytes, [7]] = Some (br_SubtreeHash br) \<and>
     (\<forall>sig\<in>set (br_Signatures br). VerifySubtreeMTC toy_crypto toy_cosigner [9] 0 2 (br_SubtreeHash br) sig)"
proof -
  obtain br where br: "ProcessBatch toy_crypto demo_batcher 0 demo_log = (Inr br, demo_log)" "br_Signatures br \<noteq> []"
    using demo_batch_run by blast
  from batch_signs_range [OF demo_log_run(1) _ br(1)] br toy_ok(1) show ?thesis
    by (auto simp: demo_log_run(2) demo_batcher_def)
qed

text \<open>
  C29. Batch proofs of valid subtrees verify: when the batch \<open>[s, size)\<close> is a valid subtree,
  the \<open>MTCProof\<close> that \<open>BuildProof\<close> makes for a leaf of the batch leads, at the index
  relative to the batch, from the hash of the logged entry to the subtree hash that the
  cosigners have signed.
\<close>

theorem batch_proof_verifies:
  assumes "(log_step cr cs)\<^sup>*\<^sup>* empty_db d" "int (length (entries d)) < 2 ^ 62"
    and "0 \<le> s" "ProcessBatch cr' b s d = (Inr br, d')" "IsValidSubtree s (br_End br)"
    and "s \<le> i" "i < br_End br"
  shows "\<exists>p. BuildProof i br d = Some (Inr p) \<and> mp_Start p = word_of_int s \<and> mp_End p = word_of_int (br_End br) \<and>
    RootFromInclusionProof (i - s) (br_End br - s) (LeafHash (entries d ! nat i)) (map bytes_hash (mp_InclusionProof p))
      = Some (br_SubtreeHash br)"
proof -
  have ready: "log_ready d" by (rule reachable_ready [OF assms(1)])
  note run = ProcessBatch_run [OF ready assms(3,4)]
  let ?n = "log_size d"
  have served: "log_served d" using ready assms(2) by (simp add: log_served_def log_size_def entries_def)
  have e: "br_End br = ?n" "br_Start br = s" "br_SubtreeHash br = mth (rng (leaf_at d) s ?n)"
    using run(2,3) leaf_at_drop [OF assms(3), of d] by simp_all
  have i: "0 \<le> i" "i < ?n" "s \<le> i" using assms(3,6,7) e by simp_all
  have "?n - s \<le> 2 ^ 62" using assms(2,3) by (simp add: log_size_def entries_def)
  then have "aligned s ?n"
    using IsValidSubtree_aligned [of s ?n] assms(3,5) run(2) e(1) by simp
  then obtain j where j: "?n - s \<le> 2 ^ j" "2 ^ j dvd s" by (auto simp: aligned_def)
  obtain rest where rest: "path (nat i) (rng (leaf_at d) 0 ?n) = path (nat (i - s)) (rng (leaf_at d) s ?n) @ rest"
    using path_prefix [of 0 s i ?n j "leaf_at d"] assms(3) i j by auto
  have pf: "InclusionProofFromNodes i ?n (node_at d) = Some (Inr (path (nat i) (rng (leaf_at d) 0 ?n)))"
    by (rule log_nodes.InclusionProofFromNodes_path [OF served i(1,2) order_refl])
  have "RootFromInclusionProof (i - s) (?n - s) (LeafHash (entries d ! nat i)) (path (nat i) (rng (leaf_at d) 0 ?n)) =
      Some (br_SubtreeHash br)"
    using RootFromInclusionProof_prefix [OF i(3,2), of "leaf_at d" rest] rest e(3) leaf_at_entry [OF i(1,2)] by simp
  with pf i e show ?thesis by (simp add: BuildProof_def comp_def)
qed

theorem batch_proof_verifies_witness:
  "\<exists>br p. ProcessBatch toy_crypto demo_batcher 0 demo_log = (Inr br, demo_log) \<and> BuildProof 1 br demo_log = Some (Inr p) \<and>
     RootFromInclusionProof 1 2 (LeafHash [7]) (map bytes_hash (mp_InclusionProof p)) = Some (br_SubtreeHash br)"
proof -
  obtain br where br: "ProcessBatch toy_crypto demo_batcher 0 demo_log = (Inr br, demo_log)" using demo_batch_run by blast
  have e: "br_End br = 2"
    using ProcessBatch_run(3) [OF reachable_ready [OF demo_log_run(1)] _ br] arg_cong [OF demo_log_run(2), of length]
    by (simp add: log_size_def entries_def)
  have "IsValidSubtree 0 2" by (simp add: IsValidSubtree_def Let_def go_rem_def)
  with batch_proof_verifies [OF demo_log_run(1) _ _ br, of 1] br e show ?thesis
    by (auto simp: demo_log_run(2))
qed

text \<open>
  A landmark tells the truth: \<open>DesignateLandmark\<close> on a reachable log with a checkpoint
  succeeds, and the landmark it returns names the Merkle Tree Hash of a prefix of the entries,
  the one that the latest checkpoint signs.
\<close>

lemma landmark_true:
  assumes "(log_step cr cs)\<^sup>*\<^sup>* empty_db d" "checkpoints d \<noteq> []"
  shows "\<exists>lm d' cp r. DesignateLandmark d = (Inr lm, d') \<and> cp \<in> set (checkpoints d) \<and>
    (\<forall>c\<in>set (checkpoints d). cp_ID c \<le> cp_ID cp) \<and> lm_TreeSize lm = cp_TreeSize cp \<and> lm_CheckpointID lm = cp_ID cp \<and>
    0 < lm_TreeSize lm \<and> MTH (take (nat (lm_TreeSize lm)) (entries d)) = Some r \<and> lm_RootHash lm = hash_bytes r"
proof -
  have nf: "no_faults d" using reachable_ready [OF assms(1)] by (simp add: log_ready_def)
  obtain cp where cp: "LatestCheckpoint d = (Inr cp, d)" "cp \<in> set (checkpoints d)"
    "\<forall>c\<in>set (checkpoints d). cp_ID c \<le> cp_ID cp"
    using LatestCheckpoint_run [OF nf assms(2)] by blast
  let ?lm = "\<lparr>lm_ID = 0, lm_TreeSize = cp_TreeSize cp, lm_RootHash = cp_RootHash cp, lm_CheckpointID = cp_ID cp, lm_CreatedAt = 0\<rparr>"
  obtain d' where "SaveLandmark ?lm d = (Inr (), d')"
    using nf by (cases "\<exists>r\<in>set (landmarks d). lm_TreeSize r = cp_TreeSize cp")
      (auto simp: SaveLandmark_def wrap_def exec_run Let_def)
  then have "DesignateLandmark d = (Inr ?lm, d')"
    using cp(1) by (simp add: DesignateLandmark_def io_bind_def wrap_def Let_def io_return_def)
  with cp reachable_claims [OF assms(1) cp(2)] show ?thesis by (auto simp: cp_true_MTH)
qed

lemma landmark_true_witness:
  "\<exists>lm d' r. DesignateLandmark demo_cp_db = (Inr lm, d') \<and> lm_TreeSize lm = 2 \<and>
     MTH [NullEntryBytes, [7]] = Some r \<and> lm_RootHash lm = hash_bytes r"
proof -
  obtain cp where "checkpoints demo_cp_db = [cp]" "cp_TreeSize cp = 2" using demo_cp_run(3) by blast
  with landmark_true [OF rtranclp_trans [OF demo_log_run(1) demo_cp_run(1)]] show ?thesis
    by (auto simp: demo_cp_run(2))
qed

end
