(* ===== verification/Revocation.thy ===== *)
theory Revocation
  imports IssuancelogSafety
begin

text \<open>
  \<open>src/internal/revocation/revocation.go\<close>: revocation by log index. CA revocation events are
  mapped to entries by serial number, and the revoked indices are published as a bitmap.
\<close>

unbundle bit_operations_syntax

section \<open>Operations\<close>

text \<open>The conversion \<open>int16(x)\<close>.\<close>

definition int16 :: "int \<Rightarrow> int" where
  "int16 x = sint (word_of_int x :: 16 word)"

definition revocation_row :: "int \<Rightarrow> RevocationEvent \<Rightarrow> RevokedIndex" where
  "revocation_row idx ev = \<lparr>ri_EntryIdx = idx, ri_SerialHex = re_SerialNumber ev,
     ri_RevokedAt = re_RevokedDate ev, ri_Reason = int16 (re_RevokedReason ev)\<rparr>"

text \<open>
  The loop over the events; it returns the count and the error as the source does. An event
  whose serial number is not found, for whatever reason, is skipped.
\<close>

fun processEvents :: "int \<Rightarrow> RevocationEvent list \<Rightarrow> db \<Rightarrow> (int \<times> goerr option) \<times> db" where
  "processEvents recorded [] d = ((recorded, None), d)"
| "processEvents recorded (ev # evs) d =
     (case FindEntryBySerial (re_SerialNumber ev) d of
        (Inl _, d1) \<Rightarrow> processEvents recorded evs d1
      | (Inr idx, d1) \<Rightarrow>
        (case AddRevocation (revocation_row idx ev) d1 of
           (Inl err, d2) \<Rightarrow> ((recorded, Some (Wrap ''revocation.ProcessRevocations: %w'' err)), d2)
         | (Inr _, d2) \<Rightarrow> processEvents (recorded + 1) evs d2))"

definition ProcessRevocations :: "RevocationEvent list \<Rightarrow> db \<Rightarrow> (int \<times> goerr option) \<times> db" where
  "ProcessRevocations evs d =
     (case processEvents 0 evs d of
        ((recorded, Some err), d1) \<Rightarrow> ((recorded, Some err), d1)
      | ((recorded, None), d1) \<Rightarrow>
        if recorded > 0 then
          ((recorded, None),
           snd (EmitEvent ''revocation_batch'' (JObj [(''count'', JNum recorded), (''timestamp'', JTime (db_now d1))]) d1))
        else ((recorded, None), d1))"

definition sortedRevokedIndices :: "int list io" where
  "sortedRevokedIndices =
     io_bind (wrap ''revocation.GetRevokedIndices: %w'' GetRevokedIndices) (\<lambda>indices. io_return (sort indices))"

text \<open>\<open>bitmap[byteIdx] |= 1 << bitIdx\<close>; \<open>None\<close> is the panic of an index out of range.\<close>

definition setBit :: "int \<Rightarrow> bytes \<Rightarrow> bytes option" where
  "setBit idx bitmap =
     (let byteIdx = go_div idx 8; bitIdx = nat (7 - go_rem idx 8) in
      if 0 \<le> byteIdx \<and> byteIdx < int (length bitmap)
      then Some (bitmap[nat byteIdx := bitmap ! nat byteIdx OR push_bit bitIdx 1]) else None)"

fun setBits :: "int \<Rightarrow> int list \<Rightarrow> bytes \<Rightarrow> bytes option" where
  "setBits treeSize [] bitmap = Some bitmap"
| "setBits treeSize (idx # is) bitmap =
     (if idx \<ge> treeSize then setBits treeSize is bitmap
      else case setBit idx bitmap of None \<Rightarrow> None | Some b \<Rightarrow> setBits treeSize is b)"

text \<open>The result \<open>None\<close> is a panic: of \<open>make\<close> on a negative length or of an index out of range.\<close>

definition BuildRevocationBitmap :: "int \<Rightarrow> db \<Rightarrow> (goerr + bytes) option \<times> db" where
  "BuildRevocationBitmap treeSize d =
     (case sortedRevokedIndices d of
        (Inl err, d1) \<Rightarrow> (Some (Inl err), d1)
      | (Inr indices, d1) \<Rightarrow>
        if treeSize = 0 then (Some (Inr []), d1)
        else let bitmapLen = go_div (treeSize + 7) 8 in
          if bitmapLen < 0 then (None, d1)
          else (map_option Inr (setBits treeSize indices (replicate (nat bitmapLen) 0)), d1))"

definition Count :: "int io" where
  "Count = RevocationCount"

section \<open>The bitmap\<close>

text \<open>The bit of an index, in big-endian bit order.\<close>

definition bit_at :: "bytes \<Rightarrow> int \<Rightarrow> bool" where
  "bit_at bm i \<longleftrightarrow> bit (bm ! nat (i div 8)) (nat (7 - i mod 8))"

lemma same_bit:
  fixes i j :: int
  shows "nat (i div 8) = nat (j div 8) \<Longrightarrow> nat (7 - i mod 8) = nat (7 - j mod 8) \<Longrightarrow> 0 \<le> i \<Longrightarrow> 0 \<le> j \<Longrightarrow> i = j"
proof -
  assume "nat (i div 8) = nat (j div 8)" "nat (7 - i mod 8) = nat (7 - j mod 8)" "0 \<le> i" "0 \<le> j"
  then have "i div 8 = j div 8" "i mod 8 = j mod 8" by (simp_all add: eq_nat_nat_iff)
  then show "i = j" by (metis div_mult_mod_eq)
qed

lemma setBit_spec:
  assumes "0 \<le> idx" "idx < 8 * int (length bm)"
  shows "\<exists>bm'. setBit idx bm = Some bm' \<and> length bm' = length bm \<and>
    (\<forall>i. 0 \<le> i \<longrightarrow> i < 8 * int (length bm) \<longrightarrow> (bit_at bm' i \<longleftrightarrow> bit_at bm i \<or> i = idx))"
proof (intro exI conjI allI impI)
  let ?k = "nat (idx div 8)" and ?b = "nat (7 - idx mod 8)"
  let ?bm = "bm[?k := bm ! ?k OR push_bit ?b 1]"
  have k: "?k < length bm" using assms by (simp add: nat_less_iff)
  then show "setBit idx bm = Some ?bm"
    using assms by (simp add: setBit_def Let_def nat_less_iff)
  show "length ?bm = length bm" by simp
  fix i assume i: "0 \<le> i" "i < 8 * int (length bm)"
  have lt: "nat (7 - i mod 8) < 8" by simp
  show "bit_at ?bm i \<longleftrightarrow> bit_at bm i \<or> i = idx"
  proof (cases "nat (i div 8) = ?k")
    case True
    have "bit (push_bit ?b 1 :: byte) (nat (7 - i mod 8)) \<longleftrightarrow> nat (7 - i mod 8) = ?b"
      using lt by (auto simp: push_bit_eq_mult bit_exp_iff)
    with True k same_bit [of i idx] i(1) assms(1) show ?thesis
      by (auto simp: bit_at_def bit_or_iff)
  next
    case False
    then have "i \<noteq> idx" by auto
    with False show ?thesis by (simp add: bit_at_def)
  qed
qed

lemma setBits_spec:
  assumes "\<forall>i\<in>set is. 0 \<le> i" "treeSize \<le> 8 * int (length bm)"
  shows "\<exists>bm'. setBits treeSize is bm = Some bm' \<and> length bm' = length bm \<and>
    (\<forall>i. 0 \<le> i \<and> i < 8 * int (length bm) \<longrightarrow> (bit_at bm' i \<longleftrightarrow> bit_at bm i \<or> i \<in> set is \<and> i < treeSize))"
  using assms
proof (induction "is" arbitrary: bm)
  case (Cons idx "is")
  show ?case
  proof (cases "idx \<ge> treeSize")
    case True
    have "(i = idx \<or> i \<in> set is) \<and> i < treeSize \<longleftrightarrow> i \<in> set is \<and> i < treeSize" for i using True by auto
    with True Cons show ?thesis by simp
  next
    case False
    then have "0 \<le> idx" "idx < 8 * int (length bm)" using Cons.prems by auto
    then obtain bm1 where bm1: "setBit idx bm = Some bm1" "length bm1 = length bm"
      "\<And>i. 0 \<le> i \<Longrightarrow> i < 8 * int (length bm) \<Longrightarrow> bit_at bm1 i \<longleftrightarrow> bit_at bm i \<or> i = idx"
      using setBit_spec by blast
    obtain bm' where bm': "setBits treeSize is bm1 = Some bm'" "length bm' = length bm1"
      "\<forall>i. 0 \<le> i \<and> i < 8 * int (length bm1) \<longrightarrow> (bit_at bm' i \<longleftrightarrow> bit_at bm1 i \<or> i \<in> set is \<and> i < treeSize)"
      using Cons.IH [of bm1] Cons.prems bm1(2) by auto
    with bm1 False show ?thesis by auto
  qed
qed simp

section \<open>Recording\<close>

definition revoked :: "db \<Rightarrow> int set" where
  "revoked d = set (map ri_EntryIdx (revoked_indices d))"

text \<open>The entries with a serial number, and the one of them that the query returns.\<close>

definition entries_with :: "db \<Rightarrow> string \<Rightarrow> int set" where
  "entries_with d serial = set (map le_Index (filter (\<lambda>e. le_SerialHex e = serial) (log_entries d)))"

definition serial_index :: "db \<Rightarrow> string \<Rightarrow> int option" where
  "serial_index d serial =
     (case db_scan d (map le_Index (filter (\<lambda>r. le_SerialHex r = serial) (log_entries d))) of [] \<Rightarrow> None | i # _ \<Rightarrow> Some i)"

definition named :: "db \<Rightarrow> RevocationEvent list \<Rightarrow> int set" where
  "named d evs = {idx. \<exists>ev\<in>set evs. serial_index d (re_SerialNumber ev) = Some idx}"

lemma serial_index_with:
  assumes "scan_ok d"
  shows "serial_index d s = Some idx \<Longrightarrow> idx \<in> entries_with d s" "serial_index d s = None \<longleftrightarrow> entries_with d s = {}"
proof -
  let ?is = "map le_Index (filter (\<lambda>r. le_SerialHex r = s) (log_entries d))"
  have set: "set (db_scan d ?is) = entries_with d s"
    using assms by (simp only: scan_ok_def entries_with_def)
  then show "serial_index d s = Some idx \<Longrightarrow> idx \<in> entries_with d s" "serial_index d s = None \<longleftrightarrow> entries_with d s = {}"
    by (auto simp: serial_index_def split: list.splits)
qed

lemma serial_index_member: "scan_ok d \<Longrightarrow> serial_index d s = Some idx \<Longrightarrow> \<exists>e\<in>set (log_entries d). le_Index e = idx"
  using serial_index_with(1) [of d s idx] by (auto simp: entries_with_def)

text \<open>With \<open>pick\<close> for the choice of the query, the named entries are one for each serial number that the log has.\<close>

lemma named_pick:
  assumes "scan_ok d"
  shows "named d evs = (\<lambda>s. the (serial_index d s)) ` {s \<in> re_SerialNumber ` set evs. entries_with d s \<noteq> {}}"
proof -
  have "serial_index d s = Some idx \<longleftrightarrow> entries_with d s \<noteq> {} \<and> idx = the (serial_index d s)" for s idx
    using serial_index_with(2) [OF assms, of s] by (cases "serial_index d s") auto
  then show ?thesis unfolding named_def by blast
qed

lemma FindEntryBySerial_run:
  "no_faults d \<Longrightarrow> FindEntryBySerial s d =
     ((case serial_index d s of None \<Rightarrow> Inl (Wrap ''store.FindEntryBySerial: %w'' ErrNoRows) | Some i \<Rightarrow> Inr i), d)"
  unfolding serial_index_def
  by (cases "db_scan d (map le_Index (filter (\<lambda>r. le_SerialHex r = s) (log_entries d)))")
    (simp_all add: FindEntryBySerial_def wrap_def query_row_run)

lemma AddRevocation_run:
  assumes "no_faults d" "scan_ok d" "serial_index d s = Some (ri_EntryIdx rv)"
  shows "\<exists>rows. AddRevocation rv d = (Inr (), d\<lparr>revoked_indices := rows\<rparr>) \<and>
    set (map ri_EntryIdx rows) = insert (ri_EntryIdx rv) (revoked d)"
proof (cases "\<exists>r\<in>set (revoked_indices d). ri_EntryIdx r = ri_EntryIdx rv")
  case True
  then have "AddRevocation rv d = (Inr (), d)" using assms(1) by (simp add: AddRevocation_def run_simps)
  moreover have "ri_EntryIdx rv \<in> revoked d"
    using True by (auto simp: revoked_def) (metis image_eqI)
  ultimately show ?thesis
    by (intro exI [of _ "revoked_indices d"]) (simp add: insert_absorb, simp add: revoked_def)
next
  case False
  with assms serial_index_member [OF assms(2,3)]
  have "AddRevocation rv d = (Inr (), d\<lparr>revoked_indices := revoked_indices d @ [rv]\<rparr>)"
    by (auto simp: AddRevocation_def run_simps)
  then show ?thesis by (intro exI [of _ "revoked_indices d @ [rv]"]) (auto simp: revoked_def)
qed

lemma revoked_only [simp]:
  "serial_index (d\<lparr>revoked_indices := rows\<rparr>) s = serial_index d s"
  "no_faults (d\<lparr>revoked_indices := rows\<rparr>) = no_faults d"
  "scan_ok (d\<lparr>revoked_indices := rows\<rparr>) = scan_ok d"
  "named (d\<lparr>revoked_indices := rows\<rparr>) evs = named d evs"
  "revoked (d\<lparr>revoked_indices := rows\<rparr>) = set (map ri_EntryIdx rows)"
  by (simp_all add: serial_index_def no_faults_def scan_ok_def named_def revoked_def)

lemma processEvents_run:
  "no_faults d \<Longrightarrow> scan_ok d \<Longrightarrow> \<exists>rows k. processEvents n evs d = ((n + int k, None), d\<lparr>revoked_indices := rows\<rparr>) \<and>
     set (map ri_EntryIdx rows) = revoked d \<union> named d evs"
proof (induction evs arbitrary: n d)
  case Nil
  show ?case by (intro exI [of _ "revoked_indices d"] exI [of _ 0]) (simp add: revoked_def named_def)
next
  case (Cons ev evs)
  show ?case
  proof (cases "serial_index d (re_SerialNumber ev)")
    case None
    then have "named d (ev # evs) = named d evs" by (auto simp: named_def)
    with None Cons show ?thesis by (simp add: FindEntryBySerial_run)
  next
    case (Some idx)
    then obtain rows where add: "AddRevocation (revocation_row idx ev) d = (Inr (), d\<lparr>revoked_indices := rows\<rparr>)"
      "set (map ri_EntryIdx rows) = insert idx (revoked d)"
      using AddRevocation_run [OF Cons.prems, of "re_SerialNumber ev" "revocation_row idx ev"] by (auto simp: revocation_row_def)
    obtain rows' k where "processEvents (n + 1) evs (d\<lparr>revoked_indices := rows\<rparr>) =
        ((n + 1 + int k, None), d\<lparr>revoked_indices := rows'\<rparr>)"
      "set (map ri_EntryIdx rows') = set (map ri_EntryIdx rows) \<union> named d evs"
      using Cons.IH [of "d\<lparr>revoked_indices := rows\<rparr>" "n + 1"] Cons.prems by auto
    moreover have "named d (ev # evs) = insert idx (named d evs)" using Some by (auto simp: named_def)
    ultimately show ?thesis
      using Some add Cons.prems
      by (intro exI [of _ rows'] exI [of _ "Suc k"]) (simp add: FindEntryBySerial_run)
  qed
qed

lemma EmitEvent_run:
  "no_faults d \<Longrightarrow> \<exists>es n. snd (EmitEvent typ payload d) = d\<lparr>events := es, events_seq := n\<rparr>"
  by (auto simp: EmitEvent_def run_simps Let_def)

lemma ProcessRevocations_run:
  assumes "no_faults d" "scan_ok d"
  shows "\<exists>k rows es n. ProcessRevocations evs d = ((k, None), d\<lparr>revoked_indices := rows, events := es, events_seq := n\<rparr>) \<and>
    set (map ri_EntryIdx rows) = revoked d \<union> named d evs"
proof -
  obtain rows k where p: "processEvents 0 evs d = ((int k, None), d\<lparr>revoked_indices := rows\<rparr>)"
    "set (map ri_EntryIdx rows) = revoked d \<union> named d evs"
    using processEvents_run [OF assms, of 0 evs] by auto
  let ?d = "d\<lparr>revoked_indices := rows\<rparr>"
  show ?thesis
  proof (cases "k > 0")
    case True
    obtain es n where "snd (EmitEvent ''revocation_batch''
        (JObj [(''count'', JNum (int k)), (''timestamp'', JTime (db_now ?d))]) ?d) = ?d\<lparr>events := es, events_seq := n\<rparr>"
      using EmitEvent_run [of ?d] assms(1) revoked_only(2) by blast
    with True p show ?thesis by (auto simp: ProcessRevocations_def)
  next
    case False
    with p have "ProcessRevocations evs d = ((int k, None), d\<lparr>revoked_indices := rows, events := events d, events_seq := events_seq d\<rparr>)"
      by (simp add: ProcessRevocations_def)
    with p(2) show ?thesis by blast
  qed
qed

text \<open>The bitmap of the recorded entries.\<close>

lemma bitmap_of_revoked:
  assumes nf: "no_faults d" and idx: "\<forall>i\<in>revoked d. 0 \<le> i" and n: "0 \<le> n"
  shows "\<exists>bm. BuildRevocationBitmap n d = (Some (Inr bm), d) \<and> int (length bm) = (n + 7) div 8 \<and>
    (\<forall>i. 0 \<le> i \<and> i < n \<longrightarrow> (bit_at bm i \<longleftrightarrow> i \<in> revoked d))"
proof -
  let ?is = "sort (sort (map ri_EntryIdx (revoked_indices d)))" and ?len = "nat ((n + 7) div 8)"
  have set: "set ?is = revoked d" by (simp add: revoked_def)
  have srt: "sortedRevokedIndices d = (Inr ?is, d)"
    using nf by (simp add: sortedRevokedIndices_def GetRevokedIndices_def run_simps)
  have len: "n \<le> 8 * int ?len" using n by (simp add: le_nat_iff) linarith
  have "\<forall>i\<in>set ?is. 0 \<le> i" unfolding set by (rule idx)
  then obtain bm where bm: "setBits n ?is (replicate ?len 0) = Some bm" "length bm = ?len"
    "\<forall>i. 0 \<le> i \<and> i < 8 * int ?len \<longrightarrow> (bit_at bm i \<longleftrightarrow> bit_at (replicate ?len 0) i \<or> i \<in> set ?is \<and> i < n)"
    using setBits_spec [of ?is n "replicate ?len 0"] len by (simp only: length_replicate) blast
  have "bit_at bm i \<longleftrightarrow> i \<in> revoked d" if "0 \<le> i" "i < n" for i
  proof -
    have "i div 8 < (n + 7) div 8" using that by linarith
    then have "\<not> bit_at (replicate ?len 0) i" using that by (simp add: bit_at_def nat_less_eq_zless)
    moreover have "i < 8 * int ?len" using that len by linarith
    ultimately show ?thesis using bm(3) that unfolding set by blast
  qed
  moreover have "BuildRevocationBitmap n d = (Some (Inr bm), d)"
    using srt bm(1,2) n by (auto simp: BuildRevocationBitmap_def Let_def)
  moreover have "int (length bm) = (n + 7) div 8" using bm(2) n by simp
  ultimately show ?thesis by blast
qed

section \<open>Properties\<close>

text \<open>
  C31. Of every serial number that the events name and the log has, \<open>ProcessRevocations\<close> records
  exactly one entry, the one that the lookup returns; so it records all entries with this number
  where it is unique, and misses the others where it is not. Nothing else is recorded and nothing is
  unrevoked, and the bitmap published afterwards for a tree of \<open>n\<close> entries has one bit per
  entry, rounded up to bytes, set precisely for the recorded entries below \<open>n\<close>. Neither
  operation panics or fails on a responsive database, which may return rows in any order.
\<close>

theorem revocations_published:
  assumes "(log_step cr cs)\<^sup>*\<^sup>* empty_db d" "scan_ok d" "revoked d \<subseteq> set (map le_Index (log_entries d))" "0 \<le> n"
  shows "\<exists>k d' bm pick. ProcessRevocations evs d = ((k, None), d') \<and> BuildRevocationBitmap n d' = (Some (Inr bm), d') \<and>
    (\<forall>s. entries_with d s \<noteq> {} \<longrightarrow> pick s \<in> entries_with d s) \<and>
    revoked d' = revoked d \<union> pick ` {s \<in> re_SerialNumber ` set evs. entries_with d s \<noteq> {}} \<and>
    revoked d' \<subseteq> set (map le_Index (log_entries d')) \<and>
    int (length bm) = (n + 7) div 8 \<and> (\<forall>i. 0 \<le> i \<and> i < n \<longrightarrow> (bit_at bm i \<longleftrightarrow> i \<in> revoked d'))"
proof -
  have nf: "no_faults d" and num: "numbered (log_entries d)"
    using reachable_ready [OF assms(1)] by (simp_all add: log_ready_def log_inv_def)
  obtain k rows es m where p: "ProcessRevocations evs d = ((k, None), d\<lparr>revoked_indices := rows, events := es, events_seq := m\<rparr>)"
    "set (map ri_EntryIdx rows) = revoked d \<union> named d evs"
    using ProcessRevocations_run [OF nf assms(2)] by blast
  let ?d = "d\<lparr>revoked_indices := rows, events := es, events_seq := m\<rparr>"
  have rev: "revoked ?d = revoked d \<union> named d evs" using p(2) by (simp add: revoked_def)
  have "named d evs \<subseteq> set (map le_Index (log_entries d))"
    using serial_index_member [OF assms(2)] by (fastforce simp: named_def)
  then have idx: "revoked ?d \<subseteq> set (map le_Index (log_entries ?d))" using rev assms(3) by simp
  have "\<forall>i\<in>revoked ?d. 0 \<le> i"
    using idx num by (auto simp: numbered_def simp del: set_map)
  then obtain bm where "BuildRevocationBitmap n ?d = (Some (Inr bm), ?d)" "int (length bm) = (n + 7) div 8"
    "\<forall>i. 0 \<le> i \<and> i < n \<longrightarrow> (bit_at bm i \<longleftrightarrow> i \<in> revoked ?d)"
    using bitmap_of_revoked [of ?d n] nf assms(4) by (auto simp: no_faults_def)
  moreover have "the (serial_index d s) \<in> entries_with d s" if "entries_with d s \<noteq> {}" for s
    using serial_index_with [OF assms(2), of s] that by (cases "serial_index d s") auto
  ultimately show ?thesis
    using p(1) rev idx named_pick [OF assms(2), of evs]
    by (intro exI [of _ k] exI [of _ ?d] exI [of _ bm] exI [of _ "\<lambda>s. the (serial_index d s)"]) simp
qed

text \<open>A serial number that two entries of the log carry: only one of them is recorded.\<close>

theorem revocations_published_witness:
  "\<exists>k d' bm. ProcessRevocations [\<lparr>re_CertID = ''a'', re_SerialNumber = '''', re_RevokedDate = 5, re_RevokedReason = 1\<rparr>] demo_log
       = ((k, None), d') \<and> BuildRevocationBitmap 2 d' = (Some (Inr bm), d') \<and> entries_with demo_log '''' = {0, 1} \<and> length bm = 1 \<and>
       (bit_at bm 0 \<longleftrightarrow> \<not> bit_at bm 1)"
proof -
  let ?ev = "\<lparr>re_CertID = ''a'', re_SerialNumber = '''', re_RevokedDate = 5, re_RevokedReason = 1\<rparr>"
  obtain t t' where rows: "log_entries demo_log = [null_entry\<lparr>le_CreatedAt := t\<rparr>, demo_entry\<lparr>le_Index := 1, le_CreatedAt := t'\<rparr>]"
    using demo_log_rows(1) by blast
  have w: "entries_with demo_log [] = {0, 1}" "revoked demo_log = {}"
    using demo_log_rows(2) by (simp_all add: revoked_def entries_with_def rows demo_entry_def null_entry_def log_entry_def del: set_map set_filter)
  have "scan_ok demo_log" "revoked demo_log \<subseteq> set (map le_Index (log_entries demo_log))"
    using demo_log_rows(6) by (simp_all add: scan_ok_def w(2))
  then obtain k d' bm pick where p: "ProcessRevocations [?ev] demo_log = ((k, None), d')" "BuildRevocationBitmap 2 d' = (Some (Inr bm), d')"
    "\<forall>s. entries_with demo_log s \<noteq> {} \<longrightarrow> pick s \<in> entries_with demo_log s"
    "revoked d' = revoked demo_log \<union> pick ` {s \<in> re_SerialNumber ` set [?ev]. entries_with demo_log s \<noteq> {}}"
    "int (length bm) = (2 + 7) div 8" "\<forall>i. 0 \<le> i \<and> i < 2 \<longrightarrow> (bit_at bm i \<longleftrightarrow> i \<in> revoked d')"
    using revocations_published [OF demo_log_run(1) \<open>scan_ok demo_log\<close> \<open>revoked demo_log \<subseteq> _\<close>, of 2 "[?ev]", OF zero_le_numeral] by - (elim exE conjE, rule_tac that, assumption+)
  have "revoked d' = {pick []}" "pick [] = 0 \<or> pick [] = 1" using p(3) [rule_format, of "[]"] p(4) w by auto
  with p(6) have "bit_at bm 0 \<longleftrightarrow> \<not> bit_at bm 1" by auto
  moreover have "length bm = 1" using p(5) by simp
  ultimately show ?thesis using p(1,2) w(1) by blast
qed

end
