(* ===== verification/Watcher.thy ===== *)
theory Watcher
  imports Revocation
begin

text \<open>
  \<open>src/internal/watcher/watcher.go\<close>: the loop that moves certificates and revocations of the
  CA database into the log, creates checkpoints and cleans up. Its state is the watcher
  record, the state store and the CA database; the goroutines it starts for the checkpoint
  callback are recorded in the order of the \<open>go\<close> statements.
\<close>

section \<open>State\<close>

record Config =
  cf_PollInterval :: int
  cf_CheckpointInterval :: int
  cf_BatchSize :: int
  cf_RevocationPollInterval :: int
  cf_HousekeepingInterval :: int
  cf_StaleBundleRetention :: int
  cf_CheckpointRetention :: int
  cf_CheckpointKeepRecent :: int
  cf_EventRetention :: int
  cf_EventKeepRecent :: int

record Watcher =
  w_adapter :: Adapter
  w_cosigner :: Cosigner
  w_cfg :: Config
  w_hasCallback :: bool
  w_running :: bool
  w_lastCheckpoint :: int
  w_certsProcessed :: int
  w_revocsProcessed :: int
  w_callbacks :: "(int \<times> int) list"

record world =
  wd_db :: db
  wd_ca :: cadb
  wd_w :: Watcher

section \<open>Operations\<close>

definition cursor_or_epoch :: "(goerr + WatcherCursor) \<Rightarrow> WatcherCursor" where
  "cursor_or_epoch r =
     (case r of
        Inl _ \<Rightarrow> \<lparr>wc_LastCreatedAt = zero_time, wc_LastCertID = '''', wc_UpdatedAt = zero_time\<rparr>
      | Inr c \<Rightarrow> c)"

definition pollCertificates :: "world \<Rightarrow> (goerr + unit) \<times> world" where
  "pollCertificates s =
     (case GetWatcherCursor (wd_db s) of (r, d1) \<Rightarrow>
      let cursor = cursor_or_epoch r; s1 = s\<lparr>wd_db := d1\<rparr> in
      case FetchNewCertificates (w_adapter (wd_w s)) (wc_LastCreatedAt cursor) (wc_LastCertID cursor)
             (cf_BatchSize (w_cfg (wd_w s))) (wd_ca s) of
        (Inl err, ca1) \<Rightarrow> (Inl (Wrap ''watcher: fetch certs: %w'' err), s1\<lparr>wd_ca := ca1\<rparr>)
      | (Inr certs, ca1) \<Rightarrow>
        let s2 = s1\<lparr>wd_ca := ca1\<rparr> in
        if length certs = 0 then (Inr (), s2)
        else case AppendCertificates certs d1 of
          (Inl err, d2) \<Rightarrow> (Inl (Wrap ''watcher: append certs: %w'' err), s2\<lparr>wd_db := d2\<rparr>)
        | (Inr (count, newSize), d2) \<Rightarrow>
          case UpdateWatcherCursor (ce_CreatedDate (last certs)) (ce_ID (last certs)) d2 of
            (Inl err, d3) \<Rightarrow> (Inl (Wrap ''watcher: update cursor: %w'' err), s2\<lparr>wd_db := d3\<rparr>)
          | (Inr _, d3) \<Rightarrow>
              (Inr (), s2\<lparr>wd_w := (wd_w s2)\<lparr>w_certsProcessed := w_certsProcessed (wd_w s2) + count\<rparr>,
                 wd_db := snd (EmitEvent ''certificates_appended''
                   (JObj [(''count'', JNum count), (''last_id'', JStr (ce_ID (last certs))), (''tree_size'', JNum newSize)]) d3)\<rparr>))"

definition pollRevocations :: "world \<Rightarrow> (goerr + unit) \<times> world" where
  "pollRevocations s =
     (case FetchAllRevocations (w_adapter (wd_w s)) (wd_ca s) of
        (Inl err, ca1) \<Rightarrow> (Inl (Wrap ''watcher: fetch revocations: %w'' err), s\<lparr>wd_ca := ca1\<rparr>)
      | (Inr evs, ca1) \<Rightarrow>
        let s1 = s\<lparr>wd_ca := ca1\<rparr> in
        if length evs = 0 then (Inr (), s1)
        else case ProcessRevocations evs (wd_db s1) of
          ((_, Some err), d1) \<Rightarrow> (Inl (Wrap ''watcher: process revocations: %w'' err), s1\<lparr>wd_db := d1\<rparr>)
        | ((count, None), d1) \<Rightarrow>
            (Inr (), s1\<lparr>wd_db := d1,
               wd_w := (wd_w s1)\<lparr>w_revocsProcessed := w_revocsProcessed (wd_w s1) + count\<rparr>\<rparr>))"

definition createCheckpoint :: "crypto \<Rightarrow> world \<Rightarrow> (goerr + unit) \<times> world" where
  "createCheckpoint cr s =
     (case CreateCheckpoint cr (w_cosigner (wd_w s)) (wd_db s) of
        (Inl err, d1) \<Rightarrow> (Inl (Wrap ''watcher: create checkpoint: %w'' err), s\<lparr>wd_db := d1\<rparr>)
      | (Inr cp, d1) \<Rightarrow>
          (Inr (), s\<lparr>wd_db := d1,
             wd_w := (wd_w s)\<lparr>w_lastCheckpoint := cp_Timestamp cp,
               w_callbacks := w_callbacks (wd_w s) @
                 (if w_hasCallback (wd_w s) then [(cp_ID cp, cp_TreeSize cp)] else [])\<rparr>\<rparr>))"

text \<open>Every step of the housekeeping runs whether or not the one before failed.\<close>

definition runHousekeeping :: "Config \<Rightarrow> db \<Rightarrow> db" where
  "runHousekeeping cfg d =
     (let d1 = (if cf_StaleBundleRetention cfg > 0
                then snd (DeleteStaleAssertionBundles (cf_StaleBundleRetention cfg) d) else d);
          d2 = (if cf_CheckpointRetention cfg > 0
                then snd (PruneOldCheckpoints (cf_CheckpointRetention cfg) (cf_CheckpointKeepRecent cfg) d1) else d1)
      in if cf_EventRetention cfg > 0
         then snd (PruneOldEvents (cf_EventRetention cfg) (cf_EventKeepRecent cfg) d2) else d2)"

text \<open>
  The cases of the \<open>select\<close>. Without a housekeeping interval its channel is nil and never
  ready. On \<open>ctx.Done()\<close> the loop returns; the statement of the last event is given the
  cancelled context and therefore not executed.
\<close>

datatype tick = CertTick | RevocTick | CheckpointTick | HousekeepingTick

definition select_case :: "crypto \<Rightarrow> tick \<Rightarrow> world \<Rightarrow> world" where
  "select_case cr t s =
     (case t of
        CertTick \<Rightarrow> snd (pollCertificates s)
      | RevocTick \<Rightarrow> snd (pollRevocations s)
      | CheckpointTick \<Rightarrow> snd (createCheckpoint cr s)
      | HousekeepingTick \<Rightarrow>
          if cf_HousekeepingInterval (w_cfg (wd_w s)) > 0
          then s\<lparr>wd_db := runHousekeeping (w_cfg (wd_w s)) (wd_db s)\<rparr> else s)"

text \<open>
  \<open>Run\<close> up to the cancellation of its context, which comes after the given ticks. \<open>None\<close> is
  the panic of \<open>time.NewTicker\<close> on an interval that is not positive.
\<close>

definition Run :: "crypto \<Rightarrow> tick list \<Rightarrow> world \<Rightarrow> ((goerr + unit) \<times> world) option" where
  "Run cr ticks s0 =
     (let s = s0\<lparr>wd_w := (wd_w s0)\<lparr>w_running := True\<rparr>\<rparr>;
          stop = (\<lambda>s. s\<lparr>wd_w := (wd_w s)\<lparr>w_running := False\<rparr>\<rparr>);
          cfg = w_cfg (wd_w s) in
      case Initialize (wd_db s) of
        (Inl err, d1) \<Rightarrow> Some (Inl (Wrap ''watcher.Run: initialize log: %w'' err), stop (s\<lparr>wd_db := d1\<rparr>))
      | (Inr _, d1) \<Rightarrow>
        let s1 = s\<lparr>wd_db := snd (EmitEvent ''watcher_started'' (JObj [(''timestamp'', JTime (db_now d1))]) d1)\<rparr> in
        if cf_PollInterval cfg \<le> 0 \<or> cf_RevocationPollInterval cfg \<le> 0 \<or> cf_CheckpointInterval cfg \<le> 0 then None
        else Some (Inl (Errorf ''context canceled''), stop (fold (select_case cr) ticks (snd (pollCertificates s1)))))"

record Stats_w =
  sw_Running :: bool
  sw_CertsProcessed :: int
  sw_RevocsProcessed :: int
  sw_LastCheckpoint :: int

definition GetStats_w :: "Watcher \<Rightarrow> Stats_w" where
  "GetStats_w w = \<lparr>sw_Running = w_running w, sw_CertsProcessed = w_certsProcessed w,
     sw_RevocsProcessed = w_revocsProcessed w, sw_LastCheckpoint = w_lastCheckpoint w\<rparr>"

section \<open>The order of the certificate rows\<close>

definition cert_after :: "Certificate \<Rightarrow> Certificate \<Rightarrow> bool" where
  "cert_after c x \<longleftrightarrow> after (ce_CreatedDate c) (ce_ID c) x"

lemma id_less_irrefl [simp]: "\<not> id_less s s"
  by (induction s) auto

lemma id_less_trans: "id_less a b \<Longrightarrow> id_less b c \<Longrightarrow> id_less a c"
proof (induction a b arbitrary: c rule: id_less.induct)
  case (2 y ys)
  then show ?case by (cases c) auto
next
  case (3 x xs y ys)
  then show ?case by (cases c) auto
qed simp

lemma id_less_total: "id_less a b \<or> a = b \<or> id_less b a"
proof (induction a b rule: id_less.induct)
  case (1 a)
  then show ?case by (cases a) auto
next
  case (3 a as b bs)
  consider "(of_char a :: nat) < of_char b" | "(of_char b :: nat) < of_char a" | "(of_char a :: nat) = of_char b" by linarith
  then show ?case
  proof cases
    case 3
    then have "a = b" by (simp add: of_char_eq_iff)
    with "3.IH" 3 show ?thesis by auto
  qed auto
qed simp

lemma cert_after_irrefl [simp]: "\<not> cert_after c c"
  by (simp add: cert_after_def after_def)

lemma cert_after_trans: "cert_after a b \<Longrightarrow> cert_after b c \<Longrightarrow> cert_after a c"
  by (auto simp: cert_after_def after_def intro: id_less_trans)

lemma cert_after_asym: "cert_after a b \<Longrightarrow> \<not> cert_after b a"
  using cert_after_trans cert_after_irrefl by blast

lemma cert_after_total:
  "cert_after a b \<or> cert_after b a \<or> ce_CreatedDate a = ce_CreatedDate b \<and> ce_ID a = ce_ID b"
  using id_less_total [of "ce_ID a" "ce_ID b"] by (auto simp: cert_after_def after_def)

text \<open>Rows with different ids: the id is the primary key of the table.\<close>

definition keyed :: "Certificate list \<Rightarrow> bool" where
  "keyed cs \<longleftrightarrow> distinct (map ce_ID cs)"

lemma insert_cert_set [simp]: "set (insert_cert c xs) = insert c (set xs)"
  by (induction xs) auto

lemma sort_certs_set [simp]: "set (sort_certs xs) = set xs"
  unfolding sort_certs_def by (induction xs) simp_all

lemma insert_cert_sorted:
  assumes "sorted_wrt cert_after xs" "\<forall>x\<in>set xs. ce_ID x \<noteq> ce_ID c"
  shows "sorted_wrt cert_after (insert_cert c xs)"
  using assms
proof (induction xs)
  case (Cons x xs)
  show ?case
  proof (cases "cert_after c x")
    case True
    then have "\<forall>y\<in>set (x # xs). cert_after c y" using Cons.prems(1) cert_after_trans by auto
    with True Cons.prems show ?thesis by (simp add: cert_after_def)
  next
    case False
    then have "cert_after x c" using cert_after_total [of c x] Cons.prems(2) by auto
    with False Cons show ?thesis by (simp add: cert_after_def)
  qed
qed simp

lemma sort_certs_sorted: "keyed xs \<Longrightarrow> sorted_wrt cert_after (sort_certs xs)"
proof (induction xs)
  case (Cons c xs)
  then have "sorted_wrt cert_after (insert_cert c (sort_certs xs))"
    by (intro insert_cert_sorted) (auto simp: keyed_def image_iff)
  then show ?case by (simp add: sort_certs_def)
qed (simp add: sort_certs_def)

text \<open>A list is determined by its strict order and its set; so sorting and selecting commute.\<close>

lemma sorted_wrt_unique:
  assumes "sorted_wrt cert_after xs" "sorted_wrt cert_after ys" "set xs = set ys"
  shows "xs = ys"
  using assms
proof (induction xs arbitrary: ys)
  case (Cons x xs)
  then obtain y zs where ys: "ys = y # zs" by (cases ys) auto
  have x: "\<forall>z\<in>set xs. cert_after x z" and y: "\<forall>z\<in>set zs. cert_after y z" using Cons.prems ys by auto
  have "x = y"
    using Cons.prems(3) x y ys cert_after_asym by (metis list.set_intros(1) set_ConsD)
  moreover have "x \<notin> set xs" "y \<notin> set zs" using x y by auto
  ultimately have "set xs = set zs" using Cons.prems(3) ys by auto
  with Cons.IH [of zs] Cons.prems ys \<open>x = y\<close> show ?case by simp
qed simp

lemma keyed_filter: "keyed xs \<Longrightarrow> keyed (filter P xs)"
  by (simp add: keyed_def distinct_map_filter)

lemma sort_certs_filter: "keyed xs \<Longrightarrow> sort_certs (filter P xs) = filter P (sort_certs xs)"
  by (rule sorted_wrt_unique) (simp_all add: sort_certs_sorted keyed_filter sorted_wrt_filter)

lemma filter_after_drop:
  assumes "sorted_wrt cert_after xs" "0 < m" "m \<le> length xs"
  shows "filter (cert_after (xs ! (m - 1))) xs = drop m xs"
proof -
  let ?c = "xs ! (m - 1)"
  have le: "\<not> cert_after ?c (xs ! i)" if "i < m" for i
  proof (cases "i = m - 1")
    case False
    then have "cert_after (xs ! i) ?c" using assms that by (intro sorted_wrt_nth_less [OF assms(1)]) auto
    then show ?thesis by (rule cert_after_asym)
  qed simp
  have "filter (cert_after ?c) (take m xs) = []"
    using le assms(3) by (auto simp: filter_empty_conv in_set_conv_nth)
  moreover have "filter (cert_after ?c) (drop m xs) = drop m xs"
  proof (rule filter_True, rule ballI)
    fix x assume "x \<in> set (drop m xs)"
    then obtain i where "i < length xs - m" "x = xs ! (m + i)" by (auto simp: in_set_conv_nth)
    then show "cert_after ?c x" using assms by (auto intro!: sorted_wrt_nth_less [OF assms(1)])
  qed
  ultimately show ?thesis using filter_append [of "cert_after ?c" "take m xs" "drop m xs"] by simp
qed

section \<open>Polling\<close>

text \<open>The certificates that a watcher is to log, in the order of the cursor.\<close>

definition queue :: "Adapter \<Rightarrow> cadb \<Rightarrow> Certificate list" where
  "queue a ca = sort_certs (filter (\<lambda>c. ad_IssuerID a = '''' \<or> ce_IssuerID c = ad_IssuerID a) (cert_rows ca))"

text \<open>A CA database that answers, with unique ids and dates after the zero time.\<close>

definition ca_ready :: "cadb \<Rightarrow> bool" where
  "ca_ready ca \<longleftrightarrow> ca_sched ca = [] \<and> keyed (cert_rows ca) \<and> (\<forall>c\<in>set (cert_rows ca). zero_time < ce_CreatedDate c)"

lemma Fetch_run:
  assumes "ca_ready ca" "0 \<le> limit"
  shows "FetchNewCertificates a date i limit ca = (Inr (take (nat limit) (filter (after date i) (queue a ca))), ca)"
proof -
  let ?P = "\<lambda>c. ad_IssuerID a = '''' \<or> ce_IssuerID c = ad_IssuerID a"
  have "ca\<lparr>ca_sched := []\<rparr> = ca" using assms(1) by (cases ca) (simp add: ca_ready_def)
  moreover have "sort_certs (filter (\<lambda>c. ?P c \<and> after date i c) (cert_rows ca)) = filter (after date i) (queue a ca)"
  proof -
    have "filter (\<lambda>c. ?P c \<and> after date i c) (cert_rows ca) = filter (after date i) (filter ?P (cert_rows ca))"
      by (simp add: conj_commute)
    then show ?thesis
      using assms(1) sort_certs_filter [OF keyed_filter, of "cert_rows ca" "after date i" ?P]
      by (simp only: ca_ready_def queue_def)
  qed
  ultimately show ?thesis
    using assms by (simp add: FetchNewCertificates_def ca_query_def ca_ready_def Let_def)
qed

text \<open>
  The state after the first \<open>m\<close> certificates of the queue have been moved: they are the last
  entries of the log, in order, and the cursor is at the last of them.
\<close>

definition cursor_at :: "Certificate list \<Rightarrow> nat \<Rightarrow> WatcherCursor option \<Rightarrow> bool" where
  "cursor_at Q m c \<longleftrightarrow> (if m = 0 then c = None
     else \<exists>u. c = Some \<lparr>wc_LastCreatedAt = ce_CreatedDate (Q ! (m - 1)), wc_LastCertID = ce_ID (Q ! (m - 1)), wc_UpdatedAt = u\<rparr>)"

definition moved :: "world \<Rightarrow> nat \<Rightarrow> world \<Rightarrow> bool" where
  "moved s0 m s \<longleftrightarrow>
     (let Q = queue (w_adapter (wd_w s0)) (wd_ca s0) in
      m \<le> length Q \<and> wd_ca s = wd_ca s0 \<and> w_adapter (wd_w s) = w_adapter (wd_w s0) \<and> w_cfg (wd_w s) = w_cfg (wd_w s0) \<and>
      log_ready (wd_db s) \<and> cursor_at Q m (watcher_cursor (wd_db s)) \<and>
      w_certsProcessed (wd_w s) = w_certsProcessed (wd_w s0) + int m \<and>
      entries (wd_db s) = entries (wd_db s0) @ map (\<lambda>c. le_EntryData (BuildEntry c)) (take m Q))"

lemma remaining:
  assumes "ca_ready ca" "cursor_at (queue a ca) m c" "m \<le> length (queue a ca)"
  shows "filter (after (wc_LastCreatedAt (cursor_or_epoch (case c of None \<Rightarrow> Inl e | Some x \<Rightarrow> Inr x)))
      (wc_LastCertID (cursor_or_epoch (case c of None \<Rightarrow> Inl e | Some x \<Rightarrow> Inr x)))) (queue a ca) = drop m (queue a ca)"
proof (cases "m = 0")
  case True
  have "\<forall>x\<in>set (queue a ca). after zero_time '''' x"
    using assms(1) by (auto simp: queue_def ca_ready_def after_def)
  with True assms(2) show ?thesis by (simp add: cursor_at_def cursor_or_epoch_def)
next
  case False
  have "sorted_wrt cert_after (queue a ca)"
    using assms(1) by (simp add: queue_def ca_ready_def sort_certs_sorted keyed_filter)
  from filter_after_drop [OF this _ assms(3)] False assms(2) show ?thesis
    by (auto simp: cursor_at_def cursor_or_epoch_def cert_after_def [abs_def])
qed

lemma GetWatcherCursor_run:
  "no_faults d \<Longrightarrow> GetWatcherCursor d =
     ((case watcher_cursor d of None \<Rightarrow> Inl (Wrap ''store.GetWatcherCursor: %w'' ErrNoRows) | Some c \<Rightarrow> Inr c), d)"
  by (simp add: GetWatcherCursor_def wrap_def query_run split: option.split)

lemma log_ready_other [simp]:
  "log_ready (d\<lparr>watcher_cursor := c\<rparr>) = log_ready d" "log_ready (d\<lparr>events := es, events_seq := n\<rparr>) = log_ready d"
  "entries (d\<lparr>watcher_cursor := c\<rparr>) = entries d" "entries (d\<lparr>events := es, events_seq := n\<rparr>) = entries d"
  by (simp_all add: log_ready_def log_inv_def leaves_def no_faults_def entries_def)

text \<open>A poll that finds certificates, whatever the cursor it started from.\<close>

lemma poll_append:
  assumes get: "GetWatcherCursor (wd_db s) = (r, d)" and ready: "log_ready d" and ne: "certs \<noteq> []"
    and fetch: "FetchNewCertificates (w_adapter (wd_w s)) (wc_LastCreatedAt (cursor_or_epoch r)) (wc_LastCertID (cursor_or_epoch r))
      (cf_BatchSize (w_cfg (wd_w s))) (wd_ca s) = (Inr certs, ca)"
  shows "\<exists>d' u. pollCertificates s = (Inr (), s\<lparr>wd_ca := ca, wd_db := d',
        wd_w := (wd_w s)\<lparr>w_certsProcessed := w_certsProcessed (wd_w s) + int (length certs)\<rparr>\<rparr>) \<and>
     log_ready d' \<and> entries d' = entries d @ map (\<lambda>c. le_EntryData (BuildEntry c)) certs \<and>
     watcher_cursor d' = Some \<lparr>wc_LastCreatedAt = ce_CreatedDate (last certs), wc_LastCertID = ce_ID (last certs), wc_UpdatedAt = u\<rparr>"
proof -
  let ?n = "int (length (log_entries d))" and ?k = "int (length certs)"
  obtain d2 where d2: "AppendCertificates certs d = (Inr (?k, ?n + ?k), d2)"
    "appended (new_rows ?n certs) d d2" "no_faults d2" "log_inv d2"
    using AppendCertificates_run [OF _ _ ne] ready by (auto simp: log_ready_def)
  let ?c = "\<lparr>wc_LastCreatedAt = ce_CreatedDate (last certs), wc_LastCertID = ce_ID (last certs), wc_UpdatedAt = db_now d2\<rparr>"
  let ?d3 = "d2\<lparr>watcher_cursor := Some ?c\<rparr>"
  have upd: "UpdateWatcherCursor (ce_CreatedDate (last certs)) (ce_ID (last certs)) d2 = (Inr (), ?d3)"
    using d2(3) by (simp add: UpdateWatcherCursor_def run_simps)
  have nf3: "no_faults ?d3" using d2(3) by (simp add: no_faults_def)
  obtain es n where ev: "snd (EmitEvent ''certificates_appended'' (JObj [(''count'', JNum ?k),
      (''last_id'', JStr (ce_ID (last certs))), (''tree_size'', JNum (?n + ?k))]) ?d3) = ?d3\<lparr>events := es, events_seq := n\<rparr>"
    using EmitEvent_run [OF nf3] by blast
  let ?d4 = "?d3\<lparr>events := es, events_seq := n\<rparr>"
  have "pollCertificates s = (Inr (), s\<lparr>wd_ca := ca, wd_db := ?d4,
        wd_w := (wd_w s)\<lparr>w_certsProcessed := w_certsProcessed (wd_w s) + ?k\<rparr>\<rparr>)"
    using ne by (simp add: pollCertificates_def get fetch d2(1) upd ev Let_def)
  moreover have "log_ready ?d4" "entries ?d4 = entries d @ map (\<lambda>c. le_EntryData (BuildEntry c)) certs"
    using d2(3,4) appended_entries [OF d2(2)] by (simp_all add: log_ready_def [of d2] new_rows_simps)
  moreover have "watcher_cursor ?d4 = Some ?c" by simp
  ultimately show ?thesis by blast
qed

lemma poll_idle:
  assumes "GetWatcherCursor (wd_db s) = (r, wd_db s)"
    "FetchNewCertificates (w_adapter (wd_w s)) (wc_LastCreatedAt (cursor_or_epoch r)) (wc_LastCertID (cursor_or_epoch r))
      (cf_BatchSize (w_cfg (wd_w s))) (wd_ca s) = (Inr [], wd_ca s)"
  shows "pollCertificates s = (Inr (), s)"
  using assms by (simp add: pollCertificates_def Let_def)

lemma take_next:
  assumes "m \<le> length Q" "take b (drop m Q) \<noteq> []"
  defines "m' \<equiv> min (m + b) (length Q)"
  shows "take m Q @ take b (drop m Q) = take m' Q" "length (take b (drop m Q)) = m' - m" "m < m'"
    "last (take b (drop m Q)) = Q ! (m' - 1)"
proof -
  show eq: "take m Q @ take b (drop m Q) = take m' Q"
    by (simp add: m'_def min_def take_add [symmetric])
  show "length (take b (drop m Q)) = m' - m" using assms(1) by (simp add: m'_def)
  show lt: "m < m'" using assms(1,2) by (simp add: m'_def) 
  have "last (take b (drop m Q)) = last (take m' Q)" using assms(2) by (simp flip: eq)
  also have "\<dots> = Q ! (m' - 1)"
  proof -
    have "m' \<le> length Q" by (simp add: m'_def)
    with lt show ?thesis by (subst last_conv_nth) auto
  qed
  finally show "last (take b (drop m Q)) = Q ! (m' - 1)" .
qed

text \<open>One poll moves the next batch.\<close>

lemma poll_step:
  assumes m: "moved s0 m s" and ca: "ca_ready (wd_ca s0)" and b: "0 < cf_BatchSize (w_cfg (wd_w s0))"
  defines "Q \<equiv> queue (w_adapter (wd_w s0)) (wd_ca s0)" and "B \<equiv> nat (cf_BatchSize (w_cfg (wd_w s0)))"
  shows "\<exists>s'. pollCertificates s = (Inr (), s') \<and> moved s0 (min (m + B) (length Q)) s'"
proof -
  let ?d = "wd_db s" and ?next = "take B (drop m Q)"
  have st: "m \<le> length Q" "wd_ca s = wd_ca s0" "w_adapter (wd_w s) = w_adapter (wd_w s0)" "w_cfg (wd_w s) = w_cfg (wd_w s0)"
    "log_ready ?d" "cursor_at Q m (watcher_cursor ?d)"
    using m by (simp_all add: moved_def Let_def Q_def)
  have nf: "no_faults ?d" using st(5) by (simp add: log_ready_def)
  note get = GetWatcherCursor_run [OF nf]
  let ?r = "case watcher_cursor ?d of None \<Rightarrow> Inl (Wrap ''store.GetWatcherCursor: %w'' ErrNoRows) | Some c \<Rightarrow> Inr c"
  have fetch: "FetchNewCertificates (w_adapter (wd_w s)) (wc_LastCreatedAt (cursor_or_epoch ?r)) (wc_LastCertID (cursor_or_epoch ?r))
      (cf_BatchSize (w_cfg (wd_w s))) (wd_ca s) = (Inr ?next, wd_ca s)"
    using Fetch_run [OF ca, of "cf_BatchSize (w_cfg (wd_w s0))"] b st(2-4)
      remaining [OF ca st(6) [unfolded Q_def] st(1) [unfolded Q_def]]
    by (simp add: B_def Q_def)
  show ?thesis
  proof (cases "?next = []")
    case True
    then have "min (m + B) (length Q) = m" using st(1) b by (auto simp: B_def)
    moreover have "pollCertificates s = (Inr (), s)"
      using poll_idle [OF get] fetch True by simp
    ultimately show ?thesis using m by simp
  next
    case False
    note nx = take_next [OF st(1) False]
    obtain d' u where poll: "pollCertificates s = (Inr (), s\<lparr>wd_ca := wd_ca s, wd_db := d',
        wd_w := (wd_w s)\<lparr>w_certsProcessed := w_certsProcessed (wd_w s) + int (length ?next)\<rparr>\<rparr>)"
      and d': "log_ready d'" "entries d' = entries ?d @ map (\<lambda>c. le_EntryData (BuildEntry c)) ?next"
      "watcher_cursor d' = Some \<lparr>wc_LastCreatedAt = ce_CreatedDate (last ?next), wc_LastCertID = ce_ID (last ?next), wc_UpdatedAt = u\<rparr>"
      using poll_append [OF get st(5) False fetch] by blast
    have "entries d' = entries (wd_db s0) @ map (\<lambda>c. le_EntryData (BuildEntry c)) (take (min (m + B) (length Q)) Q)"
      using m d'(2) nx(1) by (simp add: moved_def Let_def Q_def [symmetric] flip: map_append)
    moreover have "cursor_at Q (min (m + B) (length Q)) (watcher_cursor d')"
      using d'(3) nx(3,4) by (simp add: cursor_at_def) (metis gr_implies_not0 list.size(3))
    moreover have "int (length ?next) = int (min (m + B) (length Q)) - int m"
      using nx(2,3) by (simp add: of_nat_diff)
    ultimately have "moved s0 (min (m + B) (length Q)) (snd (pollCertificates s))"
      using poll m d'(1) st by (simp add: moved_def Let_def Q_def [symmetric])
    then show ?thesis using poll by simp
  qed
qed

lemma polls_moved:
  assumes "moved s0 0 s0" "ca_ready (wd_ca s0)" "0 < cf_BatchSize (w_cfg (wd_w s0))"
  shows "moved s0 (min (n * nat (cf_BatchSize (w_cfg (wd_w s0)))) (length (queue (w_adapter (wd_w s0)) (wd_ca s0))))
    (((\<lambda>s. snd (pollCertificates s)) ^^ n) s0)"
proof (induction n)
  case 0
  show ?case using assms(1) by simp
next
  case (Suc n)
  let ?B = "nat (cf_BatchSize (w_cfg (wd_w s0)))" and ?l = "length (queue (w_adapter (wd_w s0)) (wd_ca s0))"
  obtain s' where "pollCertificates (((\<lambda>s. snd (pollCertificates s)) ^^ n) s0) = (Inr (), s')"
    "moved s0 (min (min (n * ?B) ?l + ?B) ?l) s'"
    using poll_step [OF Suc assms(2,3)] by blast
  moreover have "min (min (n * ?B) ?l + ?B) ?l = min (Suc n * ?B) ?l" by (simp add: min_def)
  ultimately show ?case by simp
qed

section \<open>Properties\<close>

text \<open>
  C28. Nothing is lost and nothing is logged twice: from a log without a cursor, \<open>n\<close> polls
  append exactly the first \<open>n\<close> batches of the CA's certificates, each once, in the order of
  creation date and id, and count them; so enough polls move them all.
\<close>

theorem polls_log_every_certificate:
  fixes n :: nat and s :: world
  assumes "(log_step cr cs)\<^sup>*\<^sup>* empty_db (wd_db s)" "watcher_cursor (wd_db s) = None"
    and "ca_ready (wd_ca s)" "0 < cf_BatchSize (w_cfg (wd_w s))"
  defines "Q \<equiv> queue (w_adapter (wd_w s)) (wd_ca s)" and "s' \<equiv> ((\<lambda>t. snd (pollCertificates t)) ^^ n) s"
  shows "entries (wd_db s') = entries (wd_db s) @
      map (\<lambda>c. le_EntryData (BuildEntry c)) (take (n * nat (cf_BatchSize (w_cfg (wd_w s)))) Q) \<and>
    w_certsProcessed (wd_w s') = w_certsProcessed (wd_w s) + int (min (n * nat (cf_BatchSize (w_cfg (wd_w s)))) (length Q)) \<and>
    (length Q \<le> n * nat (cf_BatchSize (w_cfg (wd_w s))) \<longrightarrow>
       entries (wd_db s') = entries (wd_db s) @ map (\<lambda>c. le_EntryData (BuildEntry c)) Q)"
proof -
  let ?k = "n * nat (cf_BatchSize (w_cfg (wd_w s)))"
  have "moved s 0 s"
    using reachable_ready [OF assms(1)] assms(2) by (simp add: moved_def cursor_at_def)
  from polls_moved [OF this assms(3,4), of n] have "moved s (min ?k (length Q)) s'"
    by (simp add: Q_def s'_def)
  moreover have "take (min ?k (length Q)) Q = take ?k Q" by (simp add: min_def)
  ultimately show ?thesis by (simp add: moved_def Let_def Q_def [symmetric])
qed

text \<open>
  A poll whose read of the cursor fails, for whatever reason, starts again at the epoch.
  With the cursor at the end of the queue a poll appends nothing; with the same cursor and one
  failing statement the first batch of certificates is appended to the log a second time, and
  the poll reports success.
\<close>

lemma cursor_fault_duplicates:
  assumes "(log_step cr cs)\<^sup>*\<^sup>* empty_db (wd_db s)" "ca_ready (wd_ca s)" "0 < cf_BatchSize (w_cfg (wd_w s))"
  defines "Q \<equiv> queue (w_adapter (wd_w s)) (wd_ca s)"
  assumes "Q \<noteq> []" "cursor_at Q (length Q) (watcher_cursor (wd_db s))"
  shows "pollCertificates s = (Inr (), s) \<and>
    (\<exists>s'. pollCertificates (s\<lparr>wd_db := (wd_db s)\<lparr>db_sched := [True]\<rparr>\<rparr>) = (Inr (), s') \<and>
      entries (wd_db s') = entries (wd_db s) @
        map (\<lambda>c. le_EntryData (BuildEntry c)) (take (nat (cf_BatchSize (w_cfg (wd_w s)))) Q))"
proof (rule conjI)
  let ?d = "wd_db s" and ?a = "w_adapter (wd_w s)" and ?b = "cf_BatchSize (w_cfg (wd_w s))"
  let ?t = "s\<lparr>wd_db := ?d\<lparr>db_sched := [True]\<rparr>\<rparr>" and ?certs = "take (nat ?b) Q"
  have ready: "log_ready ?d" by (rule reachable_ready [OF assms(1)])
  note fetch = Fetch_run [OF assms(2), of ?b ?a] and left = remaining [OF assms(2), of ?a]
  show "pollCertificates s = (Inr (), s)"
    using poll_idle [OF GetWatcherCursor_run, of s] ready fetch assms(3) left [OF assms(6) [unfolded Q_def]]
    by (simp add: log_ready_def Q_def)
  have "?d\<lparr>db_sched := []\<rparr> = ?d" using ready by (cases ?d) (simp add: log_ready_def no_faults_def)
  then have get: "GetWatcherCursor (wd_db ?t) = (Inl (Wrap ''store.GetWatcherCursor: %w'' ErrDB), ?d)"
    by (simp add: GetWatcherCursor_def wrap_def query_def stmt_def)
  have "FetchNewCertificates ?a zero_time '''' ?b (wd_ca s) = (Inr ?certs, wd_ca s)"
    using fetch assms(3) left [of 0 None] by (simp add: cursor_at_def cursor_or_epoch_def Q_def)
  moreover have "?certs \<noteq> []" using assms(3,5) by simp
  ultimately show "\<exists>s'. pollCertificates ?t = (Inr (), s') \<and>
      entries (wd_db s') = entries ?d @ map (\<lambda>c. le_EntryData (BuildEntry c)) ?certs"
    using poll_append [OF get ready, of ?certs "wd_ca s"] by (auto simp: cursor_or_epoch_def)
qed

subsection \<open>Witnesses\<close>

definition demo_watcher :: Watcher where
  "demo_watcher = \<lparr>w_adapter = \<lparr>ad_IssuerID = '''', ad_caCache = (\<lambda>_. None)\<rparr>, w_cosigner = toy_cosigner,
     w_cfg = \<lparr>cf_PollInterval = 1, cf_CheckpointInterval = 1, cf_BatchSize = 1, cf_RevocationPollInterval = 1,
       cf_HousekeepingInterval = 0, cf_StaleBundleRetention = 0, cf_CheckpointRetention = 0, cf_CheckpointKeepRecent = 0,
       cf_EventRetention = 0, cf_EventKeepRecent = 0\<rparr>,
     w_hasCallback = False, w_running = False, w_lastCheckpoint = 0, w_certsProcessed = 0, w_revocsProcessed = 0, w_callbacks = []\<rparr>"

definition demo_world :: world where
  "demo_world = \<lparr>wd_db = demo_log, wd_ca = \<lparr>ca_rows = [], cert_rows = [demo_cert\<lparr>ce_ID := ''b'', ce_CertBlob := [3]\<rparr>, demo_cert],
     ca_sched = []\<rparr>, wd_w = demo_watcher\<rparr>"

lemma demo_world_queue:
  "queue (w_adapter (wd_w demo_world)) (wd_ca demo_world) = [demo_cert, demo_cert\<lparr>ce_ID := ''b'', ce_CertBlob := [3]\<rparr>]"
  "ca_ready (wd_ca demo_world)" "cf_BatchSize (w_cfg (wd_w demo_world)) = 1"
  by (simp_all add: demo_world_def demo_watcher_def queue_def sort_certs_def demo_cert_def after_def ca_ready_def keyed_def zero_time_def)

lemma demo_entries:
  "le_EntryData (BuildEntry demo_cert) = [1, 0, 2, 0, 0, 0, 1, 2]"
  "le_EntryData (BuildEntry (demo_cert\<lparr>ce_ID := ''b'', ce_CertBlob := [3]\<rparr>)) = [1, 0, 1, 0, 0, 0, 3]"
proof -
  have "le_bytes 2 1 = [1, 0]" "le_bytes 4 2 = [2, 0, 0, 0]" "le_bytes 4 1 = [1, 0, 0, 0]" by code_simp+
  then show "le_EntryData (BuildEntry demo_cert) = [1, 0, 2, 0, 0, 0, 1, 2]"
    "le_EntryData (BuildEntry (demo_cert\<lparr>ce_ID := ''b'', ce_CertBlob := [3]\<rparr>)) = [1, 0, 1, 0, 0, 0, 3]"
    by (simp_all add: BuildEntry_def demo_cert_def log_entry_def EntryTypeCertificate_def Let_def numeral_2_eq_2)
qed

theorem polls_log_every_certificate_witness:
  "entries (wd_db (((\<lambda>s. snd (pollCertificates s)) ^^ 2) demo_world)) =
     [NullEntryBytes, [7], [1, 0, 2, 0, 0, 0, 1, 2], [1, 0, 1, 0, 0, 0, 3]]"
proof -
  have "wd_db demo_world = demo_log" by (simp add: demo_world_def)
  with polls_log_every_certificate [where s = demo_world and n = 2 and cr = toy_crypto and cs = toy_cosigner] show ?thesis
    by (simp add: demo_world_queue demo_log_run demo_log_rows demo_entries)
qed

lemma cursor_fault_duplicates_witness:
  "\<exists>d s'. watcher_cursor d = Some \<lparr>wc_LastCreatedAt = 0, wc_LastCertID = ''b'', wc_UpdatedAt = 5\<rparr> \<and>
     pollCertificates (demo_world\<lparr>wd_db := d\<rparr>) = (Inr (), demo_world\<lparr>wd_db := d\<rparr>) \<and>
     pollCertificates (demo_world\<lparr>wd_db := d\<lparr>db_sched := [True]\<rparr>\<rparr>) = (Inr (), s') \<and>
     entries (wd_db s') = [NullEntryBytes, [7], [1, 0, 2, 0, 0, 0, 1, 2]]"
proof -
  let ?d = "demo_log\<lparr>watcher_cursor := Some \<lparr>wc_LastCreatedAt = 0, wc_LastCertID = ''b'', wc_UpdatedAt = 5\<rparr>\<rparr>"
  let ?s = "demo_world\<lparr>wd_db := ?d\<rparr>"
  have "log_frame demo_log ?d"
    using reachable_ready [OF demo_log_run(1)] by (simp add: log_frame_def log_ready_def no_faults_def)
  then have run: "(log_step toy_crypto toy_cosigner)\<^sup>*\<^sup>* empty_db (wd_db ?s)"
    using demo_log_run(1) [of toy_crypto toy_cosigner] by (auto intro: rtranclp.rtrancl_into_rtrancl log_step.other)
  have at: "cursor_at (queue (w_adapter (wd_w ?s)) (wd_ca ?s)) (length (queue (w_adapter (wd_w ?s)) (wd_ca ?s))) (watcher_cursor (wd_db ?s))"
    by (simp add: demo_world_queue cursor_at_def demo_cert_def)
  have "entries ?d = entries demo_log" by (simp add: entries_def)
  with cursor_fault_duplicates [OF run _ _ _ at]
  obtain s' where "pollCertificates ?s = (Inr (), ?s)" "pollCertificates (demo_world\<lparr>wd_db := ?d\<lparr>db_sched := [True]\<rparr>\<rparr>) = (Inr (), s')"
    "entries (wd_db s') = [NullEntryBytes, [7], [1, 0, 2, 0, 0, 0, 1, 2]]"
    by (auto simp: demo_world_queue demo_log_run demo_entries)
  then show ?thesis by (intro exI [of _ ?d] exI [of _ s']) simp
qed

end
