(* ===== verification/Certutil.thy ===== *)
theory Certutil
  imports Issuancelog GoStrings
begin

text \<open>
  \<open>src/internal/certutil/parse.go\<close>: metadata of certificates and of log entries. The parser
  \<open>x509.ParseCertificate\<close> is an argument of the definitions; its result is the record of the
  fields that the program reads, in which algorithms and URIs are already the texts of their
  \<open>String\<close> methods.
\<close>

section \<open>Parsed certificates\<close>

record pkix_Name =
  nm_CommonName :: string
  nm_Organization :: "string list"
  nm_OrganizationalUnit :: "string list"
  nm_Country :: "string list"
  nm_Province :: "string list"
  nm_Locality :: "string list"

record x509_Certificate =
  x_Subject :: pkix_Name
  x_Issuer :: pkix_Name
  x_SerialNumber :: int
  x_NotBefore :: int
  x_NotAfter :: int
  x_PublicKeyAlgorithm :: string
  x_SignatureAlgorithm :: string
  x_IsCA :: bool
  x_KeyUsage :: nat
  x_ExtKeyUsage :: "int list"
  x_DNSNames :: "string list"
  x_IPAddresses :: "bytes list"
  x_EmailAddresses :: "string list"
  x_URIs :: "string list"
  x_CRLDistributionPoints :: "string list"
  x_OCSPServer :: "string list"
  x_IssuingCertificateURL :: "string list"

type_synonym x509_parser = "bytes \<Rightarrow> goerr + x509_Certificate"

record CertMeta =
  me_CommonName :: string
  me_Organization :: "string list"
  me_OrganizationalUnit :: "string list"
  me_Country :: "string list"
  me_Province :: "string list"
  me_Locality :: "string list"
  me_SerialNumber :: string
  me_SANs :: "string list"
  me_IssuerCN :: string
  me_IssuerOrganization :: "string list"
  me_NotBefore :: int
  me_NotAfter :: int
  me_KeyAlgorithm :: string
  me_SignatureAlgorithm :: string
  me_KeyUsage :: string
  me_IsCA :: bool
  me_ExtKeyUsage :: "string list"
  me_CRLEndpoints :: "string list"
  me_OCSPServers :: "string list"
  me_IssuingCertURL :: "string list"

section \<open>Numbers and addresses as text\<close>

definition formatSerial :: "bytes \<Rightarrow> string" where
  "formatSerial b = (if length b = 0 then ''0'' else ToUpper (hex_EncodeToString b))"

text \<open>
  \<open>net.IP.String\<close>: dotted decimal for IPv4, also when mapped into IPv6; otherwise eight groups
  in which the first of the longest runs of two or more zero groups is written as two colons.
\<close>

function hex_nat :: "nat \<Rightarrow> string" where
  "hex_nat n = (if n < 16 then [hex_digit n] else hex_nat (n div 16) @ [hex_digit (n mod 16)])"
  by pat_completeness auto
termination by (relation "measure id") auto

declare hex_nat.simps [simp del]

fun groups16 :: "bytes \<Rightarrow> nat list" where
  "groups16 (a # b # bs) = (unat a * 256 + unat b) # groups16 bs"
| "groups16 _ = []"

definition zero_run :: "nat list \<Rightarrow> nat \<times> nat" where
  "zero_run gs = foldl (\<lambda>(s, l) i. let n = length (takeWhile (\<lambda>g. g = 0) (drop i gs))
     in if n \<ge> 2 \<and> n > l then (i, n) else (s, l)) (0, 0) [0..<length gs]"

definition ip6_String :: "nat list \<Rightarrow> string" where
  "ip6_String gs =
     (let (s, l) = zero_run gs; text = (\<lambda>gs. Join '':'' (map hex_nat gs))
      in if l = 0 then text gs else text (take s gs) @ ''::'' @ text (drop (s + l) gs))"

definition ip_String :: "bytes \<Rightarrow> string" where
  "ip_String ip =
     (let dotted = (\<lambda>b. Join ''.'' (map (\<lambda>x. dec_nat (unat x)) b)) in
      if length ip = 0 then ''<nil>''
      else if length ip = 4 then dotted ip
      else if length ip \<noteq> 16 then CHR ''?'' # hex_EncodeToString ip
      else if take 12 ip = replicate 10 0 @ [0xff, 0xff] then dotted (drop 12 ip)
      else ip6_String (groups16 ip))"

section \<open>Usages\<close>

definition formatKeyUsage :: "nat \<Rightarrow> string" where
  "formatKeyUsage ku =
     Join '', '' (map snd (filter (\<lambda>(b, _). bit ku b)
       [(0, ''Digital Signature''), (1, ''Content Commitment''), (2, ''Key Encipherment''), (3, ''Data Encipherment''),
        (4, ''Key Agreement''), (5, ''Certificate Sign''), (6, ''CRL Sign''), (7, ''Encipher Only''), (8, ''Decipher Only'')]))"

definition ext_key_usage_name :: "int \<Rightarrow> string" where
  "ext_key_usage_name eku =
     (if eku = 0 then ''Any''
      else if eku = 1 then ''Server Authentication''
      else if eku = 2 then ''Client Authentication''
      else if eku = 3 then ''Code Signing''
      else if eku = 4 then ''Email Protection''
      else if eku = 8 then ''Time Stamping''
      else if eku = 9 then ''OCSP Signing''
      else ''Unknown('' @ dec_int eku @ '')'')"

definition formatExtKeyUsage :: "int list \<Rightarrow> string list" where
  "formatExtKeyUsage ekus = map ext_key_usage_name ekus"

section \<open>Metadata\<close>

definition fromCert :: "x509_Certificate \<Rightarrow> CertMeta" where
  "fromCert cert =
     \<lparr>me_CommonName = nm_CommonName (x_Subject cert),
      me_Organization = nm_Organization (x_Subject cert),
      me_OrganizationalUnit = nm_OrganizationalUnit (x_Subject cert),
      me_Country = nm_Country (x_Subject cert),
      me_Province = nm_Province (x_Subject cert),
      me_Locality = nm_Locality (x_Subject cert),
      me_SerialNumber = formatSerial (big_Bytes (nat \<bar>x_SerialNumber cert\<bar>)),
      me_SANs = x_DNSNames cert @ map ip_String (x_IPAddresses cert) @ x_EmailAddresses cert @ x_URIs cert,
      me_IssuerCN = nm_CommonName (x_Issuer cert),
      me_IssuerOrganization = nm_Organization (x_Issuer cert),
      me_NotBefore = x_NotBefore cert,
      me_NotAfter = x_NotAfter cert,
      me_KeyAlgorithm = x_PublicKeyAlgorithm cert,
      me_SignatureAlgorithm = x_SignatureAlgorithm cert,
      me_KeyUsage = formatKeyUsage (x_KeyUsage cert),
      me_IsCA = x_IsCA cert,
      me_ExtKeyUsage = formatExtKeyUsage (x_ExtKeyUsage cert),
      me_CRLEndpoints = x_CRLDistributionPoints cert,
      me_OCSPServers = x_OCSPServer cert,
      me_IssuingCertURL = x_IssuingCertificateURL cert\<rparr>"

definition ParseDER :: "x509_parser \<Rightarrow> bytes \<Rightarrow> goerr + CertMeta" where
  "ParseDER parse der =
     (case parse der of Inl err \<Rightarrow> Inl (Wrap ''certutil.ParseDER: %w'' err) | Inr cert \<Rightarrow> Inr (fromCert cert))"

text \<open>
  The bytes of the certificate are returned also when it does not parse. The end of the slice
  is computed in 32 bits; where that wraps around the slice expression panics (\<open>None\<close>).
\<close>

definition ParseLogEntry :: "x509_parser \<Rightarrow> bytes \<Rightarrow> (CertMeta option \<times> bytes \<times> goerr option) option" where
  "ParseLogEntry parse entryData =
     (if length entryData < 6 then Some (None, [], Some (Errorf ''certutil.ParseLogEntry: entry too short (%d bytes)''))
      else let entryType = le_nat (take 2 entryData) in
      if entryType = 0 then Some (None, [], Some (Errorf ''certutil.ParseLogEntry: null entry (type 0)''))
      else if entryType \<noteq> 1 then Some (None, [], Some (Errorf ''certutil.ParseLogEntry: unsupported entry type %d''))
      else let derLen = le_nat (take 4 (drop 2 entryData)) in
      if derLen + 6 > length entryData
      then Some (None, [], Some (Errorf ''certutil.ParseLogEntry: DER length %d exceeds entry size %d''))
      else if (6 + derLen) mod 2 ^ 32 < 6 then None
      else let der = take derLen (drop 6 entryData) in
      case ParseDER parse der of
        Inl err \<Rightarrow> Some (None, der, Some err)
      | Inr meta \<Rightarrow> Some (Some meta, der, None))"

section \<open>Properties\<close>

lemma le_nat_le_bytes: "n < 256 ^ k \<Longrightarrow> le_nat (le_bytes k n) = n"
  by (simp add: le_nat_def le_bytes_def be_nat_be_bytes)

lemma BuildEntry_data: "le_EntryData (BuildEntry c) = le_bytes 2 1 @ le_bytes 4 (length (ce_CertBlob c)) @ ce_CertBlob c"
  by (simp add: BuildEntry_def log_entry_def EntryTypeCertificate_def Let_def)

text \<open>
  What the issuance log stores for a certificate, \<open>ParseLogEntry\<close> takes apart again: it
  returns the bytes of the certificate, and the metadata when they parse, for every
  certificate whose length and six bytes of header fit in 32 bits.
\<close>

lemma log_entry_roundtrip:
  assumes "length (ce_CertBlob c) + 6 < 2 ^ 32"
  shows "ParseLogEntry parse (le_EntryData (BuildEntry c)) =
    Some (case ParseDER parse (ce_CertBlob c) of
        Inl err \<Rightarrow> (None, ce_CertBlob c, Some err) | Inr meta \<Rightarrow> (Some meta, ce_CertBlob c, None))"
proof -
  let ?b = "ce_CertBlob c"
  let ?e = "le_bytes 2 1 @ le_bytes 4 (length ?b) @ ?b"
  have len: "length (le_bytes k n) = k" for k n by (simp add: le_bytes_def)
  have "le_nat (take 2 ?e) = 1" "le_nat (take 4 (drop 2 ?e)) = length ?b"
    using assms by (simp_all add: len le_nat_le_bytes)
  moreover have "take (length ?b) (drop 6 ?e) = ?b" "length ?e = 6 + length ?b" by (simp_all add: len)
  moreover have "(6 + length ?b) mod 2 ^ 32 = 6 + length ?b" using assms by simp
  ultimately show ?thesis
    unfolding BuildEntry_data ParseLogEntry_def Let_def by (simp split: sum.split)
qed

end
