(* ===== verification/Assertion.thy ===== *)
theory Assertion
  imports Certutil Revocation
begin

text \<open>
  \<open>src/internal/assertion\<close>: assertion bundles. \<open>bundle.go\<close> builds the bundle of an entry from
  the store, \<open>format.go\<close> prints and verifies it. The JSON form is the document, not its text.
\<close>

section \<open>Bundles\<close>

record Bundle =
  bu_LeafIndex :: int
  bu_SerialHex :: string
  bu_CertDER :: bytes
  bu_CertMeta :: "CertMeta option"
  bu_LeafHash :: string
  bu_Proof :: "string list"
  bu_TreeSize :: int
  bu_RootHash :: string
  bu_Checkpoint :: string
  bu_MTCMode :: bool
  bu_SubtreeStart :: "64 word"
  bu_SubtreeEnd :: "64 word"
  bu_Signatures :: "string list"
  bu_Revoked :: bool
  bu_RevokedAt :: "int option"
  bu_LogOrigin :: string
  bu_CreatedAt :: int

record Builder =
  bd_logOrigin :: string

text \<open>The metadata and the certificate of an entry; both stay empty when it does not parse.\<close>

definition entry_cert :: "x509_parser \<Rightarrow> LogEntry \<Rightarrow> (CertMeta option \<times> bytes) option" where
  "entry_cert parse detail =
     (if le_EntryType detail = 1 \<and> length (le_EntryData detail) > 6 then
        (case ParseLogEntry parse (le_EntryData detail) of
           None \<Rightarrow> None
         | Some (meta, der, None) \<Rightarrow> Some (meta, der)
         | Some (_, _, Some err) \<Rightarrow> Some (None, []))
      else Some (None, []))"

definition BuildByIndex :: "x509_parser \<Rightarrow> Builder \<Rightarrow> int \<Rightarrow> db \<Rightarrow> (goerr + Bundle) option \<times> db" where
  "BuildByIndex parse b idx d =
     (case GetEntryDetail idx d of
        (Inl err, d1) \<Rightarrow>
          (Some (Inl (if errors_Is_NoRows err then Errorf ''entry at index %d not found''
                      else Wrap ''assertion.BuildByIndex: get entry: %w'' err)), d1)
      | (Inr detail, d1) \<Rightarrow>
        if le_EntryType (sr_Entry detail) = 0
        then (Some (Inl (Errorf ''entry at index %d is a null sentinel, not a certificate'')), d1)
        else case LatestCheckpoint d1 of
          (Inl err, d2) \<Rightarrow> (Some (Inl (Wrap ''assertion.BuildByIndex: latest checkpoint: %w'' err)), d2)
        | (Inr cp, d2) \<Rightarrow>
          if idx \<ge> cp_TreeSize cp
          then (Some (Inl (Errorf ''entry index %d >= tree size %d (not yet checkpointed)'')), d2)
          else let leafHash = LeafHash (le_EntryData (sr_Entry detail)) in
          case InclusionProofFromNodes idx (cp_TreeSize cp) (node_at d2) of
            None \<Rightarrow> (None, d2)
          | Some (Inl err) \<Rightarrow> (Some (Inl (Wrap ''assertion.BuildByIndex: inclusion proof: %w'' err)), d2)
          | Some (Inr proof) \<Rightarrow>
            (case entry_cert parse (sr_Entry detail) of
               None \<Rightarrow> (None, d2)
             | Some (certMeta, certDER) \<Rightarrow>
               (Some (Inr \<lparr>bu_LeafIndex = idx, bu_SerialHex = le_SerialHex (sr_Entry detail),
                  bu_CertDER = certDER, bu_CertMeta = certMeta,
                  bu_LeafHash = hex_EncodeToString (hash_bytes leafHash),
                  bu_Proof = map (\<lambda>ph. hex_EncodeToString (hash_bytes ph)) proof,
                  bu_TreeSize = cp_TreeSize cp, bu_RootHash = hex_EncodeToString (cp_RootHash cp),
                  bu_Checkpoint = cp_Body cp, bu_MTCMode = False, bu_SubtreeStart = 0, bu_SubtreeEnd = 0, bu_Signatures = [],
                  bu_Revoked = sr_Revoked detail, bu_RevokedAt = sr_RevokedAt detail,
                  bu_LogOrigin = bd_logOrigin b, bu_CreatedAt = db_now d2\<rparr>), d2)))"

definition BuildBySerial :: "x509_parser \<Rightarrow> Builder \<Rightarrow> string \<Rightarrow> db \<Rightarrow> (goerr + Bundle) option \<times> db" where
  "BuildBySerial parse b serialHex d =
     (case FindEntryBySerial serialHex d of
        (Inl err, d1) \<Rightarrow>
          (Some (Inl (if errors_Is_NoRows err then Errorf ''certificate with serial %s not found''
                      else Wrap ''assertion.BuildBySerial: %w'' err)), d1)
      | (Inr idx, d1) \<Rightarrow> BuildByIndex parse b idx d1)"

text \<open>A query that reads as a number that is not negative is an index, anything else a serial.\<close>

definition Resolve :: "x509_parser \<Rightarrow> Builder \<Rightarrow> string \<Rightarrow> db \<Rightarrow> (goerr + Bundle) option \<times> db" where
  "Resolve parse b q d =
     (case ParseInt q of
        Inr idx \<Rightarrow> if idx \<ge> 0 then BuildByIndex parse b idx d else BuildBySerial parse b q d
      | Inl _ \<Rightarrow> BuildBySerial parse b q d)"

section \<open>Formats\<close>

text \<open>Fields marked \<open>omitempty\<close> are left out when they hold the zero value of their type.\<close>

definition omit_empty :: "string \<Rightarrow> json \<Rightarrow> (string \<times> json) list" where
  "omit_empty key v = (if v \<in> {JStr '''', JArr [], JNum 0, JBool False, JNull} then [] else [(key, v)])"

definition jstrs :: "string list \<Rightarrow> json" where
  "jstrs xs = JArr (map JStr xs)"

definition CertMeta_json :: "CertMeta \<Rightarrow> json" where
  "CertMeta_json m = JObj (
     omit_empty ''common_name'' (JStr (me_CommonName m)) @
     omit_empty ''organization'' (jstrs (me_Organization m)) @
     omit_empty ''organizational_unit'' (jstrs (me_OrganizationalUnit m)) @
     omit_empty ''country'' (jstrs (me_Country m)) @
     omit_empty ''province'' (jstrs (me_Province m)) @
     omit_empty ''locality'' (jstrs (me_Locality m)) @
     [(''serial_number'', JStr (me_SerialNumber m))] @
     omit_empty ''sans'' (jstrs (me_SANs m)) @
     omit_empty ''issuer_cn'' (JStr (me_IssuerCN m)) @
     omit_empty ''issuer_organization'' (jstrs (me_IssuerOrganization m)) @
     [(''not_before'', JTime (me_NotBefore m)), (''not_after'', JTime (me_NotAfter m)),
      (''key_algorithm'', JStr (me_KeyAlgorithm m)), (''signature_algorithm'', JStr (me_SignatureAlgorithm m))] @
     omit_empty ''key_usage'' (JStr (me_KeyUsage m)) @
     [(''is_ca'', JBool (me_IsCA m))] @
     omit_empty ''ext_key_usage'' (jstrs (me_ExtKeyUsage m)) @
     omit_empty ''crl_endpoints'' (jstrs (me_CRLEndpoints m)) @
     omit_empty ''ocsp_servers'' (jstrs (me_OCSPServers m)) @
     omit_empty ''issuing_cert_url'' (jstrs (me_IssuingCertURL m)))"

definition FormatJSON :: "Bundle \<Rightarrow> json" where
  "FormatJSON b = JObj (
     [(''leaf_index'', JNum (bu_LeafIndex b))] @
     omit_empty ''serial_hex'' (JStr (bu_SerialHex b)) @
     omit_empty ''cert_der'' (JStr (base64_EncodeToString (bu_CertDER b))) @
     omit_empty ''cert_meta'' (case bu_CertMeta b of None \<Rightarrow> JNull | Some m \<Rightarrow> CertMeta_json m) @
     [(''leaf_hash'', JStr (bu_LeafHash b)), (''proof'', jstrs (bu_Proof b)),
      (''tree_size'', JNum (bu_TreeSize b)), (''root_hash'', JStr (bu_RootHash b)), (''checkpoint'', JStr (bu_Checkpoint b))] @
     omit_empty ''mtc_mode'' (JBool (bu_MTCMode b)) @
     omit_empty ''subtree_start'' (JNum (uint (bu_SubtreeStart b))) @
     omit_empty ''subtree_end'' (JNum (uint (bu_SubtreeEnd b))) @
     omit_empty ''signatures'' (jstrs (bu_Signatures b)) @
     [(''revoked'', JBool (bu_Revoked b))] @
     omit_empty ''revoked_at'' (case bu_RevokedAt b of None \<Rightarrow> JNull | Some t \<Rightarrow> JTime t) @
     [(''log_origin'', JStr (bu_LogOrigin b)), (''created_at'', JTime (bu_CreatedAt b))])"

fun proof_lines :: "string list \<Rightarrow> goerr + string" where
  "proof_lines [] = Inr []"
| "proof_lines (ph # phs) =
     (case hex_DecodeString ph of
        Inl err \<Rightarrow> Inl (Wrap ''assertion.FormatPEM: invalid proof hash: %w'' err)
      | Inr hashBytes \<Rightarrow>
          (case proof_lines phs of Inl err \<Rightarrow> Inl err | Inr rest \<Rightarrow> Inr (base64_EncodeToString hashBytes @ [NL] @ rest)))"

function lines76 :: "string \<Rightarrow> string" where
  "lines76 s = (if s = [] then [] else take 76 s @ [NL] @ lines76 (drop 76 s))"
  by pat_completeness auto
termination by (relation "measure length") auto

declare lines76.simps [simp del]

definition FormatPEM :: "Bundle \<Rightarrow> goerr + string" where
  "FormatPEM b =
     (case proof_lines (bu_Proof b) of
        Inl err \<Rightarrow> Inl err
      | Inr ps \<Rightarrow> Inr (
          ''-----BEGIN MTC ASSERTION BUNDLE-----'' @ [NL] @
          ''Log-Origin: '' @ bu_LogOrigin b @ [NL] @
          ''Leaf-Index: '' @ dec_int (bu_LeafIndex b) @ [NL] @
          ''Tree-Size: '' @ dec_int (bu_TreeSize b) @ [NL] @
          ''Root-Hash: '' @ bu_RootHash b @ [NL] @
          ''Leaf-Hash: '' @ bu_LeafHash b @ [NL] @
          (if bu_SerialHex b \<noteq> '''' then ''Serial: '' @ bu_SerialHex b @ [NL] else '''') @
          ''Revoked: '' @ (if bu_Revoked b then ''true'' else ''false'') @ [NL] @ [NL] @
          bu_Checkpoint b @ (if HasSuffix (bu_Checkpoint b) [NL] then '''' else [NL]) @ [NL] @
          ps @
          (if length (bu_CertDER b) > 0 then [NL] @ lines76 (base64_EncodeToString (bu_CertDER b)) else '''') @
          ''-----END MTC ASSERTION BUNDLE-----'' @ [NL]))"

fun decode_hashes :: "string list \<Rightarrow> goerr + hash list" where
  "decode_hashes [] = Inr []"
| "decode_hashes (ph # phs) =
     (case hex_DecodeString ph of
        Inl err \<Rightarrow> Inl (Wrap ''assertion.Verify: invalid proof[%d]: %w'' err)
      | Inr b \<Rightarrow> (case decode_hashes phs of Inl err \<Rightarrow> Inl err | Inr hs \<Rightarrow> Inr (bytes_hash b # hs)))"

definition Verify_bundle :: "Bundle \<Rightarrow> goerr + bool" where
  "Verify_bundle b =
     (case hex_DecodeString (bu_LeafHash b) of
        Inl err \<Rightarrow> Inl (Wrap ''assertion.Verify: invalid leaf hash: %w'' err)
      | Inr leafBytes \<Rightarrow>
        (case hex_DecodeString (bu_RootHash b) of
           Inl err \<Rightarrow> Inl (Wrap ''assertion.Verify: invalid root hash: %w'' err)
         | Inr rootBytes \<Rightarrow>
           (case decode_hashes (bu_Proof b) of
              Inl err \<Rightarrow> Inl err
            | Inr proofHashes \<Rightarrow>
                Inr (VerifyInclusion (bytes_hash leafBytes) (bu_LeafIndex b) (bu_TreeSize b) proofHashes (bytes_hash rootBytes)))))"

section \<open>Bundles of a reachable log\<close>

text \<open>
  What a bundle promises: it names the entry, its leaf hash is that of the logged bytes, its
  proof has the length of the path in a tree of the checkpoint's size and leads to the root
  that the checkpoint signs, and the note of that checkpoint is included.
\<close>

definition bundle_ok :: "db \<Rightarrow> Checkpoint \<Rightarrow> int \<Rightarrow> Bundle \<Rightarrow> bool" where
  "bundle_ok d cp idx b \<longleftrightarrow>
     (let e = log_entries d ! nat idx; leaf = LeafHash (le_EntryData e) in
      bu_LeafIndex b = idx \<and> bu_SerialHex b = le_SerialHex e \<and> (bu_Revoked b \<longleftrightarrow> idx \<in> revoked d) \<and>
      bu_TreeSize b = cp_TreeSize cp \<and> bu_Checkpoint b = cp_Body cp \<and>
      bu_LeafHash b = hex_EncodeToString (hash_bytes leaf) \<and> bu_RootHash b = hex_EncodeToString (cp_RootHash cp) \<and>
      (\<exists>pf r. bu_Proof b = map (\<lambda>h. hex_EncodeToString (hash_bytes h)) pf \<and> pathLen idx (cp_TreeSize cp) = Some (length pf) \<and>
         RootFromInclusionProof idx (cp_TreeSize cp) leaf pf = Some r \<and> cp_RootHash cp = hash_bytes r))"

lemma numbered_nth: "numbered es \<Longrightarrow> k < length es \<Longrightarrow> le_Index (es ! k) = int k"
  unfolding numbered_def by (drule arg_cong [where f = "\<lambda>xs. xs ! k"]) simp

lemma numbered_filter:
  assumes "numbered es" "0 \<le> i" "i < int (length es)"
  shows "filter (\<lambda>r. le_Index r = i) es = [es ! nat i]"
proof -
  note idx = numbered_nth [OF assms(1)]
  have k: "nat i < length es" using assms(2,3) by linarith
  have es: "es = take (nat i) es @ es ! nat i # drop (Suc (nat i)) es" using k by (simp add: id_take_nth_drop)
  have "le_Index x \<noteq> i" if x: "x \<in> set (take (nat i) es)" for x
  proof -
    obtain j where "j < nat i" "x = es ! j" using x by (auto simp: in_set_conv_nth)
    then show ?thesis using idx [of j] k by simp
  qed
  then have "filter (\<lambda>r. le_Index r = i) (take (nat i) es) = []" by (simp add: filter_empty_conv)
  moreover have "le_Index x \<noteq> i" if x: "x \<in> set (drop (Suc (nat i)) es)" for x
  proof -
    obtain j where "j < length es - Suc (nat i)" "x = es ! (Suc (nat i) + j)" using x by (auto simp: in_set_conv_nth)
    then show ?thesis using idx [of "Suc (nat i) + j"] by simp
  qed
  then have "filter (\<lambda>r. le_Index r = i) (drop (Suc (nat i)) es) = []" by (simp add: filter_empty_conv)
  moreover have "le_Index (es ! nat i) = i" using idx [OF k] assms(2) by simp
  ultimately show ?thesis by (subst es) simp
qed

lemma GetEntryDetail_run:
  assumes "log_ready d" "0 \<le> i" "i < log_size d"
  shows "GetEntryDetail i d = (Inr (search_row d (log_entries d ! nat i)), d)"
  using assms numbered_filter [of "log_entries d" i]
  by (simp add: GetEntryDetail_def run_simps log_ready_def log_inv_def log_size_def)

lemma find_None_iff_map: "find (\<lambda>r. f r = x) rs = None \<longleftrightarrow> x \<notin> set (map f rs)"
  by (auto simp: find_None_iff)

lemma search_row_revoked: "sr_Revoked (search_row d e) \<longleftrightarrow> le_Index e \<in> revoked d"
  using find_None_iff_map [of ri_EntryIdx "le_Index e" "revoked_indices d"]
  by (auto simp: search_row_def Let_def revoked_at_def revoked_def)

lemma entry_cert_total: "length (le_EntryData e) < 2 ^ 32 \<Longrightarrow> entry_cert parse e \<noteq> None"
  by (auto simp: entry_cert_def ParseLogEntry_def Let_def split: option.splits sum.splits if_splits)

lemma BuildByIndex_run:
  assumes served: "log_served d" and idx: "0 \<le> idx" "idx < cp_TreeSize cp"
    and cp: "LatestCheckpoint d = (Inr cp, d)" "cp_true (entries d) cp"
    and e: "le_EntryType (log_entries d ! nat idx) \<noteq> 0" "length (le_EntryData (log_entries d ! nat idx)) < 2 ^ 32"
  shows "\<exists>b. BuildByIndex parse bd idx d = (Some (Inr b), d) \<and> bundle_ok d cp idx b \<and>
    entry_cert parse (log_entries d ! nat idx) = Some (bu_CertMeta b, bu_CertDER b)"
proof -
  let ?e = "log_entries d ! nat idx" and ?n = "cp_TreeSize cp"
  have n: "?n \<le> log_size d" and i: "idx < log_size d"
    using cp(2) idx by (simp_all add: cp_true_def log_size_def entries_def)
  have ready: "log_ready d" using served by (simp add: log_served_def)
  have le: "entries d ! nat idx = le_EntryData ?e" using i idx(1) by (simp add: entries_def log_size_def nat_less_iff)
  have li: "le_Index ?e = idx"
    using numbered_nth [of "log_entries d" "nat idx"] ready i idx(1) by (simp add: log_ready_def log_inv_def log_size_def nat_less_iff)
  obtain pf where pf: "InclusionProofFromNodes idx ?n (node_at d) = Some (Inr pf)"
      "RootFromInclusionProof idx ?n (LeafHash (le_EntryData ?e)) pf = Some (root_of (take (nat ?n) (entries d)))"
    using served_path [OF served idx n] le by auto
  have "length pf = depth (nat idx) (nat ?n)"
    using log_nodes.InclusionProofFromNodes_path [OF served idx n] pf(1) idx by simp
  then have len: "pathLen idx ?n = Some (length pf)" using pathLen_depth [OF idx] by simp
  obtain m der where c: "entry_cert parse ?e = Some (m, der)" using entry_cert_total [OF e(2), of parse] by auto
  have ok: "\<exists>pf' r. map (\<lambda>h. hex_EncodeToString (hash_bytes h)) pf = map (\<lambda>h. hex_EncodeToString (hash_bytes h)) pf' \<and>
      pathLen idx ?n = Some (length pf') \<and> RootFromInclusionProof idx ?n (LeafHash (le_EntryData ?e)) pf' = Some r \<and> cp_RootHash cp = hash_bytes r"
    using pf(2) len cp(2) by (intro exI [of _ pf]) (simp add: cp_true_def)
  have rv: "sr_Revoked (search_row d ?e) = (idx \<in> revoked d)" using search_row_revoked [of d ?e] li by simp
  have row: "sr_Entry (search_row d ?e) = ?e" by (simp add: search_row_def Let_def)
  show ?thesis
    using idx e(1) cp(1) pf(1) c
    by (simp add: BuildByIndex_def GetEntryDetail_run [OF ready idx(1) i] bundle_ok_def Let_def rv row) (use ok in blast)
qed

lemma decode_hashes_hex: "decode_hashes (map (\<lambda>h. hex_EncodeToString (hash_bytes h)) hs) = Inr hs"
  by (induction hs) simp_all

lemma proof_lines_hex: "\<exists>s. proof_lines (map (\<lambda>h. hex_EncodeToString (hash_bytes h)) hs) = Inr s"
  by (induction hs) auto

lemma FormatPEM_ok:
  assumes "bundle_ok d cp idx b" shows "\<exists>s. FormatPEM b = Inr s"
proof -
  obtain pf where "bu_Proof b = map (\<lambda>h. hex_EncodeToString (hash_bytes h)) pf" using assms by (auto simp: bundle_ok_def Let_def)
  then show ?thesis using proof_lines_hex [of pf] by (auto simp: FormatPEM_def)
qed

text \<open>\<open>Verify\<close> accepts such a bundle when the tree of its checkpoint is complete.\<close>

lemma Verify_complete:
  assumes "bundle_ok d cp idx b" "cp_TreeSize cp = 2 ^ k" "0 \<le> idx" "idx < 2 ^ k"
  shows "Verify_bundle b = Inr True"
proof -
  obtain pf r where pf: "bu_Proof b = map (\<lambda>h. hex_EncodeToString (hash_bytes h)) pf" "pathLen idx (2 ^ k) = Some (length pf)"
    "RootFromInclusionProof idx (2 ^ k) (LeafHash (le_EntryData (log_entries d ! nat idx))) pf = Some r" "cp_RootHash cp = hash_bytes r"
    using assms(1,2) by (auto simp: bundle_ok_def Let_def)
  have "nat idx < 2 ^ k" using assms(3,4) by (simp add: nat_less_iff)
  then have "length pf = k" using pf(2) pathLen_depth [OF assms(3,4)] by (simp add: nat_power_eq)
  then have "VerifyInclusion (LeafHash (le_EntryData (log_entries d ! nat idx))) idx (2 ^ k) pf r"
    using assms(3,4) pf(3) verifyInclusionLoop_root [of idx pf] by (simp add: VerifyInclusion_def)
  with assms pf(1,4) show ?thesis
    by (auto simp: Verify_bundle_def bundle_ok_def Let_def decode_hashes_hex)
qed

section \<open>Properties\<close>

text \<open>
  C33. A bundle carries a proof that holds: in a reachable log the builder returns, for every
  certificate entry below the size of the latest checkpoint, a bundle with the leaf hash of
  the logged bytes and a proof that leads to the root this checkpoint signs, together with its
  note and the revocation status. For an entry that was logged from a certificate of the CA
  that parses the bundle contains exactly that certificate. When the tree is complete the
  \<open>Verify\<close> of the package accepts the bundle.
\<close>

theorem bundle_carries_valid_proof:
  assumes "(log_step cr cs)\<^sup>*\<^sup>* empty_db d" "int (length (entries d)) < 2 ^ 63"
    and "LatestCheckpoint d = (Inr cp, d)" "0 \<le> idx" "idx < cp_TreeSize cp"
    and "le_EntryType (log_entries d ! nat idx) \<noteq> 0" "length (le_EntryData (log_entries d ! nat idx)) < 2 ^ 32"
  shows "\<exists>b. BuildByIndex parse bd idx d = (Some (Inr b), d) \<and> bundle_ok d cp idx b \<and>
    (\<forall>c x. le_EntryType (log_entries d ! nat idx) = 1 \<and> le_EntryData (log_entries d ! nat idx) = le_EntryData (BuildEntry c) \<and>
       ce_CertBlob c \<noteq> [] \<and> parse (ce_CertBlob c) = Inr x \<longrightarrow> bu_CertDER b = ce_CertBlob c \<and> bu_CertMeta b = Some (fromCert x)) \<and>
    (\<forall>k. cp_TreeSize cp = 2 ^ k \<longrightarrow> Verify_bundle b = Inr True)"
proof -
  let ?e = "log_entries d ! nat idx"
  have ready: "log_ready d" by (rule reachable_ready [OF assms(1)])
  then have served: "log_served d" using assms(2) by (simp add: log_served_def log_size_def entries_def)
  have "cp \<in> set (checkpoints d)"
    using assms(3) ready LatestCheckpoint_mem by (auto simp: log_ready_def)
  then have "cp_true (entries d) cp" using reachable_claims [OF assms(1)] by blast
  from BuildByIndex_run [OF served assms(4,5,3) this assms(6,7), of parse bd]
  obtain b where b: "BuildByIndex parse bd idx d = (Some (Inr b), d)" "bundle_ok d cp idx b"
    "entry_cert parse ?e = Some (bu_CertMeta b, bu_CertDER b)" by blast
  have "bu_CertDER b = ce_CertBlob c \<and> bu_CertMeta b = Some (fromCert x)"
    if c: "le_EntryType ?e = 1" "le_EntryData ?e = le_EntryData (BuildEntry c)" "ce_CertBlob c \<noteq> []" "parse (ce_CertBlob c) = Inr x"
    for c x
  proof -
    have len: "length (le_EntryData ?e) = length (ce_CertBlob c) + 6"
      by (simp add: c(2) BuildEntry_data le_bytes_def)
    then show ?thesis
      using b(3) assms(7) c log_entry_roundtrip [of c parse]
      by (simp add: entry_cert_def ParseDER_def)
  qed
  with b Verify_complete [OF b(2)] assms(4,5) show ?thesis by auto
qed

theorem bundle_carries_valid_proof_witness:
  "\<exists>b. BuildByIndex (\<lambda>_. Inl ErrDB) \<lparr>bd_logOrigin = ''log''\<rparr> 1 demo_cp_db = (Some (Inr b), demo_cp_db) \<and>
     bu_TreeSize b = 2 \<and> bu_LeafHash b = hex_EncodeToString (hash_bytes (LeafHash [7])) \<and> Verify_bundle b = Inr True"
proof -
  obtain cp where cp: "checkpoints demo_cp_db = [cp]" "cp_TreeSize cp = 2" using demo_cp_run(3) by blast
  note reach = rtranclp_trans [OF demo_log_run(1) demo_cp_run(1)]
  have nf: "no_faults demo_cp_db" using reachable_ready [OF reach] by (simp add: log_ready_def)
  have latest: "LatestCheckpoint demo_cp_db = (Inr cp, demo_cp_db)" using LatestCheckpoint_run [OF nf] cp(1) by auto
  obtain cps n where "demo_cp_db = demo_log\<lparr>checkpoints := cps, checkpoints_seq := n\<rparr>" using demo_cp_run(4) by blast
  then have "log_entries demo_cp_db = log_entries demo_log" by (rule ssubst) simp
  then obtain t t' where rows: "log_entries demo_cp_db = [null_entry\<lparr>le_CreatedAt := t\<rparr>, demo_entry\<lparr>le_Index := 1, le_CreatedAt := t'\<rparr>]"
    using demo_log_rows(1) by metis
  from bundle_carries_valid_proof [OF reach _ latest, of 1 "\<lambda>_. Inl ErrDB" "\<lparr>bd_logOrigin = ''log''\<rparr>"] cp(2)
  obtain b where b: "BuildByIndex (\<lambda>_. Inl ErrDB) \<lparr>bd_logOrigin = ''log''\<rparr> 1 demo_cp_db = (Some (Inr b), demo_cp_db)"
    "bundle_ok demo_cp_db cp 1 b" "\<forall>k. cp_TreeSize cp = 2 ^ k \<longrightarrow> Verify_bundle b = Inr True"
    by (auto simp: demo_cp_run(2) rows demo_entry_def log_entry_def)
  have "cp_TreeSize cp = 2 ^ 1" using cp(2) by simp
  then have "Verify_bundle b = Inr True" using b(3) by blast
  with b(1,2) cp(2) show ?thesis by (simp add: bundle_ok_def rows demo_entry_def log_entry_def Let_def)
qed

end
