(* ===== verification/Assertionissuer.thy ===== *)
theory Assertionissuer
  imports Assertion
begin

text \<open>
  \<open>src/internal/assertionissuer\<close>: the pipeline that builds the bundles of a checkpoint. The
  goroutines of \<open>buildAndStore\<close> only read the store; the order in which their results arrive
  is an argument, a function from the indices to the order of arrival. Webhook calls are
  recorded in the order of the \<open>go\<close> statements, and one call is a function of the responses
  of the remote side.
\<close>

section \<open>Configuration and state\<close>

record WebhookConfig =
  wh_URL :: string
  wh_Pattern :: string
  wh_Secret :: string

record issuer_Config =
  ic_Enabled :: bool
  ic_BatchSize :: int
  ic_Concurrency :: int
  ic_StalenessThreshold :: int
  ic_Webhooks :: "WebhookConfig list"

text \<open>The duration is kept in nanoseconds instead of its text.\<close>

record issuer_Stats =
  is_TotalGenerated :: int
  is_TotalRefreshed :: int
  is_TotalErrors :: int
  is_LastRunTime :: int
  is_LastRunDuration :: int
  is_WebhooksSent :: int
  is_WebhookErrors :: int

record Issuer =
  iss_builder :: Builder
  iss_cfg :: issuer_Config
  iss_stats :: issuer_Stats
  iss_sends :: "(WebhookConfig \<times> json) list"

definition New_issuer :: "string \<Rightarrow> issuer_Config \<Rightarrow> Issuer" where
  "New_issuer logOrigin cfg =
     (let cfg = (if ic_BatchSize cfg \<le> 0 then cfg\<lparr>ic_BatchSize := 100\<rparr> else cfg);
          cfg = (if ic_Concurrency cfg \<le> 0 then cfg\<lparr>ic_Concurrency := 4\<rparr> else cfg);
          cfg = (if ic_StalenessThreshold cfg \<le> 0 then cfg\<lparr>ic_StalenessThreshold := 5\<rparr> else cfg)
      in \<lparr>iss_builder = \<lparr>bd_logOrigin = logOrigin\<rparr>, iss_cfg = cfg,
          iss_stats = \<lparr>is_TotalGenerated = 0, is_TotalRefreshed = 0, is_TotalErrors = 0, is_LastRunTime = zero_time,
            is_LastRunDuration = 0, is_WebhooksSent = 0, is_WebhookErrors = 0\<rparr>, iss_sends = []\<rparr>)"

section \<open>Building\<close>

definition buildOne :: "x509_parser \<Rightarrow> Builder \<Rightarrow> int \<Rightarrow> int \<Rightarrow> db \<Rightarrow> (goerr + AssertionBundle) option \<times> db" where
  "buildOne parse b entryIdx checkpointID d =
     (case BuildByIndex parse b entryIdx d of
        (None, d1) \<Rightarrow> (None, d1)
      | (Some (Inl err), d1) \<Rightarrow> (Some (Inl (Wrap ''build index %d: %w'' err)), d1)
      | (Some (Inr bundle), d1) \<Rightarrow>
        (case FormatPEM bundle of
           Inl err \<Rightarrow> (Some (Inl (Wrap ''format PEM index %d: %w'' err)), d1)
         | Inr bundlePEM \<Rightarrow>
             (Some (Inr \<lparr>ab_EntryIdx = entryIdx, ab_SerialHex = bu_SerialHex bundle, ab_CheckpointID = checkpointID,
                ab_TreeSize = bu_TreeSize bundle, ab_BundleJSON = FormatJSON bundle, ab_BundlePEM = bundlePEM,
                ab_Stale = False, ab_CreatedAt = 0, ab_UpdatedAt = 0\<rparr>), d1)))"

text \<open>The results in their order of arrival: the bundles and the number of errors.\<close>

fun collect :: "x509_parser \<Rightarrow> Builder \<Rightarrow> int \<Rightarrow> int list \<Rightarrow> db \<Rightarrow> (AssertionBundle list \<times> int) option \<times> db" where
  "collect parse b checkpointID [] d = (Some ([], 0), d)"
| "collect parse b checkpointID (i # is) d =
     (case buildOne parse b i checkpointID d of
        (None, d1) \<Rightarrow> (None, d1)
      | (Some r, d1) \<Rightarrow>
        (case collect parse b checkpointID is d1 of
           (None, d2) \<Rightarrow> (None, d2)
         | (Some (bundles, errCount), d2) \<Rightarrow>
             (Some (case r of Inl _ \<Rightarrow> (bundles, errCount + 1) | Inr ab \<Rightarrow> (ab # bundles, errCount)), d2)))"

type_synonym 'a iio = "Issuer \<times> db \<Rightarrow> 'a option \<times> Issuer \<times> db"

definition buildAndStore :: "x509_parser \<Rightarrow> (int list \<Rightarrow> int list) \<Rightarrow> int list \<Rightarrow> int \<Rightarrow> int iio" where
  "buildAndStore parse arrival indices checkpointID = (\<lambda>(iss, d).
     case collect parse (iss_builder iss) checkpointID (arrival indices) d of
       (None, d1) \<Rightarrow> (None, iss, d1)
     | (Some (bundles, errCount), d1) \<Rightarrow>
       if length bundles = 0 then (Some 0, iss, d1)
       else case UpsertAssertionBundles bundles d1 of
         (Inl _, d2) \<Rightarrow>
           (Some 0, iss\<lparr>iss_stats := (iss_stats iss)\<lparr>is_TotalErrors := is_TotalErrors (iss_stats iss) + int (length bundles)\<rparr>\<rparr>, d2)
       | (Inr _, d2) \<Rightarrow>
           (Some (int (length bundles)),
            iss\<lparr>iss_stats := (iss_stats iss)\<lparr>is_TotalGenerated := is_TotalGenerated (iss_stats iss) + int (length bundles),
              is_TotalErrors := is_TotalErrors (iss_stats iss) + errCount\<rparr>\<rparr>, d2))"

definition generatePending :: "x509_parser \<Rightarrow> (int list \<Rightarrow> int list) \<Rightarrow> int \<Rightarrow> int iio" where
  "generatePending parse arrival checkpointID = (\<lambda>(iss, d).
     case ListPendingEntries (ic_BatchSize (iss_cfg iss)) d of
       (Inl _, d1) \<Rightarrow> (Some 0, iss, d1)
     | (Inr indices, d1) \<Rightarrow>
       if length indices = 0 then (Some 0, iss, d1)
       else buildAndStore parse arrival indices checkpointID (iss, d1))"

definition refreshStale :: "x509_parser \<Rightarrow> (int list \<Rightarrow> int list) \<Rightarrow> int \<Rightarrow> int iio" where
  "refreshStale parse arrival checkpointID = (\<lambda>(iss, d).
     case ListStaleBundles (ic_BatchSize (iss_cfg iss)) d of
       (Inl _, d1) \<Rightarrow> (Some 0, iss, d1)
     | (Inr indices, d1) \<Rightarrow>
       if length indices = 0 then (Some 0, iss, d1)
       else buildAndStore parse arrival indices checkpointID (iss, d1))"

section \<open>Webhooks\<close>

definition fireWebhooks :: "int \<Rightarrow> int \<Rightarrow> int \<Rightarrow> Issuer \<Rightarrow> Issuer" where
  "fireWebhooks now checkpointID count iss =
     (let payload = JObj [(''checkpoint_id'', JNum checkpointID), (''count'', JNum count),
            (''event'', JStr ''assertions_ready''), (''timestamp'', JTime now)]
      in iss\<lparr>iss_sends := iss_sends iss @ map (\<lambda>wh. (wh, payload)) (ic_Webhooks (iss_cfg iss))\<rparr>)"

text \<open>HMAC with SHA-256.\<close>

definition hmac_key :: "bytes \<Rightarrow> bytes" where
  "hmac_key k = (let k = (if length k > 64 then sha256 k else k) in k @ replicate (64 - length k) 0)"

definition hmac_sha256 :: "bytes \<Rightarrow> bytes \<Rightarrow> bytes" where
  "hmac_sha256 k m = sha256 (map (\<lambda>b. xor b 0x5c) (hmac_key k) @ sha256 (map (\<lambda>b. xor b 0x36) (hmac_key k) @ m))"

definition hmacSign :: "string \<Rightarrow> bytes \<Rightarrow> string" where
  "hmacSign secret data = hex_EncodeToString (hmac_sha256 (str_bytes secret) data)"

definition webhook_headers :: "WebhookConfig \<Rightarrow> bytes \<Rightarrow> (string \<times> string) list" where
  "webhook_headers wh body =
     [(''Content-Type'', ''application/json''), (''X-MTC-Event'', ''assertions_ready'')] @
     (if wh_Secret wh \<noteq> '''' then [(''X-MTC-Signature'', hmacSign (wh_Secret wh) body)] else [])"

datatype http_result = TransportError | StatusCode int

text \<open>
  One call: up to three attempts, the waits in seconds between them, and the new statistics.
  \<open>request_ok\<close> says whether the request can be built from the URL.
\<close>

fun send_attempts :: "http_result list \<Rightarrow> nat \<Rightarrow> int list \<times> bool" where
  "send_attempts [] attempt = ([], False)"
| "send_attempts (r # rs) attempt =
     (if attempt > 3 then ([], False)
      else case r of
        StatusCode c \<Rightarrow>
          if c \<ge> 200 \<and> c < 300 then ([], True)
          else (let (ws, ok) = send_attempts rs (attempt + 1)
                in ((if attempt < 3 then [int attempt * 2] else []) @ ws, ok))
      | TransportError \<Rightarrow>
          if attempt < 3 then (let (ws, ok) = send_attempts rs (attempt + 1) in (int attempt * 2 # ws, ok))
          else ([], False))"

definition sendWebhook :: "bool \<Rightarrow> (nat \<Rightarrow> http_result) \<Rightarrow> Issuer \<Rightarrow> Issuer" where
  "sendWebhook request_ok response iss =
     (if \<not> request_ok then iss
      else if snd (send_attempts (map response [1..<4]) 1)
      then iss\<lparr>iss_stats := (iss_stats iss)\<lparr>is_WebhooksSent := is_WebhooksSent (iss_stats iss) + 1\<rparr>\<rparr>
      else iss\<lparr>iss_stats := (iss_stats iss)\<lparr>is_WebhookErrors := is_WebhookErrors (iss_stats iss) + 1\<rparr>\<rparr>)"

section \<open>The cycle\<close>

definition RunOnCheckpoint :: "x509_parser \<Rightarrow> (int list \<Rightarrow> int list) \<Rightarrow> int \<Rightarrow> int \<Rightarrow> unit iio" where
  "RunOnCheckpoint parse arrival checkpointID treeSize = (\<lambda>(iss, d).
     if \<not> ic_Enabled (iss_cfg iss) then (Some (), iss, d)
     else
       let start = db_now d; (stale, d1) = MarkStaleBundles treeSize d;
           staleCount = (case stale of Inl _ \<Rightarrow> 0 | Inr n \<Rightarrow> n) in
       case generatePending parse arrival checkpointID (iss, d1) of
         (None, iss2, d2) \<Rightarrow> (None, iss2, d2)
       | (Some generated, iss2, d2) \<Rightarrow>
         (case refreshStale parse arrival checkpointID (iss2, d2) of
            (None, iss3, d3) \<Rightarrow> (None, iss3, d3)
          | (Some refreshed, iss3, d3) \<Rightarrow>
            let duration = db_now d3 - start;
                iss4 = iss3\<lparr>iss_stats := (iss_stats iss3)\<lparr>is_LastRunTime := start, is_LastRunDuration := duration\<rparr>\<rparr>;
                iss5 = (if length (ic_Webhooks (iss_cfg iss4)) > 0 \<and> (generated > 0 \<or> refreshed > 0)
                        then fireWebhooks (db_now d3) checkpointID (generated + refreshed) iss4 else iss4)
            in (Some (), iss5, snd (EmitEvent ''assertions_generated''
                 (JObj [(''checkpoint_id'', JNum checkpointID), (''duration_ms'', JNum (go_div duration 1000000)),
                   (''generated'', JNum generated), (''refreshed'', JNum refreshed), (''stale_marked'', JNum staleCount),
                   (''tree_size'', JNum treeSize)]) d3))))"

definition GetStats_issuer :: "Issuer \<Rightarrow> issuer_Stats" where
  "GetStats_issuer iss = iss_stats iss"

section \<open>Runs without driver failures\<close>

text \<open>The states in which the cycle runs; only the table of bundles changes in it.\<close>

definition issuing :: "db \<Rightarrow> Checkpoint \<Rightarrow> bool" where
  "issuing d cp \<longleftrightarrow> log_served d \<and> take 1 (desc cp_ID (checkpoints d)) = [cp] \<and> cp_true (entries d) cp \<and>
     (\<forall>e\<in>set (log_entries d). length (le_EntryData e) < 2 ^ 32)"

definition has_cert :: "db \<Rightarrow> Checkpoint \<Rightarrow> int \<Rightarrow> bool" where
  "has_cert d cp i \<longleftrightarrow> 0 \<le> i \<and> i < cp_TreeSize cp \<and> le_EntryType (log_entries d ! nat i) \<noteq> 0"

definition fresh :: "Checkpoint \<Rightarrow> int \<Rightarrow> AssertionBundle \<Rightarrow> bool" where
  "fresh cp i r \<longleftrightarrow> ab_EntryIdx r = i \<and> \<not> ab_Stale r \<and> cp_TreeSize cp \<le> ab_TreeSize r"

definition shows_proof :: "db \<Rightarrow> Checkpoint \<Rightarrow> int \<Rightarrow> AssertionBundle \<Rightarrow> bool" where
  "shows_proof d cp i r \<longleftrightarrow> fresh cp i r \<and> ab_TreeSize r = cp_TreeSize cp \<and>
     (\<exists>b. bundle_ok d cp i b \<and> ab_BundleJSON r = FormatJSON b)"

lemma bundles_frame [simp]:
  "issuing (d\<lparr>assertion_bundles := rows\<rparr>) = issuing d" "has_cert (d\<lparr>assertion_bundles := rows\<rparr>) = has_cert d"
  "bundle_ok (d\<lparr>assertion_bundles := rows\<rparr>) = bundle_ok d" "shows_proof (d\<lparr>assertion_bundles := rows\<rparr>) = shows_proof d"
  "no_faults (d\<lparr>assertion_bundles := rows\<rparr>) = no_faults d"
  by (simp_all add: issuing_def has_cert_def bundle_ok_def shows_proof_def fun_eq_iff log_served_def log_ready_def log_inv_def leaves_def
      no_faults_def log_size_def entries_def revoked_def)

lemma issuing_facts:
  assumes "issuing d cp"
  shows "no_faults d" "log_served d" "LatestCheckpoint d = (Inr cp, d)" "cp \<in> set (checkpoints d)" "cp_TreeSize cp \<le> log_size d"
proof -
  show nf: "no_faults d" and "log_served d" using assms by (simp_all add: issuing_def log_served_def log_ready_def)
  show "LatestCheckpoint d = (Inr cp, d)" using assms nf by (simp add: issuing_def LatestCheckpoint_def run_simps)
  from LatestCheckpoint_mem(1) [OF nf this] show "cp \<in> set (checkpoints d)" .
  show "cp_TreeSize cp \<le> log_size d" using assms by (simp add: issuing_def cp_true_def log_size_def entries_def)
qed

lemma GetEntryDetail_outside:
  assumes "log_ready d" "i < 0 \<or> log_size d \<le> i"
  shows "GetEntryDetail i d = (Inl (Wrap ''store.GetEntryDetail: %w'' ErrNoRows), d)"
proof -
  have "le_Index e \<noteq> i" if e: "e \<in> set (log_entries d)" for e
  proof -
    obtain k where "k < length (log_entries d)" "e = log_entries d ! k" using e by (auto simp: in_set_conv_nth)
    then show ?thesis using numbered_nth [of "log_entries d" k] assms by (auto simp: log_ready_def log_inv_def log_size_def)
  qed
  then have "filter (\<lambda>r. le_Index r = i) (log_entries d) = []" by (simp add: filter_empty_conv)
  then show ?thesis using assms(1) by (simp add: GetEntryDetail_def run_simps log_ready_def)
qed

lemma BuildByIndex_total:
  assumes "issuing d cp"
  shows "\<exists>r. BuildByIndex parse bd i d = (Some r, d) \<and> (\<forall>b. r = Inr b \<longrightarrow> has_cert d cp i \<and> bundle_ok d cp i b) \<and>
    (has_cert d cp i \<longrightarrow> (\<exists>b. r = Inr b))"
proof -
  note f = issuing_facts [OF assms]
  have ready: "log_ready d" using f(2) by (simp add: log_served_def)
  show ?thesis
  proof (cases "0 \<le> i \<and> i < log_size d")
    case False
    then have "\<not> has_cert d cp i" using f(5) by (auto simp: has_cert_def)
    with False show ?thesis
      using GetEntryDetail_outside [OF ready] by (auto simp: BuildByIndex_def not_le not_less)
  next
    case True
    have row: "sr_Entry (search_row d (log_entries d ! nat i)) = log_entries d ! nat i" by (simp add: search_row_def Let_def)
    show ?thesis
    proof (cases "has_cert d cp i")
      case False
      then show ?thesis
        using True GetEntryDetail_run [OF ready, of i] f(3) row by (auto simp: BuildByIndex_def has_cert_def)
    next
      case hc: True
      have "length (le_EntryData (log_entries d ! nat i)) < 2 ^ 32"
        using assms True by (simp add: issuing_def log_size_def nat_less_iff)
      then obtain b where "BuildByIndex parse bd i d = (Some (Inr b), d)" "bundle_ok d cp i b"
        using BuildByIndex_run [OF f(2) _ _ f(3), of i parse bd] hc assms by (auto simp: has_cert_def issuing_def)
      with hc show ?thesis by auto
    qed
  qed
qed

lemma buildOne_total:
  assumes "issuing d cp"
  shows "\<exists>r. buildOne parse bd i cpid d = (Some r, d) \<and>
    (\<forall>ab. r = Inr ab \<longrightarrow> has_cert d cp i \<and> shows_proof d cp i ab \<and> ab_CheckpointID ab = cpid) \<and>
    (has_cert d cp i \<longrightarrow> (\<exists>ab. r = Inr ab))"
proof -
  obtain r where r: "BuildByIndex parse bd i d = (Some r, d)" "\<forall>b. r = Inr b \<longrightarrow> has_cert d cp i \<and> bundle_ok d cp i b"
    "has_cert d cp i \<longrightarrow> (\<exists>b. r = Inr b)"
    using BuildByIndex_total [OF assms] by blast
  show ?thesis
  proof (cases r)
    case (Inl e)
    with r show ?thesis by (auto simp: buildOne_def)
  next
    case (Inr b)
    with r have ok: "has_cert d cp i" "bundle_ok d cp i b" by simp_all
    then have sz: "bu_TreeSize b = cp_TreeSize cp" by (simp add: bundle_ok_def Let_def)
    obtain s where "FormatPEM b = Inr s" using FormatPEM_ok [OF ok(2)] by blast
    with r(1) Inr ok sz show ?thesis by (auto simp: buildOne_def shows_proof_def fresh_def)
  qed
qed

lemma collect_total:
  assumes "issuing d cp"
  shows "\<exists>bs k. collect parse bd cpid is d = (Some (bs, k), d) \<and>
    (\<forall>ab\<in>set bs. has_cert d cp (ab_EntryIdx ab) \<and> shows_proof d cp (ab_EntryIdx ab) ab \<and> ab_CheckpointID ab = cpid) \<and>
    (\<forall>i\<in>set is. has_cert d cp i \<longrightarrow> i \<in> ab_EntryIdx ` set bs)"
proof (induction "is")
  case (Cons i "is")
  then obtain bs k where c: "collect parse bd cpid is d = (Some (bs, k), d)"
    "\<forall>ab\<in>set bs. has_cert d cp (ab_EntryIdx ab) \<and> shows_proof d cp (ab_EntryIdx ab) ab \<and> ab_CheckpointID ab = cpid"
    "\<forall>i\<in>set is. has_cert d cp i \<longrightarrow> i \<in> ab_EntryIdx ` set bs"
    by blast
  obtain r where r: "buildOne parse bd i cpid d = (Some r, d)"
    "\<forall>ab. r = Inr ab \<longrightarrow> has_cert d cp i \<and> shows_proof d cp i ab \<and> ab_CheckpointID ab = cpid"
    "has_cert d cp i \<longrightarrow> (\<exists>ab. r = Inr ab)"
    using buildOne_total [OF assms] by blast
  show ?case
  proof (cases r)
    case (Inl e)
    with r c show ?thesis by auto
  next
    case (Inr ab)
    with r(2) have "has_cert d cp i" "shows_proof d cp i ab" "ab_CheckpointID ab = cpid" "ab_EntryIdx ab = i"
      by (simp_all add: shows_proof_def fresh_def)
    with Inr r(1) c show ?thesis by simp
  qed
qed simp

text \<open>The effect of storing bundles on the rows.\<close>

definition upsert_row :: "int \<Rightarrow> AssertionBundle \<Rightarrow> AssertionBundle list \<Rightarrow> AssertionBundle list" where
  "upsert_row now ab rows =
     (if \<exists>r\<in>set rows. ab_EntryIdx r = ab_EntryIdx ab
      then map (\<lambda>r. if ab_EntryIdx r = ab_EntryIdx ab then r\<lparr>ab_CheckpointID := ab_CheckpointID ab, ab_TreeSize := ab_TreeSize ab,
        ab_BundleJSON := ab_BundleJSON ab, ab_BundlePEM := ab_BundlePEM ab, ab_Stale := ab_Stale ab, ab_UpdatedAt := now\<rparr> else r) rows
      else rows @ [ab\<lparr>ab_CreatedAt := now, ab_UpdatedAt := now\<rparr>])"

lemma shows_proof_cong:
  "ab_EntryIdx r = ab_EntryIdx r' \<Longrightarrow> ab_Stale r = ab_Stale r' \<Longrightarrow> ab_TreeSize r = ab_TreeSize r' \<Longrightarrow>
   ab_BundleJSON r = ab_BundleJSON r' \<Longrightarrow> shows_proof d cp i r = shows_proof d cp i r'"
  by (simp add: shows_proof_def fresh_def)

lemma shows_proof_fresh: "shows_proof d cp i r \<Longrightarrow> fresh cp i r"
  by (simp add: shows_proof_def)

lemma upsert_row_shows:
  assumes "shows_proof d cp i ab" shows "\<exists>r\<in>set (upsert_row now ab rows). shows_proof d cp i r"
proof -
  have i: "ab_EntryIdx ab = i" using assms by (simp add: shows_proof_def fresh_def)
  show ?thesis
  proof (cases "\<exists>r\<in>set rows. ab_EntryIdx r = i")
    case True
    then obtain r where r: "r \<in> set rows" "ab_EntryIdx r = i" by blast
    let ?r = "r\<lparr>ab_CheckpointID := ab_CheckpointID ab, ab_TreeSize := ab_TreeSize ab,
        ab_BundleJSON := ab_BundleJSON ab, ab_BundlePEM := ab_BundlePEM ab, ab_Stale := ab_Stale ab, ab_UpdatedAt := now\<rparr>"
    have "shows_proof d cp i ?r" using assms r(2) i by (subst shows_proof_cong [of _ ab]) simp_all
    moreover have "?r \<in> set (upsert_row now ab rows)" using r True i by (auto simp: upsert_row_def image_iff)
    ultimately show ?thesis by blast
  next
    case False
    have "shows_proof d cp i (ab\<lparr>ab_CreatedAt := now, ab_UpdatedAt := now\<rparr>)"
      using assms by (subst shows_proof_cong [of _ ab]) simp_all
    with False i show ?thesis by (auto simp: upsert_row_def)
  qed
qed

lemma upsert_row_other: "r \<in> set rows \<Longrightarrow> ab_EntryIdx r \<noteq> ab_EntryIdx ab \<Longrightarrow> r \<in> set (upsert_row now ab rows)"
  by (auto simp: upsert_row_def image_iff)

definition keeps :: "db \<Rightarrow> Checkpoint \<Rightarrow> AssertionBundle list \<Rightarrow> AssertionBundle list \<Rightarrow> bool" where
  "keeps d cp rows rows' \<longleftrightarrow>
     (\<forall>i. ((\<exists>r\<in>set rows. fresh cp i r) \<longrightarrow> (\<exists>r\<in>set rows'. fresh cp i r)) \<and>
          ((\<exists>r\<in>set rows. shows_proof d cp i r) \<longrightarrow> (\<exists>r\<in>set rows'. shows_proof d cp i r)))"

lemma keeps_trans: "keeps d cp a b \<Longrightarrow> keeps d cp b c \<Longrightarrow> keeps d cp a c"
  by (simp add: keeps_def)

lemma upsert_row_keeps:
  assumes ab: "shows_proof d cp (ab_EntryIdx ab) ab" shows "keeps d cp rows (upsert_row now ab rows)"
  unfolding keeps_def
proof (intro allI conjI impI)
  fix i assume "\<exists>r\<in>set rows. fresh cp i r"
  then obtain r where r: "r \<in> set rows" "fresh cp i r" by blast
  show "\<exists>r\<in>set (upsert_row now ab rows). fresh cp i r"
  proof (cases "ab_EntryIdx ab = i")
    case True
    with upsert_row_shows [OF ab] shows_proof_fresh show ?thesis by blast
  next
    case False
    with r upsert_row_other [OF r(1)] show ?thesis by (auto simp: fresh_def)
  qed
next
  fix i assume "\<exists>r\<in>set rows. shows_proof d cp i r"
  then obtain r where r: "r \<in> set rows" "shows_proof d cp i r" by blast
  show "\<exists>r\<in>set (upsert_row now ab rows). shows_proof d cp i r"
  proof (cases "ab_EntryIdx ab = i")
    case True
    with upsert_row_shows [OF ab] show ?thesis by blast
  next
    case False
    with r upsert_row_other [OF r(1)] show ?thesis by (auto simp: shows_proof_def fresh_def)
  qed
qed

lemma fold_upsert:
  assumes "\<forall>ab\<in>set bs. shows_proof d cp (ab_EntryIdx ab) ab"
  shows "keeps d cp rows (fold (upsert_row now) bs rows)"
    and "i \<in> ab_EntryIdx ` set bs \<Longrightarrow> \<exists>r\<in>set (fold (upsert_row now) bs rows). shows_proof d cp i r"
  using assms
proof (induction bs arbitrary: rows)
  case Nil
  { case 1 show ?case by (simp add: keeps_def) }
  { case 2 then show ?case by simp }
next
  case (Cons ab bs)
  { case 1
    then show ?case using Cons.IH(1) [of "upsert_row now ab rows"] upsert_row_keeps [of d cp ab rows now] keeps_trans by auto }
  { case 2
    show ?case
    proof (cases "i \<in> ab_EntryIdx ` set bs")
      case True
      then show ?thesis using Cons.IH(2) 2 by simp
    next
      case False
      then have "i = ab_EntryIdx ab" using 2 by auto
      then have "\<exists>r\<in>set (upsert_row now ab rows). shows_proof d cp i r" using upsert_row_shows 2(2) by simp
      then show ?thesis using Cons.IH(1) [of "upsert_row now ab rows"] 2(2) by (auto simp: keeps_def)
    qed }
qed

lemma upsert_bundle_run:
  assumes "\<exists>e\<in>set (log_entries d). le_Index e = ab_EntryIdx ab" "\<exists>c\<in>set (checkpoints d). cp_ID c = ab_CheckpointID ab"
  shows "upsert_bundle ab d = Inr (d\<lparr>assertion_bundles := upsert_row (db_now d) ab (assertion_bundles d)\<rparr>)"
  using assms by (auto simp: upsert_bundle_def upsert_row_def)

lemma UpsertAssertionBundles_run:
  assumes "no_faults d" "\<forall>ab\<in>set bs. (\<exists>e\<in>set (log_entries d). le_Index e = ab_EntryIdx ab) \<and> (\<exists>c\<in>set (checkpoints d). cp_ID c = ab_CheckpointID ab)"
  shows "UpsertAssertionBundles bs d = (Inr (), d\<lparr>assertion_bundles := fold (upsert_row (db_now d)) bs (assertion_bundles d)\<rparr>)"
proof -
  let ?f = "\<lambda>ab. wrap ''store.UpsertAssertionBundles: idx=%d: %w'' (exec (upsert_bundle ab))"
  have "for_each ?f bs d = (Inr (), d\<lparr>assertion_bundles := fold (upsert_row (db_now d)) bs (assertion_bundles d)\<rparr>)"
    using assms
  proof (induction bs arbitrary: d)
    case Nil
    have "d\<lparr>assertion_bundles := assertion_bundles d\<rparr> = d" by (cases d) simp
    then show ?case by (simp add: io_return_run)
  next
    case (Cons ab bs)
    let ?d = "d\<lparr>assertion_bundles := upsert_row (db_now d) ab (assertion_bundles d)\<rparr>"
    have "?f ab d = (Inr (), ?d)" using Cons.prems upsert_bundle_run [of d ab] by (simp add: run_simps)
    moreover have "for_each ?f bs ?d = (Inr (), ?d\<lparr>assertion_bundles := fold (upsert_row (db_now ?d)) bs (assertion_bundles ?d)\<rparr>)"
      using Cons.prems by (intro Cons.IH) simp_all
    ultimately show ?case by (simp add: io_bind_Inr)
  qed
  moreover have "d\<lparr>assertion_bundles := assertion_bundles d\<rparr> = d" by (cases d) simp
  ultimately show ?thesis using assms(1) by (simp add: UpsertAssertionBundles_def run_simps)
qed

lemma buildAndStore_run:
  assumes d: "issuing d cp" and arr: "set (arrival is) = set is"
  shows "\<exists>k iss' rows. buildAndStore parse arrival is (cp_ID cp) (iss, d) = (Some k, iss', d\<lparr>assertion_bundles := rows\<rparr>) \<and>
    iss_cfg iss' = iss_cfg iss \<and> keeps d cp (assertion_bundles d) rows \<and>
    (\<forall>i\<in>set is. has_cert d cp i \<longrightarrow> (\<exists>r\<in>set rows. shows_proof d cp i r))"
proof -
  note f = issuing_facts [OF d]
  obtain bs k where c: "collect parse (iss_builder iss) (cp_ID cp) (arrival is) d = (Some (bs, k), d)"
    "\<forall>ab\<in>set bs. has_cert d cp (ab_EntryIdx ab) \<and> shows_proof d cp (ab_EntryIdx ab) ab \<and> ab_CheckpointID ab = cp_ID cp"
    "\<forall>i\<in>set is. has_cert d cp i \<longrightarrow> i \<in> ab_EntryIdx ` set bs"
    using collect_total [OF d] arr by metis
  let ?rows = "fold (upsert_row (db_now d)) bs (assertion_bundles d)"
  have self: "d\<lparr>assertion_bundles := assertion_bundles d\<rparr> = d" by (cases d) simp
  have "\<exists>e\<in>set (log_entries d). le_Index e = i" if "has_cert d cp i" for i
  proof -
    have "nat i < length (log_entries d)" "0 \<le> i" using that f(5) by (auto simp: has_cert_def log_size_def)
    moreover from this have "le_Index (log_entries d ! nat i) = i"
      using numbered_nth [of "log_entries d" "nat i"] f(2) by (simp add: log_served_def log_ready_def log_inv_def)
    ultimately show ?thesis by (metis nth_mem)
  qed
  then have up: "UpsertAssertionBundles bs d = (Inr (), d\<lparr>assertion_bundles := ?rows\<rparr>)"
    using c(2) f(4) by (intro UpsertAssertionBundles_run [OF f(1)]) auto
  note rows = fold_upsert [of bs d cp, OF ballI] 
  have "\<exists>k' iss'. buildAndStore parse arrival is (cp_ID cp) (iss, d) = (Some k', iss', d\<lparr>assertion_bundles := ?rows\<rparr>) \<and> iss_cfg iss' = iss_cfg iss"
    using c(1) up self by (cases "bs = []") (simp_all add: buildAndStore_def)
  moreover have "keeps d cp (assertion_bundles d) ?rows" using c(2) fold_upsert(1) by blast
  moreover have "\<exists>r\<in>set ?rows. shows_proof d cp i r" if "i \<in> set is" "has_cert d cp i" for i
    using fold_upsert(2) [of bs d cp i] c(2,3) that by blast
  ultimately show ?thesis by blast
qed

lemma sql_limit_all: "length xs \<le> nat n \<Longrightarrow> 0 \<le> n \<Longrightarrow> sql_limit n xs = Inr xs"
  by (simp add: sql_limit_def)

lemma set_desc [simp]: "set (desc key xs) = set xs" "length (desc key xs) = length xs"
  by (simp_all add: desc_def)

text \<open>A batch from either list: nothing that is fresh is lost.\<close>

lemma refreshStale_run:
  assumes d: "issuing d cp" and arr: "\<And>is. set (arrival is) = set is" and b: "0 < ic_BatchSize (iss_cfg iss)"
  shows "\<exists>k iss' rows. refreshStale parse arrival (cp_ID cp) (iss, d) = (Some k, iss', d\<lparr>assertion_bundles := rows\<rparr>) \<and>
    iss_cfg iss' = iss_cfg iss \<and> keeps d cp (assertion_bundles d) rows"
proof -
  have self: "d\<lparr>assertion_bundles := assertion_bundles d\<rparr> = d" by (cases d) simp
  obtain "is" where l: "ListStaleBundles (ic_BatchSize (iss_cfg iss)) d = (Inr is, d)"
    using issuing_facts(1) [OF d] b by (simp add: ListStaleBundles_def run_simps sql_limit_def)
  show ?thesis
  proof (cases "is = []")
    case True
    with l self show ?thesis by (intro exI [of _ 0] exI [of _ iss] exI [of _ "assertion_bundles d"]) (simp add: refreshStale_def keeps_def)
  next
    case False
    with l buildAndStore_run [OF d, of arrival "is" parse iss] arr [of "is"] show ?thesis by (auto simp: refreshStale_def)
  qed
qed

lemma generatePending_run:
  assumes d: "issuing d cp" and arr: "\<And>is. set (arrival is) = set is" and b: "0 < ic_BatchSize (iss_cfg iss)"
  shows "\<exists>k iss' rows. generatePending parse arrival (cp_ID cp) (iss, d) = (Some k, iss', d\<lparr>assertion_bundles := rows\<rparr>) \<and>
    iss_cfg iss' = iss_cfg iss \<and> keeps d cp (assertion_bundles d) rows \<and>
    (\<forall>i\<in>set (take (nat (ic_BatchSize (iss_cfg iss))) (desc id (pending_entries d))).
       has_cert d cp i \<longrightarrow> (\<exists>r\<in>set rows. shows_proof d cp i r))"
proof -
  have self: "d\<lparr>assertion_bundles := assertion_bundles d\<rparr> = d" by (cases d) simp
  obtain "is" where batch: "take (nat (ic_BatchSize (iss_cfg iss))) (desc id (pending_entries d)) = is" by blast
  have l: "ListPendingEntries (ic_BatchSize (iss_cfg iss)) d = (Inr is, d)"
    using issuing_facts(1) [OF d] b batch by (simp add: ListPendingEntries_def run_simps sql_limit_def)
  show ?thesis
  proof (cases "is = []")
    case True
    with l self show ?thesis
      unfolding True batch by (intro exI [of _ 0] exI [of _ iss] exI [of _ "assertion_bundles d"]) (simp add: generatePending_def keeps_def)
  next
    case False
    with l buildAndStore_run [OF d, of arrival "is" parse iss] arr [of "is"] show ?thesis unfolding batch by (auto simp: generatePending_def)
  qed
qed

text \<open>A descending list limited to its first elements contains those with few elements above them.\<close>

lemma take_desc:
  fixes x :: int
  assumes "distinct xs" "x \<in> set xs" "card {y \<in> set xs. x < y} < n"
  shows "x \<in> set (take n (desc id xs))"
proof -
  let ?ys = "desc id xs"
  have ys: "distinct ?ys" "set ?ys = set xs" using assms(1) by (simp_all add: desc_def)
  have sorted: "sorted (List.rev ?ys)" using sorted_sort_key [of id xs] by (simp add: desc_def)
  obtain k where k: "k < length ?ys" "?ys ! k = x" using assms(2) ys(2) by (metis in_set_conv_nth)
  have "x < y" if y: "y \<in> set (take k ?ys)" for y
  proof -
    obtain j where j: "j < k" "y = ?ys ! j" using y k(1) by (auto simp: in_set_conv_nth)
    then have "?ys ! k \<le> ?ys ! j" using sorted k(1) by (intro sorted_rev_nth_mono) simp_all
    moreover have "?ys ! k \<noteq> ?ys ! j" using j(1) k(1) ys(1) by (simp add: nth_eq_iff_index_eq)
    ultimately show "x < y" using j(2) k(2) by simp
  qed
  then have "set (take k ?ys) \<subseteq> {y \<in> set xs. x < y}" using ys(2) set_take_subset by fastforce
  then have "card (set (take k ?ys)) \<le> card {y \<in> set xs. x < y}" by (intro card_mono) simp_all
  then have "k < n" using assms(3) ys(1) k(1) by (simp add: distinct_card)
  then have "take n ?ys ! k = x" "k < length (take n ?ys)" using k by simp_all
  then show ?thesis by (metis nth_mem)
qed

text \<open>The rows after the first step of the cycle.\<close>

definition marked :: "Checkpoint \<Rightarrow> db \<Rightarrow> AssertionBundle list" where
  "marked cp d = map (\<lambda>r. if ab_TreeSize r < cp_TreeSize cp \<and> \<not> ab_Stale r
     then r\<lparr>ab_Stale := True, ab_UpdatedAt := db_now d\<rparr> else r) (assertion_bundles d)"

text \<open>The certificates of the log without a bundle that is at least as recent as the checkpoint.\<close>

definition uncovered :: "db \<Rightarrow> Checkpoint \<Rightarrow> int \<Rightarrow> bool" where
  "uncovered d cp i \<longleftrightarrow> 0 \<le> i \<and> i < log_size d \<and> le_EntryType (log_entries d ! nat i) = 1 \<and>
     (\<forall>r\<in>set (assertion_bundles d). \<not> fresh cp i r)"

lemma marked_fresh:
  "(\<exists>r\<in>set (marked cp d). ab_EntryIdx r = i \<and> \<not> ab_Stale r) \<longleftrightarrow> (\<exists>r\<in>set (assertion_bundles d). fresh cp i r)"
  "(\<exists>r\<in>set (marked cp d). fresh cp i r) \<longleftrightarrow> (\<exists>r\<in>set (assertion_bundles d). fresh cp i r)"
  by (force simp: marked_def fresh_def)+

lemma pending_marked:
  assumes "log_ready d"
  shows "distinct (pending_entries (d\<lparr>assertion_bundles := marked cp d\<rparr>))"
    "set (pending_entries (d\<lparr>assertion_bundles := marked cp d\<rparr>)) = {i. uncovered d cp i}"
proof -
  have num: "numbered (log_entries d)" using assms by (simp add: log_ready_def log_inv_def)
  then have idx: "le_Index (log_entries d ! k) = int k" if "k < length (log_entries d)" for k
    using numbered_nth that by blast
  have "inj_on le_Index (set (log_entries d)) \<and> distinct (log_entries d)"
    using idx by (auto simp: inj_on_def in_set_conv_nth distinct_conv_nth) (metis of_nat_eq_iff)+
  then have "distinct (map le_Index (log_entries d))" by (simp add: distinct_map)
  then show "distinct (pending_entries (d\<lparr>assertion_bundles := marked cp d\<rparr>))"
    by (simp add: pending_entries_def distinct_map_filter)
  have "(\<exists>e\<in>set (log_entries d). le_Index e = i \<and> P e) \<longleftrightarrow> 0 \<le> i \<and> i < log_size d \<and> P (log_entries d ! nat i)" for i and P :: "LogEntry \<Rightarrow> bool"
  proof
    assume "0 \<le> i \<and> i < log_size d \<and> P (log_entries d ! nat i)"
    then show "\<exists>e\<in>set (log_entries d). le_Index e = i \<and> P e"
      using idx [of "nat i"] by (intro bexI [of _ "log_entries d ! nat i"]) (auto simp: log_size_def)
  qed (use idx in \<open>auto simp: in_set_conv_nth log_size_def\<close>)
  note mem = this [of _ "\<lambda>e. le_EntryType e = 1"]
  have "i \<in> set (pending_entries (d\<lparr>assertion_bundles := marked cp d\<rparr>)) \<longleftrightarrow> uncovered d cp i" for i
  proof -
    have "i \<in> set (pending_entries (d\<lparr>assertion_bundles := marked cp d\<rparr>)) \<longleftrightarrow>
        (\<exists>e\<in>set (log_entries d). le_Index e = i \<and> le_EntryType e = 1) \<and> \<not> (\<exists>r\<in>set (marked cp d). ab_EntryIdx r = i \<and> \<not> ab_Stale r)"
      by (auto simp: pending_entries_def)
    then show ?thesis by (simp add: mem marked_fresh(1) uncovered_def)
  qed
  then show "set (pending_entries (d\<lparr>assertion_bundles := marked cp d\<rparr>)) = {i. uncovered d cp i}" by blast
qed

lemma cycle_covers:
  assumes iss: "issuing d cp" and gen: "keeps d cp (marked cp d) rows2"
    "\<forall>i\<in>set (take n (desc id (pending_entries (d\<lparr>assertion_bundles := marked cp d\<rparr>)))). has_cert d cp i \<longrightarrow> (\<exists>r\<in>set rows2. shows_proof d cp i r)"
    and ref: "keeps d cp rows2 rows3"
  shows "(\<exists>r\<in>set (assertion_bundles d). fresh cp i r) \<Longrightarrow> (\<exists>r\<in>set rows3. fresh cp i r)"
    and "uncovered d cp i \<Longrightarrow> i < cp_TreeSize cp \<Longrightarrow> card {j. uncovered d cp j \<and> i < j} < n \<Longrightarrow> (\<exists>r\<in>set rows3. shows_proof d cp i r)"
proof -
  show "\<exists>r\<in>set rows3. fresh cp i r" if "\<exists>r\<in>set (assertion_bundles d). fresh cp i r"
    using that gen(1) ref marked_fresh(2) [of cp d i] unfolding keeps_def by blast
  assume i: "uncovered d cp i" "i < cp_TreeSize cp" "card {j. uncovered d cp j \<and> i < j} < n"
  have ready: "log_ready d" using issuing_facts(2) [OF iss] by (simp add: log_served_def)
  note p = pending_marked [OF ready, of cp]
  have "i \<in> set (take n (desc id (pending_entries (d\<lparr>assertion_bundles := marked cp d\<rparr>))))"
    by (rule take_desc [OF p(1)]) (use i in \<open>simp_all add: p(2)\<close>)
  moreover have "has_cert d cp i" using i by (simp add: has_cert_def uncovered_def)
  ultimately have "\<exists>r\<in>set rows2. shows_proof d cp i r" using gen(2) by blast
  then show "\<exists>r\<in>set rows3. shows_proof d cp i r" using ref unfolding keeps_def by blast
qed

section \<open>Properties\<close>

text \<open>
  C34. What one cycle achieves: whatever the order in which the concurrent builders finish,
  \<open>RunOnCheckpoint\<close> for the latest checkpoint loses no bundle that is fresh, that is, not stale and at
  least as recent as the checkpoint, and of the certificates without one it gives each of the newest
  ones, as many as the batch size, the document of a bundle whose proof leads to the root that the
  checkpoint signs. The certificates logged after the checkpoint count too, but get no bundle. The log itself is untouched.
  With a batch size that admits the whole log every certificate below the checkpoint has a fresh bundle
  afterwards; with a smaller one the older certificates can stay without one, as every checkpoint of
  a larger tree makes all bundles stale again.
\<close>

theorem issuer_covers_checkpoint:
  assumes reach: "(log_step cr cs)\<^sup>*\<^sup>* empty_db d" and size: "int (length (entries d)) < 2 ^ 63"
    and short: "\<forall>e\<in>set (log_entries d). length (le_EntryData e) < 2 ^ 32"
    and cp: "LatestCheckpoint d = (Inr cp, d)" and arr: "\<forall>is. set (arrival is) = set is"
    and cfg: "ic_Enabled (iss_cfg iss)" "0 < ic_BatchSize (iss_cfg iss)"
  shows "\<exists>iss' d'. RunOnCheckpoint parse arrival (cp_ID cp) (cp_TreeSize cp) (iss, d) = (Some (), iss', d') \<and>
    log_entries d' = log_entries d \<and> tree_nodes d' = tree_nodes d \<and> checkpoints d' = checkpoints d \<and>
    (\<forall>i. (\<exists>r\<in>set (assertion_bundles d). fresh cp i r) \<longrightarrow> (\<exists>r\<in>set (assertion_bundles d'). fresh cp i r)) \<and>
    (\<forall>i. uncovered d cp i \<and> i < cp_TreeSize cp \<and> int (card {j. uncovered d cp j \<and> i < j}) < ic_BatchSize (iss_cfg iss) \<longrightarrow>
       (\<exists>r\<in>set (assertion_bundles d'). shows_proof d cp i r))"
proof -
  have ready: "log_ready d" by (rule reachable_ready [OF reach])
  then have nf: "no_faults d" by (simp add: log_ready_def)
  have "\<exists>cps. take 1 (desc cp_ID (checkpoints d)) = cp # cps"
    using cp nf by (auto simp: LatestCheckpoint_def wrap_def query_row_run split: list.splits)
  then have "take 1 (desc cp_ID (checkpoints d)) = [cp]" by (cases "desc cp_ID (checkpoints d)") auto
  then have iss: "issuing d cp"
    using ready size short reachable_claims [OF reach LatestCheckpoint_mem(1) [OF nf cp]]
    by (simp add: issuing_def log_served_def log_size_def entries_def)
  let ?d1 = "d\<lparr>assertion_bundles := marked cp d\<rparr>" and ?n = "nat (ic_BatchSize (iss_cfg iss))"
  obtain m where mark: "MarkStaleBundles (cp_TreeSize cp) d = (Inr m, ?d1)"
    using nf by (simp add: MarkStaleBundles_def run_simps Let_def marked_def)
  obtain k iss2 rows2 where gen: "generatePending parse arrival (cp_ID cp) (iss, ?d1) = (Some k, iss2, d\<lparr>assertion_bundles := rows2\<rparr>)"
    "iss_cfg iss2 = iss_cfg iss" "keeps d cp (marked cp d) rows2"
    "\<forall>i\<in>set (take ?n (desc id (pending_entries ?d1))). has_cert d cp i \<longrightarrow> (\<exists>r\<in>set rows2. shows_proof d cp i r)"
    using generatePending_run [of ?d1 cp arrival iss parse] iss arr cfg by (auto simp: keeps_def)
  obtain l iss3 rows3 where ref: "refreshStale parse arrival (cp_ID cp) (iss2, d\<lparr>assertion_bundles := rows2\<rparr>) = (Some l, iss3, d\<lparr>assertion_bundles := rows3\<rparr>)"
    "keeps d cp rows2 rows3"
    using refreshStale_run [of "d\<lparr>assertion_bundles := rows2\<rparr>" cp arrival iss2 parse] iss arr cfg gen(2)
    by (auto simp: keeps_def)
  let ?d3 = "d\<lparr>assertion_bundles := rows3\<rparr>"
  obtain iss' d' where run: "RunOnCheckpoint parse arrival (cp_ID cp) (cp_TreeSize cp) (iss, d) = (Some (), iss', d')"
    and d': "\<exists>es n. d' = ?d3\<lparr>events := es, events_seq := n\<rparr>"
    using cfg(1) mark gen(1) ref(1) EmitEvent_run [of ?d3] nf
    by (simp add: RunOnCheckpoint_def Let_def)
  note cov = cycle_covers [OF iss gen(3,4) ref(2)]
  have "\<exists>r\<in>set rows3. shows_proof d cp i r"
    if "uncovered d cp i" "i < cp_TreeSize cp" "int (card {j. uncovered d cp j \<and> i < j}) < ic_BatchSize (iss_cfg iss)" for i
    using cov(2) [OF that(1,2)] that(3) by linarith
  moreover have "\<forall>i. (\<exists>r\<in>set (assertion_bundles d). fresh cp i r) \<longrightarrow> (\<exists>r\<in>set rows3. fresh cp i r)" using cov(1) by blast
  ultimately show ?thesis using run d' by (intro exI [of _ iss'] exI [of _ d']) (elim exE, simp)
qed

theorem issuer_covers_checkpoint_witness:
  "\<exists>iss' d' r. RunOnCheckpoint (\<lambda>_. Inl ErrDB) rev (checkpoints_seq demo_log + 1) 2
       (New_issuer ''log'' \<lparr>ic_Enabled = True, ic_BatchSize = 0, ic_Concurrency = 0, ic_StalenessThreshold = 0, ic_Webhooks = []\<rparr>, demo_cp_db)
       = (Some (), iss', d') \<and> r \<in> set (assertion_bundles d') \<and> ab_EntryIdx r = 1 \<and> \<not> ab_Stale r \<and> ab_TreeSize r = 2"
proof -
  obtain cp where cp: "checkpoints demo_cp_db = [cp]" "cp_TreeSize cp = 2" "cp_ID cp = checkpoints_seq demo_log + 1"
    using demo_cp_run(3) by blast
  note reach = rtranclp_trans [OF demo_log_run(1) demo_cp_run(1)]
  have nf: "no_faults demo_cp_db" using reachable_ready [OF reach] by (simp add: log_ready_def)
  have latest: "LatestCheckpoint demo_cp_db = (Inr cp, demo_cp_db)" using LatestCheckpoint_run [OF nf] cp(1) by auto
  obtain cps n where c: "demo_cp_db = demo_log\<lparr>checkpoints := cps, checkpoints_seq := n\<rparr>" using demo_cp_run(4) by blast
  then have eq: "log_entries demo_cp_db = log_entries demo_log" by (rule ssubst) simp
  from c have ab: "assertion_bundles demo_cp_db = []" by (rule ssubst) (simp add: demo_log_rows)
  obtain t t' where rows: "log_entries demo_cp_db = [null_entry\<lparr>le_CreatedAt := t\<rparr>, demo_entry\<lparr>le_Index := 1, le_CreatedAt := t'\<rparr>]"
    using demo_log_rows(1) eq by metis
  have short: "\<forall>e\<in>set (log_entries demo_cp_db). length (le_EntryData e) < 2 ^ 32"
    by (simp add: rows null_entry_def demo_entry_def log_entry_def NullEntryBytes_def)
  let ?iss = "New_issuer ''log'' \<lparr>ic_Enabled = True, ic_BatchSize = 0, ic_Concurrency = 0, ic_StalenessThreshold = 0, ic_Webhooks = []\<rparr>"
  have cfg: "ic_Enabled (iss_cfg ?iss)" "ic_BatchSize (iss_cfg ?iss) = 100" by (simp_all add: New_issuer_def Let_def)
  from issuer_covers_checkpoint [OF reach _ short latest, of rev ?iss "\<lambda>_. Inl ErrDB"] cfg
  obtain iss' d' where run: "RunOnCheckpoint (\<lambda>_. Inl ErrDB) rev (cp_ID cp) (cp_TreeSize cp) (?iss, demo_cp_db) = (Some (), iss', d')"
    "\<forall>i. uncovered demo_cp_db cp i \<and> i < cp_TreeSize cp \<and> int (card {j. uncovered demo_cp_db cp j \<and> i < j}) < 100 \<longrightarrow>
       (\<exists>r\<in>set (assertion_bundles d'). shows_proof demo_cp_db cp i r)"
    by (auto simp: demo_cp_run(2))
  have "log_size demo_cp_db = 2" by (simp add: log_size_def rows)
  then have none: "{j. uncovered demo_cp_db cp j \<and> 1 < j} = {}" and unc: "uncovered demo_cp_db cp 1"
    by (auto simp: uncovered_def ab) (simp add: rows demo_entry_def log_entry_def)
  obtain r where "r \<in> set (assertion_bundles d')" "shows_proof demo_cp_db cp 1 r"
    using run(2) [rule_format, of 1] cp(2) none unc by auto
  with run(1) cp show ?thesis by (auto simp: shows_proof_def fresh_def)
qed

end
