(* ===== verification/Http.thy ===== *)
theory Http
  imports Store GoStrings
begin

text \<open>
  Requests and responses as the handlers see them. A request has a method, the path of its
  URL, the query parameters and a body; a response has a status, the headers in the order in
  which they were set and a body, whose JSON form is the document. \<open>http.Error\<close> sets its own
  headers. Path values are the segments of the path.
\<close>

datatype payload = Text string | Json json | Raw bytes

record request =
  rq_Method :: string
  rq_Path :: string
  rq_Query :: "string \<Rightarrow> string"
  rq_Header :: "string \<Rightarrow> string"
  rq_Body :: bytes

record response =
  rs_Status :: int
  rs_Header :: "(string \<times> string) list"
  rs_Body :: payload

definition http_Error :: "string \<Rightarrow> int \<Rightarrow> response" where
  "http_Error msg code = \<lparr>rs_Status = code,
     rs_Header = [(''Content-Type'', ''text/plain; charset=utf-8''), (''X-Content-Type-Options'', ''nosniff'')],
     rs_Body = Text (msg @ [NL])\<rparr>"

definition http_OK :: "(string \<times> string) list \<Rightarrow> payload \<Rightarrow> response" where
  "http_OK header body = \<lparr>rs_Status = 200, rs_Header = header, rs_Body = body\<rparr>"

text \<open>The value of a header or a member of a document.\<close>

definition header_of :: "response \<Rightarrow> string \<Rightarrow> string option" where
  "header_of r key = map_of (rs_Header r) key"

fun member :: "json \<Rightarrow> string \<Rightarrow> json option" where
  "member (JObj kvs) key = map_of kvs key"
| "member _ key = None"

text \<open>
  \<open>strings.Contains(err.Error(), sub)\<close>. The model keeps the format strings of errors and not
  their arguments; the texts of the database driver are taken not to contain what is looked for.
\<close>

fun error_contains :: "goerr \<Rightarrow> string \<Rightarrow> bool" where
  "error_contains ErrNoRows sub = Contains ''sql: no rows in result set'' sub"
| "error_contains ErrDB sub = False"
| "error_contains (Errorf f) sub = Contains f sub"
| "error_contains (Wrap f e) sub = (Contains f sub \<or> error_contains e sub)"

fun error_text :: "goerr \<Rightarrow> string" where
  "error_text ErrNoRows = ''sql: no rows in result set''"
| "error_text ErrDB = ''driver error''"
| "error_text (Errorf f) = f"
| "error_text (Wrap f e) = (case cut ''%w'' f of None \<Rightarrow> f | Some (a, b) \<Rightarrow> a @ error_text e @ b)"

end
