(* ===== verification/Tiles.thy ===== *)
theory Tiles
  imports MerkleTree GoStrings
begin

text \<open>
  Tiles: the coordinates and paths of \<open>src/internal/merkle/merkle.go\<close> and the decoder of
  tile paths of \<open>src/internal/tlogtiles/handler.go\<close>.
\<close>

section \<open>Coordinates\<close>

definition TileWidth :: int where "TileWidth = 256"

definition TileWidthBits :: int where "TileWidthBits = 8"

record TileCoord =
  tc_Level :: int
  tc_Index :: int
  tc_Width :: int

definition TileForEntry :: "int \<Rightarrow> TileCoord" where
  "TileForEntry index = \<lparr>tc_Level = 0, tc_Index = go_div index TileWidth, tc_Width = TileWidth\<rparr>"

definition TilesForRange :: "int \<Rightarrow> int \<Rightarrow> TileCoord list" where
  "TilesForRange start e =
     (if start \<ge> e then []
      else map (\<lambda>t. \<lparr>tc_Level = 0, tc_Index = t, tc_Width = TileWidth\<rparr>)
             [go_div start TileWidth..go_div (e - 1) TileWidth])"

definition EntryTileCoord :: "int \<Rightarrow> TileCoord" where
  "EntryTileCoord index = \<lparr>tc_Level = -1, tc_Index = go_div index TileWidth, tc_Width = TileWidth\<rparr>"

definition HashTileCoord :: "int \<Rightarrow> int \<Rightarrow> TileCoord" where
  "HashTileCoord level nodeIndex =
     \<lparr>tc_Level = go_div level TileWidthBits, tc_Index = go_div nodeIndex TileWidth, tc_Width = TileWidth\<rparr>"

section \<open>Paths\<close>

function encodeTileIndex :: "int \<Rightarrow> string" where
  "encodeTileIndex n =
     (if n < 1000 then dec_03 n
      else ''x'' @ encodeTileIndex (n div 1000) @ ''/'' @ dec_03 (n mod 1000))"
  by pat_completeness auto
termination by (relation "measure nat") auto

declare encodeTileIndex.simps [simp del]

definition TilePath :: "TileCoord \<Rightarrow> string" where
  "TilePath tc =
     (let nPath = encodeTileIndex (tc_Index tc) in
      if tc_Level tc = -1 then ''tile/entries/'' @ nPath
      else ''tile/'' @ dec_int (tc_Level tc) @ ''/'' @ nPath)"

text \<open>
  The loop over the segments. Both branches of the source parse the digits after at most one
  leading \<open>x\<close> and accumulate in \<open>int64\<close>.
\<close>

fun decodeSegments :: "int \<Rightarrow> string list \<Rightarrow> goerr + int" where
  "decodeSegments result [] = Inr result"
| "decodeSegments result (seg # segs) =
     (if \<not> HasPrefix seg ''x'' \<and> length seg \<noteq> 3 then
        (case ParseInt seg of
           Inl _ \<Rightarrow> Inl (Errorf ''invalid tile index segment %q'')
         | Inr n \<Rightarrow> decodeSegments (wrap64 (result * 1000 + n)) segs)
      else
        (case ParseInt (TrimPrefix seg ''x'') of
           Inl _ \<Rightarrow> Inl (Errorf ''invalid tile index segment %q'')
         | Inr n \<Rightarrow> decodeSegments (wrap64 (result * 1000 + n)) segs))"

definition decodeTileIndex :: "string \<Rightarrow> goerr + int" where
  "decodeTileIndex path =
     (let path = TrimSuffix path ''.p''; path = TrimSuffix path ''.pb''
      in decodeSegments 0 (Split CHR ''/'' path))"

section \<open>Lemmas\<close>

lemma digits_nat_zeros: "digits_nat (replicate k CHR ''0'' @ s) = digits_nat s"
proof -
  have "foldl (\<lambda>acc c. acc * 10 + the (digit_val c)) 0 (replicate k CHR ''0'') = 0"
    by (induction k) (simp_all add: digit_val_def)
  then show ?thesis by (simp add: digits_nat_def)
qed

lemma length_dec_nat: "n < 1000 \<Longrightarrow> length (dec_nat n) \<le> 3"
  by (subst dec_nat.simps, simp, subst dec_nat.simps, simp, subst dec_nat.simps, simp)

lemma dec_03_props:
  assumes "0 \<le> n" "n < 1000"
  shows "length (dec_03 n) = 3" "list_all is_digit (dec_03 n)" "digits_nat (dec_03 n) = nat n"
proof -
  let ?s = "dec_nat (nat n)"
  have eq: "dec_03 n = replicate (3 - length ?s) CHR ''0'' @ ?s" using assms(1) by (simp add: dec_03_def)
  have "length ?s \<le> 3" using length_dec_nat [of "nat n"] assms by simp
  then show "length (dec_03 n) = 3" by (simp add: eq)
  have "is_digit CHR ''0''" by (simp add: is_digit_def digit_val_def)
  then show "list_all is_digit (dec_03 n)"
    using dec_nat_digits [of "nat n"] by (auto simp: eq list_all_iff)
  show "digits_nat (dec_03 n) = nat n" by (simp add: eq digits_nat_zeros)
qed

lemma ParseInt_digits:
  assumes "list_all is_digit s" "s \<noteq> []" "int (digits_nat s) < 2 ^ 63"
  shows "ParseInt s = Inr (int (digits_nat s))"
proof -
  obtain c cs where s: "s = c # cs" using assms(2) by (cases s) auto
  then have "is_digit c" using assms(1) by simp
  with digit_not_sign [of c] assms s show ?thesis by (simp add: ParseInt_def)
qed

lemma ParseInt_not_digit:
  "\<not> is_digit c \<Longrightarrow> c \<noteq> CHR ''-'' \<Longrightarrow> c \<noteq> CHR ''+'' \<Longrightarrow> \<exists>e. ParseInt (c # s) = Inl e"
  by (simp add: ParseInt_def)

lemma ParseInt_dec_03: "0 \<le> n \<Longrightarrow> n < 1000 \<Longrightarrow> ParseInt (dec_03 n) = Inr n"
  using ParseInt_digits [of "dec_03 n"] dec_03_props [of n] by fastforce

lemma digit_not_path:
  assumes "is_digit c" shows "c \<noteq> CHR ''/''" "c \<noteq> CHR ''x''" "c \<noteq> CHR ''p''" "c \<noteq> CHR ''b''"
  using assms by (auto simp: is_digit_def digit_val_def Let_def)

lemma dec_03_chars:
  assumes "0 \<le> n" "n < 1000"
  shows "dec_03 n \<noteq> []" "CHR ''/'' \<notin> set (dec_03 n)" "\<not> HasPrefix (dec_03 n) ''x''" "is_digit (last (dec_03 n))"
proof -
  note p = dec_03_props [OF assms]
  show ne: "dec_03 n \<noteq> []" using p(1) by auto
  show "CHR ''/'' \<notin> set (dec_03 n)" using p(2) digit_not_path(1) by (auto simp: list_all_iff)
  show "is_digit (last (dec_03 n))" using p(2) ne by (simp add: list_all_iff)
  have "is_digit (hd (dec_03 n))" using p(2) ne by (simp add: list_all_iff)
  then show "\<not> HasPrefix (dec_03 n) ''x''"
    using ne digit_not_path(2) by (cases "dec_03 n") (auto simp: HasPrefix_def)
qed

lemma encodeTileIndex_last:
  "0 \<le> n \<Longrightarrow> encodeTileIndex n \<noteq> [] \<and> is_digit (last (encodeTileIndex n))"
  using dec_03_chars(1,4) [of n] dec_03_chars(1,4) [of "n mod 1000"]
  by (subst (1 2) encodeTileIndex.simps) (simp add: last_append)

lemma TrimSuffix_digit:
  assumes "s \<noteq> []" "is_digit (last s)" "suf \<noteq> []" "\<not> is_digit (last suf)"
  shows "TrimSuffix s suf = s"
proof -
  obtain s' c where s: "s = s' @ [c]" using assms(1) by (cases s rule: rev_cases) auto
  obtain t d where t: "suf = t @ [d]" using assms(3) by (cases suf rule: rev_cases) auto
  have "c \<noteq> d" using assms(2,4) s t by auto
  then have "\<not> HasSuffix s suf" by (simp add: HasSuffix_def HasPrefix_def s t)
  then show ?thesis by (simp add: TrimSuffix_def)
qed

lemma decodeTileIndex_encode:
  assumes "0 \<le> n" "Split CHR ''/'' (encodeTileIndex n) = segs"
  shows "decodeTileIndex (encodeTileIndex n) = decodeSegments 0 segs"
proof -
  have "\<not> is_digit CHR ''p''" "\<not> is_digit CHR ''b''" by (simp_all add: is_digit_def digit_val_def)
  then have "TrimSuffix (encodeTileIndex n) ''.p'' = encodeTileIndex n" "TrimSuffix (encodeTileIndex n) ''.pb'' = encodeTileIndex n"
    using encodeTileIndex_last [OF assms(1)] by (simp_all add: TrimSuffix_digit)
  with assms(2) show ?thesis by (simp add: decodeTileIndex_def)
qed

lemma decode_one:
  assumes "0 \<le> n" "n < 1000"
  shows "decodeTileIndex (encodeTileIndex n) = Inr n"
proof -
  note c = dec_03_chars [OF assms] and l = dec_03_props(1) [OF assms]
  have "encodeTileIndex n = dec_03 n" using assms by (simp add: encodeTileIndex.simps)
  then have "Split CHR ''/'' (encodeTileIndex n) = [dec_03 n]" using c by (simp add: Split_no_sep)
  from decodeTileIndex_encode [OF assms(1) this] show ?thesis
    using assms c l by (simp add: TrimPrefix_def ParseInt_dec_03 wrap64_id)
qed

lemma decode_two:
  assumes "1000 \<le> n" "n < 1000000"
  shows "decodeTileIndex (encodeTileIndex n) = Inr n"
proof -
  have n: "0 \<le> n" and q: "0 \<le> n div 1000" "n div 1000 < 1000" and r: "0 \<le> n mod 1000" "n mod 1000 < 1000"
    using assms by simp_all
  note cq = dec_03_chars [OF q] and cr = dec_03_chars [OF r]
  have "encodeTileIndex (n div 1000) = dec_03 (n div 1000)"
    using q by (subst encodeTileIndex.simps) simp
  then have "encodeTileIndex n = (CHR ''x'' # dec_03 (n div 1000)) @ CHR ''/'' # dec_03 (n mod 1000)"
    using assms by (subst encodeTileIndex.simps) simp
  moreover have "Split CHR ''/'' \<dots> = [CHR ''x'' # dec_03 (n div 1000), dec_03 (n mod 1000)]"
    using cq(2) cr(2) by (subst Split_append) (simp_all add: Split_no_sep)
  ultimately have "Split CHR ''/'' (encodeTileIndex n) = [CHR ''x'' # dec_03 (n div 1000), dec_03 (n mod 1000)]" by simp
  from decodeTileIndex_encode [OF n this] show ?thesis
    using assms q r cq(3) cr(3) dec_03_props(1) [OF r]
    by (simp add: HasPrefix_def TrimPrefix_def ParseInt_dec_03 wrap64_id)
qed

lemma decode_more:
  assumes "1000000 \<le> n"
  shows "\<exists>e. decodeTileIndex (encodeTileIndex n) = Inl e"
proof -
  have "encodeTileIndex n = ''x'' @ encodeTileIndex (n div 1000) @ ''/'' @ dec_03 (n mod 1000)"
    using assms by (subst encodeTileIndex.simps) simp
  moreover have "encodeTileIndex (n div 1000) =
      ''x'' @ encodeTileIndex (n div 1000 div 1000) @ ''/'' @ dec_03 (n div 1000 mod 1000)"
    using assms by (subst encodeTileIndex.simps) simp
  ultimately obtain s where s: "encodeTileIndex n = CHR ''x'' # CHR ''x'' # s" by simp
  obtain w ws where "Split CHR ''/'' (encodeTileIndex n) = (CHR ''x'' # CHR ''x'' # w) # ws"
    by (cases "Split CHR ''/'' s") (auto simp: s)
  from decodeTileIndex_encode [OF _ this] assms
  have "decodeTileIndex (encodeTileIndex n) = decodeSegments 0 ((CHR ''x'' # CHR ''x'' # w) # ws)" by simp
  moreover obtain e where "ParseInt (CHR ''x'' # w) = Inl e"
    using ParseInt_not_digit [of "CHR ''x''" w] digit_not_path(2) by auto
  ultimately show ?thesis by (simp add: HasPrefix_def TrimPrefix_def)
qed

section \<open>Properties\<close>

text \<open>
  C32. Decoding an encoded tile index gives the index back below one million; from there on the
  encoder writes a doubled \<open>x\<close> and the decoder rejects what the encoder wrote.
\<close>

theorem tile_index_roundtrip:
  assumes "0 \<le> n"
  shows "if n < 1000000 then decodeTileIndex (encodeTileIndex n) = Inr n
    else \<exists>e. decodeTileIndex (encodeTileIndex n) = Inl e"
  using assms decode_one [of n] decode_two [of n] decode_more [of n] by (cases "n < 1000") auto

theorem tile_index_roundtrip_witness:
  "decodeTileIndex (encodeTileIndex 1234) = Inr 1234 \<and> (\<exists>e. decodeTileIndex (encodeTileIndex 1000000) = Inl e)"
  using tile_index_roundtrip [of 1234] tile_index_roundtrip [of 1000000] by simp

end
