(* ===== verification/Tlogtiles.thy ===== *)
theory Tlogtiles
  imports Http Tiles Assertion
begin

text \<open>
  \<open>src/internal/tlogtiles/handler.go\<close>: the read API of the log. A handler maps a request and
  the state of the store to a response and the new state; \<open>None\<close> is a panic. The times of a
  JSON document are kept as numbers.
\<close>

type_synonym handler = "request \<Rightarrow> db \<Rightarrow> response option \<times> db"

definition internal_error :: response where
  "internal_error = http_Error ''internal error'' 500"

definition octets :: "string \<Rightarrow> bytes \<Rightarrow> response" where
  "octets cache data = http_OK [(''Content-Type'', ''application/octet-stream''), (''Cache-Control'', cache)] (Raw data)"

definition json_response :: "json \<Rightarrow> response" where
  "json_response doc = http_OK [(''Content-Type'', ''application/json''), (''Cache-Control'', ''no-cache'')] (Json doc)"

definition immutable :: string where
  "immutable = ''public, max-age=31536000, immutable''"

definition quoted :: "string \<Rightarrow> string" where
  "quoted s = CHR 0x27 # s @ [CHR 0x27]"

definition handleCheckpoint :: "handler" where
  "handleCheckpoint r d =
     (case LatestCheckpoint d of
        (Inl _, d1) \<Rightarrow> (Some (http_Error ''no checkpoint available'' 404), d1)
      | (Inr cp, d1) \<Rightarrow>
          (Some (http_OK [(''Content-Type'', ''text/plain; charset=utf-8''), (''Cache-Control'', ''no-cache'')] (Text (cp_Body cp))), d1))"

section \<open>Tiles\<close>

text \<open>\<open>strconv.Atoi\<close> on a 64-bit platform.\<close>

abbreviation Atoi :: "string \<Rightarrow> goerr + int" where
  "Atoi \<equiv> ParseInt"

definition serveHashTile :: "int \<Rightarrow> int \<Rightarrow> db \<Rightarrow> response option \<times> db" where
  "serveHashTile level tileIdx d =
     (case TreeSize d of
        (Inl _, d1) \<Rightarrow> (Some internal_error, d1)
      | (Inr treeSize, d1) \<Rightarrow>
        let nodeStart = wrap64 (tileIdx * TileWidth);
            nodesAtLevel = drop_bit (nat level) (wrap64 (treeSize + wrap64 (2 ^ nat level) - 1)) in
        if nodeStart \<ge> nodesAtLevel then (Some (http_Error ''tile not found'' 404), d1)
        else
          let count = (if nodeStart + TileWidth > nodesAtLevel then nodesAtLevel - nodeStart else TileWidth) in
          case GetTileHashes level nodeStart count d1 of
            (Inl _, d2) \<Rightarrow> (Some internal_error, d2)
          | (Inr hashes, d2) \<Rightarrow>
              (Some (octets (if int (length hashes) = TileWidth then immutable else ''no-cache'')
                 (concat (map hash_bytes hashes))), d2))"

definition handleHashTile :: "string \<Rightarrow> db \<Rightarrow> response option \<times> db" where
  "handleHashTile tilePath d =
     (case cut ''/'' tilePath of
        None \<Rightarrow> (Some (http_Error ''invalid tile path'' 400), d)
      | Some (p0, p1) \<Rightarrow>
        (case Atoi p0 of
           Inl _ \<Rightarrow> (Some (http_Error ''invalid tile level'' 400), d)
         | Inr level \<Rightarrow>
           if level < 0 then (Some (http_Error ''invalid tile level'' 400), d)
           else (case decodeTileIndex p1 of
             Inl _ \<Rightarrow> (Some (http_Error ''invalid tile index'' 400), d)
           | Inr tileIdx \<Rightarrow> serveHashTile level tileIdx d)))"

definition entry_frame :: "LogEntry \<Rightarrow> bytes" where
  "entry_frame e = le_bytes 4 (length (le_EntryData e)) @ le_EntryData e"

definition handleEntryTile :: "string \<Rightarrow> db \<Rightarrow> response option \<times> db" where
  "handleEntryTile indexPath d =
     (case decodeTileIndex indexPath of
        Inl _ \<Rightarrow> (Some (http_Error ''invalid tile index'' 400), d)
      | Inr tileIdx \<Rightarrow>
        let start = wrap64 (tileIdx * TileWidth); end0 = wrap64 (start + TileWidth) in
        case TreeSize d of
          (Inl _, d1) \<Rightarrow> (Some internal_error, d1)
        | (Inr treeSize, d1) \<Rightarrow>
          if start \<ge> treeSize then (Some (http_Error ''tile not found'' 404), d1)
          else
            let e = (if end0 > treeSize then treeSize else end0) in
            case GetEntries start e d1 of
              (Inl _, d2) \<Rightarrow> (Some internal_error, d2)
            | (Inr es, d2) \<Rightarrow>
                (Some (octets (if e - start = TileWidth then immutable else ''no-cache'') (concat (map entry_frame es))), d2))"

definition handleTile :: "handler" where
  "handleTile r d =
     (let tilePath = TrimPrefix (rq_Path r) ''/tile/'' in
      if HasPrefix tilePath ''entries/'' then handleEntryTile (TrimPrefix tilePath ''entries/'') d
      else handleHashTile tilePath d)"

definition handleRevocation :: "handler" where
  "handleRevocation r d =
     (case TreeSize d of
        (Inl _, d1) \<Rightarrow> (Some internal_error, d1)
      | (Inr treeSize, d1) \<Rightarrow>
        (case BuildRevocationBitmap treeSize d1 of
           (None, d2) \<Rightarrow> (None, d2)
         | (Some (Inl _), d2) \<Rightarrow> (Some internal_error, d2)
         | (Some (Inr bitmap), d2) \<Rightarrow> (Some (octets ''no-cache'' bitmap), d2)))"

section \<open>Proofs\<close>

record InclusionProofResponse =
  ip_LeafIndex :: int
  ip_TreeSize :: int
  ip_LeafHash :: string
  ip_Proof :: "string list"
  ip_RootHash :: string
  ip_Checkpoint :: string

definition InclusionProofResponse_json :: "InclusionProofResponse \<Rightarrow> json" where
  "InclusionProofResponse_json p = JObj [(''leaf_index'', JNum (ip_LeafIndex p)), (''tree_size'', JNum (ip_TreeSize p)),
     (''leaf_hash'', JStr (ip_LeafHash p)), (''proof'', jstrs (ip_Proof p)), (''root_hash'', JStr (ip_RootHash p)),
     (''checkpoint'', JStr (ip_Checkpoint p))]"

definition resolve_leaf :: "request \<Rightarrow> db \<Rightarrow> (response + int) \<times> db" where
  "resolve_leaf r d =
     (let serialParam = rq_Query r ''serial''; indexParam = rq_Query r ''index'' in
      if serialParam \<noteq> '''' then
        (case FindEntryBySerial serialParam d of
           (Inl err, d1) \<Rightarrow>
             (Inl (if errors_Is_NoRows err then http_Error ''certificate not found'' 404 else internal_error), d1)
         | (Inr idx, d1) \<Rightarrow> (Inr idx, d1))
      else if indexParam \<noteq> '''' then
        (case ParseInt indexParam of
           Inl _ \<Rightarrow> (Inl (http_Error ''invalid index parameter'' 400), d)
         | Inr idx \<Rightarrow> if idx < 0 then (Inl (http_Error ''invalid index parameter'' 400), d) else (Inr idx, d))
      else (Inl (http_Error (''missing '' @ quoted ''serial'' @ '' or '' @ quoted ''index'' @ '' query parameter'') 400), d))"

definition inclusion_response :: "int \<Rightarrow> db \<Rightarrow> response option \<times> db" where
  "inclusion_response leafIdx d =
     (case LatestCheckpoint d of
        (Inl _, d1) \<Rightarrow> (Some (http_Error ''no checkpoint available'' 503), d1)
      | (Inr cp, d1) \<Rightarrow>
        if leafIdx \<ge> cp_TreeSize cp
        then (Some (http_Error (''index '' @ dec_int leafIdx @ '' >= tree size '' @ dec_int (cp_TreeSize cp)) 404), d1)
        else case GetEntry leafIdx d1 of
          (Inl _, d2) \<Rightarrow> (Some (http_Error ''entry not found'' 404), d2)
        | (Inr entry, d2) \<Rightarrow>
          (case InclusionProofFromNodes leafIdx (cp_TreeSize cp) (node_at d2) of
             None \<Rightarrow> (None, d2)
           | Some (Inl _) \<Rightarrow> (Some (http_Error ''failed to compute proof'' 500), d2)
           | Some (Inr proof) \<Rightarrow>
               (Some (json_response (InclusionProofResponse_json
                  \<lparr>ip_LeafIndex = leafIdx, ip_TreeSize = cp_TreeSize cp,
                   ip_LeafHash = hex_EncodeToString (hash_bytes (LeafHash (le_EntryData entry))),
                   ip_Proof = map (\<lambda>h. hex_EncodeToString (hash_bytes h)) proof,
                   ip_RootHash = hex_EncodeToString (cp_RootHash cp), ip_Checkpoint = cp_Body cp\<rparr>)), d2)))"

definition handleInclusionProof :: "handler" where
  "handleInclusionProof r d =
     (case resolve_leaf r d of
        (Inl resp, d1) \<Rightarrow> (Some resp, d1)
      | (Inr leafIdx, d1) \<Rightarrow> inclusion_response leafIdx d1)"

record ConsistencyProofResponse =
  cr_OldSize :: int
  cr_NewSize :: int
  cr_OldRoot :: string
  cr_NewRoot :: string
  cr_Proof :: "string list"
  cr_Checkpoint :: string

definition ConsistencyProofResponse_json :: "ConsistencyProofResponse \<Rightarrow> json" where
  "ConsistencyProofResponse_json p = JObj [(''old_size'', JNum (cr_OldSize p)), (''new_size'', JNum (cr_NewSize p)),
     (''old_root'', JStr (cr_OldRoot p)), (''new_root'', JStr (cr_NewRoot p)), (''proof'', jstrs (cr_Proof p)),
     (''checkpoint'', JStr (cr_Checkpoint p))]"

definition consistency_response :: "int \<Rightarrow> int \<Rightarrow> db \<Rightarrow> response option \<times> db" where
  "consistency_response oldSize newSize d =
     (case LatestCheckpoint d of
        (Inl _, d1) \<Rightarrow> (Some (http_Error ''no checkpoint available'' 503), d1)
      | (Inr cp, d1) \<Rightarrow>
        if newSize > cp_TreeSize cp
        then (Some (http_Error (quoted ''new'' @ '' ('' @ dec_int newSize @ '') exceeds tree size ('' @ dec_int (cp_TreeSize cp) @ '')'') 400), d1)
        else
          (case (ConsistencyProofFromNodes oldSize newSize (node_at d1), RootFromNodes oldSize (node_at d1), RootFromNodes newSize (node_at d1)) of
             (Some (Inl _), _) \<Rightarrow> (Some (http_Error ''failed to compute proof'' 500), d1)
           | (Some (Inr proof), Some oldRoot, Some newRoot) \<Rightarrow>
               (Some (json_response (ConsistencyProofResponse_json
                  \<lparr>cr_OldSize = oldSize, cr_NewSize = newSize,
                   cr_OldRoot = hex_EncodeToString (hash_bytes oldRoot), cr_NewRoot = hex_EncodeToString (hash_bytes newRoot),
                   cr_Proof = map (\<lambda>h. hex_EncodeToString (hash_bytes h)) proof, cr_Checkpoint = cp_Body cp\<rparr>)),
                snd (EmitEvent ''consistency_proof'' (JObj [(''new_size'', JNum newSize), (''old_size'', JNum oldSize),
                  (''proof_length'', JNum (int (length proof)))]) d1))
           | _ \<Rightarrow> (None, d1)))"

definition handleConsistencyProof :: "handler" where
  "handleConsistencyProof r d =
     (let oldParam = rq_Query r ''old''; newParam = rq_Query r ''new'';
          bad = (\<lambda>msg. (Some (http_Error msg 400), d)) in
      if oldParam = '''' \<or> newParam = '''' then bad (''missing '' @ quoted ''old'' @ '' and '' @ quoted ''new'' @ '' query parameters'')
      else
        (case ParseInt oldParam of
           Inl _ \<Rightarrow> bad (''invalid '' @ quoted ''old'' @ '' parameter: must be a positive integer'')
         | Inr oldSize \<Rightarrow>
           if oldSize < 1 then bad (''invalid '' @ quoted ''old'' @ '' parameter: must be a positive integer'')
           else
             (case ParseInt newParam of
                Inl _ \<Rightarrow> bad (''invalid '' @ quoted ''new'' @ '' parameter: must be a positive integer'')
              | Inr newSize \<Rightarrow>
                if newSize < 1 then bad (''invalid '' @ quoted ''new'' @ '' parameter: must be a positive integer'')
                else if oldSize > newSize then bad (quoted ''old'' @ '' must be <= '' @ quoted ''new'')
                else consistency_response oldSize newSize d)))"

section \<open>Bundles and landmarks\<close>

definition bundle_error :: "goerr \<Rightarrow> response" where
  "bundle_error err =
     (if error_contains err ''not found'' \<or> error_contains err ''null sentinel''
      then http_Error (error_text err) 404 else http_Error ''failed to build assertion bundle'' 500)"

definition handleAssertion :: "x509_parser \<Rightarrow> Builder \<Rightarrow> string \<Rightarrow> db \<Rightarrow> response option \<times> db" where
  "handleAssertion parse b q d =
     (if q = '''' then (Some (http_Error ''missing certificate serial or index'' 400), d)
      else case Resolve parse b q d of
        (None, d1) \<Rightarrow> (None, d1)
      | (Some (Inl err), d1) \<Rightarrow> (Some (bundle_error err), d1)
      | (Some (Inr bundle), d1) \<Rightarrow> (Some (json_response (FormatJSON bundle)), d1))"

definition handleAssertionPEM :: "x509_parser \<Rightarrow> Builder \<Rightarrow> string \<Rightarrow> db \<Rightarrow> response option \<times> db" where
  "handleAssertionPEM parse b q d =
     (if q = '''' then (Some (http_Error ''missing certificate serial or index'' 400), d)
      else case Resolve parse b q d of
        (None, d1) \<Rightarrow> (None, d1)
      | (Some (Inl err), d1) \<Rightarrow> (Some (bundle_error err), d1)
      | (Some (Inr bundle), d1) \<Rightarrow>
        (case FormatPEM bundle of
           Inl _ \<Rightarrow> (Some internal_error, d1)
         | Inr data \<Rightarrow>
             (Some (http_OK [(''Content-Type'', ''text/plain; charset=utf-8''), (''Cache-Control'', ''no-cache'')] (Text data)), d1)))"

definition pending_limit :: "string \<Rightarrow> int" where
  "pending_limit limitStr =
     (let limit = (if limitStr \<noteq> '''' then (case Atoi limitStr of Inr n \<Rightarrow> if n > 0 then n else 100 | Inl _ \<Rightarrow> 100) else 100)
      in if limit > 500 then 500 else limit)"

definition pending_json :: "AssertionBundle \<Rightarrow> json" where
  "pending_json ab = JObj [(''entry_idx'', JNum (ab_EntryIdx ab)), (''serial_hex'', JStr (ab_SerialHex ab)),
     (''checkpoint_id'', JNum (ab_CheckpointID ab)), (''assertion_url'', JStr (''/assertion/'' @ ab_SerialHex ab)),
     (''created_at'', JTime (ab_CreatedAt ab))]"

definition handleAssertionsPending :: "handler" where
  "handleAssertionsPending r d =
     (let sinceStr = (if rq_Query r ''since'' = '''' then ''0'' else rq_Query r ''since'');
          bad = (Some (http_Error (''invalid '' @ quoted ''since'' @ '' parameter'') 400), d) in
      case ParseInt sinceStr of
        Inl _ \<Rightarrow> bad
      | Inr sinceID \<Rightarrow>
        if sinceID < 0 then bad
        else
          (case GetFreshBundlesSince sinceID (pending_limit (rq_Query r ''limit'')) d of
             (Inl _, d1) \<Rightarrow> (Some internal_error, d1)
           | (Inr bundles, d1) \<Rightarrow>
               (Some (json_response (JObj [(''count'', JNum (int (length bundles))), (''entries'', JArr (map pending_json bundles)),
                  (''since'', JNum sinceID)])), d1)))"

definition handleAssertionsStats :: "handler" where
  "handleAssertionsStats r d =
     (case GetAssertionStats d of
        (Inl _, d1) \<Rightarrow> (Some internal_error, d1)
      | (Inr stats, d1) \<Rightarrow>
          (Some (json_response (JObj [(''total_bundles'', JNum (as_TotalBundles stats)), (''fresh_bundles'', JNum (as_FreshBundles stats)),
             (''stale_bundles'', JNum (as_StaleBundles stats)), (''pending_entries'', JNum (as_PendingEntries stats)),
             (''last_generated'', JTime (as_LastGenerated stats))])), d1))"

definition landmark_json :: "Landmark \<Rightarrow> (string \<times> json) list" where
  "landmark_json lm = [(''tree_size'', JNum (lm_TreeSize lm)), (''root_hash'', JStr (hex_EncodeToString (lm_RootHash lm))),
     (''checkpoint_id'', JNum (lm_CheckpointID lm)), (''created_at'', JTime (lm_CreatedAt lm))]"

definition handleLandmarks :: "handler" where
  "handleLandmarks r d =
     (case ListLandmarks d of
        (Inl _, d1) \<Rightarrow> (Some internal_error, d1)
      | (Inr lms, d1) \<Rightarrow> (Some (json_response (JArr (map (\<lambda>lm. JObj (landmark_json lm)) lms))), d1))"

definition signature_json :: "SubtreeSignature \<Rightarrow> json" where
  "signature_json s = JObj [(''cosigner_id'', JStr (ss_CosignerID s)), (''algorithm'', JNum (ss_Algorithm s)),
     (''signature'', JStr (hex_EncodeToString (ss_Signature s)))]"

definition handleLandmarkByTreeSize :: "string \<Rightarrow> db \<Rightarrow> response option \<times> db" where
  "handleLandmarkByTreeSize treeSizeStr d =
     (case ParseInt treeSizeStr of
        Inl _ \<Rightarrow> (Some (http_Error ''invalid tree_size'' 400), d)
      | Inr treeSize \<Rightarrow>
        (case GetLandmark treeSize d of
           (Inl _, d1) \<Rightarrow> (Some (http_Error ''landmark not found'' 404), d1)
         | (Inr lm, d1) \<Rightarrow>
           (case GetSubtreeSignatures 0 treeSize d1 of
              (r, d2) \<Rightarrow>
                let sigs = (case r of Inl _ \<Rightarrow> [] | Inr ss \<Rightarrow> ss) in
                (Some (http_OK [(''Content-Type'', ''application/json'')]
                   (Json (JObj [(''checkpoint_id'', JNum (lm_CheckpointID lm)), (''created_at'', JTime (lm_CreatedAt lm)),
                      (''root_hash'', JStr (hex_EncodeToString (lm_RootHash lm))), (''signatures'', JArr (map signature_json sigs)),
                      (''tree_size'', JNum (lm_TreeSize lm))]))), d2))))"

section \<open>Routes\<close>

record Handler =
  h_assertBld :: Builder
  h_parse :: x509_parser

text \<open>
  \<open>New\<close> registers the patterns, all for \<open>GET\<close>, which also admits \<open>HEAD\<close>. A wildcard matches
  one segment that is not empty; a request whose path matches under another method is answered
  with 405.
\<close>

definition route :: "Handler \<Rightarrow> string \<Rightarrow> handler option" where
  "route h p =
     (let segs = tl (Split CHR ''/'' p) in
      if p = ''/checkpoint'' then Some handleCheckpoint
      else if HasPrefix p ''/tile/'' then Some handleTile
      else if p = ''/revocation'' then Some handleRevocation
      else if p = ''/proof/inclusion'' then Some handleInclusionProof
      else if p = ''/proof/consistency'' then Some handleConsistencyProof
      else if length segs = 2 \<and> segs ! 0 = ''assertion'' \<and> segs ! 1 \<noteq> ''''
      then Some (\<lambda>_. handleAssertion (h_parse h) (h_assertBld h) (segs ! 1))
      else if length segs = 3 \<and> segs ! 0 = ''assertion'' \<and> segs ! 1 \<noteq> '''' \<and> segs ! 2 = ''pem''
      then Some (\<lambda>_. handleAssertionPEM (h_parse h) (h_assertBld h) (segs ! 1))
      else if p = ''/assertions/pending'' then Some handleAssertionsPending
      else if p = ''/assertions/stats'' then Some handleAssertionsStats
      else if p = ''/landmarks'' then Some handleLandmarks
      else if length segs = 2 \<and> segs ! 0 = ''landmark'' \<and> segs ! 1 \<noteq> '''' then Some (\<lambda>_. handleLandmarkByTreeSize (segs ! 1))
      else None)"

definition ServeHTTP :: "Handler \<Rightarrow> handler" where
  "ServeHTTP h r d =
     (case route h (rq_Path r) of
        None \<Rightarrow> (Some (http_Error ''404 page not found'' 404), d)
      | Some f \<Rightarrow>
          if rq_Method r \<in> {''GET'', ''HEAD''} then f r d
          else (Some (http_Error ''Method Not Allowed'' 405), d))"

section \<open>Runs without driver failures\<close>

lemma cut_char: "c \<notin> set s \<Longrightarrow> cut [c] (s @ c # t) = Some (s, t)"
  by (induction s) (auto simp: HasPrefix_def)

lemma decode_tile: "0 \<le> n \<Longrightarrow> n < 1000000 \<Longrightarrow> decodeTileIndex (encodeTileIndex n) = Inr n"
  using decode_one decode_two by (cases "n < 1000") auto

lemma GetEntry_run:
  assumes "log_ready d" "0 \<le> i" "i < log_size d"
  shows "GetEntry i d = (Inr (log_entries d ! nat i), d)"
  using assms numbered_filter [of "log_entries d" i]
  by (simp add: GetEntry_def run_simps log_ready_def log_inv_def log_size_def)

lemma numbered_range:
  assumes "numbered es" "0 \<le> a" "a \<le> b" "b \<le> int (length es)"
  shows "filter (\<lambda>r. a \<le> le_Index r \<and> le_Index r < b) es = take (nat b - nat a) (drop (nat a) es)"
    and "sorted (map le_Index es)"
proof -
  note idx = numbered_nth [OF assms(1)]
  obtain A B where ab: "a = int A" "b = int B" "A \<le> B" "B \<le> length es"
    using assms by (metis nonneg_int_cases of_nat_le_iff order_trans)
  let ?P = "\<lambda>r. a \<le> le_Index r \<and> le_Index r < b"
  have "\<not> ?P x" if x: "x \<in> set (take A es)" for x
  proof -
    obtain k where "k < A" "x = es ! k" using x ab by (auto simp: in_set_conv_nth)
    then show ?thesis using idx [of k] ab by simp
  qed
  then have "filter ?P (take A es) = []" by (auto simp: filter_empty_conv)
  moreover have "filter ?P (drop B es) = []"
    using idx ab by (auto simp: filter_empty_conv in_set_conv_nth)
  moreover have "filter ?P (take (B - A) (drop A es)) = take (B - A) (drop A es)"
    using idx ab by (auto simp: filter_id_conv in_set_conv_nth)
  moreover have "es = take A es @ take (B - A) (drop A es) @ drop B es"
    using ab by (metis append_assoc append_take_drop_id le_add_diff_inverse take_add)
  ultimately show "filter ?P es = take (nat b - nat a) (drop (nat a) es)"
    using filter_append [of ?P "take A es" "take (B - A) (drop A es) @ drop B es"] ab by simp
  show "sorted (map le_Index es)" using idx by (auto simp: sorted_iff_nth_mono)
qed

lemma GetEntries_run:
  assumes "log_ready d" "0 \<le> a" "a \<le> b" "b \<le> log_size d"
  shows "GetEntries a b d = (Inr (take (nat b - nat a) (drop (nat a) (log_entries d))), d)"
proof -
  note r = numbered_range [of "log_entries d" a b]
  have "sorted (map le_Index (take k (drop l (log_entries d))))" for k l
    using r(2) assms by (simp add: log_ready_def log_inv_def log_size_def take_map [symmetric] drop_map [symmetric] sorted_wrt_take sorted_wrt_drop)
  then show ?thesis
    using assms r(1) by (simp add: GetEntries_def run_simps log_ready_def log_inv_def log_size_def sort_key_id_if_sorted)
qed

text \<open>The stored nodes of a level, in a log with more than the first entry.\<close>

lemma stored_node:
  assumes "log_ready d" "2 \<le> log_size d" "l < 64" "0 \<le> i" "i * 2 ^ l < log_size d"
  shows "tree_nodes d (int l, i) = Some (nodeval (leaves d) l (nat i))"
proof -
  have "node_ok (leaves d) (int l) i (tree_nodes d (int l, i))" using assms(1) by (simp add: log_ready_def log_inv_def)
  moreover have "2 \<le> length (leaves d)" using assms(2) by (simp add: log_size_def leaves_def)
  ultimately show ?thesis using assms by (simp add: node_ok_def exact_def covered_def log_size_def leaves_def)
qed

lemma GetTileHashes_run:
  assumes "log_ready d" "2 \<le> log_size d" "l < 64" "0 \<le> s" "0 \<le> c" "c = 0 \<or> (s + c - 1) * 2 ^ l < log_size d"
  shows "GetTileHashes (int l) s c d = (Inr (map (\<lambda>i. nodeval (leaves d) l (nat i)) [s..s + c - 1]), d)"
proof -
  let ?w = "[s..s + c - 1]"
  have "tree_nodes d (int l, i) = Some (nodeval (leaves d) l (nat i))" if "i \<in> set ?w" for i
  proof (rule stored_node [OF assms(1-3)])
    show "0 \<le> i" using that assms(4) by simp
    have "i * 2 ^ l \<le> (s + c - 1) * 2 ^ l" using that by (intro mult_right_mono) auto
    moreover have "(s + c - 1) * 2 ^ l < log_size d" using assms(6) that by auto
    ultimately show "i * 2 ^ l < log_size d" by (rule order_le_less_trans)
  qed
  then have "map (\<lambda>i. case tree_nodes d (int l, i) of None \<Rightarrow> EmptyHash | Some h \<Rightarrow> h) ?w = map (\<lambda>i. nodeval (leaves d) l (nat i)) ?w"
    "filter (\<lambda>i. tree_nodes d (int l, i) \<noteq> None) ?w = ?w"
    by (auto simp: filter_id_conv)
  with assms(1) show ?thesis by (simp add: GetTileHashes_def run_simps log_ready_def Let_def)
qed

text \<open>The last node of a level: rounding up counts the nodes that cover an entry.\<close>

lemma nodes_at_level:
  fixes n p :: int
  assumes "0 < p" "0 < n"
  shows "i < (n + p - 1) div p \<longleftrightarrow> i * p < n"
proof -
  have "i < (n + p - 1) div p \<longleftrightarrow> i + 1 \<le> (n + p - 1) div p" by linarith
  also have "\<dots> \<longleftrightarrow> (i + 1) * p \<le> n + p - 1"
  proof
    assume "i + 1 \<le> (n + p - 1) div p"
    then have "(i + 1) * p \<le> (n + p - 1) div p * p" using assms(1) by (intro mult_right_mono) auto
    also have "\<dots> \<le> n + p - 1" using assms(1) pos_mod_sign [of p "n + p - 1"] div_mult_mod_eq [of "n + p - 1" p] by linarith
    finally show "(i + 1) * p \<le> n + p - 1" .
  next
    assume "(i + 1) * p \<le> n + p - 1"
    from zdiv_mono1 [OF this assms(1)] assms(1) show "i + 1 \<le> (n + p - 1) div p" by simp
  qed
  also have "\<dots> \<longleftrightarrow> i * p < n" by (auto simp: distrib_right)
  finally show ?thesis .
qed

text \<open>A reader of entry tiles: frames of a length and as many bytes.\<close>

fun read_frames :: "nat \<Rightarrow> bytes \<Rightarrow> bytes list" where
  "read_frames 0 bs = []"
| "read_frames (Suc k) bs =
     (if length bs < 4 then [] else
      let n = le_nat (take 4 bs) in take n (drop 4 bs) # read_frames k (drop (4 + n) bs))"

lemma read_frames_all:
  assumes "\<forall>e\<in>set es. length (le_EntryData e) < 2 ^ 32" "length es \<le> k"
  shows "read_frames k (concat (map entry_frame es)) = map le_EntryData es"
  using assms
proof (induction es arbitrary: k)
  case Nil
  show ?case by (cases k) simp_all
next
  case (Cons e es)
  then obtain k' where "k = Suc k'" "length es \<le> k'" by (cases k) auto
  moreover have "length (le_bytes 4 (length (le_EntryData e))) = 4" by (simp add: le_bytes_def)
  moreover have "le_nat (le_bytes 4 (length (le_EntryData e))) = length (le_EntryData e)"
    using Cons.prems by (intro le_nat_le_bytes) simp
  ultimately show ?case using Cons by (simp add: entry_frame_def Let_def)
qed

lemma entry_tile_run:
  assumes "log_ready d" "0 \<le> N" "N * 256 < log_size d" "N < 1000000" "log_size d < 2 ^ 62"
  shows "\<exists>cache. handleEntryTile (encodeTileIndex N) d =
    (Some (octets cache (concat (map entry_frame (take 256 (drop (nat (N * 256)) (log_entries d)))))), d)"
proof -
  let ?s = "N * 256" and ?n = "log_size d"
  let ?e = "if ?s + 256 > ?n then ?n else ?s + 256"
  have t: "TreeSize d = (Inr ?n, d)" using TreeSize_inv [of d] assms(1) by (simp add: log_ready_def log_size_def)
  have w: "wrap64 ?s = ?s" "wrap64 (?s + 256) = ?s + 256" using assms by (simp_all add: wrap64_id)
  have "GetEntries ?s ?e d = (Inr (take (nat ?e - nat ?s) (drop (nat ?s) (log_entries d))), d)"
    using assms by (intro GetEntries_run) auto
  moreover have "take (nat ?e - nat ?s) (drop (nat ?s) (log_entries d)) = take 256 (drop (nat ?s) (log_entries d))"
  proof (cases "?s + 256 > ?n")
    case True
    then have "length (drop (nat ?s) (log_entries d)) \<le> 256" using assms(2) by (simp add: log_size_def nat_le_iff)
    with True assms show ?thesis by (simp add: log_size_def)
  qed (use assms in \<open>simp add: nat_add_distrib\<close>)
  ultimately have "GetEntries ?s ?e d = (Inr (take 256 (drop (nat ?s) (log_entries d))), d)" by simp
  then show ?thesis
    using assms by (cases "?s + 256 > ?n") (auto simp: handleEntryTile_def decode_tile TileWidth_def t w Let_def)
qed

lemma hash_tile_run:
  assumes "log_ready d" "0 \<le> N" "N * 256 * 2 ^ l < log_size d" "N < 1000000" "2 \<le> log_size d" "log_size d < 2 ^ 62" "l < 62"
  shows "\<exists>c cache. handleHashTile (dec_int (int l) @ ''/'' @ encodeTileIndex N) d =
      (Some (octets cache (concat (map (\<lambda>i. hash_bytes (nodeval (leaves d) l (nat i))) [N * 256..N * 256 + c - 1]))), d) \<and>
    c = min 256 ((log_size d + 2 ^ l - 1) div 2 ^ l - N * 256)"
proof -
  let ?s = "N * 256" and ?n = "log_size d" and ?p = "2 ^ l :: int"
  let ?m = "(?n + ?p - 1) div ?p" and ?c = "if N * 256 + 256 > (?n + ?p - 1) div ?p then (?n + ?p - 1) div ?p - N * 256 else 256"
  have "?p < 2 ^ 62" by (rule power_strict_increasing [OF assms(7)]) simp
  moreover have "wrap64 q = q" "wrap64 (?n + q - 1) = ?n + q - 1" if "0 < q" "q < 2 ^ 62" for q
    using that assms(5,6) by (simp_all add: wrap64_id)
  ultimately have p: "0 < ?p" "wrap64 (2 ^ l) = ?p" "wrap64 (?n + ?p - 1) = ?n + ?p - 1" by simp_all
  have t: "TreeSize d = (Inr ?n, d)" using TreeSize_inv [of d] assms(1) by (simp add: log_ready_def log_size_def)
  have w: "wrap64 ?s = ?s" using assms(2,4) by (simp add: wrap64_id)
  have lt: "?s < ?m" using assms(3,5) nodes_at_level [OF p(1), of ?n ?s] by simp
  have "(?s + ?c - 1) * ?p < ?n" using nodes_at_level [OF p(1), of ?n "?s + ?c - 1"] assms(5) lt by auto
  then have g: "GetTileHashes (int l) ?s ?c d = (Inr (map (\<lambda>i. nodeval (leaves d) l (nat i)) [?s..?s + ?c - 1]), d)"
    using assms lt by (intro GetTileHashes_run) auto
  have "CHR ''/'' \<notin> set (dec_int (int l))"
    using dec_nat_digits [of l] digit_not_path(1) by (auto simp: dec_int_def list_all_iff)
  then have c: "cut ''/'' (dec_int (int l) @ ''/'' @ encodeTileIndex N) = Some (dec_int (int l), encodeTileIndex N)"
    using cut_char [of "CHR ''/''" "dec_int (int l)" "encodeTileIndex N"] by simp
  have "ParseInt (dec_int (int l)) = Inr (int l)" using assms(7) by (intro ParseInt_dec_int) auto
  then have h: "handleHashTile (dec_int (int l) @ ''/'' @ encodeTileIndex N) d = serveHashTile (int l) N d"
    unfolding handleHashTile_def c using decode_tile [OF assms(2,4)] by simp
  have "\<exists>cache. serveHashTile (int l) N d =
      (Some (octets cache (concat (map hash_bytes (map (\<lambda>i. nodeval (leaves d) l (nat i)) [?s..?s + ?c - 1])))), d)"
    using g lt by (cases "?m < ?s + 256") (auto simp: serveHashTile_def t w p TileWidth_def drop_bit_eq_div Let_def simp del: map_map)
  moreover have "?c = min 256 (?m - ?s)" by simp
  ultimately show ?thesis unfolding h by (auto simp: comp_def)
qed

lemma dec_int_hd: "0 \<le> i \<Longrightarrow> \<exists>c cs. dec_int i = c # cs \<and> is_digit c"
  using dec_nat_hd [of "nat i"] by (simp add: dec_int_def)

lemma tile_request:
  assumes "rq_Method r = ''GET''" "rq_Path r = ''/tile/'' @ p"
  shows "ServeHTTP h r d = (if HasPrefix p ''entries/'' then handleEntryTile (TrimPrefix p ''entries/'') d else handleHashTile p d)"
  using assms by (simp add: ServeHTTP_def route_def handleTile_def HasPrefix_def TrimPrefix_def Let_def)

section \<open>Properties\<close>

text \<open>
  C36. The tiles serve the log: for a reachable log a \<open>GET\<close> of the path that \<open>TilePath\<close> gives
  for an entry tile is answered with 200 and frames from which exactly the entries of that
  tile are read back; a \<open>GET\<close> of the path of a hash tile whose level \<open>l\<close> is a level of the tree is
  answered with the hashes of the nodes of level \<open>l\<close> of the tree in the window of the tile, each the
  Merkle Tree Hash of the entries below it that exist, also of the incomplete last node. Tile indices
  are below one million, where their encoding is read back. The level of a tile is the level of the
  tree here; \<open>HashTileCoord\<close>, which no handler calls, divides it by 8, as the C2SP scheme does.
\<close>

theorem tiles_serve_log:
  assumes reach: "(log_step cr cs)\<^sup>*\<^sup>* empty_db d" and size: "2 \<le> log_size d" "log_size d < 2 ^ 62"
    and short: "\<forall>e\<in>set (log_entries d). length (le_EntryData e) < 2 ^ 32"
    and get: "rq_Method r = ''GET''" and N: "0 \<le> N" "N < 1000000" and l: "l < 62"
  shows "(N * 256 < log_size d \<and> rq_Path r = ''/'' @ TilePath \<lparr>tc_Level = -1, tc_Index = N, tc_Width = 256\<rparr> \<longrightarrow>
      (\<exists>cache data. ServeHTTP h r d = (Some (octets cache data), d) \<and>
         read_frames 256 data = take 256 (drop (nat (N * 256)) (entries d)))) \<and>
    (N * 256 * 2 ^ l < log_size d \<and> rq_Path r = ''/'' @ TilePath \<lparr>tc_Level = int l, tc_Index = N, tc_Width = 256\<rparr> \<longrightarrow>
      (\<exists>cache c. ServeHTTP h r d = (Some (octets cache (concat (map (\<lambda>i. hash_bytes (root_of (take (2 ^ l) (drop (nat i * 2 ^ l) (entries d)))))
           [N * 256..N * 256 + c - 1]))), d) \<and> c = min 256 ((log_size d + 2 ^ l - 1) div 2 ^ l - N * 256)))"
proof (intro conjI impI; elim conjE)
  have ready: "log_ready d" by (rule reachable_ready [OF reach])
  {
    assume "N * 256 < log_size d" "rq_Path r = ''/'' @ TilePath \<lparr>tc_Level = -1, tc_Index = N, tc_Width = 256\<rparr>"
    then have "ServeHTTP h r d = handleEntryTile (encodeTileIndex N) d"
      using tile_request [OF get, of "''entries/'' @ encodeTileIndex N" h d] by (simp add: TilePath_def HasPrefix_def TrimPrefix_def)
    moreover let ?es = "take 256 (drop (nat (N * 256)) (log_entries d))"
    have "read_frames 256 (concat (map entry_frame ?es)) = map le_EntryData ?es"
      using short by (intro read_frames_all) (auto dest!: in_set_takeD in_set_dropD)
    ultimately show "\<exists>cache data. ServeHTTP h r d = (Some (octets cache data), d) \<and> read_frames 256 data = take 256 (drop (nat (N * 256)) (entries d))"
      using entry_tile_run [OF ready N(1) \<open>N * 256 < _\<close> N(2) size(2)] by (auto simp: entries_def take_map drop_map)
  }
  assume n: "N * 256 * 2 ^ l < log_size d" and "rq_Path r = ''/'' @ TilePath \<lparr>tc_Level = int l, tc_Index = N, tc_Width = 256\<rparr>"
  then have p: "rq_Path r = ''/tile/'' @ dec_int (int l) @ ''/'' @ encodeTileIndex N" by (simp add: TilePath_def)
  obtain c cs where "dec_int (int l) = c # cs" "is_digit c" using dec_int_hd [of "int l"] by auto
  moreover have "\<not> is_digit CHR ''e''" by (simp add: is_digit_def digit_val_def)
  ultimately have "\<not> HasPrefix (dec_int (int l) @ ''/'' @ encodeTileIndex N) ''entries/''" by (auto simp: HasPrefix_def)
  with tile_request [OF get p] have "ServeHTTP h r d = handleHashTile (dec_int (int l) @ ''/'' @ encodeTileIndex N) d" by simp
  moreover have "nodeval (leaves d) l i = root_of (take (2 ^ l) (drop (i * 2 ^ l) (entries d)))" for i
    by (simp add: nodeval_def root_of_def leaves_def entries_def take_map drop_map comp_def)
  ultimately show "\<exists>cache c. ServeHTTP h r d = (Some (octets cache (concat (map (\<lambda>i. hash_bytes (root_of (take (2 ^ l) (drop (nat i * 2 ^ l) (entries d)))))
      [N * 256..N * 256 + c - 1]))), d) \<and> c = min 256 ((log_size d + 2 ^ l - 1) div 2 ^ l - N * 256)"
    using hash_tile_run [OF ready N(1) n N(2) size l] by auto
qed

text \<open>
  C35. The proof endpoints tell the truth about the signed checkpoint: for a reachable log
  \<open>/proof/inclusion\<close> for an index below the size of the latest checkpoint is answered with a
  proof that leads from the entry to the root in the checkpoint, and \<open>/proof/consistency\<close> for
  two sizes up to it with the true roots of both sizes and a proof that
  \<open>VerifyConsistency\<close> accepts for them.
\<close>

theorem proof_endpoints_verify:
  assumes reach: "(log_step cr cs)\<^sup>*\<^sup>* empty_db d" and size: "int (length (entries d)) < 2 ^ 63"
    and cp: "LatestCheckpoint d = (Inr cp, d)" and get: "rq_Method r = ''GET''"
  shows "(\<forall>i. rq_Path r = ''/proof/inclusion'' \<and> rq_Query r ''serial'' = '''' \<and> rq_Query r ''index'' = dec_int i \<and> 0 \<le> i \<and> i < cp_TreeSize cp \<longrightarrow>
      (\<exists>pf root. ServeHTTP h r d = (Some (json_response (InclusionProofResponse_json
           \<lparr>ip_LeafIndex = i, ip_TreeSize = cp_TreeSize cp, ip_LeafHash = hex_EncodeToString (hash_bytes (LeafHash (entries d ! nat i))),
            ip_Proof = map (\<lambda>h. hex_EncodeToString (hash_bytes h)) pf, ip_RootHash = hex_EncodeToString (hash_bytes root),
            ip_Checkpoint = cp_Body cp\<rparr>)), d) \<and>
         RootFromInclusionProof i (cp_TreeSize cp) (LeafHash (entries d ! nat i)) pf = Some root \<and> cp_RootHash cp = hash_bytes root)) \<and>
    (\<forall>m n. rq_Path r = ''/proof/consistency'' \<and> rq_Query r ''old'' = dec_int m \<and> rq_Query r ''new'' = dec_int n \<and>
        1 \<le> m \<and> m \<le> n \<and> n \<le> cp_TreeSize cp \<longrightarrow>
      (\<exists>pf a b d'. ServeHTTP h r d = (Some (json_response (ConsistencyProofResponse_json
           \<lparr>cr_OldSize = m, cr_NewSize = n, cr_OldRoot = hex_EncodeToString (hash_bytes a), cr_NewRoot = hex_EncodeToString (hash_bytes b),
            cr_Proof = map (\<lambda>h. hex_EncodeToString (hash_bytes h)) pf, cr_Checkpoint = cp_Body cp\<rparr>)), d') \<and>
         MTH (take (nat m) (entries d)) = Some a \<and> MTH (take (nat n) (entries d)) = Some b \<and>
         VerifyConsistency m n pf a b = Some True \<and> entries d' = entries d \<and> checkpoints d' = checkpoints d))"
proof -
  have ready: "log_ready d" by (rule reachable_ready [OF reach])
  then have nf: "no_faults d" by (simp add: log_ready_def)
  have served: "log_served d" using ready size by (simp add: log_served_def log_size_def entries_def)
  have true: "cp_true (entries d) cp" using reachable_claims [OF reach LatestCheckpoint_mem(1) [OF nf cp]] .
  then have n: "cp_TreeSize cp \<le> log_size d" by (simp add: cp_true_def log_size_def entries_def)
  have bound: "cp_TreeSize cp < 2 ^ 63" using n size by (simp add: log_size_def entries_def)
  have ne: "dec_int i \<noteq> ''''" if "0 \<le> i" for i using dec_int_hd [OF that] by auto
  show ?thesis
  proof (intro conjI allI impI; elim conjE)
    fix i assume q: "rq_Path r = ''/proof/inclusion''" "rq_Query r ''serial'' = ''''" "rq_Query r ''index'' = dec_int i" and i: "0 \<le> i" "i < cp_TreeSize cp"
    have e: "GetEntry i d = (Inr (log_entries d ! nat i), d)" "entries d ! nat i = le_EntryData (log_entries d ! nat i)"
      using GetEntry_run [OF ready i(1)] i n by (simp_all add: entries_def log_size_def nat_less_iff)
    have "resolve_leaf r d = (Inr i, d)" using q i ne ParseInt_dec_int [of i] bound by (simp add: resolve_leaf_def)
    then have "ServeHTTP h r d = inclusion_response i d"
      using q(1) get by (simp add: ServeHTTP_def route_def handleInclusionProof_def HasPrefix_def Let_def)
    with served_path [OF served i n] true i cp e
    show "\<exists>pf root. ServeHTTP h r d = (Some (json_response (InclusionProofResponse_json
           \<lparr>ip_LeafIndex = i, ip_TreeSize = cp_TreeSize cp, ip_LeafHash = hex_EncodeToString (hash_bytes (LeafHash (entries d ! nat i))),
            ip_Proof = map (\<lambda>h. hex_EncodeToString (hash_bytes h)) pf, ip_RootHash = hex_EncodeToString (hash_bytes root),
            ip_Checkpoint = cp_Body cp\<rparr>)), d) \<and>
         RootFromInclusionProof i (cp_TreeSize cp) (LeafHash (entries d ! nat i)) pf = Some root \<and> cp_RootHash cp = hash_bytes root"
      by (auto simp: inclusion_response_def cp_true_def)
  next
    fix m k assume q: "rq_Path r = ''/proof/consistency''" "rq_Query r ''old'' = dec_int m" "rq_Query r ''new'' = dec_int k"
      and mk: "1 \<le> m" "m \<le> k" "k \<le> cp_TreeSize cp"
    have "handleConsistencyProof r d = consistency_response m k d"
      using q mk ne ParseInt_dec_int [of m] ParseInt_dec_int [of k] bound by (simp add: handleConsistencyProof_def Let_def)
    then have run: "ServeHTTP h r d = consistency_response m k d"
      using q(1) get by (simp add: ServeHTTP_def route_def HasPrefix_def Let_def)
    let ?a = "root_of (take (nat m) (entries d))" and ?b = "root_of (take (nat k) (entries d))"
    obtain pf where pf: "ConsistencyProofFromNodes m k (node_at d) = Some (Inr pf)" "VerifyConsistency m k pf ?a ?b = Some True"
      using served_subproof [OF served, of m k] mk n by auto
    have roots: "RootFromNodes m (node_at d) = Some ?a" "RootFromNodes k (node_at d) = Some ?b"
      using served_root [OF served] mk n by auto
    obtain es j where ev: "snd (EmitEvent ''consistency_proof'' (JObj [(''new_size'', JNum k), (''old_size'', JNum m),
        (''proof_length'', JNum (int (length pf)))]) d) = d\<lparr>events := es, events_seq := j\<rparr>"
      using EmitEvent_run [OF nf] by blast
    show "\<exists>pf a b d'. ServeHTTP h r d = (Some (json_response (ConsistencyProofResponse_json
           \<lparr>cr_OldSize = m, cr_NewSize = k, cr_OldRoot = hex_EncodeToString (hash_bytes a), cr_NewRoot = hex_EncodeToString (hash_bytes b),
            cr_Proof = map (\<lambda>h. hex_EncodeToString (hash_bytes h)) pf, cr_Checkpoint = cp_Body cp\<rparr>)), d') \<and>
         MTH (take (nat m) (entries d)) = Some a \<and> MTH (take (nat k) (entries d)) = Some b \<and>
         VerifyConsistency m k pf a b = Some True \<and> entries d' = entries d \<and> checkpoints d' = checkpoints d"
      using mk pf roots cp ev
      by (intro exI [of _ pf] exI [of _ ?a] exI [of _ ?b] exI [of _ "d\<lparr>events := es, events_seq := j\<rparr>"])
        (simp add: run consistency_response_def MTH_mth root_of_def entries_def)
  qed
qed

subsection \<open>Witnesses\<close>

definition demo_handler :: Handler where
  "demo_handler = \<lparr>h_assertBld = \<lparr>bd_logOrigin = ''log''\<rparr>, h_parse = (\<lambda>_. Inl ErrDB)\<rparr>"

definition get_request :: "string \<Rightarrow> (string \<Rightarrow> string) \<Rightarrow> request" where
  "get_request p q = \<lparr>rq_Method = ''GET'', rq_Path = p, rq_Query = q, rq_Header = (\<lambda>_. ''''), rq_Body = []\<rparr>"

lemma tile_paths:
  "TilePath \<lparr>tc_Level = -1, tc_Index = 0, tc_Width = 256\<rparr> = ''tile/entries/000''"
  "TilePath \<lparr>tc_Level = 1, tc_Index = 0, tc_Width = 256\<rparr> = ''tile/1/000''"
  by code_simp+

theorem tiles_serve_log_witness:
  "(\<exists>cache data. ServeHTTP demo_handler (get_request ''/tile/entries/000'' (\<lambda>_. '''')) demo_log = (Some (octets cache data), demo_log) \<and>
      read_frames 256 data = [NullEntryBytes, [7]]) \<and>
   (\<exists>cache. ServeHTTP demo_handler (get_request ''/tile/1/000'' (\<lambda>_. '''')) demo_log =
      (Some (octets cache (hash_bytes (root_of [NullEntryBytes, [7]]))), demo_log))"
proof -
  have sz: "log_size demo_log = 2"
    using arg_cong [OF demo_log_run(2), of length] by (simp add: log_size_def entries_def)
  obtain t t' where rows: "log_entries demo_log = [null_entry\<lparr>le_CreatedAt := t\<rparr>, demo_entry\<lparr>le_Index := 1, le_CreatedAt := t'\<rparr>]"
    using demo_log_rows(1) by metis
  have short: "\<forall>e\<in>set (log_entries demo_log). length (le_EntryData e) < 2 ^ 32"
    by (simp add: rows null_entry_def demo_entry_def log_entry_def NullEntryBytes_def)
  note th = tiles_serve_log [OF demo_log_run(1) _ _ short, where N = 0 and l = 1 and h = demo_handler]
  show ?thesis
    using th [of "get_request ''/tile/entries/000'' (\<lambda>_. '''')"] th [of "get_request ''/tile/1/000'' (\<lambda>_. '''')"]
    by (simp add: sz get_request_def tile_paths demo_log_run(2))
qed

theorem proof_endpoints_verify_witness:
  "\<exists>cp pf root. checkpoints demo_cp_db = [cp] \<and>
     ServeHTTP demo_handler (get_request ''/proof/inclusion'' (\<lambda>k. if k = ''index'' then ''1'' else '''')) demo_cp_db =
       (Some (json_response (InclusionProofResponse_json
          \<lparr>ip_LeafIndex = 1, ip_TreeSize = 2, ip_LeafHash = hex_EncodeToString (hash_bytes (LeafHash [7])),
           ip_Proof = map (\<lambda>h. hex_EncodeToString (hash_bytes h)) pf, ip_RootHash = hex_EncodeToString (hash_bytes root),
           ip_Checkpoint = cp_Body cp\<rparr>)), demo_cp_db) \<and>
     RootFromInclusionProof 1 2 (LeafHash [7]) pf = Some root \<and> cp_RootHash cp = hash_bytes root"
proof -
  obtain cp where cp: "checkpoints demo_cp_db = [cp]" "cp_TreeSize cp = 2" using demo_cp_run(3) by blast
  note reach = rtranclp_trans [OF demo_log_run(1) demo_cp_run(1)]
  have nf: "no_faults demo_cp_db" using reachable_ready [OF reach] by (simp add: log_ready_def)
  have latest: "LatestCheckpoint demo_cp_db = (Inr cp, demo_cp_db)" using LatestCheckpoint_run [OF nf] cp(1) by auto
  let ?r = "get_request ''/proof/inclusion'' (\<lambda>k. if k = ''index'' then ''1'' else '''')"
  have r: "rq_Path ?r = ''/proof/inclusion''" "rq_Query ?r ''serial'' = ''''" "rq_Query ?r ''index'' = dec_int 1" "rq_Method ?r = ''GET''"
    by (simp add: get_request_def, simp add: get_request_def, simp add: get_request_def, code_simp, simp add: get_request_def)
  from proof_endpoints_verify [OF reach _ latest r(4), of demo_handler, THEN conjunct1, rule_format, of 1] r cp show ?thesis
    by (simp add: demo_cp_run(2))
qed

end
