(* ===== verification/Asn1Values.thy ===== *)
theory Asn1Values
  imports Asn1 "HOL-Library.List_Lexorder"
begin

text \<open>
  DER of the Go values that certificates and log entries are made of, as \<open>encoding/asn1\<close>
  writes and reads them: object identifiers, integers, booleans, bit and octet strings, times,
  and sequences. A decoder takes the element from the front of its input and returns the rest.
  Every encoder is inverted by its decoder on the values in its range; the locale \<open>element\<close>
  lifts this to lists of elements.
\<close>

section \<open>Elements\<close>

definition tlv :: "nat \<Rightarrow> nat \<Rightarrow> bool \<Rightarrow> bytes \<Rightarrow> bytes" where
  "tlv class tag cmp content = appendTagAndLength class tag cmp (length content) @ content"

abbreviation seq :: "bytes \<Rightarrow> bytes" where
  "seq \<equiv> tlv 0 16 True"

definition parse_elem :: "nat \<Rightarrow> bool \<Rightarrow> bytes \<Rightarrow> goerr + bytes \<times> bytes" where
  "parse_elem tag cmp data =
     (if data = [] then Inl (Errorf ''asn1: syntax error: sequence truncated'')
      else case parseTagAndLength data of
        Inl e \<Rightarrow> Inl e
      | Inr ((class, t, c, len), rest) \<Rightarrow>
          if class \<noteq> 0 \<or> t \<noteq> tag \<or> c \<noteq> cmp then Inl (Errorf ''asn1: structure error: tags don't match'')
          else if length rest < len then Inl (Errorf ''asn1: syntax error: data truncated'')
          else Inr (take len rest, drop len rest))"

lemma parse_elem_tlv:
  assumes "tag < 31" "length content < 2 ^ 31"
  shows "parse_elem tag cmp (tlv 0 tag cmp content @ rest) = Inr (content, rest)"
proof -
  have "appendTagAndLength 0 tag cmp (length content) \<noteq> []" by (simp add: appendTagAndLength_def Let_def)
  then show ?thesis
    using parseTagAndLength_append [of 0 tag "length content" cmp "content @ rest"] assms
    by (simp add: parse_elem_def tlv_def)
qed

lemma tlv_ne [simp]: "tlv class tag cmp content \<noteq> []"
  by (simp add: tlv_def appendTagAndLength_def Let_def)

lemma Unmarshal_tlv:
  assumes "class < 4" "tag < 31" "length content < 2 ^ 31"
  shows "asn1_Unmarshal_RawValue (tlv class tag cmp content @ rest) =
    Inr (\<lparr>rv_Class = class, rv_Tag = tag, rv_IsCompound = cmp, rv_Bytes = content, rv_FullBytes = tlv class tag cmp content\<rparr>, rest)"
  using asn1_roundtrip [of "\<lparr>rv_Class = class, rv_Tag = tag, rv_IsCompound = cmp, rv_Bytes = content, rv_FullBytes = []\<rparr>" rest] assms
  by (simp add: asn1_Marshal_RawValue_def tlv_def)

lemma length_tlv: "length content \<le> length (tlv class tag cmp content)"
  by (simp add: tlv_def)

text \<open>
  An element on its own: the library reads it whole, whatever follows. Every encoder below
  writes such an element.
\<close>

definition one_tlv :: "bytes \<Rightarrow> bool" where
  "one_tlv d \<longleftrightarrow> (\<exists>rv. asn1_Unmarshal_RawValue d = Inr (rv, []))"

lemma parseBase128_append: "parseBase128 sh acc d = Inr (v, rest) \<Longrightarrow> parseBase128 sh acc (d @ r) = Inr (v, rest @ r)"
  by (induction sh acc d rule: parseBase128.induct) (auto simp: Let_def split: if_splits)

lemma parseLength_append_rest: "parseLength k len d = Inr (n, rest) \<Longrightarrow> parseLength k len (d @ r) = Inr (n, rest @ r)"
  by (induction k len d rule: parseLength.induct) (auto simp: Let_def split: if_splits)

lemma parseTagAndLength_append_rest:
  assumes "parseTagAndLength d = Inr (h, rest)"
  shows "parseTagAndLength (d @ r) = Inr (h, rest @ r)"
proof -
  from assms obtain b d' where d: "d = b # d'" by (cases d) (simp_all add: parseTagAndLength_def)
  define T where "T x = (if unat b mod 32 = 31 then (case parseBase128 0 0 x of Inl e \<Rightarrow> Inl e
      | Inr (tag, rest) \<Rightarrow> if tag < 31 then Inl (Errorf ''asn1: syntax error: non-minimal tag'') else Inr (tag, rest))
      else Inr (unat b mod 32, x))" for x
  from assms obtain tag l d'' where T: "T d' = Inr (tag, l # d'')"
    unfolding d parseTagAndLength_def list.case Let_def T_def [symmetric]
    by (auto split: sum.splits list.splits)
  then have "T (d' @ r) = Inr (tag, l # d'' @ r)"
    using parseBase128_append [of 0 0 d' _ _ r] by (fastforce simp: T_def split: if_splits sum.splits prod.splits)
  moreover have "parseLength k 0 (d'' @ r) = Inr (n, x @ r)" if "parseLength k 0 d'' = Inr (n, x)" for k n x
    using that by (rule parseLength_append_rest)
  ultimately show ?thesis
    using assms T unfolding d append_Cons parseTagAndLength_def list.case Let_def T_def [symmetric]
    by (auto split: sum.splits if_splits)
qed

lemma parseLength_shorter: "parseLength k len d = Inr (n, rest) \<Longrightarrow> length rest \<le> length d"
  by (induction k len d rule: parseLength.induct) (auto simp: Let_def split: if_splits)

lemma parseBase128_shorter: "parseBase128 sh acc bs = Inr (v, rest) \<Longrightarrow> length rest < length bs"
  by (induction sh acc bs rule: parseBase128.induct) (auto simp: Let_def split: if_splits)

lemma parseTagAndLength_shorter: "parseTagAndLength d = Inr (h, rest) \<Longrightarrow> length rest < length d"
  by (auto simp: parseTagAndLength_def Let_def split: list.splits sum.splits if_splits prod.splits
      dest!: parseBase128_shorter parseLength_shorter)

lemma Unmarshal_shorter: "asn1_Unmarshal_RawValue d = Inr (rv, rest) \<Longrightarrow> length rest < length d"
  by (auto simp: asn1_Unmarshal_RawValue_def split: if_splits sum.splits dest!: parseTagAndLength_shorter)

lemma Unmarshal_one_tlv:
  assumes "one_tlv d"
  obtains rv where "\<And>r. asn1_Unmarshal_RawValue (d @ r) = Inr (rv, r)" "rv_FullBytes rv = d"
proof -
  from assms obtain rv where rv: "asn1_Unmarshal_RawValue d = Inr (rv, [])" by (auto simp: one_tlv_def)
  then obtain cls tag c len rest where h: "parseTagAndLength d = Inr ((cls, tag, c, len), rest)" "d \<noteq> []"
      "length rest = len" "rv_Bytes rv = rest" "rv_FullBytes rv = take (length d - length rest + len) d"
      "rv = \<lparr>rv_Class = cls, rv_Tag = tag, rv_IsCompound = c, rv_Bytes = rest, rv_FullBytes = take (length d - length rest + len) d\<rparr>"
    by (auto simp: asn1_Unmarshal_RawValue_def split: if_splits sum.splits)
  show ?thesis
    by (rule that [of rv]) (use h parseTagAndLength_append_rest [OF h(1)] parseTagAndLength_shorter [OF h(1)] in \<open>auto simp: asn1_Unmarshal_RawValue_def\<close>)
qed

text \<open>
  Repeated decoding up to the end of the input, for any kind of element whose decoder
  inverts its encoder: the shape of \<open>[]T\<close> in the library and of the field loop of the code.
\<close>

primrec marshal_list :: "('a \<Rightarrow> goerr + bytes) \<Rightarrow> 'a list \<Rightarrow> goerr + bytes" where
  "marshal_list enc [] = Inr []"
| "marshal_list enc (x # xs) =
     (case enc x of Inl e \<Rightarrow> Inl e
      | Inr d \<Rightarrow> (case marshal_list enc xs of Inl e \<Rightarrow> Inl e | Inr ds \<Rightarrow> Inr (d @ ds)))"

locale element =
  fixes enc :: "'a \<Rightarrow> goerr + bytes" and dec :: "bytes \<Rightarrow> goerr + 'b \<times> bytes" and val :: "'a \<Rightarrow> 'b" and ok :: "'a \<Rightarrow> bool"
  assumes dec_enc: "ok x \<Longrightarrow> enc x = Inr d \<Longrightarrow> length d < 2 ^ 31 \<Longrightarrow> dec (d @ rest) = Inr (val x, rest)"
    and enc_ne: "ok x \<Longrightarrow> enc x = Inr d \<Longrightarrow> d \<noteq> []"
begin

lemma dec_list:
  assumes "\<And>data. loop data = (if data = [] then Inr [] else case dec data of Inl e \<Rightarrow> Inl e
      | Inr (v, rest) \<Rightarrow> (case loop rest of Inl e \<Rightarrow> Inl e | Inr vs \<Rightarrow> Inr (v # vs)))"
    and "\<forall>x\<in>set xs. ok x" "marshal_list enc xs = Inr d" "length d < 2 ^ 31"
  shows "loop d = Inr (map val xs)"
  using assms(2-)
proof (induction xs arbitrary: d)
  case Nil
  then show ?case by (simp add: assms(1) [of "[]"])
next
  case (Cons x xs)
  then obtain a b where "enc x = Inr a" "marshal_list enc xs = Inr b" "d = a @ b" by (auto split: sum.splits)
  moreover from this Cons.prems have "a \<noteq> []" "dec (a @ b) = Inr (val x, b)"
    by (auto intro: dec_enc dest: enc_ne)
  ultimately show ?case using Cons by (subst assms(1)) simp
qed

end

section \<open>Integers\<close>

text \<open>Two's complement, big endian, with as few octets as possible.\<close>

definition int_content :: "int \<Rightarrow> bytes" where
  "int_content n =
     (if n < 0 then
        (let bs = map not (big_Bytes (nat (- n - 1))) in if bs = [] \<or> unat (hd bs) < 128 then 0xff # bs else bs)
      else if n = 0 then [0]
      else (let bs = big_Bytes (nat n) in if unat (hd bs) \<ge> 128 then 0 # bs else bs))"

definition parse_int :: "bytes \<Rightarrow> goerr + int" where
  "parse_int bs =
     (if bs = [] then Inl (Errorf ''asn1: structure error: empty integer'')
      else if length bs > 1 \<and> (hd bs = 0 \<and> unat (bs ! 1) < 128 \<or> hd bs = 0xff \<and> unat (bs ! 1) \<ge> 128)
      then Inl (Errorf ''asn1: structure error: integer not minimally-encoded'')
      else Inr (if unat (hd bs) \<ge> 128 then int (be_nat bs) - 256 ^ length bs else int (be_nat bs)))"

lemma parse_int_content: "0 \<le> n \<Longrightarrow> parse_int (int_content n) = Inr n"
proof (cases "n = 0")
  case True
  then show ?thesis by (simp add: int_content_def parse_int_def be_nat_def)
next
  case False
  assume "0 \<le> n"
  with False obtain b bs where b: "big_Bytes (nat n) = b # bs" "b \<noteq> 0" "int (be_nat (b # bs)) = n"
    using big_Bytes_hd [of "nat n"] be_nat_big_Bytes [of "nat n"] by (cases "big_Bytes (nat n)") auto
  show ?thesis
  proof (cases "unat b \<ge> 128")
    case True
    with b False \<open>0 \<le> n\<close> show ?thesis
      by (simp add: int_content_def parse_int_def be_nat_Cons [of 0])
  next
    case small: False
    then have "b \<noteq> 0xff" by auto
    with small b False \<open>0 \<le> n\<close> show ?thesis by (simp add: int_content_def parse_int_def)
  qed
qed

lemma length_int_content: "0 \<le> n \<Longrightarrow> n < 2 ^ 63 \<Longrightarrow> length (int_content n) \<le> 9"
proof -
  assume n: "0 \<le> n" "n < 2 ^ 63"
  have "length (big_Bytes (nat n)) \<le> 8"
  proof (rule ccontr)
    assume "\<not> length (big_Bytes (nat n)) \<le> 8"
    then obtain b bs where b: "big_Bytes (nat n) = b # bs" "8 \<le> length bs" by (cases "big_Bytes (nat n)") auto
    then have "0 < nat n" by (cases "nat n = 0") (auto simp: big_Bytes.simps [of 0])
    then have "b \<noteq> 0" using big_Bytes_hd [of "nat n"] b by simp
    then have "1 \<le> unat b" by (simp add: Suc_le_eq unat_gt_0)
    then have "(256 :: nat) ^ length bs \<le> unat b * 256 ^ length bs" by simp
    also have "\<dots> \<le> nat n" using be_nat_big_Bytes [of "nat n"] by (simp add: b be_nat_Cons)
    finally have "(256 :: nat) ^ 8 \<le> nat n" using power_increasing [OF b(2), of "256 :: nat"] by linarith
    with n show False by simp
  qed
  then show ?thesis using n by (simp add: int_content_def Let_def)
qed

section \<open>Object identifiers\<close>

type_synonym oid = "nat list"

definition oid_content :: "oid \<Rightarrow> goerr + bytes" where
  "oid_content oid =
     (if length oid < 2 \<or> oid ! 0 > 2 \<or> (oid ! 0 < 2 \<and> oid ! 1 \<ge> 40)
      then Inl (Errorf ''asn1: structure error: invalid object identifier'')
      else Inr (appendBase128Int (oid ! 0 * 40 + oid ! 1) @ concat (map appendBase128Int (drop 2 oid))))"

function parse_arcs :: "bytes \<Rightarrow> goerr + nat list" where
  "parse_arcs bs =
     (if bs = [] then Inr []
      else case parseBase128 0 0 bs of
        Inl e \<Rightarrow> Inl e
      | Inr (v, rest) \<Rightarrow> (case parse_arcs rest of Inl e \<Rightarrow> Inl e | Inr vs \<Rightarrow> Inr (v # vs)))"
  by pat_completeness auto
termination by (relation "measure length") (auto dest: parseBase128_shorter)

declare parse_arcs.simps [simp del]

definition parse_oid :: "bytes \<Rightarrow> goerr + oid" where
  "parse_oid bs =
     (if bs = [] then Inl (Errorf ''asn1: syntax error: zero length OBJECT IDENTIFIER'')
      else case parseBase128 0 0 bs of
        Inl e \<Rightarrow> Inl e
      | Inr (v, rest) \<Rightarrow>
        (case parse_arcs rest of
           Inl e \<Rightarrow> Inl e
         | Inr arcs \<Rightarrow> Inr ((if v < 80 then [v div 40, v mod 40] else [2, v - 80]) @ arcs)))"

text \<open>An identifier that survives: valid, with arcs that fit in 31 bits.\<close>

definition oid_ok :: "oid \<Rightarrow> bool" where
  "oid_ok oid \<longleftrightarrow> 2 \<le> length oid \<and> oid ! 0 \<le> 2 \<and> (oid ! 0 < 2 \<longrightarrow> oid ! 1 < 40) \<and>
     oid ! 0 * 40 + oid ! 1 < 2 ^ 31 \<and> (\<forall>a\<in>set (drop 2 oid). a < 2 ^ 31)"

lemma base128_hi_snoc: "0 < n \<Longrightarrow> base128_hi n = base128_hi (n div 128) @ [of_nat (128 + n mod 128)]"
  by (subst base128_hi.simps) simp

lemma length_base128_hi: "n < 128 ^ k \<Longrightarrow> length (base128_hi n) \<le> k"
proof (induction k arbitrary: n)
  case 0
  then show ?case by (simp add: base128_hi.simps)
next
  case (Suc k)
  then have "n div 128 < 128 ^ k" by (simp add: div_less_iff_less_mult mult.commute)
  with Suc.IH show ?case by (cases "n = 0") (simp_all add: base128_hi.simps [of 0] base128_hi_snoc)
qed

lemma parseBase128_hi:
  "sh + length (base128_hi m) \<le> 5 \<Longrightarrow>
   parseBase128 sh acc (base128_hi m @ r) = parseBase128 (sh + length (base128_hi m)) (acc * 128 ^ length (base128_hi m) + m) r"
proof (induction m arbitrary: r rule: base128_hi.induct)
  case (1 m)
  show ?case
  proof (cases "m = 0")
    case False
    let ?h = "base128_hi (m div 128)"
    define d :: byte where "d = of_nat (128 + m mod 128)"
    have d: "unat d = 128 + m mod 128" unfolding d_def by (simp only: unat_byte_of_nat) simp
    have m: "base128_hi m = ?h @ [d]" using False by (simp add: base128_hi_snoc d_def)
    have first: "d \<noteq> 0x80" if "sh + length ?h = 0"
    proof -
      from that have "m div 128 = 0" by (cases "m div 128 = 0") (auto simp: base128_hi_snoc)
      with False d have "unat d \<noteq> 128" by simp
      then show ?thesis by auto
    qed
    have "m = (m div 128) * 128 + m mod 128" by simp
    then have "(acc * 128 ^ length ?h + m div 128) * 128 + m mod 128 = acc * 128 ^ Suc (length ?h) + m"
      by (simp only: power_Suc algebra_simps)
    moreover have "(128 + m mod 128) mod 128 = m mod 128" by simp
    ultimately show ?thesis
      using 1(1) [OF False, of "d # r"] 1(2) first by (auto simp: m d Let_def algebra_simps)
  qed (simp add: base128_hi.simps)
qed

lemma parseBase128_roundtrip:
  assumes "n < 2 ^ 31"
  shows "parseBase128 0 0 (appendBase128Int n @ rest) = Inr (n, rest)"
proof -
  have "n div 128 < 128 ^ 4" using assms by simp
  then have l: "length (base128_hi (n div 128)) \<le> 4" by (rule length_base128_hi)
  define d :: byte where "d = of_nat (n mod 128)"
  have d: "unat d = n mod 128" unfolding d_def by (simp only: unat_byte_of_nat) simp
  then have "unat d < 128" by simp
  then have "d \<noteq> 0x80" by auto
  moreover have "n \<le> 2147483647" using assms by simp
  ultimately show ?thesis
    using parseBase128_hi [of 0 "n div 128" 0 "d # rest"] l
    by (simp add: appendBase128Int_def d_def [symmetric] d Let_def)
qed

lemma parse_arcs_roundtrip: "\<forall>a\<in>set arcs. a < 2 ^ 31 \<Longrightarrow> parse_arcs (concat (map appendBase128Int arcs)) = Inr arcs"
proof (induction arcs)
  case Nil
  show ?case by (simp add: parse_arcs.simps)
next
  case (Cons a arcs)
  have "appendBase128Int a \<noteq> []" by (simp add: appendBase128Int_def)
  with Cons show ?case by (subst parse_arcs.simps) (simp add: parseBase128_roundtrip)
qed

lemma parse_oid_content:
  assumes "oid_ok oid"
  shows "\<exists>c. oid_content oid = Inr c \<and> parse_oid c = Inr oid"
proof -
  from assms obtain a b arcs where oid: "oid = a # b # arcs"
    by (cases oid rule: list.exhaust [case_names Nil Cons]; metis (no_types) list.exhaust oid_ok_def length_Cons list.size(3) One_nat_def not_less_eq_eq numeral_2_eq_2 le0 not_less0 Suc_le_eq)
  have ne: "appendBase128Int (a * 40 + b) \<noteq> []" by (simp add: appendBase128Int_def)
  from assms have v: "a * 40 + b < 2 ^ 31" "\<forall>x\<in>set arcs. x < 2 ^ 31" "a \<le> 2" "a < 2 \<Longrightarrow> b < 40"
    by (simp_all add: oid oid_ok_def)
  have "(if a * 40 + b < 80 then [(a * 40 + b) div 40, (a * 40 + b) mod 40] else [2, a * 40 + b - 80]) = [a, b]"
    using v(3,4) by (cases "a < 2") auto
  moreover from v(3,4) have "a = 2 \<or> b < 40" by linarith
  ultimately show ?thesis
    using v(1-3) ne parse_arcs_roundtrip [OF v(2)] by (auto simp: oid_content_def oid parse_oid_def parseBase128_roundtrip)
qed

section \<open>Booleans, bit strings and octet strings\<close>

definition bool_content :: "bool \<Rightarrow> bytes" where
  "bool_content b = [if b then 255 else 0]"

definition parse_bool :: "bytes \<Rightarrow> goerr + bool" where
  "parse_bool bs =
     (if length bs \<noteq> 1 then Inl (Errorf ''asn1: syntax error: invalid boolean'')
      else if hd bs = 0 then Inr False
      else if hd bs = 255 then Inr True
      else Inl (Errorf ''asn1: syntax error: invalid boolean''))"

lemma parse_bool_content [simp]: "parse_bool (bool_content b) = Inr b"
  by (simp add: parse_bool_def bool_content_def)

record BitString =
  bs_Bytes :: bytes
  bs_BitLength :: nat

definition bits_content :: "BitString \<Rightarrow> bytes" where
  "bits_content b = of_nat ((8 - bs_BitLength b mod 8) mod 8) # bs_Bytes b"

definition parse_bits :: "bytes \<Rightarrow> goerr + BitString" where
  "parse_bits bs =
     (if bs = [] then Inl (Errorf ''asn1: syntax error: zero length BIT STRING'')
      else let padding = unat (hd bs) in
        if padding > 7 \<or> (length bs = 1 \<and> padding > 0) \<or> unat (last bs) mod 2 ^ padding \<noteq> 0
        then Inl (Errorf ''asn1: syntax error: invalid padding bits in BIT STRING'')
        else Inr \<lparr>bs_Bytes = tl bs, bs_BitLength = (length bs - 1) * 8 - padding\<rparr>)"

lemma parse_bits_content [simp]:
  "parse_bits (bits_content \<lparr>bs_Bytes = bs, bs_BitLength = length bs * 8\<rparr>) = Inr \<lparr>bs_Bytes = bs, bs_BitLength = length bs * 8\<rparr>"
  by (simp add: parse_bits_def bits_content_def)

section \<open>Times\<close>

text \<open>
  A \<open>time.Time\<close> as its calendar shows it: date and clock in its own zone, nanoseconds, and
  the zone's offset from UTC in seconds.
\<close>

record go_time =
  t_year :: int
  t_month :: nat
  t_day :: nat
  t_hour :: nat
  t_min :: nat
  t_sec :: nat
  t_nsec :: nat
  t_off :: int

definition leap_year :: "int \<Rightarrow> bool" where
  "leap_year y \<longleftrightarrow> y mod 4 = 0 \<and> (y mod 100 \<noteq> 0 \<or> y mod 400 = 0)"

definition days_in :: "int \<Rightarrow> nat \<Rightarrow> nat" where
  "days_in y m = (if m = 2 then (if leap_year y then 29 else 28) else if m \<in> {4, 6, 9, 11} then 30 else 31)"

definition civil_ok :: "go_time \<Rightarrow> bool" where
  "civil_ok t \<longleftrightarrow> 1 \<le> t_month t \<and> t_month t \<le> 12 \<and> 1 \<le> t_day t \<and> t_day t \<le> days_in (t_year t) (t_month t) \<and>
     t_hour t < 24 \<and> t_min t < 60 \<and> t_sec t < 60"

text \<open>Fixed-width decimal fields.\<close>

primrec digits :: "nat \<Rightarrow> nat \<Rightarrow> bytes" where
  "digits 0 v = []"
| "digits (Suc w) v = digits w (v div 10) @ [of_nat (48 + v mod 10)]"

definition ascii_digit :: "byte \<Rightarrow> bool" where
  "ascii_digit b \<longleftrightarrow> 48 \<le> unat b \<and> unat b \<le> 57"

definition digits_val :: "bytes \<Rightarrow> nat" where
  "digits_val bs = foldl (\<lambda>a b. a * 10 + (unat b - 48)) 0 bs"

primrec parse_nums :: "nat list \<Rightarrow> bytes \<Rightarrow> goerr + nat list \<times> bytes" where
  "parse_nums [] bs = Inr ([], bs)"
| "parse_nums (w # ws) bs =
     (if length bs < w \<or> \<not> list_all ascii_digit (take w bs) then Inl (Errorf ''parsing time'')
      else case parse_nums ws (drop w bs) of
        Inl e \<Rightarrow> Inl e
      | Inr (vs, rest) \<Rightarrow> Inr (digits_val (take w bs) # vs, rest))"

text \<open>\<open>appendTimeCommon\<close>; the zone is cut to whole minutes, the fraction is not written.\<close>

definition zone_content :: "int \<Rightarrow> bytes" where
  "zone_content off =
     (let m = go_div off 60; a = nat \<bar>m\<bar> in
      if m = 0 then [90] else (if off > 0 then 43 else 45) # digits 2 (a div 60) @ digits 2 (a mod 60))"

definition time_common :: "go_time \<Rightarrow> bytes" where
  "time_common t =
     digits 2 (t_month t) @ digits 2 (t_day t) @ digits 2 (t_hour t) @ digits 2 (t_min t) @ digits 2 (t_sec t) @
     zone_content (t_off t)"

definition time_tlv :: "go_time \<Rightarrow> goerr + bytes" where
  "time_tlv t =
     (let y = t_year t in
      if y < 1950 \<or> y \<ge> 2050 then
        (if y < 0 \<or> y > 9999 then Inl (Errorf ''asn1: structure error: cannot represent time as GeneralizedTime'')
         else Inr (tlv 0 24 False (digits 4 (nat y) @ time_common t)))
      else Inr (tlv 0 23 False (digits 2 (nat (if y < 2000 then y - 1900 else y - 2000)) @ time_common t)))"

text \<open>
  \<open>parseUTCTime\<close> and \<open>parseGeneralizedTime\<close>: \<open>time.Parse\<close>, then the check that the result
  formats back to the same text, which leaves exactly the canonical texts.
\<close>

definition parse_zone :: "bytes \<Rightarrow> goerr + int" where
  "parse_zone bs =
     (if bs = [90] then Inr 0
      else if length bs = 5 \<and> (hd bs = 43 \<or> hd bs = 45) \<and> list_all ascii_digit (tl bs) then
        (let h = digits_val (take 2 (tl bs)); m = digits_val (drop 2 (tl bs)) in
         if h > 24 \<or> m > 59 \<or> (h = 0 \<and> m = 0) then Inl (Errorf ''parsing time'')
         else Inr (if hd bs = 43 then int (h * 3600 + m * 60) else - int (h * 3600 + m * 60)))
      else Inl (Errorf ''parsing time''))"

definition check_civil :: "go_time \<Rightarrow> goerr + go_time" where
  "check_civil t = (if civil_ok t then Inr t else Inl (Errorf ''parsing time''))"

definition mk_time :: "int \<Rightarrow> nat list \<Rightarrow> nat \<Rightarrow> nat \<Rightarrow> int \<Rightarrow> goerr + go_time" where
  "mk_time y vs s ns off =
     check_civil \<lparr>t_year = y, t_month = vs ! 0, t_day = vs ! 1, t_hour = vs ! 2, t_min = vs ! 3, t_sec = s, t_nsec = ns, t_off = off\<rparr>"

definition parse_UTCTime :: "bytes \<Rightarrow> goerr + go_time" where
  "parse_UTCTime bs =
     (case parse_nums [2, 2, 2, 2, 2] bs of
        Inl e \<Rightarrow> Inl e
      | Inr (vs, rest) \<Rightarrow>
        (let y = int (if vs ! 0 \<ge> 50 then 1900 + vs ! 0 else 2000 + vs ! 0) in
         case parse_zone rest of
           Inr off \<Rightarrow> mk_time y (tl vs) 0 0 off
         | Inl _ \<Rightarrow>
           (case parse_nums [2] rest of
              Inl e \<Rightarrow> Inl e
            | Inr (ss, rest) \<Rightarrow>
              (case parse_zone rest of Inl e \<Rightarrow> Inl e | Inr off \<Rightarrow> mk_time y (tl vs) (ss ! 0) 0 off))))"

definition parse_frac :: "bytes \<Rightarrow> nat \<times> bytes" where
  "parse_frac bs =
     (case bs of [] \<Rightarrow> (0, bs)
      | b # rest \<Rightarrow>
        let ds = takeWhile ascii_digit rest in
        if b = 46 \<and> ds \<noteq> [] \<and> length ds \<le> 9 \<and> last ds \<noteq> 48
        then (digits_val ds * 10 ^ (9 - length ds), drop (length ds) rest) else (0, bs))"

definition parse_GeneralizedTime :: "bytes \<Rightarrow> goerr + go_time" where
  "parse_GeneralizedTime bs =
     (case parse_nums [4, 2, 2, 2, 2, 2] bs of
        Inl e \<Rightarrow> Inl e
      | Inr (vs, rest) \<Rightarrow>
        (let (ns, rest) = parse_frac rest in
         case parse_zone rest of Inl e \<Rightarrow> Inl e | Inr off \<Rightarrow> mk_time (int (vs ! 0)) (tl vs) (vs ! 5) ns off))"

definition parse_time_elem :: "bytes \<Rightarrow> goerr + go_time \<times> bytes" where
  "parse_time_elem data =
     (case parse_elem 23 False data of
        Inr (c, rest) \<Rightarrow> (case parse_UTCTime c of Inl e \<Rightarrow> Inl e | Inr t \<Rightarrow> Inr (t, rest))
      | Inl e \<Rightarrow>
        (case parse_elem 24 False data of
           Inr (c, rest) \<Rightarrow> (case parse_GeneralizedTime c of Inl e \<Rightarrow> Inl e | Inr t \<Rightarrow> Inr (t, rest))
         | Inl _ \<Rightarrow> Inl e))"

text \<open>What is left of a time after its DER: whole seconds and a zone of whole minutes.\<close>

definition der_time :: "go_time \<Rightarrow> go_time" where
  "der_time t = t\<lparr>t_nsec := 0, t_off := 60 * go_div (t_off t) 60\<rparr>"

definition time_ok :: "go_time \<Rightarrow> bool" where
  "time_ok t \<longleftrightarrow> civil_ok t \<and> 0 \<le> t_year t \<and> t_year t \<le> 9999 \<and> \<bar>t_off t\<bar> < 25 * 3600"

lemma length_digits [simp]: "length (digits w v) = w"
  by (induction w arbitrary: v) simp_all

lemma ascii_digit_byte [simp]: "ascii_digit (of_nat (48 + v mod 10))"
  by (simp only: ascii_digit_def unat_byte_of_nat) simp

lemma all_digits [simp]: "list_all ascii_digit (digits w v)"
  by (induction w arbitrary: v) (simp_all del: of_nat_add)

lemma digits_val_digits [simp]: "v < 10 ^ w \<Longrightarrow> digits_val (digits w v) = v"
proof (induction w arbitrary: v)
  case (Suc w)
  then have "v div 10 < 10 ^ w" by (simp add: div_less_iff_less_mult mult.commute)
  moreover have "unat (of_nat (48 + v mod 10) :: byte) - 48 = v mod 10"
    by (simp only: unat_byte_of_nat) simp
  ultimately show ?case using Suc.IH [of "v div 10"] by (simp add: digits_val_def del: of_nat_add)
qed (simp add: digits_val_def)

lemma parse_nums_digits [simp]:
  "v < 10 ^ w \<Longrightarrow> parse_nums (w # ws) (digits w v @ rest) =
    (case parse_nums ws rest of Inl e \<Rightarrow> Inl e | Inr (vs, rest) \<Rightarrow> Inr (v # vs, rest))"
  by (simp split: sum.split)

lemma go_div_60: "\<bar>off\<bar> < 60 * k \<Longrightarrow> \<bar>go_div off 60\<bar> < k"
  by (auto simp: go_div_def sgn_if abs_if split: if_splits; presburger)

lemma go_div_60_sgn: "go_div off 60 \<noteq> 0 \<Longrightarrow> (0 < off \<longleftrightarrow> 0 < go_div off 60)"
  by (auto simp: go_div_def sgn_if split: if_splits)

lemma parse_zone_content [simp]:
  assumes "\<bar>off\<bar> < 25 * 3600"
  shows "parse_zone (zone_content off) = Inr (60 * go_div off 60)"
proof (cases "go_div off 60 = 0")
  case True
  then show ?thesis by (simp add: parse_zone_def zone_content_def)
next
  case False
  define a where "a = nat \<bar>go_div off 60\<bar>"
  have "\<bar>go_div off 60\<bar> < 1500" using go_div_60 [of off 1500] assms by simp
  then have a: "a div 60 < 25" "a div 60 < 100" "a mod 60 < 60" "a mod 60 < 100" "0 < a"
    using False by (simp_all add: a_def div_less_iff_less_mult less_imp_le order_less_trans [of _ 60 100])
  have nz: "\<not> (a div 60 = 0 \<and> a mod 60 = 0)" using a(5) by (metis div_mult_mod_eq mult_0 add_0 less_numeral_extra(3))
  have sum: "a div 60 * 3600 + a mod 60 * 60 = 60 * a"
    using div_mult_mod_eq [of a 60] by linarith
  have "go_div off 60 = (if off > 0 then int a else - int a)"
    using go_div_60_sgn [OF False] False by (simp add: a_def)
  with a nz sum False show ?thesis
    by (auto simp: parse_zone_def zone_content_def Let_def a_def [symmetric] numeral_2_eq_2 [symmetric] simp flip: of_nat_add of_nat_mult simp del: digits.simps)
qed

lemma zone_content_shape:
  "length (zone_content off) = 1 \<or> length (zone_content off) = 5" "zone_content off \<noteq> []" "hd (zone_content off) \<noteq> 46"
  by (simp_all add: zone_content_def Let_def)

lemma parse_zone_seconds: "\<exists>e. parse_zone (digits 2 v @ zone_content off) = Inl e"
  using zone_content_shape [of off] by (auto simp: parse_zone_def numeral_2_eq_2)

lemma parse_frac_zone [simp]: "parse_frac (zone_content off) = (0, zone_content off)"
  using zone_content_shape [of off] by (cases "zone_content off") (simp_all add: parse_frac_def)

lemma parse_nums_done [simp]: "parse_nums [] bs = Inr ([], bs)" by simp

lemma civil_bounds:
  assumes "civil_ok t"
  shows "t_month t < 10 ^ 2" "t_day t < 10 ^ 2" "t_hour t < 10 ^ 2" "t_min t < 10 ^ 2" "t_sec t < 10 ^ 2"
  using assms by (auto simp: civil_ok_def days_in_def split: if_splits)

lemma mk_time_der:
  "civil_ok t \<Longrightarrow> y = t_year t \<Longrightarrow>
   mk_time y [t_month t, t_day t, t_hour t, t_min t] (t_sec t) 0 (60 * go_div (t_off t) 60) = Inr (der_time t)"
  by (cases t) (simp add: mk_time_def check_civil_def der_time_def civil_ok_def)

declare parse_nums.simps [simp del] digits.simps [simp del]

lemma parse_UTCTime_content:
  assumes "time_ok t" "1950 \<le> t_year t" "t_year t < 2050"
  shows "parse_UTCTime (digits 2 (nat (if t_year t < 2000 then t_year t - 1900 else t_year t - 2000)) @ time_common t) = Inr (der_time t)"
proof -
  define yy where "yy = nat (if t_year t < 2000 then t_year t - 1900 else t_year t - 2000)"
  have yy: "yy < 10 ^ 2" "int (if yy \<ge> 50 then 1900 + yy else 2000 + yy) = t_year t"
    using assms(2,3) by (auto simp: yy_def)
  have ok: "civil_ok t" "\<bar>t_off t\<bar> < 25 * 3600" using assms(1) by (simp_all add: time_ok_def)
  obtain e where e: "parse_zone (digits 2 (t_sec t) @ zone_content (t_off t)) = Inl e" using parse_zone_seconds by blast
  show ?thesis
    unfolding yy_def [symmetric] parse_UTCTime_def time_common_def
    using yy civil_bounds [OF ok(1)] e mk_time_der [OF ok(1) yy(2)] ok(2) by (simp add: parse_nums_done split: if_splits)
qed

lemma parse_GeneralizedTime_content:
  assumes "time_ok t"
  shows "parse_GeneralizedTime (digits 4 (nat (t_year t)) @ time_common t) = Inr (der_time t)"
proof -
  have y: "nat (t_year t) < 10 ^ 4" "int (nat (t_year t)) = t_year t" using assms by (auto simp: time_ok_def)
  have ok: "civil_ok t" "\<bar>t_off t\<bar> < 25 * 3600" using assms(1) by (simp_all add: time_ok_def)
  have "mk_time (t_year t) (tl [nat (t_year t), t_month t, t_day t, t_hour t, t_min t, t_sec t]) (t_sec t) 0 (60 * go_div (t_off t) 60) =
      Inr (der_time t)"
    using mk_time_der [OF ok(1) refl] by (simp add: mk_time_def)
  with y ok(2) civil_bounds [OF ok(1)] show ?thesis
    unfolding parse_GeneralizedTime_def time_common_def by (simp add: parse_nums_done)
qed

lemma parse_elem_other_tag:
  assumes "tag < 31" "tag' \<noteq> tag" "length content < 2 ^ 31"
  shows "parse_elem tag' cmp' (tlv 0 tag cmp content @ rest) = Inl (Errorf ''asn1: structure error: tags don't match'')"
proof -
  have "appendTagAndLength 0 tag cmp (length content) \<noteq> []" by (simp add: appendTagAndLength_def Let_def)
  then show ?thesis
    using parseTagAndLength_append [of 0 tag "length content" cmp "content @ rest"] assms
    by (simp add: parse_elem_def tlv_def)
qed

lemma length_zone_content: "length (zone_content off) \<le> 5"
  by (simp add: zone_content_def Let_def)

lemma time_elem:
  assumes "time_ok t"
  shows "\<exists>d. time_tlv t = Inr d \<and> (\<forall>rest. parse_time_elem (d @ rest) = Inr (der_time t, rest))"
proof -
  let ?yy = "nat (if t_year t < 2000 then t_year t - 1900 else t_year t - 2000)"
  have l: "length (digits 2 ?yy @ time_common t) < 2 ^ 31" "length (digits 4 (nat (t_year t)) @ time_common t) < 2 ^ 31"
    using length_zone_content [of "t_off t"] by (simp_all add: time_common_def)
  show ?thesis
  proof (cases "1950 \<le> t_year t \<and> t_year t < 2050")
    case True
    with parse_UTCTime_content [OF assms] parse_elem_tlv [OF _ l(1), of 23 False] show ?thesis
      by (auto simp: time_tlv_def Let_def parse_time_elem_def)
  next
    case False
    with assms parse_GeneralizedTime_content [OF assms] parse_elem_tlv [OF _ l(2), of 24 False]
      parse_elem_other_tag [OF _ _ l(2), of 24 23 False False]
    show ?thesis by (auto simp: time_tlv_def Let_def parse_time_elem_def time_ok_def)
  qed
qed

lemma go_div_mult: "go_div (60 * k) 60 = k"
  by (cases "k = 0") (simp_all add: go_div_def sgn_mult abs_mult sgn_mult_abs)

lemma zone_content_der: "zone_content (60 * go_div off 60) = zone_content off"
  using go_div_60_sgn [of off] by (auto simp: zone_content_def go_div_mult Let_def)

lemma time_tlv_der [simp]: "time_tlv (der_time t) = time_tlv t"
proof -
  have "time_common (der_time t) = time_common t" "t_year (der_time t) = t_year t"
    by (simp_all add: der_time_def time_common_def zone_content_der)
  then show ?thesis by (simp only: time_tlv_def)
qed

section \<open>The validity period\<close>

definition validity_tlv :: "go_time \<Rightarrow> go_time \<Rightarrow> goerr + bytes" where
  "validity_tlv notBefore notAfter =
     (case time_tlv notBefore of Inl e \<Rightarrow> Inl e
      | Inr a \<Rightarrow> (case time_tlv notAfter of Inl e \<Rightarrow> Inl e | Inr b \<Rightarrow> Inr (seq (a @ b))))"

definition parse_validity :: "bytes \<Rightarrow> goerr + go_time \<times> go_time" where
  "parse_validity data =
     (case parse_elem 16 True data of
        Inl e \<Rightarrow> Inl e
      | Inr (c, _) \<Rightarrow>
        (case parse_time_elem c of
           Inl e \<Rightarrow> Inl e
         | Inr (nb, c) \<Rightarrow> (case parse_time_elem c of Inl e \<Rightarrow> Inl e | Inr (na, _) \<Rightarrow> Inr (nb, na))))"

lemma validity_roundtrip:
  assumes "time_ok nb" "time_ok na" "validity_tlv nb na = Inr d" "length d < 2 ^ 31"
  shows "parse_validity (d @ rest) = Inr (der_time nb, der_time na)"
proof -
  obtain a where a: "time_tlv nb = Inr a" "\<And>rest. parse_time_elem (a @ rest) = Inr (der_time nb, rest)"
    using time_elem [OF assms(1)] by blast
  obtain b where b: "time_tlv na = Inr b" "\<And>rest. parse_time_elem (b @ rest) = Inr (der_time na, rest)"
    using time_elem [OF assms(2)] by blast
  from a b have d: "d = seq (a @ b)" using assms(3) by (simp add: validity_tlv_def)
  then have "length (a @ b) < 2 ^ 31" using assms(4) length_tlv [of "a @ b" 0 16 True] by simp
  then show ?thesis
    using parse_elem_tlv [of 16 "a @ b" True rest] a(2) [of b] b(2) [of "[]"] by (simp add: parse_validity_def d)
qed

section \<open>Extensions\<close>

record Extension =
  ext_Id :: oid
  ext_Critical :: bool
  ext_Value :: bytes

definition oid_tlv :: "oid \<Rightarrow> goerr + bytes" where
  "oid_tlv oid = map_sum (\<lambda>e. e) (tlv 0 6 False) (oid_content oid)"

definition extension_tlv :: "Extension \<Rightarrow> goerr + bytes" where
  "extension_tlv x =
     (case oid_tlv (ext_Id x) of
        Inl e \<Rightarrow> Inl e
      | Inr i \<Rightarrow> Inr (seq (i @ (if ext_Critical x then tlv 0 1 False (bool_content True) else []) @ tlv 0 4 False (ext_Value x))))"

definition parse_oid_elem :: "bytes \<Rightarrow> goerr + oid \<times> bytes" where
  "parse_oid_elem data =
     (case parse_elem 6 False data of
        Inl e \<Rightarrow> Inl e
      | Inr (c, rest) \<Rightarrow> (case parse_oid c of Inl e \<Rightarrow> Inl e | Inr oid \<Rightarrow> Inr (oid, rest)))"

text \<open>An optional boolean: a different tag, or the end of the sequence, leaves \<open>false\<close>.\<close>

definition parse_optional_bool :: "bytes \<Rightarrow> goerr + bool \<times> bytes" where
  "parse_optional_bool data =
     (if data = [] then Inr (False, [])
      else case parseTagAndLength data of
        Inl e \<Rightarrow> Inl e
      | Inr ((class, t, c, len), rest) \<Rightarrow>
          if class \<noteq> 0 \<or> t \<noteq> 1 \<or> c then Inr (False, data)
          else if length rest < len then Inl (Errorf ''asn1: syntax error: data truncated'')
          else (case parse_bool (take len rest) of Inl e \<Rightarrow> Inl e | Inr b \<Rightarrow> Inr (b, drop len rest)))"

definition parse_extension :: "bytes \<Rightarrow> goerr + Extension \<times> bytes" where
  "parse_extension data =
     (case parse_elem 16 True data of
        Inl e \<Rightarrow> Inl e
      | Inr (c, rest) \<Rightarrow>
        (case parse_oid_elem c of
           Inl e \<Rightarrow> Inl e
         | Inr (oid, c) \<Rightarrow>
           (case parse_optional_bool c of
              Inl e \<Rightarrow> Inl e
            | Inr (crit, c) \<Rightarrow>
              (case parse_elem 4 False c of
                 Inl e \<Rightarrow> Inl e
               | Inr (v, _) \<Rightarrow> Inr (\<lparr>ext_Id = oid, ext_Critical = crit, ext_Value = v\<rparr>, rest)))))"

lemma parse_elem_shorter: "parse_elem tag cmp d = Inr (c, rest) \<Longrightarrow> length rest < length d"
  by (auto simp: parse_elem_def split: if_splits sum.splits dest!: parseTagAndLength_shorter)

lemma parse_extension_shorter: "parse_extension d = Inr (x, rest) \<Longrightarrow> length rest < length d"
  by (auto simp: parse_extension_def split: sum.splits prod.splits dest: parse_elem_shorter)

function parse_extensions_loop :: "bytes \<Rightarrow> goerr + Extension list" where
  "parse_extensions_loop data =
     (if data = [] then Inr []
      else case parse_extension data of
        Inl e \<Rightarrow> Inl e
      | Inr (v, rest) \<Rightarrow> (case parse_extensions_loop rest of Inl e \<Rightarrow> Inl e | Inr vs \<Rightarrow> Inr (v # vs)))"
  by pat_completeness auto
termination by (relation "measure length") (auto dest: parse_extension_shorter)

declare parse_extensions_loop.simps [simp del]

definition parse_extensions :: "bytes \<Rightarrow> goerr + Extension list" where
  "parse_extensions data =
     (case parse_elem 16 True data of Inl e \<Rightarrow> Inl e | Inr (c, _) \<Rightarrow> parse_extensions_loop c)"

definition extensions_tlv :: "Extension list \<Rightarrow> goerr + bytes" where
  "extensions_tlv xs = map_sum (\<lambda>e. e) seq (marshal_list extension_tlv xs)"

definition ext_ok :: "Extension \<Rightarrow> bool" where
  "ext_ok x \<longleftrightarrow> oid_ok (ext_Id x)"

lemma oid_elem:
  assumes "oid_ok oid" "oid_tlv oid = Inr d" "length d < 2 ^ 31"
  shows "parse_oid_elem (d @ rest) = Inr (oid, rest)"
proof -
  obtain c where c: "oid_content oid = Inr c" "parse_oid c = Inr oid" using parse_oid_content [OF assms(1)] by blast
  then have d: "d = tlv 0 6 False c" using assms(2) by (simp add: oid_tlv_def)
  then have "length c < 2 ^ 31" using assms(3) length_tlv [of c 0 6 False] by simp
  then show ?thesis by (simp add: parse_oid_elem_def d parse_elem_tlv c(2))
qed

lemma optional_bool:
  assumes "length v < 2 ^ 31"
  shows "parse_optional_bool ((if b then tlv 0 1 False (bool_content True) else []) @ tlv 0 4 False v @ rest) =
    Inr (b, tlv 0 4 False v @ rest)"
proof (cases b)
  case True
  then show ?thesis
    using parseTagAndLength_append [of 0 1 1 False "bool_content True @ tlv 0 4 False v @ rest"] parse_bool_content [of True]
    by (simp add: parse_optional_bool_def tlv_def bool_content_def)
next
  case False
  then show ?thesis
    using parseTagAndLength_append [of 0 4 "length v" False "v @ rest"] assms
    by (simp add: parse_optional_bool_def) (simp add: tlv_def)
qed

interpretation ext: element extension_tlv parse_extension "\<lambda>x. x" ext_ok
proof
  fix x d rest
  assume ok: "ext_ok x" and d: "extension_tlv x = Inr d"
  then obtain i where i: "oid_tlv (ext_Id x) = Inr i" by (auto simp: extension_tlv_def split: sum.splits)
  let ?c = "i @ (if ext_Critical x then tlv 0 1 False (bool_content True) else []) @ tlv 0 4 False (ext_Value x)"
  have seq: "d = seq ?c" using d i by (simp add: extension_tlv_def)
  then show "d \<noteq> []" by simp
  assume len: "length d < 2 ^ 31"
  then have c: "length ?c < 2 ^ 31" using length_tlv [of ?c 0 16 True] by (simp only: seq)
  then have l: "length i < 2 ^ 31" "length (ext_Value x) < 2 ^ 31"
    using length_tlv [of "ext_Value x" 0 4 False] by simp_all
  have "parse_oid_elem ?c = Inr (ext_Id x, drop (length i) ?c)"
    using oid_elem [OF _ i l(1)] ok by (simp add: ext_ok_def)
  with l(2) optional_bool [OF l(2), of "ext_Critical x" "[]"] parse_elem_tlv [OF _ c, of 16 True rest]
    parse_elem_tlv [OF _ l(2), of 4 False "[]"]
  show "parse_extension (d @ rest) = Inr (x, rest)"
    by (simp add: parse_extension_def seq)
qed

lemma extensions_roundtrip:
  assumes "\<forall>x\<in>set xs. ext_ok x" "extensions_tlv xs = Inr d" "length d < 2 ^ 31"
  shows "parse_extensions (d @ rest) = Inr xs"
proof -
  obtain c where c: "marshal_list extension_tlv xs = Inr c" "d = seq c"
    using assms(2) by (cases "marshal_list extension_tlv xs") (auto simp: extensions_tlv_def)
  then have l: "length c < 2 ^ 31" using assms(3) length_tlv [of c 0 16 True] by simp
  have "parse_extensions_loop c = Inr xs"
    using ext.dec_list [OF parse_extensions_loop.simps assms(1) c(1) l] by simp
  then show ?thesis using parse_elem_tlv [OF _ l, of 16 True rest] by (simp add: parse_extensions_def c(2))
qed

section \<open>Strings, sets and names\<close>

text \<open>\<open>utf8.Valid\<close>.\<close>

definition cont_byte :: "nat \<Rightarrow> nat \<Rightarrow> byte \<Rightarrow> bool" where
  "cont_byte lo hi b \<longleftrightarrow> lo \<le> unat b \<and> unat b \<le> hi"

function utf8_Valid :: "bytes \<Rightarrow> bool" where
  "utf8_Valid bs =
     (case bs of
        [] \<Rightarrow> True
      | b # rest \<Rightarrow>
        let n = unat b;
            lo = (if n = 0xE0 then 0xA0 else if n = 0xF0 then 0x90 else 0x80);
            hi = (if n = 0xED then 0x9F else if n = 0xF4 then 0x8F else 0xBF);
            k = (if n < 0x80 then 0 else if n < 0xE0 then 1 else if n < 0xF0 then 2 else 3 :: nat) in
        if 0x80 \<le> n \<and> n < 0xC2 \<or> 0xF4 < n \<or> length rest < k then False
        else if 0 < k \<and> \<not> cont_byte lo hi (hd rest) then False
        else if \<not> list_all (cont_byte 0x80 0xBF) (take (k - 1) (tl rest)) then False
        else utf8_Valid (drop k rest))"
  by pat_completeness auto
termination by (relation "measure length") (auto split: if_splits)

declare utf8_Valid.simps [simp del]

text \<open>The UTF-8 encoding of a rune.\<close>

definition utf8_rune :: "nat \<Rightarrow> bytes" where
  "utf8_rune r =
     (if r < 0x80 then [of_nat r]
      else if r < 0x800 then [of_nat (0xC0 + r div 64), of_nat (0x80 + r mod 64)]
      else if r < 0x10000 then [of_nat (0xE0 + r div 4096), of_nat (0x80 + r div 64 mod 64), of_nat (0x80 + r mod 64)]
      else [of_nat (0xF0 + r div 262144), of_nat (0x80 + r div 4096 mod 64), of_nat (0x80 + r div 64 mod 64), of_nat (0x80 + r mod 64)])"

text \<open>\<open>isPrintable\<close>, without the asterisk and the ampersand.\<close>

definition isPrintable :: "byte \<Rightarrow> bool" where
  "isPrintable b \<longleftrightarrow> (let n = unat b in
     97 \<le> n \<and> n \<le> 122 \<or> 65 \<le> n \<and> n \<le> 90 \<or> 48 \<le> n \<and> n \<le> 57 \<or> 39 \<le> n \<and> n \<le> 41 \<or> 43 \<le> n \<and> n \<le> 47 \<or>
     n = 32 \<or> n = 58 \<or> n = 61 \<or> n = 63)"

text \<open>A string without a type of its own, and one that is marked \<open>utf8\<close>.\<close>

definition string_tlv :: "string \<Rightarrow> goerr + bytes" where
  "string_tlv s =
     (let bs = str_bytes s in
      if list_all isPrintable bs then Inr (tlv 0 19 False bs)
      else if \<not> utf8_Valid bs then Inl (Errorf ''asn1: string not valid UTF-8'')
      else Inr (tlv 0 12 False bs))"

definition utf8_tlv :: "string \<Rightarrow> goerr + bytes" where
  "utf8_tlv s =
     (if utf8_Valid (str_bytes s) then Inr (tlv 0 12 False (str_bytes s)) else Inl (Errorf ''asn1: string not valid UTF-8''))"

text \<open>\<open>SET OF\<close>: the encodings of the elements are written in ascending order.\<close>

primrec marshal_each :: "('a \<Rightarrow> goerr + bytes) \<Rightarrow> 'a list \<Rightarrow> goerr + bytes list" where
  "marshal_each enc [] = Inr []"
| "marshal_each enc (x # xs) =
     (case enc x of Inl e \<Rightarrow> Inl e
      | Inr d \<Rightarrow> (case marshal_each enc xs of Inl e \<Rightarrow> Inl e | Inr ds \<Rightarrow> Inr (d # ds)))"

definition set_tlv :: "('a \<Rightarrow> goerr + bytes) \<Rightarrow> 'a list \<Rightarrow> goerr + bytes" where
  "set_tlv enc xs = map_sum (\<lambda>e. e) (\<lambda>ds. tlv 0 17 True (concat (sort ds))) (marshal_each enc xs)"

text \<open>
  What is used of \<open>pkix.Name\<close>, and \<open>asn1.Marshal(name.ToRDNSequence())\<close>: one set per kind of
  attribute, with all its values.
\<close>

record Name =
  nm_Country :: "string list"
  nm_Organization :: "string list"
  nm_OrganizationalUnit :: "string list"
  nm_Locality :: "string list"
  nm_Province :: "string list"
  nm_StreetAddress :: "string list"
  nm_PostalCode :: "string list"
  nm_SerialNumber :: string
  nm_CommonName :: string

definition ToRDNSequence :: "Name \<Rightarrow> (oid \<times> string) list list" where
  "ToRDNSequence n =
     map (\<lambda>(oid, values). map (\<lambda>v. (oid, v)) values) (filter (\<lambda>(oid, values). values \<noteq> [])
       [([2, 5, 4, 6], nm_Country n), ([2, 5, 4, 10], nm_Organization n), ([2, 5, 4, 11], nm_OrganizationalUnit n),
        ([2, 5, 4, 7], nm_Locality n), ([2, 5, 4, 8], nm_Province n), ([2, 5, 4, 9], nm_StreetAddress n),
        ([2, 5, 4, 17], nm_PostalCode n), ([2, 5, 4, 3], if nm_CommonName n = '''' then [] else [nm_CommonName n]),
        ([2, 5, 4, 5], if nm_SerialNumber n = '''' then [] else [nm_SerialNumber n])])"

definition attribute_tlv :: "oid \<times> string \<Rightarrow> goerr + bytes" where
  "attribute_tlv a =
     (case oid_tlv (fst a) of Inl e \<Rightarrow> Inl e
      | Inr i \<Rightarrow> (case string_tlv (snd a) of Inl e \<Rightarrow> Inl e | Inr v \<Rightarrow> Inr (seq (i @ v))))"

definition name_tlv :: "Name \<Rightarrow> goerr + bytes" where
  "name_tlv n = map_sum (\<lambda>e. e) seq (marshal_list (set_tlv attribute_tlv) (ToRDNSequence n))"

lemma name_tlv_seq: "name_tlv n = Inr d \<Longrightarrow> \<exists>c. d = seq c"
  by (auto simp: name_tlv_def map_sum_def split: sum.splits)

section \<open>The calendar\<close>

text \<open>A time in UTC from nanoseconds since 1970, on the calendar of \<open>time.Time\<close>.\<close>

definition time_UTC :: "int \<Rightarrow> go_time" where
  "time_UTC ns =
     (let s = ns div 1000000000; z = s div 86400 + 719468; r = s mod 86400;
          era = z div 146097; doe = z mod 146097;
          yoe = (doe - doe div 1460 + doe div 36524 - doe div 146096) div 365;
          doy = doe - (365 * yoe + yoe div 4 - yoe div 100);
          mp = (5 * doy + 2) div 153;
          m = (if mp < 10 then mp + 3 else mp - 9) in
      \<lparr>t_year = yoe + era * 400 + (if m \<le> 2 then 1 else 0), t_month = nat m, t_day = nat (doy - (153 * mp + 2) div 5 + 1),
       t_hour = nat (r div 3600), t_min = nat (r mod 3600 div 60), t_sec = nat (r mod 60),
       t_nsec = nat (ns mod 1000000000), t_off = 0\<rparr>)"

lemma time_UTC_examples:
  "time_UTC 0 = \<lparr>t_year = 1970, t_month = 1, t_day = 1, t_hour = 0, t_min = 0, t_sec = 0, t_nsec = 0, t_off = 0\<rparr>"
  "time_UTC 951868799000000000 = \<lparr>t_year = 2000, t_month = 2, t_day = 29, t_hour = 23, t_min = 59, t_sec = 59, t_nsec = 0, t_off = 0\<rparr>"
  "time_UTC 1772323200000000000 = \<lparr>t_year = 2026, t_month = 3, t_day = 1, t_hour = 0, t_min = 0, t_sec = 0, t_nsec = 0, t_off = 0\<rparr>"
  by code_simp+

end
