(* ===== verification/Logentry.thy ===== *)
theory Logentry
  imports Asn1Values Mtcformat MerkleTree
begin

unbundle bit_operations_syntax

text \<open>
  \<open>src/internal/mtcformat/logentry.go\<close> and \<open>oid.go\<close>: the DER of a
  \<open>TBSCertificateLogEntry\<close>, which is what the log commits to instead of the certificate, and
  the extensions and the issuer name that go into it. A slice that is \<open>nil\<close> is distinguished
  from an empty one where \<open>encoding/asn1\<close> distinguishes them (the optional extensions).
\<close>

section \<open>The code\<close>

definition OIDMTCProof :: oid where
  "OIDMTCProof = [1, 3, 6, 1, 4, 1, 44363, 47, 0]"

definition OIDTrustAnchorID :: oid where
  "OIDTrustAnchorID = [1, 3, 6, 1, 4, 1, 44363, 47, 1]"

record TBSCertificateLogEntry =
  lt_Version :: int
  lt_Issuer :: RawValue
  lt_NotBefore :: go_time
  lt_NotAfter :: go_time
  lt_Subject :: RawValue
  lt_SubjectPublicKeyAlgorithm :: RawValue
  lt_SubjectPublicKeyInfoHash :: bytes
  lt_Extensions :: "Extension list option"

definition FullBytes_only :: "bytes \<Rightarrow> RawValue" where
  "FullBytes_only d = \<lparr>rv_Class = 0, rv_Tag = 0, rv_IsCompound = False, rv_Bytes = [], rv_FullBytes = d\<rparr>"

text \<open>Fields shared with the certificate: the version with default 0, the optional extensions.\<close>

definition version_tlv :: "int \<Rightarrow> bytes" where
  "version_tlv v = (if v = 0 then [] else tlv 2 0 True (tlv 0 2 False (int_content v)))"

definition extensions_field :: "Extension list option \<Rightarrow> goerr + bytes" where
  "extensions_field exts =
     (case exts of None \<Rightarrow> Inr []
      | Some xs \<Rightarrow> map_sum (\<lambda>e. e) (tlv 2 3 True) (extensions_tlv xs))"

text \<open>\<open>asn1.Marshal(entry)\<close>.\<close>

definition asn1_Marshal_LogEntry :: "TBSCertificateLogEntry \<Rightarrow> goerr + bytes" where
  "asn1_Marshal_LogEntry e =
     (case validity_tlv (lt_NotBefore e) (lt_NotAfter e) of
        Inl err \<Rightarrow> Inl err
      | Inr val \<Rightarrow>
        (case extensions_field (lt_Extensions e) of
           Inl err \<Rightarrow> Inl err
         | Inr exts \<Rightarrow>
             Inr (seq (version_tlv (lt_Version e) @ asn1_Marshal_RawValue (lt_Issuer e) @ val @
                       asn1_Marshal_RawValue (lt_Subject e) @ asn1_Marshal_RawValue (lt_SubjectPublicKeyAlgorithm e) @
                       tlv 0 4 False (lt_SubjectPublicKeyInfoHash e) @ exts))))"

definition extractSPKIAlgorithm :: "bytes \<Rightarrow> goerr + RawValue" where
  "extractSPKIAlgorithm spkiDER =
     (case asn1_Unmarshal_RawValue spkiDER of
        Inl err \<Rightarrow> Inl (Wrap ''unmarshal SPKI outer: %w'' err)
      | Inr (spki, _) \<Rightarrow>
        (case asn1_Unmarshal_RawValue (rv_Bytes spki) of
           Inl err \<Rightarrow> Inl (Wrap ''unmarshal AlgorithmIdentifier: %w'' err)
         | Inr (algID, _) \<Rightarrow> Inr (FullBytes_only (asn1_Marshal_RawValue algID))))"

definition BuildLogEntry ::
  "RawValue \<Rightarrow> RawValue \<Rightarrow> go_time \<Rightarrow> go_time \<Rightarrow> bytes \<Rightarrow> Extension list option \<Rightarrow> goerr + bytes" where
  "BuildLogEntry issuerRaw subjectRaw notBefore notAfter spkiDER extensions =
     (if length spkiDER = 0 then Inl (Errorf ''mtcformat: empty SubjectPublicKeyInfo'')
      else let spkiHash = sha256 spkiDER in
        case extractSPKIAlgorithm spkiDER of
          Inl err \<Rightarrow> Inl (Wrap ''mtcformat: extract SPKI algorithm: %w'' err)
        | Inr spkiAlg \<Rightarrow>
          (case asn1_Marshal_LogEntry \<lparr>lt_Version = 2, lt_Issuer = issuerRaw, lt_NotBefore = notBefore,
                lt_NotAfter = notAfter, lt_Subject = subjectRaw, lt_SubjectPublicKeyAlgorithm = spkiAlg,
                lt_SubjectPublicKeyInfoHash = spkiHash, lt_Extensions = extensions\<rparr> of
             Inl err \<Rightarrow> Inl (Wrap ''mtcformat: marshal log entry: %w'' err)
           | Inr der \<Rightarrow> Inr der))"

definition SPKIHash :: "bytes \<Rightarrow> bytes" where
  "SPKIHash spkiDER = sha256 spkiDER"

definition SerialFromLeafIndex :: "int \<Rightarrow> int" where
  "SerialFromLeafIndex leafIndex = leafIndex"

subsection \<open>Extensions\<close>

definition oidSubjectAltName :: oid where
  "oidSubjectAltName = [2, 5, 29, 17]"

definition oidKeyUsage :: oid where
  "oidKeyUsage = [2, 5, 29, 15]"

definition oidExtKeyUsage :: oid where
  "oidExtKeyUsage = [2, 5, 29, 37]"

definition oidBasicConstraints :: oid where
  "oidBasicConstraints = [2, 5, 29, 19]"

definition reverseBitsInByte :: "byte \<Rightarrow> byte" where
  "reverseBitsInByte b =
     (let b = (drop_bit 4 (b AND 0xF0)) OR (push_bit 4 (b AND 0x0F));
          b = (drop_bit 2 (b AND 0xCC)) OR (push_bit 2 (b AND 0x33)) in
      (drop_bit 1 (b AND 0xAA)) OR (push_bit 1 (b AND 0x55)))"

text \<open>The loop of \<open>countTrailingZeros\<close>, which is entered with a byte that is not 0.\<close>

function ctz_loop :: "byte \<Rightarrow> nat \<Rightarrow> nat" where
  "ctz_loop b n = (if b AND 1 = 0 \<and> b \<noteq> 0 then ctz_loop (drop_bit 1 b) (n + 1) else n)"
  by pat_completeness auto
termination
  by (relation "measure (\<lambda>(b, n). unat b)") (auto simp: drop_bit_eq_div unat_div unat_gt_0)

declare ctz_loop.simps [simp del]

definition countTrailingZeros :: "byte \<Rightarrow> nat" where
  "countTrailingZeros b = (if b = 0 then 8 else ctz_loop b 0)"

definition asn1_Marshal_RawValues :: "RawValue list \<Rightarrow> bytes" where
  "asn1_Marshal_RawValues rvs = seq (concat (map asn1_Marshal_RawValue rvs))"

definition buildSANExtension :: "string list \<Rightarrow> goerr + Extension" where
  "buildSANExtension dnsNames =
     Inr \<lparr>ext_Id = oidSubjectAltName, ext_Critical = False,
          ext_Value = asn1_Marshal_RawValues
            (map (\<lambda>name. \<lparr>rv_Class = 2, rv_Tag = 2, rv_IsCompound = False, rv_Bytes = str_bytes name, rv_FullBytes = []\<rparr>) dnsNames)\<rparr>"

definition buildKeyUsageExtension :: "nat \<Rightarrow> goerr + Extension" where
  "buildKeyUsageExtension usage =
     (let a0 = reverseBitsInByte (of_nat usage); a1 = reverseBitsInByte (of_nat (usage div 256)) in
      if a1 = 0 then
        (let padding = countTrailingZeros a0 in
         Inr \<lparr>ext_Id = oidKeyUsage, ext_Critical = True,
              ext_Value = tlv 0 3 False (bits_content \<lparr>bs_Bytes = [a0], bs_BitLength = 8 - padding\<rparr>)\<rparr>)
      else
        (let padding = countTrailingZeros a1 in
         Inr \<lparr>ext_Id = oidKeyUsage, ext_Critical = True,
              ext_Value = tlv 0 3 False (bits_content \<lparr>bs_Bytes = [a0, a1], bs_BitLength = 16 - padding\<rparr>)\<rparr>))"

definition buildExtKeyUsageExtension :: "oid list \<Rightarrow> goerr + Extension" where
  "buildExtKeyUsageExtension oids =
     (case marshal_list oid_tlv oids of
        Inl err \<Rightarrow> Inl err
      | Inr v \<Rightarrow> Inr \<lparr>ext_Id = oidExtKeyUsage, ext_Critical = False, ext_Value = seq v\<rparr>)"

text \<open>\<open>MaxPathLen\<close> is always \<open>-1\<close>, its default, so it is never written.\<close>

definition buildBasicConstraintsExtension :: "bool \<Rightarrow> goerr + Extension" where
  "buildBasicConstraintsExtension isCA =
     Inr \<lparr>ext_Id = oidBasicConstraints, ext_Critical = True,
          ext_Value = seq (if isCA then tlv 0 1 False (bool_content True) else [])\<rparr>"

definition KeyUsageDigitalSignature :: nat where
  "KeyUsageDigitalSignature = 1"

definition KeyUsageKeyEncipherment :: nat where
  "KeyUsageKeyEncipherment = 4"

subsection \<open>The issuer name\<close>

text \<open>\<open>mustMarshal\<close> of an object identifier: \<open>None\<close> is the panic.\<close>

definition mustMarshal :: "oid \<Rightarrow> bytes option" where
  "mustMarshal v = (case oid_tlv v of Inl _ \<Rightarrow> None | Inr b \<Rightarrow> Some b)"

definition BuildTrustAnchorDN :: "string \<Rightarrow> (goerr + RawValue) option" where
  "BuildTrustAnchorDN logID =
     (let attrValue = asn1_Marshal_RawValue
            \<lparr>rv_Class = 0, rv_Tag = 12, rv_IsCompound = False, rv_Bytes = str_bytes logID, rv_FullBytes = []\<rparr> in
      case mustMarshal OIDTrustAnchorID of
        None \<Rightarrow> None
      | Some oid \<Rightarrow>
        (let atv = asn1_Marshal_RawValues [FullBytes_only oid, FullBytes_only attrValue];
             rdnBytes = asn1_Marshal_RawValue
               \<lparr>rv_Class = 0, rv_Tag = 17, rv_IsCompound = True, rv_Bytes = atv, rv_FullBytes = []\<rparr>;
             nameBytes = asn1_Marshal_RawValue
               \<lparr>rv_Class = 0, rv_Tag = 16, rv_IsCompound = True, rv_Bytes = rdnBytes, rv_FullBytes = []\<rparr> in
         Some (Inr (FullBytes_only nameBytes))))"

subsection \<open>From a request and from a certificate\<close>

text \<open>What the code reads of an \<open>x509.CertificateRequest\<close>.\<close>

record CertificateRequest =
  csr_Subject :: Name
  csr_DNSNames :: "string list"
  csr_RawSubjectPublicKeyInfo :: bytes

definition standard_extensions :: "string list \<Rightarrow> goerr + Extension list" where
  "standard_extensions dnsNames =
     (case (if length dnsNames > 0 then (case buildSANExtension dnsNames of
              Inl err \<Rightarrow> Inl (Wrap ''mtcformat: build SAN extension: %w'' err) | Inr sanExt \<Rightarrow> Inr [sanExt]) else Inr []) of
        Inl err \<Rightarrow> Inl err
      | Inr extensions \<Rightarrow>
        (case buildKeyUsageExtension (KeyUsageDigitalSignature OR KeyUsageKeyEncipherment) of
           Inl err \<Rightarrow> Inl (Wrap ''mtcformat: build key usage extension: %w'' err)
         | Inr kuExt \<Rightarrow>
           (case buildExtKeyUsageExtension [[1, 3, 6, 1, 5, 5, 7, 3, 1], [1, 3, 6, 1, 5, 5, 7, 3, 2]] of
              Inl err \<Rightarrow> Inl (Wrap ''mtcformat: build ext key usage extension: %w'' err)
            | Inr ekuExt \<Rightarrow>
              (case buildBasicConstraintsExtension False of
                 Inl err \<Rightarrow> Inl (Wrap ''mtcformat: build basic constraints extension: %w'' err)
               | Inr bcExt \<Rightarrow> Inr (extensions @ [kuExt] @ [ekuExt] @ [bcExt])))))"

definition BuildLogEntryFromCSR ::
  "string \<Rightarrow> go_time \<Rightarrow> go_time \<Rightarrow> CertificateRequest \<Rightarrow> string list \<Rightarrow> (goerr + bytes) option" where
  "BuildLogEntryFromCSR logID notBefore notAfter csr dnsNames =
     (case BuildTrustAnchorDN logID of
        None \<Rightarrow> None
      | Some (Inl err) \<Rightarrow> Some (Inl (Wrap ''mtcformat: build issuer DN: %w'' err))
      | Some (Inr issuerRaw) \<Rightarrow>
          Some (case name_tlv (csr_Subject csr) of
              Inl err \<Rightarrow> Inl (Wrap ''mtcformat: marshal subject: %w'' err)
            | Inr subjectDER \<Rightarrow>
              (case standard_extensions dnsNames of
                 Inl err \<Rightarrow> Inl err
               | Inr extensions \<Rightarrow>
                   BuildLogEntry issuerRaw (FullBytes_only subjectDER) notBefore notAfter
                     (csr_RawSubjectPublicKeyInfo csr) (Some extensions))))"

function parse_fields :: "bytes \<Rightarrow> goerr + RawValue list" where
  "parse_fields data =
     (if data = [] then Inr []
      else case asn1_Unmarshal_RawValue data of
        Inl e \<Rightarrow> Inl e
      | Inr (v, rest) \<Rightarrow> (case parse_fields rest of Inl e \<Rightarrow> Inl e | Inr vs \<Rightarrow> Inr (v # vs)))"
  by pat_completeness auto
termination by (relation "measure length") (auto dest: Unmarshal_shorter)

declare parse_fields.simps [simp del]

text \<open>\<open>tbsFieldFullBytes\<close>; marshalling a raw value does not fail.\<close>

definition tbsFieldFullBytes :: "RawValue list \<Rightarrow> nat \<Rightarrow> bytes" where
  "tbsFieldFullBytes flds idx = asn1_Marshal_RawValue (flds ! idx)"

definition version_offset :: "RawValue list \<Rightarrow> nat" where
  "version_offset flds =
     (if length flds > 0 \<and> rv_Tag (flds ! 0) = 0 \<and> rv_Class (flds ! 0) = 2 then 1 else 0)"

definition extractIssuerSubject :: "bytes \<Rightarrow> goerr + RawValue \<times> RawValue" where
  "extractIssuerSubject tbsDER =
     (case asn1_Unmarshal_RawValue tbsDER of
        Inl err \<Rightarrow> Inl (Wrap ''unmarshal TBS outer: %w'' err)
      | Inr (tbs, rest) \<Rightarrow>
        if length rest > 0 then Inl (Errorf ''trailing data after TBS'')
        else (case parse_fields (rv_Bytes tbs) of
           Inl err \<Rightarrow> Inl (Wrap ''unmarshal TBS field: %w'' err)
         | Inr flds \<Rightarrow>
             let offset = version_offset flds in
             if length flds < offset + 6 then Inl (Errorf ''TBS has too few flds (%d)'')
             else Inr ((flds ! (offset + 2))\<lparr>rv_FullBytes := tbsFieldFullBytes flds (offset + 2)\<rparr>,
                       (flds ! (offset + 4))\<lparr>rv_FullBytes := tbsFieldFullBytes flds (offset + 4)\<rparr>)))"

text \<open>What the code reads of an \<open>x509.Certificate\<close>; the pointer may be nil.\<close>

record X509Certificate =
  xc_RawSubjectPublicKeyInfo :: bytes
  xc_RawTBSCertificate :: bytes
  xc_Extensions :: "Extension list"
  xc_NotBefore :: go_time
  xc_NotAfter :: go_time

definition BuildLogEntryFromCert :: "X509Certificate option \<Rightarrow> goerr + bytes" where
  "BuildLogEntryFromCert cert =
     (case cert of
        None \<Rightarrow> Inl (Errorf ''mtcformat: nil certificate'')
      | Some cert \<Rightarrow>
          let spkiHash = sha256 (xc_RawSubjectPublicKeyInfo cert);
              extensions = filter (\<lambda>ext. ext_Id ext \<noteq> OIDMTCProof) (xc_Extensions cert) in
          case extractIssuerSubject (xc_RawTBSCertificate cert) of
            Inl err \<Rightarrow> Inl (Wrap ''mtcformat: extract issuer/subject: %w'' err)
          | Inr (issuerRaw, subjectRaw) \<Rightarrow>
            (case extractSPKIAlgorithm (xc_RawSubjectPublicKeyInfo cert) of
               Inl err \<Rightarrow> Inl (Wrap ''mtcformat: extract SPKI algorithm: %w'' err)
             | Inr spkiAlg \<Rightarrow>
               (case asn1_Marshal_LogEntry \<lparr>lt_Version = 2, lt_Issuer = issuerRaw, lt_NotBefore = xc_NotBefore cert,
                     lt_NotAfter = xc_NotAfter cert, lt_Subject = subjectRaw, lt_SubjectPublicKeyAlgorithm = spkiAlg,
                     lt_SubjectPublicKeyInfoHash = spkiHash,
                     lt_Extensions = (if extensions = [] then None else Some extensions)\<rparr> of
                  Inl err \<Rightarrow> Inl (Wrap ''mtcformat: marshal log entry: %w'' err)
                | Inr der \<Rightarrow> Inr der)))"

section \<open>Lemmas\<close>

lemma bit_reverseBitsInByte:
  assumes "i < 8"
  shows "bit (reverseBitsInByte b) i = bit b (7 - i)"
proof -
  have "i \<in> {0, 1, 2, 3, 4, 5, 6, 7}" using assms by auto
  then show ?thesis
    by (elim insertE) (simp_all add: reverseBitsInByte_def Let_def bit_simps bit_double_iff mult.commute [of _ "2 :: byte"])
qed

lemma reverseBitsInByte_involution [simp]: "reverseBitsInByte (reverseBitsInByte b) = b"
proof (rule bit_word_eqI)
  fix i assume "i < LENGTH(8)"
  then show "bit (reverseBitsInByte (reverseBitsInByte b)) i = bit b i"
    by (simp add: bit_reverseBitsInByte)
qed

lemma standard_extensions_total:
  "\<exists>xs. standard_extensions dnsNames = Inr xs \<and> (\<forall>x\<in>set xs. ext_ok x)"
  by (auto simp: standard_extensions_def buildSANExtension_def buildKeyUsageExtension_def buildExtKeyUsageExtension_def
      buildBasicConstraintsExtension_def Let_def oid_tlv_def oid_content_def ext_ok_def oid_ok_def
      oidSubjectAltName_def oidKeyUsage_def oidExtKeyUsage_def oidBasicConstraints_def)

lemma BuildTrustAnchorDN_total: "\<exists>rv. BuildTrustAnchorDN logID = Some (Inr rv)"
  by (simp add: BuildTrustAnchorDN_def mustMarshal_def OIDTrustAnchorID_def oid_tlv_def oid_content_def Let_def)

text \<open>
  Fields that \<open>encoding/asn1\<close> reads back: each encoder of a field writes one element, and the
  field loop splits a sequence into them.
\<close>

lemma one_tlv_tlv: "cls < 4 \<Longrightarrow> tag < 31 \<Longrightarrow> length content < 2 ^ 31 \<Longrightarrow> one_tlv (tlv cls tag cmp content)"
  using Unmarshal_tlv [of cls tag content cmp "[]"] by (auto simp: one_tlv_def)

definition raw_of :: "bytes \<Rightarrow> RawValue" where
  "raw_of d = (case asn1_Unmarshal_RawValue d of Inr (rv, _) \<Rightarrow> rv | Inl _ \<Rightarrow> FullBytes_only d)"

lemma raw_of:
  assumes "one_tlv d"
  shows "asn1_Unmarshal_RawValue (d @ r) = Inr (raw_of d, r)" "rv_FullBytes (raw_of d) = d" "d \<noteq> []"
proof -
  obtain rv where rv: "\<And>r. asn1_Unmarshal_RawValue (d @ r) = Inr (rv, r)" "rv_FullBytes rv = d"
    using Unmarshal_one_tlv [OF assms] by blast
  then have "raw_of d = rv" using rv(1) [of "[]"] by (simp add: raw_of_def)
  with rv show "asn1_Unmarshal_RawValue (d @ r) = Inr (raw_of d, r)" "rv_FullBytes (raw_of d) = d" by simp_all
  from assms show "d \<noteq> []" by (auto simp: one_tlv_def asn1_Unmarshal_RawValue_def)
qed

interpretation fld: element Inr asn1_Unmarshal_RawValue raw_of one_tlv
  by unfold_locales (simp_all add: raw_of)

lemma marshal_list_Inr [simp]: "marshal_list Inr ds = Inr (concat ds)"
  by (induction ds) simp_all

lemma parse_fields_concat:
  "\<forall>d\<in>set ds. one_tlv d \<Longrightarrow> length (concat ds) < 2 ^ 31 \<Longrightarrow> parse_fields (concat ds) = Inr (map raw_of ds)"
  using fld.dec_list [OF parse_fields.simps, of ds "concat ds"] by simp

lemma raw_of_tlv [simp]:
  assumes "class < 4" "tag < 31" "length content < 2 ^ 31"
  shows "raw_of (tlv class tag cmp content) =
    \<lparr>rv_Class = class, rv_Tag = tag, rv_IsCompound = cmp, rv_Bytes = content, rv_FullBytes = tlv class tag cmp content\<rparr>"
  using Unmarshal_tlv [OF assms, of cmp "[]"] by (simp add: raw_of_def)

lemma Marshal_raw_of: "one_tlv d \<Longrightarrow> asn1_Marshal_RawValue (raw_of d) = d"
  using raw_of(2,3) by (simp add: asn1_Marshal_RawValue_def)

text \<open>
  The log entry depends on a name only through its DER, and on the times only through their
  DER.
\<close>

lemma BuildLogEntry_cong:
  assumes "asn1_Marshal_RawValue i = asn1_Marshal_RawValue i'" "asn1_Marshal_RawValue s = asn1_Marshal_RawValue s'"
    and "validity_tlv nb na = validity_tlv nb' na'"
  shows "BuildLogEntry i s nb na spki exts = BuildLogEntry i' s' nb' na' spki exts"
  using assms by (auto simp: BuildLogEntry_def asn1_Marshal_LogEntry_def Let_def split: sum.split)

lemma BuildLogEntry_seq:
  assumes "BuildLogEntry i s nb na spki exts = Inr d"
  shows "\<exists>c. d = seq c \<and> c \<noteq> []"
  using assms by (auto simp: BuildLogEntry_def asn1_Marshal_LogEntry_def Let_def version_tlv_def split: if_splits sum.splits)

end
