(* ===== verification/Mtccert.thy ===== *)
theory Mtccert
  imports Logentry MerkleInclusion Issuancelog
begin

text \<open>
  \<open>src/internal/mtccert\<close>: certificates whose signature algorithm is \<open>id-alg-mtcProof\<close> and
  whose signature value is a Merkle proof. Building, parsing, rebuilding the log entry, and
  \<open>VerifyMTCCert\<close>. The \<open>pkix.RDNSequence\<close> that the parser decodes from a name is only carried
  along, so the decoder for it is an argument of the parser (\<open>rdn\<close>, \<open>None\<close> for an error).
\<close>

section \<open>cert.go\<close>

record TBSFields =
  tf_Issuer :: RawValue
  tf_NotBefore :: go_time
  tf_NotAfter :: go_time
  tf_Subject :: RawValue
  tf_SubjectPubKeyInfo :: bytes
  tf_Extensions :: "Extension list option"

record tbsCertificate =
  tc_Version :: int
  tc_SerialNumber :: int
  tc_SignatureAlgorithm :: oid
  tc_Issuer :: RawValue
  tc_NotBefore :: go_time
  tc_NotAfter :: go_time
  tc_Subject :: RawValue
  tc_SubjectPubKeyInfo :: RawValue
  tc_Extensions :: "Extension list option"

text \<open>\<open>asn1.Marshal\<close> of an \<open>algorithmIdentifier\<close>, of the TBS and of the outer structure.\<close>

definition algorithmIdentifier_tlv :: "oid \<Rightarrow> goerr + bytes" where
  "algorithmIdentifier_tlv oid = map_sum (\<lambda>e. e) seq (oid_tlv oid)"

definition asn1_Marshal_tbsCertificate :: "tbsCertificate \<Rightarrow> goerr + bytes" where
  "asn1_Marshal_tbsCertificate tbs =
     (case algorithmIdentifier_tlv (tc_SignatureAlgorithm tbs) of
        Inl err \<Rightarrow> Inl err
      | Inr alg \<Rightarrow>
        (case validity_tlv (tc_NotBefore tbs) (tc_NotAfter tbs) of
           Inl err \<Rightarrow> Inl err
         | Inr val \<Rightarrow>
           (case extensions_field (tc_Extensions tbs) of
              Inl err \<Rightarrow> Inl err
            | Inr exts \<Rightarrow>
                Inr (seq (version_tlv (tc_Version tbs) @ tlv 0 2 False (int_content (tc_SerialNumber tbs)) @ alg @
                  asn1_Marshal_RawValue (tc_Issuer tbs) @ val @ asn1_Marshal_RawValue (tc_Subject tbs) @
                  asn1_Marshal_RawValue (tc_SubjectPubKeyInfo tbs) @ exts)))))"

definition asn1_Marshal_certificate :: "RawValue \<Rightarrow> oid \<Rightarrow> BitString \<Rightarrow> goerr + bytes" where
  "asn1_Marshal_certificate tbs sigAlg sigValue =
     (case algorithmIdentifier_tlv sigAlg of
        Inl err \<Rightarrow> Inl err
      | Inr alg \<Rightarrow> Inr (seq (asn1_Marshal_RawValue tbs @ alg @ tlv 0 3 False (bits_content sigValue))))"

definition BuildMTCCertificate :: "TBSFields \<Rightarrow> int \<Rightarrow> MTCProof option \<Rightarrow> goerr + bytes" where
  "BuildMTCCertificate flds leafIndex prf =
     (case prf of
        None \<Rightarrow> Inl (Errorf ''mtccert: nil proof'')
      | Some p \<Rightarrow>
        if length (tf_SubjectPubKeyInfo flds) = 0 then Inl (Errorf ''mtccert: empty SubjectPublicKeyInfo'')
        else (case asn1_Unmarshal_RawValue (tf_SubjectPubKeyInfo flds) of
           Inl err \<Rightarrow> Inl (Wrap ''mtccert: parse SPKI: %w'' err)
         | Inr (spkiRaw, _) \<Rightarrow>
           (case asn1_Marshal_tbsCertificate \<lparr>tc_Version = 2, tc_SerialNumber = leafIndex,
                  tc_SignatureAlgorithm = OIDMTCProof, tc_Issuer = tf_Issuer flds, tc_NotBefore = tf_NotBefore flds,
                  tc_NotAfter = tf_NotAfter flds, tc_Subject = tf_Subject flds, tc_SubjectPubKeyInfo = spkiRaw,
                  tc_Extensions = tf_Extensions flds\<rparr> of
              Inl err \<Rightarrow> Inl (Wrap ''mtccert: marshal TBS: %w'' err)
            | Inr tbsDER \<Rightarrow>
              (case MarshalProof p of
                 Inl err \<Rightarrow> Inl (Wrap ''mtccert: marshal proof: %w'' err)
               | Inr proofBytes \<Rightarrow>
                 (case asn1_Marshal_certificate (FullBytes_only tbsDER) OIDMTCProof
                        \<lparr>bs_Bytes = proofBytes, bs_BitLength = length proofBytes * 8\<rparr> of
                    Inl err \<Rightarrow> Inl (Wrap ''mtccert: marshal certificate: %w'' err)
                  | Inr certDER \<Rightarrow> Inr certDER)))))"

definition ReconstructLogEntry ::
  "RawValue \<Rightarrow> RawValue \<Rightarrow> go_time \<Rightarrow> go_time \<Rightarrow> bytes \<Rightarrow> Extension list option \<Rightarrow> goerr + bytes" where
  "ReconstructLogEntry issuer subject notBefore notAfter spkiDER extensions =
     BuildLogEntry issuer subject notBefore notAfter spkiDER extensions"

text \<open>The package has its own copies of the extension builders.\<close>

definition cert_oidSubjectAltName :: oid where
  "cert_oidSubjectAltName = [2, 5, 29, 17]"

definition cert_oidKeyUsage :: oid where
  "cert_oidKeyUsage = [2, 5, 29, 15]"

definition cert_oidExtKeyUsage :: oid where
  "cert_oidExtKeyUsage = [2, 5, 29, 37]"

definition cert_oidBasicConstraints :: oid where
  "cert_oidBasicConstraints = [2, 5, 29, 19]"

definition cert_reverseBitsInByte :: "byte \<Rightarrow> byte" where
  "cert_reverseBitsInByte b =
     (let b = (drop_bit 4 (b AND 0xF0)) OR (push_bit 4 (b AND 0x0F));
          b = (drop_bit 2 (b AND 0xCC)) OR (push_bit 2 (b AND 0x33)) in
      (drop_bit 1 (b AND 0xAA)) OR (push_bit 1 (b AND 0x55)))"

text \<open>\<open>countTrailingZeros\<close>: the loop shifts a byte that is not 0 until its lowest bit is set.\<close>

function cert_ctz_loop :: "byte \<Rightarrow> nat \<Rightarrow> nat" where
  "cert_ctz_loop b n = (if b AND 1 = 0 \<and> b \<noteq> 0 then cert_ctz_loop (drop_bit 1 b) (n + 1) else n)"
  by pat_completeness auto
termination
  by (relation "measure (\<lambda>(b, n). unat b)") (auto simp: drop_bit_eq_div unat_div unat_gt_0)

declare cert_ctz_loop.simps [simp del]

definition cert_countTrailingZeros :: "byte \<Rightarrow> nat" where
  "cert_countTrailingZeros b = (if b = 0 then 8 else cert_ctz_loop b 0)"

definition cert_buildSANExtension :: "string list \<Rightarrow> goerr + Extension" where
  "cert_buildSANExtension dnsNames =
     Inr \<lparr>ext_Id = cert_oidSubjectAltName, ext_Critical = False,
          ext_Value = asn1_Marshal_RawValues
            (map (\<lambda>name. \<lparr>rv_Class = 2, rv_Tag = 2, rv_IsCompound = False, rv_Bytes = str_bytes name, rv_FullBytes = []\<rparr>) dnsNames)\<rparr>"

definition cert_buildKeyUsageExtension :: "nat \<Rightarrow> goerr + Extension" where
  "cert_buildKeyUsageExtension usage =
     (let a0 = cert_reverseBitsInByte (of_nat usage); a1 = cert_reverseBitsInByte (of_nat (usage div 256)) in
      if a1 = 0 then
        (let padding = cert_countTrailingZeros a0 in
         Inr \<lparr>ext_Id = cert_oidKeyUsage, ext_Critical = True,
              ext_Value = tlv 0 3 False (bits_content \<lparr>bs_Bytes = [a0], bs_BitLength = 8 - padding\<rparr>)\<rparr>)
      else
        (let padding = cert_countTrailingZeros a1 in
         Inr \<lparr>ext_Id = cert_oidKeyUsage, ext_Critical = True,
              ext_Value = tlv 0 3 False (bits_content \<lparr>bs_Bytes = [a0, a1], bs_BitLength = 16 - padding\<rparr>)\<rparr>))"

definition cert_buildExtKeyUsageExtension :: "oid list \<Rightarrow> goerr + Extension" where
  "cert_buildExtKeyUsageExtension oids =
     (case marshal_list oid_tlv oids of
        Inl err \<Rightarrow> Inl err
      | Inr v \<Rightarrow> Inr \<lparr>ext_Id = cert_oidExtKeyUsage, ext_Critical = False, ext_Value = seq v\<rparr>)"

definition cert_buildBasicConstraintsExtension :: "bool \<Rightarrow> goerr + Extension" where
  "cert_buildBasicConstraintsExtension isCA =
     Inr \<lparr>ext_Id = cert_oidBasicConstraints, ext_Critical = True,
          ext_Value = seq (if isCA then tlv 0 1 False (bool_content True) else [])\<rparr>"

definition BuildCertExtensions :: "string list \<Rightarrow> goerr + Extension list" where
  "BuildCertExtensions dnsNames =
     (case (if length dnsNames > 0 then (case cert_buildSANExtension dnsNames of
              Inl err \<Rightarrow> Inl err | Inr sanExt \<Rightarrow> Inr [sanExt]) else Inr []) of
        Inl err \<Rightarrow> Inl err
      | Inr extensions \<Rightarrow>
        (case cert_buildKeyUsageExtension (KeyUsageDigitalSignature OR KeyUsageKeyEncipherment) of
           Inl err \<Rightarrow> Inl err
         | Inr kuExt \<Rightarrow>
           (case cert_buildExtKeyUsageExtension [[1, 3, 6, 1, 5, 5, 7, 3, 1], [1, 3, 6, 1, 5, 5, 7, 3, 2]] of
              Inl err \<Rightarrow> Inl err
            | Inr ekuExt \<Rightarrow>
              (case cert_buildBasicConstraintsExtension False of
                 Inl err \<Rightarrow> Inl err
               | Inr bcExt \<Rightarrow> Inr (extensions @ [kuExt] @ [ekuExt] @ [bcExt])))))"

definition BuildMTCCertFromCSR ::
  "CertificateRequest \<Rightarrow> string \<Rightarrow> go_time \<Rightarrow> go_time \<Rightarrow> string list \<Rightarrow> int \<Rightarrow> MTCProof option \<Rightarrow> (goerr + bytes) option" where
  "BuildMTCCertFromCSR csr logID notBefore notAfter dnsNames leafIndex prf =
     (case BuildTrustAnchorDN logID of
        None \<Rightarrow> None
      | Some (Inl err) \<Rightarrow> Some (Inl (Wrap ''mtccert: build issuer DN: %w'' err))
      | Some (Inr issuerRaw) \<Rightarrow>
          Some (case name_tlv (csr_Subject csr) of
              Inl err \<Rightarrow> Inl (Wrap ''mtccert: marshal subject: %w'' err)
            | Inr subjectDER \<Rightarrow>
              (case BuildCertExtensions dnsNames of
                 Inl err \<Rightarrow> Inl (Wrap ''mtccert: build extensions: %w'' err)
               | Inr extensions \<Rightarrow>
                   BuildMTCCertificate \<lparr>tf_Issuer = issuerRaw, tf_NotBefore = notBefore, tf_NotAfter = notAfter,
                     tf_Subject = FullBytes_only subjectDER, tf_SubjectPubKeyInfo = csr_RawSubjectPublicKeyInfo csr,
                     tf_Extensions = Some extensions\<rparr> leafIndex prf)))"

section \<open>parse.go\<close>

record 'r ParsedMTCCert =
  pc_RawTBS :: bytes
  pc_SerialNumber :: int
  pc_Issuer :: "'r option"
  pc_NotBefore :: go_time
  pc_NotAfter :: go_time
  pc_Subject :: "'r option"
  pc_SubjectPubKeyInfo :: bytes
  pc_Extensions :: "Extension list option"
  pc_Proof :: "MTCProof option"
  pc_RawIssuer :: RawValue
  pc_RawSubject :: RawValue

definition parseSequenceFields :: "bytes \<Rightarrow> goerr + RawValue list" where
  "parseSequenceFields data = parse_fields data"

definition reencodeField :: "RawValue \<Rightarrow> bytes" where
  "reencodeField f = (if length (rv_FullBytes f) > 0 then rv_FullBytes f else asn1_Marshal_RawValue f)"

text \<open>\<open>asn1.Unmarshal\<close> into an \<open>algorithmIdentifier\<close>, a \<open>BitString\<close> and a \<open>*big.Int\<close>.\<close>

definition parse_algorithmIdentifier :: "bytes \<Rightarrow> goerr + oid" where
  "parse_algorithmIdentifier data =
     (case parse_elem 16 True data of
        Inl err \<Rightarrow> Inl err
      | Inr (c, _) \<Rightarrow> (case parse_oid_elem c of Inl err \<Rightarrow> Inl err | Inr (oid, _) \<Rightarrow> Inr oid))"

definition parse_BitString :: "bytes \<Rightarrow> goerr + BitString" where
  "parse_BitString data = (case parse_elem 3 False data of Inl err \<Rightarrow> Inl err | Inr (c, _) \<Rightarrow> parse_bits c)"

definition parse_bigInt :: "bytes \<Rightarrow> goerr + int" where
  "parse_bigInt data = (case parse_elem 2 False data of Inl err \<Rightarrow> Inl err | Inr (c, _) \<Rightarrow> parse_int c)"

definition parseTBS :: "(bytes \<Rightarrow> 'r option) \<Rightarrow> bytes \<Rightarrow> goerr + 'r ParsedMTCCert" where
  "parseTBS rdn tbsDER =
     (case asn1_Unmarshal_RawValue tbsDER of
        Inl err \<Rightarrow> Inl (Wrap ''unmarshal TBS outer: %w'' err)
      | Inr (tbsOuter, _) \<Rightarrow>
        (case parseSequenceFields (rv_Bytes tbsOuter) of
           Inl err \<Rightarrow> Inl (Wrap ''parse TBS fields: %w'' err)
         | Inr flds \<Rightarrow>
           let offset = (if length flds > 0 \<and> rv_Tag (flds ! 0) = 0 \<and> rv_Class (flds ! 0) = 2 then 1 else 0) in
           if length flds < offset + 6 then Inl (Errorf ''TBS has too few fields (%d)'')
           else (case parse_bigInt (rv_FullBytes (flds ! (offset + 0))) of
              Inl err \<Rightarrow> Inl (Wrap ''unmarshal serial: %w'' err)
            | Inr serial \<Rightarrow>
              (let RawIssuer = (flds ! (offset + 2))\<lparr>rv_FullBytes := reencodeField (flds ! (offset + 2))\<rparr> in
               case parse_validity (rv_FullBytes (flds ! (offset + 3))) of
                 Inl err \<Rightarrow> Inl (Wrap ''unmarshal validity: %w'' err)
               | Inr (notBefore, notAfter) \<Rightarrow>
                 (let RawSubject = (flds ! (offset + 4))\<lparr>rv_FullBytes := reencodeField (flds ! (offset + 4))\<rparr>;
                      result = \<lparr>pc_RawTBS = [], pc_SerialNumber = wrap64 serial, pc_Issuer = rdn (rv_FullBytes RawIssuer),
                        pc_NotBefore = notBefore, pc_NotAfter = notAfter, pc_Subject = rdn (rv_FullBytes RawSubject),
                        pc_SubjectPubKeyInfo = reencodeField (flds ! (offset + 5)), pc_Extensions = None,
                        pc_Proof = None, pc_RawIssuer = RawIssuer, pc_RawSubject = RawSubject\<rparr> in
                  case List.find (\<lambda>f. rv_Tag f = 3 \<and> rv_Class f = 2) (drop (offset + 6) flds) of
                    None \<Rightarrow> Inr result
                  | Some f \<Rightarrow>
                    (case parse_extensions (rv_Bytes f) of
                       Inl err \<Rightarrow> Inl (Wrap ''unmarshal extensions: %w'' err)
                     | Inr exts \<Rightarrow> Inr (result\<lparr>pc_Extensions := Some exts\<rparr>)))))))"

definition ParseMTCCertificate :: "(bytes \<Rightarrow> 'r option) \<Rightarrow> bytes \<Rightarrow> goerr + 'r ParsedMTCCert" where
  "ParseMTCCertificate rdn certDER =
     (case asn1_Unmarshal_RawValue certDER of
        Inl err \<Rightarrow> Inl (Wrap ''mtccert: unmarshal outer: %w'' err)
      | Inr (outer, rest) \<Rightarrow>
        if length rest > 0 then Inl (Errorf ''mtccert: trailing data after certificate'')
        else (case parseSequenceFields (rv_Bytes outer) of
           Inl err \<Rightarrow> Inl (Wrap ''mtccert: parse certificate fields: %w'' err)
         | Inr flds \<Rightarrow>
           if length flds < 3 then Inl (Errorf ''mtccert: certificate has %d fields, want 3'')
           else let tbsDER = rv_FullBytes (flds ! 0) in
             (case parse_algorithmIdentifier (rv_FullBytes (flds ! 1)) of
                Inl err \<Rightarrow> Inl (Wrap ''mtccert: unmarshal algorithm: %w'' err)
              | Inr algID \<Rightarrow>
                if algID \<noteq> OIDMTCProof then Inl (Errorf ''mtccert: signatureAlgorithm is %v, not id-alg-mtcProof'')
                else (case parse_BitString (rv_FullBytes (flds ! 2)) of
                   Inl err \<Rightarrow> Inl (Wrap ''mtccert: unmarshal signatureValue: %w'' err)
                 | Inr sigBits \<Rightarrow>
                   (case UnmarshalProof (bs_Bytes sigBits) of
                      Inl err \<Rightarrow> Inl (Wrap ''mtccert: unmarshal proof: %w'' err)
                    | Inr prf \<Rightarrow>
                      (case parseTBS rdn tbsDER of
                         Inl err \<Rightarrow> Inl (Wrap ''mtccert: parse TBS: %w'' err)
                       | Inr parsed \<Rightarrow> Inr (parsed\<lparr>pc_RawTBS := tbsDER, pc_Proof := Some prf\<rparr>)))))))"

definition IsMTCCertificate :: "bytes \<Rightarrow> bool" where
  "IsMTCCertificate certDER =
     (case asn1_Unmarshal_RawValue certDER of
        Inl err \<Rightarrow> False
      | Inr (outer, rest) \<Rightarrow>
        if length rest > 0 then False
        else (case parseSequenceFields (rv_Bytes outer) of
           Inl err \<Rightarrow> False
         | Inr flds \<Rightarrow>
           if length flds < 2 then False
           else (case parse_algorithmIdentifier (rv_FullBytes (flds ! 1)) of
              Inl err \<Rightarrow> False
            | Inr algID \<Rightarrow> algID = OIDMTCProof)))"

section \<open>verify.go\<close>

record VerifyOptions =
  vo_CosignerKeys :: "string \<rightharpoonup> string \<times> bytes"
  vo_Landmarks :: "(int \<rightharpoonup> hash) option"
  vo_LogID :: bytes

record VerifyResult =
  vr_LeafIndex :: int
  vr_SubtreeStart :: "64 word"
  vr_SubtreeEnd :: "64 word"
  vr_ProofValid :: bool
  vr_SignaturesVerified :: nat
  vr_Mode :: string

text \<open>\<open>copy(proofHashes[i][:], h)\<close> into a zero array of 32 bytes.\<close>

definition copy_hash :: "bytes \<Rightarrow> hash" where
  "copy_hash h = bytes_hash (take 32 (h @ replicate 32 0))"

text \<open>
  Steps 2 to 5: the entry bytes that the certificate stands for, and the subtree root that its
  proof leads to (\<open>None\<close> for the panic of \<open>RootFromInclusionProof\<close>).
\<close>

definition cert_entry_bytes :: "'r ParsedMTCCert \<Rightarrow> goerr + bytes" where
  "cert_entry_bytes parsed =
     (case ReconstructLogEntry (pc_RawIssuer parsed) (pc_RawSubject parsed) (pc_NotBefore parsed) (pc_NotAfter parsed)
            (pc_SubjectPubKeyInfo parsed) (pc_Extensions parsed) of
        Inl err \<Rightarrow> Inl (Wrap ''verify: reconstruct log entry: %w'' err)
      | Inr logEntryDER \<Rightarrow>
        (case DERContentsOctets logEntryDER of
           Inl err \<Rightarrow> Inl (Wrap ''verify: strip DER envelope: %w'' err)
         | Inr contentsOctets \<Rightarrow>
           (case MarshalEntry \<lparr>me_Type = EntryTypeTBSCert, me_Data = contentsOctets\<rparr> of
              Inl err \<Rightarrow> Inl (Wrap ''verify: marshal entry: %w'' err)
            | Inr entryBytes \<Rightarrow> Inr entryBytes)))"

definition subtree_size :: "MTCProof \<Rightarrow> int" where
  "subtree_size prf = sub64 (int64 (mp_End prf)) (int64 (mp_Start prf))"

definition relative_index :: "int \<Rightarrow> MTCProof \<Rightarrow> int" where
  "relative_index serial prf = sub64 serial (int64 (mp_Start prf))"

definition cert_subtree_root :: "int \<Rightarrow> MTCProof \<Rightarrow> bytes \<Rightarrow> hash option" where
  "cert_subtree_root serial prf entryBytes =
     RootFromInclusionProof (relative_index serial prf) (subtree_size prf) (LeafHash entryBytes)
       (map copy_hash (mp_InclusionProof prf))"

text \<open>
  The landmark check assigns the local \<open>proofValid\<close> after it has been copied into \<open>result\<close>;
  the model keeps that order: the last \<open>proofValid\<close> is not used.
\<close>

definition VerifyMTCCert :: "(bytes \<Rightarrow> 'r option) \<Rightarrow> bytes \<Rightarrow> VerifyOptions \<Rightarrow> (goerr + VerifyResult) option" where
  "VerifyMTCCert rdn certDER opts =
     (case ParseMTCCertificate rdn certDER of
        Inl err \<Rightarrow> Some (Inl (Wrap ''verify: parse cert: %w'' err))
      | Inr parsed \<Rightarrow>
        (case cert_entry_bytes parsed of
           Inl err \<Rightarrow> Some (Inl err)
         | Inr entryBytes \<Rightarrow>
           (case pc_Proof parsed of
              None \<Rightarrow> None
            | Some prf \<Rightarrow>
              (case cert_subtree_root (pc_SerialNumber parsed) prf entryBytes of
                 None \<Rightarrow> None
               | Some subtreeRoot \<Rightarrow>
                 (let relativeIndex = relative_index (pc_SerialNumber parsed) prf;
                      subtreeSize = subtree_size prf;
                      proofValid = (subtreeSize > 0 \<and> relativeIndex \<ge> 0 \<and> relativeIndex < subtreeSize);
                      result = \<lparr>vr_LeafIndex = pc_SerialNumber parsed, vr_SubtreeStart = mp_Start prf,
                        vr_SubtreeEnd = mp_End prf, vr_ProofValid = proofValid, vr_SignaturesVerified = 0, vr_Mode = ''''\<rparr> in
                  if length (mp_Signatures prf) > 0 then
                    Some (Inr (result\<lparr>vr_Mode := ''signed'', vr_SignaturesVerified := length (mp_Signatures prf)\<rparr>))
                  else
                    (let result = result\<lparr>vr_Mode := ''signatureless''\<rparr>;
                         proofValid = (case vo_Landmarks opts of None \<Rightarrow> proofValid
                           | Some lms \<Rightarrow>
                             (case lms (int64 (mp_End prf)) of None \<Rightarrow> proofValid
                              | Some expectedRoot \<Rightarrow> if subtreeRoot \<noteq> expectedRoot then False else proofValid)) in
                     Some (Inr result)))))))"

section \<open>Lemmas\<close>

definition cert_fields_ok :: "TBSFields \<Rightarrow> bool" where
  "cert_fields_ok flds \<longleftrightarrow>
     one_tlv (asn1_Marshal_RawValue (tf_Issuer flds)) \<and> one_tlv (asn1_Marshal_RawValue (tf_Subject flds)) \<and>
     one_tlv (tf_SubjectPubKeyInfo flds) \<and> time_ok (tf_NotBefore flds) \<and> time_ok (tf_NotAfter flds) \<and>
     (case tf_Extensions flds of None \<Rightarrow> True | Some xs \<Rightarrow> list_all ext_ok xs)"

lemma reencode_raw_of: "one_tlv d \<Longrightarrow> reencodeField (raw_of d) = d"
  using raw_of [of d] by (simp add: reencodeField_def)

lemma raw_of_FullBytes: "one_tlv d \<Longrightarrow> (raw_of d)\<lparr>rv_FullBytes := d\<rparr> = raw_of d"
  using raw_of(2) [of d] by (cases "raw_of d") simp

lemma algorithmIdentifier_OIDMTCProof:
  obtains c where "algorithmIdentifier_tlv OIDMTCProof = Inr (seq c)" "oid_tlv OIDMTCProof = Inr c" "oid_ok OIDMTCProof"
  by (simp add: algorithmIdentifier_tlv_def OIDMTCProof_def oid_tlv_def oid_content_def oid_ok_def)

lemma parse_algorithmIdentifier_MTC:
  assumes "oid_ok oid" "oid_tlv oid = Inr c" "length (seq c) < 2 ^ 31"
  shows "parse_algorithmIdentifier (seq c) = Inr oid"
proof -
  have c: "length c < 2 ^ 31" using assms(3) length_tlv [of c 0 16 True] by simp
  show ?thesis
    using parse_elem_tlv [OF _ c, of 16 True "[]"] oid_elem [OF assms(1,2) c, of "[]"]
    by (simp add: parse_algorithmIdentifier_def)
qed

text \<open>The optional extensions as the list of elements they add to the sequence.\<close>

lemma extensions_field_cases:
  assumes "extensions_field exts = Inr e"
  obtains "exts = None" "e = []"
  | xs x where "exts = Some xs" "extensions_tlv xs = Inr x" "e = tlv 2 3 True x"
  using assms by (cases exts) (auto simp: extensions_field_def map_sum_def split: sum.splits)

lemma validity_one_tlv: "validity_tlv nb na = Inr v \<Longrightarrow> \<exists>c. v = seq c"
  by (auto simp: validity_tlv_def split: sum.splits)

lemma parse_bigInt_tlv:
  assumes "0 \<le> n" "n < 2 ^ 63"
  shows "parse_bigInt (tlv 0 2 False (int_content n)) = Inr n" "one_tlv (tlv 0 2 False (int_content n))"
proof -
  have l: "length (int_content n) < 2 ^ 31" using length_int_content [OF assms] by simp
  show "parse_bigInt (tlv 0 2 False (int_content n)) = Inr n"
    using parse_elem_tlv [OF _ l, of 2 False "[]"] assms(1) by (simp add: parse_bigInt_def parse_int_content)
  show "one_tlv (tlv 0 2 False (int_content n))" using l by (simp add: one_tlv_tlv)
qed

lemma version_2: "version_tlv 2 = tlv 2 0 True [2, 1, 2]"
  by code_simp

text \<open>The parser on a TBS made of well-formed fields.\<close>

definition ext_elems :: "bytes \<Rightarrow> bytes list" where
  "ext_elems e = (if e = [] then [] else [e])"

lemma concat_ext_elems [simp]: "concat (ext_elems e) = e"
  by (simp add: ext_elems_def)

lemma Marshal_FullBytes_only [simp]: "d \<noteq> [] \<Longrightarrow> asn1_Marshal_RawValue (FullBytes_only d) = d"
  by (simp add: asn1_Marshal_RawValue_def FullBytes_only_def)

lemma length_concat_mem: "d \<in> set ds \<Longrightarrow> length d \<le> length (concat ds)"
  by (induction ds) auto

lemma parseTBS_fields:
  fixes rdn :: "bytes \<Rightarrow> 'r option"
  assumes tbs: "tbs = seq (concat ([version_tlv 2, tlv 0 2 False (int_content idx), alg, iss, val, subj, spki] @ ext_elems e))"
    and len: "length tbs < 2 ^ 31" and idx: "0 \<le> idx" "idx < 2 ^ 63"
    and one: "one_tlv alg" "one_tlv iss" "one_tlv subj" "one_tlv spki"
    and val: "validity_tlv nb na = Inr val" "time_ok nb" "time_ok na"
    and e: "extensions_field exts = Inr e" "case exts of None \<Rightarrow> True | Some xs \<Rightarrow> list_all ext_ok xs"
  shows "parseTBS rdn tbs = Inr \<lparr>pc_RawTBS = [], pc_SerialNumber = idx, pc_Issuer = rdn iss, pc_NotBefore = der_time nb,
    pc_NotAfter = der_time na, pc_Subject = rdn subj, pc_SubjectPubKeyInfo = spki, pc_Extensions = exts, pc_Proof = None,
    pc_RawIssuer = raw_of iss, pc_RawSubject = raw_of subj\<rparr>"
proof -
  let ?ds = "[version_tlv 2, tlv 0 2 False (int_content idx), alg, iss, val, subj, spki] @ ext_elems e"
  have lc: "length (concat ?ds) < 2 ^ 31" using len length_tlv [of "concat ?ds" 0 16 True] unfolding tbs by linarith
  have small: "length d < 2 ^ 31" if "d \<in> set ?ds" for d
  proof -
    have "length d \<le> length (concat ?ds)"
      using that by (rule length_concat_mem)
    with lc show ?thesis by linarith
  qed
  obtain vc where vc: "val = seq vc" using validity_one_tlv [OF val(1)] ..
  have lv: "length val < 2 ^ 31" by (rule small) simp
  have ov: "one_tlv val" using lv length_tlv [of vc 0 16 True] unfolding vc by (intro one_tlv_tlv) simp_all
  have pv: "parse_validity val = Inr (der_time nb, der_time na)"
    using validity_roundtrip [OF val(2,3,1) lv, of "[]"] by simp
  have over: "one_tlv (version_tlv 2)" "raw_of (version_tlv 2) =
      \<lparr>rv_Class = 2, rv_Tag = 0, rv_IsCompound = True, rv_Bytes = [2, 1, 2], rv_FullBytes = version_tlv 2\<rparr>"
    by (simp_all add: version_2 one_tlv_tlv)
  have ext: "(\<forall>d\<in>set (ext_elems e). one_tlv d) \<and>
      (case List.find (\<lambda>f. rv_Tag f = 3 \<and> rv_Class f = 2) (map raw_of (ext_elems e)) of
         None \<Rightarrow> exts = None
       | Some f \<Rightarrow> (\<exists>xs. exts = Some xs \<and> parse_extensions (rv_Bytes f) = Inr xs))"
    using e(1)
  proof (cases rule: extensions_field_cases)
    case (2 xs x)
    then have "length (tlv 2 3 True x) < 2 ^ 31" by (intro small) (simp add: ext_elems_def)
    then have lx: "length x < 2 ^ 31" using length_tlv [of x 2 3 True] by linarith
    moreover have "parse_extensions x = Inr xs"
      using extensions_roundtrip [OF _ 2(2) lx, of "[]"] e(2) 2(1) by (simp add: list_all_iff)
    ultimately show ?thesis by (simp add: 2 ext_elems_def one_tlv_tlv)
  qed (simp add: ext_elems_def)
  have "parseSequenceFields (concat ?ds) = Inr (map raw_of ?ds)"
    unfolding parseSequenceFields_def
    by (rule parse_fields_concat [OF _ lc]) (use one ov over(1) parse_bigInt_tlv(2) [OF idx] ext in auto)
  moreover have "asn1_Unmarshal_RawValue tbs = Inr (raw_of tbs, [])" "rv_Bytes (raw_of tbs) = concat ?ds"
    using raw_of(1) [OF one_tlv_tlv [of 0 16 "concat ?ds" True], of "[]"] lc unfolding tbs by simp_all
  ultimately show ?thesis
    using one ov over parse_bigInt_tlv [OF idx] pv ext idx
    by (auto simp: parseTBS_def Let_def raw_of(2) reencode_raw_of raw_of_FullBytes wrap64_id split: option.splits)
qed

lemma parse_built:
  fixes rdn :: "bytes \<Rightarrow> 'r option"
  assumes built: "BuildMTCCertificate flds idx (Some p) = Inr d" and len: "length d < 2 ^ 31"
    and ok: "cert_fields_ok flds" and idx: "0 \<le> idx" "idx < 2 ^ 63"
    and sigs: "marshalSignatures (mp_Signatures p) = Inr sb" "length sb \<le> 0xFFFF"
  shows "\<exists>tbs. ParseMTCCertificate rdn d = Inr \<lparr>pc_RawTBS = tbs, pc_SerialNumber = idx,
    pc_Issuer = rdn (asn1_Marshal_RawValue (tf_Issuer flds)), pc_NotBefore = der_time (tf_NotBefore flds),
    pc_NotAfter = der_time (tf_NotAfter flds), pc_Subject = rdn (asn1_Marshal_RawValue (tf_Subject flds)),
    pc_SubjectPubKeyInfo = tf_SubjectPubKeyInfo flds, pc_Extensions = tf_Extensions flds, pc_Proof = Some p,
    pc_RawIssuer = raw_of (asn1_Marshal_RawValue (tf_Issuer flds)), pc_RawSubject = raw_of (asn1_Marshal_RawValue (tf_Subject flds))\<rparr> \<and>
    IsMTCCertificate d"
proof -
  let ?i = "asn1_Marshal_RawValue (tf_Issuer flds)" and ?s = "asn1_Marshal_RawValue (tf_Subject flds)" and ?k = "tf_SubjectPubKeyInfo flds"
  obtain alg where alg: "algorithmIdentifier_tlv OIDMTCProof = Inr (seq alg)" "oid_tlv OIDMTCProof = Inr alg" "oid_ok OIDMTCProof"
    using algorithmIdentifier_OIDMTCProof .
  have one: "one_tlv ?i" "one_tlv ?s" "one_tlv ?k" using ok by (simp_all add: cert_fields_ok_def)
  have k: "asn1_Unmarshal_RawValue ?k = Inr (raw_of ?k, [])" using raw_of(1) [OF one(3), of "[]"] by simp
  from built obtain val e pb where parts: "validity_tlv (tf_NotBefore flds) (tf_NotAfter flds) = Inr val"
      "extensions_field (tf_Extensions flds) = Inr e" "MarshalProof p = Inr pb"
    by (auto simp: BuildMTCCertificate_def asn1_Marshal_tbsCertificate_def split: if_splits sum.splits)
  define tbs where "tbs = seq (concat ([version_tlv 2, tlv 0 2 False (int_content idx), seq alg, ?i, val, ?s, ?k] @ ext_elems e))"
  define bits where "bits = bits_content \<lparr>bs_Bytes = pb, bs_BitLength = length pb * 8\<rparr>"
  have d: "d = seq (concat [tbs, seq alg, tlv 0 3 False bits])"
    using built parts alg(1) k one(3) Marshal_raw_of [OF one(3)] raw_of(3) [OF one(3)]
    by (simp add: BuildMTCCertificate_def asn1_Marshal_tbsCertificate_def asn1_Marshal_certificate_def tbs_def bits_def split: if_splits)
  let ?ds = "[tbs, seq alg, tlv 0 3 False bits]"
  have lc: "length (concat ?ds) < 2 ^ 31" using len length_tlv [of "concat ?ds" 0 16 True] unfolding d by linarith
  then have l: "length tbs < 2 ^ 31" "length (seq alg) < 2 ^ 31" "length bits < 2 ^ 31" "length alg < 2 ^ 31"
    using length_tlv [of bits 0 3 False] length_tlv [of alg 0 16 True] by simp_all
  have one': "one_tlv tbs" "one_tlv (seq alg)" "one_tlv (tlv 0 3 False bits)"
    using l length_tlv [of "concat ([version_tlv 2, tlv 0 2 False (int_content idx), seq alg, ?i, val, ?s, ?k] @ ext_elems e)" 0 16 True]
    unfolding tbs_def by (auto intro!: one_tlv_tlv)
  have pt: "parseTBS rdn tbs = Inr \<lparr>pc_RawTBS = [], pc_SerialNumber = idx, pc_Issuer = rdn ?i, pc_NotBefore = der_time (tf_NotBefore flds),
      pc_NotAfter = der_time (tf_NotAfter flds), pc_Subject = rdn ?s, pc_SubjectPubKeyInfo = ?k, pc_Extensions = tf_Extensions flds,
      pc_Proof = None, pc_RawIssuer = raw_of ?i, pc_RawSubject = raw_of ?s\<rparr>"
    using parseTBS_fields [OF tbs_def l(1) idx one'(2) one(1,2,3) parts(1) _ _ parts(2)] ok by (simp add: cert_fields_ok_def)
  have pa: "parse_algorithmIdentifier (seq alg) = Inr OIDMTCProof"
    using parse_algorithmIdentifier_MTC [OF alg(3,2) l(2)] .
  have pbits: "parse_BitString (tlv 0 3 False bits) = Inr \<lparr>bs_Bytes = pb, bs_BitLength = length pb * 8\<rparr>"
    using parse_elem_tlv [OF _ l(3), of 3 False "[]"] by (simp add: parse_BitString_def bits_def)
  have pp: "UnmarshalProof pb = Inr p" using UnmarshalProof_MarshalProof [OF parts(3) sigs(1)] sigs(2) by simp
  have "parseSequenceFields (concat ?ds) = Inr (map raw_of ?ds)"
    unfolding parseSequenceFields_def by (rule parse_fields_concat [OF _ lc]) (use one' in auto)
  moreover have "asn1_Unmarshal_RawValue d = Inr (raw_of d, [])" "rv_Bytes (raw_of d) = concat ?ds"
    using raw_of(1) [OF one_tlv_tlv [of 0 16 "concat ?ds" True], of "[]"] lc unfolding d by simp_all
  ultimately show ?thesis
    using one' pa pbits pp pt by (simp add: ParseMTCCertificate_def IsMTCCertificate_def raw_of(2))
qed

lemma validity_tlv_der [simp]: "validity_tlv (der_time nb) (der_time na) = validity_tlv nb na"
  by (simp add: validity_tlv_def split: sum.split)

text \<open>The copies of the extension builders are the same functions.\<close>

lemma cert_ctz_loop_eq: "cert_ctz_loop b n = ctz_loop b n"
proof (induction b n rule: cert_ctz_loop.induct)
  case (1 b n)
  then show ?case by (subst cert_ctz_loop.simps, subst ctz_loop.simps) simp
qed

lemma BuildCertExtensions_eq: "BuildCertExtensions dnsNames = standard_extensions dnsNames"
proof -
  have rev: "cert_reverseBitsInByte = reverseBitsInByte"
    by (rule ext) (simp add: cert_reverseBitsInByte_def reverseBitsInByte_def)
  have ctz: "cert_countTrailingZeros = countTrailingZeros"
    by (rule ext) (simp add: cert_countTrailingZeros_def countTrailingZeros_def cert_ctz_loop_eq)
  have b: "cert_buildSANExtension = buildSANExtension" "cert_buildKeyUsageExtension = buildKeyUsageExtension"
    "cert_buildBasicConstraintsExtension = buildBasicConstraintsExtension" "cert_buildExtKeyUsageExtension = buildExtKeyUsageExtension"
    by (rule ext; simp add: Let_def cert_buildSANExtension_def buildSANExtension_def cert_buildKeyUsageExtension_def
        buildKeyUsageExtension_def cert_buildBasicConstraintsExtension_def buildBasicConstraintsExtension_def
        cert_buildExtKeyUsageExtension_def buildExtKeyUsageExtension_def rev ctz cert_oidSubjectAltName_def oidSubjectAltName_def
        cert_oidKeyUsage_def oidKeyUsage_def cert_oidExtKeyUsage_def oidExtKeyUsage_def cert_oidBasicConstraints_def oidBasicConstraints_def split: sum.split)+
  obtain xs where "standard_extensions dnsNames = Inr xs" using standard_extensions_total by blast
  then show ?thesis
    unfolding BuildCertExtensions_def standard_extensions_def b by (auto split: sum.splits if_splits)
qed

lemma rootFromProof_total: "s \<le> i \<Longrightarrow> i < e \<Longrightarrow> \<exists>r. rootFromProof i s e leaf pf p = Some r"
proof (induction i s e leaf pf p rule: rootFromProof.induct)
  case (1 i s e leaf pf p)
  show ?case
  proof (cases "e - s = 1 \<or> p \<ge> length pf")
    case True
    then show ?thesis by (subst rootFromProof.simps) (auto simp: Let_def)
  next
    case False
    with "1.prems" obtain k where k: "splitPoint (e - s) = Some k"
      using splitPoint_ex [of "e - s"] by auto
    note kb = splitPoint_Some [OF k]
    show ?thesis
    proof (cases "i - s < k")
      case True
      then obtain r where "rootFromProof i s (s + k) leaf pf p = Some r"
        using "1.IH"(1) [OF refl _ _ k True] False "1.prems" by auto
      then show ?thesis using False k True "1.prems" by (subst rootFromProof.simps) (simp add: Let_def pathLen_depth)
    next
      case 2: False
      then obtain r where "rootFromProof i (s + k) e leaf pf p = Some r"
        using "1.IH"(2) [OF refl _ _ k 2] False "1.prems" by auto
      then show ?thesis using False k 2 "1.prems" by (subst rootFromProof.simps) (simp add: Let_def pathLen_depth)
    qed
  qed
qed

lemma BuildMTCCertificate_length:
  assumes "BuildMTCCertificate flds idx (Some p) = Inr d"
  shows "length (asn1_Marshal_RawValue (tf_Issuer flds)) \<le> length d" "length (asn1_Marshal_RawValue (tf_Subject flds)) \<le> length d"
proof -
  from assms obtain alg val e pb spki rest where "d = seq (asn1_Marshal_RawValue (FullBytes_only (seq
      (version_tlv 2 @ tlv 0 2 False (int_content idx) @ alg @ asn1_Marshal_RawValue (tf_Issuer flds) @ val @
       asn1_Marshal_RawValue (tf_Subject flds) @ asn1_Marshal_RawValue spki @ e))) @ alg @ pb)"
    by (auto simp: BuildMTCCertificate_def asn1_Marshal_tbsCertificate_def asn1_Marshal_certificate_def split: if_splits sum.splits)
  moreover define X where "X = version_tlv 2 @ tlv 0 2 False (int_content idx) @ alg @ asn1_Marshal_RawValue (tf_Issuer flds) @ val @
       asn1_Marshal_RawValue (tf_Subject flds) @ asn1_Marshal_RawValue spki @ e"
  ultimately have "d = seq (seq X @ alg @ pb)" by simp
  then have "length (seq X) \<le> length d" using length_tlv [of "seq X @ alg @ pb" 0 16 True] by simp
  then have "length X \<le> length d" using length_tlv [of X 0 16 True] by linarith
  then show "length (asn1_Marshal_RawValue (tf_Issuer flds)) \<le> length d" "length (asn1_Marshal_RawValue (tf_Subject flds)) \<le> length d"
    by (simp_all add: X_def)
qed

lemma Marshal_tlv:
  "asn1_Marshal_RawValue \<lparr>rv_Class = cls, rv_Tag = tag, rv_IsCompound = cmp, rv_Bytes = b, rv_FullBytes = []\<rparr> = tlv cls tag cmp b"
  by (simp add: asn1_Marshal_RawValue_def tlv_def)

lemma BuildTrustAnchorDN_one_tlv:
  assumes "BuildTrustAnchorDN logID = Some (Inr rv)" "length (asn1_Marshal_RawValue rv) < 2 ^ 31"
  shows "one_tlv (asn1_Marshal_RawValue rv)"
proof -
  obtain c where "rv = FullBytes_only (seq c)"
    using assms(1) by (auto simp: BuildTrustAnchorDN_def Marshal_tlv Let_def split: option.splits if_splits)
  moreover from this assms(2) have "length c < 2 ^ 31" using length_tlv [of c 0 16 True] by simp
  ultimately show ?thesis by (simp add: one_tlv_tlv)
qed

lemma csr_certificate:
  fixes rdn :: "bytes \<Rightarrow> 'r option"
  assumes entry: "BuildLogEntryFromCSR logID nb na csr dns = Some (Inr der)"
    and cert: "BuildMTCCertFromCSR csr logID nb na dns idx (Some p) = Some (Inr c)" "length c < 2 ^ 31"
    and csr: "one_tlv (csr_RawSubjectPublicKeyInfo csr)" "time_ok nb" "time_ok na"
    and idx: "0 \<le> idx" "idx < 2 ^ 63"
    and sigs: "marshalSignatures (mp_Signatures p) = Inr sb" "length sb \<le> 0xFFFF"
  shows "\<exists>parsed. ParseMTCCertificate rdn c = Inr parsed \<and> IsMTCCertificate c \<and> pc_SerialNumber parsed = idx \<and> pc_Proof parsed = Some p \<and>
    ReconstructLogEntry (pc_RawIssuer parsed) (pc_RawSubject parsed) (pc_NotBefore parsed) (pc_NotAfter parsed)
      (pc_SubjectPubKeyInfo parsed) (pc_Extensions parsed) = Inr der"
proof -
  obtain iss where iss: "BuildTrustAnchorDN logID = Some (Inr iss)" using BuildTrustAnchorDN_total by blast
  obtain xs where xs: "standard_extensions dns = Inr xs" "list_all ext_ok xs"
    using standard_extensions_total [of dns] by (auto simp: list_all_iff)
  obtain subj where csr': "name_tlv (csr_Subject csr) = Inr subj"
    using cert(1) iss by (cases "name_tlv (csr_Subject csr)") (auto simp: BuildMTCCertFromCSR_def)
  obtain sc where sc: "subj = seq sc" using name_tlv_seq [OF csr'] ..
  let ?f = "\<lparr>tf_Issuer = iss, tf_NotBefore = nb, tf_NotAfter = na, tf_Subject = FullBytes_only subj,
    tf_SubjectPubKeyInfo = csr_RawSubjectPublicKeyInfo csr, tf_Extensions = Some xs\<rparr>"
  have c: "BuildMTCCertificate ?f idx (Some p) = Inr c"
    using cert(1) iss xs(1) csr' by (simp add: BuildMTCCertFromCSR_def BuildCertExtensions_eq)
  have der: "BuildLogEntry iss (FullBytes_only subj) nb na (csr_RawSubjectPublicKeyInfo csr) (Some xs) = Inr der"
    using entry iss xs(1) csr' by (simp add: BuildLogEntryFromCSR_def)
  have subj: "asn1_Marshal_RawValue (FullBytes_only subj) = subj" by (simp add: sc)
  have "length subj < 2 ^ 31" using BuildMTCCertificate_length(2) [OF c] cert(2) subj by simp
  then have one: "one_tlv subj" using length_tlv [of sc 0 16 True] unfolding sc by (intro one_tlv_tlv) simp_all
  have i: "one_tlv (asn1_Marshal_RawValue iss)"
    using BuildTrustAnchorDN_one_tlv [OF iss] BuildMTCCertificate_length(1) [OF c] cert(2) by simp
  then have "cert_fields_ok ?f" using csr one xs(2) subj by (simp add: cert_fields_ok_def)
  from parse_built [OF c cert(2) this idx sigs, where rdn = rdn] der i one show ?thesis
    using BuildLogEntry_cong [of "raw_of (asn1_Marshal_RawValue iss)" iss "raw_of subj" "FullBytes_only subj" "der_time nb" "der_time na" nb na]
    by (auto simp: ReconstructLogEntry_def subj Marshal_raw_of)
qed

lemma copy_hash_bytes [simp]: "copy_hash (hash_bytes h) = h"
  by (simp add: copy_hash_def)

lemma rng_shift: "rng (\<lambda>j. h (s + j)) 0 (e - s) = rng h s e"
  by (rule nth_equalityI) (simp_all add: nth_rng)

lemma int64_of_int: "0 \<le> s \<Longrightarrow> s < 2 ^ 63 \<Longrightarrow> int64 (word_of_int s) = s"
proof -
  assume s: "0 \<le> s" "s < 2 ^ 63"
  then have "unat (word_of_int s :: 64 word) = nat s"
    by (simp add: unat_eq_nat_uint uint_word_of_int_eq take_bit_int_eq_self)
  with s show ?thesis by (simp add: int64_small)
qed

lemma subtree_range:
  assumes "0 \<le> s" "s \<le> idx" "idx < e" "e < 2 ^ 63" "mp_Start p = word_of_int s" "mp_End p = word_of_int e"
  shows "subtree_size p = e - s" "relative_index idx p = idx - s"
  using assms by (simp_all add: subtree_size_def relative_index_def int64_of_int sub64_small)

text \<open>Log entries of moderate size are accepted by the log.\<close>

lemma BuildLogEntry_logged:
  assumes "validity_tlv nb na = Inr v" "extensions_field exts = Inr e" "extractSPKIAlgorithm spki = Inr a" "spki \<noteq> []"
    and "length (asn1_Marshal_RawValue i) + length v + length (asn1_Marshal_RawValue s) + length (asn1_Marshal_RawValue a) + length e \<le> 60000"
  shows "\<exists>der entry. BuildLogEntry i s nb na spki exts = Inr der \<and> BuildMTCEntry der ser = Inr entry"
proof -
  let ?c = "version_tlv 2 @ asn1_Marshal_RawValue i @ v @ asn1_Marshal_RawValue s @ asn1_Marshal_RawValue a @ tlv 0 4 False (sha256 spki) @ e"
  have "BuildLogEntry i s nb na spki exts = Inr (seq ?c)"
    using assms(1-4) by (simp add: BuildLogEntry_def asn1_Marshal_LogEntry_def)
  moreover have sha: "tlv 0 4 False (sha256 spki) = 4 # 32 # sha256 spki"
    by (simp add: tlv_def appendTagAndLength_def)
  have "length (version_tlv 2) = 5" by code_simp
  then have len: "length ?c \<le> 60039" using assms(5) by (simp add: sha)
  then have "DERContentsOctets (seq ?c) = Inr ?c"
    using Unmarshal_tlv [of 0 16 ?c True "[]"] by (simp add: DERContentsOctets_def del: append_assoc)
  then have "\<exists>entry. BuildMTCEntry (seq ?c) ser = Inr entry"
    using len \<open>length (version_tlv 2) = 5\<close> by (simp add: BuildMTCEntry_def MarshalEntry_def)
  ultimately show ?thesis by blast
qed

text \<open>Certificates of moderate size can be built.\<close>

lemma length_tlv_le: "tag < 31 \<Longrightarrow> length x < 2 ^ 31 \<Longrightarrow> length (tlv cls tag cmp x) \<le> length x + 6"
  using lengthLength_4 [of "length x"] by (simp add: tlv_def appendTagAndLength_def Let_def)

lemma oid_tlv_MTC: "oid_tlv OIDMTCProof = Inr [6, 10, 43, 6, 1, 4, 1, 130, 218, 75, 47, 0]"
  by (simp add: oid_tlv_def oid_content_def OIDMTCProof_def appendBase128Int_def base128_hi.simps tlv_def appendTagAndLength_def)

lemma BuildMTCCertificate_ok:
  assumes "validity_tlv (tf_NotBefore flds) (tf_NotAfter flds) = Inr v" "extensions_field (tf_Extensions flds) = Inr e"
    and "MarshalProof p = Inr pb" "one_tlv (tf_SubjectPubKeyInfo flds)" "0 \<le> idx" "idx < 2 ^ 63"
    and "length (asn1_Marshal_RawValue (tf_Issuer flds)) + length v + length (asn1_Marshal_RawValue (tf_Subject flds)) +
      length (tf_SubjectPubKeyInfo flds) + length e + length pb \<le> 60000"
  shows "\<exists>d. BuildMTCCertificate flds idx (Some p) = Inr d \<and> length d < 2 ^ 31"
proof -
  let ?k = "tf_SubjectPubKeyInfo flds" and ?oid = "[6, 10, 43, 6, 1, 4, 1, 130, 218, 75, 47, 0 :: byte]"
  let ?X = "version_tlv 2 @ tlv 0 2 False (int_content idx) @ seq ?oid @ asn1_Marshal_RawValue (tf_Issuer flds) @ v @
       asn1_Marshal_RawValue (tf_Subject flds) @ ?k @ e"
  let ?B = "bits_content \<lparr>bs_Bytes = pb, bs_BitLength = length pb * 8\<rparr>"
  have k: "?k \<noteq> []" "asn1_Unmarshal_RawValue ?k = Inr (raw_of ?k, [])" "asn1_Marshal_RawValue (raw_of ?k) = ?k"
    using raw_of(3) [OF assms(4)] raw_of(1) [OF assms(4), of "[]"] Marshal_raw_of [OF assms(4)] by simp_all
  have "BuildMTCCertificate flds idx (Some p) = Inr (seq (seq ?X @ seq ?oid @ tlv 0 3 False ?B))"
    using assms(1-3) k by (simp add: BuildMTCCertificate_def asn1_Marshal_tbsCertificate_def asn1_Marshal_certificate_def
        algorithmIdentifier_tlv_def oid_tlv_MTC)
  moreover have "length (seq (seq ?X @ seq ?oid @ tlv 0 3 False ?B)) < 2 ^ 31"
  proof -
    have "length (seq ?oid) \<le> 18" using length_tlv_le [of 16 ?oid 0 True] by simp
    moreover have "length (tlv 0 2 False (int_content idx)) \<le> 15"
      using length_tlv_le [of 2 "int_content idx" 0 False] length_int_content [OF assms(5,6)] by simp
    moreover have "length (version_tlv 2) \<le> 9" using length_tlv_le [of 0 "[2, 1, 2]" 2 True] by (simp add: version_2)
    ultimately have X: "length ?X \<le> 60042" using assms(7) by simp
    have B: "length ?B \<le> 60001" using assms(7) by (simp add: bits_content_def)
    from X have "length ?X < 2 ^ 31" by simp
    then have "length (seq ?X) \<le> 60048" using length_tlv_le [of 16 ?X 0 True] X by linarith
    moreover have "length ?B < 2 ^ 31" using B by simp
    then have "length (tlv 0 3 False ?B) \<le> 60007" using length_tlv_le [of 3 ?B 0 False] B by linarith
    ultimately have "length (seq ?X @ seq ?oid @ tlv 0 3 False ?B) \<le> 200000"
      using \<open>length (seq ?oid) \<le> 18\<close> by (simp only: length_append)
    then show ?thesis
      using length_tlv_le [of 16 "seq ?X @ seq ?oid @ tlv 0 3 False ?B" 0 True] by (simp del: length_append)
  qed
  ultimately show ?thesis by blast
qed

section \<open>Properties\<close>

text \<open>
  End to end: a certificate made from a request (\<open>BuildMTCCertFromCSR\<close>) for the entry
  that was logged for it (\<open>BuildLogEntryFromCSR\<close>, \<open>BuildMTCEntry\<close>) at index \<open>idx\<close>, with the
  audit path of that entry in the subtree \<open>[s, e)\<close>, is recognised as a Merkle tree
  certificate, parses back to its index and proof, gives back exactly the logged entry bytes,
  and its proof leads from their leaf hash to the Merkle Tree Hash of the subtree.
\<close>

lemma certificate_matches_log:
  fixes rdn :: "bytes \<Rightarrow> 'r option"
  assumes entry: "BuildLogEntryFromCSR logID nb na csr dns = Some (Inr der)" "BuildMTCEntry der ser = Inr entry"
    and cert: "BuildMTCCertFromCSR csr logID nb na dns idx (Some p) = Some (Inr c)" "length c < 2 ^ 31"
    and csr: "one_tlv (csr_RawSubjectPublicKeyInfo csr)" "time_ok nb" "time_ok na"
    and range: "0 \<le> s" "s \<le> idx" "idx < e" "e < 2 ^ 63" "mp_Start p = word_of_int s" "mp_End p = word_of_int e"
    and sigs: "marshalSignatures (mp_Signatures p) = Inr sb" "length sb \<le> 0xFFFF"
    and tree: "h idx = LeafHash (le_EntryData entry)" "mp_InclusionProof p = map hash_bytes (path (nat (idx - s)) (rng h s e))"
  shows "\<exists>parsed. ParseMTCCertificate rdn c = Inr parsed \<and> IsMTCCertificate c \<and> pc_SerialNumber parsed = idx \<and> pc_Proof parsed = Some p \<and>
    cert_entry_bytes parsed = Inr (le_EntryData entry) \<and>
    cert_subtree_root idx p (le_EntryData entry) = Some (mth (rng h s e))"
proof -
  have idx: "0 \<le> idx" "idx < 2 ^ 63" using range by simp_all
  obtain parsed where parsed: "ParseMTCCertificate rdn c = Inr parsed" "IsMTCCertificate c" "pc_SerialNumber parsed = idx" "pc_Proof parsed = Some p"
      "ReconstructLogEntry (pc_RawIssuer parsed) (pc_RawSubject parsed) (pc_NotBefore parsed) (pc_NotAfter parsed)
        (pc_SubjectPubKeyInfo parsed) (pc_Extensions parsed) = Inr der"
    using csr_certificate [OF entry(1) cert csr idx sigs, where rdn = rdn] by blast
  have "cert_entry_bytes parsed = Inr (le_EntryData entry)"
    using entry(2) parsed(5) by (auto simp: cert_entry_bytes_def BuildMTCEntry_def log_entry_def split: sum.splits)
  moreover have "cert_subtree_root idx p (le_EntryData entry) = Some (mth (rng h s e))"
    using RootFromInclusionProof_path [of "idx - s" "e - s" "\<lambda>j. h (s + j)"] range
    by (simp add: cert_subtree_root_def subtree_range [OF range] tree rng_shift o_def)
  ultimately show ?thesis using parsed by blast
qed

definition demo_nb :: go_time where
  "demo_nb = \<lparr>t_year = 2026, t_month = 3, t_day = 1, t_hour = 0, t_min = 0, t_sec = 0, t_nsec = 5, t_off = 0\<rparr>"

definition demo_na :: go_time where
  "demo_na = \<lparr>t_year = 2051, t_month = 2, t_day = 28, t_hour = 23, t_min = 59, t_sec = 59, t_nsec = 0, t_off = -3600\<rparr>"

definition demo_name :: Name where
  "demo_name = \<lparr>nm_Country = [], nm_Organization = [], nm_OrganizationalUnit = [], nm_Locality = [], nm_Province = [],
     nm_StreetAddress = [], nm_PostalCode = [], nm_SerialNumber = '''', nm_CommonName = ''''\<rparr>"

lemma name_tlv_demo: "name_tlv demo_name = Inr [0x30, 0]"
  by code_simp

definition demo_csr :: CertificateRequest where
  "demo_csr = \<lparr>csr_Subject = demo_name, csr_DNSNames = [], csr_RawSubjectPublicKeyInfo = [0x30, 2, 0x30, 0]\<rparr>"

definition demo_prf :: MTCProof where
  "demo_prf = \<lparr>mp_Start = word_of_int 0, mp_End = word_of_int 2, mp_InclusionProof = [replicate 32 0], mp_Signatures = []\<rparr>"

lemma demo_ok:
  "time_ok demo_nb" "time_ok demo_na" "one_tlv [0x30, 0]" "one_tlv [0x30, 2, 0x30, 0]"
  "marshalSignatures (mp_Signatures demo_prf) = Inr []"
proof -
  show "time_ok demo_nb" "time_ok demo_na" "marshalSignatures (mp_Signatures demo_prf) = Inr []" by code_simp+
  show "one_tlv [0x30, 0]" "one_tlv [0x30, 2, 0x30, 0]"
    by (simp_all add: one_tlv_def asn1_Unmarshal_RawValue_def parseTagAndLength_def)
qed

lemma demo_parts:
  obtains i xs e v a pb where "BuildTrustAnchorDN ''1'' = Some (Inr i)" "length (asn1_Marshal_RawValue i) < 1000"
    "standard_extensions [''a''] = Inr xs" "extensions_field (Some xs) = Inr e" "length e < 1000"
    "validity_tlv demo_nb demo_na = Inr v" "length v < 1000"
    "extractSPKIAlgorithm [0x30, 2, 0x30, 0] = Inr a" "length (asn1_Marshal_RawValue a) < 1000"
    "MarshalProof demo_prf = Inr pb" "length pb < 1000"
proof -
  have "case BuildTrustAnchorDN ''1'' of Some (Inr i) \<Rightarrow> length (asn1_Marshal_RawValue i) < 1000 | _ \<Rightarrow> False"
    by (simp add: BuildTrustAnchorDN_def mustMarshal_def OIDTrustAnchorID_def oid_tlv_def oid_content_def Let_def
        appendBase128Int_def base128_hi.simps tlv_def appendTagAndLength_def asn1_Marshal_RawValue_def FullBytes_only_def asn1_Marshal_RawValues_def)
  moreover have "case standard_extensions [''a''] of Inr xs \<Rightarrow> (case extensions_field (Some xs) of Inr e \<Rightarrow> length e < 1000 | _ \<Rightarrow> False) | _ \<Rightarrow> False"
    by code_simp
  moreover have "case validity_tlv demo_nb demo_na of Inr v \<Rightarrow> length v < 1000 | _ \<Rightarrow> False" by code_simp
  moreover have "case extractSPKIAlgorithm [0x30, 2, 0x30, 0] of Inr a \<Rightarrow> length (asn1_Marshal_RawValue a) < 1000 | _ \<Rightarrow> False" by code_simp
  moreover have "case MarshalProof demo_prf of Inr pb \<Rightarrow> length pb < 1000 | _ \<Rightarrow> False"
    by (simp add: MarshalProof_def demo_prf_def HashSize_def marshalSignatures_def word_le_nat_alt)
  ultimately show ?thesis by (auto intro!: that split: option.splits sum.splits)
qed

lemma demo_logged:
  "\<exists>der entry. BuildLogEntryFromCSR ''1'' demo_nb demo_na demo_csr [''a''] = Some (Inr der) \<and> BuildMTCEntry der '''' = Inr entry"
proof (rule demo_parts)
  fix i xs e v a
  assume i: "BuildTrustAnchorDN ''1'' = Some (Inr i)" "length (asn1_Marshal_RawValue i) < 1000"
    and xs: "standard_extensions [''a''] = Inr xs" "extensions_field (Some xs) = Inr e" "length e < 1000"
    and v: "validity_tlv demo_nb demo_na = Inr v" "length v < 1000"
    and a: "extractSPKIAlgorithm [0x30, 2, 0x30, 0] = Inr a" "length (asn1_Marshal_RawValue a) < 1000"
  show ?thesis
    using BuildLogEntry_logged [OF v(1) xs(2) a(1), of i "FullBytes_only [0x30, 0]" "''''"] i v xs a
    by (simp add: BuildLogEntryFromCSR_def demo_csr_def name_tlv_demo)
qed

lemma demo_cert:
  "\<exists>c. BuildMTCCertFromCSR demo_csr ''1'' demo_nb demo_na [''a''] 1 (Some demo_prf) = Some (Inr c) \<and> length c < 2 ^ 31"
proof (rule demo_parts)
  fix i xs e v pb
  assume i: "BuildTrustAnchorDN ''1'' = Some (Inr i)" "length (asn1_Marshal_RawValue i) < 1000"
    and xs: "standard_extensions [''a''] = Inr xs" "extensions_field (Some xs) = Inr e" "length e < 1000"
    and v: "validity_tlv demo_nb demo_na = Inr v" "length v < 1000"
    and pb: "MarshalProof demo_prf = Inr pb" "length pb < 1000"
  let ?f = "\<lparr>tf_Issuer = i, tf_NotBefore = demo_nb, tf_NotAfter = demo_na, tf_Subject = FullBytes_only [0x30, 0],
     tf_SubjectPubKeyInfo = [0x30, 2, 0x30, 0], tf_Extensions = Some xs\<rparr>"
  show ?thesis
    using BuildMTCCertificate_ok [of ?f v e demo_prf pb 1] i v xs pb demo_ok
    by (simp add: BuildMTCCertFromCSR_def demo_csr_def BuildCertExtensions_eq name_tlv_demo)
qed

lemma certificate_matches_log_witness:
  "\<exists>c parsed (data :: bytes). BuildMTCCertFromCSR demo_csr ''1'' demo_nb demo_na [''a''] 1 (Some demo_prf) = Some (Inr c) \<and>
     ParseMTCCertificate (\<lambda>d. Some d) c = Inr parsed \<and> cert_entry_bytes parsed = Inr data \<and>
     cert_subtree_root 1 demo_prf data = Some (mth [0, LeafHash data])"
proof -
  obtain c where c: "BuildMTCCertFromCSR demo_csr ''1'' demo_nb demo_na [''a''] 1 (Some demo_prf) = Some (Inr c)" "length c < 2 ^ 31"
    using demo_cert by blast
  obtain der entry where d: "BuildLogEntryFromCSR ''1'' demo_nb demo_na demo_csr [''a''] = Some (Inr der)" "BuildMTCEntry der '''' = Inr entry"
    using demo_logged by blast
  define h where "h = (\<lambda>i :: int. if i = 1 then LeafHash (le_EntryData entry) else 0)"
  have r: "rng h 0 2 = [0, LeafHash (le_EntryData entry)]" by (simp add: rng_def h_def upto.simps)
  have "path 1 [0, LeafHash (le_EntryData entry)] = [0]" by (simp add: path_split split_def bits_Len.simps)
  moreover have "hash_bytes 0 = replicate 32 0" by code_simp
  ultimately have p: "mp_InclusionProof demo_prf = map hash_bytes (path (nat (1 - 0)) (rng h 0 2))"
    by (simp add: r demo_prf_def)
  show ?thesis
    using certificate_matches_log [OF d c, of 0 2 "[]" h "\<lambda>d. Some d"] demo_ok p c r
    by (simp add: demo_csr_def demo_prf_def h_def) blast
qed

text \<open>
  C13. What \<open>VerifyMTCCert\<close> reports for a certificate that \<open>BuildMTCCertificate\<close> made with an
  index inside the range of its proof: the proof is valid and as many signatures are
  verified as it carries, whatever the hashes of the inclusion proof, the signatures, the
  landmarks and the keys of the options are. The check against a landmark does not reach the
  result and no signature is checked.
\<close>

theorem VerifyMTCCert_accepts_any_proof:
  fixes rdn :: "bytes \<Rightarrow> 'r option"
  assumes "BuildMTCCertificate flds idx (Some p) = Inr d" "length d < 2 ^ 31" "cert_fields_ok flds"
    and "BuildLogEntry (tf_Issuer flds) (tf_Subject flds) (tf_NotBefore flds) (tf_NotAfter flds) (tf_SubjectPubKeyInfo flds)
      (tf_Extensions flds) = Inr der" "BuildMTCEntry der ser = Inr entry"
    and range: "0 \<le> s" "s \<le> idx" "idx < e" "e < 2 ^ 63" "mp_Start p = word_of_int s" "mp_End p = word_of_int e"
    and sigs: "marshalSignatures (mp_Signatures p) = Inr sb" "length sb \<le> 0xFFFF"
  shows "VerifyMTCCert rdn d opts = Some (Inr \<lparr>vr_LeafIndex = idx, vr_SubtreeStart = mp_Start p, vr_SubtreeEnd = mp_End p,
    vr_ProofValid = True, vr_SignaturesVerified = length (mp_Signatures p),
    vr_Mode = (if mp_Signatures p = [] then ''signatureless'' else ''signed'')\<rparr>)"
proof -
  have idx: "0 \<le> idx" "idx < 2 ^ 63" using range by simp_all
  have one: "one_tlv (asn1_Marshal_RawValue (tf_Issuer flds))" "one_tlv (asn1_Marshal_RawValue (tf_Subject flds))"
    using assms(3) by (simp_all add: cert_fields_ok_def)
  obtain parsed where parsed: "ParseMTCCertificate rdn d = Inr parsed" "pc_SerialNumber parsed = idx" "pc_Proof parsed = Some p"
      "cert_entry_bytes parsed = Inr (le_EntryData entry)"
    using parse_built [OF assms(1-3) idx sigs, where rdn = rdn] assms(4,5)
      BuildLogEntry_cong [of "raw_of (asn1_Marshal_RawValue (tf_Issuer flds))" "tf_Issuer flds" "raw_of (asn1_Marshal_RawValue (tf_Subject flds))" "tf_Subject flds"
        "der_time (tf_NotBefore flds)" "der_time (tf_NotAfter flds)" "tf_NotBefore flds" "tf_NotAfter flds" "tf_SubjectPubKeyInfo flds" "tf_Extensions flds"]
    by (auto simp: cert_entry_bytes_def ReconstructLogEntry_def BuildMTCEntry_def log_entry_def Marshal_raw_of [OF one(1)] Marshal_raw_of [OF one(2)] split: sum.splits)
  have "\<exists>r. cert_subtree_root idx p (le_EntryData entry) = Some r"
    using rootFromProof_total [of 0 "idx - s" "e - s"] range
    by (simp add: cert_subtree_root_def RootFromInclusionProof_def subtree_range [OF range])
  then obtain r where "cert_subtree_root idx p (le_EntryData entry) = Some r" ..
  then show ?thesis
    using parsed range by (simp add: VerifyMTCCert_def subtree_range [OF range])
qed

definition demo_flds :: TBSFields where
  "demo_flds = \<lparr>tf_Issuer = FullBytes_only [0x30, 0], tf_NotBefore = demo_nb, tf_NotAfter = demo_na, tf_Subject = FullBytes_only [0x30, 0],
     tf_SubjectPubKeyInfo = [0x30, 2, 0x30, 0], tf_Extensions = None\<rparr>"

theorem VerifyMTCCert_accepts_any_proof_witness:
  "\<exists>d. BuildMTCCertificate demo_flds 1 (Some demo_prf) = Inr d \<and>
     VerifyMTCCert (\<lambda>d. Some d) d \<lparr>vo_CosignerKeys = Map.empty, vo_Landmarks = Some [2 \<mapsto> 7], vo_LogID = []\<rparr> =
       Some (Inr \<lparr>vr_LeafIndex = 1, vr_SubtreeStart = 0, vr_SubtreeEnd = 2, vr_ProofValid = True,
         vr_SignaturesVerified = 0, vr_Mode = ''signatureless''\<rparr>)"
proof -
  obtain v a pb where v: "validity_tlv demo_nb demo_na = Inr v" "length v < 1000"
    and a: "extractSPKIAlgorithm [0x30, 2, 0x30, 0] = Inr a" "length (asn1_Marshal_RawValue a) < 1000"
    and pb: "MarshalProof demo_prf = Inr pb" "length pb < 1000"
    using demo_parts by metis
  have ok: "cert_fields_ok demo_flds" using demo_ok by (simp add: cert_fields_ok_def demo_flds_def)
  obtain d where d: "BuildMTCCertificate demo_flds 1 (Some demo_prf) = Inr d" "length d < 2 ^ 31"
    using BuildMTCCertificate_ok [of demo_flds v "[]" demo_prf pb 1] v pb demo_ok by (auto simp: demo_flds_def extensions_field_def)
  obtain der entry where e: "BuildLogEntry (tf_Issuer demo_flds) (tf_Subject demo_flds) (tf_NotBefore demo_flds) (tf_NotAfter demo_flds)
      (tf_SubjectPubKeyInfo demo_flds) (tf_Extensions demo_flds) = Inr der" "BuildMTCEntry der '''' = Inr entry"
    using BuildLogEntry_logged [OF v(1), of None "[]" "[0x30, 2, 0x30, 0]" a "FullBytes_only [0x30, 0]" "FullBytes_only [0x30, 0]" "''''"] a v
    by (auto simp: demo_flds_def extensions_field_def)
  show ?thesis
    using VerifyMTCCert_accepts_any_proof [OF d ok e, of 0 2 "[]" "\<lambda>d. Some d"] d(1) by (simp add: demo_prf_def marshalSignatures_def)
qed

text \<open>
  The extension builders exist twice, in \<open>mtcformat\<close> (what is logged) and in \<open>mtccert\<close>
  (what is in the certificate): for every list of names both give the same extensions, so the
  logged entry and the certificate agree on them.
\<close>

lemma extension_builders_agree: "BuildCertExtensions dnsNames = standard_extensions dnsNames"
  by (rule BuildCertExtensions_eq)

end
