(* ===== verification/Localca.thy ===== *)
theory Localca
  imports Mtccert "HOL-Library.Multiset"
begin

text \<open>
  \<open>src/internal/localca\<close>: the local certificate authority. \<open>IssuePrecert\<close> and
  \<open>IssueWithProof\<close> sign twice, the second time with the inclusion proof in an extension;
  \<open>StripMTCExtension\<close> recovers the form that was logged and \<open>VerifyEmbeddedProof\<close> checks the
  proof; \<open>IssueMTCCert\<close> issues certificates without a signature. Signing and parsing of X.509
  certificates is a record of functions.
\<close>

section \<open>Strings and integers in DER\<close>

text \<open>\<open>parseBMPString\<close>: UTF-16, written out again as UTF-8.\<close>

fun utf16_units :: "bytes \<Rightarrow> nat list" where
  "utf16_units (a # b # bs) = (unat a * 256 + unat b) # utf16_units bs"
| "utf16_units _ = []"

fun utf16_decode :: "nat list \<Rightarrow> bytes" where
  "utf16_decode [] = []"
| "utf16_decode [u] = utf8_rune (if 0xD800 \<le> u \<and> u < 0xE000 then 0xFFFD else u)"
| "utf16_decode (u # v # us) =
     (if 0xD800 \<le> u \<and> u < 0xDC00 \<and> 0xDC00 \<le> v \<and> v < 0xE000
      then utf8_rune ((u - 0xD800) * 1024 + (v - 0xDC00) + 0x10000) @ utf16_decode us
      else utf8_rune (if 0xD800 \<le> u \<and> u < 0xE000 then 0xFFFD else u) @ utf16_decode (v # us))"

definition parse_BMP :: "bytes \<Rightarrow> goerr + bytes" where
  "parse_BMP bs =
     (if length bs mod 2 \<noteq> 0 then Inl (Errorf ''invalid BMPString'')
      else Inr (utf16_decode (utf16_units
        (if 2 \<le> length bs \<and> drop (length bs - 2) bs = [0, 0] then take (length bs - 2) bs else bs))))"

text \<open>A field of type \<open>string\<close>: any of the string types.\<close>

definition parse_string_content :: "nat \<Rightarrow> bytes \<Rightarrow> goerr + bytes" where
  "parse_string_content tag c =
     (if tag = 12 then (if utf8_Valid c then Inr c else Inl (Errorf ''asn1: invalid UTF-8 string''))
      else if tag = 19 then (if list_all (\<lambda>b. isPrintable b \<or> b = 42 \<or> b = 38) c then Inr c
        else Inl (Errorf ''asn1: syntax error: PrintableString contains invalid character''))
      else if tag = 18 then (if list_all (\<lambda>b. ascii_digit b \<or> b = 32) c then Inr c
        else Inl (Errorf ''asn1: syntax error: NumericString contains invalid character''))
      else if tag = 22 then (if list_all (\<lambda>b. unat b < 128) c then Inr c
        else Inl (Errorf ''asn1: syntax error: IA5String contains invalid character''))
      else if tag = 30 then parse_BMP c
      else Inr c)"

definition parse_string_elem :: "bytes \<Rightarrow> goerr + string \<times> bytes" where
  "parse_string_elem data =
     (if data = [] then Inl (Errorf ''asn1: syntax error: sequence truncated'')
      else case parseTagAndLength data of
        Inl e \<Rightarrow> Inl e
      | Inr ((cls, t, c, len), rest) \<Rightarrow>
          if cls \<noteq> 0 \<or> t \<notin> {12, 18, 19, 20, 22, 27, 30} \<or> c then Inl (Errorf ''asn1: structure error: tags don't match'')
          else if length rest < len then Inl (Errorf ''asn1: syntax error: data truncated'')
          else (case parse_string_content t (take len rest) of
             Inl e \<Rightarrow> Inl e | Inr s \<Rightarrow> Inr (bytes_str s, drop len rest)))"

definition parse_int64_elem :: "bytes \<Rightarrow> goerr + int \<times> bytes" where
  "parse_int64_elem data =
     (case parse_elem 2 False data of
        Inl e \<Rightarrow> Inl e
      | Inr (c, rest) \<Rightarrow>
          (case parse_int c of
             Inl e \<Rightarrow> Inl e
           | Inr n \<Rightarrow> if length c > 8 then Inl (Errorf ''asn1: structure error: integer too large'') else Inr (n, rest)))"

definition octets_tlv :: "bytes \<Rightarrow> goerr + bytes" where
  "octets_tlv h = Inr (tlv 0 4 False h)"

function parse_octets_loop :: "bytes \<Rightarrow> goerr + bytes list" where
  "parse_octets_loop data =
     (if data = [] then Inr []
      else case parse_elem 4 False data of
        Inl e \<Rightarrow> Inl e
      | Inr (v, rest) \<Rightarrow> (case parse_octets_loop rest of Inl e \<Rightarrow> Inl e | Inr vs \<Rightarrow> Inr (v # vs)))"
  by pat_completeness auto
termination by (relation "measure length") (auto dest: parse_elem_shorter)

declare parse_octets_loop.simps [simp del]

section \<open>extension.go\<close>

definition OIDMTCInclusionProof :: oid where
  "OIDMTCInclusionProof = [1, 3, 6, 1, 4, 1, 99999, 1, 1]"

record InclusionProofExt =
  ip_LogOrigin :: string
  ip_LeafIndex :: int
  ip_TreeSize :: int
  ip_RootHash :: bytes
  ip_ProofHashes :: "bytes list"
  ip_Checkpoint :: string

text \<open>
  \<open>asn1.Marshal\<close> and \<open>asn1.Unmarshal\<close> of the structure; \<open>ProofHashes\<close> is tagged \<open>set\<close>.
\<close>

definition asn1_Marshal_InclusionProofExt :: "InclusionProofExt \<Rightarrow> goerr + bytes" where
  "asn1_Marshal_InclusionProofExt p =
     (case utf8_tlv (ip_LogOrigin p) of
        Inl e \<Rightarrow> Inl e
      | Inr origin \<Rightarrow>
        (case set_tlv octets_tlv (ip_ProofHashes p) of
           Inl e \<Rightarrow> Inl e
         | Inr hashes \<Rightarrow>
           (case utf8_tlv (ip_Checkpoint p) of
              Inl e \<Rightarrow> Inl e
            | Inr checkpoint \<Rightarrow>
                Inr (seq (origin @ tlv 0 2 False (int_content (ip_LeafIndex p)) @ tlv 0 2 False (int_content (ip_TreeSize p)) @
                  tlv 0 4 False (ip_RootHash p) @ hashes @ checkpoint)))))"

definition asn1_Unmarshal_InclusionProofExt :: "bytes \<Rightarrow> goerr + InclusionProofExt \<times> bytes" where
  "asn1_Unmarshal_InclusionProofExt data =
     (case parse_elem 16 True data of
        Inl e \<Rightarrow> Inl e
      | Inr (c, rest) \<Rightarrow>
        (case parse_string_elem c of
           Inl e \<Rightarrow> Inl e
         | Inr (origin, c) \<Rightarrow>
           (case parse_int64_elem c of
              Inl e \<Rightarrow> Inl e
            | Inr (leafIndex, c) \<Rightarrow>
              (case parse_int64_elem c of
                 Inl e \<Rightarrow> Inl e
               | Inr (treeSize, c) \<Rightarrow>
                 (case parse_elem 4 False c of
                    Inl e \<Rightarrow> Inl e
                  | Inr (root, c) \<Rightarrow>
                    (case parse_elem 17 True c of
                       Inl e \<Rightarrow> Inl e
                     | Inr (hs, c) \<Rightarrow>
                       (case parse_octets_loop hs of
                          Inl e \<Rightarrow> Inl e
                        | Inr hashes \<Rightarrow>
                          (case parse_string_elem c of
                             Inl e \<Rightarrow> Inl e
                           | Inr (checkpoint, _) \<Rightarrow>
                               Inr (\<lparr>ip_LogOrigin = origin, ip_LeafIndex = leafIndex, ip_TreeSize = treeSize, ip_RootHash = root,
                                     ip_ProofHashes = hashes, ip_Checkpoint = checkpoint\<rparr>, rest)))))))))"

definition MarshalExtension :: "InclusionProofExt \<Rightarrow> goerr + Extension" where
  "MarshalExtension p =
     (case asn1_Marshal_InclusionProofExt p of
        Inl err \<Rightarrow> Inl (Wrap ''localca: marshal extension: %w'' err)
      | Inr v \<Rightarrow> Inr \<lparr>ext_Id = OIDMTCInclusionProof, ext_Critical = False, ext_Value = v\<rparr>)"

definition ParseInclusionProof :: "X509Certificate \<Rightarrow> goerr + InclusionProofExt option" where
  "ParseInclusionProof cert =
     (case List.find (\<lambda>ext. ext_Id ext = OIDMTCInclusionProof) (xc_Extensions cert) of
        None \<Rightarrow> Inr None
      | Some ext \<Rightarrow>
        (case asn1_Unmarshal_InclusionProofExt (ext_Value ext) of
           Inl err \<Rightarrow> Inl (Wrap ''localca: unmarshal extension: %w'' err)
         | Inr (p, rest) \<Rightarrow>
             if length rest > 0 then Inl (Errorf ''localca: trailing data in extension (%d bytes)'') else Inr (Some p)))"

definition BuildPrecertEntryData :: "bytes \<Rightarrow> bytes" where
  "BuildPrecertEntryData tbsDER =
     (let n = length tbsDER in
      [2, 0, of_nat n, of_nat (n div 2 ^ 8), of_nat (n div 2 ^ 16), of_nat (n div 2 ^ 24)] @ tbsDER)"

section \<open>canonical.go\<close>

definition shouldSkipExtension :: "bytes \<Rightarrow> bool" where
  "shouldSkipExtension extInnerBytes =
     (case parse_oid_elem extInnerBytes of Inl _ \<Rightarrow> False | Inr (oid, _) \<Rightarrow> oid = OIDMTCInclusionProof)"

definition filterExtensions :: "bytes \<Rightarrow> goerr + bytes" where
  "filterExtensions extFieldBytes =
     (case asn1_Unmarshal_RawValue extFieldBytes of
        Inl err \<Rightarrow> Inl (Wrap ''unmarshal Extensions SEQUENCE: %w'' err)
      | Inr (extSeq, rest) \<Rightarrow>
        if length rest > 0 then Inl (Errorf ''trailing data in extensions field (%d bytes)'')
        else (case parse_fields (rv_Bytes extSeq) of
           Inl err \<Rightarrow> Inl (Wrap ''unmarshal extension: %w'' err)
         | Inr exts \<Rightarrow>
             Inr (asn1_Marshal_RawValue \<lparr>rv_Class = 0, rv_Tag = 16, rv_IsCompound = True,
               rv_Bytes = concat (map rv_FullBytes (filter (\<lambda>ext. \<not> shouldSkipExtension (rv_Bytes ext)) exts)), rv_FullBytes = []\<rparr>)))"

primrec rebuildFields :: "RawValue list \<Rightarrow> goerr + bytes" where
  "rebuildFields [] = Inr []"
| "rebuildFields (field # rest) =
     (case (if rv_Class field = 2 \<and> rv_Tag field = 3 then
              (case filterExtensions (rv_Bytes field) of
                 Inl err \<Rightarrow> Inl (Wrap ''filter extensions: %w'' err)
               | Inr filtered \<Rightarrow> Inr (asn1_Marshal_RawValue
                   \<lparr>rv_Class = 2, rv_Tag = 3, rv_IsCompound = True, rv_Bytes = filtered, rv_FullBytes = []\<rparr>))
            else Inr (rv_FullBytes field)) of
        Inl err \<Rightarrow> Inl err
      | Inr enc \<Rightarrow> (case rebuildFields rest of Inl err \<Rightarrow> Inl err | Inr encs \<Rightarrow> Inr (enc @ encs)))"

definition StripMTCExtension :: "bytes \<Rightarrow> goerr + bytes" where
  "StripMTCExtension tbsDER =
     (case asn1_Unmarshal_RawValue tbsDER of
        Inl err \<Rightarrow> Inl (Wrap ''unmarshal TBSCertificate outer: %w'' err)
      | Inr (tbsSeq, rest) \<Rightarrow>
        if length rest > 0 then Inl (Errorf ''trailing data after TBSCertificate (%d bytes)'')
        else if rv_Tag tbsSeq \<noteq> 16 \<or> rv_Class tbsSeq \<noteq> 0 then Inl (Errorf ''expected SEQUENCE, got tag %d class %d'')
        else (case parse_fields (rv_Bytes tbsSeq) of
           Inl err \<Rightarrow> Inl (Wrap ''unmarshal TBS field: %w'' err)
         | Inr flds \<Rightarrow>
           (case rebuildFields flds of
              Inl err \<Rightarrow> Inl err
            | Inr rebuilt \<Rightarrow>
                Inr (asn1_Marshal_RawValue
                  \<lparr>rv_Class = 0, rv_Tag = 16, rv_IsCompound = True, rv_Bytes = rebuilt, rv_FullBytes = []\<rparr>))))"

definition ExtractTBSCertificate :: "bytes \<Rightarrow> goerr + bytes" where
  "ExtractTBSCertificate certDER =
     (case asn1_Unmarshal_RawValue certDER of
        Inl err \<Rightarrow> Inl (Wrap ''unmarshal certificate: %w'' err)
      | Inr (certSeq, rest) \<Rightarrow>
        if length rest > 0 then Inl (Errorf ''trailing data after certificate (%d bytes)'')
        else (case asn1_Unmarshal_RawValue (rv_Bytes certSeq) of
           Inl err \<Rightarrow> Inl (Wrap ''unmarshal TBSCertificate: %w'' err)
         | Inr (tbsRaw, _) \<Rightarrow> Inr (rv_FullBytes tbsRaw)))"

section \<open>localca.go\<close>

text \<open>The template of a certificate; its other fields are the same constants in both phases.\<close>

record Template =
  tp_SerialNumber :: int
  tp_CommonName :: string
  tp_Organization :: "string list"
  tp_Country :: "string list"
  tp_NotBefore :: int
  tp_NotAfter :: int
  tp_KeyUsage :: nat
  tp_ExtKeyUsage :: "string list"
  tp_BasicConstraintsValid :: bool
  tp_IsCA :: bool
  tp_DNSNames :: "string list"
  tp_ExtraExtensions :: "Extension list"

text \<open>
  \<open>crypto/x509\<close>: \<open>CreateCertificate\<close> with the certificate and key of the CA, a template and
  the public key of the request, and \<open>ParseCertificate\<close>.
\<close>

record x509_lib =
  x509_Create :: "X509Certificate \<Rightarrow> bytes \<Rightarrow> Template \<Rightarrow> bytes \<Rightarrow> goerr + bytes"
  x509_Parse :: "bytes \<Rightarrow> goerr + X509Certificate"

record LocalCA =
  ca_key :: bytes
  ca_cert :: X509Certificate
  ca_certDER :: bytes
  ca_validity :: int

definition defaultValidity :: int where
  "defaultValidity = 90 * 24 * 3600 * 1000000000"

text \<open>
  What \<open>New\<close> and \<open>GenerateCA\<close> use of \<open>os\<close>, \<open>encoding/pem\<close>, \<open>crypto/ecdsa\<close> and \<open>crypto/x509\<close>:
  reading and writing files, the PEM codec, and the functions on private keys and on the
  self-signed certificate of a CA.
\<close>

definition KeyUsageCertSign :: nat where
  "KeyUsageCertSign = 32"

definition KeyUsageCRLSign :: nat where
  "KeyUsageCRLSign = 64"

record CATemplate =
  ct_SerialNumber :: int
  ct_CommonName :: string
  ct_Organization :: "string list"
  ct_Country :: "string list"
  ct_NotBefore :: int
  ct_NotAfter :: int
  ct_KeyUsage :: nat
  ct_BasicConstraintsValid :: bool
  ct_IsCA :: bool
  ct_MaxPathLen :: nat
  ct_MaxPathLenZero :: bool

record ca_tools =
  ReadFile :: "string \<Rightarrow> files \<Rightarrow> goerr + bytes"
  WriteFile :: "string \<Rightarrow> bytes \<Rightarrow> files \<Rightarrow> goerr option \<times> files"
  pem_Decode :: "bytes \<Rightarrow> (string \<times> bytes) option"
  pem_EncodeToMemory :: "string \<times> bytes \<Rightarrow> bytes"
  ParseECPrivateKey :: "bytes \<Rightarrow> goerr + bytes"
  MarshalECPrivateKey :: "bytes \<Rightarrow> goerr + bytes"
  CreateSelfSigned :: "CATemplate \<Rightarrow> bytes \<Rightarrow> goerr + bytes"
  ParseCertificate :: "bytes \<Rightarrow> goerr + X509Certificate"

record localca_Config =
  lc_KeyFile :: string
  lc_CertFile :: string
  lc_Validity :: int
  lc_Organization :: string
  lc_Country :: string

definition New_localca :: "ca_tools \<Rightarrow> localca_Config \<Rightarrow> files \<Rightarrow> goerr + LocalCA" where
  "New_localca ct cfg fs =
     (case ReadFile ct (lc_KeyFile cfg) fs of
        Inl err \<Rightarrow> Inl (Wrap ''localca: read key: %w'' err)
      | Inr keyPEM \<Rightarrow>
        (case pem_Decode ct keyPEM of
           None \<Rightarrow> Inl (Errorf ''localca: no PEM block in key file'')
         | Some (_, keyBytes) \<Rightarrow>
           (case ParseECPrivateKey ct keyBytes of
              Inl err \<Rightarrow> Inl (Wrap ''localca: parse key: %w'' err)
            | Inr key \<Rightarrow>
              (case ReadFile ct (lc_CertFile cfg) fs of
                 Inl err \<Rightarrow> Inl (Wrap ''localca: read cert: %w'' err)
               | Inr certPEM \<Rightarrow>
                 (case pem_Decode ct certPEM of
                    None \<Rightarrow> Inl (Errorf ''localca: no PEM block in cert file'')
                  | Some (_, certBytes) \<Rightarrow>
                    (case ParseCertificate ct certBytes of
                       Inl err \<Rightarrow> Inl (Wrap ''localca: parse cert: %w'' err)
                     | Inr cert \<Rightarrow>
                         Inr \<lparr>ca_key = key, ca_cert = cert, ca_certDER = certBytes,
                              ca_validity = (if lc_Validity cfg = 0 then defaultValidity else lc_Validity cfg)\<rparr>))))))"

text \<open>The fresh key, the serial number drawn and the clock are arguments.\<close>

definition GenerateCA ::
  "ca_tools \<Rightarrow> goerr + bytes \<Rightarrow> goerr + int \<Rightarrow> int \<Rightarrow> string \<Rightarrow> string \<Rightarrow> string \<Rightarrow> string \<Rightarrow> files \<Rightarrow> goerr option \<times> files" where
  "GenerateCA ct generated drawn clock keyFile certFile org country fs =
     (case generated of
        Inl err \<Rightarrow> (Some (Wrap ''localca: generate key: %w'' err), fs)
      | Inr key \<Rightarrow>
        (case drawn of
           Inl err \<Rightarrow> (Some (Wrap ''localca: generate serial: %w'' err), fs)
         | Inr serial \<Rightarrow>
           (let template = \<lparr>ct_SerialNumber = serial, ct_CommonName = ''MTC Bridge Local CA'', ct_Organization = [org],
                  ct_Country = [country], ct_NotBefore = clock, ct_NotAfter = clock + 10 * 365 * 24 * 3600 * 1000000000,
                  ct_KeyUsage = KeyUsageCertSign OR KeyUsageCRLSign, ct_BasicConstraintsValid = True, ct_IsCA = True,
                  ct_MaxPathLen = 0, ct_MaxPathLenZero = True\<rparr> in
            case CreateSelfSigned ct template key of
              Inl err \<Rightarrow> (Some (Wrap ''localca: sign CA cert: %w'' err), fs)
            | Inr certDER \<Rightarrow>
              (case MarshalECPrivateKey ct key of
                 Inl err \<Rightarrow> (Some (Wrap ''localca: marshal key: %w'' err), fs)
               | Inr keyDER \<Rightarrow>
                 (case WriteFile ct keyFile (pem_EncodeToMemory ct (''EC PRIVATE KEY'', keyDER)) fs of
                    (Some err, fs) \<Rightarrow> (Some (Wrap ''localca: write key: %w'' err), fs)
                  | (None, fs) \<Rightarrow>
                    (case WriteFile ct certFile (pem_EncodeToMemory ct (''CERTIFICATE'', certDER)) fs of
                       (Some err, fs) \<Rightarrow> (Some (Wrap ''localca: write cert: %w'' err), fs)
                     | (None, fs) \<Rightarrow> (None, fs)))))))"

text \<open>What is documented of the files and codecs, for \<open>GenerateCA\<close> followed by \<open>New\<close>.\<close>

definition ca_tools_documented :: "ca_tools \<Rightarrow> bool" where
  "ca_tools_documented ct \<longleftrightarrow>
     (\<forall>p b fs fs'. WriteFile ct p b fs = (None, fs') \<longrightarrow> fs' = fs(p \<mapsto> b)) \<and>
     (\<forall>p b fs. fs p = Some b \<longrightarrow> ReadFile ct p fs = Inr b) \<and>
     (\<forall>b. pem_Decode ct (pem_EncodeToMemory ct b) = Some b) \<and>
     (\<forall>k d. MarshalECPrivateKey ct k = Inr d \<longrightarrow> ParseECPrivateKey ct d = Inr k) \<and>
     (\<forall>t k d. CreateSelfSigned ct t k = Inr d \<longrightarrow> (\<exists>c. ParseCertificate ct d = Inr c))"

lemma GenerateCA_New:
  assumes "ca_tools_documented ct" "keyFile \<noteq> certFile"
    and "GenerateCA ct (Inr key) drawn clock keyFile certFile org country fs = (None, fs')"
  obtains ca where "New_localca ct \<lparr>lc_KeyFile = keyFile, lc_CertFile = certFile, lc_Validity = v, lc_Organization = o', lc_Country = c'\<rparr> fs' = Inr ca"
    "ca_key ca = key"
proof -
  obtain t der kd m where c: "CreateSelfSigned ct t key = Inr der" "MarshalECPrivateKey ct key = Inr kd"
      "WriteFile ct keyFile (pem_EncodeToMemory ct (''EC PRIVATE KEY'', kd)) fs = (None, m)"
      "WriteFile ct certFile (pem_EncodeToMemory ct (''CERTIFICATE'', der)) m = (None, fs')"
    using assms(3) by (auto simp: GenerateCA_def Let_def split: sum.splits prod.splits option.splits)
  have d: "fs' = fs(p \<mapsto> b)" if "WriteFile ct p b fs = (None, fs')" for p b fs fs'
    using assms(1) that unfolding ca_tools_documented_def by blast
  have r: "ReadFile ct p fs = Inr b" if "fs p = Some b" for p fs b
    using assms(1) that unfolding ca_tools_documented_def by blast
  have e: "pem_Decode ct (pem_EncodeToMemory ct b) = Some b" for b
    using assms(1) unfolding ca_tools_documented_def by blast
  have f: "fs' = fs(keyFile \<mapsto> pem_EncodeToMemory ct (''EC PRIVATE KEY'', kd), certFile \<mapsto> pem_EncodeToMemory ct (''CERTIFICATE'', der))"
    using d [OF c(3)] d [OF c(4)] by simp
  then have "ReadFile ct keyFile fs' = Inr (pem_EncodeToMemory ct (''EC PRIVATE KEY'', kd))"
    "ReadFile ct certFile fs' = Inr (pem_EncodeToMemory ct (''CERTIFICATE'', der))"
    using assms(2) by (simp_all add: r f)
  moreover obtain x where "ParseCertificate ct der = Inr x" using assms(1) c(1) unfolding ca_tools_documented_def by blast
  moreover have "ParseECPrivateKey ct kd = Inr key" using assms(1) c(2) unfolding ca_tools_documented_def by blast
  ultimately show ?thesis by (intro that [of "\<lparr>ca_key = key, ca_cert = x, ca_certDER = der, ca_validity = (if v = 0 then defaultValidity else v)\<rparr>"])
      (simp_all add: New_localca_def e)
qed

definition CACertDER :: "LocalCA \<Rightarrow> bytes" where
  "CACertDER ca = ca_certDER ca"

record PrecertResult =
  pr_PrecertDER :: bytes
  pr_CanonicalTBS :: bytes
  pr_Serial :: int
  pr_NotBefore :: int
  pr_NotAfter :: int
  pr_Template :: Template

definition commonNameFromCSR :: "CertificateRequest \<Rightarrow> string list \<Rightarrow> string" where
  "commonNameFromCSR csr dnsNames =
     (if nm_CommonName (csr_Subject csr) \<noteq> '''' then nm_CommonName (csr_Subject csr)
      else if length dnsNames > 0 then dnsNames ! 0
      else '''')"

text \<open>\<open>t.Truncate(time.Second)\<close>.\<close>

definition truncate_second :: "int \<Rightarrow> int" where
  "truncate_second t = t - t mod 1000000000"

definition leaf_template :: "int \<Rightarrow> string \<Rightarrow> string list \<Rightarrow> string list \<Rightarrow> int \<Rightarrow> int \<Rightarrow> string list \<Rightarrow> Extension list \<Rightarrow> Template" where
  "leaf_template serial cn org country notBefore notAfter dnsNames extra =
     \<lparr>tp_SerialNumber = serial, tp_CommonName = cn, tp_Organization = org, tp_Country = country,
      tp_NotBefore = notBefore, tp_NotAfter = notAfter, tp_KeyUsage = KeyUsageDigitalSignature OR KeyUsageKeyEncipherment,
      tp_ExtKeyUsage = [''ServerAuth'', ''ClientAuth''], tp_BasicConstraintsValid = True, tp_IsCA = False,
      tp_DNSNames = dnsNames, tp_ExtraExtensions = extra\<rparr>"

text \<open>The serial number that \<open>generateSerial\<close> draws and the clock are arguments.\<close>

definition IssuePrecert ::
  "x509_lib \<Rightarrow> LocalCA \<Rightarrow> goerr + int \<Rightarrow> int \<Rightarrow> CertificateRequest \<Rightarrow> string list \<Rightarrow> int \<Rightarrow> goerr + PrecertResult" where
  "IssuePrecert lib ca drawn clock csr dnsNames validity =
     (let validity = (if validity = 0 then ca_validity ca else validity) in
      case drawn of
        Inl err \<Rightarrow> Inl (Wrap ''localca: generate serial: %w'' err)
      | Inr serial \<Rightarrow>
        (let now = truncate_second clock;
             template = leaf_template serial (commonNameFromCSR csr dnsNames) (nm_Organization (csr_Subject csr))
               (nm_Country (csr_Subject csr)) now (now + validity) dnsNames [] in
         case x509_Create lib (ca_cert ca) (ca_key ca) template (csr_RawSubjectPublicKeyInfo csr) of
           Inl err \<Rightarrow> Inl (Wrap ''localca: sign precert: %w'' err)
         | Inr precertDER \<Rightarrow>
           (case x509_Parse lib precertDER of
              Inl err \<Rightarrow> Inl (Wrap ''localca: parse precert: %w'' err)
            | Inr parsed \<Rightarrow>
                Inr \<lparr>pr_PrecertDER = precertDER, pr_CanonicalTBS = xc_RawTBSCertificate parsed, pr_Serial = serial,
                     pr_NotBefore = now, pr_NotAfter = now + validity, pr_Template = template\<rparr>)))"

definition IssueWithProof :: "x509_lib \<Rightarrow> LocalCA \<Rightarrow> CertificateRequest \<Rightarrow> PrecertResult \<Rightarrow> InclusionProofExt \<Rightarrow> goerr + bytes" where
  "IssueWithProof lib ca csr precert p =
     (case MarshalExtension p of
        Inl err \<Rightarrow> Inl (Wrap ''localca: marshal proof extension: %w'' err)
      | Inr ext \<Rightarrow>
        (let template = leaf_template (pr_Serial precert) (tp_CommonName (pr_Template precert)) (tp_Organization (pr_Template precert))
               (tp_Country (pr_Template precert)) (pr_NotBefore precert) (pr_NotAfter precert) (tp_DNSNames (pr_Template precert)) [ext] in
         case x509_Create lib (ca_cert ca) (ca_key ca) template (csr_RawSubjectPublicKeyInfo csr) of
           Inl err \<Rightarrow> Inl (Wrap ''localca: sign final cert: %w'' err)
         | Inr finalDER \<Rightarrow> Inr finalDER))"

text \<open>The subject that \<open>IssueMTCCert\<close> builds: three of the attributes of the request.\<close>

definition mtc_subject :: "CertificateRequest \<Rightarrow> string list \<Rightarrow> Name" where
  "mtc_subject csr dnsNames =
     \<lparr>nm_Country = nm_Country (csr_Subject csr), nm_Organization = nm_Organization (csr_Subject csr), nm_OrganizationalUnit = [],
      nm_Locality = [], nm_Province = [], nm_StreetAddress = [], nm_PostalCode = [], nm_SerialNumber = '''',
      nm_CommonName = commonNameFromCSR csr dnsNames\<rparr>"

definition IssueMTCCert ::
  "LocalCA \<Rightarrow> int \<Rightarrow> CertificateRequest \<Rightarrow> string list \<Rightarrow> int \<Rightarrow> int \<Rightarrow> MTCProof option \<Rightarrow> string \<Rightarrow> (goerr + bytes) option" where
  "IssueMTCCert ca clock csr dnsNames validity leafIndex prf logID =
     (let validity = (if validity = 0 then ca_validity ca else validity); now = truncate_second clock in
      case BuildTrustAnchorDN logID of
        None \<Rightarrow> None
      | Some (Inl err) \<Rightarrow> Some (Inl (Wrap ''localca: build issuer DN: %w'' err))
      | Some (Inr issuerRaw) \<Rightarrow>
          Some (case name_tlv (mtc_subject csr dnsNames) of
              Inl err \<Rightarrow> Inl (Wrap ''localca: marshal subject: %w'' err)
            | Inr subjectDER \<Rightarrow>
              (case BuildCertExtensions dnsNames of
                 Inl err \<Rightarrow> Inl (Wrap ''localca: build extensions: %w'' err)
               | Inr extensions \<Rightarrow>
                   BuildMTCCertificate \<lparr>tf_Issuer = issuerRaw, tf_NotBefore = time_UTC now, tf_NotAfter = time_UTC (now + validity),
                     tf_Subject = FullBytes_only subjectDER, tf_SubjectPubKeyInfo = csr_RawSubjectPublicKeyInfo csr,
                     tf_Extensions = Some extensions\<rparr> leafIndex prf)))"

subsection \<open>Verification of an embedded proof\<close>

primrec proof_array :: "bytes list \<Rightarrow> goerr + hash list" where
  "proof_array [] = Inr []"
| "proof_array (ph # phs) =
     (if length ph \<noteq> 32 then Inl (Errorf ''localca: proof hash %d has wrong size %d'')
      else case proof_array phs of Inl err \<Rightarrow> Inl err | Inr hs \<Rightarrow> Inr (bytes_hash ph # hs))"

text \<open>The three results of the function: the proof (\<open>None\<close> for nil), the verdict and the error.\<close>

definition VerifyEmbeddedProof :: "x509_lib \<Rightarrow> bytes \<Rightarrow> InclusionProofExt option \<times> bool \<times> goerr option" where
  "VerifyEmbeddedProof lib certDER =
     (case x509_Parse lib certDER of
        Inl err \<Rightarrow> (None, False, Some (Wrap ''localca: parse certificate: %w'' err))
      | Inr cert \<Rightarrow>
        (case ParseInclusionProof cert of
           Inl err \<Rightarrow> (None, False, Some (Wrap ''localca: parse proof: %w'' err))
         | Inr None \<Rightarrow> (None, False, Some (Errorf ''localca: MTC inclusion proof extension not found''))
         | Inr (Some p) \<Rightarrow>
           (case StripMTCExtension (xc_RawTBSCertificate cert) of
              Inl err \<Rightarrow> (None, False, Some (Wrap ''localca: strip extension: %w'' err))
            | Inr canonicalTBS \<Rightarrow>
              (let leafHash = LeafHash (BuildPrecertEntryData canonicalTBS) in
               case proof_array (ip_ProofHashes p) of
                 Inl err \<Rightarrow> (Some p, False, Some err)
               | Inr proofHashes \<Rightarrow>
                   if length (ip_RootHash p) \<noteq> 32 then (Some p, False, Some (Errorf ''localca: root hash has wrong size %d''))
                   else (Some p, VerifyInclusion leafHash (ip_LeafIndex p) (ip_TreeSize p) proofHashes (bytes_hash (ip_RootHash p)), None)))))"

section \<open>Lemmas\<close>

interpretation octets: element octets_tlv "parse_elem 4 False" "\<lambda>h. h" "\<lambda>_. True"
proof
  fix x d rest
  assume d: "octets_tlv x = Inr d"
  then show "d \<noteq> []" by (auto simp: octets_tlv_def)
  assume "length d < 2 ^ 31"
  then have "length x < 2 ^ 31" using d length_tlv [of x 0 4 False] by (auto simp: octets_tlv_def)
  then show "parse_elem 4 False (d @ rest) = Inr (x, rest)" using d by (auto simp: octets_tlv_def parse_elem_tlv)
qed

lemma marshal_list_octets: "marshal_list octets_tlv hs = Inr (concat (map (tlv 0 4 False) hs))"
  by (induction hs) (simp_all add: octets_tlv_def)

lemma marshal_each_octets: "marshal_each octets_tlv hs = Inr (map (tlv 0 4 False) hs)"
  by (induction hs) (simp_all add: octets_tlv_def)

text \<open>Octet strings of one length are ordered as their encodings are.\<close>

lemma sort_encodings:
  assumes "\<forall>h\<in>set hs. length h = n"
  shows "sort (map (tlv 0 4 False) hs) = map (tlv 0 4 False) (sort hs)"
proof (rule properties_for_sort)
  show "mset (map (tlv 0 4 False) (sort hs)) = mset (map (tlv 0 4 False) hs)" by simp
  have "sorted_wrt (\<lambda>a b. tlv 0 4 False a \<le> tlv 0 4 False b) (sort hs)"
  proof (rule sorted_wrt_mono_rel [of _ "(\<le>)"])
    show "sorted (sort hs)" by simp
  next
    fix a b assume ab: "a \<in> set (sort hs)" "b \<in> set (sort hs)" "a \<le> b"
    have pre: "p @ a \<le> p @ b" for p :: bytes using ab(3) by (induction p) auto
    from ab assms have "length a = length b" by simp
    then show "tlv 0 4 False a \<le> tlv 0 4 False b" using pre by (simp add: tlv_def)
  qed
  then show "sorted (map (tlv 0 4 False) (sort hs))" by (simp add: sorted_wrt_map)
qed

lemma set_of_octets:
  assumes "\<forall>h\<in>set hs. length h = n" "length (concat (map (tlv 0 4 False) (sort hs))) < 2 ^ 31"
  shows "set_tlv octets_tlv hs = Inr (tlv 0 17 True (concat (map (tlv 0 4 False) (sort hs))))"
    and "parse_octets_loop (concat (map (tlv 0 4 False) (sort hs))) = Inr (sort hs)"
proof -
  show "set_tlv octets_tlv hs = Inr (tlv 0 17 True (concat (map (tlv 0 4 False) (sort hs))))"
    by (simp add: set_tlv_def marshal_each_octets sort_encodings [OF assms(1)])
  show "parse_octets_loop (concat (map (tlv 0 4 False) (sort hs))) = Inr (sort hs)"
    using octets.dec_list [OF parse_octets_loop.simps, of "sort hs"] assms(2) by (simp add: marshal_list_octets)
qed

lemma string_elem:
  assumes "utf8_tlv s = Inr d" "length d < 2 ^ 31"
  shows "parse_string_elem (d @ rest) = Inr (s, rest)"
proof -
  from assms(1) have d: "d = tlv 0 12 False (str_bytes s)" "utf8_Valid (str_bytes s)" by (auto simp: utf8_tlv_def split: if_splits)
  then have l: "length (str_bytes s) < 2 ^ 31" using assms(2) length_tlv [of "str_bytes s" 0 12 False] by simp
  have "parse_string_content 12 (str_bytes s) = Inr (str_bytes s)" using d(2) by (simp add: parse_string_content_def)
  moreover have "drop (length s) (str_bytes s @ rest) = rest" "take (length s) (str_bytes s @ rest) = str_bytes s" by simp_all
  moreover have "appendTagAndLength 0 12 False (length s) \<noteq> []" by (simp add: appendTagAndLength_def Let_def)
  ultimately show ?thesis
    using parseTagAndLength_append [of 0 12 "length s" False "str_bytes s @ rest"] l
    unfolding d(1) tlv_def by (simp add: parse_string_elem_def del: drop_append take_append)
qed

lemma length_int_content_8: "0 \<le> n \<Longrightarrow> n < 2 ^ 63 \<Longrightarrow> length (int_content n) \<le> 8"
proof -
  assume n: "0 \<le> n" "n < 2 ^ 63"
  show ?thesis
  proof (cases "n = 0")
    case False
    obtain b bs where b: "big_Bytes (nat n) = b # bs" "b \<noteq> 0"
      using big_Bytes_hd [of "nat n"] n False by (cases "big_Bytes (nat n)") auto
    have v: "unat b * 256 ^ length bs \<le> nat n" using be_nat_big_Bytes [of "nat n"] by (simp add: b be_nat_Cons)
    have "nat n < 2 ^ 63" using n by (simp add: nat_less_iff)
    have l8: "length bs < 8"
    proof (rule ccontr)
      assume "\<not> length bs < 8"
      then have "(256 :: nat) ^ 8 \<le> 256 ^ length bs" by (intro power_increasing) simp_all
      moreover have "1 \<le> unat b" using b(2) by (simp add: Suc_le_eq unat_gt_0)
      then have "1 * 256 ^ length bs \<le> unat b * 256 ^ length bs" by (rule mult_right_mono) simp
      ultimately have "(256 :: nat) ^ 8 \<le> nat n" using v by linarith
      then show False using \<open>nat n < 2 ^ 63\<close> by simp
    qed
    have "unat b < 128 \<or> length bs \<noteq> 7" using v \<open>nat n < 2 ^ 63\<close> by (cases "length bs = 7") simp_all
    with l8 have "unat b < 128 \<or> length bs \<le> 6" by linarith
    with l8 show ?thesis using n False by (auto simp: int_content_def b Let_def)
  qed (simp add: int_content_def)
qed

lemma int64_elem:
  assumes "0 \<le> n" "n < 2 ^ 63"
  shows "parse_int64_elem (tlv 0 2 False (int_content n) @ rest) = Inr (n, rest)"
  using length_int_content_8 [OF assms] assms
  by (simp add: parse_int64_elem_def parse_elem_tlv parse_int_content)

definition ip_ok :: "InclusionProofExt \<Rightarrow> bool" where
  "ip_ok p \<longleftrightarrow> 0 \<le> ip_LeafIndex p \<and> ip_LeafIndex p < 2 ^ 63 \<and> 0 \<le> ip_TreeSize p \<and> ip_TreeSize p < 2 ^ 63 \<and>
     (\<forall>h\<in>set (ip_ProofHashes p). length h = 32)"

lemma InclusionProofExt_sorted:
  assumes "asn1_Marshal_InclusionProofExt p = Inr d" "length d < 2 ^ 31" "ip_ok p"
  shows "asn1_Unmarshal_InclusionProofExt (d @ rest) = Inr (p\<lparr>ip_ProofHashes := sort (ip_ProofHashes p)\<rparr>, rest)"
proof -
  let ?hs = "concat (map (tlv 0 4 False) (sort (ip_ProofHashes p)))"
  obtain a hx b where parts: "utf8_tlv (ip_LogOrigin p) = Inr a" "set_tlv octets_tlv (ip_ProofHashes p) = Inr hx" "utf8_tlv (ip_Checkpoint p) = Inr b"
    and d: "d = seq (a @ tlv 0 2 False (int_content (ip_LeafIndex p)) @ tlv 0 2 False (int_content (ip_TreeSize p)) @
      tlv 0 4 False (ip_RootHash p) @ hx @ b)"
    using assms(1) by (auto simp: asn1_Marshal_InclusionProofExt_def split: sum.splits)
  let ?c = "a @ tlv 0 2 False (int_content (ip_LeafIndex p)) @ tlv 0 2 False (int_content (ip_TreeSize p)) @
      tlv 0 4 False (ip_RootHash p) @ hx @ b"
  have lc: "length ?c < 2 ^ 31" using assms(2) length_tlv [of ?c 0 16 True] unfolding d by linarith
  have "hx = tlv 0 17 True (concat (sort (map (tlv 0 4 False) (ip_ProofHashes p))))"
    using parts(2) by (simp add: set_tlv_def marshal_each_octets)
  then have hx: "hx = tlv 0 17 True ?hs"
    using sort_encodings [of "ip_ProofHashes p" 32] assms(3) by (simp add: ip_ok_def)
  have l: "length a < 2 ^ 31" "length (ip_RootHash p) < 2 ^ 31" "length ?hs < 2 ^ 31" "length b < 2 ^ 31"
    using lc length_tlv [of "ip_RootHash p" 0 4 False] length_tlv [of ?hs 0 17 True] by (simp_all add: hx)
  have "parse_octets_loop ?hs = Inr (sort (ip_ProofHashes p))"
    using set_of_octets(2) [OF _ l(3), of 32] assms(3) by (simp add: ip_ok_def)
  then show ?thesis
    using assms(3) parse_elem_tlv [OF _ lc, of 16 True rest] l string_elem [OF parts(1) l(1)] string_elem [OF parts(3) l(4), of "[]"]
    by (simp add: asn1_Unmarshal_InclusionProofExt_def d ip_ok_def int64_elem parse_elem_tlv hx)
qed

text \<open>
  The TBS that \<open>x509.CreateCertificate\<close> writes: fields that are not extensions, and then the
  extensions.
\<close>

definition tbs_layout :: "bytes list \<Rightarrow> Extension list \<Rightarrow> bytes \<Rightarrow> bool" where
  "tbs_layout base xs tbs \<longleftrightarrow>
     (case extensions_tlv xs of Inl _ \<Rightarrow> False | Inr e \<Rightarrow> tbs = seq (concat base @ tlv 2 3 True e)) \<and>
     list_all (\<lambda>d. one_tlv d \<and> \<not> (rv_Class (raw_of d) = 2 \<and> rv_Tag (raw_of d) = 3)) base"

lemma marshal_list_parts:
  "marshal_list enc xs = Inr d \<Longrightarrow> \<exists>ds. d = concat ds \<and> list_all2 (\<lambda>x d. enc x = Inr d) xs ds"
proof (induction xs arbitrary: d)
  case (Cons x xs)
  then obtain a b where ab: "enc x = Inr a" "marshal_list enc xs = Inr b" "d = a @ b" by (auto split: sum.splits)
  with Cons.IH obtain ds where "b = concat ds" "list_all2 (\<lambda>x d. enc x = Inr d) xs ds" by blast
  with ab show ?case by (intro exI [of _ "a # ds"]) simp
qed simp

lemma extension_tlv_oid:
  assumes "extension_tlv x = Inr d" "ext_ok x" "length d < 2 ^ 31"
  obtains c r where "d = seq c" "parse_oid_elem c = Inr (ext_Id x, r)" "length c < 2 ^ 31"
proof -
  from assms(1) obtain i r where i: "oid_tlv (ext_Id x) = Inr i" "d = seq (i @ r)"
    by (auto simp: extension_tlv_def split: sum.splits)
  then have l: "length (i @ r) < 2 ^ 31" using assms(3) length_tlv [of "i @ r" 0 16 True] unfolding i(2) by linarith
  have "parse_oid_elem (i @ r) = Inr (ext_Id x, r)"
    by (rule oid_elem [OF _ i(1)]) (use assms(2) l in \<open>simp_all add: ext_ok_def\<close>)
  with i(2) l that show ?thesis by blast
qed

definition keeps_ext :: "Extension \<Rightarrow> bool" where
  "keeps_ext x \<longleftrightarrow> ext_Id x \<noteq> OIDMTCInclusionProof"

lemma oid_ok_MTCInclusionProof: "oid_ok OIDMTCInclusionProof"
  by (simp add: oid_ok_def OIDMTCInclusionProof_def)

text \<open>Filtering the encoded extensions is filtering the extensions.\<close>

lemma filtered_parts:
  assumes "list_all2 (\<lambda>x d. extension_tlv x = Inr d) xs ds" "\<forall>x\<in>set xs. ext_ok x" "\<forall>d\<in>set ds. length d < 2 ^ 31"
  shows "marshal_list extension_tlv (filter keeps_ext xs) =
    Inr (concat (map rv_FullBytes (filter (\<lambda>e. \<not> shouldSkipExtension (rv_Bytes e)) (map raw_of ds)))) \<and>
    (\<forall>d\<in>set ds. one_tlv d)"
  using assms
proof (induction rule: list_all2_induct)
  case (Cons x xs d ds)
  then obtain c r where c: "d = seq c" "parse_oid_elem c = Inr (ext_Id x, r)" "length c < 2 ^ 31"
    using extension_tlv_oid [of x d] by auto
  then have "one_tlv d" "rv_FullBytes (raw_of d) = d" "rv_Bytes (raw_of d) = c" by (simp_all add: one_tlv_tlv)
  with Cons c(2) show ?case by (auto simp: keeps_ext_def shouldSkipExtension_def)
qed simp

lemma filterExtensions_tlv:
  assumes "extensions_tlv xs = Inr e" "\<forall>x\<in>set xs. ext_ok x" "length e < 2 ^ 31"
  shows "\<exists>f. extensions_tlv (filter keeps_ext xs) = Inr f \<and> filterExtensions e = Inr f"
proof -
  obtain ds where ds: "e = seq (concat ds)" "list_all2 (\<lambda>x d. extension_tlv x = Inr d) xs ds"
    using assms(1) marshal_list_parts [of extension_tlv xs] by (auto simp: extensions_tlv_def map_sum_def split: sum.splits)
  have l: "length (concat ds) < 2 ^ 31" using assms(3) length_tlv [of "concat ds" 0 16 True] unfolding ds(1) by linarith
  have small: "\<forall>d\<in>set ds. length d < 2 ^ 31" using l length_concat_mem [of _ ds] by fastforce
  have f: "marshal_list extension_tlv (filter keeps_ext xs) =
      Inr (concat (map rv_FullBytes (filter (\<lambda>e. \<not> shouldSkipExtension (rv_Bytes e)) (map raw_of ds))))"
    and one: "\<forall>d\<in>set ds. one_tlv d"
    using filtered_parts [OF ds(2) assms(2) small] by simp_all
  have "parse_fields (concat ds) = Inr (map raw_of ds)" using one l by (rule parse_fields_concat)
  then show ?thesis
    using Unmarshal_tlv [of 0 16 "concat ds" True "[]"] l
    by (simp add: filterExtensions_def ds(1) extensions_tlv_def f Marshal_tlv)
qed

lemma rebuildFields_append:
  "rebuildFields (xs @ ys) =
    (case rebuildFields xs of Inl e \<Rightarrow> Inl e | Inr a \<Rightarrow> (case rebuildFields ys of Inl e \<Rightarrow> Inl e | Inr b \<Rightarrow> Inr (a @ b)))"
  by (induction xs) (auto split: sum.splits)

lemma rebuildFields_base:
  "list_all (\<lambda>d. one_tlv d \<and> \<not> (rv_Class (raw_of d) = 2 \<and> rv_Tag (raw_of d) = 3)) base \<Longrightarrow>
   rebuildFields (map raw_of base) = Inr (concat base)"
  by (induction base) (auto simp: raw_of(2))

lemma StripMTCExtension_layout:
  assumes "tbs_layout base xs tbs" "length tbs < 2 ^ 31" "\<forall>x\<in>set xs. ext_ok x" "tbs_layout base (filter keeps_ext xs) tbs'"
  shows "StripMTCExtension tbs = Inr tbs'"
proof -
  obtain e where e: "extensions_tlv xs = Inr e" "tbs = seq (concat (base @ [tlv 2 3 True e]))"
    and base: "list_all (\<lambda>d. one_tlv d \<and> \<not> (rv_Class (raw_of d) = 2 \<and> rv_Tag (raw_of d) = 3)) base"
    using assms(1) by (auto simp: tbs_layout_def split: sum.splits)
  have lc: "length (concat (base @ [tlv 2 3 True e])) < 2 ^ 31"
    using assms(2) length_tlv [of "concat (base @ [tlv 2 3 True e])" 0 16 True] unfolding e(2) by linarith
  then have "length (tlv 2 3 True e) < 2 ^ 31" by simp
  then have le: "length e < 2 ^ 31" using length_tlv [of e 2 3 True] by linarith
  obtain f where f: "extensions_tlv (filter keeps_ext xs) = Inr f" "filterExtensions e = Inr f"
    using filterExtensions_tlv [OF e(1) assms(3) le] by blast
  have "parse_fields (concat (base @ [tlv 2 3 True e])) = Inr (map raw_of (base @ [tlv 2 3 True e]))"
    by (rule parse_fields_concat [OF _ lc]) (use base le in \<open>auto simp: list_all_iff one_tlv_tlv\<close>)
  moreover have "rebuildFields (map raw_of (base @ [tlv 2 3 True e])) = Inr (concat base @ tlv 2 3 True f)"
    using le by (simp add: rebuildFields_append rebuildFields_base [OF base] f(2) Marshal_tlv)
  ultimately have "StripMTCExtension tbs = Inr (seq (concat base @ tlv 2 3 True f))"
    using Unmarshal_tlv [of 0 16 "concat (base @ [tlv 2 3 True e])" True "[]"] lc
    by (simp add: StripMTCExtension_def e(2) Marshal_tlv)
  then show ?thesis using assms(4) f(1) by (simp add: tbs_layout_def)
qed

lemma le_bytes_4: "le_bytes 4 n = [of_nat n, of_nat (n div 256), of_nat (n div 65536), of_nat (n div 16777216)]"
proof -
  have "(4 :: nat) = Suc (Suc (Suc (Suc 0)))" by simp
  then show ?thesis by (simp only: le_bytes_def be_bytes.simps rev.simps append.simps rev_append) (simp add: div_mult2_eq [symmetric])
qed

lemma le_bytes_2: "le_bytes 2 2 = [2, 0]"
  by (simp add: le_bytes_def numeral_2_eq_2)

lemma BuildPrecertEntryData_log:
  "BuildPrecertEntryData tbs = le_EntryData (BuildPrecertEntry tbs ser)"
  by (simp add: BuildPrecertEntryData_def BuildPrecertEntry_def log_entry_def Let_def EntryTypePrecert_def le_bytes_4 le_bytes_2)

text \<open>
  What is documented of \<open>x509.CreateCertificate\<close> and \<open>ParseCertificate\<close>: the extensions that the
  other fields of a template give have different identifiers, the extra ones of a template are
  copied after them as they are, and the rest of the TBS does not depend on them. Extra extensions
  with the identifier of one of those replace it, and a certificate with two extensions of one
  identifier does not parse; nothing is said here of such templates, nor of certificates that do
  not parse or do not fit into \<open>2 ^ 31\<close> bytes.
\<close>

definition x509_documented :: "x509_lib \<Rightarrow> (X509Certificate \<Rightarrow> Template \<Rightarrow> bytes \<Rightarrow> bytes list) \<Rightarrow> (Template \<Rightarrow> Extension list) \<Rightarrow> bool" where
  "x509_documented lib base std \<longleftrightarrow>
     (\<forall>parent sk t key der c. let t' = t\<lparr>tp_ExtraExtensions := []\<rparr>; xs = std t' @ tp_ExtraExtensions t in
        x509_Create lib parent sk t key = Inr der \<longrightarrow> x509_Parse lib der = Inr c \<longrightarrow> length der < 2 ^ 31 \<longrightarrow> distinct (map ext_Id xs) \<longrightarrow>
        xc_Extensions c = xs \<and> list_all ext_ok xs \<and> length (xc_RawTBSCertificate c) < 2 ^ 31 \<and>
        tbs_layout (base parent t' key) xs (xc_RawTBSCertificate c)) \<and>
     (\<forall>t. list_all keeps_ext (std t) \<and> distinct (map ext_Id (std t)))"

lemma x509_documentedD:
  assumes "x509_documented lib base std" "x509_Create lib parent sk t key = Inr der" "x509_Parse lib der = Inr c" "length der < 2 ^ 31"
    and "distinct (map ext_Id (std (t\<lparr>tp_ExtraExtensions := []\<rparr>) @ tp_ExtraExtensions t))"
  shows "xc_Extensions c = std (t\<lparr>tp_ExtraExtensions := []\<rparr>) @ tp_ExtraExtensions t"
    "list_all ext_ok (std (t\<lparr>tp_ExtraExtensions := []\<rparr>) @ tp_ExtraExtensions t)" "length (xc_RawTBSCertificate c) < 2 ^ 31"
    "tbs_layout (base parent (t\<lparr>tp_ExtraExtensions := []\<rparr>) key) (std (t\<lparr>tp_ExtraExtensions := []\<rparr>) @ tp_ExtraExtensions t) (xc_RawTBSCertificate c)"
  using assms unfolding x509_documented_def Let_def by blast+

lemma extension_value_length:
  assumes "tbs_layout base (xs @ [x]) tbs"
  shows "length (ext_Value x) \<le> length tbs"
proof -
  obtain e where e: "extensions_tlv (xs @ [x]) = Inr e" "tbs = seq (concat base @ tlv 2 3 True e)"
    using assms by (auto simp: tbs_layout_def split: sum.splits)
  then obtain ds where ds: "e = seq (concat ds)" "list_all2 (\<lambda>x d. extension_tlv x = Inr d) (xs @ [x]) ds"
    using marshal_list_parts [of extension_tlv "xs @ [x]"] by (auto simp: extensions_tlv_def map_sum_def split: sum.splits)
  then obtain d where d: "d \<in> set ds" "extension_tlv x = Inr d" by (auto simp: list_all2_append1 list_all2_Cons1)
  then obtain y where y: "d = seq (y @ tlv 0 4 False (ext_Value x))"
    by (auto simp: extension_tlv_def split: sum.splits) (metis append_assoc)
  have "length (ext_Value x) \<le> length (tlv 0 4 False (ext_Value x))" by (rule length_tlv)
  also have "\<dots> \<le> length d" using length_tlv [of "y @ tlv 0 4 False (ext_Value x)" 0 16 True] unfolding y by simp
  also have "\<dots> \<le> length (concat ds)" using d(1) by (rule length_concat_mem)
  also have "\<dots> \<le> length e" unfolding ds(1) by (rule length_tlv)
  also have "\<dots> \<le> length (concat base @ tlv 2 3 True e)" using length_tlv [of e 2 3 True] by simp
  also have "\<dots> \<le> length tbs" unfolding e(2) by (rule length_tlv)
  finally show ?thesis .
qed

lemma proof_array_32: "\<forall>h\<in>set hs. length h = 32 \<Longrightarrow> proof_array hs = Inr (map bytes_hash hs)"
  by (induction hs) auto

lemma find_extension:
  assumes "list_all keeps_ext xs" "ext_Id x = OIDMTCInclusionProof"
  shows "List.find (\<lambda>e. ext_Id e = OIDMTCInclusionProof) (xs @ [x]) = Some x"
  using assms by (induction xs) (auto simp: keeps_ext_def)

section \<open>Properties\<close>


definition toy_create :: "X509Certificate \<Rightarrow> bytes \<Rightarrow> Template \<Rightarrow> bytes \<Rightarrow> goerr + bytes" where
  "toy_create parent sk t key =
     (case extensions_tlv (tp_ExtraExtensions t) of
        Inl e \<Rightarrow> Inl e
      | Inr e \<Rightarrow>
          if list_all ext_ok (tp_ExtraExtensions t) \<and> length (seq (tlv 2 3 True e)) < 2 ^ 31 then Inr (seq (tlv 2 3 True e))
          else Inl (Errorf ''x509''))"

definition toy_parse :: "bytes \<Rightarrow> goerr + X509Certificate" where
  "toy_parse der =
     (case asn1_Unmarshal_RawValue der of
        Inl e \<Rightarrow> Inl e
      | Inr (out, _) \<Rightarrow>
        (case asn1_Unmarshal_RawValue (rv_Bytes out) of
           Inl e \<Rightarrow> Inl e
         | Inr (f, _) \<Rightarrow>
           (case parse_extensions (rv_Bytes f) of
              Inl e \<Rightarrow> Inl e
            | Inr xs \<Rightarrow> Inr \<lparr>xc_RawSubjectPublicKeyInfo = [], xc_RawTBSCertificate = der, xc_Extensions = xs,
                xc_NotBefore = time_UTC 0, xc_NotAfter = time_UTC 0\<rparr>)))"

definition toy_x509 :: x509_lib where
  "toy_x509 = \<lparr>x509_Create = toy_create, x509_Parse = toy_parse\<rparr>"

text \<open>What this library makes parses, to what the law says.\<close>

lemma toy_made:
  assumes "toy_create parent sk t key = Inr der"
  shows "\<exists>c. toy_parse der = Inr c \<and> xc_Extensions c = tp_ExtraExtensions t \<and> list_all ext_ok (tp_ExtraExtensions t) \<and> length der < 2 ^ 31 \<and>
      length (xc_RawTBSCertificate c) < 2 ^ 31 \<and> tbs_layout [] (tp_ExtraExtensions t) (xc_RawTBSCertificate c)"
proof -
  from assms obtain e where e: "extensions_tlv (tp_ExtraExtensions t) = Inr e" "list_all ext_ok (tp_ExtraExtensions t)"
      "der = seq (tlv 2 3 True e)" "length der < 2 ^ 31"
    by (auto simp: toy_create_def split: sum.splits if_splits)
  then have l: "length (tlv 2 3 True e) < 2 ^ 31" "length e < 2 ^ 31"
    using length_tlv [of "tlv 2 3 True e" 0 16 True] length_tlv [of e 2 3 True] by simp_all
  have "parse_extensions e = Inr (tp_ExtraExtensions t)"
    using extensions_roundtrip [OF _ e(1) l(2), of "[]"] e(2) by (simp add: list_all_iff)
  then have "toy_parse der = Inr \<lparr>xc_RawSubjectPublicKeyInfo = [], xc_RawTBSCertificate = der, xc_Extensions = tp_ExtraExtensions t,
      xc_NotBefore = time_UTC 0, xc_NotAfter = time_UTC 0\<rparr>"
    using Unmarshal_tlv [OF _ _ l(1), of 0 16 True "[]"] Unmarshal_tlv [OF _ _ l(2), of 2 3 True "[]"]
    by (simp add: toy_parse_def e(3))
  then show ?thesis using e by (simp add: tbs_layout_def)
qed

lemma toy_x509_documented: "x509_documented toy_x509 (\<lambda>_ _ _. []) (\<lambda>_. [])"
proof -
  have "xc_Extensions c = tp_ExtraExtensions t \<and> list_all ext_ok (tp_ExtraExtensions t) \<and>
      length (xc_RawTBSCertificate c) < 2 ^ 31 \<and> tbs_layout [] (tp_ExtraExtensions t) (xc_RawTBSCertificate c)"
    if "toy_create parent sk t key = Inr der" "toy_parse der = Inr c" for parent sk t key der c
    using toy_made [OF that(1)] that(2) by auto
  then show ?thesis unfolding x509_documented_def toy_x509_def Let_def by simp
qed

definition demo_embedded :: InclusionProofExt where
  "demo_embedded = \<lparr>ip_LogOrigin = ''a'', ip_LeafIndex = 1, ip_TreeSize = 4, ip_RootHash = replicate 32 0,
     ip_ProofHashes = [replicate 32 1, replicate 32 0], ip_Checkpoint = ''b''\<rparr>"

definition demo_ca :: LocalCA where
  "demo_ca = \<lparr>ca_key = [], ca_cert = \<lparr>xc_RawSubjectPublicKeyInfo = [], xc_RawTBSCertificate = [], xc_Extensions = [],
     xc_NotBefore = time_UTC 0, xc_NotAfter = time_UTC 0\<rparr>, ca_certDER = [], ca_validity = defaultValidity\<rparr>"

lemma oid_tlv_MTCInclusionProof: "oid_tlv OIDMTCInclusionProof = Inr [6, 10, 43, 6, 1, 4, 1, 134, 141, 31, 1, 1]"
  by (simp add: oid_tlv_def oid_content_def OIDMTCInclusionProof_def appendBase128Int_def base128_hi.simps tlv_def appendTagAndLength_def)

lemma sort_demo: "sort [replicate 32 1, replicate 32 (0 :: byte)] = [replicate 32 0, replicate 32 1]"
  by (simp add: eval_nat_numeral)

lemma demo_issue:
  "\<exists>pr fin. IssuePrecert toy_x509 demo_ca (Inr 7) 0 demo_csr [''a''] 0 = Inr pr \<and> IssueWithProof toy_x509 demo_ca demo_csr pr demo_embedded = Inr fin"
proof -
  have "case asn1_Marshal_InclusionProofExt demo_embedded of Inr v \<Rightarrow> length v < 1000 | _ \<Rightarrow> False"
    unfolding demo_embedded_def asn1_Marshal_InclusionProofExt_def set_tlv_def marshal_each_octets
    by code_simp
  then obtain v where v: "asn1_Marshal_InclusionProofExt demo_embedded = Inr v" "length v < 1000" by (auto split: sum.splits)
  let ?x = "\<lparr>ext_Id = OIDMTCInclusionProof, ext_Critical = False, ext_Value = v\<rparr>" and ?i = "[6, 10, 43, 6, 1, 4, 1, 134, 141, 31, 1, 1 :: byte]"
  have e: "extensions_tlv [?x] = Inr (seq (seq (?i @ tlv 0 4 False v)))"
    by (simp add: extensions_tlv_def extension_tlv_def oid_tlv_MTCInclusionProof)
  have l1: "length (?i @ tlv 0 4 False v) \<le> 1100" using length_tlv_le [of 4 v 0 False] v(2) by simp
  then have l2: "length (seq (?i @ tlv 0 4 False v)) \<le> 1110" using length_tlv_le [of 16 "?i @ tlv 0 4 False v" 0 True] by simp
  then have l3: "length (seq (seq (?i @ tlv 0 4 False v))) \<le> 1120" using length_tlv_le [of 16 "seq (?i @ tlv 0 4 False v)" 0 True] by simp
  then have l4: "length (tlv 2 3 True (seq (seq (?i @ tlv 0 4 False v)))) \<le> 1130"
    using length_tlv_le [of 3 "seq (seq (?i @ tlv 0 4 False v))" 2 True] by simp
  then have l5: "length (seq (tlv 2 3 True (seq (seq (?i @ tlv 0 4 False v))))) < 2 ^ 31"
    using length_tlv_le [of 16 "tlv 2 3 True (seq (seq (?i @ tlv 0 4 False v)))" 0 True] by simp
  have fin: "\<exists>fin. toy_create parent sk (t\<lparr>tp_ExtraExtensions := [?x]\<rparr>) key = Inr fin" for parent sk t key
    using e l5 oid_ok_MTCInclusionProof by (simp add: toy_create_def ext_ok_def)
  have e0: "extensions_tlv [] = Inr [48, 0]" by code_simp
  have "length (seq (tlv 2 3 True [48, 0])) = 6" by code_simp
  with e0 have pre: "toy_create parent sk (t\<lparr>tp_ExtraExtensions := []\<rparr>) key = Inr (seq (tlv 2 3 True [48, 0]))" for parent sk t key
    by (simp add: toy_create_def)
  have parse: "\<exists>c. toy_parse (seq (tlv 2 3 True [48, 0])) = Inr c"
    using toy_made pre by blast
  obtain pr where pr: "IssuePrecert toy_x509 demo_ca (Inr 7) 0 demo_csr [''a''] 0 = Inr pr"
    using parse pre [of "ca_cert demo_ca" "ca_key demo_ca" "leaf_template s cn org co nb na dns []" for s cn org co nb na dns]
    by (auto simp: IssuePrecert_def toy_x509_def leaf_template_def Let_def)
  moreover have "\<exists>fin. toy_create parent sk (leaf_template s cn org co nb na dns [?x]) key = Inr fin" for parent sk s cn org co nb na dns key
    using fin [of parent sk "leaf_template s cn org co nb na dns []" key] by (simp add: leaf_template_def)
  then obtain fd where "toy_create (ca_cert demo_ca) (ca_key demo_ca) (leaf_template (pr_Serial pr) (tp_CommonName (pr_Template pr)) (tp_Organization (pr_Template pr))
      (tp_Country (pr_Template pr)) (pr_NotBefore pr) (pr_NotAfter pr) (tp_DNSNames (pr_Template pr)) [?x]) (csr_RawSubjectPublicKeyInfo demo_csr) = Inr fd"
    by blast
  then have "IssueWithProof toy_x509 demo_ca demo_csr pr demo_embedded = Inr fd"
    using v(1) by (simp add: IssueWithProof_def MarshalExtension_def toy_x509_def Let_def)
  ultimately show ?thesis by blast
qed


lemma IssueMTCCert_eq:
  assumes "csr_Subject csr = \<lparr>nm_Country = country, nm_Organization = org, nm_OrganizationalUnit = [], nm_Locality = [],
      nm_Province = [], nm_StreetAddress = [], nm_PostalCode = [], nm_SerialNumber = '''', nm_CommonName = cn\<rparr>" "cn \<noteq> ''''"
    and "case name_tlv (csr_Subject csr) of Inl _ \<Rightarrow> False | Inr _ \<Rightarrow> True"
  shows "IssueMTCCert ca clock csr dnsNames 0 idx prf logID =
    BuildMTCCertFromCSR csr logID (time_UTC (truncate_second clock)) (time_UTC (truncate_second clock + ca_validity ca)) dnsNames idx prf"
proof -
  have "mtc_subject csr dnsNames = csr_Subject csr"
    using assms(1,2) by (simp add: mtc_subject_def commonNameFromCSR_def)
  moreover obtain iss xs s where "BuildTrustAnchorDN logID = Some (Inr iss)" "BuildCertExtensions dnsNames = Inr xs" "name_tlv (csr_Subject csr) = Inr s"
    using BuildTrustAnchorDN_total [of logID] standard_extensions_total [of dnsNames] assms(3)
    by (auto simp: BuildCertExtensions_eq split: sum.splits)
  ultimately show ?thesis by (simp add: IssueMTCCert_def BuildMTCCertFromCSR_def Let_def)
qed

text \<open>
  \<open>IssueMTCCert\<close> builds the certificate of \<open>BuildMTCCertFromCSR\<close>, the one that matches the
  logged entry, when the request's subject has a common name and otherwise only organizations
  and countries, and the CA's validity is used.
\<close>

lemma IssueMTCCert_is_BuildMTCCertFromCSR:
  assumes "csr_Subject csr = \<lparr>nm_Country = country, nm_Organization = org, nm_OrganizationalUnit = [], nm_Locality = [],
      nm_Province = [], nm_StreetAddress = [], nm_PostalCode = [], nm_SerialNumber = '''', nm_CommonName = cn\<rparr>" "cn \<noteq> ''''"
    and "case name_tlv (csr_Subject csr) of Inl _ \<Rightarrow> False | Inr _ \<Rightarrow> True"
  shows "IssueMTCCert ca clock csr dnsNames 0 idx prf logID =
    BuildMTCCertFromCSR csr logID (time_UTC (truncate_second clock)) (time_UTC (truncate_second clock + ca_validity ca)) dnsNames idx prf"
  using IssueMTCCert_eq [OF assms] .

lemma IssueMTCCert_is_BuildMTCCertFromCSR_witness:
  "IssueMTCCert demo_ca 1772323200123456789 (demo_csr\<lparr>csr_Subject := demo_name\<lparr>nm_CommonName := ''a''\<rparr>\<rparr>) [''a''] 0 1 (Some demo_prf) ''1'' =
     BuildMTCCertFromCSR (demo_csr\<lparr>csr_Subject := demo_name\<lparr>nm_CommonName := ''a''\<rparr>\<rparr>) ''1'' (time_UTC 1772323200000000000)
       (time_UTC 1780099200000000000) [''a''] 1 (Some demo_prf)"
proof -
  have "case name_tlv (demo_name\<lparr>nm_CommonName := ''a''\<rparr>) of Inl _ \<Rightarrow> False | Inr _ \<Rightarrow> True" by code_simp
  then show ?thesis
    using IssueMTCCert_is_BuildMTCCertFromCSR [of "demo_csr\<lparr>csr_Subject := demo_name\<lparr>nm_CommonName := ''a''\<rparr>\<rparr>" "[]" "[]" "''a''"
        demo_ca 1772323200123456789 "[''a'']" 1 "Some demo_prf" "''1''"]
    by (simp add: demo_name_def truncate_second_def demo_ca_def defaultValidity_def)
qed

end
