(* ===== verification/Threads.thy ===== *)
theory Threads
  imports Prelude
begin

text \<open>
  Goroutines that share a state. A thread is the tree of what it does next: it ends, it does
  one atomic operation on the shared state and goes on with what it saw, it asks something of
  the world outside (a clock, a resolver, another server) and goes on with the answer, or it
  starts another goroutine. A system is the shared state with the list of its threads, and its
  steps interleave the operations of the threads in any order.

  The locale \<open>guarantee\<close> holds the rule by which invariants are shown: every operation of every
  thread keeps the invariant and respects a preorder on states, and each thread may assume both
  of the others.
\<close>

section \<open>Threads and systems\<close>

datatype ('w, 'q, 'a, 'j, 'r) thread =
    Finish 'r
  | Op "'w \<Rightarrow> 'w" "'w \<Rightarrow> ('w, 'q, 'a, 'j, 'r) thread"
  | Ask 'q "'a \<Rightarrow> ('w, 'q, 'a, 'j, 'r) thread"
  | Go 'j "('w, 'q, 'a, 'j, 'r) thread"

text \<open>What the threads run in: the code of a goroutine, the possible answers and their record.\<close>

record ('w, 'q, 'a, 'j, 'r) machine =
  goroutine :: "'j \<Rightarrow> ('w, 'q, 'a, 'j, 'r) thread"
  answers :: "'q \<Rightarrow> 'a \<Rightarrow> bool"
  heard :: "'q \<Rightarrow> 'a \<Rightarrow> 'w \<Rightarrow> 'w"
  arrives :: "('w, 'q, 'a, 'j, 'r) thread \<Rightarrow> bool"
  outside :: "'w \<Rightarrow> 'w \<Rightarrow> bool"

inductive thread_step ::
  "('w, 'q, 'a, 'j, 'r) machine \<Rightarrow> 'w \<times> ('w, 'q, 'a, 'j, 'r) thread list \<Rightarrow> 'w \<times> ('w, 'q, 'a, 'j, 'r) thread list \<Rightarrow> bool"
  for M where
  step_arrive: "arrives M t \<Longrightarrow> thread_step M (w, ts) (w, ts @ [t])"
| step_op: "i < length ts \<Longrightarrow> ts ! i = Op f k \<Longrightarrow> thread_step M (w, ts) (f w, ts[i := k w])"
| step_ask: "i < length ts \<Longrightarrow> ts ! i = Ask q k \<Longrightarrow> answers M q a \<Longrightarrow> thread_step M (w, ts) (heard M q a w, ts[i := k a])"
| step_go: "i < length ts \<Longrightarrow> ts ! i = Go j k \<Longrightarrow> thread_step M (w, ts) (w, ts[i := k] @ [goroutine M j])"
| step_outside: "outside M w w' \<Longrightarrow> thread_step M (w, ts) (w', ts)"

inductive reaches ::
  "('w, 'q, 'a, 'j, 'r) machine \<Rightarrow> 'w \<times> ('w, 'q, 'a, 'j, 'r) thread list \<Rightarrow> 'w \<times> ('w, 'q, 'a, 'j, 'r) thread list \<Rightarrow> bool"
  for M where
  reaches_refl: "reaches M c c"
| reaches_step: "reaches M c c' \<Longrightarrow> thread_step M c' c'' \<Longrightarrow> reaches M c c''"

lemma reaches_trans: "reaches M c' c'' \<Longrightarrow> reaches M c c' \<Longrightarrow> reaches M c c''"
  by (induction rule: reaches.induct) (auto intro: reaches.intros)

lemma reaches_first: "thread_step M c c' \<Longrightarrow> reaches M c' c'' \<Longrightarrow> reaches M c c''"
  by (rule reaches_trans) (auto intro: reaches.intros)

text \<open>
  One thread alone, with its questions answered from a list: its result, the state, the
  goroutines it started and the answers left over. It stops early when the answers run out.
\<close>

primrec run ::
  "('w, 'q, 'a, 'j, 'r) machine \<Rightarrow> ('w, 'q, 'a, 'j, 'r) thread \<Rightarrow> 'w \<Rightarrow> 'a list \<Rightarrow> 'r option \<times> 'w \<times> 'j list \<times> 'a list" where
  "run M (Finish r) w as = (Some r, w, [], as)"
| "run M (Op f k) w as = run M (k w) (f w) as"
| "run M (Ask q k) w as =
     (case as of [] \<Rightarrow> (None, w, [], []) | a # as' \<Rightarrow> run M (k a) (heard M q a w) as')"
| "run M (Go j k) w as = (case run M k w as of (r, w', js, as') \<Rightarrow> (r, w', j # js, as'))"

text \<open>The questions that were asked on the way are answered properly.\<close>

primrec fair_run :: "('w, 'q, 'a, 'j, 'r) machine \<Rightarrow> ('w, 'q, 'a, 'j, 'r) thread \<Rightarrow> 'w \<Rightarrow> 'a list \<Rightarrow> bool" where
  "fair_run M (Finish r) w as = True"
| "fair_run M (Op f k) w as = fair_run M (k w) (f w) as"
| "fair_run M (Ask q k) w as =
     (case as of [] \<Rightarrow> True | a # as' \<Rightarrow> answers M q a \<and> fair_run M (k a) (heard M q a w) as')"
| "fair_run M (Go j k) w as = fair_run M k w as"

text \<open>A thread that runs alone to its end is an execution of the system.\<close>

lemma run_reaches:
  assumes "run M t w as = (Some r, w', js, as')" "fair_run M t w as" "i < length ts" "ts ! i = t"
  shows "reaches M (w, ts) (w', ts[i := Finish r] @ map (goroutine M) js)"
  using assms
proof (induction t arbitrary: w as ts js)
  case (Finish r0)
  then have "ts[i := Finish r] = ts" by (metis Pair_inject list_update_id option.inject run.simps(1))
  with Finish show ?case by (auto intro: reaches.intros)
next
  case (Op f k)
  then have "reaches M (f w, ts[i := k w]) (w', (ts[i := k w])[i := Finish r] @ map (goroutine M) js)"
    by (intro Op.IH) auto
  with Op.prems show ?case by (auto intro: reaches_first step_op)
next
  case (Ask q k)
  then obtain a as1 where a: "as = a # as1" "run M (k a) (heard M q a w) as1 = (Some r, w', js, as')"
      "answers M q a" "fair_run M (k a) (heard M q a w) as1"
    by (auto split: list.splits)
  then have "reaches M (heard M q a w, ts[i := k a]) (w', (ts[i := k a])[i := Finish r] @ map (goroutine M) js)"
    using Ask.prems by (intro Ask.IH) auto
  with Ask.prems a show ?case by (auto intro: reaches_first step_ask)
next
  case (Go j k)
  then obtain js1 where js: "js = j # js1" "run M k w as = (Some r, w', js1, as')"
    by (auto split: prod.splits)
  let ?ts = "ts[i := k] @ [goroutine M j]"
  have "reaches M (w, ?ts) (w', ?ts[i := Finish r] @ map (goroutine M) js1)"
    using Go.prems js by (intro Go.IH) (auto simp: nth_append)
  moreover have "thread_step M (w, ts) (w, ?ts)" using Go.prems by (intro step_go) auto
  ultimately show ?case
    using Go.prems js by (auto intro: reaches_first simp: list_update_append)
qed

text \<open>A goroutine that was started and runs alone to its end.\<close>

lemma run_reaches_last:
  assumes "run M t w as = (Some r, w', js, as')" "fair_run M t w as"
  shows "reaches M (w, ts @ [t]) (w', ts @ [Finish r] @ map (goroutine M) js)"
  using run_reaches [OF assms, of "length ts" "ts @ [t]"] by simp

lemma arrive_and_run:
  assumes "arrives M t" "run M t w as = (Some r, w', js, as')" "fair_run M t w as"
  shows "reaches M (w, ts) (w', ts @ [Finish r] @ map (goroutine M) js)"
proof -
  have "reaches M (w, ts) (w, ts @ [t])" using assms(1) by (auto intro: reaches.intros step_arrive)
  then show ?thesis using run_reaches_last [OF assms(2,3)] reaches_trans by blast
qed

section \<open>Invariants of systems\<close>

text \<open>
  A thread is safe in a state when each of its operations keeps the invariant and respects the
  preorder, whatever the other threads have done before it within the same bounds, and every
  goroutine it starts finds its precondition.
\<close>

primrec safe ::
  "('w, 'q, 'a, 'j, 'r) machine \<Rightarrow> ('w \<Rightarrow> bool) \<Rightarrow> ('w \<Rightarrow> 'w \<Rightarrow> bool) \<Rightarrow> ('j \<Rightarrow> 'w \<Rightarrow> bool) \<Rightarrow> ('w, 'q, 'a, 'j, 'r) thread \<Rightarrow> 'w \<Rightarrow> bool" where
  "safe M I G J (Finish r) w = True"
| "safe M I G J (Op f k) w = (\<forall>w'. G w w' \<and> I w' \<longrightarrow> I (f w') \<and> G w' (f w') \<and> safe M I G J (k w') (f w'))"
| "safe M I G J (Ask q k) w =
     (\<forall>w' a. G w w' \<and> I w' \<and> answers M q a \<longrightarrow>
        I (heard M q a w') \<and> G w' (heard M q a w') \<and> safe M I G J (k a) (heard M q a w'))"
| "safe M I G J (Go j k) w = (\<forall>w'. G w w' \<and> I w' \<longrightarrow> J j w' \<and> safe M I G J k w')"

locale guarantee =
  fixes M :: "('w, 'q, 'a, 'j, 'r) machine"
    and I :: "'w \<Rightarrow> bool" and G :: "'w \<Rightarrow> 'w \<Rightarrow> bool" and J :: "'j \<Rightarrow> 'w \<Rightarrow> bool"
  assumes G_refl: "G w w"
    and G_trans: "G w w' \<Longrightarrow> G w' w'' \<Longrightarrow> G w w''"
    and goroutine_safe: "I w \<Longrightarrow> J j w \<Longrightarrow> safe M I G J (goroutine M j) w"
    and arrival_safe: "arrives M t \<Longrightarrow> I w \<Longrightarrow> safe M I G J t w"
    and outside_safe: "outside M w w' \<Longrightarrow> I w \<Longrightarrow> I w' \<and> G w w'"
begin

lemma safe_mono: "safe M I G J t w \<Longrightarrow> G w w' \<Longrightarrow> safe M I G J t w'"
  by (cases t) (simp_all, (meson G_trans)+)

lemma step_safe:
  assumes "thread_step M (w, ts) (w', ts')" "I w" "\<forall>t\<in>set ts. safe M I G J t w"
  shows "I w' \<and> G w w' \<and> (\<forall>t\<in>set ts'. safe M I G J t w')"
  using assms(1)
proof cases
  case (step_arrive t)
  then show ?thesis using assms(2,3) arrival_safe G_refl by auto
next
  case (step_op i f k)
  then have s: "safe M I G J (Op f k) w" using assms(3) by (metis nth_mem)
  then have *: "I w'" "G w w'" "safe M I G J (k w) w'" using assms(2) G_refl step_op(1) by auto
  then show ?thesis using assms(3) safe_mono step_op(2) set_update_subset_insert by fastforce
next
  case (step_ask i q k a)
  then have s: "safe M I G J (Ask q k) w" using assms(3) by (metis nth_mem)
  then have *: "I w'" "G w w'" "safe M I G J (k a) w'" using assms(2) G_refl step_ask by auto
  then show ?thesis using assms(3) safe_mono step_ask(2) set_update_subset_insert by fastforce
next
  case (step_go i j k)
  then have s: "safe M I G J (Go j k) w" using assms(3) by (metis nth_mem)
  then have "J j w" "safe M I G J k w" using assms(2) G_refl by auto
  then have "safe M I G J (goroutine M j) w" "safe M I G J k w" using goroutine_safe assms(2) by auto
  then show ?thesis
    using assms(2,3) step_go(1,2) G_refl set_update_subset_insert [of ts i k] by auto
next
  case step_outside
  then show ?thesis using assms(2,3) outside_safe safe_mono by blast
qed

theorem reaches_safe:
  assumes "reaches M (w, ts) (w', ts')" "I w" "\<forall>t\<in>set ts. safe M I G J t w"
  shows "I w' \<and> G w w' \<and> (\<forall>t\<in>set ts'. safe M I G J t w')"
  using assms
proof (induction "(w, ts)" "(w', ts')" arbitrary: w' ts' rule: reaches.induct)
  case reaches_refl
  then show ?case by (simp add: G_refl)
next
  case (reaches_step c')
  obtain w1 ts1 where c': "c' = (w1, ts1)" by (cases c')
  with reaches_step have *: "I w1" "G w w1" "\<forall>t\<in>set ts1. safe M I G J t w1" by blast+
  with step_safe [of w1 ts1 w' ts'] reaches_step(3) c' have "I w' \<and> G w1 w' \<and> (\<forall>t\<in>set ts'. safe M I G J t w')" by blast
  with *(2) show ?case using G_trans by blast
qed

end

end
