(* ===== verification/Json.thy ===== *)
theory Json
  imports Store GoStrings Asn1Values
begin

text \<open>
  \<open>encoding/json\<close> as the ACME server uses it: reading a document and decoding it into the
  fields of a struct. Keys match the names of fields regardless of case, and of several matching
  members the last one counts. The nesting limit of the scanner is not modelled.

  The parsers take a bound on their recursion, which \<open>json_Unmarshal\<close> derives from the length
  of the input; \<open>json_roundtrip\<close> shows for the documents that \<open>json_text\<close> writes that it is enough.
\<close>

section \<open>Reading\<close>

definition skip_ws :: "string \<Rightarrow> string" where
  "skip_ws s = dropWhile (\<lambda>c. c \<in> set [CHR '' '', CHR 0x09, CHR 0x0A, CHR 0x0D]) s"

text \<open>The next character after white space must be the given one.\<close>

definition expect :: "char \<Rightarrow> string \<Rightarrow> string option" where
  "expect x s = (case skip_ws s of [] \<Rightarrow> None | c # r \<Rightarrow> if c = x then Some r else None)"

text \<open>The length of the valid UTF-8 sequence at the head of a string, zero for none.\<close>

definition rune_len :: "string \<Rightarrow> nat" where
  "rune_len s =
     (let b = (of_char (hd s) :: nat);
          k = (if b < 0x80 then 1 else if b < 0xE0 then 2 else if b < 0xF0 then 3 else 4) in
      if k \<le> length s \<and> utf8_Valid (str_bytes (take k s)) then k else 0)"

definition rune_error :: string where
  "rune_error = [CHR 0xEF, CHR 0xBF, CHR 0xBD]"

text \<open>\<open>getu4\<close>, after the \<open>u\<close> of an escape.\<close>

definition getu4 :: "string \<Rightarrow> nat option" where
  "getu4 s =
     (case map hex_val (take 4 s) of
        [Some a, Some b, Some c, Some d] \<Rightarrow> Some (((a * 16 + b) * 16 + c) * 16 + d)
      | _ \<Rightarrow> None)"

definition simple_escape :: "char \<Rightarrow> char option" where
  "simple_escape c = map_of [(CHR 0x22, CHR 0x22), (CHR 0x5C, CHR 0x5C), (CHR ''/'', CHR ''/''), (CHR ''b'', CHR 0x08),
     (CHR ''f'', CHR 0x0C), (CHR ''n'', CHR 0x0A), (CHR ''r'', CHR 0x0D), (CHR ''t'', CHR 0x09)] c"

definition rune_str :: "nat \<Rightarrow> string" where
  "rune_str r = bytes_str (utf8_rune r)"

text \<open>An escape with \<open>u\<close>: what it stands for and how much of the input it takes.\<close>

definition u_escape :: "string \<Rightarrow> (string \<times> nat) option" where
  "u_escape s =
     (case getu4 s of
        None \<Rightarrow> None
      | Some u \<Rightarrow>
        if 0xD800 \<le> u \<and> u < 0xE000 then
          (if u < 0xDC00 \<and> take 2 (drop 4 s) = [CHR 0x5C, CHR ''u''] then
             (case getu4 (drop 6 s) of
                None \<Rightarrow> Some (rune_error, 4)
              | Some v \<Rightarrow> if 0xDC00 \<le> v \<and> v < 0xE000
                  then Some (rune_str ((u - 0xD800) * 1024 + (v - 0xDC00) + 0x10000), 10) else Some (rune_error, 4))
           else Some (rune_error, 4))
        else Some (rune_str u, 4))"

text \<open>A string literal after its opening quote.\<close>

function json_str :: "string \<Rightarrow> (string \<times> string) option" where
  "json_str s =
     (case s of
        [] \<Rightarrow> None
      | c # r \<Rightarrow>
        if c = CHR 0x22 then Some ([], r)
        else if c = CHR 0x5C then
          (case r of
             [] \<Rightarrow> None
           | e # r' \<Rightarrow>
             if e = CHR ''u'' then
               (case u_escape r' of
                  None \<Rightarrow> None
                | Some (t, n) \<Rightarrow> map_option (apfst ((@) t)) (json_str (drop n r')))
             else
               (case simple_escape e of
                  None \<Rightarrow> None
                | Some x \<Rightarrow> map_option (apfst ((#) x)) (json_str r')))
        else if (of_char c :: nat) < 0x20 then None
        else if rune_len s = 0 then map_option (apfst ((@) rune_error)) (json_str r)
        else map_option (apfst ((@) (take (rune_len s) s))) (json_str (drop (rune_len s) s)))"
  by pat_completeness auto
termination by (relation "measure length") auto

declare json_str.simps [simp del]

definition json_number :: "string \<Rightarrow> (json \<times> string) option" where
  "json_number s =
     (let neg = (s \<noteq> [] \<and> hd s = CHR ''-''); r = (if neg then tl s else s);
          ds = takeWhile is_digit r; r1 = dropWhile is_digit r;
          frac = (r1 \<noteq> [] \<and> hd r1 = CHR ''.'');
          fs = (if frac then takeWhile is_digit (tl r1) else []); r2 = (if frac then dropWhile is_digit (tl r1) else r1);
          expo = (r2 \<noteq> [] \<and> (hd r2 = CHR ''e'' \<or> hd r2 = CHR ''E''));
          r3 = (if expo then (if tl r2 \<noteq> [] \<and> (hd (tl r2) = CHR ''+'' \<or> hd (tl r2) = CHR ''-'') then tl (tl r2) else tl r2) else r2);
          es = (if expo then takeWhile is_digit r3 else []); r4 = (if expo then dropWhile is_digit r3 else r3) in
      if ds = [] \<or> hd ds = CHR ''0'' \<and> length ds \<noteq> 1 \<or> frac \<and> fs = [] \<or> expo \<and> es = [] then None
      else if frac \<or> expo then Some (JReal (take (length s - length r4) s), r4)
      else Some (JNum (if neg then - int (digits_nat ds) else int (digits_nat ds)), r4))"

fun json_value :: "nat \<Rightarrow> string \<Rightarrow> (json \<times> string) option"
  and json_elems :: "nat \<Rightarrow> string \<Rightarrow> (json list \<times> string) option"
  and json_members :: "nat \<Rightarrow> string \<Rightarrow> ((string \<times> json) list \<times> string) option" where
  "json_value 0 s = None"
| "json_value (Suc n) s =
     (case skip_ws s of
        [] \<Rightarrow> None
      | c # r \<Rightarrow>
        if c = CHR ''{'' then
          (case expect CHR ''}'' r of Some r' \<Rightarrow> Some (JObj [], r') | None \<Rightarrow> map_option (apfst JObj) (json_members n r))
        else if c = CHR ''['' then
          (case expect CHR '']'' r of Some r' \<Rightarrow> Some (JArr [], r') | None \<Rightarrow> map_option (apfst JArr) (json_elems n r))
        else if c = CHR 0x22 then map_option (apfst JStr) (json_str r)
        else if HasPrefix (c # r) ''true'' then Some (JBool True, drop 3 r)
        else if HasPrefix (c # r) ''false'' then Some (JBool False, drop 4 r)
        else if HasPrefix (c # r) ''null'' then Some (JNull, drop 3 r)
        else json_number (c # r))"
| "json_elems 0 s = None"
| "json_elems (Suc n) s =
     (case json_value n s of
        None \<Rightarrow> None
      | Some (v, r) \<Rightarrow>
        (case expect CHR '']'' r of
           Some r' \<Rightarrow> Some ([v], r')
         | None \<Rightarrow>
           (case expect CHR '','' r of
              None \<Rightarrow> None
            | Some r' \<Rightarrow> map_option (apfst ((#) v)) (json_elems n r'))))"
| "json_members 0 s = None"
| "json_members (Suc n) s =
     (case expect CHR 0x22 s of
        None \<Rightarrow> None
      | Some r \<Rightarrow>
        (case json_str r of
           None \<Rightarrow> None
         | Some (k, r1) \<Rightarrow>
           (case expect CHR '':'' r1 of
              None \<Rightarrow> None
            | Some r2 \<Rightarrow>
              (case json_value n r2 of
                 None \<Rightarrow> None
               | Some (v, r3) \<Rightarrow>
                 (case expect CHR ''}'' r3 of
                    Some r' \<Rightarrow> Some ([(k, v)], r')
                  | None \<Rightarrow>
                    (case expect CHR '','' r3 of
                       None \<Rightarrow> None
                     | Some r' \<Rightarrow> map_option (apfst ((#) (k, v))) (json_members n r')))))))"

definition json_Unmarshal :: "bytes \<Rightarrow> goerr + json" where
  "json_Unmarshal bs =
     (case json_value (2 * length bs + 2) (bytes_str bs) of
        None \<Rightarrow> Inl (Errorf ''invalid character'')
      | Some (v, r) \<Rightarrow> if skip_ws r = [] then Inr v else Inl (Errorf ''invalid character after top-level value''))"

section \<open>Decoding into structs\<close>

definition type_error :: goerr where
  "type_error = Errorf ''json: cannot unmarshal''"

text \<open>The members of the document that is decoded into a struct; \<open>null\<close> leaves it as it is.\<close>

definition dec_struct :: "json \<Rightarrow> goerr + (string \<times> json) list" where
  "dec_struct j = (case j of JObj kvs \<Rightarrow> Inr kvs | JNull \<Rightarrow> Inr [] | _ \<Rightarrow> Inl type_error)"

text \<open>One field: every matching member is stored in turn.\<close>

primrec dec_field :: "('a \<Rightarrow> json \<Rightarrow> goerr + 'a) \<Rightarrow> string \<Rightarrow> 'a \<Rightarrow> (string \<times> json) list \<Rightarrow> goerr + 'a" where
  "dec_field f name old [] = Inr old"
| "dec_field f name old (kv # kvs) =
     (if ToLower (fst kv) = ToLower name then (case f old (snd kv) of Inl e \<Rightarrow> Inl e | Inr v \<Rightarrow> dec_field f name v kvs)
      else dec_field f name old kvs)"

definition dec_string :: "string \<Rightarrow> json \<Rightarrow> goerr + string" where
  "dec_string old j = (case j of JStr s \<Rightarrow> Inr s | JNull \<Rightarrow> Inr old | _ \<Rightarrow> Inl type_error)"

definition dec_bool :: "bool \<Rightarrow> json \<Rightarrow> goerr + bool" where
  "dec_bool old j = (case j of JBool b \<Rightarrow> Inr b | JNull \<Rightarrow> Inr old | _ \<Rightarrow> Inl type_error)"

text \<open>\<open>json.RawMessage\<close>: \<open>None\<close> is the empty message.\<close>

definition dec_raw :: "json option \<Rightarrow> json \<Rightarrow> goerr + json option" where
  "dec_raw old j = Inr (Some j)"

primrec dec_each :: "(json \<Rightarrow> goerr + 'a) \<Rightarrow> json list \<Rightarrow> goerr + 'a list" where
  "dec_each f [] = Inr []"
| "dec_each f (j # js) =
     (case f j of Inl e \<Rightarrow> Inl e | Inr v \<Rightarrow> (case dec_each f js of Inl e \<Rightarrow> Inl e | Inr vs \<Rightarrow> Inr (v # vs)))"

text \<open>A slice; \<open>null\<close> makes it nil.\<close>

definition dec_slice :: "(json \<Rightarrow> goerr + 'a) \<Rightarrow> 'a list \<Rightarrow> json \<Rightarrow> goerr + 'a list" where
  "dec_slice f old j = (case j of JArr js \<Rightarrow> dec_each f js | JNull \<Rightarrow> Inr [] | _ \<Rightarrow> Inl type_error)"

text \<open>One string field of a document.\<close>

definition string_field :: "string \<Rightarrow> json \<Rightarrow> goerr + string" where
  "string_field name j = (case dec_struct j of Inl e \<Rightarrow> Inl e | Inr kvs \<Rightarrow> dec_field dec_string name '''' kvs)"

section \<open>Writing, and reading it back\<close>

text \<open>A writer for documents of ASCII strings and whole numbers, as a client may use it.\<close>

definition json_char :: "char \<Rightarrow> string" where
  "json_char c =
     (if c = CHR 0x22 \<or> c = CHR 0x5C then [CHR 0x5C, c]
      else if (of_char c :: nat) < 0x20 then [CHR 0x5C, CHR ''u'', CHR ''0'', CHR ''0'', hex_digit (of_char c div 16), hex_digit (of_char c mod 16)]
      else [c])"

definition json_quote :: "string \<Rightarrow> string" where
  "json_quote s = CHR 0x22 # concat (map json_char s) @ [CHR 0x22]"

definition member_text :: "string \<times> string \<Rightarrow> string" where
  "member_text kt = json_quote (fst kt) @ CHR '':'' # snd kt"

primrec json_text :: "json \<Rightarrow> string" where
  "json_text JNull = ''null''"
| "json_text (JBool b) = (if b then ''true'' else ''false'')"
| "json_text (JNum n) = dec_int n"
| "json_text (JReal s) = s"
| "json_text (JStr s) = json_quote s"
| "json_text (JTime t) = dec_int t"
| "json_text (JArr js) = CHR ''['' # Join '','' (map json_text js) @ '']''"
| "json_text (JObj kvs) = CHR ''{'' # Join '','' (map member_text (map (map_prod (\<lambda>k. k) json_text) kvs)) @ ''}''"

definition ascii :: "string \<Rightarrow> bool" where
  "ascii s \<longleftrightarrow> list_all (\<lambda>c. (of_char c :: nat) < 128) s"

primrec plain :: "json \<Rightarrow> bool" where
  "plain JNull = True"
| "plain (JBool b) = True"
| "plain (JNum n) = True"
| "plain (JReal s) = False"
| "plain (JStr s) = ascii s"
| "plain (JTime t) = False"
| "plain (JArr js) = list_all (\<lambda>b. b) (map plain js)"
| "plain (JObj kvs) = list_all (\<lambda>(k, b). ascii k \<and> b) (map (map_prod (\<lambda>k. k) plain) kvs)"

text \<open>What follows a document in an enclosing one, or nothing.\<close>

definition ends_value :: "string \<Rightarrow> bool" where
  "ends_value s \<longleftrightarrow> s = [] \<or> hd s \<in> {CHR '','', CHR '']'', CHR ''}''}"

lemma skip_ws_hd [simp]: "c \<notin> {CHR '' '', CHR 0x09, CHR 0x0A, CHR 0x0D} \<Longrightarrow> skip_ws (c # s) = c # s"
  by (simp add: skip_ws_def)

lemma skip_ws_Nil [simp]: "skip_ws [] = []"
  by (simp add: skip_ws_def)

lemma expect_hd [simp]:
  "c \<notin> {CHR '' '', CHR 0x09, CHR 0x0A, CHR 0x0D} \<Longrightarrow> expect x (c # s) = (if c = x then Some s else None)"
  by (simp add: expect_def)

lemma hex_digit_byte: "n < 128 \<Longrightarrow> hex_val (hex_digit (n div 16)) = Some (n div 16)" "hex_val (hex_digit (n mod 16)) = Some (n mod 16)"
  by simp_all

lemma u_escape_char:
  assumes "(of_char c :: nat) < 0x20"
  shows "u_escape (CHR ''0'' # CHR ''0'' # hex_digit (of_char c div 16) # hex_digit (of_char c mod 16) # t) = Some ([c], 4)"
proof -
  let ?n = "of_char c :: nat"
  have z: "hex_val CHR ''0'' = Some 0" by (simp add: hex_val_def)
  have "getu4 (CHR ''0'' # CHR ''0'' # hex_digit (?n div 16) # hex_digit (?n mod 16) # t) = Some ?n"
    using assms by (simp add: getu4_def z hex_digit_byte eval_nat_numeral(3) [symmetric] del: eval_nat_numeral)
  moreover have "rune_str ?n = [c]"
    using assms by (simp add: rune_str_def utf8_rune_def bytes_str_def unat_of_nat)
  ultimately show ?thesis using assms by (simp add: u_escape_def)
qed

lemma rune_len_ascii:
  assumes "(of_char c :: nat) < 128"
  shows "rune_len (c # s) = 1"
  using assms by (simp add: rune_len_def Let_def str_bytes_def utf8_Valid.simps)

lemma json_str_quote:
  assumes "ascii s"
  shows "json_str (concat (map json_char s) @ CHR 0x22 # rest) = Some (s, rest)"
  using assms
proof (induction s)
  case Nil
  show ?case by (simp add: json_str.simps [of "CHR 0x22 # rest"])
next
  case (Cons c s)
  then have IH: "json_str (concat (map json_char s) @ CHR 0x22 # rest) = Some (s, rest)" and c: "(of_char c :: nat) < 128"
    by (simp_all add: ascii_def)
  consider "c = CHR 0x22 \<or> c = CHR 0x5C" | "c \<noteq> CHR 0x22" "c \<noteq> CHR 0x5C" "(of_char c :: nat) < 0x20"
    | "c \<noteq> CHR 0x22" "c \<noteq> CHR 0x5C" "\<not> (of_char c :: nat) < 0x20" by linarith
  then show ?case
  proof cases
    case 1
    then have "simple_escape c = Some c" "c \<noteq> CHR ''u''" by (auto simp: simple_escape_def)
    with 1 IH show ?thesis by (simp add: json_char_def [of c] json_str.simps [of "CHR 0x5C # _"])
  next
    case 2
    then show ?thesis
      using IH by (simp add: json_char_def [of c] json_str.simps [of "CHR 0x5C # _"] u_escape_char)
  next
    case 3
    then show ?thesis
      using IH rune_len_ascii [OF c] by (simp add: json_char_def [of c] json_str.simps [of "c # _"])
  qed
qed

lemma takeWhile_digits:
  assumes "list_all is_digit ds" "rest = [] \<or> \<not> is_digit (hd rest)"
  shows "takeWhile is_digit (ds @ rest) = ds" "dropWhile is_digit (ds @ rest) = rest"
  using assms by (induction ds; cases rest; auto)+

lemma dec_nat_no_zero: "hd (dec_nat n) = CHR ''0'' \<Longrightarrow> length (dec_nat n) = 1"
proof (induction n rule: dec_nat.induct)
  case (1 n)
  have pos: "hd (dec_nat m) \<noteq> CHR ''0''" if "0 < m" "hd (dec_nat m) = CHR ''0'' \<Longrightarrow> length (dec_nat m) = 1" for m
  proof
    assume *: "hd (dec_nat m) = CHR ''0''"
    with that(2) have "dec_nat m = [CHR ''0'']" by (cases "dec_nat m") auto
    then have "digits_nat (dec_nat m) = digits_nat [CHR ''0'']" by simp
    then have "m = digits_nat ([] @ [CHR ''0''])" by simp
    with that(1) show False by (simp only: digits_nat_snoc) (simp add: digits_nat_def digit_val_def)
  qed
  show ?case
  proof (cases "n < 10")
    case True
    then show ?thesis by (simp add: dec_nat.simps [of n])
  next
    case False
    then have "hd (dec_nat (n div 10)) = CHR ''0''"
      using "1.prems" by (simp add: dec_nat.simps [of n])
    moreover have "0 < n div 10" using False by simp
    ultimately show ?thesis using pos [of "n div 10"] 1(1) [OF False] by blast
  qed
qed

lemma json_number_digits:
  assumes "list_all is_digit ds" "ds \<noteq> []" "hd ds = CHR ''0'' \<Longrightarrow> length ds = 1" "ends_value rest"
  shows "json_number (ds @ rest) = Some (JNum (int (digits_nat ds)), rest)"
    "json_number (CHR ''-'' # ds @ rest) = Some (JNum (- int (digits_nat ds)), rest)"
proof -
  have e: "rest = [] \<or> \<not> is_digit (hd rest)" "(rest \<noteq> [] \<and> hd rest = CHR ''.'') = False"
    "(rest \<noteq> [] \<and> (hd rest = CHR ''e'' \<or> hd rest = CHR ''E'')) = False"
    using assms(4) by (auto simp: ends_value_def is_digit_def digit_val_def)
  have z: "(ds = [] \<or> hd ds = CHR ''0'' \<and> length ds \<noteq> 1) = False" using assms(2,3) by blast
  have "is_digit (hd ds)" using assms(1,2) by (cases ds) auto
  then have h: "hd (ds @ rest) \<noteq> CHR ''-''" using assms(2) digit_not_sign by simp
  note r = takeWhile_digits [OF assms(1) e(1)]
  show "json_number (ds @ rest) = Some (JNum (int (digits_nat ds)), rest)"
    unfolding json_number_def Let_def using h by (simp only: if_False e z r simp_thms)
  show "json_number (CHR ''-'' # ds @ rest) = Some (JNum (- int (digits_nat ds)), rest)"
    unfolding json_number_def Let_def by (simp only: if_False if_True e z r simp_thms list.sel list.simps)
qed

lemma json_number_dec:
  assumes "ends_value rest"
  shows "json_number (dec_int n @ rest) = Some (JNum n, rest)"
  using json_number_digits [OF dec_nat_digits dec_nat_not_Nil dec_nat_no_zero assms]
  by (simp add: dec_int_def)

lemma json_text_hd:
  assumes "plain j"
  obtains c cs where "json_text j = c # cs" "c \<notin> {CHR '' '', CHR 0x09, CHR 0x0A, CHR 0x0D, CHR '']'', CHR ''}'', CHR '','', CHR '':''}"
proof (cases j)
  case (JNum n)
  obtain c cs where "dec_nat (nat \<bar>n\<bar>) = c # cs" "is_digit c" using dec_nat_hd by blast
  moreover from this have "c \<notin> {CHR '' '', CHR 0x09, CHR 0x0A, CHR 0x0D, CHR '']'', CHR ''}'', CHR '','', CHR '':''}"
    by (auto simp: is_digit_def digit_val_def Let_def)
  ultimately show ?thesis using that JNum by (cases "n < 0") (auto simp: dec_int_def)
next
  case (JBool b)
  then show ?thesis by (intro that [of "if b then CHR ''t'' else CHR ''f''" "if b then ''rue'' else ''alse''"]) auto
qed (use assms that in \<open>auto simp: json_quote_def\<close>)

definition reads_back :: "json \<Rightarrow> bool" where
  "reads_back j \<longleftrightarrow> (\<forall>n rest. 2 * length (json_text j) \<le> n \<longrightarrow> ends_value rest \<longrightarrow> json_value n (json_text j @ rest) = Some (j, rest))"

lemma json_elems_text:
  assumes "\<forall>j\<in>set js. plain j \<and> reads_back j" "js \<noteq> []" "2 * length (Join '','' (map json_text js)) + 1 \<le> n"
  shows "json_elems n (Join '','' (map json_text js) @ CHR '']'' # rest) = Some (js, rest)"
  using assms
proof (induction js arbitrary: n)
  case (Cons j js)
  obtain m where n: "n = Suc m" using Cons.prems(3) by (cases n) auto
  show ?case
  proof (cases js)
    case Nil
    then have "json_value m (json_text j @ CHR '']'' # rest) = Some (j, CHR '']'' # rest)"
      using Cons.prems n by (simp add: reads_back_def ends_value_def)
    with Nil n show ?thesis by simp
  next
    case (Cons j' js')
    then have "json_value m (json_text j @ CHR '','' # Join '','' (map json_text js) @ CHR '']'' # rest) =
        Some (j, CHR '','' # Join '','' (map json_text js) @ CHR '']'' # rest)"
      using Cons.prems n by (simp add: reads_back_def ends_value_def)
    moreover have "json_elems m (Join '','' (map json_text js) @ CHR '']'' # rest) = Some (js, rest)"
      using Cons.IH [of m] Cons.prems n Cons by simp
    ultimately show ?thesis using n Cons by simp
  qed
qed simp

abbreviation members_text :: "(string \<times> json) list \<Rightarrow> string" where
  "members_text kvs \<equiv> Join '','' (map member_text (map (map_prod (\<lambda>k. k) json_text) kvs))"

lemma json_members_text:
  assumes "\<forall>kv\<in>set kvs. ascii (fst kv) \<and> plain (snd kv) \<and> reads_back (snd kv)" "kvs \<noteq> []" "2 * length (members_text kvs) + 1 \<le> n"
  shows "json_members n (members_text kvs @ CHR ''}'' # rest) = Some (kvs, rest)"
  using assms
proof (induction kvs arbitrary: n)
  case (Cons kv kvs)
  obtain m where n: "n = Suc m" using Cons.prems(3) by (cases n) auto
  obtain k j where kv: "kv = (k, j)" by (cases kv)
  have q: "json_str (concat (map json_char k) @ CHR 0x22 # t) = Some (k, t)" for t
    using Cons.prems(1) kv json_str_quote by simp
  show ?case
  proof (cases kvs)
    case Nil
    then have "json_value m (json_text j @ CHR ''}'' # rest) = Some (j, CHR ''}'' # rest)"
      using Cons.prems n kv by (simp add: reads_back_def ends_value_def member_text_def)
    with Nil n kv q show ?thesis by (simp add: member_text_def json_quote_def)
  next
    case (Cons kv' kvs')
    then have "json_value m (json_text j @ CHR '','' # members_text kvs @ CHR ''}'' # rest) =
        Some (j, CHR '','' # members_text kvs @ CHR ''}'' # rest)"
      using Cons.prems n kv by (simp add: reads_back_def ends_value_def member_text_def [of "(k, json_text j)"])
    moreover have "json_members m (members_text kvs @ CHR ''}'' # rest) = Some (kvs, rest)"
      using Cons.IH [of m] Cons.prems n Cons by simp
    ultimately show ?thesis using n kv q Cons by (simp add: member_text_def [of "(k, json_text j)"] json_quote_def [of k])
  qed
qed simp

lemma json_value_text: "plain j \<Longrightarrow> reads_back j"
proof (induction j)
  case (JArr js)
  then have js: "\<forall>j\<in>set js. plain j \<and> reads_back j" by (simp add: list_all_iff)
  show ?case unfolding reads_back_def
  proof (intro allI impI)
    fix n rest
    assume n: "2 * length (json_text (JArr js)) \<le> n"
    then obtain m where m: "n = Suc m" by (cases n) auto
    show "json_value n (json_text (JArr js) @ rest) = Some (JArr js, rest)"
    proof (cases js)
      case Nil
      with m show ?thesis by simp
    next
      case (Cons j js')
      obtain c cs where c: "json_text j = c # cs" "c \<notin> {CHR '' '', CHR 0x09, CHR 0x0A, CHR 0x0D, CHR '']'', CHR ''}'', CHR '','', CHR '':''}"
        using js Cons json_text_hd [of j] by auto
      have "json_elems m (Join '','' (map json_text js) @ CHR '']'' # rest) = Some (js, rest)"
        using n m by (intro json_elems_text [OF js]) (simp_all add: Cons)
      moreover obtain ds where "Join '','' (map json_text js) = c # ds" using c(1) Cons by (cases js') simp_all
      ultimately show ?thesis using m c(2) by simp
    qed
  qed
next
  case (JObj kvs)
  then have kvs: "\<forall>kv\<in>set kvs. ascii (fst kv) \<and> plain (snd kv) \<and> reads_back (snd kv)"
    by (fastforce simp: list_all_iff)
  show ?case unfolding reads_back_def
  proof (intro allI impI)
    fix n rest
    assume n: "2 * length (json_text (JObj kvs)) \<le> n"
    then obtain m where m: "n = Suc m" by (cases n) auto
    show "json_value n (json_text (JObj kvs) @ rest) = Some (JObj kvs, rest)"
    proof (cases kvs)
      case Nil
      with m show ?thesis by simp
    next
      case (Cons kv kvs')
      have "json_members m (members_text kvs @ CHR ''}'' # rest) = Some (kvs, rest)"
        using n m by (intro json_members_text [OF kvs]) (simp_all add: Cons)
      moreover obtain ds where "members_text kvs = CHR 0x22 # ds"
        using Cons by (cases kvs') (simp_all add: member_text_def json_quote_def)
      ultimately show ?thesis using m by simp
    qed
  qed
next
  case (JNum z)
  show ?case unfolding reads_back_def
  proof (intro allI impI)
    fix n rest
    assume n: "2 * length (json_text (JNum z)) \<le> n" and rest: "ends_value rest"
    obtain c cs where c: "json_text (JNum z) = c # cs" using json_text_hd [OF JNum] by blast
    then obtain m where m: "n = Suc m" using n by (cases n) auto
    have "c = CHR ''-'' \<or> is_digit c" using c dec_nat_hd [of "nat z"] by (auto simp: dec_int_def split: if_splits)
    then have "c \<notin> set '' {[tfn'' \<union> {CHR 0x22, CHR 0x09, CHR 0x0A, CHR 0x0D}" by (auto simp: is_digit_def digit_val_def Let_def split: if_splits)
    moreover have "HasPrefix (c # cs @ rest) s = (hd s = c \<and> HasPrefix (cs @ rest) (tl s))" if "s \<noteq> []" for s
      using that by (cases s) (auto simp: HasPrefix_def)
    ultimately show "json_value n (json_text (JNum z) @ rest) = Some (JNum z, rest)"
      using json_number_dec [OF rest, of z] c m by (auto split: list.splits)
  qed
next
  case (JBool b)
  show ?case unfolding reads_back_def
    by (intro allI impI, case_tac n) (auto simp: HasPrefix_def split: if_splits)
next
  case JNull
  show ?case unfolding reads_back_def
    by (intro allI impI, case_tac n) (auto simp: HasPrefix_def)
next
  case (JStr s)
  then show ?case unfolding reads_back_def
    by (intro allI impI, case_tac n) (auto simp: json_quote_def json_str_quote)
qed simp_all

lemma json_roundtrip: "plain j \<Longrightarrow> json_Unmarshal (str_bytes (json_text j)) = Inr j"
proof -
  assume "plain j"
  then have "json_value (2 * length (json_text j) + 2) (json_text j @ []) = Some (j, [])"
    using json_value_text [of j, unfolded reads_back_def, rule_format, of "2 * length (json_text j) + 2" "[]"]
    by (simp add: ends_value_def del: json_value.simps)
  then show ?thesis by (simp add: json_Unmarshal_def del: json_value.simps)
qed

end
