(* ===== verification/Acme.thy ===== *)
theory Acme
  imports Threads Json StoreAcme Http Localca IssuancelogSafety
begin

unbundle bit_operations_syntax

text \<open>
  \<open>src/internal/acme/server.go\<close>, \<open>nonce.go\<close>, \<open>jws.go\<close>, \<open>helpers.go\<close> and \<open>handlers.go\<close>: the ACME
  server. Its handlers and background goroutines are threads (theory Threads) over a shared
  state, the database and the nonces; each statement and each access to the nonces is one
  operation. What a thread asks of the world outside, clocks, the resolver, other servers and
  random values, is a question with an answer; the state keeps the record of both.

  A handler passes its response to a continuation. The signature algorithms, \<open>net.ParseIP\<close>,
  \<open>net.SplitHostPort\<close>, the PEM encoder and the parser of certificate requests are functions of
  the record \<open>acme_lib\<close>.
\<close>

section \<open>State, questions and configuration\<close>

datatype question =
    QNow
  | QNonce
  | QSerial
  | QLookupHost string
  | QGet string
  | QPost string "(string \<times> string) list" json
  | QWait

text \<open>
  Answers: a time, the text that is hashed for a nonce, a serial number, the addresses of a
  host, the outcome of a request (with the status and the body as far as it is read), and how
  often the ticker fired before the deadline or the end of the context.
\<close>

datatype http_result = RequestFailed goerr | ReadFailed goerr | Received int bytes

datatype answer =
    ATime int
  | ANonce string
  | ASerial "goerr + int"
  | AHosts "goerr + string list"
  | AHttp http_result
  | AWait nat goerr

fun answered :: "question \<Rightarrow> answer \<Rightarrow> bool" where
  "answered QNow (ATime t) = True"
| "answered QNonce (ANonce s) = True"
| "answered QSerial (ASerial r) = True"
| "answered (QLookupHost h) (AHosts r) = True"
| "answered (QGet u) (AHttp r) = True"
| "answered (QPost u h b) (AHttp r) = True"
| "answered QWait (AWait n e) = True"
| "answered _ _ = False"

type_synonym nonces = "string \<Rightarrow> int option"

record acme_world =
  aw_db :: db
  aw_nonces :: nonces
  aw_io :: "(question \<times> answer) list"

record Ident =
  id_Type :: string
  id_Value :: string

datatype job =
    JValidate ACMEChallenge ACMEAccount
  | JFinalize string CertificateRequest bytes "Ident list"

type_synonym acme_thread = "(acme_world, question, answer, job, response option) thread"

record acme_Config =
  ac_ExternalURL :: string
  ac_CAProxyURL :: string
  ac_CAAPIKey :: string
  ac_CAID :: string
  ac_TemplateID :: string
  ac_MTCBridgeURL :: string
  ac_OrderExpiry :: int
  ac_AssertionTimeout :: int
  ac_AssertionPollInterval :: int
  ac_AutoApproveChallenge :: bool
  ac_MTCMode :: bool

datatype curve = P256 | P384

datatype public_key = ECKey curve nat nat | RSAKey nat int

record acme_lib =
  al_ecdsa_Verify :: "curve \<Rightarrow> nat \<Rightarrow> nat \<Rightarrow> bytes \<Rightarrow> nat \<Rightarrow> nat \<Rightarrow> bool"
  al_rsa_VerifyPKCS1v15 :: "nat \<Rightarrow> int \<Rightarrow> bytes \<Rightarrow> bytes \<Rightarrow> goerr option"
  al_ParseCertificateRequest :: "bytes \<Rightarrow> goerr + CertificateRequest"
  al_pem_EncodeToMemory :: "string \<times> bytes \<Rightarrow> bytes"
  al_SplitHostPort :: "string \<Rightarrow> goerr + string \<times> string"
  al_ParseIP :: "string \<Rightarrow> bytes option"
  al_x509 :: x509_lib

record acme_Server =
  sv_cfg :: acme_Config
  sv_localCA :: "LocalCA option"
  sv_crypto :: crypto
  sv_cosigner :: Cosigner
  sv_lib :: acme_lib

definition second :: int where "second = 1000000000"

definition New_acme :: "acme_Config \<Rightarrow> LocalCA option \<Rightarrow> crypto \<Rightarrow> Cosigner \<Rightarrow> acme_lib \<Rightarrow> acme_Server" where
  "New_acme cfg lca cr cs lib =
     \<lparr>sv_cfg = cfg\<lparr>ac_OrderExpiry := (if ac_OrderExpiry cfg \<le> 0 then 24 * 3600 * second else ac_OrderExpiry cfg),
         ac_AssertionTimeout := (if ac_AssertionTimeout cfg \<le> 0 then 5 * 60 * second else ac_AssertionTimeout cfg),
         ac_AssertionPollInterval := (if ac_AssertionPollInterval cfg \<le> 0 then 5 * second else ac_AssertionPollInterval cfg)\<rparr>,
      sv_localCA = lca, sv_crypto = cr, sv_cosigner = cs, sv_lib = lib\<rparr>"

section \<open>Steps of a thread\<close>

text \<open>One call of the store, and the questions.\<close>

definition dbop :: "'a io \<Rightarrow> (goerr + 'a \<Rightarrow> acme_thread) \<Rightarrow> acme_thread" where
  "dbop m k = Op (\<lambda>w. w\<lparr>aw_db := snd (m (aw_db w))\<rparr>) (\<lambda>w. k (fst (m (aw_db w))))"

definition ask_now :: "(int \<Rightarrow> acme_thread) \<Rightarrow> acme_thread" where
  "ask_now k = Ask QNow (\<lambda>a. case a of ATime t \<Rightarrow> k t | _ \<Rightarrow> Finish None)"

definition ask_nonce :: "(string \<Rightarrow> acme_thread) \<Rightarrow> acme_thread" where
  "ask_nonce k = Ask QNonce (\<lambda>a. case a of ANonce s \<Rightarrow> k s | _ \<Rightarrow> Finish None)"

definition ask_serial :: "(goerr + int \<Rightarrow> acme_thread) \<Rightarrow> acme_thread" where
  "ask_serial k = Ask QSerial (\<lambda>a. case a of ASerial r \<Rightarrow> k r | _ \<Rightarrow> Finish None)"

definition ask_hosts :: "string \<Rightarrow> (goerr + string list \<Rightarrow> acme_thread) \<Rightarrow> acme_thread" where
  "ask_hosts h k = Ask (QLookupHost h) (\<lambda>a. case a of AHosts r \<Rightarrow> k r | _ \<Rightarrow> Finish None)"

definition ask_http :: "question \<Rightarrow> (http_result \<Rightarrow> acme_thread) \<Rightarrow> acme_thread" where
  "ask_http q k = Ask q (\<lambda>a. case a of AHttp r \<Rightarrow> k r | _ \<Rightarrow> Finish None)"

section \<open>Nonces and identifiers\<close>

text \<open>\<open>newNonce\<close> hashes the clock and an address, printed into one text.\<close>

definition nonce_of :: "string \<Rightarrow> string" where
  "nonce_of text = base64url_EncodeToString (take 16 (sha256 (str_bytes text)))"

definition add_nonce :: "string \<Rightarrow> int \<Rightarrow> nonces \<Rightarrow> nonces" where
  "add_nonce nonce clock ns = ns(nonce \<mapsto> clock + 3600 * second)"

definition newNonce :: "(string \<Rightarrow> acme_thread) \<Rightarrow> acme_thread" where
  "newNonce k =
     ask_nonce (\<lambda>text. ask_now (\<lambda>t.
       Op (\<lambda>w. w\<lparr>aw_nonces := add_nonce (nonce_of text) t (aw_nonces w)\<rparr>) (\<lambda>_. k (nonce_of text))))"

definition take_nonce :: "string \<Rightarrow> int \<Rightarrow> nonces \<Rightarrow> bool \<times> nonces" where
  "take_nonce nonce clock ns =
     (case ns nonce of None \<Rightarrow> (False, ns) | Some expiry \<Rightarrow> (clock < expiry, ns(nonce := None)))"

definition consumeNonce :: "string \<Rightarrow> (bool \<Rightarrow> acme_thread) \<Rightarrow> acme_thread" where
  "consumeNonce nonce k =
     ask_now (\<lambda>t. Op (\<lambda>w. w\<lparr>aw_nonces := snd (take_nonce nonce t (aw_nonces w))\<rparr>)
       (\<lambda>w. k (fst (take_nonce nonce t (aw_nonces w)))))"

text \<open>One round of \<open>cleanupNonces\<close>.\<close>

definition cleanupNonces :: "int \<Rightarrow> nonces \<Rightarrow> nonces" where
  "cleanupNonces clock ns = (\<lambda>k. case ns k of None \<Rightarrow> None | Some expiry \<Rightarrow> if clock > expiry then None else Some expiry)"

definition id_of :: "int \<Rightarrow> string" where
  "id_of clock = base64url_EncodeToString (take 12 (sha256 (str_bytes (dec_int clock))))"

definition newID :: "(string \<Rightarrow> acme_thread) \<Rightarrow> acme_thread" where
  "newID k = ask_now (\<lambda>t. k (id_of t))"

section \<open>JSON Web Signatures\<close>

record jws =
  jws_Protected :: string
  jws_Payload :: string
  jws_Signature :: string

record jwsHeader =
  jh_Alg :: string
  jh_Nonce :: string
  jh_URL :: string
  jh_KID :: string
  jh_JWK :: "json option"

definition dec_jws :: "json \<Rightarrow> goerr + jws" where
  "dec_jws j =
     (case (string_field ''protected'' j, string_field ''payload'' j, string_field ''signature'' j) of
        (Inr p, Inr l, Inr s) \<Rightarrow> Inr \<lparr>jws_Protected = p, jws_Payload = l, jws_Signature = s\<rparr>
      | _ \<Rightarrow> Inl type_error)"

definition dec_header :: "json \<Rightarrow> goerr + jwsHeader" where
  "dec_header j =
     (case dec_struct j of
        Inl e \<Rightarrow> Inl e
      | Inr kvs \<Rightarrow>
        (case (string_field ''alg'' j, string_field ''nonce'' j, string_field ''url'' j, string_field ''kid'' j, dec_field dec_raw ''jwk'' None kvs) of
           (Inr a, Inr n, Inr u, Inr k, Inr w) \<Rightarrow> Inr \<lparr>jh_Alg = a, jh_Nonce = n, jh_URL = u, jh_KID = k, jh_JWK = w\<rparr>
         | _ \<Rightarrow> Inl type_error))"

definition parseECJWK :: "json \<Rightarrow> goerr + public_key" where
  "parseECJWK raw =
     (case (string_field ''crv'' raw, string_field ''x'' raw, string_field ''y'' raw) of
        (Inr crv, Inr x, Inr y) \<Rightarrow>
          (if crv \<noteq> ''P-256'' \<and> crv \<noteq> ''P-384'' then Inl (Errorf ''unsupported curve: %s'')
           else case base64url_DecodeString x of
             Inl err \<Rightarrow> Inl (Wrap ''decode x: %w'' err)
           | Inr xBytes \<Rightarrow>
             (case base64url_DecodeString y of
                Inl err \<Rightarrow> Inl (Wrap ''decode y: %w'' err)
              | Inr yBytes \<Rightarrow> Inr (ECKey (if crv = ''P-256'' then P256 else P384) (be_nat xBytes) (be_nat yBytes))))
      | _ \<Rightarrow> Inl type_error)"

definition parseRSAJWK :: "json \<Rightarrow> goerr + public_key" where
  "parseRSAJWK raw =
     (case (string_field ''n'' raw, string_field ''e'' raw) of
        (Inr n, Inr e) \<Rightarrow>
          (case base64url_DecodeString n of
             Inl err \<Rightarrow> Inl (Wrap ''decode n: %w'' err)
           | Inr nBytes \<Rightarrow>
             (case base64url_DecodeString e of
                Inl err \<Rightarrow> Inl (Wrap ''decode e: %w'' err)
              | Inr eBytes \<Rightarrow> Inr (RSAKey (be_nat nBytes) (int64 (of_nat (be_nat eBytes))))))
      | _ \<Rightarrow> Inl type_error)"

definition parseJWK :: "json \<Rightarrow> goerr + public_key" where
  "parseJWK raw =
     (case string_field ''kty'' raw of
        Inl err \<Rightarrow> Inl (Wrap ''parse kty: %w'' err)
      | Inr kty \<Rightarrow>
        if kty = ''EC'' then parseECJWK raw
        else if kty = ''RSA'' then parseRSAJWK raw
        else Inl (Errorf ''unsupported key type: %s''))"

definition verifySignature :: "acme_lib \<Rightarrow> public_key \<Rightarrow> string \<Rightarrow> bytes \<Rightarrow> bytes \<Rightarrow> goerr option" where
  "verifySignature lib pubKey alg sigInput sig =
     (if alg = ''ES256'' then
        (case pubKey of
           ECKey crv x y \<Rightarrow>
             if length sig \<noteq> 64 then Some (Errorf ''ES256 signature must be 64 bytes, got %d'')
             else if \<not> al_ecdsa_Verify lib crv x y (sha256 sigInput) (be_nat (take 32 sig)) (be_nat (drop 32 sig))
             then Some (Errorf ''ES256 signature verification failed'')
             else None
         | _ \<Rightarrow> Some (Errorf ''ES256 requires EC key''))
      else if alg = ''RS256'' then
        (case pubKey of
           RSAKey n e \<Rightarrow> al_rsa_VerifyPKCS1v15 lib n e (sha256 sigInput) sig
         | _ \<Rightarrow> Some (Errorf ''RS256 requires RSA key''))
      else Some (Errorf ''unsupported algorithm: %s''))"

definition canonical_JWK :: "json \<Rightarrow> goerr + string" where
  "canonical_JWK raw =
     (let q = (\<lambda>s. CHR 0x22 # s @ [CHR 0x22]) in
      case string_field ''kty'' raw of
        Inl err \<Rightarrow> Inl err
      | Inr kty \<Rightarrow>
        if kty = ''EC'' then
          (case (string_field ''crv'' raw, string_field ''x'' raw, string_field ''y'' raw) of
             (Inr crv, Inr x, Inr y) \<Rightarrow> Inr (''{'' @ q ''crv'' @ '':'' @ q crv @ '','' @ q ''kty'' @ '':'' @ q ''EC'' @ '','' @
                 q ''x'' @ '':'' @ q x @ '','' @ q ''y'' @ '':'' @ q y @ ''}'')
           | _ \<Rightarrow> Inl type_error)
        else if kty = ''RSA'' then
          (case (string_field ''e'' raw, string_field ''n'' raw) of
             (Inr e, Inr n) \<Rightarrow> Inr (''{'' @ q ''e'' @ '':'' @ q e @ '','' @ q ''kty'' @ '':'' @ q ''RSA'' @ '','' @ q ''n'' @ '':'' @ q n @ ''}'')
           | _ \<Rightarrow> Inl type_error)
        else Inl (Errorf ''unsupported kty: %s''))"

definition jwkThumbprint :: "json \<Rightarrow> goerr + string" where
  "jwkThumbprint raw =
     (case canonical_JWK raw of
        Inl err \<Rightarrow> Inl err
      | Inr canonical \<Rightarrow> Inr (base64url_EncodeToString (sha256 (str_bytes canonical))))"

text \<open>The part of a key id after its last slash.\<close>

definition after_last_slash :: "string \<Rightarrow> string" where
  "after_last_slash s = last (Split CHR ''/'' s)"

text \<open>
  \<open>verifyJWS\<close>, in the order of its checks. The first reads the body, at most a megabyte of it;
  the two checks at the end are the signature and its key.
\<close>

definition dec_request :: "request \<Rightarrow> goerr + jws \<times> jwsHeader" where
  "dec_request r =
     (case json_Unmarshal (take (2 ^ 20) (rq_Body r)) of
        Inl err \<Rightarrow> Inl (Wrap ''parse JWS: %w'' err)
      | Inr doc \<Rightarrow>
        (case dec_jws doc of
           Inl err \<Rightarrow> Inl (Wrap ''parse JWS: %w'' err)
         | Inr j \<Rightarrow>
           (case base64url_DecodeString (jws_Protected j) of
              Inl err \<Rightarrow> Inl (Wrap ''decode protected: %w'' err)
            | Inr headerBytes \<Rightarrow>
              (case json_Unmarshal headerBytes of
                 Inl err \<Rightarrow> Inl (Wrap ''parse protected header: %w'' err)
               | Inr hdoc \<Rightarrow>
                 (case dec_header hdoc of
                    Inl err \<Rightarrow> Inl (Wrap ''parse protected header: %w'' err)
                  | Inr hdr \<Rightarrow> Inr (j, hdr))))))"

definition dec_payload :: "jws \<Rightarrow> goerr + bytes \<times> bytes" where
  "dec_payload j =
     (case (if jws_Payload j \<noteq> '''' then base64url_DecodeString (jws_Payload j) else Inr []) of
        Inl err \<Rightarrow> Inl (Wrap ''decode payload: %w'' err)
      | Inr payload \<Rightarrow>
        (case base64url_DecodeString (jws_Signature j) of
           Inl err \<Rightarrow> Inl (Wrap ''decode signature: %w'' err)
         | Inr sig \<Rightarrow> Inr (payload, sig)))"

definition check_signature :: "acme_Server \<Rightarrow> public_key \<Rightarrow> jwsHeader \<Rightarrow> jws \<Rightarrow> bytes \<Rightarrow> goerr option" where
  "check_signature srv pubKey hdr j sig =
     map_option (Wrap ''invalid signature: %w'')
       (verifySignature (sv_lib srv) pubKey (jh_Alg hdr) (str_bytes (jws_Protected j @ ''.'' @ jws_Payload j)) sig)"

definition verifyJWS ::
  "acme_Server \<Rightarrow> request \<Rightarrow> bool \<Rightarrow> (goerr + jwsHeader \<times> bytes \<times> ACMEAccount option \<Rightarrow> acme_thread) \<Rightarrow> acme_thread" where
  "verifyJWS srv r requireKID k =
     (case dec_request r of
        Inl err \<Rightarrow> k (Inl err)
      | Inr (j, hdr) \<Rightarrow>
        consumeNonce (jh_Nonce hdr) (\<lambda>ok.
        if \<not> ok then k (Inl (Errorf ''invalid or expired nonce''))
        else if jh_URL hdr \<noteq> ac_ExternalURL (sv_cfg srv) @ rq_Path r then k (Inl (Errorf ''URL mismatch: got %q, want %q''))
        else case dec_payload j of
          Inl err \<Rightarrow> k (Inl err)
        | Inr (payload, sig) \<Rightarrow>
          if requireKID then
            (if jh_KID hdr = '''' then k (Inl (Errorf ''kid required''))
             else dbop (GetACMEAccount (after_last_slash (jh_KID hdr))) (\<lambda>res.
               case res of
                 Inl err \<Rightarrow> k (Inl (Wrap ''account not found: %w'' err))
               | Inr acct \<Rightarrow>
                 (case parseJWK (aa_JWK acct) of
                    Inl err \<Rightarrow> k (Inl (Wrap ''parse stored JWK: %w'' err))
                  | Inr pubKey \<Rightarrow>
                    (case check_signature srv pubKey hdr j sig of
                       Some err \<Rightarrow> k (Inl err)
                     | None \<Rightarrow> k (Inr (hdr, payload, Some acct))))))
          else
            (case jh_JWK hdr of
               None \<Rightarrow> k (Inl (Errorf ''jwk required for new account''))
             | Some jwk \<Rightarrow>
               (case parseJWK jwk of
                  Inl err \<Rightarrow> k (Inl (Wrap ''parse JWK: %w'' err))
                | Inr pubKey \<Rightarrow>
                  (case check_signature srv pubKey hdr j sig of
                     Some err \<Rightarrow> k (Inl err)
                   | None \<Rightarrow> k (Inr (hdr, payload, None)))))))"

section \<open>Responses\<close>

type_synonym acme_handler = "request \<Rightarrow> (response \<Rightarrow> acme_thread) \<Rightarrow> acme_thread"

definition acmeError :: "int \<Rightarrow> string \<Rightarrow> string \<Rightarrow> response" where
  "acmeError status errType detail =
     \<lparr>rs_Status = status, rs_Header = [(''Content-Type'', ''application/problem+json'')],
      rs_Body = Json (JObj [(''detail'', JStr detail), (''status'', JNum status),
        (''type'', JStr (''urn:ietf:params:acme:error:'' @ errType))])\<rparr>"

definition acme_json :: "int \<Rightarrow> (string \<times> string) list \<Rightarrow> json \<Rightarrow> response" where
  "acme_json status header doc = \<lparr>rs_Status = status, rs_Header = header, rs_Body = Json doc\<rparr>"

definition base_url :: "acme_Server \<Rightarrow> string" where
  "base_url srv = ac_ExternalURL (sv_cfg srv)"

definition orderURL :: "acme_Server \<Rightarrow> string \<Rightarrow> string" where
  "orderURL srv i = base_url srv @ ''/acme/order/'' @ i"

definition authzURL :: "acme_Server \<Rightarrow> string \<Rightarrow> string" where
  "authzURL srv i = base_url srv @ ''/acme/authz/'' @ i"

definition challengeURL :: "acme_Server \<Rightarrow> string \<Rightarrow> string" where
  "challengeURL srv i = base_url srv @ ''/acme/challenge/'' @ i"

definition finalizeURL :: "acme_Server \<Rightarrow> string \<Rightarrow> string" where
  "finalizeURL srv i = base_url srv @ ''/acme/order/'' @ i @ ''/finalize''"

definition certURL :: "acme_Server \<Rightarrow> string \<Rightarrow> string" where
  "certURL srv i = base_url srv @ ''/acme/certificate/'' @ i"

definition accountURL :: "acme_Server \<Rightarrow> string \<Rightarrow> string" where
  "accountURL srv i = base_url srv @ ''/acme/account/'' @ i"

definition getAuthzURLs :: "acme_Server \<Rightarrow> string \<Rightarrow> (goerr + string list \<Rightarrow> acme_thread) \<Rightarrow> acme_thread" where
  "getAuthzURLs srv orderID k =
     dbop (ListACMEAuthorizationsByOrder orderID) (\<lambda>res.
       case res of Inl err \<Rightarrow> k (Inl err) | Inr authzs \<Rightarrow> k (Inr (map (\<lambda>a. authzURL srv (az_ID a)) authzs)))"

text \<open>A time formatted as RFC 3339 loses the fraction of its second.\<close>

definition rfc3339 :: "int \<Rightarrow> json" where
  "rfc3339 t = JTime (truncate_second t)"

definition error_doc :: "string \<Rightarrow> string \<Rightarrow> json" where
  "error_doc typ detail = JObj [(''detail'', JStr detail), (''type'', JStr (''urn:ietf:params:acme:error:'' @ typ))]"

text \<open>Maps are written with their keys in order. A nil slice of links is \<open>None\<close>.\<close>

definition renderOrder :: "acme_Server \<Rightarrow> ACMEOrder \<Rightarrow> string list option \<Rightarrow> json" where
  "renderOrder srv order authzURLs = JObj (
     (if ao_AssertionURL order \<noteq> '''' then [(''assertionBundle'', JStr (ao_AssertionURL order))] else []) @
     [(''authorizations'', case authzURLs of None \<Rightarrow> JNull | Some us \<Rightarrow> JArr (map JStr us))] @
     (if ao_CertificateURL order \<noteq> '''' then [(''certificate'', JStr (ao_CertificateURL order))] else []) @
     (if ao_ErrorType order \<noteq> '''' then [(''error'', error_doc (ao_ErrorType order) (ao_ErrorDetail order))] else []) @
     [(''expires'', rfc3339 (ao_Expires order)), (''finalize'', JStr (finalizeURL srv (ao_ID order))),
      (''identifiers'', ao_Identifiers order), (''status'', JStr (ao_Status order))])"

definition renderChallenge :: "acme_Server \<Rightarrow> ACMEChallenge \<Rightarrow> json" where
  "renderChallenge srv ch = JObj (
     (if ch_ErrorType ch \<noteq> '''' then [(''error'', error_doc (ch_ErrorType ch) (ch_ErrorDetail ch))] else []) @
     [(''status'', JStr (ch_Status ch)), (''token'', JStr (ch_Token ch)), (''type'', JStr (ch_Type ch)),
      (''url'', JStr (challengeURL srv (ch_ID ch)))] @
     (case ch_Validated ch of None \<Rightarrow> [] | Some t \<Rightarrow> [(''validated'', rfc3339 t)]))"

section \<open>Directory, nonces and accounts\<close>

definition handleDirectory :: "acme_Server \<Rightarrow> acme_handler" where
  "handleDirectory srv r reply = reply (acme_json 200 [] (JObj
     [(''meta'', JObj [(''externalAccountRequired'', JBool False), (''website'', JStr (base_url srv))]),
      (''newAccount'', JStr (base_url srv @ ''/acme/new-account'')), (''newNonce'', JStr (base_url srv @ ''/acme/new-nonce'')),
      (''newOrder'', JStr (base_url srv @ ''/acme/new-order''))]))"

definition handleNewNonce :: "acme_handler" where
  "handleNewNonce r reply = reply
     \<lparr>rs_Status = (if rq_Method r = ''HEAD'' \<or> rq_Method r = ''POST'' then 200 else 204),
      rs_Header = [(''Cache-Control'', ''no-store'')], rs_Body = Text ''''\<rparr>"

record account_request =
  ar_TermsOfServiceAgreed :: bool
  ar_Contact :: "string list"
  ar_OnlyReturnExisting :: bool

definition dec_account_request :: "json \<Rightarrow> goerr + account_request" where
  "dec_account_request j =
     (case dec_struct j of
        Inl e \<Rightarrow> Inl e
      | Inr kvs \<Rightarrow>
        (case (dec_field dec_bool ''termsOfServiceAgreed'' False kvs, dec_field (dec_slice (dec_string '''')) ''contact'' [] kvs,
               dec_field dec_bool ''onlyReturnExisting'' False kvs) of
           (Inr t, Inr c, Inr x) \<Rightarrow> Inr \<lparr>ar_TermsOfServiceAgreed = t, ar_Contact = c, ar_OnlyReturnExisting = x\<rparr>
         | _ \<Rightarrow> Inl type_error))"

definition payload_json :: "(json \<Rightarrow> goerr + 'a) \<Rightarrow> bytes \<Rightarrow> goerr + 'a" where
  "payload_json dec payload = (case json_Unmarshal payload of Inl e \<Rightarrow> Inl e | Inr doc \<Rightarrow> dec doc)"

text \<open>\<open>json.Marshal\<close> of a string slice: a nil slice, here the empty one, is \<open>null\<close>.\<close>

definition contact_doc :: "string list \<Rightarrow> json" where
  "contact_doc cs = (if cs = [] then JNull else JArr (map JStr cs))"

definition account_doc :: "acme_Server \<Rightarrow> string \<Rightarrow> string \<Rightarrow> json \<Rightarrow> json" where
  "account_doc srv i status contact =
     JObj [(''contact'', contact), (''orders'', JStr (accountURL srv i @ ''/orders'')), (''status'', JStr status)]"

definition handleNewAccount :: "acme_Server \<Rightarrow> acme_handler" where
  "handleNewAccount srv r reply =
     verifyJWS srv r False (\<lambda>res. case res of
       Inl err \<Rightarrow> reply (acmeError 401 ''unauthorized'' (error_text err))
     | Inr (hdr, payload, _) \<Rightarrow>
       (case (if length payload > 0 then payload_json dec_account_request payload else Inr \<lparr>ar_TermsOfServiceAgreed = False, ar_Contact = [], ar_OnlyReturnExisting = False\<rparr>) of
          Inl _ \<Rightarrow> reply (acmeError 400 ''malformed'' ''invalid account request'')
        | Inr req \<Rightarrow>
          (case (case jh_JWK hdr of None \<Rightarrow> Inl (Errorf ''unexpected end of JSON input'') | Some jwk \<Rightarrow> map_sum id (Pair jwk) (jwkThumbprint jwk)) of
             Inl _ \<Rightarrow> reply (acmeError 400 ''malformed'' ''invalid JWK'')
           | Inr (jwk, thumbprint) \<Rightarrow>
             dbop (GetACMEAccountByThumbprint thumbprint) (\<lambda>found. case found of
               Inr existing \<Rightarrow> reply (acme_json 200 [(''Location'', accountURL srv (aa_ID existing))]
                 (account_doc srv (aa_ID existing) (aa_Status existing) (aa_Contact existing)))
             | Inl _ \<Rightarrow>
               if ar_OnlyReturnExisting req then reply (acmeError 400 ''accountDoesNotExist'' ''account not found'')
               else newID (\<lambda>acctID.
                 dbop (CreateACMEAccount \<lparr>aa_ID = acctID, aa_Status = ''valid'', aa_KeyThumbprint = thumbprint,
                     aa_JWK = jwk, aa_Contact = contact_doc (ar_Contact req), aa_CreatedAt = 0\<rparr>) (\<lambda>made. case made of
                   Inl _ \<Rightarrow> reply (acmeError 500 ''serverInternal'' ''failed to create account'')
                 | Inr _ \<Rightarrow> reply (acme_json 201 [(''Location'', accountURL srv acctID)]
                     (account_doc srv acctID ''valid'' (contact_doc (ar_Contact req))))))))))"

section \<open>Orders and authorizations\<close>

definition dec_ident :: "json \<Rightarrow> goerr + Ident" where
  "dec_ident j =
     (case (string_field ''type'' j, string_field ''value'' j) of
        (Inr t, Inr v) \<Rightarrow> Inr \<lparr>id_Type = t, id_Value = v\<rparr>
      | _ \<Rightarrow> Inl type_error)"

definition dec_identifiers :: "json \<Rightarrow> goerr + Ident list" where
  "dec_identifiers j =
     (case dec_struct j of Inl e \<Rightarrow> Inl e | Inr kvs \<Rightarrow> dec_field (dec_slice dec_ident) ''identifiers'' [] kvs)"

definition ident_doc :: "Ident \<Rightarrow> json" where
  "ident_doc i = JObj [(''type'', JStr (id_Type i)), (''value'', JStr (id_Value i))]"

definition printed_q :: "string \<Rightarrow> string" where
  "printed_q s = CHR 0x22 # s @ [CHR 0x22]"

text \<open>
  The loop of \<open>handleNewOrder\<close>: for each identifier a pending authorization with a pending
  HTTP-01 challenge, whose token is two identifiers long.
\<close>

primrec make_authzs ::
  "string \<Rightarrow> int \<Rightarrow> Ident list \<Rightarrow> (ACMEAuthorization list \<Rightarrow> ACMEChallenge list \<Rightarrow> acme_thread) \<Rightarrow> acme_thread" where
  "make_authzs orderID expires [] k = k [] []"
| "make_authzs orderID expires (ident # idents) k =
     newID (\<lambda>authzID. newID (\<lambda>challengeID. newID (\<lambda>t1. newID (\<lambda>t2.
       make_authzs orderID expires idents (\<lambda>authzs challenges. k
         (\<lparr>az_ID = authzID, az_OrderID = orderID, az_Identifier = ident_doc ident, az_Status = ''pending'',
           az_Expires = expires, az_Wildcard = HasPrefix (id_Value ident) ''*.'', az_CreatedAt = 0\<rparr> # authzs)
         (\<lparr>ch_ID = challengeID, ch_AuthzID = authzID, ch_Type = ''http-01'', ch_Status = ''pending'', ch_Token = t1 @ t2,
           ch_Validated = None, ch_ErrorType = '''', ch_ErrorDetail = '''', ch_CreatedAt = 0\<rparr> # challenges))))))"

definition new_order :: "string \<Rightarrow> string \<Rightarrow> Ident list \<Rightarrow> int \<Rightarrow> ACMEOrder" where
  "new_order orderID accountID idents expires =
     \<lparr>ao_ID = orderID, ao_AccountID = accountID, ao_Status = ''pending'', ao_Identifiers = JArr (map ident_doc idents),
      ao_NotBefore = None, ao_NotAfter = None, ao_Expires = expires, ao_CSR = '''', ao_CertificateURL = '''',
      ao_CertSerial = '''', ao_AssertionURL = '''', ao_ErrorType = '''', ao_ErrorDetail = '''', ao_CreatedAt = 0,
      ao_UpdatedAt = 0, ao_FinalCertDER = [], ao_CACertDER = []\<rparr>"

text \<open>The account of a request that was verified with a key id.\<close>

definition handleNewOrder :: "acme_Server \<Rightarrow> acme_handler" where
  "handleNewOrder srv r reply =
     verifyJWS srv r True (\<lambda>res. case res of
       Inr (_, payload, Some acct) \<Rightarrow>
       (case payload_json dec_identifiers payload of
          Inl _ \<Rightarrow> reply (acmeError 400 ''malformed'' ''invalid order request'')
        | Inr idents \<Rightarrow>
          if length idents = 0 then reply (acmeError 400 ''malformed'' ''at least one identifier required'')
          else (case List.find (\<lambda>i. id_Type i \<noteq> ''dns'') idents of
             Some ident \<Rightarrow> reply (acmeError 400 ''unsupportedIdentifier''
               (''identifier type '' @ printed_q (id_Type ident) @ '' not supported''))
           | None \<Rightarrow>
             newID (\<lambda>orderID. ask_now (\<lambda>t.
               let expires = t + ac_OrderExpiry (sv_cfg srv); order = new_order orderID (aa_ID acct) idents expires in
               make_authzs orderID expires idents (\<lambda>authzs challenges.
               dbop (CreateACMEOrder order authzs challenges) (\<lambda>made. case made of
                 Inl _ \<Rightarrow> reply (acmeError 500 ''serverInternal'' ''failed to create order'')
               | Inr _ \<Rightarrow> reply (acme_json 201 [(''Location'', orderURL srv orderID)]
                   (renderOrder srv order (Some (map (\<lambda>a. authzURL srv (az_ID a)) authzs)))))))))
          )
     | Inr (_, _, None) \<Rightarrow> Finish None
     | Inl err \<Rightarrow> reply (acmeError 401 ''unauthorized'' (error_text err)))"

definition handleOrder :: "acme_Server \<Rightarrow> string \<Rightarrow> acme_handler" where
  "handleOrder srv orderID r reply =
     verifyJWS srv r True (\<lambda>res. case res of
       Inl err \<Rightarrow> reply (acmeError 401 ''unauthorized'' (error_text err))
     | Inr _ \<Rightarrow>
       dbop (GetACMEOrder orderID) (\<lambda>res. case res of
         Inl _ \<Rightarrow> reply (acmeError 404 ''orderNotFound'' ''order not found'')
       | Inr order \<Rightarrow>
         getAuthzURLs srv orderID (\<lambda>res. case res of
           Inl _ \<Rightarrow> reply (acmeError 500 ''serverInternal'' ''failed to load authorizations'')
         | Inr urls \<Rightarrow> reply (acme_json 200 [] (renderOrder srv order (Some urls))))))"

definition challenge_entry :: "acme_Server \<Rightarrow> ACMEChallenge \<Rightarrow> json" where
  "challenge_entry srv ch = JObj (
     [(''status'', JStr (ch_Status ch)), (''token'', JStr (ch_Token ch)), (''type'', JStr (ch_Type ch)),
      (''url'', JStr (challengeURL srv (ch_ID ch)))] @
     (case ch_Validated ch of None \<Rightarrow> [] | Some t \<Rightarrow> [(''validated'', rfc3339 t)]))"

definition handleAuthorization :: "acme_Server \<Rightarrow> string \<Rightarrow> acme_handler" where
  "handleAuthorization srv authzID r reply =
     verifyJWS srv r True (\<lambda>res. case res of
       Inl err \<Rightarrow> reply (acmeError 401 ''unauthorized'' (error_text err))
     | Inr _ \<Rightarrow>
       dbop (GetACMEAuthorization authzID) (\<lambda>res. case res of
         Inl _ \<Rightarrow> reply (acmeError 404 ''authorizationNotFound'' ''authorization not found'')
       | Inr authz \<Rightarrow>
         dbop (ListACMEChallengesByAuthz authzID) (\<lambda>res. case res of
           Inl _ \<Rightarrow> reply (acmeError 500 ''serverInternal'' ''failed to load challenges'')
         | Inr challenges \<Rightarrow>
           reply (acme_json 200 [] (JObj (
             [(''challenges'', if challenges = [] then JNull else JArr (map (challenge_entry srv) challenges)),
              (''expires'', rfc3339 (az_Expires authz)), (''identifier'', az_Identifier authz), (''status'', JStr (az_Status authz))] @
             (if az_Wildcard authz then [(''wildcard'', JBool True)] else [])))))))"

section \<open>Challenges\<close>

definition handleChallenge :: "acme_Server \<Rightarrow> string \<Rightarrow> acme_handler" where
  "handleChallenge srv challengeID r reply =
     verifyJWS srv r True (\<lambda>res. case res of
       Inr (_, _, Some acct) \<Rightarrow>
       dbop (GetACMEChallenge challengeID) (\<lambda>res. case res of
         Inl _ \<Rightarrow> reply (acmeError 404 ''challengeNotFound'' ''challenge not found'')
       | Inr ch \<Rightarrow>
         if ch_Status ch = ''valid'' \<or> ch_Status ch = ''invalid'' then reply (acme_json 200 [] (renderChallenge srv ch))
         else Go (JValidate ch acct) (reply (acme_json 200 [] (renderChallenge srv (ch\<lparr>ch_Status := ''processing''\<rparr>)))))
     | Inr (_, _, None) \<Rightarrow> Finish None
     | Inl err \<Rightarrow> reply (acmeError 401 ''unauthorized'' (error_text err)))"

text \<open>
  The classification of addresses of package \<open>net\<close>. An address has four bytes or sixteen; the
  sixteen bytes of an IPv4-mapped address are classified by their last four.
\<close>

definition To4 :: "bytes \<Rightarrow> bytes option" where
  "To4 ip =
     (if length ip = 4 then Some ip
      else if length ip = 16 \<and> take 12 ip = replicate 10 0 @ [0xff, 0xff] then Some (drop 12 ip)
      else None)"

definition IsLoopback :: "bytes \<Rightarrow> bool" where
  "IsLoopback ip = (case To4 ip of Some ip4 \<Rightarrow> ip4 ! 0 = 127 | None \<Rightarrow> ip = replicate 15 0 @ [1])"

definition IsPrivate :: "bytes \<Rightarrow> bool" where
  "IsPrivate ip = (case To4 ip of
     Some ip4 \<Rightarrow> ip4 ! 0 = 10 \<or> ip4 ! 0 = 172 \<and> ip4 ! 1 AND 0xf0 = 16 \<or> ip4 ! 0 = 192 \<and> ip4 ! 1 = 168
   | None \<Rightarrow> length ip = 16 \<and> ip ! 0 AND 0xfe = 0xfc)"

definition IsLinkLocalUnicast :: "bytes \<Rightarrow> bool" where
  "IsLinkLocalUnicast ip = (case To4 ip of
     Some ip4 \<Rightarrow> ip4 ! 0 = 169 \<and> ip4 ! 1 = 254
   | None \<Rightarrow> length ip = 16 \<and> ip ! 0 = 0xfe \<and> ip ! 1 AND 0xc0 = 0x80)"

definition IsLinkLocalMulticast :: "bytes \<Rightarrow> bool" where
  "IsLinkLocalMulticast ip = (case To4 ip of
     Some ip4 \<Rightarrow> ip4 ! 0 = 224 \<and> ip4 ! 1 = 0 \<and> ip4 ! 2 = 0
   | None \<Rightarrow> length ip = 16 \<and> ip ! 0 = 0xff \<and> ip ! 1 AND 0x0f = 0x02)"

definition IsUnspecified :: "bytes \<Rightarrow> bool" where
  "IsUnspecified ip \<longleftrightarrow> To4 ip = Some [0, 0, 0, 0] \<or> ip = replicate 16 0"

definition disallowed :: "bytes \<Rightarrow> bool" where
  "disallowed ip \<longleftrightarrow> IsLoopback ip \<or> IsPrivate ip \<or> IsLinkLocalUnicast ip \<or> IsLinkLocalMulticast ip \<or> IsUnspecified ip"

text \<open>The address that stops the check, if any; what does not parse is passed over.\<close>

definition bad_address :: "acme_lib \<Rightarrow> string list \<Rightarrow> string option" where
  "bad_address lib addrs =
     List.find (\<lambda>a. case al_ParseIP lib a of None \<Rightarrow> False | Some ip \<Rightarrow> disallowed ip) addrs"

definition http01_host :: "acme_lib \<Rightarrow> string \<Rightarrow> string" where
  "http01_host lib host = (case al_SplitHostPort lib host of Inl _ \<Rightarrow> host | Inr (h, _) \<Rightarrow> h)"

definition isAllowedHTTP01Target :: "acme_lib \<Rightarrow> string \<Rightarrow> (goerr option \<Rightarrow> acme_thread) \<Rightarrow> acme_thread" where
  "isAllowedHTTP01Target lib host k =
     ask_hosts (http01_host lib host) (\<lambda>res. case res of
       Inl err \<Rightarrow> k (Some (Wrap ''dns lookup failed for %q: %w'' err))
     | Inr addrs \<Rightarrow> k (case bad_address lib addrs of
         None \<Rightarrow> None
       | Some _ \<Rightarrow> Some (Errorf ''http-01 target %q resolves to disallowed address %s'')))"

definition challenge_file :: "string \<Rightarrow> string \<Rightarrow> string" where
  "challenge_file host token = ''http://'' @ host @ ''/.well-known/acme-challenge/'' @ token"

text \<open>\<open>readLimited\<close> takes at most 1024 bytes of the body; the status is not looked at.\<close>

definition performHTTP01 :: "acme_Server \<Rightarrow> ACMEChallenge \<Rightarrow> string \<Rightarrow> (goerr option \<Rightarrow> acme_thread) \<Rightarrow> acme_thread" where
  "performHTTP01 srv ch keyAuthz k =
     dbop (GetACMEAuthorization (ch_AuthzID ch)) (\<lambda>res. case res of
       Inl err \<Rightarrow> k (Some (Wrap ''get authz: %w'' err))
     | Inr authz \<Rightarrow>
       (case string_field ''value'' (az_Identifier authz) of
          Inl err \<Rightarrow> k (Some (Wrap ''parse identifier: %w'' err))
        | Inr host \<Rightarrow>
          isAllowedHTTP01Target (sv_lib srv) host (\<lambda>res. case res of
            Some err \<Rightarrow> k (Some (Wrap ''ssrf check: %w'' err))
          | None \<Rightarrow>
            ask_http (QGet (challenge_file host (ch_Token ch))) (\<lambda>res. case res of
              RequestFailed err \<Rightarrow> k (Some (Wrap ''http request: %w'' err))
            | ReadFailed err \<Rightarrow> k (Some (Wrap ''read response: %w'' err))
            | Received _ body \<Rightarrow>
                if TrimSpace (bytes_str (take 1024 body)) \<noteq> keyAuthz then k (Some (Errorf ''key authorization mismatch''))
                else k None))))"

definition all_others_valid :: "string \<Rightarrow> ACMEAuthorization list \<Rightarrow> bool" where
  "all_others_valid authzID authzs \<longleftrightarrow> list_all (\<lambda>a. az_ID a = authzID \<or> az_Status a = ''valid'') authzs"

text \<open>What follows a successful validation: the authorization, and the order when it was the last.\<close>

definition settle_order :: "ACMEAuthorization \<Rightarrow> acme_thread" where
  "settle_order authz =
     dbop (ListACMEAuthorizationsByOrder (az_OrderID authz)) (\<lambda>res. case res of
       Inl _ \<Rightarrow> Finish None
     | Inr allAuthzs \<Rightarrow>
       if all_others_valid (az_ID authz) allAuthzs
       then dbop (UpdateACMEOrderStatus (az_OrderID authz) ''ready'' (\<lambda>_. None)) (\<lambda>_. Finish None)
       else Finish None)"

definition settle_authz :: "ACMEChallenge \<Rightarrow> acme_thread" where
  "settle_authz ch =
     dbop (GetACMEAuthorization (ch_AuthzID ch)) (\<lambda>res. case res of
       Inl _ \<Rightarrow> Finish None
     | Inr authz \<Rightarrow>
       dbop (UpdateACMEAuthorizationStatus (az_ID authz) ''valid'') (\<lambda>res. case res of
         Inl _ \<Rightarrow> Finish None
       | Inr _ \<Rightarrow> settle_order authz))"

definition accept_challenge :: "ACMEChallenge \<Rightarrow> int \<Rightarrow> acme_thread" where
  "accept_challenge ch t =
     dbop (UpdateACMEChallengeStatus (ch_ID ch) ''valid'' (Some t) '''' '''') (\<lambda>res. case res of
       Inl _ \<Rightarrow> Finish None
     | Inr _ \<Rightarrow> settle_authz ch)"

definition key_authorization :: "ACMEChallenge \<Rightarrow> json \<Rightarrow> string" where
  "key_authorization ch jwk = ch_Token ch @ ''.'' @ (case jwkThumbprint jwk of Inl _ \<Rightarrow> '''' | Inr t \<Rightarrow> t)"

definition validateChallenge :: "acme_Server \<Rightarrow> ACMEChallenge \<Rightarrow> ACMEAccount \<Rightarrow> acme_thread" where
  "validateChallenge srv ch acct =
     ask_now (\<lambda>t.
       if ac_AutoApproveChallenge (sv_cfg srv) then accept_challenge ch t
       else performHTTP01 srv ch (key_authorization ch (aa_JWK acct)) (\<lambda>res. case res of
         Some err \<Rightarrow> dbop (UpdateACMEChallengeStatus (ch_ID ch) ''invalid'' None ''unauthorized'' (error_text err)) (\<lambda>_. Finish None)
       | None \<Rightarrow> accept_challenge ch t))"

end
