(* ===== verification/AcmeFinalize.thy ===== *)
theory AcmeFinalize
  imports Acme
begin

text \<open>
  \<open>src/internal/acme/finalize.go\<close>: finalizing an order, the three ways of issuing a certificate
  (through the proxied CA, by the local CA with an embedded proof, and as a certificate of the
  log), serving it, and the routes of the server. The server is a \<open>machine\<close> of theory Threads.
\<close>

section \<open>Finalize\<close>

definition csr_names :: "CertificateRequest \<Rightarrow> string set" where
  "csr_names csr =
     (if nm_CommonName (csr_Subject csr) \<noteq> '''' then {ToLower (nm_CommonName (csr_Subject csr))} else {}) \<union>
     set (map ToLower (csr_DNSNames csr))"

text \<open>The first identifier of the order that the request does not name.\<close>

definition missing_ident :: "CertificateRequest \<Rightarrow> Ident list \<Rightarrow> Ident option" where
  "missing_ident csr idents = List.find (\<lambda>i. ToLower (id_Value i) \<notin> csr_names csr) idents"

text \<open>The identifiers stored with the order; an error of the decoder is ignored.\<close>

definition order_idents :: "ACMEOrder \<Rightarrow> Ident list" where
  "order_idents order = (case dec_slice dec_ident [] (ao_Identifiers order) of Inl _ \<Rightarrow> [] | Inr idents \<Rightarrow> idents)"

definition column :: "string \<Rightarrow> string \<Rightarrow> string \<Rightarrow> string option" where
  "column name v = [name \<mapsto> v]"

definition handleFinalize :: "acme_Server \<Rightarrow> string \<Rightarrow> acme_handler" where
  "handleFinalize srv orderID r reply =
     verifyJWS srv r True (\<lambda>res. case res of
       Inr (_, payload, Some acct) \<Rightarrow>
       dbop (GetACMEOrder orderID) (\<lambda>res. case res of
         Inl _ \<Rightarrow> reply (acmeError 404 ''orderNotFound'' ''order not found'')
       | Inr order \<Rightarrow>
         if ao_AccountID order \<noteq> aa_ID acct then reply (acmeError 403 ''unauthorized'' ''order does not belong to account'')
         else if ao_Status order \<noteq> ''ready'' then reply (acmeError 403 ''orderNotReady''
           (''order status is '' @ printed_q (ao_Status order) @ '', expected '' @ printed_q ''ready''))
         else case payload_json (string_field ''csr'') payload of
           Inl _ \<Rightarrow> reply (acmeError 400 ''malformed'' ''invalid finalize request'')
         | Inr text \<Rightarrow>
           (case base64url_DecodeString text of
              Inl _ \<Rightarrow> reply (acmeError 400 ''badCSR'' ''invalid CSR encoding'')
            | Inr csrDER \<Rightarrow>
              (case al_ParseCertificateRequest (sv_lib srv) csrDER of
                 Inl err \<Rightarrow> reply (acmeError 400 ''badCSR'' (''invalid CSR: '' @ error_text err))
               | Inr csr \<Rightarrow>
                 (case missing_ident csr (order_idents order) of
                    Some ident \<Rightarrow> reply (acmeError 400 ''badCSR'' (''CSR missing identifier '' @ printed_q (id_Value ident)))
                  | None \<Rightarrow>
                    (let csrPEM = al_pem_EncodeToMemory (sv_lib srv) (''CERTIFICATE REQUEST'', csrDER) in
                     dbop (UpdateACMEOrderStatus orderID ''processing'' (column ''csr'' (bytes_str csrPEM))) (\<lambda>res. case res of
                       Inl _ \<Rightarrow> reply (acmeError 500 ''serverInternal'' ''failed to update order'')
                     | Inr _ \<Rightarrow>
                       Go (JFinalize orderID csr csrPEM (order_idents order))
                         (getAuthzURLs srv orderID (\<lambda>urls.
                            reply (acme_json 200 [(''Location'', orderURL srv orderID)]
                              (renderOrder srv (order\<lparr>ao_Status := ''processing''\<rparr>)
                                (case urls of Inl _ \<Rightarrow> None | Inr us \<Rightarrow> Some us)))))))))))
     | Inr (_, _, None) \<Rightarrow> Finish None
     | Inl err \<Rightarrow> reply (acmeError 401 ''unauthorized'' (error_text err)))"

section \<open>Issuing\<close>

definition fail_order :: "string \<Rightarrow> string \<Rightarrow> goerr \<Rightarrow> acme_thread" where
  "fail_order orderID what err =
     dbop (UpdateACMEOrderStatus orderID ''invalid'' [''error_type'' \<mapsto> ''serverInternal'', ''error_detail'' \<mapsto> what @ error_text err])
       (\<lambda>_. Finish None)"

subsection \<open>Through the proxied CA\<close>

text \<open>The document that is sent to the CA.\<close>

definition ca_request :: "acme_Config \<Rightarrow> CertificateRequest \<Rightarrow> bytes \<Rightarrow> Ident list \<Rightarrow> int \<Rightarrow> int \<Rightarrow> json" where
  "ca_request cfg csr csrPEM idents t1 t2 =
     (let dnsNames = map id_Value idents; subject = csr_Subject csr;
          cn = (if nm_CommonName subject = '''' \<and> length dnsNames > 0 then dnsNames ! 0 else nm_CommonName subject);
          org = (if length (nm_Organization subject) > 0 then nm_Organization subject ! 0 else ''ACME Client'');
          country = (if length (nm_Country subject) > 0 then nm_Country subject ! 0 else ''US'') in
      JObj [(''cert_type'', JStr ''private_ssl''), (''csr'', JStr (bytes_str csrPEM)),
        (''extensions'', JObj [(''san'', JObj [(''dns_names'', if dnsNames = [] then JNull else JArr (map JStr dnsNames))])]),
        (''issuer'', JObj [(''id'', JStr (ac_CAID cfg))]),
        (''subject'', JObj [(''common_name'', JStr cn), (''country'', JStr country), (''organization_name'', JStr org)]),
        (''template_id'', JStr (ac_TemplateID cfg)),
        (''validity'', JObj [(''valid_from'', rfc3339 t1), (''valid_to'', rfc3339 (t2 + 365 * 24 * 3600 * second))])])"

definition proxyToCA :: "acme_Server \<Rightarrow> CertificateRequest \<Rightarrow> bytes \<Rightarrow> Ident list \<Rightarrow> (goerr + string \<Rightarrow> acme_thread) \<Rightarrow> acme_thread" where
  "proxyToCA srv csr csrPEM idents k =
     (let cfg = sv_cfg srv in
      ask_now (\<lambda>t1. ask_now (\<lambda>t2.
      ask_http (QPost (ac_CAProxyURL cfg @ ''/certificate-authority/api/v1/certificate'')
        [(''Content-Type'', ''application/json''), (''Accept'', ''application/json''), (''x-api-key'', ac_CAAPIKey cfg)]
        (ca_request cfg csr csrPEM idents t1 t2)) (\<lambda>res. case res of
        RequestFailed err \<Rightarrow> k (Inl (Wrap ''CA request: %w'' err))
      | ReadFailed err \<Rightarrow> k (Inl (Wrap ''read CA response: %w'' err))
      | Received status respBody \<Rightarrow>
          if status < 200 \<or> status \<ge> 300 then k (Inl (Errorf ''CA returned %d: %s''))
          else case payload_json (\<lambda>doc. case (string_field ''id'' doc, string_field ''serial_number'' doc) of
              (Inr _, Inr s) \<Rightarrow> Inr s | _ \<Rightarrow> Inl type_error) respBody of
            Inl err \<Rightarrow> k (Inl (Wrap ''parse CA response: %w'' err))
          | Inr serial \<Rightarrow> if serial = '''' then k (Inl (Errorf ''CA returned empty serial number'')) else k (Inr (ToUpper serial))))))"

text \<open>
  \<open>waitForAssertion\<close>: one look for every tick. The answer says how many ticks come before the
  deadline or the end of the context, and which error ends the wait.
\<close>

primrec poll_assertion :: "acme_Server \<Rightarrow> string \<Rightarrow> (goerr + string \<Rightarrow> acme_thread) \<Rightarrow> goerr \<Rightarrow> nat \<Rightarrow> acme_thread" where
  "poll_assertion srv serial k ended 0 = k (Inl ended)"
| "poll_assertion srv serial k ended (Suc n) =
     dbop (FindEntryBySerial serial) (\<lambda>res. case res of
       Inl _ \<Rightarrow> poll_assertion srv serial k ended n
     | Inr idx \<Rightarrow>
       dbop (GetAssertionBundle idx) (\<lambda>res. case res of
         Inl _ \<Rightarrow> poll_assertion srv serial k ended n
       | Inr ab \<Rightarrow>
         if ab_Stale ab then poll_assertion srv serial k ended n
         else k (Inr (ac_MTCBridgeURL (sv_cfg srv) @ ''/assertion/'' @ serial))))"

definition waitForAssertion :: "acme_Server \<Rightarrow> string \<Rightarrow> (goerr + string \<Rightarrow> acme_thread) \<Rightarrow> acme_thread" where
  "waitForAssertion srv serial k =
     Ask QWait (\<lambda>a. case a of AWait n ended \<Rightarrow> poll_assertion srv serial k ended n | _ \<Rightarrow> Finish None)"

definition issue_via_CA :: "acme_Server \<Rightarrow> string \<Rightarrow> CertificateRequest \<Rightarrow> bytes \<Rightarrow> Ident list \<Rightarrow> acme_thread" where
  "issue_via_CA srv orderID csr csrPEM idents =
     proxyToCA srv csr csrPEM idents (\<lambda>res. case res of
       Inl err \<Rightarrow> fail_order orderID ''CA issuance failed: '' err
     | Inr serial \<Rightarrow>
       dbop (UpdateACMEOrderStatus orderID ''processing'' (column ''cert_serial'' serial)) (\<lambda>_.
       waitForAssertion srv serial (\<lambda>res. case res of
         Inl err \<Rightarrow> dbop (UpdateACMEOrderStatus orderID ''valid'' (column ''certificate_url'' (certURL srv orderID))) (\<lambda>_. Finish None)
       | Inr assertionURL \<Rightarrow>
         dbop (UpdateACMEOrderStatus orderID ''valid''
           [''certificate_url'' \<mapsto> certURL srv orderID, ''assertion_url'' \<mapsto> assertionURL]) (\<lambda>_. Finish None))))"

subsection \<open>From the log\<close>

text \<open>
  Appending an entry, signing a checkpoint and computing the path of the entry from the stored
  nodes: the same steps in both local modes, with their error texts. Without a result the
  computation of the path has panicked.
\<close>

definition log_and_prove :: "acme_Server \<Rightarrow> string \<Rightarrow> LogEntry \<Rightarrow> (int \<Rightarrow> Checkpoint \<Rightarrow> hash list \<Rightarrow> acme_thread) \<Rightarrow> acme_thread" where
  "log_and_prove srv orderID entry k =
     dbop (AppendDirectEntry entry) (\<lambda>res. case res of
       Inl err \<Rightarrow> fail_order orderID ''log append failed: '' err
     | Inr leafIdx \<Rightarrow>
       dbop (CreateCheckpoint (sv_crypto srv) (sv_cosigner srv)) (\<lambda>res. case res of
         Inl err \<Rightarrow> fail_order orderID ''checkpoint failed: '' err
       | Inr cp \<Rightarrow>
         Op (\<lambda>w. w) (\<lambda>w. case InclusionProofFromNodes leafIdx (cp_TreeSize cp) (node_at (aw_db w)) of
           None \<Rightarrow> Finish None
         | Some (Inl err) \<Rightarrow> fail_order orderID ''inclusion proof failed: '' err
         | Some (Inr proofHashes) \<Rightarrow> k leafIdx cp proofHashes)))"

definition store_cert :: "acme_Server \<Rightarrow> LocalCA \<Rightarrow> string \<Rightarrow> string \<Rightarrow> bytes \<Rightarrow> string \<Rightarrow> acme_thread" where
  "store_cert srv ca orderID what finalCertDER serialHex =
     dbop (SetOrderFinalCertDER orderID finalCertDER (CACertDER ca)) (\<lambda>res. case res of
       Inl err \<Rightarrow> fail_order orderID what err
     | Inr _ \<Rightarrow> dbop (UpdateACMEOrderStatus orderID ''valid''
         [''certificate_url'' \<mapsto> certURL srv orderID, ''cert_serial'' \<mapsto> serialHex]) (\<lambda>_. Finish None))"

definition processFinalizeLocalCA :: "acme_Server \<Rightarrow> LocalCA \<Rightarrow> string \<Rightarrow> CertificateRequest \<Rightarrow> Ident list \<Rightarrow> acme_thread" where
  "processFinalizeLocalCA srv ca orderID csr idents =
     ask_serial (\<lambda>drawn. ask_now (\<lambda>t.
     case IssuePrecert (al_x509 (sv_lib srv)) ca drawn t csr (map id_Value idents) 0 of
       Inl err \<Rightarrow> fail_order orderID ''local CA precert failed: '' err
     | Inr precert \<Rightarrow>
       (let serialHex = ToUpper (hex_EncodeToString (big_Bytes (nat (pr_Serial precert)))) in
        log_and_prove srv orderID (BuildPrecertEntry (pr_CanonicalTBS precert) serialHex) (\<lambda>leafIdx cp proofHashes.
        case IssueWithProof (al_x509 (sv_lib srv)) ca csr precert
            \<lparr>ip_LogOrigin = ac_MTCBridgeURL (sv_cfg srv), ip_LeafIndex = leafIdx, ip_TreeSize = cp_TreeSize cp,
             ip_RootHash = cp_RootHash cp, ip_ProofHashes = map hash_bytes proofHashes, ip_Checkpoint = cp_Body cp\<rparr> of
          Inl err \<Rightarrow> fail_order orderID ''final cert issuance failed: '' err
        | Inr finalCertDER \<Rightarrow> store_cert srv ca orderID ''store final cert failed: '' finalCertDER serialHex))))"

text \<open>A certificate of the log: the clock is read for both ends of the validity, and again by the CA.\<close>

definition ninety_days :: int where "ninety_days = 90 * 24 * 3600 * second"

definition mtc_proof :: "Checkpoint \<Rightarrow> hash list \<Rightarrow> MTCProof" where
  "mtc_proof cp proofHashes =
     \<lparr>mp_Start = 0, mp_End = word_of_int (cp_TreeSize cp), mp_InclusionProof = map hash_bytes proofHashes, mp_Signatures = []\<rparr>"

definition processFinalizeMTC :: "acme_Server \<Rightarrow> LocalCA \<Rightarrow> string \<Rightarrow> CertificateRequest \<Rightarrow> Ident list \<Rightarrow> acme_thread" where
  "processFinalizeMTC srv ca orderID csr idents =
     ask_now (\<lambda>t1. ask_now (\<lambda>t2.
     case BuildLogEntryFromCSR (ac_MTCBridgeURL (sv_cfg srv)) (time_UTC (truncate_second t1))
         (time_UTC (truncate_second t2 + ninety_days)) csr (map id_Value idents) of
       None \<Rightarrow> Finish None
     | Some (Inl err) \<Rightarrow> fail_order orderID ''MTC log entry build failed: '' err
     | Some (Inr logEntryDER) \<Rightarrow>
       (let serialHex = ''MTC-'' @ orderID in
        case BuildMTCEntry logEntryDER serialHex of
          Inl err \<Rightarrow> fail_order orderID ''MTC entry build failed: '' err
        | Inr entry \<Rightarrow>
          log_and_prove srv orderID entry (\<lambda>leafIdx cp proofHashes. ask_now (\<lambda>t3.
          case IssueMTCCert ca t3 csr (map id_Value idents) 0 leafIdx (Some (mtc_proof cp proofHashes)) (ac_MTCBridgeURL (sv_cfg srv)) of
            None \<Rightarrow> Finish None
          | Some (Inl err) \<Rightarrow> fail_order orderID ''MTC cert build failed: '' err
          | Some (Inr finalCertDER) \<Rightarrow> store_cert srv ca orderID ''store cert failed: '' finalCertDER serialHex)))))"

definition processFinalize :: "acme_Server \<Rightarrow> string \<Rightarrow> CertificateRequest \<Rightarrow> bytes \<Rightarrow> Ident list \<Rightarrow> acme_thread" where
  "processFinalize srv orderID csr csrPEM idents =
     (case sv_localCA srv of
        Some ca \<Rightarrow>
          if ac_MTCMode (sv_cfg srv) then processFinalizeMTC srv ca orderID csr idents
          else processFinalizeLocalCA srv ca orderID csr idents
      | None \<Rightarrow> issue_via_CA srv orderID csr csrPEM idents)"

definition goroutine_of :: "acme_Server \<Rightarrow> job \<Rightarrow> acme_thread" where
  "goroutine_of srv j = (case j of
     JValidate ch acct \<Rightarrow> validateChallenge srv ch acct
   | JFinalize orderID csr csrPEM idents \<Rightarrow> processFinalize srv orderID csr csrPEM idents)"

section \<open>Serving the certificate\<close>

text \<open>The certificate inside the data of a log entry: its length stands in bytes two to five.\<close>

definition entry_payload :: "bytes \<Rightarrow> bytes" where
  "entry_payload certDER =
     (if length certDER > 6 then
        (let entryLen = le_nat (take 4 (drop 2 certDER)) in
         if 6 + entryLen \<le> length certDER then take entryLen (drop 6 certDER) else certDER)
      else certDER)"

definition pem_chain :: "bytes \<Rightarrow> response" where
  "pem_chain certPEM = \<lparr>rs_Status = 200, rs_Header = [(''Content-Type'', ''application/pem-certificate-chain'')], rs_Body = Raw certPEM\<rparr>"

definition certificate_from_log :: "acme_Server \<Rightarrow> ACMEOrder \<Rightarrow> (response \<Rightarrow> acme_thread) \<Rightarrow> acme_thread" where
  "certificate_from_log srv order reply =
     dbop (FindEntryBySerial (ao_CertSerial order)) (\<lambda>res. case res of
       Inl _ \<Rightarrow> reply (acmeError 404 ''orderNotFound'' ''certificate not found in log'')
     | Inr idx \<Rightarrow>
       dbop (GetEntry idx) (\<lambda>res. case res of
         Inl _ \<Rightarrow> reply (acmeError 500 ''serverInternal'' ''failed to retrieve certificate'')
       | Inr entry \<Rightarrow>
         (let certPEM = al_pem_EncodeToMemory (sv_lib srv) (''CERTIFICATE'', entry_payload (le_EntryData entry)) in
          if ao_AssertionURL order \<noteq> '''' then
            dbop (GetAssertionBundleBySerial (ao_CertSerial order)) (\<lambda>res. case res of
              Inl _ \<Rightarrow> reply (pem_chain certPEM)
            | Inr ab \<Rightarrow> reply (pem_chain (certPEM @ str_bytes [NL] @ str_bytes (ab_BundlePEM ab))))
          else reply (pem_chain certPEM))))"

definition handleCertificate :: "acme_Server \<Rightarrow> string \<Rightarrow> acme_handler" where
  "handleCertificate srv orderID r reply =
     verifyJWS srv r True (\<lambda>res. case res of
       Inr (_, _, Some acct) \<Rightarrow>
       dbop (GetACMEOrder orderID) (\<lambda>res. case res of
         Inl _ \<Rightarrow> reply (acmeError 404 ''orderNotFound'' ''order not found'')
       | Inr order \<Rightarrow>
         if ao_AccountID order \<noteq> aa_ID acct then reply (acmeError 403 ''unauthorized'' ''order does not belong to account'')
         else if ao_Status order \<noteq> ''valid'' then reply (acmeError 403 ''orderNotReady'' ''certificate not yet available'')
         else if ao_CertSerial order = '''' then reply (acmeError 404 ''orderNotFound'' ''no certificate serial'')
         else
           dbop (GetOrderFinalCertDER orderID) (\<lambda>res. case res of
             Inl _ \<Rightarrow> certificate_from_log srv order reply
           | Inr (finalDER, caDER) \<Rightarrow>
             if length finalDER > 0 then
               reply (pem_chain (al_pem_EncodeToMemory (sv_lib srv) (''CERTIFICATE'', finalDER) @
                 (if length caDER > 0 then al_pem_EncodeToMemory (sv_lib srv) (''CERTIFICATE'', caDER) else [])))
             else certificate_from_log srv order reply))
     | Inr (_, _, None) \<Rightarrow> Finish None
     | Inl err \<Rightarrow> reply (acmeError 401 ''unauthorized'' (error_text err)))"

definition GetOrderCount :: "int io" where
  "GetOrderCount = query (\<lambda>d. Inr (int (length (acme_orders d))))"

definition GetAccountCount :: "int io" where
  "GetAccountCount = query (\<lambda>d. Inr (int (length (acme_accounts d))))"

section \<open>The server\<close>

text \<open>
  The routes: the handler for a path, with the methods it is registered for. A pattern for
  \<open>GET\<close> also takes \<open>HEAD\<close>.
\<close>

definition acme_route :: "acme_Server \<Rightarrow> string \<Rightarrow> (string set \<times> acme_handler) option" where
  "acme_route srv p =
     (case tl (Split CHR ''/'' p) of
        [a, b] \<Rightarrow>
          if a \<noteq> ''acme'' then None
          else if b = ''directory'' then Some ({''GET'', ''HEAD''}, handleDirectory srv)
          else if b = ''new-nonce'' then Some ({''HEAD'', ''GET'', ''POST''}, handleNewNonce)
          else if b = ''new-account'' then Some ({''POST''}, handleNewAccount srv)
          else if b = ''new-order'' then Some ({''POST''}, handleNewOrder srv)
          else None
      | [a, b, i] \<Rightarrow>
          if a \<noteq> ''acme'' \<or> i = '''' then None
          else if b = ''order'' then Some ({''POST''}, handleOrder srv i)
          else if b = ''authz'' then Some ({''POST''}, handleAuthorization srv i)
          else if b = ''challenge'' then Some ({''POST''}, handleChallenge srv i)
          else if b = ''certificate'' then Some ({''POST''}, handleCertificate srv i)
          else None
      | [a, b, i, c] \<Rightarrow>
          if a = ''acme'' \<and> b = ''order'' \<and> i \<noteq> '''' \<and> c = ''finalize'' then Some ({''POST''}, handleFinalize srv i) else None
      | _ \<Rightarrow> None)"

text \<open>The headers that are set first stand last; a handler that sets one again overrides it.\<close>

definition acme_ServeHTTP :: "acme_Server \<Rightarrow> request \<Rightarrow> acme_thread" where
  "acme_ServeHTTP srv r =
     newNonce (\<lambda>nonce.
       let reply = (\<lambda>resp. Finish (Some (resp\<lparr>rs_Header := rs_Header resp @
             [(''Replay-Nonce'', nonce), (''Content-Type'', ''application/json'')]\<rparr>))) in
       case acme_route srv (rq_Path r) of
         None \<Rightarrow> reply (http_Error ''404 page not found'' 404)
       | Some (methods, handler) \<Rightarrow>
           if rq_Method r \<in> methods then handler r reply else reply (http_Error ''Method Not Allowed'' 405))"

text \<open>
  What else happens to the state: the rest of the program works on other tables, the clock and
  the faults of the database change, and the cleanup of the nonces runs.
\<close>

definition same_acme :: "db \<Rightarrow> db \<Rightarrow> bool" where
  "same_acme d d' \<longleftrightarrow> acme_accounts d' = acme_accounts d \<and> acme_orders d' = acme_orders d \<and>
     acme_authorizations d' = acme_authorizations d \<and> acme_challenges d' = acme_challenges d"

definition elsewhere :: "acme_world \<Rightarrow> acme_world \<Rightarrow> bool" where
  "elsewhere w w' \<longleftrightarrow> same_acme (aw_db w) (aw_db w') \<and> aw_io w' = aw_io w \<and>
     (aw_nonces w' = aw_nonces w \<or> (\<exists>t. aw_nonces w' = cleanupNonces t (aw_nonces w)))"

definition acme_machine :: "acme_Server \<Rightarrow> (acme_world, question, answer, job, response option) machine" where
  "acme_machine srv =
     \<lparr>goroutine = goroutine_of srv, answers = answered, heard = (\<lambda>q a w. w\<lparr>aw_io := aw_io w @ [(q, a)]\<rparr>),
      arrives = (\<lambda>t. \<exists>r. t = acme_ServeHTTP srv r), outside = elsewhere\<rparr>"

definition acme_start :: "db \<Rightarrow> acme_world" where
  "acme_start d = \<lparr>aw_db = d, aw_nonces = (\<lambda>_. None), aw_io = []\<rparr>"

end
