(* ===== verification/AcmeInvariant.thy ===== *)
theory AcmeInvariant
  imports AcmeFinalize
begin

text \<open>
  Safety of the ACME server under every interleaving of its handlers and goroutines: what its
  tables say is kept true by each single operation (locale \<open>guarantee\<close> of theory Threads,
  interpreted here on the server).
\<close>

section \<open>The invariant\<close>

text \<open>
  A host has proved control for a challenge: the server looked its addresses up and found none
  it must not contact, fetched the challenge file from it and found the key authorization of
  some account key.
\<close>

definition host_proved :: "acme_lib \<Rightarrow> (question \<times> answer) list \<Rightarrow> ACMEChallenge \<Rightarrow> string \<Rightarrow> bool" where
  "host_proved lib io ch host \<longleftrightarrow>
     (\<exists>addrs. (QLookupHost (http01_host lib host), AHosts (Inr addrs)) \<in> set io \<and> bad_address lib addrs = None) \<and>
     (\<exists>status body jwk. (QGet (challenge_file host (ch_Token ch)), AHttp (Received status body)) \<in> set io \<and>
        TrimSpace (bytes_str (take 1024 body)) = key_authorization ch jwk)"

definition approved :: "acme_Server \<Rightarrow> acme_world \<Rightarrow> ACMEAuthorization \<Rightarrow> bool" where
  "approved srv w a \<longleftrightarrow> ac_AutoApproveChallenge (sv_cfg srv) \<or>
     (\<exists>ch\<in>set (acme_challenges (aw_db w)). \<exists>host. ch_AuthzID ch = az_ID a \<and>
        string_field ''value'' (az_Identifier a) = Inr host \<and> host_proved (sv_lib srv) (aw_io w) ch host)"

text \<open>The authorizations of an order, in the order of its identifiers.\<close>

definition authzs_of :: "db \<Rightarrow> string \<Rightarrow> ACMEAuthorization list" where
  "authzs_of d oid = filter (\<lambda>a. az_OrderID a = oid) (acme_authorizations d)"

definition acme_inv :: "acme_Server \<Rightarrow> acme_world \<Rightarrow> bool" where
  "acme_inv srv w \<longleftrightarrow> (let d = aw_db w in
     distinct (map ao_ID (acme_orders d)) \<and> distinct (map az_ID (acme_authorizations d)) \<and>
     az_OrderID ` set (acme_authorizations d) \<subseteq> ao_ID ` set (acme_orders d) \<and>
     (\<forall>a\<in>set (acme_authorizations d). az_Status a = ''valid'' \<longrightarrow> approved srv w a) \<and>
     (\<forall>r\<in>set (acme_orders d). ao_Identifiers r = JArr (map az_Identifier (authzs_of d (ao_ID r)))) \<and>
     (\<forall>r\<in>set (acme_orders d). ao_Status r \<noteq> ''pending'' \<longrightarrow> (\<forall>a\<in>set (authzs_of d (ao_ID r)). az_Status a = ''valid'')) \<and>
     (\<forall>r\<in>set (acme_orders d). ao_FinalCertDER r \<noteq> [] \<longrightarrow> ao_Status r \<noteq> ''pending''))"

text \<open>What every operation respects: rows stay, and what was established stays.\<close>

definition acme_grows :: "acme_world \<Rightarrow> acme_world \<Rightarrow> bool" where
  "acme_grows w w' \<longleftrightarrow> (let d = aw_db w; d' = aw_db w' in
     (\<forall>r\<in>set (acme_orders d). \<exists>r'\<in>set (acme_orders d'). ao_ID r' = ao_ID r \<and> ao_Identifiers r' = ao_Identifiers r \<and>
        (ao_Status r \<noteq> ''pending'' \<longrightarrow> ao_Status r' \<noteq> ''pending'')) \<and>
     (\<forall>a\<in>set (acme_authorizations d). \<exists>a'\<in>set (acme_authorizations d'). az_ID a' = az_ID a \<and> az_OrderID a' = az_OrderID a \<and>
        az_Identifier a' = az_Identifier a \<and> (az_Status a = ''valid'' \<longrightarrow> az_Status a' = ''valid'')) \<and>
     (\<forall>a'\<in>set (acme_authorizations d'). az_OrderID a' \<in> ao_ID ` set (acme_orders d) \<longrightarrow>
        (\<exists>a\<in>set (acme_authorizations d). az_ID a = az_ID a' \<and> az_OrderID a = az_OrderID a')) \<and>
     (\<forall>c\<in>set (acme_challenges d). \<exists>c'\<in>set (acme_challenges d'). ch_AuthzID c' = ch_AuthzID c \<and> ch_Token c' = ch_Token c) \<and>
     set (aw_io w) \<subseteq> set (aw_io w'))"

text \<open>What a goroutine finds when it starts.\<close>

definition acme_job_ok :: "job \<Rightarrow> acme_world \<Rightarrow> bool" where
  "acme_job_ok j w = (case j of
     JValidate ch _ \<Rightarrow> \<exists>c\<in>set (acme_challenges (aw_db w)). ch_AuthzID c = ch_AuthzID ch \<and> ch_Token c = ch_Token ch
   | JFinalize oid _ _ _ \<Rightarrow> \<exists>r\<in>set (acme_orders (aw_db w)). ao_ID r = oid \<and> ao_Status r \<noteq> ''pending'')"

abbreviation acme_safe :: "acme_Server \<Rightarrow> acme_thread \<Rightarrow> acme_world \<Rightarrow> bool" where
  "acme_safe srv \<equiv> safe (acme_machine srv) (acme_inv srv) acme_grows acme_job_ok"

lemma acme_grows_refl: "acme_grows w w"
  by (auto simp: acme_grows_def Let_def)

lemma acme_grows_trans:
  assumes "acme_grows w w'" "acme_grows w' w''"
  shows "acme_grows w w''"
proof -
  let ?O = "\<lambda>w. set (acme_orders (aw_db w))" and ?A = "\<lambda>w. set (acme_authorizations (aw_db w))"
  note g = assms [unfolded acme_grows_def Let_def]
  have "\<exists>r'\<in>?O w''. ao_ID r' = ao_ID r \<and> ao_Identifiers r' = ao_Identifiers r \<and>
      (ao_Status r \<noteq> ''pending'' \<longrightarrow> ao_Status r' \<noteq> ''pending'')" if r: "r \<in> ?O w" for r
  proof -
    obtain r' where r': "r' \<in> ?O w'" "ao_ID r' = ao_ID r" "ao_Identifiers r' = ao_Identifiers r"
        "ao_Status r \<noteq> ''pending'' \<longrightarrow> ao_Status r' \<noteq> ''pending''"
      using g(1) r by blast
    obtain r'' where "r'' \<in> ?O w''" "ao_ID r'' = ao_ID r'" "ao_Identifiers r'' = ao_Identifiers r'"
        "ao_Status r' \<noteq> ''pending'' \<longrightarrow> ao_Status r'' \<noteq> ''pending''"
      using g(2) r'(1) by blast
    with r' show ?thesis by auto
  qed
  moreover have "\<exists>a'\<in>?A w''. az_ID a' = az_ID a \<and> az_OrderID a' = az_OrderID a \<and>
      az_Identifier a' = az_Identifier a \<and> (az_Status a = ''valid'' \<longrightarrow> az_Status a' = ''valid'')" if a: "a \<in> ?A w" for a
  proof -
    obtain a' where a': "a' \<in> ?A w'" "az_ID a' = az_ID a" "az_OrderID a' = az_OrderID a" "az_Identifier a' = az_Identifier a"
        "az_Status a = ''valid'' \<longrightarrow> az_Status a' = ''valid''"
      using g(1) a by blast
    obtain a'' where "a'' \<in> ?A w''" "az_ID a'' = az_ID a'" "az_OrderID a'' = az_OrderID a'" "az_Identifier a'' = az_Identifier a'"
        "az_Status a' = ''valid'' \<longrightarrow> az_Status a'' = ''valid''"
      using g(2) a'(1) by blast
    with a' show ?thesis by auto
  qed
  moreover have "\<exists>a\<in>?A w. az_ID a = az_ID a'' \<and> az_OrderID a = az_OrderID a''"
    if a'': "a'' \<in> ?A w''" "az_OrderID a'' \<in> ao_ID ` ?O w" for a''
  proof -
    obtain r where "r \<in> ?O w" "az_OrderID a'' = ao_ID r" using a''(2) by blast
    moreover from this(1) obtain r' where "r' \<in> ?O w'" "ao_ID r' = ao_ID r" using g(1) by blast
    ultimately have "az_OrderID a'' \<in> ao_ID ` ?O w'" by (metis image_eqI)
    then obtain a' where a': "a' \<in> ?A w'" "az_ID a' = az_ID a''" "az_OrderID a' = az_OrderID a''" using g(2) a''(1) by blast
    moreover from a' a''(2) obtain a where "a \<in> ?A w" "az_ID a = az_ID a'" "az_OrderID a = az_OrderID a'" using g(1) by auto
    ultimately show ?thesis by auto
  qed
  moreover have "\<forall>c\<in>set (acme_challenges (aw_db w)). \<exists>c'\<in>set (acme_challenges (aw_db w'')). ch_AuthzID c' = ch_AuthzID c \<and> ch_Token c' = ch_Token c"
    using g by (metis (no_types))
  moreover have "set (aw_io w) \<subseteq> set (aw_io w'')" using g by blast
  ultimately show ?thesis unfolding acme_grows_def Let_def by blast
qed

section \<open>Operations that leave orders, authorizations and challenges alone\<close>

definition same_orders :: "db \<Rightarrow> db \<Rightarrow> bool" where
  "same_orders d d' \<longleftrightarrow> acme_orders d' = acme_orders d \<and> acme_authorizations d' = acme_authorizations d \<and>
     acme_challenges d' = acme_challenges d"

definition keeps_orders :: "'a io \<Rightarrow> bool" where
  "keeps_orders m \<longleftrightarrow> (\<forall>d. same_orders d (snd (m d)))"

named_theorems keeps "operations that leave the tables of orders alone"

lemma same_orders_refl [simp]: "same_orders d d"
  by (simp add: same_orders_def)

lemma same_orders_trans: "same_orders d d' \<Longrightarrow> same_orders d' d'' \<Longrightarrow> same_orders d d''"
  by (simp add: same_orders_def)

lemma same_orders_sched [simp]:
  "same_orders d (d'\<lparr>db_sched := s\<rparr>) = same_orders d d'" "same_orders (d\<lparr>db_sched := s\<rparr>) d' = same_orders d d'"
  by (simp_all add: same_orders_def)

lemma keeps_orders_io_return [keeps]: "keeps_orders (io_return v)"
  by (simp add: keeps_orders_def io_return_def)

lemma keeps_orders_stmt:
  assumes "\<And>d v d'. f d = Inr (v, d') \<Longrightarrow> same_orders d d'"
  shows "keeps_orders (stmt f)"
proof -
  have "same_orders d (snd (stmt f d))" for d
    using assms [of "d\<lparr>db_sched := tl (db_sched d)\<rparr>"]
    by (auto simp: stmt_def Let_def split: list.splits bool.splits sum.splits)
  then show ?thesis by (simp add: keeps_orders_def)
qed

lemma keeps_orders_exec: "(\<And>d d'. f d = Inr d' \<Longrightarrow> same_orders d d') \<Longrightarrow> keeps_orders (exec f)"
  unfolding exec_def by (rule keeps_orders_stmt) (auto split: sum.splits)

lemma keeps_orders_query [keeps]: "keeps_orders (query f)"
  unfolding query_def by (rule keeps_orders_stmt) (auto split: sum.splits)

lemma keeps_orders_query_row [keeps]: "keeps_orders (query_row f)"
  by (simp add: query_row_def keeps)

lemma keeps_orders_noop [keeps]: "keeps_orders noop"
  unfolding noop_def by (rule keeps_orders_exec) simp

lemma keeps_orders_wrap [keeps]: "keeps_orders m \<Longrightarrow> keeps_orders (wrap msg m)"
  by (auto simp: keeps_orders_def wrap_def split: sum.splits prod.splits) (metis snd_conv)+

lemma keeps_orders_bind [keeps]:
  assumes "keeps_orders m" "\<And>v. keeps_orders (f v)"
  shows "keeps_orders (io_bind m f)"
proof -
  have "same_orders d (snd (io_bind m f d))" for d
    using assms(1) [unfolded keeps_orders_def, rule_format, of d] assms(2) [unfolded keeps_orders_def]
    by (auto simp: io_bind_def split: sum.splits prod.splits intro: same_orders_trans)
  then show ?thesis by (simp add: keeps_orders_def)
qed

lemma keeps_orders_for_each [keeps]: "(\<And>x. keeps_orders (f x)) \<Longrightarrow> keeps_orders (for_each f xs)"
  by (induction xs) (simp_all add: keeps)

lemma keeps_orders_tx [keeps]:
  assumes "keeps_orders m"
  shows "keeps_orders (tx m)"
proof -
  have "same_orders d (snd (tx m d))" for d
    using assms [unfolded keeps_orders_def, rule_format, of d] by (auto simp: tx_def split: sum.splits prod.splits)
  then show ?thesis by (simp add: keeps_orders_def)
qed

lemma keeps_orders_insert_log [keeps]: "keeps_orders (exec (insert_log_entry e))"
  by (rule keeps_orders_exec) (auto simp: insert_log_entry_def same_orders_def split: if_splits)

lemma keeps_orders_upsert [keeps]: "keeps_orders (exec (\<lambda>d. Inr (upsert_node l i h d)))"
  by (rule keeps_orders_exec) (auto simp: upsert_node_def same_orders_def)

lemma keeps_orders_account [keeps]: "keeps_orders (CreateACMEAccount acct)"
  unfolding CreateACMEAccount_def
  by (rule keeps_orders_wrap, rule keeps_orders_exec) (auto simp: same_orders_def split: if_splits)

lemma keeps_orders_reads [keeps]:
  "keeps_orders (GetACMEAccount i)" "keeps_orders (GetACMEAccountByThumbprint t)" "keeps_orders (GetACMEOrder i)"
  "keeps_orders (GetOrderFinalCertDER i)" "keeps_orders (GetACMEAuthorization i)" "keeps_orders (ListACMEAuthorizationsByOrder i)"
  "keeps_orders (GetACMEChallenge i)" "keeps_orders (ListACMEChallengesByAuthz i)" "keeps_orders (FindEntryBySerial s)"
  "keeps_orders (GetAssertionBundle n)" "keeps_orders (GetAssertionBundleBySerial s)" "keeps_orders (GetEntry n)"
  "keeps_orders TreeSize" "keeps_orders (GetTreeNode l n)"
  unfolding GetACMEAccount_def GetACMEAccountByThumbprint_def GetACMEOrder_def GetOrderFinalCertDER_def GetACMEAuthorization_def
    ListACMEAuthorizationsByOrder_def GetACMEChallenge_def ListACMEChallengesByAuthz_def FindEntryBySerial_def
    GetAssertionBundle_def GetAssertionBundleBySerial_def GetEntry_def TreeSize_def GetTreeNode_def
  by (intro keeps)+

lemma keeps_orders_nodes [keeps]: "keeps_orders (AppendEntry e)" "keeps_orders (SetTreeNode l i h)" "keeps_orders (SetTreeNodes ns)"
  unfolding AppendEntry_def SetTreeNode_def SetTreeNodes_def by (intro keeps)+

lemma same_orders_run: "keeps_orders m \<Longrightarrow> m d = (r, d') \<Longrightarrow> same_orders d d'"
  unfolding keeps_orders_def by (metis snd_conv)

lemma same_orders_collectNodes: "collectNodes level is d = (ns, d') \<Longrightarrow> same_orders d d'"
proof (induction level "is" d arbitrary: ns d' rule: collectNodes.induct)
  case (2 level idx "is" d)
  then show ?case
    by (auto split: sum.splits prod.splits dest!: same_orders_run [OF keeps_orders_reads(14)] intro: same_orders_trans)
qed simp

lemma same_orders_recomputeFrom: "recomputeFrom level oldSize newSize d = (r, d') \<Longrightarrow> same_orders d d'"
proof (induction level oldSize newSize d arbitrary: r d' rule: recomputeFrom.induct)
  case (1 level oldSize newSize d)
  have w: "same_orders d1 d2" if "wrap ''issuancelog: recompute level %d: %w'' (SetTreeNodes ns) d1 = (r, d2)" for ns d1 r d2
    using same_orders_run [of "wrap ''issuancelog: recompute level %d: %w'' (SetTreeNodes ns)", OF _ that] by (auto intro: keeps)
  show ?case
  proof (cases "level \<ge> 64 \<or> drop_bit (nat level) oldSize > drop_bit (nat level) (newSize - 1)")
    case True
    then show ?thesis using "1.prems" by (simp add: recomputeFrom.simps [of level] Let_def split: if_splits)
  next
    case False
    obtain ns d1 where c: "collectNodes level [drop_bit (nat level) oldSize..drop_bit (nat level) (newSize - 1)] d = (ns, d1)" by fastforce
    obtain x d2 where x: "wrap ''issuancelog: recompute level %d: %w'' (SetTreeNodes ns) d1 = (x, d2)" by fastforce
    have s: "same_orders d d1" "same_orders d d2" using same_orders_collectNodes [OF c] w [OF x] same_orders_trans by blast+
    show ?thesis
    proof (cases "length ns = 0 \<or> isl x")
      case True
      then show ?thesis using "1.prems" False s x c by (auto simp: recomputeFrom.simps [of level] Let_def split: if_splits sum.splits)
    next
      case nonl: False
      then obtain u where u: "x = Inr u" by (cases x) auto
      then have rec: "recomputeFrom (level + 1) oldSize newSize d2 = (r, d')"
        using "1.prems" False nonl x c by (simp add: recomputeFrom.simps [of level] Let_def split: if_splits)
      then have "same_orders d2 d'" using "1.IH" [OF _ refl refl _ c [symmetric] _ x [symmetric] u rec] False nonl by simp
      then show ?thesis using s(2) same_orders_trans by blast
    qed
  qed
qed

lemma keeps_orders_recompute [keeps]: "keeps_orders (recomputeInterior a b)"
  unfolding keeps_orders_def recomputeInterior_def using same_orders_recomputeFrom prod.collapse by metis

lemma same_orders_computeMTH: "computeMTH start n d = (r, d') \<Longrightarrow> same_orders d d'"
proof (induction start n d arbitrary: r d' rule: computeMTH.induct)
  case (1 start n d)
  let ?k = "doubled 1 n"
  show ?case
  proof (cases "n = 0 \<or> n = 1")
    case True
    then show ?thesis
      using "1.prems" by (auto simp: computeMTH.simps [of start n d] dest!: same_orders_run [OF keeps_orders_reads(14)])
  next
    case False
    obtain x d1 where x: "computeMTH start ?k d = (x, d1)" by fastforce
    have s: "same_orders d d1" using "1.IH"(1) [OF _ _ refl x] False by simp
    show ?thesis
    proof (cases x)
      case (Inl e)
      then show ?thesis using "1.prems" False x s by (simp add: computeMTH.simps [of start n d] Let_def)
    next
      case (Inr h)
      obtain y d2 where y: "computeMTH (start + int ?k) (n - ?k) d1 = (y, d2)" by fastforce
      have "same_orders d1 d2" using "1.IH"(2) [OF _ _ refl x [symmetric] Inr y] False by simp
      moreover have "d2 = d'"
        using "1.prems" False x y Inr by (cases y) (simp_all add: computeMTH.simps [of start n d] Let_def)
      ultimately show ?thesis using s same_orders_trans by blast
    qed
  qed
qed

lemma keeps_orders_computeRootHash [keeps]: "keeps_orders (computeRootHash n)"
proof -
  have "same_orders d d'" if h: "computeRootHash n d = (r, d')" for d d' r
  proof (cases "n = 0 \<or> n = 1")
    case True
    then show ?thesis using h by (auto simp: computeRootHash_def dest: same_orders_run [OF keeps_orders_reads(14)])
  next
    case False
    obtain x d1 where x: "GetTreeNode (int (halvings n)) 0 d = (x, d1)" by fastforce
    have s: "same_orders d d1" using same_orders_run [OF keeps_orders_reads(14) x] .
    show ?thesis
    proof (cases x)
      case (Inl e)
      then have "computeMTH 0 (nat n) d1 = (r, d')" using h x False by (simp add: computeRootHash_def)
      then show ?thesis using s same_orders_computeMTH same_orders_trans by blast
    next
      case (Inr y)
      then show ?thesis using h x False s by (simp add: computeRootHash_def)
    qed
  qed
  then show ?thesis unfolding keeps_orders_def by (metis prod.collapse)
qed

lemma keeps_orders_SaveCheckpoint [keeps]: "keeps_orders (SaveCheckpoint cp)"
  unfolding SaveCheckpoint_def
  by (intro keeps) (rule keeps_orders_stmt, auto simp: same_orders_def Let_def split: if_splits sum.splits)

lemma keeps_orders_log [keeps]: "keeps_orders (AppendDirectEntry e)" "keeps_orders (CreateCheckpoint cr cs)"
proof -
  show "keeps_orders (AppendDirectEntry e)" unfolding AppendDirectEntry_def by (intro keeps)
  have "keeps_orders (\<lambda>d. case SignCheckpoint cr cs n h of
      Inl err \<Rightarrow> (Inl (Wrap ''issuancelog.CreateCheckpoint: sign: %w'' err), d)
    | Inr (note', sig) \<Rightarrow> wrap ''issuancelog.CreateCheckpoint: save: %w'' (SaveCheckpoint (f note' sig d)) d)" for n h f
    using keeps_orders_wrap [OF keeps_orders_SaveCheckpoint]
    by (auto simp: keeps_orders_def split: sum.split)
  moreover have "keeps_orders (\<lambda>d. (Inl e, d))" for e :: goerr by (simp add: keeps_orders_def)
  ultimately show "keeps_orders (CreateCheckpoint cr cs)"
    unfolding CreateCheckpoint_def by (intro keeps) (auto intro!: keeps)
qed

section \<open>Threads that are safe in every state\<close>

definition always :: "acme_Server \<Rightarrow> acme_thread \<Rightarrow> bool" where
  "always srv t \<longleftrightarrow> (\<forall>w. acme_safe srv t w)"

lemma acme_inv_same:
  assumes "acme_inv srv w" "same_orders (aw_db w) (aw_db w')" "set (aw_io w) \<subseteq> set (aw_io w')"
  shows "acme_inv srv w' \<and> acme_grows w w'"
proof -
  have "approved srv w' a" if "approved srv w a" for a
    using that assms(2,3) unfolding approved_def host_proved_def same_orders_def by (metis (no_types, lifting) subsetD)
  then show ?thesis
    using assms acme_grows_refl [of w]
    by (auto simp: acme_inv_def acme_grows_def authzs_of_def same_orders_def Let_def)
qed

lemma safe_dbop:
  assumes "\<And>w' r d'. acme_grows w w' \<Longrightarrow> acme_inv srv w' \<Longrightarrow> m (aw_db w') = (r, d') \<Longrightarrow>
    acme_inv srv (w'\<lparr>aw_db := d'\<rparr>) \<and> acme_grows w' (w'\<lparr>aw_db := d'\<rparr>) \<and> acme_safe srv (k r) (w'\<lparr>aw_db := d'\<rparr>)"
  shows "acme_safe srv (dbop m k) w"
  unfolding dbop_def using assms by (auto simp: prod_eq_iff)

lemma safe_read:
  assumes "keeps_orders m"
    and "\<And>w' r d'. acme_grows w w' \<Longrightarrow> acme_inv srv w' \<Longrightarrow> m (aw_db w') = (r, d') \<Longrightarrow> same_orders (aw_db w') d' \<Longrightarrow>
      acme_grows w (w'\<lparr>aw_db := d'\<rparr>) \<Longrightarrow> acme_inv srv (w'\<lparr>aw_db := d'\<rparr>) \<Longrightarrow> acme_safe srv (k r) (w'\<lparr>aw_db := d'\<rparr>)"
  shows "acme_safe srv (dbop m k) w"
proof (rule safe_dbop)
  fix w' r d'
  assume *: "acme_grows w w'" "acme_inv srv w'" "m (aw_db w') = (r, d')"
  have s: "same_orders (aw_db w') d'" using same_orders_run [OF assms(1) *(3)] .
  then have i: "acme_inv srv (w'\<lparr>aw_db := d'\<rparr>) \<and> acme_grows w' (w'\<lparr>aw_db := d'\<rparr>)"
    using acme_inv_same [OF *(2), of "w'\<lparr>aw_db := d'\<rparr>"] by simp
  moreover have "acme_safe srv (k r) (w'\<lparr>aw_db := d'\<rparr>)"
    using assms(2) [OF * s] i acme_grows_trans [OF *(1)] by blast
  ultimately show "acme_inv srv (w'\<lparr>aw_db := d'\<rparr>) \<and> acme_grows w' (w'\<lparr>aw_db := d'\<rparr>) \<and> acme_safe srv (k r) (w'\<lparr>aw_db := d'\<rparr>)"
    by blast
qed

lemma acme_heard: "heard (acme_machine srv) q a w = w\<lparr>aw_io := aw_io w @ [(q, a)]\<rparr>" "answers (acme_machine srv) = answered"
  by (simp_all add: acme_machine_def)

lemma safe_ask:
  assumes "\<And>w' a. acme_grows w w' \<Longrightarrow> acme_inv srv w' \<Longrightarrow> answered q a \<Longrightarrow> (q, a) \<in> set (aw_io w') \<Longrightarrow> acme_safe srv (k a) w'"
  shows "acme_safe srv (Ask q k) w"
proof -
  have "acme_inv srv (w'\<lparr>aw_io := aw_io w' @ [(q, a)]\<rparr>) \<and> acme_grows w' (w'\<lparr>aw_io := aw_io w' @ [(q, a)]\<rparr>) \<and>
      acme_safe srv (k a) (w'\<lparr>aw_io := aw_io w' @ [(q, a)]\<rparr>)"
    if "acme_grows w w'" "acme_inv srv w'" "answered q a" for w' a
  proof -
    let ?v = "w'\<lparr>aw_io := aw_io w' @ [(q, a)]\<rparr>"
    have i: "acme_inv srv ?v \<and> acme_grows w' ?v" using acme_inv_same [OF that(2), of ?v] by auto
    then have "acme_safe srv (k a) ?v" using assms [of ?v a] that acme_grows_trans [OF that(1)] by auto
    with i show ?thesis by blast
  qed
  then show ?thesis by (auto simp: acme_heard)
qed

lemma safe_nonces:
  assumes "\<And>w'. acme_grows w w' \<Longrightarrow> acme_inv srv w' \<Longrightarrow> acme_safe srv (k w') (w'\<lparr>aw_nonces := f w'\<rparr>)"
  shows "acme_safe srv (Op (\<lambda>w. w\<lparr>aw_nonces := f w\<rparr>) k) w"
proof -
  have "acme_inv srv (w'\<lparr>aw_nonces := f w'\<rparr>) \<and> acme_grows w' (w'\<lparr>aw_nonces := f w'\<rparr>)" if "acme_inv srv w'" for w'
    using acme_inv_same [OF that, of "w'\<lparr>aw_nonces := f w'\<rparr>"] by simp
  then show ?thesis using assms by simp
qed

named_theorems always_intro "threads that are safe in every state"

lemma always_Finish [always_intro]: "always srv (Finish r)"
  by (simp add: always_def)

lemma always_dbop [always_intro]: "keeps_orders m \<Longrightarrow> (\<And>r. always srv (k r)) \<Longrightarrow> always srv (dbop m k)"
  unfolding always_def by (blast intro: safe_read)

lemma always_Ask: "(\<And>a. answered q a \<Longrightarrow> always srv (k a)) \<Longrightarrow> always srv (Ask q k)"
  unfolding always_def by (blast intro: safe_ask)

lemma always_asks [always_intro]:
  "(\<And>t. always srv (k1 t)) \<Longrightarrow> always srv (ask_now k1)" "(\<And>s. always srv (k2 s)) \<Longrightarrow> always srv (ask_nonce k2)"
  "(\<And>r. always srv (k3 r)) \<Longrightarrow> always srv (ask_serial k3)" "(\<And>r. always srv (k4 r)) \<Longrightarrow> always srv (ask_hosts h k4)"
  "(\<And>r. always srv (k5 r)) \<Longrightarrow> always srv (ask_http q k5)"
  unfolding ask_now_def ask_nonce_def ask_serial_def ask_hosts_def ask_http_def
  by (rule always_Ask; simp add: always_Finish split: answer.split)+

lemma always_nonces: "(\<And>w. always srv (k w)) \<Longrightarrow> always srv (Op (\<lambda>w. w\<lparr>aw_nonces := f w\<rparr>) k)"
  unfolding always_def by (blast intro: safe_nonces)

lemma always_newNonce [always_intro]: "(\<And>n. always srv (k n)) \<Longrightarrow> always srv (newNonce k)"
  unfolding newNonce_def by (intro always_intro always_nonces)

lemma always_consumeNonce [always_intro]: "(\<And>b. always srv (k b)) \<Longrightarrow> always srv (consumeNonce n k)"
  unfolding consumeNonce_def by (intro always_intro always_nonces)

lemma always_newID [always_intro]: "(\<And>i. always srv (k i)) \<Longrightarrow> always srv (newID k)"
  unfolding newID_def by (intro always_intro)

lemma always_verifyJWS [always_intro]:
  assumes "\<And>res. always srv (k res)"
  shows "always srv (verifyJWS srv r kid k)"
  unfolding verifyJWS_def
  by (auto intro!: always_intro assms keeps split: sum.split prod.split option.split)

lemma always_getAuthzURLs [always_intro]: "(\<And>r. always srv (k r)) \<Longrightarrow> always srv (getAuthzURLs srv i k)"
  unfolding getAuthzURLs_def by (auto intro!: always_intro keeps split: sum.split)

section \<open>Operations that write\<close>

lemma exec_cases:
  assumes "exec f d = (r, d')"
  obtains (failed) e where "r = Inl e" "same_orders d d'" "db_now d' = db_now d"
    | (ran) d1 where "r = Inr ()" "same_orders d d1" "db_now d1 = db_now d" "f d1 = Inr d'"
proof -
  have "(\<exists>e s. r = Inl e \<and> d' = d\<lparr>db_sched := s\<rparr>) \<or> (\<exists>s. r = Inr () \<and> f (d\<lparr>db_sched := s\<rparr>) = Inr d')"
    using assms unfolding exec_def stmt_def Let_def
    by (auto split: list.splits bool.splits sum.splits prod.splits)
  then show ?thesis
  proof (elim disjE exE conjE)
    fix e s assume "r = Inl e" "d' = d\<lparr>db_sched := s\<rparr>"
    then show thesis by (intro failed) simp_all
  next
    fix s assume "r = Inr ()" "f (d\<lparr>db_sched := s\<rparr>) = Inr d'"
    then show thesis by (intro ran [of "d\<lparr>db_sched := s\<rparr>"]) simp_all
  qed
qed

lemma wrap_cases:
  assumes "wrap msg m d = (r, d')"
  obtains (failed) e where "r = Inl (Wrap msg e)" "m d = (Inl e, d')" | (ran) v where "r = Inr v" "m d = (Inr v, d')"
  using assms that by (auto simp: wrap_def split: sum.splits prod.splits)

text \<open>An order is started when it is past \<open>pending\<close>; then its authorizations are valid.\<close>

definition started :: "string \<Rightarrow> acme_world \<Rightarrow> bool" where
  "started oid w \<longleftrightarrow> (\<exists>r\<in>set (acme_orders (aw_db w)). ao_ID r = oid \<and> ao_Status r \<noteq> ''pending'')"

definition all_valid :: "string \<Rightarrow> acme_world \<Rightarrow> bool" where
  "all_valid oid w \<longleftrightarrow> oid \<in> ao_ID ` set (acme_orders (aw_db w)) \<and> (\<forall>a\<in>set (authzs_of (aw_db w) oid). az_Status a = ''valid'')"

lemma distinct_key: "distinct (map f xs) \<Longrightarrow> x \<in> set xs \<Longrightarrow> y \<in> set xs \<Longrightarrow> f x = f y \<Longrightarrow> x = y"
  by (simp add: distinct_map inj_on_def)

lemma started_all_valid: "acme_inv srv w \<Longrightarrow> started oid w \<Longrightarrow> all_valid oid w"
  by (auto simp: acme_inv_def started_def all_valid_def Let_def)

lemma started_status:
  "acme_inv srv w \<Longrightarrow> started oid w \<Longrightarrow> r \<in> set (acme_orders (aw_db w)) \<Longrightarrow> ao_ID r = oid \<Longrightarrow> ao_Status r \<noteq> ''pending''"
  unfolding acme_inv_def started_def Let_def by (metis distinct_key)

text \<open>Facts that the other threads do not destroy.\<close>

definition stable :: "acme_Server \<Rightarrow> (acme_world \<Rightarrow> bool) \<Rightarrow> bool" where
  "stable srv P \<longleftrightarrow> (\<forall>w w'. acme_grows w w' \<longrightarrow> acme_inv srv w' \<longrightarrow> P w \<longrightarrow> P w')"

lemma stable_conj [simp]: "stable srv P \<Longrightarrow> stable srv Q \<Longrightarrow> stable srv (\<lambda>w. P w \<and> Q w)"
  unfolding stable_def by blast

lemma stable_const [simp]: "stable srv (\<lambda>_. b)"
  by (simp add: stable_def)

lemma stable_started [simp]: "stable srv (started oid)"
  unfolding stable_def started_def acme_grows_def Let_def by fastforce

lemma stable_all_valid [simp]: "stable srv (all_valid oid)"
  unfolding stable_def
proof (intro allI impI)
  fix w w'
  assume g: "acme_grows w w'" and i: "acme_inv srv w'" and v: "all_valid oid w"
  note g' = g [unfolded acme_grows_def Let_def]
  obtain r where r: "r \<in> set (acme_orders (aw_db w))" "ao_ID r = oid" using v by (auto simp: all_valid_def)
  then obtain r' where "r' \<in> set (acme_orders (aw_db w'))" "ao_ID r' = oid" using g' by metis
  moreover have "az_Status a' = ''valid''" if a': "a' \<in> set (authzs_of (aw_db w') oid)" for a'
  proof -
    have *: "a' \<in> set (acme_authorizations (aw_db w'))" "az_OrderID a' = oid" using a' by (auto simp: authzs_of_def)
    then obtain a where a: "a \<in> set (acme_authorizations (aw_db w))" "az_ID a = az_ID a'" "az_OrderID a = oid"
      using g' r by (metis image_eqI)
    then have "az_Status a = ''valid''" using v by (auto simp: all_valid_def authzs_of_def)
    then obtain a'' where "a'' \<in> set (acme_authorizations (aw_db w'))" "az_ID a'' = az_ID a'" "az_Status a'' = ''valid''"
      using g' a by metis
    with * i show ?thesis unfolding acme_inv_def Let_def by (metis distinct_key)
  qed
  ultimately show "all_valid oid w'" by (auto simp: all_valid_def)
qed

text \<open>A thread that is safe wherever a stable fact holds.\<close>

definition under :: "acme_Server \<Rightarrow> (acme_world \<Rightarrow> bool) \<Rightarrow> acme_thread \<Rightarrow> bool" where
  "under srv P t \<longleftrightarrow> (\<forall>w. P w \<longrightarrow> acme_safe srv t w)"

lemma always_under: "always srv t \<Longrightarrow> under srv P t"
  by (simp add: under_def always_def)

lemma under_weaken: "under srv Q t \<Longrightarrow> (\<And>w. P w \<Longrightarrow> Q w) \<Longrightarrow> under srv P t"
  by (simp add: under_def)

lemma under_dbop:
  assumes "stable srv P"
    and "\<And>w r d'. P w \<Longrightarrow> acme_inv srv w \<Longrightarrow> m (aw_db w) = (r, d') \<Longrightarrow>
      acme_inv srv (w\<lparr>aw_db := d'\<rparr>) \<and> acme_grows w (w\<lparr>aw_db := d'\<rparr>) \<and> Q r (w\<lparr>aw_db := d'\<rparr>)"
    and "\<And>r. under srv (\<lambda>w. P w \<and> Q r w) (k r)"
  shows "under srv P (dbop m k)"
  unfolding under_def
proof (intro allI impI)
  fix w assume "P w"
  show "acme_safe srv (dbop m k) w"
  proof (rule safe_dbop)
    fix w' r d' assume *: "acme_grows w w'" "acme_inv srv w'" "m (aw_db w') = (r, d')"
    have P: "P w'" using assms(1) * \<open>P w\<close> unfolding stable_def by blast
    note i = assms(2) [OF P *(2,3)]
    then have "P (w'\<lparr>aw_db := d'\<rparr>)" using assms(1) P unfolding stable_def by blast
    with i assms(3) show "acme_inv srv (w'\<lparr>aw_db := d'\<rparr>) \<and> acme_grows w' (w'\<lparr>aw_db := d'\<rparr>) \<and> acme_safe srv (k r) (w'\<lparr>aw_db := d'\<rparr>)"
      unfolding under_def by blast
  qed
qed

lemma under_read:
  assumes "stable srv P" "keeps_orders m"
    and "\<And>w r d'. P w \<Longrightarrow> acme_inv srv (w\<lparr>aw_db := d'\<rparr>) \<Longrightarrow> m (aw_db w) = (r, d') \<Longrightarrow> same_orders (aw_db w) d' \<Longrightarrow> Q r (w\<lparr>aw_db := d'\<rparr>)"
    and "\<And>r. under srv (\<lambda>w. P w \<and> Q r w) (k r)"
  shows "under srv P (dbop m k)"
proof (rule under_dbop [OF assms(1) _ assms(4)])
  fix w r d' assume *: "P w" "acme_inv srv w" "m (aw_db w) = (r, d')"
  have s: "same_orders (aw_db w) d'" using same_orders_run [OF assms(2) *(3)] .
  then show "acme_inv srv (w\<lparr>aw_db := d'\<rparr>) \<and> acme_grows w (w\<lparr>aw_db := d'\<rparr>) \<and> Q r (w\<lparr>aw_db := d'\<rparr>)"
    using acme_inv_same [OF *(2), of "w\<lparr>aw_db := d'\<rparr>"] assms(3) [OF *(1) _ *(3) s] by simp
qed

lemma under_skip:
  assumes "stable srv P" "keeps_orders m" "\<And>r. under srv P (k r)"
  shows "under srv P (dbop m k)"
  by (rule under_read [OF assms(1,2), of "\<lambda>_ _. True"]) (use assms(3) in simp_all)

lemma under_Ask:
  assumes "stable srv P" "\<And>a. answered q a \<Longrightarrow> under srv (\<lambda>w. P w \<and> (q, a) \<in> set (aw_io w)) (k a)"
  shows "under srv P (Ask q k)"
  unfolding under_def
proof (intro allI impI)
  fix w assume "P w"
  show "acme_safe srv (Ask q k) w"
  proof (rule safe_ask)
    fix w' a assume *: "acme_grows w w'" "acme_inv srv w'" "answered q a" "(q, a) \<in> set (aw_io w')"
    then have "P w'" using assms(1) \<open>P w\<close> unfolding stable_def by blast
    with * assms(2) [OF *(3)] show "acme_safe srv (k a) w'" unfolding under_def by blast
  qed
qed

lemma under_now: "stable srv P \<Longrightarrow> (\<And>t. under srv P (k t)) \<Longrightarrow> under srv P (ask_now k)"
  unfolding ask_now_def
  by (rule under_Ask) (auto split: answer.split simp: under_def)

lemma under_serial: "stable srv P \<Longrightarrow> (\<And>t. under srv P (k t)) \<Longrightarrow> under srv P (ask_serial k)"
  unfolding ask_serial_def
  by (rule under_Ask) (auto split: answer.split simp: under_def)

lemma under_http:
  assumes "stable srv P" "\<And>r. under srv (\<lambda>w. P w \<and> (q, AHttp r) \<in> set (aw_io w)) (k r)"
  shows "under srv P (ask_http q k)"
  unfolding ask_http_def
  by (rule under_Ask [OF assms(1)]) (use assms(2) in \<open>auto split: answer.split simp: under_def\<close>)

lemma under_Finish: "under srv P (Finish r)"
  by (simp add: under_def)

subsection \<open>Updates of one row\<close>

text \<open>
  An update of the orders that keeps identifiers, moves an order past \<open>pending\<close> only when its
  authorizations are valid and stores certificates only for started orders.
\<close>

lemma inv_orders_mapped:
  assumes "acme_inv srv w" "acme_orders d' = map g (acme_orders (aw_db w))"
    "acme_authorizations d' = acme_authorizations (aw_db w)" "acme_challenges d' = acme_challenges (aw_db w)"
    and "\<And>r. ao_ID (g r) = ao_ID r" "\<And>r. ao_Identifiers (g r) = ao_Identifiers r"
    and "\<And>r. r \<in> set (acme_orders (aw_db w)) \<Longrightarrow> ao_Status (g r) \<noteq> ''pending'' \<Longrightarrow> ao_Status r \<noteq> ''pending'' \<or> all_valid (ao_ID r) w"
    and "\<And>r. r \<in> set (acme_orders (aw_db w)) \<Longrightarrow> ao_Status r \<noteq> ''pending'' \<Longrightarrow> ao_Status (g r) \<noteq> ''pending''"
    and "\<And>r. r \<in> set (acme_orders (aw_db w)) \<Longrightarrow> ao_FinalCertDER (g r) \<noteq> [] \<Longrightarrow> ao_FinalCertDER r \<noteq> [] \<or> ao_Status (g r) \<noteq> ''pending''"
  shows "acme_inv srv (w\<lparr>aw_db := d'\<rparr>) \<and> acme_grows w (w\<lparr>aw_db := d'\<rparr>)"
proof
  note i = assms(1) [unfolded acme_inv_def Let_def]
  have m: "map ao_ID (acme_orders d') = map ao_ID (acme_orders (aw_db w))" using assms(2,5) by simp
  then have im: "ao_ID ` set (acme_orders d') = ao_ID ` set (acme_orders (aw_db w))" by (metis set_map)
  have au: "authzs_of d' = authzs_of (aw_db w)" using assms(3) by (simp add: authzs_of_def fun_eq_iff)
  have ap: "approved srv (w\<lparr>aw_db := d'\<rparr>) = approved srv w" using assms(4) by (simp add: approved_def fun_eq_iff)
  have v: "\<forall>a\<in>set (authzs_of (aw_db w) (ao_ID r)). az_Status a = ''valid''"
    if "r \<in> set (acme_orders (aw_db w))" "ao_Status (g r) \<noteq> ''pending''" for r
    using assms(7) [OF that] i that(1) by (auto simp: all_valid_def)
  have c: "ao_Status (g r) \<noteq> ''pending''" if "r \<in> set (acme_orders (aw_db w))" "ao_FinalCertDER (g r) \<noteq> []" for r
    using assms(9) [OF that] assms(8) [OF that(1)] i that(1) by blast
  show "acme_inv srv (w\<lparr>aw_db := d'\<rparr>)"
    unfolding acme_inv_def Let_def using i m im au ap v c assms(2,3,5,6) by (simp del: map_map)
  have "\<forall>r\<in>set (acme_orders (aw_db w)). \<exists>r'\<in>set (acme_orders d'). ao_ID r' = ao_ID r \<and> ao_Identifiers r' = ao_Identifiers r \<and>
      (ao_Status r \<noteq> ''pending'' \<longrightarrow> ao_Status r' \<noteq> ''pending'')"
    using assms(2,5,6,8) by auto
  then show "acme_grows w (w\<lparr>aw_db := d'\<rparr>)"
    unfolding acme_grows_def Let_def using assms(3,4) by auto
qed

lemma under_order_status:
  assumes "stable srv P" "\<And>w. P w \<Longrightarrow> acme_inv srv w \<Longrightarrow> all_valid oid w" "st \<noteq> ''pending''" "\<And>r. under srv P (k r)"
  shows "under srv P (dbop (UpdateACMEOrderStatus oid st u) k)"
proof (rule under_dbop [OF assms(1), of _ "\<lambda>_ _. True"])
  fix w r d'
  assume P: "P w" and i: "acme_inv srv w" and m: "UpdateACMEOrderStatus oid st u (aw_db w) = (r, d')"
  show "acme_inv srv (w\<lparr>aw_db := d'\<rparr>) \<and> acme_grows w (w\<lparr>aw_db := d'\<rparr>) \<and> True"
    using m unfolding UpdateACMEOrderStatus_def
  proof (cases rule: wrap_cases)
    case (failed e)
    from failed(2) have "same_orders (aw_db w) d'" by (cases rule: exec_cases) auto
    then show ?thesis using acme_inv_same [OF i, of "w\<lparr>aw_db := d'\<rparr>"] by simp
  next
    case (ran v)
    from ran(2) show ?thesis
    proof (cases rule: exec_cases)
      case (failed e)
      then show ?thesis using acme_inv_same [OF i, of "w\<lparr>aw_db := d'\<rparr>"] by simp
    next
      case (ran d1)
      define f where "f = (\<lambda>r. r\<lparr>ao_Status := st, ao_UpdatedAt := db_now d1, ao_CSR := set_column u ''csr'' (ao_CSR r),
          ao_CertificateURL := set_column u ''certificate_url'' (ao_CertificateURL r), ao_CertSerial := set_column u ''cert_serial'' (ao_CertSerial r),
          ao_AssertionURL := set_column u ''assertion_url'' (ao_AssertionURL r), ao_ErrorType := set_column u ''error_type'' (ao_ErrorType r),
          ao_ErrorDetail := set_column u ''error_detail'' (ao_ErrorDetail r)\<rparr> :: ACMEOrder)"
      have d': "d' = d1\<lparr>acme_orders := map (\<lambda>r. if ao_ID r = oid then f r else r) (acme_orders d1)\<rparr>" using ran(4) unfolding f_def by simp
      have f: "ao_ID (f r) = ao_ID r" "ao_Identifiers (f r) = ao_Identifiers r" "ao_Status (f r) = st" for r by (simp_all add: f_def)
      have "acme_inv srv (w\<lparr>aw_db := d'\<rparr>) \<and> acme_grows w (w\<lparr>aw_db := d'\<rparr>)"
        by (rule inv_orders_mapped [OF i, of d' "\<lambda>r. if ao_ID r = oid then f r else r"])
          (use ran(2) assms(2) [OF P i] assms(3) in \<open>auto simp: same_orders_def d' f split: if_splits\<close>)
      then show ?thesis by simp
    qed
  qed
next
  show "under srv (\<lambda>w. P w \<and> True) (k r)" for r using assms(4) by simp
qed

lemma under_final_cert:
  assumes "stable srv P" "\<And>w. P w \<Longrightarrow> started oid w" "\<And>r. under srv P (k r)"
  shows "under srv P (dbop (SetOrderFinalCertDER oid der ca) k)"
proof (rule under_dbop [OF assms(1), of _ "\<lambda>_ _. True"])
  fix w r d'
  assume P: "P w" and i: "acme_inv srv w" and m: "SetOrderFinalCertDER oid der ca (aw_db w) = (r, d')"
  show "acme_inv srv (w\<lparr>aw_db := d'\<rparr>) \<and> acme_grows w (w\<lparr>aw_db := d'\<rparr>) \<and> True"
    using m unfolding SetOrderFinalCertDER_def
  proof (cases rule: wrap_cases)
    case (failed e)
    from failed(2) have "same_orders (aw_db w) d'" by (cases rule: exec_cases) auto
    then show ?thesis using acme_inv_same [OF i, of "w\<lparr>aw_db := d'\<rparr>"] by simp
  next
    case (ran v)
    from ran(2) show ?thesis
    proof (cases rule: exec_cases)
      case (failed e)
      then show ?thesis using acme_inv_same [OF i, of "w\<lparr>aw_db := d'\<rparr>"] by simp
    next
      case (ran d1)
      define f where "f = (\<lambda>r. r\<lparr>ao_FinalCertDER := der, ao_CACertDER := ca, ao_UpdatedAt := db_now d1\<rparr> :: ACMEOrder)"
      have d': "d' = d1\<lparr>acme_orders := map (\<lambda>r. if ao_ID r = oid then f r else r) (acme_orders d1)\<rparr>" using ran(4) unfolding f_def by simp
      have f: "ao_ID (f r) = ao_ID r" "ao_Identifiers (f r) = ao_Identifiers r" "ao_Status (f r) = ao_Status r" for r by (simp_all add: f_def)
      have "acme_inv srv (w\<lparr>aw_db := d'\<rparr>) \<and> acme_grows w (w\<lparr>aw_db := d'\<rparr>)"
        by (rule inv_orders_mapped [OF i, of d' "\<lambda>r. if ao_ID r = oid then f r else r"])
          (use ran(2) started_status [OF i assms(2) [OF P]] in \<open>auto simp: same_orders_def d' f split: if_splits\<close>)
      then show ?thesis by simp
    qed
  qed
next
  show "under srv (\<lambda>w. P w \<and> True) (k r)" for r using assms(3) by simp
qed

lemma inv_challenges_mapped:
  assumes "acme_inv srv w" "acme_orders d' = acme_orders (aw_db w)"
    "acme_authorizations d' = acme_authorizations (aw_db w)" "acme_challenges d' = map g (acme_challenges (aw_db w))"
    and "\<And>c. ch_AuthzID (g c) = ch_AuthzID c" "\<And>c. ch_Token (g c) = ch_Token c"
  shows "acme_inv srv (w\<lparr>aw_db := d'\<rparr>) \<and> acme_grows w (w\<lparr>aw_db := d'\<rparr>)"
proof
  have h: "host_proved lib io (g c) host = host_proved lib io c host" for lib io c host
    using assms(6) by (simp add: host_proved_def key_authorization_def)
  have "approved srv (w\<lparr>aw_db := d'\<rparr>) a" if "approved srv w a" for a
    using that assms(4,5) h by (auto simp: approved_def)
  then show "acme_inv srv (w\<lparr>aw_db := d'\<rparr>)"
    using assms(1-3) by (auto simp: acme_inv_def authzs_of_def Let_def)
  have "\<forall>c\<in>set (acme_challenges (aw_db w)). \<exists>c'\<in>set (acme_challenges d'). ch_AuthzID c' = ch_AuthzID c \<and> ch_Token c' = ch_Token c"
    using assms(4-6) by auto
  then show "acme_grows w (w\<lparr>aw_db := d'\<rparr>)"
    unfolding acme_grows_def Let_def using assms(2,3) by auto
qed

lemma under_challenge_status:
  assumes "stable srv P" "\<And>r. under srv P (k r)"
  shows "under srv P (dbop (UpdateACMEChallengeStatus i' st t x y) k)"
proof (rule under_dbop [OF assms(1), of _ "\<lambda>_ _. True"])
  fix w r d'
  assume i: "acme_inv srv w" and m: "UpdateACMEChallengeStatus i' st t x y (aw_db w) = (r, d')"
  show "acme_inv srv (w\<lparr>aw_db := d'\<rparr>) \<and> acme_grows w (w\<lparr>aw_db := d'\<rparr>) \<and> True"
    using m unfolding UpdateACMEChallengeStatus_def
  proof (cases rule: wrap_cases)
    case (failed e)
    from failed(2) have "same_orders (aw_db w) d'" by (cases rule: exec_cases) auto
    then show ?thesis using acme_inv_same [OF i, of "w\<lparr>aw_db := d'\<rparr>"] by simp
  next
    case (ran v)
    from ran(2) show ?thesis
    proof (cases rule: exec_cases)
      case (failed e)
      then show ?thesis using acme_inv_same [OF i, of "w\<lparr>aw_db := d'\<rparr>"] by simp
    next
      case (ran d1)
      from ran(4) show ?thesis
        using inv_challenges_mapped [OF i, of d' "\<lambda>r. if ch_ID r = i' then r\<lparr>ch_Status := st, ch_Validated := t, ch_ErrorType := x, ch_ErrorDetail := y\<rparr> else r"]
          ran(2) by (auto simp: same_orders_def)
    qed
  qed
next
  show "under srv (\<lambda>w. P w \<and> True) (k r)" for r using assms(2) by simp
qed

subsection \<open>Validation of an authorization\<close>

lemma approved_grows:
  assumes "acme_grows w w'" "approved srv w a" "az_ID a' = az_ID a" "az_Identifier a' = az_Identifier a"
  shows "approved srv w' a'"
proof (cases "ac_AutoApproveChallenge (sv_cfg srv)")
  case False
  with assms(2) obtain ch host where ch: "ch \<in> set (acme_challenges (aw_db w))" "ch_AuthzID ch = az_ID a"
      "string_field ''value'' (az_Identifier a) = Inr host" "host_proved (sv_lib srv) (aw_io w) ch host"
    by (auto simp: approved_def)
  obtain ch' where ch': "ch' \<in> set (acme_challenges (aw_db w'))" "ch_AuthzID ch' = ch_AuthzID ch" "ch_Token ch' = ch_Token ch"
    using assms(1) ch(1) unfolding acme_grows_def Let_def by blast
  have "set (aw_io w) \<subseteq> set (aw_io w')" using assms(1) unfolding acme_grows_def Let_def by blast
  then have "host_proved (sv_lib srv) (aw_io w') ch' host"
    using ch(4) ch'(3) unfolding host_proved_def key_authorization_def by auto
  with ch ch' assms(3,4) show ?thesis unfolding approved_def by auto
qed (simp add: approved_def)

definition authz_known :: "ACMEAuthorization \<Rightarrow> acme_world \<Rightarrow> bool" where
  "authz_known z w \<longleftrightarrow> (\<exists>a\<in>set (acme_authorizations (aw_db w)). az_ID a = az_ID z \<and> az_OrderID a = az_OrderID z \<and>
     az_Identifier a = az_Identifier z)"

definition authz_valid :: "string \<Rightarrow> acme_world \<Rightarrow> bool" where
  "authz_valid aid w \<longleftrightarrow> (\<exists>a\<in>set (acme_authorizations (aw_db w)). az_ID a = aid \<and> az_Status a = ''valid'')"

definition proved :: "acme_Server \<Rightarrow> string \<Rightarrow> acme_world \<Rightarrow> bool" where
  "proved srv aid w \<longleftrightarrow> ac_AutoApproveChallenge (sv_cfg srv) \<or>
     (\<exists>a\<in>set (acme_authorizations (aw_db w)). az_ID a = aid \<and> approved srv w a)"

definition challenge_known :: "ACMEChallenge \<Rightarrow> acme_world \<Rightarrow> bool" where
  "challenge_known ch w \<longleftrightarrow> (\<exists>c\<in>set (acme_challenges (aw_db w)). ch_AuthzID c = ch_AuthzID ch \<and> ch_Token c = ch_Token ch)"

lemma stable_authz_known [simp]: "stable srv (authz_known z)"
  unfolding stable_def authz_known_def acme_grows_def Let_def by metis

lemma stable_authz_valid [simp]: "stable srv (authz_valid aid)"
  unfolding stable_def authz_valid_def acme_grows_def Let_def by metis

lemma stable_challenge_known [simp]: "stable srv (challenge_known ch)"
  unfolding stable_def challenge_known_def acme_grows_def Let_def by metis

lemma stable_io [simp]: "stable srv (\<lambda>w. x \<in> set (aw_io w))"
  unfolding stable_def acme_grows_def Let_def by blast

lemma stable_proved [simp]: "stable srv (proved srv aid)"
  unfolding stable_def
proof (intro allI impI)
  fix w w' assume g: "acme_grows w w'" and p: "proved srv aid w"
  show "proved srv aid w'"
  proof (cases "ac_AutoApproveChallenge (sv_cfg srv)")
    case False
    then obtain a where a: "a \<in> set (acme_authorizations (aw_db w))" "az_ID a = aid" "approved srv w a"
      using p by (auto simp: proved_def)
    obtain a' where "a' \<in> set (acme_authorizations (aw_db w'))" "az_ID a' = az_ID a" "az_Identifier a' = az_Identifier a"
      using g a(1) unfolding acme_grows_def Let_def by blast
    with a approved_grows [OF g a(3)] show ?thesis unfolding proved_def by auto
  qed (simp add: proved_def)
qed

lemma authzs_of_mapped:
  assumes "\<And>a. az_OrderID (g a) = az_OrderID a" "acme_authorizations d' = map g (acme_authorizations d)"
  shows "authzs_of d' oid = map g (authzs_of d oid)"
  unfolding authzs_of_def assms(2) by (simp add: filter_map o_def assms(1))

lemma inv_authz_valid:
  assumes "acme_inv srv w" "proved srv aid w"
    and "acme_orders d' = acme_orders (aw_db w)" "acme_challenges d' = acme_challenges (aw_db w)"
    and "acme_authorizations d' = map (\<lambda>a. if az_ID a = aid then a\<lparr>az_Status := ''valid''\<rparr> else a) (acme_authorizations (aw_db w))"
  shows "acme_inv srv (w\<lparr>aw_db := d'\<rparr>) \<and> acme_grows w (w\<lparr>aw_db := d'\<rparr>)"
proof
  let ?g = "\<lambda>a. if az_ID a = aid then a\<lparr>az_Status := ''valid''\<rparr> else a"
  let ?w = "w\<lparr>aw_db := d'\<rparr>"
  note i = assms(1) [unfolded acme_inv_def Let_def]
  have g: "az_ID (?g a) = az_ID a" "az_OrderID (?g a) = az_OrderID a" "az_Identifier (?g a) = az_Identifier a" for a by simp_all
  have au: "authzs_of d' oid = map ?g (authzs_of (aw_db w) oid)" for oid by (rule authzs_of_mapped) (use assms(5) in simp_all)
  have ap: "approved srv ?w (?g a) = approved srv w a" for a using assms(4) by (simp add: approved_def)
  have m: "map az_ID (acme_authorizations d') = map az_ID (acme_authorizations (aw_db w))"
    "map az_OrderID (acme_authorizations d') = map az_OrderID (acme_authorizations (aw_db w))"
    using assms(5) by simp_all
  then have "distinct (map az_ID (acme_authorizations d'))" using i by simp
  moreover have "az_OrderID ` set (acme_authorizations d') \<subseteq> ao_ID ` set (acme_orders d')"
    using i m(2) assms(3) by (metis set_map)
  moreover have "approved srv ?w a'" if a': "a' \<in> set (acme_authorizations d')" "az_Status a' = ''valid''" for a'
  proof -
    obtain a where a: "a \<in> set (acme_authorizations (aw_db w))" "a' = ?g a" using a'(1) assms(5) by auto
    show ?thesis
    proof (cases "az_ID a = aid \<and> \<not> ac_AutoApproveChallenge (sv_cfg srv)")
      case True
      then obtain z where z: "z \<in> set (acme_authorizations (aw_db w))" "az_ID z = aid" "approved srv w z"
        using assms(2) by (auto simp: proved_def)
      then have "z = a" using i a(1) True distinct_key by metis
      with z(3) ap a(2) show ?thesis by simp
    next
      case False
      then show ?thesis
        using i a a'(2) ap [of a] by (cases "ac_AutoApproveChallenge (sv_cfg srv)") (auto simp: approved_def split: if_splits)
    qed
  qed
  moreover have "\<forall>r\<in>set (acme_orders d'). ao_Identifiers r = JArr (map az_Identifier (authzs_of d' (ao_ID r)))"
    using i assms(3) by (simp add: au o_def g(3) cong: map_cong)
  moreover have "\<forall>r\<in>set (acme_orders d'). ao_Status r \<noteq> ''pending'' \<longrightarrow> (\<forall>a\<in>set (authzs_of d' (ao_ID r)). az_Status a = ''valid'')"
    using i assms(3) by (auto simp: au)
  ultimately show "acme_inv srv ?w"
    using i assms(3) unfolding acme_inv_def Let_def by simp
  have mem: "?g a \<in> set (acme_authorizations d')" if "a \<in> set (acme_authorizations (aw_db w))" for a
    unfolding assms(5) set_map using that by (rule imageI)
  have "\<forall>a\<in>set (acme_authorizations (aw_db w)). \<exists>a'\<in>set (acme_authorizations d'). az_ID a' = az_ID a \<and> az_OrderID a' = az_OrderID a \<and>
      az_Identifier a' = az_Identifier a \<and> (az_Status a = ''valid'' \<longrightarrow> az_Status a' = ''valid'')"
    by (intro ballI bexI [OF _ mem]) simp_all
  moreover have "\<forall>a'\<in>set (acme_authorizations d'). \<exists>a\<in>set (acme_authorizations (aw_db w)). az_ID a = az_ID a' \<and> az_OrderID a = az_OrderID a'"
    using assms(5) by auto
  ultimately show "acme_grows w ?w"
    unfolding acme_grows_def Let_def using assms(3,4) by auto
qed

lemma under_authz_valid:
  assumes "stable srv P" "\<And>w. P w \<Longrightarrow> proved srv aid w" "\<And>w. P w \<Longrightarrow> \<exists>a\<in>set (acme_authorizations (aw_db w)). az_ID a = aid"
    and "\<And>r. under srv (\<lambda>w. P w \<and> (isl r \<or> authz_valid aid w)) (k r)"
  shows "under srv P (dbop (UpdateACMEAuthorizationStatus aid ''valid'') k)"
proof (rule under_dbop [OF assms(1) _ assms(4)])
  fix w r d'
  assume P: "P w" and i: "acme_inv srv w" and m: "UpdateACMEAuthorizationStatus aid ''valid'' (aw_db w) = (r, d')"
  show "acme_inv srv (w\<lparr>aw_db := d'\<rparr>) \<and> acme_grows w (w\<lparr>aw_db := d'\<rparr>) \<and> (isl r \<or> authz_valid aid (w\<lparr>aw_db := d'\<rparr>))"
    using m unfolding UpdateACMEAuthorizationStatus_def
  proof (cases rule: wrap_cases)
    case (failed e)
    from failed(2) have "same_orders (aw_db w) d'" by (cases rule: exec_cases) auto
    then show ?thesis using acme_inv_same [OF i, of "w\<lparr>aw_db := d'\<rparr>"] failed(1) by simp
  next
    case (ran v)
    from ran(2) show ?thesis
    proof (cases rule: exec_cases)
      case (ran d1)
      have d': "d' = d1\<lparr>acme_authorizations := map (\<lambda>a. if az_ID a = aid then a\<lparr>az_Status := ''valid''\<rparr> else a) (acme_authorizations d1)\<rparr>"
        using ran(4) by simp
      have "acme_inv srv (w\<lparr>aw_db := d'\<rparr>) \<and> acme_grows w (w\<lparr>aw_db := d'\<rparr>)"
        by (rule inv_authz_valid [OF i assms(2) [OF P]]) (use ran(2) in \<open>auto simp: same_orders_def d'\<close>)
      moreover have "authz_valid aid (w\<lparr>aw_db := d'\<rparr>)"
      proof -
        obtain a where a: "a \<in> set (acme_authorizations d1)" "az_ID a = aid" using assms(3) [OF P] ran(2) by (auto simp: same_orders_def)
        then have "a\<lparr>az_Status := ''valid''\<rparr> \<in> set (acme_authorizations d')" by (force simp: d')
        with a(2) show ?thesis unfolding authz_valid_def by (intro bexI) simp_all
      qed
      ultimately show ?thesis by simp
    qed (use \<open>r = Inr v\<close> in simp)
  qed
qed

subsection \<open>The goroutine of a challenge\<close>

lemma query_result:
  assumes "query f d = (Inr v, d')"
  obtains d1 where "same_orders d d1" "f d1 = Inr v"
proof -
  have "\<exists>s. f (d\<lparr>db_sched := s\<rparr>) = Inr v"
    using assms unfolding query_def stmt_def Let_def by (auto split: list.splits bool.splits sum.splits prod.splits)
  then show ?thesis using that by (metis same_orders_refl same_orders_sched(1))
qed

lemma query_row_result:
  assumes "query_row f d = (Inr v, d')"
  obtains d1 where "same_orders d d1" "v \<in> set (f d1)"
proof -
  obtain d1 where "same_orders d d1" "(case f d1 of [] \<Rightarrow> Inl ErrNoRows | r # _ \<Rightarrow> Inr r) = Inr v"
    using assms unfolding query_row_def by (rule query_result)
  then show ?thesis using that [of d1] by (auto split: list.splits)
qed

lemma GetACMEAuthorization_known:
  assumes "GetACMEAuthorization i (aw_db w) = (Inr a, d')"
  shows "authz_known a (w\<lparr>aw_db := d'\<rparr>) \<and> az_ID a = i"
proof -
  have s: "same_orders (aw_db w) d'" using same_orders_run [OF keeps_orders_reads(5) assms] .
  from assms obtain d1 where "same_orders (aw_db w) d1" "a \<in> set (filter (\<lambda>r. az_ID r = i) (acme_authorizations d1))"
    unfolding GetACMEAuthorization_def by (cases rule: wrap_cases) (auto elim: query_row_result)
  with s show ?thesis by (auto simp: authz_known_def same_orders_def)
qed

lemma under_settle_order: "under srv (\<lambda>w. authz_known z w \<and> authz_valid (az_ID z) w) (settle_order z)"
  unfolding settle_order_def
proof (rule under_read [of _ _ _ "\<lambda>r w. case r of Inl _ \<Rightarrow> True | Inr as \<Rightarrow> all_others_valid (az_ID z) as \<longrightarrow> all_valid (az_OrderID z) w"])
  fix w :: acme_world and r d'
  let ?v = "w\<lparr>aw_db := d'\<rparr>"
  assume P: "authz_known z w \<and> authz_valid (az_ID z) w" and i: "acme_inv srv ?v"
    and m: "ListACMEAuthorizationsByOrder (az_OrderID z) (aw_db w) = (r, d')" and s: "same_orders (aw_db w) d'"
  show "case r of Inl _ \<Rightarrow> True | Inr as \<Rightarrow> all_others_valid (az_ID z) as \<longrightarrow> all_valid (az_OrderID z) ?v"
  proof (cases r)
    case (Inr as)
    note m' = m [unfolded Inr]
    from m' obtain d1 where d1: "same_orders (aw_db w) d1" "as = filter (\<lambda>a. az_OrderID a = az_OrderID z) (acme_authorizations d1)"
      unfolding ListACMEAuthorizationsByOrder_def by (cases rule: wrap_cases) (auto elim: query_result)
    then have as: "as = authzs_of d' (az_OrderID z)" using s by (simp add: same_orders_def authzs_of_def)
    obtain a v where a: "a \<in> set (acme_authorizations d')" "az_ID a = az_ID z" "az_OrderID a = az_OrderID z"
      and v: "v \<in> set (acme_authorizations d')" "az_ID v = az_ID z" "az_Status v = ''valid''"
      using P s by (auto simp: authz_known_def authz_valid_def same_orders_def)
    note i' = i [unfolded acme_inv_def Let_def, simplified]
    have "az_OrderID z \<in> ao_ID ` set (acme_orders d')" using i' a(1,3) by (metis (no_types, lifting) image_eqI subsetD)
    moreover have "az_Status x = ''valid''"
      if o: "all_others_valid (az_ID z) as" and x: "x \<in> set (authzs_of d' (az_OrderID z))" for x
    proof (cases "az_ID x = az_ID z")
      case True
      have "x \<in> set (acme_authorizations d')" using x by (simp add: authzs_of_def)
      then have "x = v" using distinct_key [of az_ID, OF _ _ v(1)] i' True v(2) by metis
      with v(3) show ?thesis by simp
    next
      case False
      then show ?thesis using o x as by (auto simp: all_others_valid_def list_all_iff)
    qed
    ultimately show ?thesis by (simp add: Inr all_valid_def)
  qed simp
next
  fix r :: "goerr + ACMEAuthorization list"
  show "under srv (\<lambda>w. (authz_known z w \<and> authz_valid (az_ID z) w) \<and>
      (case r of Inl _ \<Rightarrow> True | Inr as \<Rightarrow> all_others_valid (az_ID z) as \<longrightarrow> all_valid (az_OrderID z) w))
    (case r of Inl _ \<Rightarrow> Finish None
     | Inr allAuthzs \<Rightarrow> if all_others_valid (az_ID z) allAuthzs
         then dbop (UpdateACMEOrderStatus (az_OrderID z) ''ready'' (\<lambda>_. None)) (\<lambda>_. Finish None) else Finish None)"
    by (auto split: sum.split intro!: under_Finish under_order_status)
qed (simp_all add: keeps)

lemma proved_known:
  "proved srv aid w \<Longrightarrow> \<not> ac_AutoApproveChallenge (sv_cfg srv) \<Longrightarrow> \<exists>a\<in>set (acme_authorizations (aw_db w)). az_ID a = aid"
  by (auto simp: proved_def)

lemma under_settle_authz: "under srv (proved srv (ch_AuthzID ch)) (settle_authz ch)"
  unfolding settle_authz_def
proof (rule under_read [of _ _ _ "\<lambda>r w. case r of Inl _ \<Rightarrow> True | Inr a \<Rightarrow> authz_known a w \<and> az_ID a = ch_AuthzID ch"])
  fix w :: acme_world and r d'
  assume m: "GetACMEAuthorization (ch_AuthzID ch) (aw_db w) = (r, d')"
  then show "case r of Inl _ \<Rightarrow> True | Inr a \<Rightarrow> authz_known a (w\<lparr>aw_db := d'\<rparr>) \<and> az_ID a = ch_AuthzID ch"
    using GetACMEAuthorization_known by (auto split: sum.split)
next
  fix r :: "goerr + ACMEAuthorization"
  have "under srv (\<lambda>w. proved srv (az_ID z) w \<and> authz_known z w)
      (dbop (UpdateACMEAuthorizationStatus (az_ID z) ''valid'') (\<lambda>res. case res of Inl _ \<Rightarrow> Finish None | Inr _ \<Rightarrow> settle_order z))" for z
  proof (rule under_authz_valid)
    fix r :: "goerr + unit"
    show "under srv (\<lambda>w. (proved srv (az_ID z) w \<and> authz_known z w) \<and> (isl r \<or> authz_valid (az_ID z) w))
        (case r of Inl _ \<Rightarrow> Finish None | Inr _ \<Rightarrow> settle_order z)"
      by (auto split: sum.split intro: under_Finish under_weaken [OF under_settle_order])
  next
    show "stable srv (\<lambda>w. proved srv (az_ID z) w \<and> authz_known z w)" by simp
  qed (auto simp: authz_known_def)
  note settled = this
  show "under srv (\<lambda>w. proved srv (ch_AuthzID ch) w \<and>
      (case r of Inl _ \<Rightarrow> True | Inr a \<Rightarrow> authz_known a w \<and> az_ID a = ch_AuthzID ch))
    (case r of Inl _ \<Rightarrow> Finish None
     | Inr authz \<Rightarrow> dbop (UpdateACMEAuthorizationStatus (az_ID authz) ''valid'')
         (\<lambda>res. case res of Inl _ \<Rightarrow> Finish None | Inr _ \<Rightarrow> settle_order authz))"
  proof (cases r)
    case (Inr b)
    then show ?thesis using settled [of b] by (cases "az_ID b = ch_AuthzID ch") (simp_all add: under_def)
  qed (simp add: under_def)
qed (simp_all add: keeps)

lemma under_accept_challenge: "under srv (proved srv (ch_AuthzID ch)) (accept_challenge ch t)"
  unfolding accept_challenge_def
  by (rule under_challenge_status) (auto split: sum.split intro: under_Finish under_settle_authz)

lemma under_hosts:
  assumes "stable srv P" "\<And>r. under srv (\<lambda>w. P w \<and> (QLookupHost h, AHosts r) \<in> set (aw_io w)) (k r)"
  shows "under srv P (ask_hosts h k)"
  unfolding ask_hosts_def
  by (rule under_Ask [OF assms(1)]) (use assms(2) in \<open>auto split: answer.split simp: under_def\<close>)

text \<open>A successful check of a challenge proves its authorization.\<close>

lemma under_performHTTP01:
  assumes "\<And>e. under srv (challenge_known ch) (k (Some e))" "under srv (proved srv (ch_AuthzID ch)) (k None)"
  shows "under srv (challenge_known ch) (performHTTP01 srv ch (key_authorization ch jwk) k)"
  unfolding performHTTP01_def
proof (rule under_read [of _ _ _ "\<lambda>r w. case r of Inl _ \<Rightarrow> True | Inr a \<Rightarrow> authz_known a w \<and> az_ID a = ch_AuthzID ch"])
  fix w :: acme_world and r d'
  assume m: "GetACMEAuthorization (ch_AuthzID ch) (aw_db w) = (r, d')"
  then show "case r of Inl _ \<Rightarrow> True | Inr a \<Rightarrow> authz_known a (w\<lparr>aw_db := d'\<rparr>) \<and> az_ID a = ch_AuthzID ch"
    using GetACMEAuthorization_known by (auto split: sum.split)
next
  fix r :: "goerr + ACMEAuthorization"
  have e: "under srv (\<lambda>w. challenge_known ch w \<and> X w) (k (Some e))" for X e
    using assms(1) by (auto intro: under_weaken)
  have final: "under srv (\<lambda>w. ((challenge_known ch w \<and> authz_known z w) \<and> (QLookupHost (http01_host (sv_lib srv) host), AHosts (Inr addrs)) \<in> set (aw_io w)) \<and>
      (QGet (challenge_file host (ch_Token ch)), AHttp (Received st body)) \<in> set (aw_io w)) (k None)"
    if h: "az_ID z = ch_AuthzID ch" "string_field ''value'' (az_Identifier z) = Inr host" "bad_address (sv_lib srv) addrs = None"
      "TrimSpace (bytes_str (take 1024 body)) = key_authorization ch jwk" for z host addrs st body
  proof (rule under_weaken [OF assms(2)])
    fix w
    assume w: "((challenge_known ch w \<and> authz_known z w) \<and> (QLookupHost (http01_host (sv_lib srv) host), AHosts (Inr addrs)) \<in> set (aw_io w)) \<and>
      (QGet (challenge_file host (ch_Token ch)), AHttp (Received st body)) \<in> set (aw_io w)"
    obtain c where c: "c \<in> set (acme_challenges (aw_db w))" "ch_AuthzID c = ch_AuthzID ch" "ch_Token c = ch_Token ch"
      using w by (auto simp: challenge_known_def)
    obtain a where a: "a \<in> set (acme_authorizations (aw_db w))" "az_ID a = az_ID z" "az_Identifier a = az_Identifier z"
      using w by (auto simp: authz_known_def)
    have "host_proved (sv_lib srv) (aw_io w) c host"
      using w h(3,4) c(3) unfolding host_proved_def key_authorization_def by auto
    then have "approved srv w a" using a c h unfolding approved_def by auto
    then show "proved srv (ch_AuthzID ch) w" using a h(1) unfolding proved_def by auto
  qed
  have http: "under srv (\<lambda>w. (challenge_known ch w \<and> authz_known z w) \<and> (QLookupHost (http01_host (sv_lib srv) host), AHosts (Inr addrs)) \<in> set (aw_io w))
      (ask_http (QGet (challenge_file host (ch_Token ch))) (\<lambda>res. case res of
          RequestFailed err \<Rightarrow> k (Some (Wrap ''http request: %w'' err))
        | ReadFailed err \<Rightarrow> k (Some (Wrap ''read response: %w'' err))
        | Received _ body \<Rightarrow> if TrimSpace (bytes_str (take 1024 body)) \<noteq> key_authorization ch jwk
            then k (Some (Errorf ''key authorization mismatch'')) else k None))"
    if h: "az_ID z = ch_AuthzID ch" "string_field ''value'' (az_Identifier z) = Inr host" "bad_address (sv_lib srv) addrs = None" for z host addrs
    by (rule under_http) (use e final [OF h] in \<open>auto split: http_result.split simp: conj_assoc\<close>)
  have "under srv (\<lambda>w. challenge_known ch w \<and> authz_known z w)
      (isAllowedHTTP01Target (sv_lib srv) host (\<lambda>res. case res of
          Some err \<Rightarrow> k (Some (Wrap ''ssrf check: %w'' err))
        | None \<Rightarrow> ask_http (QGet (challenge_file host (ch_Token ch))) (\<lambda>res. case res of
            RequestFailed err \<Rightarrow> k (Some (Wrap ''http request: %w'' err))
          | ReadFailed err \<Rightarrow> k (Some (Wrap ''read response: %w'' err))
          | Received _ body \<Rightarrow> if TrimSpace (bytes_str (take 1024 body)) \<noteq> key_authorization ch jwk
              then k (Some (Errorf ''key authorization mismatch'')) else k None)))"
    if h: "az_ID z = ch_AuthzID ch" "string_field ''value'' (az_Identifier z) = Inr host" for z host
    unfolding isAllowedHTTP01Target_def
    by (rule under_hosts) (use e http [OF h] in \<open>auto split: sum.split option.split simp: conj_assoc\<close>)
  then show "under srv (\<lambda>w. challenge_known ch w \<and> (case r of Inl _ \<Rightarrow> True | Inr a \<Rightarrow> authz_known a w \<and> az_ID a = ch_AuthzID ch))
    (case r of Inl err \<Rightarrow> k (Some (Wrap ''get authz: %w'' err))
     | Inr authz \<Rightarrow>
       (case string_field ''value'' (az_Identifier authz) of
          Inl err \<Rightarrow> k (Some (Wrap ''parse identifier: %w'' err))
        | Inr host \<Rightarrow> isAllowedHTTP01Target (sv_lib srv) host (\<lambda>res. case res of
            Some err \<Rightarrow> k (Some (Wrap ''ssrf check: %w'' err))
          | None \<Rightarrow> ask_http (QGet (challenge_file host (ch_Token ch))) (\<lambda>res. case res of
              RequestFailed err \<Rightarrow> k (Some (Wrap ''http request: %w'' err))
            | ReadFailed err \<Rightarrow> k (Some (Wrap ''read response: %w'' err))
            | Received _ body \<Rightarrow> if TrimSpace (bytes_str (take 1024 body)) \<noteq> key_authorization ch jwk
                then k (Some (Errorf ''key authorization mismatch'')) else k None))))"
    using e by (cases r) (auto split: sum.split simp: under_def)
qed (simp_all add: keeps)

lemma under_validateChallenge: "under srv (challenge_known ch) (validateChallenge srv ch acct)"
  unfolding validateChallenge_def
proof (rule under_now)
  fix t
  show "under srv (challenge_known ch)
    (if ac_AutoApproveChallenge (sv_cfg srv) then accept_challenge ch t
     else performHTTP01 srv ch (key_authorization ch (aa_JWK acct)) (\<lambda>res. case res of
       Some err \<Rightarrow> dbop (UpdateACMEChallengeStatus (ch_ID ch) ''invalid'' None ''unauthorized'' (error_text err)) (\<lambda>_. Finish None)
     | None \<Rightarrow> accept_challenge ch t))"
  proof (cases "ac_AutoApproveChallenge (sv_cfg srv)")
    case True
    then show ?thesis
      using under_accept_challenge [of srv ch t] by (auto simp: proved_def under_def)
  next
    case False
    then show ?thesis
      by (auto intro!: under_performHTTP01 under_accept_challenge under_challenge_status under_Finish)
  qed
qed simp

subsection \<open>The goroutine of a finalized order\<close>

lemma started_inv: "started oid w \<Longrightarrow> acme_inv srv w \<Longrightarrow> all_valid oid w"
  using started_all_valid by blast

lemma under_started_status:
  assumes "st \<noteq> ''pending''" "\<And>r. under srv (started oid) (k r)"
  shows "under srv (started oid) (dbop (UpdateACMEOrderStatus oid st u) k)"
  using assms by (intro under_order_status) (auto intro: started_inv)

lemma under_fail_order: "under srv (started oid) (fail_order oid what err)"
  unfolding fail_order_def by (intro under_started_status under_Finish) simp

lemma under_poll_assertion:
  "(\<And>r. under srv P (k r)) \<Longrightarrow> stable srv P \<Longrightarrow> under srv P (poll_assertion srv serial k ended n)"
proof (induction n)
  case (Suc n)
  then show ?case by (auto intro!: under_skip keeps split: sum.split)
qed simp

lemma under_waitForAssertion:
  assumes "stable srv P" "\<And>r. under srv P (k r)"
  shows "under srv P (waitForAssertion srv serial k)"
  unfolding waitForAssertion_def
proof (rule under_Ask [OF assms(1)])
  fix a
  have "under srv P (poll_assertion srv serial k e n)" for n e using assms by (intro under_poll_assertion)
  then show "under srv (\<lambda>w. P w \<and> (QWait, a) \<in> set (aw_io w))
      (case a of AWait n ended \<Rightarrow> poll_assertion srv serial k ended n | _ \<Rightarrow> Finish None)"
    by (auto split: answer.split simp: under_def)
qed

lemma under_http_skip: "stable srv P \<Longrightarrow> (\<And>r. under srv P (k r)) \<Longrightarrow> under srv P (ask_http q k)"
  by (rule under_http) (auto intro: under_weaken)

lemma under_proxyToCA:
  assumes "stable srv P" "\<And>r. under srv P (k r)"
  shows "under srv P (proxyToCA srv csr pem idents k)"
  unfolding proxyToCA_def Let_def
  by (intro under_now under_http_skip assms(1)) (use assms(2) in \<open>auto split: http_result.split sum.split\<close>)

lemma under_issue_via_CA: "under srv (started oid) (issue_via_CA srv oid csr pem idents)"
  unfolding issue_via_CA_def
  by (intro under_proxyToCA) (auto split: sum.split intro!: under_fail_order under_started_status under_waitForAssertion under_Finish)

lemma under_Op_id: "stable srv P \<Longrightarrow> (\<And>w. under srv P (k w)) \<Longrightarrow> under srv P (Op (\<lambda>w. w) k)"
  using acme_grows_refl by (auto simp: under_def stable_def)

lemma under_log_and_prove:
  assumes "\<And>i cp hs. under srv (started oid) (k i cp hs)"
  shows "under srv (started oid) (log_and_prove srv oid entry k)"
  unfolding log_and_prove_def
  by (auto split: sum.split option.split intro!: under_skip keeps under_fail_order under_Op_id under_Finish assms)

lemma under_store_cert: "under srv (started oid) (store_cert srv ca oid what der serial)"
  unfolding store_cert_def
  by (intro under_final_cert) (auto split: sum.split intro!: under_fail_order under_started_status under_Finish)

lemma under_processFinalize: "under srv (started oid) (processFinalize srv oid csr pem idents)"
proof -
  have "under srv (started oid) (processFinalizeLocalCA srv ca oid csr idents)" for ca
    unfolding processFinalizeLocalCA_def Let_def
    by (intro under_serial under_now) (auto split: sum.split intro!: under_fail_order under_log_and_prove under_store_cert)
  moreover have "under srv (started oid) (processFinalizeMTC srv ca oid csr idents)" for ca
    unfolding processFinalizeMTC_def Let_def
    by (intro under_now)
      (auto split: sum.split option.split intro!: under_fail_order under_log_and_prove under_store_cert under_now under_Finish)
  ultimately show ?thesis
    unfolding processFinalize_def by (auto split: option.split intro: under_issue_via_CA)
qed

section \<open>Creating an order\<close>

text \<open>Rows that were inserted one after the other.\<close>

lemma insert_each:
  assumes "for_each (\<lambda>x. wrap msg (exec (ins x))) xs d = (Inr (), d')"
    and "\<And>x d d'. ins x d = Inr d' \<Longrightarrow> d' = upd (g (db_now d) x) d"
    and "\<And>y d. db_now (upd y d) = db_now d"
    and "\<And>y d. tab (upd y d) = tab d @ [y]" "\<And>d d1. same_orders d d1 \<Longrightarrow> tab d1 = tab d"
  shows "tab d' = tab d @ map (g (db_now d)) xs \<and> db_now d' = db_now d"
  using assms(1)
proof (induction xs arbitrary: d)
  case Nil
  then show ?case by (simp add: io_return_def)
next
  case (Cons x xs)
  from Cons.prems obtain d1 where d1: "wrap msg (exec (ins x)) d = (Inr (), d1)" "for_each (\<lambda>x. wrap msg (exec (ins x))) xs d1 = (Inr (), d')"
    by (auto simp: io_bind_def split: sum.splits prod.splits)
  from d1(1) have "exec (ins x) d = (Inr (), d1)" by (cases rule: wrap_cases) auto
  then obtain d0 where "same_orders d d0" "db_now d0 = db_now d" "ins x d0 = Inr d1" by (cases rule: exec_cases) auto
  then have "tab d1 = tab d @ [g (db_now d) x]" "db_now d1 = db_now d"
    using assms(2) [of x d0 d1] assms(3,4) assms(5) [of d d0] by auto
  with Cons.IH [OF d1(2)] show ?case by simp
qed

lemma insert_each_keeps:
  assumes "for_each (\<lambda>x. wrap msg (exec (ins x))) xs d = (Inr (), d')" "R d"
    and "\<And>x d d'. ins x d = Inr d' \<Longrightarrow> R d \<Longrightarrow> R d'" "\<And>d d1. same_orders d d1 \<Longrightarrow> R d \<Longrightarrow> R d1"
  shows "R d'"
  using assms(1,2)
proof (induction xs arbitrary: d)
  case Nil
  then show ?case by (simp add: io_return_def)
next
  case (Cons x xs)
  from Cons.prems obtain d1 where d1: "wrap msg (exec (ins x)) d = (Inr (), d1)" "for_each (\<lambda>x. wrap msg (exec (ins x))) xs d1 = (Inr (), d')"
    by (auto simp: io_bind_def split: sum.splits prod.splits)
  from d1(1) have "exec (ins x) d = (Inr (), d1)" by (cases rule: wrap_cases) auto
  then obtain d0 where "same_orders d d0" "ins x d0 = Inr d1" by (cases rule: exec_cases) auto
  with assms(3,4) Cons.prems(2) have "R d1" by blast
  with Cons.IH d1(2) show ?case by blast
qed

lemma io_bind_Inr_cases:
  assumes "io_bind m f d = (Inr v, d')"
  obtains u d1 where "m d = (Inr u, d1)" "f u d1 = (Inr v, d')"
  using assms by (auto simp: io_bind_def split: sum.splits prod.splits)

lemma noop_Inr: "noop d = (Inr u, d') \<Longrightarrow> same_orders d d'"
  using same_orders_run [OF keeps_orders_noop] by blast

lemma wrap_Inr_D: "wrap msg m d = (Inr v, d') \<Longrightarrow> m d = (Inr v, d')"
  by (auto simp: wrap_def split: sum.splits prod.splits)

text \<open>Either nothing has changed, or all rows of the order are new.\<close>

lemma CreateACMEOrder_result:
  assumes "CreateACMEOrder order authzs chs d = (r, d')"
  shows "same_orders d d' \<or>
    (ao_ID order \<notin> ao_ID ` set (acme_orders d) \<and>
     (\<exists>row t s. acme_orders d' = acme_orders d @ [row] \<and> ao_ID row = ao_ID order \<and> ao_Identifiers row = ao_Identifiers order \<and>
        ao_Status row = ao_Status order \<and> ao_FinalCertDER row = [] \<and>
        acme_authorizations d' = acme_authorizations d @ map (\<lambda>a. a\<lparr>az_CreatedAt := t\<rparr>) authzs \<and>
        acme_challenges d' = acme_challenges d @ map s chs \<and>
        (distinct (map az_ID (acme_authorizations d)) \<longrightarrow> distinct (map az_ID (acme_authorizations d')))))"
proof (cases r)
  case (Inl e)
  then show ?thesis using assms by (auto simp: CreateACMEOrder_def tx_def split: sum.splits prod.splits)
next
  case (Inr u)
  let ?fa = "for_each (\<lambda>a. wrap ''store.CreateACMEOrder: authz %s: %w'' (exec (insert_authz a))) authzs"
  let ?fc = "for_each (\<lambda>c. wrap ''store.CreateACMEOrder: challenge %s: %w'' (exec (insert_challenge c))) chs"
  from assms Inr obtain u1 d1 u2 d2 u3 d3 u4 d4 u5 where
    1: "wrap ''store.CreateACMEOrder: begin: %w'' noop d = (Inr u1, d1)"
    and 2: "wrap ''store.CreateACMEOrder: order: %w'' (exec (insert_order order)) d1 = (Inr u2, d2)"
    and 3: "?fa d2 = (Inr u3, d3)" and 4: "?fc d3 = (Inr u4, d4)" and 5: "noop d4 = (Inr u5, d')"
    unfolding CreateACMEOrder_def tx_def
    by (auto elim!: io_bind_Inr_cases split: sum.splits prod.splits)
  have s1: "same_orders d d1" using noop_Inr wrap_Inr_D [OF 1] by blast
  have s5: "same_orders d4 d'" using noop_Inr [OF 5] .
  from wrap_Inr_D [OF 2] obtain d0 where "same_orders d1 d0" "insert_order order d0 = Inr d2" by (cases rule: exec_cases) auto
  then have o: "ao_ID order \<notin> ao_ID ` set (acme_orders d)"
    "\<exists>row. acme_orders d2 = acme_orders d @ [row] \<and> ao_ID row = ao_ID order \<and> ao_Identifiers row = ao_Identifiers order \<and>
        ao_Status row = ao_Status order \<and> ao_FinalCertDER row = []"
    "acme_authorizations d2 = acme_authorizations d" "acme_challenges d2 = acme_challenges d"
    using s1 by (auto simp: insert_order_def same_orders_def image_iff split: if_splits)
  have a: "acme_authorizations d3 = acme_authorizations d2 @ map (\<lambda>a. a\<lparr>az_CreatedAt := db_now d2\<rparr>) authzs \<and> db_now d3 = db_now d2"
    by (rule insert_each [OF 3 [unfolded unit_eq [of u3]], where upd = "\<lambda>y d. d\<lparr>acme_authorizations := acme_authorizations d @ [y]\<rparr>"])
      (auto simp: insert_authz_def same_orders_def split: if_splits)
  have "acme_orders d3 = acme_orders d2 \<and> acme_challenges d3 = acme_challenges d2 \<and>
      (distinct (map az_ID (acme_authorizations d2)) \<longrightarrow> distinct (map az_ID (acme_authorizations d3)))"
    by (rule insert_each_keeps [OF 3 [unfolded unit_eq [of u3]]])
      (auto simp: insert_authz_def same_orders_def split: if_splits, blast)
  note a = a this
  have c: "acme_challenges d4 = acme_challenges d3 @ map (\<lambda>c. c\<lparr>ch_Validated := None, ch_ErrorType := '''', ch_ErrorDetail := '''', ch_CreatedAt := db_now d3\<rparr>) chs \<and> db_now d4 = db_now d3"
    by (rule insert_each [OF 4 [unfolded unit_eq [of u4]], where upd = "\<lambda>y d. d\<lparr>acme_challenges := acme_challenges d @ [y]\<rparr>"])
      (auto simp: insert_challenge_def same_orders_def split: if_splits)
  have "acme_orders d4 = acme_orders d3 \<and> acme_authorizations d4 = acme_authorizations d3"
    by (rule insert_each_keeps [OF 4 [unfolded unit_eq [of u4]]])
      (auto simp: insert_challenge_def same_orders_def split: if_splits)
  note c = c this
  from o(2) obtain row where row: "acme_orders d2 = acme_orders d @ [row]" "ao_ID row = ao_ID order" "ao_Identifiers row = ao_Identifiers order"
      "ao_Status row = ao_Status order" "ao_FinalCertDER row = []" by blast
  have "acme_orders d' = acme_orders d @ [row]" "acme_authorizations d' = acme_authorizations d @ map (\<lambda>a. a\<lparr>az_CreatedAt := db_now d2\<rparr>) authzs"
    "\<exists>s. acme_challenges d' = acme_challenges d @ map s chs"
    "distinct (map az_ID (acme_authorizations d)) \<longrightarrow> distinct (map az_ID (acme_authorizations d'))"
    using s5 o row(1) a c by (auto simp: same_orders_def)
  with row o(1) show ?thesis by blast
qed

lemma inv_new_order:
  assumes "acme_inv srv w" "ao_ID order \<notin> ao_ID ` set (acme_orders (aw_db w))"
    and "acme_orders d' = acme_orders (aw_db w) @ [row]" "ao_ID row = ao_ID order" "ao_Identifiers row = JArr (map az_Identifier authzs)"
    and "ao_Status row = ''pending''" "ao_FinalCertDER row = []"
    and "acme_authorizations d' = acme_authorizations (aw_db w) @ map (\<lambda>a. a\<lparr>az_CreatedAt := t\<rparr>) authzs"
    and "acme_challenges d' = acme_challenges (aw_db w) @ cs" "distinct (map az_ID (acme_authorizations d'))"
    and "\<forall>a\<in>set authzs. az_OrderID a = ao_ID order \<and> az_Status a = ''pending''"
  shows "acme_inv srv (w\<lparr>aw_db := d'\<rparr>) \<and> acme_grows w (w\<lparr>aw_db := d'\<rparr>)"
proof
  let ?w = "w\<lparr>aw_db := d'\<rparr>" and ?new = "map (\<lambda>a. a\<lparr>az_CreatedAt := t\<rparr>) authzs"
  note i = assms(1) [unfolded acme_inv_def Let_def]
  have new: "az_OrderID a = ao_ID order \<and> az_Status a = ''pending''" if "a \<in> set ?new" for a using that assms(11) by auto
  have old: "authzs_of d' oid = authzs_of (aw_db w) oid" if "oid \<noteq> ao_ID order" for oid
  proof -
    have "filter (\<lambda>a. az_OrderID a = oid) ?new = []" using that assms(11) by (auto simp: filter_empty_conv)
    then show ?thesis by (simp add: authzs_of_def assms(8))
  qed
  have own: "authzs_of d' (ao_ID order) = ?new"
  proof -
    have "az_OrderID a \<noteq> ao_ID order" if "a \<in> set (acme_authorizations (aw_db w))" for a
    proof -
      have "az_OrderID a \<in> ao_ID ` set (acme_orders (aw_db w))" using i that by blast
      with assms(2) show ?thesis by metis
    qed
    then have "filter (\<lambda>a. az_OrderID a = ao_ID order) (acme_authorizations (aw_db w)) = []"
      by (auto simp: filter_empty_conv)
    moreover have "filter (\<lambda>a. az_OrderID a = ao_ID order) ?new = ?new" using assms(11) by (intro filter_True) auto
    ultimately show ?thesis by (simp add: authzs_of_def assms(8))
  qed
  have pv: "''pending'' \<noteq> ''valid''" by simp
  have ap: "approved srv ?w a" if "approved srv w a" for a
    using that assms(9) by (auto simp: approved_def)
  have ne: "ao_ID r \<noteq> ao_ID order" if "r \<in> set (acme_orders (aw_db w))" for r using that assms(2) by (metis image_eqI)
  have "distinct (map ao_ID (acme_orders d'))" using i assms(2-4) by simp
  moreover have "az_OrderID ` set (acme_authorizations d') \<subseteq> ao_ID ` set (acme_orders d')"
  proof
    fix x assume "x \<in> az_OrderID ` set (acme_authorizations d')"
    then obtain a where a: "x = az_OrderID a" "a \<in> set (acme_authorizations d')" by blast
    then have "a \<in> set (acme_authorizations (aw_db w)) \<or> x = ao_ID row" using new [of a] unfolding assms(4,8) set_append by blast
    then have "x \<in> az_OrderID ` set (acme_authorizations (aw_db w)) \<or> x = ao_ID row" using a(1) by blast
    then show "x \<in> ao_ID ` set (acme_orders d')" using i assms(3) by auto
  qed
  moreover have "\<forall>a\<in>set (acme_authorizations d'). az_Status a = ''valid'' \<longrightarrow> approved srv ?w a"
  proof (intro ballI impI)
    fix a assume a: "a \<in> set (acme_authorizations d')" "az_Status a = ''valid''"
    have "a \<notin> set ?new" using new [of a] pv a(2) by metis
    then have "a \<in> set (acme_authorizations (aw_db w))" using a(1) unfolding assms(8) set_append by blast
    with i ap a(2) show "approved srv ?w a" by blast
  qed
  moreover have "\<forall>r\<in>set (acme_orders d'). ao_Identifiers r = JArr (map az_Identifier (authzs_of d' (ao_ID r)))"
  proof
    fix r assume "r \<in> set (acme_orders d')"
    then consider "r \<in> set (acme_orders (aw_db w))" | "r = row" using assms(3) by auto
    then show "ao_Identifiers r = JArr (map az_Identifier (authzs_of d' (ao_ID r)))"
    proof cases
      case 1
      then show ?thesis using i old [OF ne [OF 1]] by simp
    next
      case 2
      then show ?thesis using own assms(4,5) by (simp add: o_def)
    qed
  qed
  moreover have "\<forall>r\<in>set (acme_orders d'). ao_Status r \<noteq> ''pending'' \<longrightarrow> (\<forall>a\<in>set (authzs_of d' (ao_ID r)). az_Status a = ''valid'')"
  proof (intro ballI impI)
    fix r a assume r: "r \<in> set (acme_orders d')" "ao_Status r \<noteq> ''pending''" "a \<in> set (authzs_of d' (ao_ID r))"
    then have "r \<in> set (acme_orders (aw_db w))" using assms(3,6) by auto
    with r old [OF ne [OF this]] i show "az_Status a = ''valid''" by simp
  qed
  moreover have "\<forall>r\<in>set (acme_orders d'). ao_FinalCertDER r \<noteq> [] \<longrightarrow> ao_Status r \<noteq> ''pending''"
    using i assms(3,7) by auto
  ultimately show "acme_inv srv ?w" using assms(10) by (simp add: acme_inv_def)
  have "\<forall>a'\<in>set (acme_authorizations d'). az_OrderID a' \<in> ao_ID ` set (acme_orders (aw_db w)) \<longrightarrow>
      (\<exists>a\<in>set (acme_authorizations (aw_db w)). az_ID a = az_ID a' \<and> az_OrderID a = az_OrderID a')"
  proof (intro ballI impI)
    fix a assume a: "a \<in> set (acme_authorizations d')" "az_OrderID a \<in> ao_ID ` set (acme_orders (aw_db w))"
    have "a \<notin> set ?new" using new [of a] a(2) assms(2) by metis
    then have "a \<in> set (acme_authorizations (aw_db w))" using a(1) unfolding assms(8) set_append by blast
    then show "\<exists>a'\<in>set (acme_authorizations (aw_db w)). az_ID a' = az_ID a \<and> az_OrderID a' = az_OrderID a" by blast
  qed
  then show "acme_grows w ?w"
    unfolding acme_grows_def Let_def using assms(3,8,9) by auto
qed

lemma always_create_order:
  assumes "\<And>r. always srv (k r)" "ao_Status order = ''pending''" "ao_Identifiers order = JArr (map az_Identifier authzs)"
    and "\<forall>a\<in>set authzs. az_OrderID a = ao_ID order \<and> az_Status a = ''pending''"
  shows "always srv (dbop (CreateACMEOrder order authzs chs) k)"
proof -
  have "under srv (\<lambda>_. True) (dbop (CreateACMEOrder order authzs chs) k)"
  proof (rule under_dbop [of _ _ _ "\<lambda>_ _. True"])
    fix w :: acme_world and r d'
    assume i: "acme_inv srv w" and m: "CreateACMEOrder order authzs chs (aw_db w) = (r, d')"
    have "acme_inv srv (w\<lparr>aw_db := d'\<rparr>) \<and> acme_grows w (w\<lparr>aw_db := d'\<rparr>)"
      using CreateACMEOrder_result [OF m]
    proof (elim disjE conjE exE)
      assume "same_orders (aw_db w) d'"
      then show ?thesis using acme_inv_same [OF i, of "w\<lparr>aw_db := d'\<rparr>"] by simp
    next
      fix row t s
      assume *: "ao_ID order \<notin> ao_ID ` set (acme_orders (aw_db w))" "acme_orders d' = acme_orders (aw_db w) @ [row]" "ao_ID row = ao_ID order"
        "ao_Identifiers row = ao_Identifiers order" "ao_Status row = ao_Status order" "ao_FinalCertDER row = []"
        "acme_authorizations d' = acme_authorizations (aw_db w) @ map (\<lambda>a. a\<lparr>az_CreatedAt := t\<rparr>) authzs"
        "acme_challenges d' = acme_challenges (aw_db w) @ map s chs"
        "distinct (map az_ID (acme_authorizations (aw_db w))) \<longrightarrow> distinct (map az_ID (acme_authorizations d'))"
      have "distinct (map az_ID (acme_authorizations d'))" using *(9) i by (simp add: acme_inv_def Let_def)
      then show ?thesis
        using inv_new_order [OF i *(1,2,3) _ _ *(6) *(7) *(8)] *(4,5) assms(2-4) by simp
    qed
    then show "acme_inv srv (w\<lparr>aw_db := d'\<rparr>) \<and> acme_grows w (w\<lparr>aw_db := d'\<rparr>) \<and> True" by simp
  qed (use assms(1) in \<open>simp_all add: always_under\<close>)
  then show ?thesis by (simp add: under_def always_def)
qed

end
