(* ===== verification/AcmeSafety.thy ===== *)
theory AcmeSafety
  imports AcmeInvariant
begin

text \<open>
  The handlers of the ACME server keep the invariant of theory AcmeInvariant; the interpretation
  of the locale \<open>guarantee\<close> on the server follows, with the properties of the server: domain
  control before issuance, nonces, and the order of statuses.
\<close>

section \<open>The handlers\<close>

lemma under_always: "under srv (\<lambda>_. True) t \<Longrightarrow> always srv t"
  by (simp add: under_def always_def)

lemma always_make_authzs:
  assumes "\<And>as cs. map az_Identifier as = map ident_doc idents \<Longrightarrow>
    \<forall>a\<in>set as. az_OrderID a = oid \<and> az_Status a = ''pending'' \<Longrightarrow> always srv (k as cs)"
  shows "always srv (make_authzs oid expires idents k)"
  using assms
proof (induction idents arbitrary: k)
  case (Cons i idents)
  show ?case unfolding make_authzs.simps
    by (intro always_newID Cons.IH Cons.prems) auto
qed simp

lemma always_handleNewAccount: "(\<And>r. always srv (reply r)) \<Longrightarrow> always srv (handleNewAccount srv r reply)"
  unfolding handleNewAccount_def
  by (auto intro!: always_intro keeps split: sum.split option.split if_splits)

lemma always_handleNewOrder:
  assumes "\<And>r. always srv (reply r)"
  shows "always srv (handleNewOrder srv r reply)"
proof -
  have make: "always srv (make_authzs oid expires idents (\<lambda>authzs challenges.
      dbop (CreateACMEOrder (new_order oid acct idents expires) authzs challenges) (k authzs)))"
    if "\<And>as r. always srv (k as r)" for oid expires idents acct and k :: "ACMEAuthorization list \<Rightarrow> goerr + unit \<Rightarrow> acme_thread"
    by (intro always_make_authzs always_create_order that) (simp_all add: new_order_def)
  show ?thesis
    unfolding handleNewOrder_def Let_def
    by (auto intro!: always_intro make assms split: sum.split option.split)
qed

lemma always_handleOrder: "(\<And>r. always srv (reply r)) \<Longrightarrow> always srv (handleOrder srv i r reply)"
  unfolding handleOrder_def by (auto intro!: always_intro keeps split: sum.split)

lemma always_handleAuthorization: "(\<And>r. always srv (reply r)) \<Longrightarrow> always srv (handleAuthorization srv i r reply)"
  unfolding handleAuthorization_def by (auto intro!: always_intro keeps split: sum.split)

lemma always_handleCertificate:
  assumes "\<And>r. always srv (reply r)"
  shows "always srv (handleCertificate srv i r reply)"
proof -
  have "always srv (certificate_from_log srv order reply)" for order
    unfolding certificate_from_log_def Let_def
    by (auto intro!: always_intro keeps assms split: sum.split)
  then show ?thesis
    unfolding handleCertificate_def
    by (auto intro!: always_intro keeps assms split: sum.split option.split)
qed

lemma under_Go:
  assumes "stable srv P" "\<And>w. P w \<Longrightarrow> acme_job_ok j w" "under srv P t"
  shows "under srv P (Go j t)"
  using assms unfolding under_def stable_def by auto

lemma job_ok [simp]:
  "acme_job_ok (JValidate ch acct) w = challenge_known ch w" "acme_job_ok (JFinalize oid csr pem idents) w = started oid w"
  by (simp_all add: acme_job_ok_def challenge_known_def started_def)

lemma GetACMEChallenge_known:
  assumes "GetACMEChallenge i (aw_db w) = (Inr c, d')"
  shows "challenge_known c (w\<lparr>aw_db := d'\<rparr>)"
proof -
  have s: "same_orders (aw_db w) d'" using same_orders_run [OF keeps_orders_reads(7) assms] .
  from assms obtain d1 where "same_orders (aw_db w) d1" "c \<in> set (filter (\<lambda>r. ch_ID r = i) (acme_challenges d1))"
    unfolding GetACMEChallenge_def by (cases rule: wrap_cases) (auto elim: query_row_result)
  with s show ?thesis by (auto simp: challenge_known_def same_orders_def)
qed

lemma always_handleChallenge:
  assumes "\<And>r. always srv (reply r)"
  shows "always srv (handleChallenge srv i r reply)"
proof -
  have "always srv (dbop (GetACMEChallenge i) (\<lambda>res. case res of
         Inl _ \<Rightarrow> reply (acmeError 404 ''challengeNotFound'' ''challenge not found'')
       | Inr ch \<Rightarrow>
         if ch_Status ch = ''valid'' \<or> ch_Status ch = ''invalid'' then reply (acme_json 200 [] (renderChallenge srv ch))
         else Go (JValidate ch acct) (reply (acme_json 200 [] (renderChallenge srv (ch\<lparr>ch_Status := ''processing''\<rparr>))))))" for acct
  proof (rule under_always, rule under_read [of _ _ _ "\<lambda>r w. case r of Inl _ \<Rightarrow> True | Inr c \<Rightarrow> challenge_known c w"])
    fix w :: acme_world and r d'
    assume "GetACMEChallenge i (aw_db w) = (r, d')"
    then show "case r of Inl _ \<Rightarrow> True | Inr c \<Rightarrow> challenge_known c (w\<lparr>aw_db := d'\<rparr>)"
      using GetACMEChallenge_known by (auto split: sum.split)
  next
    fix r :: "goerr + ACMEChallenge"
    have "under srv (\<lambda>w. True \<and> challenge_known ch w) (Go (JValidate ch acct) (reply x))" for ch x
      by (rule under_Go) (use always_under [OF assms] in simp_all)
    then show "under srv (\<lambda>w. True \<and> (case r of Inl _ \<Rightarrow> True | Inr c \<Rightarrow> challenge_known c w))
      (case r of Inl _ \<Rightarrow> reply (acmeError 404 ''challengeNotFound'' ''challenge not found'')
       | Inr ch \<Rightarrow>
         if ch_Status ch = ''valid'' \<or> ch_Status ch = ''invalid'' then reply (acme_json 200 [] (renderChallenge srv ch))
         else Go (JValidate ch acct) (reply (acme_json 200 [] (renderChallenge srv (ch\<lparr>ch_Status := ''processing''\<rparr>)))))"
      using always_under [OF assms] by (auto split: sum.split)
  qed (simp_all add: keeps)
  then show ?thesis
    unfolding handleChallenge_def by (auto intro!: always_intro assms split: sum.split option.split)
qed

lemma GetACMEOrder_started:
  assumes "GetACMEOrder i (aw_db w) = (Inr r, d')" "ao_Status r \<noteq> ''pending''"
  shows "started i (w\<lparr>aw_db := d'\<rparr>)"
proof -
  have s: "same_orders (aw_db w) d'" using same_orders_run [OF keeps_orders_reads(3) assms(1)] .
  from assms(1) obtain d1 where "same_orders (aw_db w) d1" "r \<in> set (filter (\<lambda>r. ao_ID r = i) (acme_orders d1))"
    unfolding GetACMEOrder_def by (cases rule: wrap_cases) (auto elim: query_row_result)
  with s assms(2) show ?thesis by (auto simp: started_def same_orders_def)
qed

lemma always_handleFinalize:
  assumes "\<And>r. always srv (reply r)"
  shows "always srv (handleFinalize srv oid r reply)"
proof -
  have rep: "under srv P (reply x)" for P x using always_under [OF assms] .
  have urls: "under srv P (getAuthzURLs srv oid k)" if "\<And>r. always srv (k r)" for P k
    using always_under [OF always_getAuthzURLs [OF that]] .
  have go: "under srv (started oid) (dbop (UpdateACMEOrderStatus oid ''processing'' (column ''csr'' x)) (\<lambda>res. case res of
        Inl _ \<Rightarrow> reply (acmeError 500 ''serverInternal'' ''failed to update order'')
      | Inr _ \<Rightarrow> Go (JFinalize oid csr pem idents) (getAuthzURLs srv oid k)))"
    if "\<And>r. always srv (k r)" for x csr pem idents k
    by (intro under_started_status) (auto split: sum.split intro!: rep under_Go urls that)
  have "always srv (dbop (GetACMEOrder oid) (\<lambda>res. case res of
         Inl _ \<Rightarrow> reply (acmeError 404 ''orderNotFound'' ''order not found'')
       | Inr order \<Rightarrow>
         if ao_AccountID order \<noteq> aa_ID acct then reply (acmeError 403 ''unauthorized'' ''order does not belong to account'')
         else if ao_Status order \<noteq> ''ready'' then reply (acmeError 403 ''orderNotReady'' (f order))
         else g order))"
    if g: "\<And>order. under srv (started oid) (g order)" for acct f g
  proof (rule under_always, rule under_read [of _ _ _ "\<lambda>r w. case r of Inl _ \<Rightarrow> True | Inr x \<Rightarrow> ao_Status x \<noteq> ''ready'' \<or> started oid w"])
    fix w :: acme_world and r d'
    assume "GetACMEOrder oid (aw_db w) = (r, d')"
    then show "case r of Inl _ \<Rightarrow> True | Inr x \<Rightarrow> ao_Status x \<noteq> ''ready'' \<or> started oid (w\<lparr>aw_db := d'\<rparr>)"
      using GetACMEOrder_started by (auto split: sum.split)
  next
    fix r :: "goerr + ACMEOrder"
    show "under srv (\<lambda>w. True \<and> (case r of Inl _ \<Rightarrow> True | Inr x \<Rightarrow> ao_Status x \<noteq> ''ready'' \<or> started oid w))
      (case r of Inl _ \<Rightarrow> reply (acmeError 404 ''orderNotFound'' ''order not found'')
       | Inr order \<Rightarrow>
         if ao_AccountID order \<noteq> aa_ID acct then reply (acmeError 403 ''unauthorized'' ''order does not belong to account'')
         else if ao_Status order \<noteq> ''ready'' then reply (acmeError 403 ''orderNotReady'' (f order)) else g order)"
      using rep under_weaken [OF g] by (auto split: sum.split)
  qed (simp_all add: keeps)
  note main = this
  show ?thesis
    unfolding handleFinalize_def Let_def
  proof (rule always_verifyJWS, goal_cases)
    case (1 res)
    show ?case
    proof (cases res)
      case (Inr x)
      obtain hdr payload acct where x: "x = (hdr, payload, acct)" by (cases x)
      show ?thesis
      proof (cases acct)
        case (Some a)
        show ?thesis
          unfolding Inr x Some sum.case prod.case option.case
          by (rule main) (auto split: sum.split option.split intro!: rep go assms)
      qed (simp add: Inr x always_Finish)
    qed (simp add: assms)
  qed
qed

lemma always_ServeHTTP: "always srv (acme_ServeHTTP srv r)"
proof -
  have "always srv (handler r reply)" if "acme_route srv p = Some (methods, handler)" "\<And>x. always srv (reply x)" for p methods handler reply
    using that
    by (auto simp: acme_route_def handleDirectory_def handleNewNonce_def always_handleNewAccount always_handleNewOrder
        always_handleOrder always_handleAuthorization always_handleCertificate always_handleChallenge always_handleFinalize
        split: list.splits if_splits)
  note handlers = this
  show ?thesis
    unfolding acme_ServeHTTP_def Let_def
  proof (rule always_newNonce, goal_cases)
    case (1 nonce)
    show ?case
    proof (cases "acme_route srv (rq_Path r)")
      case (Some x)
      obtain methods handler where x: "x = (methods, handler)" by (cases x)
      then show ?thesis
        unfolding Some x option.case prod.case
        using handlers [of "rq_Path r" methods handler] Some x always_Finish by simp
    qed (simp add: always_Finish)
  qed
qed

section \<open>The interpretation\<close>

interpretation acme: guarantee "acme_machine srv" "acme_inv srv" acme_grows acme_job_ok for srv
proof
  fix w w' w'' :: acme_world and j t
  show "acme_grows w w" by (rule acme_grows_refl)
  show "acme_grows w w''" if "acme_grows w w'" "acme_grows w' w''" using that by (rule acme_grows_trans)
  show "acme_safe srv (goroutine (acme_machine srv) j) w" if "acme_inv srv w" "acme_job_ok j w"
    using that under_validateChallenge under_processFinalize
    by (auto simp: acme_machine_def goroutine_of_def under_def split: job.splits)
  show "acme_safe srv t w" if "arrives (acme_machine srv) t"
    using that always_ServeHTTP by (auto simp: acme_machine_def always_def)
  show "acme_inv srv w' \<and> acme_grows w w'" if "outside (acme_machine srv) w w'" "acme_inv srv w"
    using that acme_inv_same [of srv w w'] by (simp add: acme_machine_def elsewhere_def same_acme_def same_orders_def)
qed

end
