(* ===== verification/AcmeClient.thy ===== *)
theory AcmeClient
  imports AcmeFinalize
begin

text \<open>
  The other side of the ACME protocol: the requests of a client that signs with a key the server
  knows, and what the handlers make of them when they run alone. The lemmas give the run of each
  handler on such a request.
\<close>

section \<open>Runs of the steps\<close>

abbreviation acme_run where "acme_run srv \<equiv> run (acme_machine srv)"
abbreviation acme_fair where "acme_fair srv \<equiv> fair_run (acme_machine srv)"

text \<open>The state after an answer.\<close>

definition hear :: "question \<Rightarrow> answer \<Rightarrow> acme_world \<Rightarrow> acme_world" where
  "hear q a w = w\<lparr>aw_io := aw_io w @ [(q, a)]\<rparr>"

named_theorems runs "runs of the steps of a thread"

lemma hear_select [simp]:
  "aw_db (hear q a w) = aw_db w" "aw_nonces (hear q a w) = aw_nonces w" "aw_io (hear q a w) = aw_io w @ [(q, a)]"
  by (simp_all add: hear_def)

lemma runs_machine [runs]:
  "heard (acme_machine srv) = hear" "answers (acme_machine srv) = answered"
  by (auto simp: acme_machine_def hear_def fun_eq_iff)

lemma run_dbop [runs]:
  "acme_run srv (dbop m k) w as = acme_run srv (k (fst (m (aw_db w)))) (w\<lparr>aw_db := snd (m (aw_db w))\<rparr>) as"
  "acme_fair srv (dbop m k) w as = acme_fair srv (k (fst (m (aw_db w)))) (w\<lparr>aw_db := snd (m (aw_db w))\<rparr>) as"
  by (simp_all add: dbop_def)

lemma run_asks [runs]:
  "acme_run srv (ask_now k1) w (ATime t # as) = acme_run srv (k1 t) (hear QNow (ATime t) w) as"
  "acme_run srv (ask_nonce k2) w (ANonce s # as) = acme_run srv (k2 s) (hear QNonce (ANonce s) w) as"
  "acme_run srv (ask_serial k3) w (ASerial x # as) = acme_run srv (k3 x) (hear QSerial (ASerial x) w) as"
  "acme_run srv (ask_hosts h k4) w (AHosts y # as) = acme_run srv (k4 y) (hear (QLookupHost h) (AHosts y) w) as"
  "acme_run srv (ask_http q k5) w (AHttp z # as) = acme_run srv (k5 z) (hear q (AHttp z) w) as"
  by (simp_all add: ask_now_def ask_nonce_def ask_serial_def ask_hosts_def ask_http_def runs_machine)

lemma fair_asks [runs]:
  "acme_fair srv (ask_now k1) w (ATime t # as) = acme_fair srv (k1 t) (hear QNow (ATime t) w) as"
  "acme_fair srv (ask_nonce k2) w (ANonce s # as) = acme_fair srv (k2 s) (hear QNonce (ANonce s) w) as"
  "acme_fair srv (ask_serial k3) w (ASerial x # as) = acme_fair srv (k3 x) (hear QSerial (ASerial x) w) as"
  "acme_fair srv (ask_hosts h k4) w (AHosts y # as) = acme_fair srv (k4 y) (hear (QLookupHost h) (AHosts y) w) as"
  "acme_fair srv (ask_http q k5) w (AHttp z # as) \<longleftrightarrow> answered q (AHttp z) \<and> acme_fair srv (k5 z) (hear q (AHttp z) w) as"
  by (simp_all add: ask_now_def ask_nonce_def ask_serial_def ask_hosts_def ask_http_def runs_machine)

lemma run_newNonce [runs]:
  "acme_run srv (newNonce k) w (ANonce s # ATime t # as) =
     acme_run srv (k (nonce_of s)) ((hear QNow (ATime t) (hear QNonce (ANonce s) w))\<lparr>aw_nonces := add_nonce (nonce_of s) t (aw_nonces w)\<rparr>) as"
  "acme_fair srv (newNonce k) w (ANonce s # ATime t # as) =
     acme_fair srv (k (nonce_of s)) ((hear QNow (ATime t) (hear QNonce (ANonce s) w))\<lparr>aw_nonces := add_nonce (nonce_of s) t (aw_nonces w)\<rparr>) as"
  by (simp_all add: newNonce_def runs)

lemma run_consumeNonce [runs]:
  "acme_run srv (consumeNonce n k) w (ATime t # as) =
     acme_run srv (k (fst (take_nonce n t (aw_nonces w)))) ((hear QNow (ATime t) w)\<lparr>aw_nonces := snd (take_nonce n t (aw_nonces w))\<rparr>) as"
  "acme_fair srv (consumeNonce n k) w (ATime t # as) =
     acme_fair srv (k (fst (take_nonce n t (aw_nonces w)))) ((hear QNow (ATime t) w)\<lparr>aw_nonces := snd (take_nonce n t (aw_nonces w))\<rparr>) as"
  by (simp_all add: consumeNonce_def runs)

lemma run_newID [runs]:
  "acme_run srv (newID k) w (ATime t # as) = acme_run srv (k (id_of t)) (hear QNow (ATime t) w) as"
  "acme_fair srv (newID k) w (ATime t # as) = acme_fair srv (k (id_of t)) (hear QNow (ATime t) w) as"
  by (simp_all add: newID_def runs)

lemma same_db [simp]: "aw_db w = d \<Longrightarrow> w\<lparr>aw_db := d\<rparr> = w"
  by (cases w) simp

text \<open>Statements on a database that serves every one of them.\<close>

lemmas stmt_ok [simp] = stmt_run [unfolded no_faults_def] exec_run [unfolded no_faults_def] query_run [unfolded no_faults_def]

section \<open>Requests of a client\<close>

text \<open>The texts that base 64 writes can stand in a path and in a document.\<close>

definition token_text :: "string \<Rightarrow> bool" where
  "token_text s \<longleftrightarrow> set s \<subseteq> set b64_url \<union> {CHR ''='', CHR ''.''}"

lemma token_base64url [simp]: "token_text (base64url_EncodeToString bs)"
  using b64_encode_set [OF alphabet_url, of False bs] by (auto simp: token_text_def base64url_EncodeToString_def)

lemma token_append [simp]: "token_text (s @ t) \<longleftrightarrow> token_text s \<and> token_text t"
  by (auto simp: token_text_def)

lemma token_ids [simp]: "token_text (id_of t)" "token_text (nonce_of s)"
  by (simp_all add: id_of_def nonce_of_def)

lemma token_chars:
  assumes "token_text s" "c \<in> set s"
  shows "json_char c = [c]" "(of_char c :: nat) < 128" "c \<noteq> CHR ''/''" "\<not> is_space c"
proof -
  have "\<forall>c\<in>set b64_url \<union> {CHR ''='', CHR ''.''}. json_char c = [c] \<and> (of_char c :: nat) < 128 \<and> c \<noteq> CHR ''/'' \<and> \<not> is_space c"
    by (simp add: b64_url_def json_char_def is_space_def)
  with assms show "json_char c = [c]" "(of_char c :: nat) < 128" "c \<noteq> CHR ''/''" "\<not> is_space c"
    unfolding token_text_def by blast+
qed

lemma token_ascii [simp]: "token_text s \<Longrightarrow> ascii s"
  by (auto simp: ascii_def list_all_iff dest: token_chars(2))

lemma token_no_slash: "token_text s \<Longrightarrow> CHR ''/'' \<notin> set s"
  using token_chars(3) by blast

lemma token_trimmed [simp]: "token_text s \<Longrightarrow> TrimSpace s = s"
proof -
  assume t: "token_text s"
  have keep: "dropWhile is_space u = u" if "\<forall>c\<in>set u. \<not> is_space c" for u using that by (cases u) auto
  have "\<forall>c\<in>set s. \<not> is_space c" using token_chars(4) [OF t] by blast
  then show ?thesis using keep [of s] keep [of "rev s"] by (simp add: TrimSpace_def trim_right_def)
qed

lemma token_quote: "token_text s \<Longrightarrow> json_quote s = CHR 0x22 # s @ [CHR 0x22]"
proof -
  assume "token_text s"
  then have "map json_char s = map (\<lambda>c. [c]) s" using token_chars(1) by (intro map_cong) auto
  then have "concat (map json_char s) = s" using concat_map_singleton [of "\<lambda>c. c" s] by (simp only: list.map_ident)
  then show ?thesis unfolding json_quote_def by simp
qed

definition signed_header :: "acme_Server \<Rightarrow> string \<Rightarrow> string \<Rightarrow> string \<Rightarrow> json" where
  "signed_header srv nonce urlpath kid = JObj
     [(''alg'', JStr ''ES256''), (''nonce'', JStr nonce), (''url'', JStr (ac_ExternalURL (sv_cfg srv) @ urlpath)), (''kid'', JStr kid)]"

definition encoded :: "json \<Rightarrow> string" where
  "encoded j = base64url_EncodeToString (str_bytes (json_text j))"

definition signed_body :: "acme_Server \<Rightarrow> string \<Rightarrow> string \<Rightarrow> string \<Rightarrow> json option \<Rightarrow> bytes \<Rightarrow> json" where
  "signed_body srv nonce urlpath kid payload sig = JObj
     [(''protected'', JStr (encoded (signed_header srv nonce urlpath kid))),
      (''payload'', JStr (case payload of None \<Rightarrow> '''' | Some j \<Rightarrow> encoded j)),
      (''signature'', JStr (base64url_EncodeToString sig))]"

definition signed_request :: "acme_Server \<Rightarrow> string \<Rightarrow> string \<Rightarrow> string \<Rightarrow> json option \<Rightarrow> bytes \<Rightarrow> request" where
  "signed_request srv nonce urlpath kid payload sig =
     \<lparr>rq_Method = ''POST'', rq_Path = urlpath, rq_Query = (\<lambda>_. ''''), rq_Header = (\<lambda>_. ''''),
      rq_Body = str_bytes (json_text (signed_body srv nonce urlpath kid payload sig))\<rparr>"


lemma length_base64url: "length (base64url_EncodeToString bs) \<le> 2 * length bs"
proof -
  have "length (b64_encode al False bs) \<le> 2 * length bs" for al
    by (induction al False bs rule: b64_encode.induct) (simp_all add: Let_def)
  then show ?thesis by (simp add: base64url_EncodeToString_def)
qed

lemma length_ids: "length (id_of t) \<le> 24" "length (nonce_of s) \<le> 32"
  using length_base64url [of "take 12 (sha256 (str_bytes (dec_int t)))"] length_base64url [of "take 16 (sha256 (str_bytes s))"]
  by (simp_all add: id_of_def nonce_of_def)

lemma length_quote: "length (json_quote s) \<le> 6 * length s + 2"
proof -
  have "length (concat (map json_char s)) \<le> 6 * length s"
    by (induction s) (auto simp: json_char_def)
  then show ?thesis by (simp add: json_quote_def)
qed

text \<open>What the server reads from a request that is not longer than a megabyte.\<close>

lemma json_encoded:
  assumes "plain j"
  shows "base64url_DecodeString (encoded j) = Inr (str_bytes (json_text j))" "json_Unmarshal (str_bytes (json_text j)) = Inr j"
  using assms by (simp_all add: encoded_def json_roundtrip)

lemma dec_request_signed:
  assumes "ascii nonce" "ascii (ac_ExternalURL (sv_cfg srv))" "ascii urlpath" "ascii kid"
    and "length (rq_Body (signed_request srv nonce urlpath kid payload sig)) \<le> 2 ^ 20"
  shows "dec_request (signed_request srv nonce urlpath kid payload sig) =
    Inr (\<lparr>jws_Protected = encoded (signed_header srv nonce urlpath kid),
           jws_Payload = (case payload of None \<Rightarrow> '''' | Some j \<Rightarrow> encoded j),
           jws_Signature = base64url_EncodeToString sig\<rparr>,
         \<lparr>jh_Alg = ''ES256'', jh_Nonce = nonce, jh_URL = ac_ExternalURL (sv_cfg srv) @ urlpath, jh_KID = kid, jh_JWK = None\<rparr>)"
proof -
  have h: "plain (signed_header srv nonce urlpath kid)"
    using assms(1-4) by (simp add: signed_header_def ascii_def)
  have e: "ascii (encoded j)" for j by (simp add: encoded_def)
  have "plain (signed_body srv nonce urlpath kid payload sig)"
    using e by (simp add: signed_body_def split: option.split) (simp add: ascii_def)
  from json_roundtrip [OF this]
  have b: "json_Unmarshal (take (2 ^ 20) (rq_Body (signed_request srv nonce urlpath kid payload sig))) =
      Inr (signed_body srv nonce urlpath kid payload sig)"
    using assms(5) by (simp add: signed_request_def)
  have d: "dec_jws (signed_body srv nonce urlpath kid payload sig) = Inr \<lparr>jws_Protected = encoded (signed_header srv nonce urlpath kid),
      jws_Payload = (case payload of None \<Rightarrow> '''' | Some j \<Rightarrow> encoded j), jws_Signature = base64url_EncodeToString sig\<rparr>"
    by (simp add: dec_jws_def signed_body_def string_field_def dec_struct_def dec_string_def ToLower_def to_lower_def)
  have "dec_header (signed_header srv nonce urlpath kid) = Inr
      \<lparr>jh_Alg = ''ES256'', jh_Nonce = nonce, jh_URL = ac_ExternalURL (sv_cfg srv) @ urlpath, jh_KID = kid, jh_JWK = None\<rparr>"
    by (simp add: dec_header_def signed_header_def string_field_def dec_struct_def dec_string_def dec_raw_def ToLower_def to_lower_def)
  then show ?thesis
    unfolding dec_request_def b by (simp add: d json_encoded [OF h])
qed

definition payload_bytes :: "json option \<Rightarrow> bytes" where
  "payload_bytes payload = (case payload of None \<Rightarrow> [] | Some j \<Rightarrow> str_bytes (json_text j))"

lemma dec_payload_signed:
  assumes "pred_option plain payload"
  shows "dec_payload \<lparr>jws_Protected = p, jws_Payload = (case payload of None \<Rightarrow> '''' | Some j \<Rightarrow> encoded j),
      jws_Signature = base64url_EncodeToString sig\<rparr> = Inr (payload_bytes payload, sig)"
proof (cases payload)
  case (Some j)
  with assms have j: "plain j" by simp
  have "encoded j \<noteq> ''''"
  proof
    assume "encoded j = ''''"
    with json_encoded(1) [OF j] have "json_text j = ''''" by (simp add: base64url_DecodeString_def skip_newlines_def str_bytes_def)
    with json_encoded(2) [OF j] show False by (simp add: json_Unmarshal_def str_bytes_def bytes_str_def)
  qed
  then show ?thesis using Some j by (simp add: dec_payload_def json_encoded payload_bytes_def)
qed (simp add: dec_payload_def payload_bytes_def)

text \<open>
  \<open>verifyJWS\<close> accepts what the owner of a registered key signs: with a nonce in store, for the
  URL of the request, with the account's key id and a signature that verifies.
\<close>

definition registered :: "acme_world \<Rightarrow> string \<Rightarrow> ACMEAccount \<Rightarrow> public_key \<Rightarrow> bool" where
  "registered w kid acct key \<longleftrightarrow> kid \<noteq> '''' \<and> parseJWK (aa_JWK acct) = Inr key \<and>
     (\<exists>rest. filter (\<lambda>r. aa_ID r = after_last_slash kid) (acme_accounts (aw_db w)) = acct # rest)"

definition signed_text :: "acme_Server \<Rightarrow> string \<Rightarrow> string \<Rightarrow> string \<Rightarrow> json option \<Rightarrow> string" where
  "signed_text srv nonce urlpath kid payload =
     encoded (signed_header srv nonce urlpath kid) @ ''.'' @ (case payload of None \<Rightarrow> '''' | Some j \<Rightarrow> encoded j)"

definition good_request ::
  "acme_Server \<Rightarrow> acme_world \<Rightarrow> string \<Rightarrow> string \<Rightarrow> string \<Rightarrow> json option \<Rightarrow> bytes \<Rightarrow> ACMEAccount \<Rightarrow> bool" where
  "good_request srv w nonce urlpath kid payload sig acct \<longleftrightarrow>
     ascii nonce \<and> ascii (ac_ExternalURL (sv_cfg srv)) \<and> ascii urlpath \<and> ascii kid \<and> pred_option plain payload \<and>
     length (rq_Body (signed_request srv nonce urlpath kid payload sig)) \<le> 2 ^ 20 \<and>
     (\<exists>key. registered w kid acct key \<and>
        verifySignature (sv_lib srv) key ''ES256'' (str_bytes (signed_text srv nonce urlpath kid payload)) sig = None)"

definition header_of_request :: "acme_Server \<Rightarrow> string \<Rightarrow> string \<Rightarrow> string \<Rightarrow> jwsHeader" where
  "header_of_request srv nonce urlpath kid = \<lparr>jh_Alg = ''ES256'', jh_Nonce = nonce,
     jh_URL = ac_ExternalURL (sv_cfg srv) @ urlpath, jh_KID = kid, jh_JWK = None\<rparr>"

lemma header_of_request_select [simp]:
  "jh_Alg (header_of_request srv nonce urlpath kid) = ''ES256''" "jh_Nonce (header_of_request srv nonce urlpath kid) = nonce"
  "jh_URL (header_of_request srv nonce urlpath kid) = ac_ExternalURL (sv_cfg srv) @ urlpath"
  "jh_KID (header_of_request srv nonce urlpath kid) = kid"
  by (simp_all add: header_of_request_def)

lemma GetACMEAccount_registered:
  assumes "registered w kid acct key" "db_sched (aw_db w) = []"
  shows "GetACMEAccount (after_last_slash kid) (aw_db w) = (Inr acct, aw_db w)"
  using assms by (auto simp: registered_def GetACMEAccount_def wrap_def query_row_def)

lemma run_verifyJWS:
  assumes "good_request srv w nonce urlpath kid payload sig acct"
    and "aw_nonces w nonce = Some e" "t < e" "db_sched (aw_db w) = []"
  shows "acme_run srv (verifyJWS srv (signed_request srv nonce urlpath kid payload sig) True k) w (ATime t # as) =
      acme_run srv (k (Inr (header_of_request srv nonce urlpath kid, payload_bytes payload, Some acct)))
        ((hear QNow (ATime t) w)\<lparr>aw_nonces := (aw_nonces w)(nonce := None)\<rparr>) as"
    and "acme_fair srv (verifyJWS srv (signed_request srv nonce urlpath kid payload sig) True k) w (ATime t # as) =
      acme_fair srv (k (Inr (header_of_request srv nonce urlpath kid, payload_bytes payload, Some acct)))
        ((hear QNow (ATime t) w)\<lparr>aw_nonces := (aw_nonces w)(nonce := None)\<rparr>) as"
proof -
  from assms(1) obtain key where *: "ascii nonce" "ascii (ac_ExternalURL (sv_cfg srv))" "ascii urlpath" "ascii kid" "pred_option plain payload"
      "length (rq_Body (signed_request srv nonce urlpath kid payload sig)) \<le> 2 ^ 20" "registered w kid acct key"
      "verifySignature (sv_lib srv) key ''ES256'' (str_bytes (signed_text srv nonce urlpath kid payload)) sig = None"
    by (auto simp: good_request_def)
  let ?j = "\<lparr>jws_Protected = encoded (signed_header srv nonce urlpath kid),
    jws_Payload = (case payload of None \<Rightarrow> '''' | Some j \<Rightarrow> encoded j), jws_Signature = base64url_EncodeToString sig\<rparr>"
  have sig: "check_signature srv key (header_of_request srv nonce urlpath kid) ?j sig = None"
    using *(8) by (simp add: check_signature_def signed_text_def)
  have p: "rq_Path (signed_request srv nonce urlpath kid payload sig) = urlpath" by (simp add: signed_request_def)
  note steps = verifyJWS_def dec_request_signed [OF *(1-4,6), folded header_of_request_def] p sig assms(2-4) take_nonce_def
    dec_payload_signed [OF *(5)] GetACMEAccount_registered [OF *(7)] runs
  have r: "registered w kid acct key" "kid \<noteq> ''''" "parseJWK (aa_JWK acct) = Inr key" using *(7) by (auto simp: registered_def)
  show "acme_run srv (verifyJWS srv (signed_request srv nonce urlpath kid payload sig) True k) w (ATime t # as) =
      acme_run srv (k (Inr (header_of_request srv nonce urlpath kid, payload_bytes payload, Some acct)))
        ((hear QNow (ATime t) w)\<lparr>aw_nonces := (aw_nonces w)(nonce := None)\<rparr>) as"
    using r by (simp add: steps)
  show "acme_fair srv (verifyJWS srv (signed_request srv nonce urlpath kid payload sig) True k) w (ATime t # as) =
      acme_fair srv (k (Inr (header_of_request srv nonce urlpath kid, payload_bytes payload, Some acct)))
        ((hear QNow (ATime t) w)\<lparr>aw_nonces := (aw_nonces w)(nonce := None)\<rparr>) as"
    using r by (simp add: steps)
qed

section \<open>Runs of the handlers\<close>

text \<open>
  The response of the server around that of a handler, and the state in which the handler goes on
  once the nonce that was issued with the request has been used for it.
\<close>

definition answer_with :: "string \<Rightarrow> response \<Rightarrow> acme_thread" where
  "answer_with nonce resp = Finish (Some (resp\<lparr>rs_Header := rs_Header resp @
     [(''Replay-Nonce'', nonce), (''Content-Type'', ''application/json'')]\<rparr>))"

lemma run_answer_with [runs]:
  "acme_run srv (answer_with n resp) w as =
     (Some (Some (resp\<lparr>rs_Header := rs_Header resp @ [(''Replay-Nonce'', n), (''Content-Type'', ''application/json'')]\<rparr>)), w, [], as)"
  "acme_fair srv (answer_with n resp) w as"
  by (simp_all add: answer_with_def)

definition visited :: "string \<Rightarrow> int \<Rightarrow> acme_world \<Rightarrow> acme_world" where
  "visited s t w = (hear QNow (ATime t) (hear QNow (ATime t) (hear QNonce (ANonce s) w)))\<lparr>aw_nonces := (aw_nonces w)(nonce_of s := None)\<rparr>"

lemma visited_db [simp]: "aw_db (visited s t w) = aw_db w"
  by (simp add: visited_def)

lemma run_request:
  assumes "good_request srv w (nonce_of s) urlpath kid payload sig acct" "db_sched (aw_db w) = []"
    and "acme_route srv urlpath = Some (methods, handler)" "''POST'' \<in> methods"
    and "\<And>r reply. handler r reply = verifyJWS srv r True (k reply)"
  shows "acme_run srv (acme_ServeHTTP srv (signed_request srv (nonce_of s) urlpath kid payload sig)) w (ANonce s # ATime t # ATime t # as) =
      acme_run srv (k (answer_with (nonce_of s)) (Inr (header_of_request srv (nonce_of s) urlpath kid, payload_bytes payload, Some acct)))
        (visited s t w) as"
    and "acme_fair srv (acme_ServeHTTP srv (signed_request srv (nonce_of s) urlpath kid payload sig)) w (ANonce s # ATime t # ATime t # as) =
      acme_fair srv (k (answer_with (nonce_of s)) (Inr (header_of_request srv (nonce_of s) urlpath kid, payload_bytes payload, Some acct)))
        (visited s t w) as"
proof -
  let ?r = "signed_request srv (nonce_of s) urlpath kid payload sig"
  let ?w = "(hear QNow (ATime t) (hear QNonce (ANonce s) w))\<lparr>aw_nonces := add_nonce (nonce_of s) t (aw_nonces w)\<rparr>"
  have req: "rq_Path ?r = urlpath" "rq_Method ?r = ''POST''" by (simp_all add: signed_request_def)
  have g: "good_request srv ?w (nonce_of s) urlpath kid payload sig acct"
    using assms(1) by (simp add: good_request_def registered_def)
  have n: "aw_nonces ?w (nonce_of s) = Some (t + 3600 * second)" "t < t + 3600 * second" "db_sched (aw_db ?w) = []"
    using assms(2) by (simp_all add: add_nonce_def second_def)
  have v: "(hear QNow (ATime t) ?w)\<lparr>aw_nonces := (aw_nonces ?w)(nonce_of s := None)\<rparr> = visited s t w"
    by (simp add: visited_def hear_def add_nonce_def)
  have k: "(\<lambda>resp. Finish (Some (resp\<lparr>rs_Header := rs_Header resp @
      [(''Replay-Nonce'', nonce_of s), (''Content-Type'', ''application/json'')]\<rparr>))) = answer_with (nonce_of s)"
    by (rule ext) (simp add: answer_with_def)
  show "acme_run srv (acme_ServeHTTP srv ?r) w (ANonce s # ATime t # ATime t # as) =
      acme_run srv (k (answer_with (nonce_of s)) (Inr (header_of_request srv (nonce_of s) urlpath kid, payload_bytes payload, Some acct)))
        (visited s t w) as"
    unfolding acme_ServeHTTP_def run_newNonce Let_def req assms(3) option.case prod.case k
    using assms(4) run_verifyJWS(1) [OF g n, of _ as] by (simp only: if_True assms(5) v)
  show "acme_fair srv (acme_ServeHTTP srv ?r) w (ANonce s # ATime t # ATime t # as) =
      acme_fair srv (k (answer_with (nonce_of s)) (Inr (header_of_request srv (nonce_of s) urlpath kid, payload_bytes payload, Some acct)))
        (visited s t w) as"
    unfolding acme_ServeHTTP_def run_newNonce Let_def req assms(3) option.case prod.case k
    using assms(4) run_verifyJWS(2) [OF g n, of _ as] by (simp only: if_True assms(5) v)
qed

text \<open>The tables after a new order with one identifier, all of whose rows get the same time.\<close>

definition order_row :: "acme_Server \<Rightarrow> db \<Rightarrow> int \<Rightarrow> string \<Rightarrow> Ident \<Rightarrow> ACMEOrder" where
  "order_row srv d t acctID ident =
     (new_order (id_of t) acctID [ident] (t + ac_OrderExpiry (sv_cfg srv)))\<lparr>ao_CreatedAt := db_now d, ao_UpdatedAt := db_now d\<rparr>"

definition authz_row :: "acme_Server \<Rightarrow> db \<Rightarrow> int \<Rightarrow> Ident \<Rightarrow> ACMEAuthorization" where
  "authz_row srv d t ident =
     \<lparr>az_ID = id_of t, az_OrderID = id_of t, az_Identifier = ident_doc ident, az_Status = ''pending'',
      az_Expires = t + ac_OrderExpiry (sv_cfg srv), az_Wildcard = HasPrefix (id_Value ident) ''*.'', az_CreatedAt = db_now d\<rparr>"

definition challenge_row :: "db \<Rightarrow> int \<Rightarrow> ACMEChallenge" where
  "challenge_row d t =
     \<lparr>ch_ID = id_of t, ch_AuthzID = id_of t, ch_Type = ''http-01'', ch_Status = ''pending'', ch_Token = id_of t @ id_of t,
      ch_Validated = None, ch_ErrorType = '''', ch_ErrorDetail = '''', ch_CreatedAt = db_now d\<rparr>"

definition ordered_db :: "acme_Server \<Rightarrow> db \<Rightarrow> int \<Rightarrow> string \<Rightarrow> Ident \<Rightarrow> db" where
  "ordered_db srv d t acctID ident = d\<lparr>acme_orders := acme_orders d @ [order_row srv d t acctID ident],
     acme_authorizations := acme_authorizations d @ [authz_row srv d t ident], acme_challenges := acme_challenges d @ [challenge_row d t]\<rparr>"

lemma CreateACMEOrder_ok:
  assumes "db_sched d = []" "acctID \<in> aa_ID ` set (acme_accounts d)"
    and "id_of t \<notin> ao_ID ` set (acme_orders d)" "id_of t \<notin> az_ID ` set (acme_authorizations d)" "id_of t \<notin> ch_ID ` set (acme_challenges d)"
  shows "CreateACMEOrder (new_order (id_of t) acctID [ident] (t + ac_OrderExpiry (sv_cfg srv)))
      [(authz_row srv d t ident)\<lparr>az_CreatedAt := 0\<rparr>] [(challenge_row d t)\<lparr>ch_CreatedAt := 0\<rparr>] d = (Inr (), ordered_db srv d t acctID ident)"
proof -
  have o: "insert_order (new_order (id_of t) acctID [ident] (t + ac_OrderExpiry (sv_cfg srv))) d =
      Inr (d\<lparr>acme_orders := acme_orders d @ [order_row srv d t acctID ident]\<rparr>)"
    using assms(2,3) by (auto simp: insert_order_def order_row_def new_order_def image_iff)
  have a: "insert_authz ((authz_row srv d t ident)\<lparr>az_CreatedAt := 0\<rparr>) (d\<lparr>acme_orders := os @ [order_row srv d t acctID ident]\<rparr>) =
      Inr (d\<lparr>acme_orders := os @ [order_row srv d t acctID ident], acme_authorizations := acme_authorizations d @ [authz_row srv d t ident]\<rparr>)" for os
    using assms(4) by (auto simp: insert_authz_def authz_row_def order_row_def new_order_def image_iff)
  have c: "insert_challenge ((challenge_row d t)\<lparr>ch_CreatedAt := 0\<rparr>)
      (d\<lparr>acme_orders := os, acme_authorizations := as @ [authz_row srv d t ident]\<rparr>) =
      Inr (d\<lparr>acme_orders := os, acme_authorizations := as @ [authz_row srv d t ident], acme_challenges := acme_challenges d @ [challenge_row d t]\<rparr>)" for os as
    using assms(5) by (auto simp: insert_challenge_def authz_row_def challenge_row_def image_iff)
  show ?thesis
    using assms(1) by (simp add: CreateACMEOrder_def tx_def io_bind_def wrap_def noop_def io_return_def o a c ordered_db_def)
qed


definition order_payload :: "Ident \<Rightarrow> json" where
  "order_payload ident = JObj [(''identifiers'', JArr [ident_doc ident])]"

lemma order_payload_decoded:
  assumes "ascii (id_Type ident)" "ascii (id_Value ident)"
  shows "plain (order_payload ident)" "payload_json dec_identifiers (payload_bytes (Some (order_payload ident))) = Inr [ident]"
proof -
  show p: "plain (order_payload ident)" using assms by (simp add: order_payload_def ident_doc_def ascii_def)
  have "dec_identifiers (order_payload ident) = Inr [ident]"
    by (simp add: order_payload_def ident_doc_def dec_identifiers_def dec_slice_def dec_ident_def string_field_def dec_struct_def
        dec_string_def ToLower_def to_lower_def)
  then show "payload_json dec_identifiers (payload_bytes (Some (order_payload ident))) = Inr [ident]"
    using json_roundtrip [OF p] by (simp add: payload_json_def payload_bytes_def)
qed

definition order_response :: "acme_Server \<Rightarrow> string \<Rightarrow> int \<Rightarrow> string \<Rightarrow> Ident \<Rightarrow> response option" where
  "order_response srv s t acctID ident = (case answer_with (nonce_of s)
     (acme_json 201 [(''Location'', orderURL srv (id_of t))]
       (renderOrder srv (new_order (id_of t) acctID [ident] (t + ac_OrderExpiry (sv_cfg srv))) (Some [authzURL srv (id_of t)])))
     of Finish r \<Rightarrow> r)"

lemma run_new_order:
  assumes "good_request srv w (nonce_of s) ''/acme/new-order'' kid (Some (order_payload ident)) sig acct" "db_sched (aw_db w) = []"
    and "id_Type ident = ''dns''" "ascii (id_Value ident)" "aa_ID acct \<in> aa_ID ` set (acme_accounts (aw_db w))"
    and "id_of t \<notin> ao_ID ` set (acme_orders (aw_db w))" "id_of t \<notin> az_ID ` set (acme_authorizations (aw_db w))"
      "id_of t \<notin> ch_ID ` set (acme_challenges (aw_db w))"
  defines "as \<equiv> ANonce s # replicate 8 (ATime t)"
  shows "\<exists>w'. acme_run srv (acme_ServeHTTP srv (signed_request srv (nonce_of s) ''/acme/new-order'' kid (Some (order_payload ident)) sig)) w as =
      (Some (order_response srv s t (aa_ID acct) ident), w', [], []) \<and> aw_db w' = ordered_db srv (aw_db w) t (aa_ID acct) ident \<and>
      acme_fair srv (acme_ServeHTTP srv (signed_request srv (nonce_of s) ''/acme/new-order'' kid (Some (order_payload ident)) sig)) w as"
proof -
  have route: "acme_route srv ''/acme/new-order'' = Some ({''POST''}, handleNewOrder srv)"
    by (simp add: acme_route_def)
  have payload: "payload_json dec_identifiers (payload_bytes (Some (order_payload ident))) = Inr [ident]"
    using order_payload_decoded(2) [of ident] assms(3,4) by (simp add: ascii_def)
  have find: "List.find (\<lambda>i. id_Type i \<noteq> ''dns'') [ident] = None" using assms(3) by simp
  note create = CreateACMEOrder_ok [OF assms(2,5-8), where srv = srv and ident = ident, unfolded authz_row_def challenge_row_def, simplified]
  have as: "as = ANonce s # ATime t # ATime t # ATime t # ATime t # ATime t # ATime t # ATime t # [ATime t]"
    by (simp add: as_def numeral_eq_Suc)
  note steps = run_request [OF assms(1,2) route _ handleNewOrder_def, simplified]
  show ?thesis
    unfolding as steps
    by (simp add: payload find runs assms(3) create order_response_def answer_with_def Let_def)
qed

text \<open>A request for a challenge that is neither valid nor invalid starts its validation.\<close>

lemma route_challenge:
  assumes "CHR ''/'' \<notin> set i" "i \<noteq> ''''"
  shows "acme_route srv (''/acme/challenge/'' @ i) = Some ({''POST''}, handleChallenge srv i)"
  using Split_no_sep [OF assms(1)] assms(2) by (simp add: acme_route_def)

lemma route_finalize:
  assumes "CHR ''/'' \<notin> set i" "i \<noteq> ''''"
  shows "acme_route srv (''/acme/order/'' @ i @ ''/finalize'') = Some ({''POST''}, handleFinalize srv i)"
  using Split_append [OF assms(1), of "''finalize''"] assms(2) by (simp add: acme_route_def)

lemma run_challenge_request:
  assumes "good_request srv w (nonce_of s) (''/acme/challenge/'' @ i) kid payload sig acct" "db_sched (aw_db w) = []"
    and "CHR ''/'' \<notin> set i" "i \<noteq> ''''"
    and "filter (\<lambda>r. ch_ID r = i) (acme_challenges (aw_db w)) = c # rest" "ch_Status c \<noteq> ''valid''" "ch_Status c \<noteq> ''invalid''"
  shows "\<exists>r. acme_run srv (acme_ServeHTTP srv (signed_request srv (nonce_of s) (''/acme/challenge/'' @ i) kid payload sig)) w
        [ANonce s, ATime t, ATime t] = (Some r, visited s t w, [JValidate c acct], []) \<and>
      acme_fair srv (acme_ServeHTTP srv (signed_request srv (nonce_of s) (''/acme/challenge/'' @ i) kid payload sig)) w
        [ANonce s, ATime t, ATime t]"
proof -
  define p where "p = ''/acme/challenge/'' @ i"
  note steps = run_request [OF assms(1,2) route_challenge [OF assms(3,4)] _ handleChallenge_def, folded p_def, simplified]
  have "GetACMEChallenge i (aw_db w) = (Inr c, aw_db w)"
    using assms(2,5) by (simp add: GetACMEChallenge_def wrap_def query_row_def)
  then show ?thesis
    unfolding p_def [symmetric] steps using assms(6,7) by (simp add: runs)
qed

text \<open>
  A validation that finds the key authorization: the tables it leaves. The order becomes ready
  when all its authorizations are valid, whatever its status was.
\<close>

definition challenge_accepted :: "string \<Rightarrow> int \<Rightarrow> ACMEChallenge \<Rightarrow> ACMEChallenge" where
  "challenge_accepted i t r =
     (if ch_ID r = i then r\<lparr>ch_Status := ''valid'', ch_Validated := Some t, ch_ErrorType := '''', ch_ErrorDetail := ''''\<rparr> else r)"

definition authz_accepted :: "string \<Rightarrow> ACMEAuthorization \<Rightarrow> ACMEAuthorization" where
  "authz_accepted i r = (if az_ID r = i then r\<lparr>az_Status := ''valid''\<rparr> else r)"

definition order_ready :: "int \<Rightarrow> string \<Rightarrow> ACMEOrder \<Rightarrow> ACMEOrder" where
  "order_ready clock i r = (if ao_ID r = i then r\<lparr>ao_Status := ''ready'', ao_UpdatedAt := clock\<rparr> else r)"

definition validated_db :: "db \<Rightarrow> ACMEChallenge \<Rightarrow> int \<Rightarrow> ACMEAuthorization \<Rightarrow> db" where
  "validated_db d ch t a =
     (let d1 = d\<lparr>acme_challenges := map (challenge_accepted (ch_ID ch) t) (acme_challenges d),
            acme_authorizations := map (authz_accepted (az_ID a)) (acme_authorizations d)\<rparr> in
      if \<forall>b\<in>set (acme_authorizations d1). az_OrderID b = az_OrderID a \<longrightarrow> az_ID b = az_ID a \<or> az_Status b = ''valid''
      then d1\<lparr>acme_orders := map (order_ready (db_now d) (az_OrderID a)) (acme_orders d)\<rparr> else d1)"

definition validation_answers :: "int \<Rightarrow> string list \<Rightarrow> int \<Rightarrow> bytes \<Rightarrow> answer list" where
  "validation_answers t addrs status body = [ATime t, AHosts (Inr addrs), AHttp (Received status body)]"

lemma accept_challenge_run:
  assumes "db_sched (aw_db w) = []" "filter (\<lambda>r. az_ID r = ch_AuthzID ch) (acme_authorizations (aw_db w)) = a # rest"
  shows "acme_run srv (accept_challenge ch t) w as = (Some None, w\<lparr>aw_db := validated_db (aw_db w) ch t a\<rparr>, [], as)"
    "acme_fair srv (accept_challenge ch t) w as"
proof -
  let ?d = "aw_db w"
  define d1 where "d1 = ?d\<lparr>acme_challenges := map (challenge_accepted (ch_ID ch) t) (acme_challenges ?d)\<rparr>"
  define d2 where "d2 = d1\<lparr>acme_authorizations := map (authz_accepted (az_ID a)) (acme_authorizations ?d)\<rparr>"
  define ready where "ready \<longleftrightarrow> (\<forall>b\<in>set (acme_authorizations d2). az_OrderID b = az_OrderID a \<longrightarrow> az_ID b = az_ID a \<or> az_Status b = ''valid'')"
  define authzs where "authzs = filter (\<lambda>r. az_OrderID r = az_OrderID a) (acme_authorizations d2)"
  define d3 where "d3 = d2\<lparr>acme_orders := map (order_ready (db_now ?d) (az_OrderID a)) (acme_orders ?d)\<rparr>"
  have 1: "UpdateACMEChallengeStatus (ch_ID ch) ''valid'' (Some t) '''' '''' ?d = (Inr (), d1)"
    using assms(1) by (simp add: UpdateACMEChallengeStatus_def wrap_def challenge_accepted_def d1_def)
  have 2: "GetACMEAuthorization (ch_AuthzID ch) d1 = (Inr a, d1)"
    using assms by (simp add: GetACMEAuthorization_def wrap_def query_row_def d1_def)
  have 3: "UpdateACMEAuthorizationStatus (az_ID a) ''valid'' d1 = (Inr (), d2)"
    using assms(1) by (simp add: UpdateACMEAuthorizationStatus_def wrap_def authz_accepted_def d2_def d1_def)
  have 4: "ListACMEAuthorizationsByOrder (az_OrderID a) d2 = (Inr authzs, d2)"
    using assms(1) by (simp add: ListACMEAuthorizationsByOrder_def wrap_def authzs_def d2_def d1_def)
  have 5: "UpdateACMEOrderStatus (az_OrderID a) ''ready'' (\<lambda>_. None) d2 = (Inr (), d3)"
    using assms(1) by (simp add: UpdateACMEOrderStatus_def wrap_def order_ready_def set_column_def d3_def d2_def d1_def)
  have 6: "all_others_valid (az_ID a) authzs = ready"
    by (auto simp: all_others_valid_def list_all_iff authzs_def ready_def)
  have v: "validated_db ?d ch t a = (if ready then d3 else d2)"
    unfolding validated_db_def Let_def ready_def d3_def d2_def d1_def by (auto simp del: set_map)
  show "acme_run srv (accept_challenge ch t) w as = (Some None, w\<lparr>aw_db := validated_db (aw_db w) ch t a\<rparr>, [], as)"
    "acme_fair srv (accept_challenge ch t) w as"
    unfolding accept_challenge_def settle_authz_def settle_order_def v by (simp_all add: runs 1 2 3 4 5 6)
qed

lemma run_validation:
  assumes "db_sched (aw_db w) = []" "filter (\<lambda>r. az_ID r = ch_AuthzID ch) (acme_authorizations (aw_db w)) = a # rest"
    and "string_field ''value'' (az_Identifier a) = Inr host" "bad_address (sv_lib srv) addrs = None"
    and "TrimSpace (bytes_str (take 1024 body)) = key_authorization ch (aa_JWK acct)" "\<not> ac_AutoApproveChallenge (sv_cfg srv)"
  shows "\<exists>w'. acme_run srv (validateChallenge srv ch acct) w (validation_answers t addrs status body) = (Some None, w', [], []) \<and>
      acme_fair srv (validateChallenge srv ch acct) w (validation_answers t addrs status body) \<and>
      aw_db w' = validated_db (aw_db w) ch t a \<and> aw_nonces w' = aw_nonces w"
proof -
  have "GetACMEAuthorization (ch_AuthzID ch) (aw_db w) = (Inr a, aw_db w)"
    using assms(1,2) by (simp add: GetACMEAuthorization_def wrap_def query_row_def)
  then show ?thesis
    using assms
    by (simp add: validateChallenge_def performHTTP01_def isAllowedHTTP01Target_def validation_answers_def runs accept_challenge_run)
qed

text \<open>Finalizing a ready order of the account.\<close>

definition finalize_payload :: "bytes \<Rightarrow> json" where
  "finalize_payload csrDER = JObj [(''csr'', JStr (base64url_EncodeToString csrDER))]"

lemma finalize_payload_decoded:
  "plain (finalize_payload csrDER)"
  "payload_json (string_field ''csr'') (payload_bytes (Some (finalize_payload csrDER))) = Inr (base64url_EncodeToString csrDER)"
proof -
  show p: "plain (finalize_payload csrDER)" by (simp add: finalize_payload_def) (simp add: ascii_def)
  show "payload_json (string_field ''csr'') (payload_bytes (Some (finalize_payload csrDER))) = Inr (base64url_EncodeToString csrDER)"
    using json_roundtrip [OF p]
    by (simp add: payload_json_def payload_bytes_def finalize_payload_def string_field_def dec_struct_def dec_string_def ToLower_def to_lower_def)
qed

definition order_update :: "int \<Rightarrow> string \<Rightarrow> string \<Rightarrow> (string \<Rightarrow> string option) \<Rightarrow> ACMEOrder \<Rightarrow> ACMEOrder" where
  "order_update clock i status updates r = (if ao_ID r = i then
        r\<lparr>ao_Status := status, ao_UpdatedAt := clock,
          ao_CSR := set_column updates ''csr'' (ao_CSR r),
          ao_CertificateURL := set_column updates ''certificate_url'' (ao_CertificateURL r),
          ao_CertSerial := set_column updates ''cert_serial'' (ao_CertSerial r),
          ao_AssertionURL := set_column updates ''assertion_url'' (ao_AssertionURL r),
          ao_ErrorType := set_column updates ''error_type'' (ao_ErrorType r),
          ao_ErrorDetail := set_column updates ''error_detail'' (ao_ErrorDetail r)\<rparr> else r)"

definition updated_db :: "db \<Rightarrow> string \<Rightarrow> string \<Rightarrow> (string \<Rightarrow> string option) \<Rightarrow> db" where
  "updated_db d i status updates = d\<lparr>acme_orders := map (order_update (db_now d) i status updates) (acme_orders d)\<rparr>"

lemma UpdateACMEOrderStatus_ok:
  "db_sched d = [] \<Longrightarrow> UpdateACMEOrderStatus i status updates d = (Inr (), updated_db d i status updates)"
  by (simp add: UpdateACMEOrderStatus_def wrap_def updated_db_def order_update_def [abs_def])

lemma updated_db_sched [simp]: "db_sched (updated_db d i status updates) = db_sched d"
  by (simp add: updated_db_def)

lemma run_finalize_request:
  assumes "good_request srv w (nonce_of s) (''/acme/order/'' @ i @ ''/finalize'') kid (Some (finalize_payload csrDER)) sig acct"
    and "db_sched (aw_db w) = []" "CHR ''/'' \<notin> set i" "i \<noteq> ''''"
    and "filter (\<lambda>r. ao_ID r = i) (acme_orders (aw_db w)) = order # rest" "ao_AccountID order = aa_ID acct" "ao_Status order = ''ready''"
    and "al_ParseCertificateRequest (sv_lib srv) csrDER = Inr csr" "missing_ident csr (order_idents order) = None"
  defines "r \<equiv> signed_request srv (nonce_of s) (''/acme/order/'' @ i @ ''/finalize'') kid (Some (finalize_payload csrDER)) sig"
    and "pem \<equiv> al_pem_EncodeToMemory (sv_lib srv) (''CERTIFICATE REQUEST'', csrDER)"
  shows "\<exists>resp w'. acme_run srv (acme_ServeHTTP srv r) w [ANonce s, ATime t, ATime t] =
        (Some resp, w', [JFinalize i csr pem (order_idents order)], []) \<and>
      acme_fair srv (acme_ServeHTTP srv r) w [ANonce s, ATime t, ATime t] \<and>
      aw_db w' = updated_db (aw_db w) i ''processing'' (column ''csr'' (bytes_str pem))"
proof -
  define p where "p = ''/acme/order/'' @ i @ ''/finalize''"
  note steps = run_request [OF assms(1,2) route_finalize [OF assms(3,4)] _ handleFinalize_def, folded p_def, simplified]
  have o: "GetACMEOrder i (aw_db w) = (Inr order, aw_db w)"
    using assms(2,5) by (simp add: GetACMEOrder_def wrap_def query_row_def)
  have u: "getAuthzURLs srv i k = dbop (ListACMEAuthorizationsByOrder i) (\<lambda>res.
      case res of Inl err \<Rightarrow> k (Inl err) | Inr authzs \<Rightarrow> k (Inr (map (\<lambda>a. authzURL srv (az_ID a)) authzs)))" for k
    by (simp add: getAuthzURLs_def)
  have l: "ListACMEAuthorizationsByOrder i d = (Inr (filter (\<lambda>r. az_OrderID r = i) (acme_authorizations d)), d)" if "db_sched d = []" for d
    using that by (simp add: ListACMEAuthorizationsByOrder_def wrap_def)
  show ?thesis
    unfolding r_def p_def [symmetric] steps pem_def Let_def
    by (simp add: runs o u l UpdateACMEOrderStatus_ok assms(2,6-9) finalize_payload_decoded(2))
qed

text \<open>The proxied CA issues, and no assertion appears before the wait ends.\<close>

definition ca_reply :: "string \<Rightarrow> bytes" where
  "ca_reply serial = str_bytes (json_text (JObj [(''id'', JStr ''1''), (''serial_number'', JStr serial)]))"

lemma run_issue_via_CA:
  assumes "db_sched (aw_db w) = []" "sv_localCA srv = None" "ascii serial" "serial \<noteq> ''''"
  shows "\<exists>w'. acme_run srv (processFinalize srv i csr pem idents) w
        [ATime t, ATime t, AHttp (Received 200 (ca_reply serial)), AWait 0 e] = (Some None, w', [], []) \<and>
      acme_fair srv (processFinalize srv i csr pem idents) w [ATime t, ATime t, AHttp (Received 200 (ca_reply serial)), AWait 0 e] \<and>
      aw_db w' = updated_db (updated_db (aw_db w) i ''processing'' (column ''cert_serial'' (ToUpper serial)))
        i ''valid'' (column ''certificate_url'' (certURL srv i))"
proof -
  have p: "plain (JObj [(''id'', JStr ''1''), (''serial_number'', JStr serial)])" using assms(3) by (simp add: ascii_def)
  have j: "payload_json (\<lambda>doc. case string_field ''id'' doc of Inl a \<Rightarrow> Inl type_error
      | Inr x \<Rightarrow> (case string_field ''serial_number'' doc of Inl a \<Rightarrow> Inl type_error | Inr s \<Rightarrow> Inr s)) (ca_reply serial) = Inr serial"
    using json_roundtrip [OF p]
    by (simp add: payload_json_def ca_reply_def string_field_def dec_struct_def dec_string_def ToLower_def to_lower_def)
  show ?thesis
    using assms(1,2,4)
    by (simp add: processFinalize_def issue_via_CA_def proxyToCA_def waitForAssertion_def Let_def runs j UpdateACMEOrderStatus_ok)
qed

section \<open>The length of a request\<close>

lemma length_signed_request:
  "length (rq_Body (signed_request srv nonce urlpath kid payload sig)) \<le>
     12 * (length nonce + length (ac_ExternalURL (sv_cfg srv)) + length urlpath + length kid) + 2 * length (payload_bytes payload) +
     2 * length sig + 500"
proof -
  have h: "length (json_text (signed_header srv nonce urlpath kid)) \<le>
      6 * (length nonce + length (ac_ExternalURL (sv_cfg srv)) + length urlpath + length kid) + 200"
    using length_quote [of nonce] length_quote [of "ac_ExternalURL (sv_cfg srv) @ urlpath"] length_quote [of kid]
    by (simp add: signed_header_def member_text_def json_quote_def [of "''alg''"] json_quote_def [of "''nonce''"]
        json_quote_def [of "''url''"] json_quote_def [of "''kid''"] json_quote_def [of "''ES256''"] json_char_def)
  have e: "length (json_quote (encoded j)) \<le> 2 * length (json_text j) + 2" for j
    using length_base64url [of "str_bytes (json_text j)"] by (simp add: encoded_def token_quote)
  have s: "length (json_quote (base64url_EncodeToString sig)) \<le> 2 * length sig + 2"
    using length_base64url [of sig] by (simp add: token_quote)
  have p: "length (json_quote (case payload of None \<Rightarrow> '''' | Some j \<Rightarrow> encoded j)) \<le> 2 * length (payload_bytes payload) + 2"
    using e by (auto simp: payload_bytes_def json_quote_def split: option.split)
  show ?thesis
    using h e [of "signed_header srv nonce urlpath kid"] s p
    by (simp add: signed_request_def signed_body_def member_text_def json_quote_def [of "''protected''"]
        json_quote_def [of "''payload''"] json_quote_def [of "''signature''"] json_char_def)
qed

end
