(* ===== verification/AcmeSession.thy ===== *)
theory AcmeSession
  imports AcmeSafety AcmeClient
begin

text \<open>
  Properties of the ACME server: control of a name is proved before an order leaves the status
  pending, nonces are accepted once, a validation that succeeds makes an order ready, and what
  the server does not ensure, the order of the statuses.
  A session of one client with a concrete server shows that the hypotheses can hold.
\<close>

section \<open>A session\<close>

definition demo_acme_lib :: acme_lib where
  "demo_acme_lib = \<lparr>al_ecdsa_Verify = (\<lambda>c x y h r s. True), al_rsa_VerifyPKCS1v15 = (\<lambda>n e h s. None),
     al_ParseCertificateRequest = (\<lambda>der. Inr (demo_csr\<lparr>csr_Subject := demo_name\<lparr>nm_CommonName := ''evil.example''\<rparr>, csr_DNSNames := [''A.example'']\<rparr>)),
     al_pem_EncodeToMemory = snd, al_SplitHostPort = (\<lambda>h. Inl (Errorf ''missing port in address'')),
     al_ParseIP = (\<lambda>s. Some [8, 8, 8, 8]), al_x509 = toy_x509\<rparr>"

definition demo_acme_cfg :: acme_Config where
  "demo_acme_cfg = \<lparr>ac_ExternalURL = ''https://ca.example'', ac_CAProxyURL = ''https://up.example'', ac_CAAPIKey = ''k'', ac_CAID = ''c'',
     ac_TemplateID = ''t'', ac_MTCBridgeURL = ''1'', ac_OrderExpiry = 0, ac_AssertionTimeout = 0, ac_AssertionPollInterval = 0,
     ac_AutoApproveChallenge = False, ac_MTCMode = False\<rparr>"

definition demo_acme :: acme_Server where
  "demo_acme = New_acme demo_acme_cfg None toy_crypto toy_cosigner demo_acme_lib"

definition demo_jwk :: json where
  "demo_jwk = JObj [(''kty'', JStr ''EC''), (''crv'', JStr ''P-256''), (''x'', JStr ''AA''), (''y'', JStr ''AA'')]"

definition demo_account :: ACMEAccount where
  "demo_account = \<lparr>aa_ID = ''a1'', aa_Status = ''valid'', aa_KeyThumbprint = ''t'', aa_JWK = demo_jwk, aa_Contact = JNull, aa_CreatedAt = 0\<rparr>"

definition demo_acme_db :: db where
  "demo_acme_db = empty_db\<lparr>acme_accounts := [demo_account]\<rparr>"

definition demo_ident :: Ident where
  "demo_ident = \<lparr>id_Type = ''dns'', id_Value = ''a.example''\<rparr>"

definition demo_kid :: string where "demo_kid = ''https://ca.example/acme/account/a1''"

abbreviation demo_signed :: "string \<Rightarrow> json option \<Rightarrow> request" where
  "demo_signed urlpath payload \<equiv> signed_request demo_acme (nonce_of ''0'') urlpath demo_kid payload (replicate 64 0)"

lemma demo_acme_simps [simp]:
  "ac_ExternalURL (sv_cfg demo_acme) = ''https://ca.example''" "sv_lib demo_acme = demo_acme_lib" "sv_localCA demo_acme = None"
  "\<not> ac_AutoApproveChallenge (sv_cfg demo_acme)"
  by (simp_all add: demo_acme_def New_acme_def demo_acme_cfg_def)

lemma demo_parseJWK: "parseJWK demo_jwk = Inr (ECKey P256 0 0)"
  by code_simp

lemma demo_after_slash: "after_last_slash demo_kid = ''a1''"
  by code_simp

lemma demo_registered:
  assumes "acme_accounts (aw_db w) = [demo_account]"
  shows "registered w demo_kid demo_account (ECKey P256 0 0)"
  unfolding registered_def demo_after_slash assms by (simp add: demo_kid_def demo_account_def demo_parseJWK)

lemma demo_good_for:
  assumes "ac_ExternalURL (sv_cfg srv) = ''https://ca.example''" "al_ecdsa_Verify (sv_lib srv) = (\<lambda>c x y h r s. True)"
    and "acme_accounts (aw_db w) = [demo_account]" "ascii urlpath" "length urlpath \<le> 1000"
    and "pred_option plain payload" "length (payload_bytes payload) \<le> 1000"
  shows "good_request srv w (nonce_of ''0'') urlpath demo_kid payload (replicate 64 0) demo_account"
proof -
  have "ascii ''https://ca.example''" "ascii demo_kid" "length demo_kid \<le> 100" by (simp_all add: ascii_def demo_kid_def)
  moreover have "length (rq_Body (signed_request srv (nonce_of ''0'') urlpath demo_kid payload (replicate 64 0))) \<le> 2 ^ 20"
    using length_signed_request [of srv "nonce_of ''0''" urlpath demo_kid payload "replicate 64 0"] length_ids(2) [of "''0''"]
      assms(1,5,7) \<open>length demo_kid \<le> 100\<close>
    by simp
  moreover have "verifySignature (sv_lib srv) (ECKey P256 0 0) ''ES256'' m (replicate 64 0) = None" for m
    by (simp add: verifySignature_def assms(2))
  ultimately show ?thesis
    unfolding good_request_def using assms demo_registered [OF assms(3)] by auto
qed

lemma demo_good:
  assumes "acme_accounts (aw_db w) = [demo_account]" "ascii urlpath" "length urlpath \<le> 1000"
    and "pred_option plain payload" "length (payload_bytes payload) \<le> 1000"
  shows "good_request demo_acme w (nonce_of ''0'') urlpath demo_kid payload (replicate 64 0) demo_account"
  by (rule demo_good_for [OF _ _ assms]) (simp_all add: demo_acme_lib_def)

text \<open>A new order, two requests for its challenge, and the first of the two validations.\<close>

definition demo_challenge :: ACMEChallenge where "demo_challenge = challenge_row demo_acme_db 0"
definition demo_authz :: ACMEAuthorization where "demo_authz = authz_row demo_acme demo_acme_db 0 demo_ident"
definition demo_order :: ACMEOrder where "demo_order = order_row demo_acme demo_acme_db 0 ''a1'' demo_ident"

definition demo_body :: bytes where
  "demo_body = str_bytes (key_authorization demo_challenge demo_jwk)"

lemma demo_ordered:
  "acme_accounts (ordered_db demo_acme demo_acme_db 0 ''a1'' demo_ident) = [demo_account]"
  "acme_orders (ordered_db demo_acme demo_acme_db 0 ''a1'' demo_ident) = [demo_order]"
  "acme_authorizations (ordered_db demo_acme demo_acme_db 0 ''a1'' demo_ident) = [demo_authz]"
  "acme_challenges (ordered_db demo_acme demo_acme_db 0 ''a1'' demo_ident) = [demo_challenge]"
  "db_sched (ordered_db demo_acme demo_acme_db 0 ''a1'' demo_ident) = []" "db_now (ordered_db demo_acme demo_acme_db 0 ''a1'' demo_ident) = 0"
  by (simp_all add: ordered_db_def demo_order_def demo_authz_def demo_challenge_def demo_acme_db_def empty_db_def)

lemma demo_rows [simp]:
  "ch_ID demo_challenge = id_of 0" "ch_AuthzID demo_challenge = id_of 0" "ch_Status demo_challenge = ''pending''"
  "ch_Token demo_challenge = id_of 0 @ id_of 0" "az_ID demo_authz = id_of 0" "az_OrderID demo_authz = id_of 0"
  "az_Identifier demo_authz = ident_doc demo_ident" "az_Status demo_authz = ''pending''"
  "ao_ID demo_order = id_of 0" "ao_AccountID demo_order = ''a1''" "ao_Status demo_order = ''pending''"
  "ao_Identifiers demo_order = JArr [ident_doc demo_ident]" "aa_ID demo_account = ''a1''" "aa_JWK demo_account = demo_jwk"
  by (simp_all add: demo_challenge_def challenge_row_def demo_authz_def authz_row_def demo_order_def order_row_def new_order_def demo_account_def)

lemma id_of_path: "CHR ''/'' \<notin> set (id_of t)" "id_of t \<noteq> ''''"
proof -
  show "CHR ''/'' \<notin> set (id_of t)" by (rule token_no_slash) simp
  have "take 12 (sha256 (str_bytes (dec_int t))) \<noteq> []"
    using length_sha256 [of "str_bytes (dec_int t)"] by (metis list.size(3) length_take min.absorb2 numeral_le_iff semiring_norm zero_neq_numeral)
  then obtain b bs where "take 12 (sha256 (str_bytes (dec_int t))) = b # bs" by (cases "take 12 (sha256 (str_bytes (dec_int t)))") auto
  moreover have "b64_encode al False (b # bs) \<noteq> []" for al b bs
    by (cases "(al, False, b # bs)" rule: b64_encode.cases) (auto simp: Let_def)
  ultimately show "id_of t \<noteq> ''''" by (simp add: id_of_def base64url_EncodeToString_def)
qed

lemma demo_key_authorization: "TrimSpace (bytes_str (take 1024 demo_body)) = key_authorization demo_challenge demo_jwk"
proof -
  let ?k = "key_authorization demo_challenge demo_jwk"
  obtain t where t: "jwkThumbprint demo_jwk = Inr (base64url_EncodeToString (sha256 t))"
    by (auto simp: jwkThumbprint_def canonical_JWK_def demo_jwk_def string_field_def dec_struct_def dec_string_def ToLower_def to_lower_def)
  then have k: "?k = (id_of 0 @ id_of 0) @ ''.'' @ base64url_EncodeToString (sha256 t)"
    by (simp add: key_authorization_def)
  have dot: "token_text ''.''" by (simp add: token_text_def)
  have "length ?k \<le> 1024"
    using length_ids(1) [of 0] length_base64url [of "sha256 t"] by (simp add: k)
  then have "take 1024 demo_body = str_bytes ?k" by (simp add: demo_body_def)
  then show ?thesis using dot by (simp add: k del: append_assoc append_Cons)
qed

abbreviation demo_machine where "demo_machine \<equiv> acme_machine demo_acme"

definition demo_ordered_db :: db where "demo_ordered_db = ordered_db demo_acme demo_acme_db 0 ''a1'' demo_ident"
definition demo_ready_db :: db where "demo_ready_db = validated_db demo_ordered_db demo_challenge 0 demo_authz"
definition demo_pending :: acme_thread where "demo_pending = validateChallenge demo_acme demo_challenge demo_account"

lemma demo_arrives: "arrives demo_machine (acme_ServeHTTP demo_acme r)"
  by (auto simp: acme_machine_def)

lemma demo_order_reached:
  "\<exists>w r. reaches demo_machine (acme_start demo_acme_db, []) (w, [Finish r]) \<and> aw_db w = demo_ordered_db"
proof -
  let ?w = "acme_start demo_acme_db"
  have a: "acme_accounts (aw_db ?w) = [demo_account]" "db_sched (aw_db ?w) = []" "acme_orders (aw_db ?w) = []"
      "acme_authorizations (aw_db ?w) = []" "acme_challenges (aw_db ?w) = []" "aw_db ?w = demo_acme_db"
    by (simp_all add: acme_start_def demo_acme_db_def empty_db_def)
  have i: "id_Type demo_ident = ''dns''" "ascii (id_Type demo_ident)" "ascii (id_Value demo_ident)"
    by (simp_all add: demo_ident_def ascii_def)
  have "length (json_text (order_payload demo_ident)) \<le> 1000"
    by (simp add: order_payload_def ident_doc_def demo_ident_def member_text_def json_quote_def json_char_def)
  then have g: "good_request demo_acme ?w (nonce_of ''0'') ''/acme/new-order'' demo_kid (Some (order_payload demo_ident)) (replicate 64 0) demo_account"
    using a(1) order_payload_decoded(1) [OF i(2,3)] by (intro demo_good) (simp_all add: payload_bytes_def ascii_def)
  obtain w' where w': "run demo_machine (acme_ServeHTTP demo_acme (demo_signed ''/acme/new-order'' (Some (order_payload demo_ident)))) ?w
        (ANonce ''0'' # replicate 8 (ATime 0)) = (Some (order_response demo_acme ''0'' 0 ''a1'' demo_ident), w', [], [])"
      "fair_run demo_machine (acme_ServeHTTP demo_acme (demo_signed ''/acme/new-order'' (Some (order_payload demo_ident)))) ?w
        (ANonce ''0'' # replicate 8 (ATime 0))"
      "aw_db w' = demo_ordered_db"
    using run_new_order [OF g a(2) i(1,3), of 0] a by (auto simp: demo_ordered_db_def)
  from arrive_and_run [OF demo_arrives w'(1,2), of "[]"] w'(3) show ?thesis by auto
qed

text \<open>A request for the challenge leaves the tables alone and starts a validation.\<close>

lemma demo_challenge_request:
  assumes "reaches demo_machine c (w, ts)" "aw_db w = demo_ordered_db"
  shows "\<exists>w' r. reaches demo_machine c (w', ts @ [Finish r, demo_pending]) \<and> aw_db w' = demo_ordered_db"
proof -
  let ?p = "''/acme/challenge/'' @ id_of 0"
  have db: "acme_accounts (aw_db w) = [demo_account]" "db_sched (aw_db w) = []" "acme_challenges (aw_db w) = [demo_challenge]"
    using assms(2) by (simp_all add: demo_ordered_db_def demo_ordered)
  have "ascii ?p" "length ?p \<le> 1000" using length_ids(1) [of 0] by (simp_all add: ascii_def [of "_ # _"] token_ascii [unfolded ascii_def])
  then have g: "good_request demo_acme w (nonce_of ''0'') ?p demo_kid None (replicate 64 0) demo_account"
    using db(1) by (intro demo_good) (simp_all add: payload_bytes_def)
  have f: "filter (\<lambda>r. ch_ID r = id_of 0) (acme_challenges (aw_db w)) = [demo_challenge]" using db(3) by simp
  obtain r where "run demo_machine (acme_ServeHTTP demo_acme (demo_signed ?p None)) w [ANonce ''0'', ATime 0, ATime 0] =
        (Some r, visited ''0'' 0 w, [JValidate demo_challenge demo_account], [])"
      "fair_run demo_machine (acme_ServeHTTP demo_acme (demo_signed ?p None)) w [ANonce ''0'', ATime 0, ATime 0]"
    using run_challenge_request [OF g db(2) id_of_path f, of 0] by auto
  from arrive_and_run [OF demo_arrives this, of ts] have "reaches demo_machine (w, ts) (visited ''0'' 0 w, ts @ [Finish r, demo_pending])"
    by (simp add: demo_pending_def acme_machine_def goroutine_of_def)
  from reaches_trans [OF this assms(1)] show ?thesis using assms(2) by auto
qed

text \<open>A validation that was started runs to its end.\<close>

lemma demo_validation:
  assumes "reaches demo_machine c (w, ts)" "i < length ts" "ts ! i = demo_pending"
    and "db_sched (aw_db w) = []" "filter (\<lambda>r. az_ID r = id_of 0) (acme_authorizations (aw_db w)) = a # rest"
    and "az_Identifier a = ident_doc demo_ident"
  shows "\<exists>w'. reaches demo_machine c (w', ts[i := Finish None]) \<and> aw_db w' = validated_db (aw_db w) demo_challenge 0 a"
proof -
  have six: "[8, 8, 8, 8] \<noteq> replicate 16 (0 :: byte)" by (auto dest: arg_cong [where f = length])
  have v: "string_field ''value'' (az_Identifier a) = Inr ''a.example''" "bad_address (sv_lib demo_acme) [''8.8.8.8''] = None"
    unfolding assms(6)
    by (simp_all add: ident_doc_def demo_ident_def string_field_def dec_struct_def dec_string_def ToLower_def to_lower_def bad_address_def
        demo_acme_lib_def disallowed_def IsLoopback_def IsPrivate_def IsLinkLocalUnicast_def IsLinkLocalMulticast_def IsUnspecified_def To4_def six)
  obtain w' where "run demo_machine demo_pending w (validation_answers 0 [''8.8.8.8''] 200 demo_body) = (Some None, w', [], [])"
      "fair_run demo_machine demo_pending w (validation_answers 0 [''8.8.8.8''] 200 demo_body)"
      "aw_db w' = validated_db (aw_db w) demo_challenge 0 a"
    using run_validation [OF assms(4) _ v, of demo_challenge rest demo_body demo_account 0 200] assms(5) demo_key_authorization
    by (auto simp: demo_pending_def)
  with run_reaches [OF this(1,2) assms(2,3)] reaches_trans [OF _ assms(1)] show ?thesis by auto
qed

lemma demo_ready:
  "acme_accounts demo_ready_db = [demo_account]"
  "acme_orders demo_ready_db = [demo_order\<lparr>ao_Status := ''ready'', ao_UpdatedAt := 0\<rparr>]"
  "acme_authorizations demo_ready_db = [demo_authz\<lparr>az_Status := ''valid''\<rparr>]" "db_sched demo_ready_db = []"
  by (simp_all add: demo_ready_db_def validated_db_def demo_ordered_db_def demo_ordered Let_def order_ready_def authz_accepted_def)

lemma demo_ready_reached:
  "\<exists>w r1 r2 r3. reaches demo_machine (acme_start demo_acme_db, []) (w, [Finish r1, Finish r2, Finish None, Finish r3, demo_pending]) \<and>
     aw_db w = demo_ready_db"
proof -
  obtain w1 r1 where w1: "reaches demo_machine (acme_start demo_acme_db, []) (w1, [Finish r1])" "aw_db w1 = demo_ordered_db"
    using demo_order_reached by blast
  obtain w2 r2 where w2: "reaches demo_machine (acme_start demo_acme_db, []) (w2, [Finish r1, Finish r2, demo_pending])" "aw_db w2 = demo_ordered_db"
    using demo_challenge_request [OF w1] by auto
  obtain w3 r3 where w3: "reaches demo_machine (acme_start demo_acme_db, []) (w3, [Finish r1, Finish r2, demo_pending, Finish r3, demo_pending])"
      "aw_db w3 = demo_ordered_db"
    using demo_challenge_request [OF w2] by auto
  have "db_sched (aw_db w3) = []" "filter (\<lambda>r. az_ID r = id_of 0) (acme_authorizations (aw_db w3)) = [demo_authz]"
    using w3(2) by (simp_all add: demo_ordered_db_def demo_ordered)
  from demo_validation [OF w3(1) _ _ this, of 2] obtain w4 where
    "reaches demo_machine (acme_start demo_acme_db, []) (w4, [Finish r1, Finish r2, demo_pending, Finish r3, demo_pending][2 := Finish None])"
    "aw_db w4 = demo_ready_db" by (auto simp: w3(2) demo_ready_db_def)
  then show ?thesis by (auto simp: numeral_2_eq_2)
qed


section \<open>Domain control\<close>

lemma acme_inv_start:
  assumes "acme_orders d = []" "acme_authorizations d = []"
  shows "acme_inv srv (acme_start d)"
  using assms by (simp add: acme_inv_def acme_start_def Let_def)

lemma dec_each_elem: "dec_each f js = Inr vs \<Longrightarrow> v \<in> set vs \<Longrightarrow> \<exists>j\<in>set js. f j = Inr v"
  by (induction js arbitrary: vs) (auto split: sum.splits)

lemma order_idents_elem:
  assumes "ao_Identifiers r = JArr js" "i \<in> set (order_idents r)"
  shows "\<exists>j\<in>set js. string_field ''value'' j = Inr (id_Value i)"
proof -
  from assms have "\<exists>vs. dec_each dec_ident js = Inr vs \<and> i \<in> set vs"
    by (cases "dec_each dec_ident js") (auto simp: order_idents_def dec_slice_def)
  then obtain j where "j \<in> set js" "dec_ident j = Inr i" using dec_each_elem by metis
  then show ?thesis by (auto simp: dec_ident_def split: sum.splits)
qed

text \<open>
  C5. A server that does not approve challenges automatically has control of every name proved
  before an order is ready, processed or valid, in every execution from empty tables: handlers and
  goroutines interleave in any order, statements of the database fail at will, and clocks, resolvers
  and other servers answer anything. Each identifier of an order that is
  no longer pending (or has a certificate stored) belongs to an authorization of the order with
  a challenge for which the server resolved the host to addresses none of which it must not
  contact, and read the key authorization from the challenge file of that host. The configuration
  shipped with the program (\<open>config.yaml\<close>) does approve automatically, and then nothing of this holds.
\<close>

theorem domain_validated:
  assumes "reaches (acme_machine srv) (acme_start d, []) (w, ts)" "acme_orders d = []" "acme_authorizations d = []"
    and "\<not> ac_AutoApproveChallenge (sv_cfg srv)"
    and "r \<in> set (acme_orders (aw_db w))" "ao_Status r \<noteq> ''pending'' \<or> ao_FinalCertDER r \<noteq> []" "i \<in> set (order_idents r)"
  shows "\<exists>a\<in>set (acme_authorizations (aw_db w)). \<exists>ch\<in>set (acme_challenges (aw_db w)).
    az_OrderID a = ao_ID r \<and> az_Status a = ''valid'' \<and> string_field ''value'' (az_Identifier a) = Inr (id_Value i) \<and>
    ch_AuthzID ch = az_ID a \<and> host_proved (sv_lib srv) (aw_io w) ch (id_Value i)"
proof -
  have inv: "acme_inv srv w" using acme.reaches_safe [OF assms(1) acme_inv_start [OF assms(2,3)]] by simp
  let ?as = "authzs_of (aw_db w) (ao_ID r)"
  from inv assms(5) have "ao_Identifiers r = JArr (map az_Identifier ?as)" unfolding acme_inv_def Let_def by blast
  from order_idents_elem [OF this assms(7)] obtain a where a: "a \<in> set ?as" "string_field ''value'' (az_Identifier a) = Inr (id_Value i)"
    by auto
  from inv assms(5,6) have "ao_Status r \<noteq> ''pending''" unfolding acme_inv_def Let_def by blast
  with inv assms(5) a(1) have v: "az_Status a = ''valid''" unfolding acme_inv_def Let_def by blast
  from a(1) have mem: "a \<in> set (acme_authorizations (aw_db w))" "az_OrderID a = ao_ID r" by (auto simp: authzs_of_def)
  with inv v have "approved srv w a" unfolding acme_inv_def Let_def by blast
  with assms(4) a(2) mem v show ?thesis by (auto simp: approved_def)
qed

theorem domain_validated_witness:
  "\<exists>w ts r ch. reaches (acme_machine demo_acme) (acme_start demo_acme_db, []) (w, ts) \<and>
     r \<in> set (acme_orders (aw_db w)) \<and> ao_Status r = ''ready'' \<and> host_proved (sv_lib demo_acme) (aw_io w) ch ''a.example''"
proof -
  obtain w ts where w: "reaches demo_machine (acme_start demo_acme_db, []) (w, ts)" "aw_db w = demo_ready_db"
    using demo_ready_reached by blast
  let ?r = "demo_order\<lparr>ao_Status := ''ready'', ao_UpdatedAt := 0\<rparr>"
  have r: "?r \<in> set (acme_orders (aw_db w))" by (simp add: w(2) demo_ready)
  have "demo_ident \<in> set (order_idents ?r)"
    by (simp add: order_idents_def dec_slice_def dec_ident_def ident_doc_def string_field_def dec_struct_def dec_string_def ToLower_def to_lower_def demo_ident_def)
  then obtain ch where "host_proved (sv_lib demo_acme) (aw_io w) ch (id_Value demo_ident)"
    using domain_validated [OF w(1) _ _ demo_acme_simps(4) r] by (auto simp: demo_acme_db_def empty_db_def)
  then show ?thesis using w(1) r by (auto simp: demo_ident_def intro!: exI bexI [of _ ?r])
qed


section \<open>Validation\<close>

text \<open>
  C38. A validation that reaches the host and reads the key authorization completes: it marks the
  challenge and its authorization valid, and when every other authorization of the order is
  valid it sets the order to ready, whatever the status of the order was.
\<close>

theorem validation_makes_ready:
  assumes "db_sched (aw_db w) = []" "filter (\<lambda>r. az_ID r = ch_AuthzID ch) (acme_authorizations (aw_db w)) = a # rest"
    and "string_field ''value'' (az_Identifier a) = Inr host" "bad_address (sv_lib srv) addrs = None"
    and "TrimSpace (bytes_str (take 1024 body)) = key_authorization ch (aa_JWK acct)" "\<not> ac_AutoApproveChallenge (sv_cfg srv)"
    and "\<forall>b\<in>set (acme_authorizations (aw_db w)). az_OrderID b = az_OrderID a \<longrightarrow> az_ID b = az_ID a \<or> az_Status b = ''valid''"
  shows "\<exists>w'. run (acme_machine srv) (validateChallenge srv ch acct) w [ATime t, AHosts (Inr addrs), AHttp (Received status body)] =
      (Some None, w', [], []) \<and>
    (\<forall>c\<in>set (acme_challenges (aw_db w')). ch_ID c = ch_ID ch \<longrightarrow> ch_Status c = ''valid'') \<and>
    (\<forall>b\<in>set (acme_authorizations (aw_db w')). az_ID b = az_ID a \<longrightarrow> az_Status b = ''valid'') \<and>
    acme_orders (aw_db w') = map (\<lambda>r. if ao_ID r = az_OrderID a
      then r\<lparr>ao_Status := ''ready'', ao_UpdatedAt := db_now (aw_db w)\<rparr> else r) (acme_orders (aw_db w))"
proof -
  have all: "\<forall>b\<in>set (map (authz_accepted (az_ID a)) (acme_authorizations (aw_db w))).
      az_OrderID b = az_OrderID a \<longrightarrow> az_ID b = az_ID a \<or> az_Status b = ''valid''"
    using assms(7) by (auto simp: authz_accepted_def)
  obtain w' where w': "run (acme_machine srv) (validateChallenge srv ch acct) w (validation_answers t addrs status body) = (Some None, w', [], [])"
      "aw_db w' = validated_db (aw_db w) ch t a"
    using run_validation [OF assms(1-6)] by blast
  have rows: "acme_orders (aw_db w') = map (order_ready (db_now (aw_db w)) (az_OrderID a)) (acme_orders (aw_db w))"
    "acme_challenges (aw_db w') = map (challenge_accepted (ch_ID ch) t) (acme_challenges (aw_db w))"
    "acme_authorizations (aw_db w') = map (authz_accepted (az_ID a)) (acme_authorizations (aw_db w))"
    using all by (simp_all add: w'(2) validated_db_def Let_def)
  have "\<forall>c\<in>set (acme_challenges (aw_db w')). ch_ID c = ch_ID ch \<longrightarrow> ch_Status c = ''valid''"
    "\<forall>b\<in>set (acme_authorizations (aw_db w')). az_ID b = az_ID a \<longrightarrow> az_Status b = ''valid''"
    unfolding rows by (auto simp: challenge_accepted_def authz_accepted_def)
  then show ?thesis
    using w'(1) rows(1) unfolding validation_answers_def order_ready_def [abs_def] by (intro exI [of _ w'] conjI)
qed

theorem validation_makes_ready_witness:
  "\<exists>w'. run (acme_machine demo_acme) (validateChallenge demo_acme demo_challenge demo_account) (acme_start demo_ordered_db)
      [ATime 0, AHosts (Inr [''8.8.8.8'']), AHttp (Received 200 demo_body)] = (Some None, w', [], []) \<and>
    map ao_Status (acme_orders (aw_db w')) = [''ready'']"
proof -
  have six: "[8, 8, 8, 8] \<noteq> replicate 16 (0 :: byte)" by (auto dest: arg_cong [where f = length])
  have "string_field ''value'' (az_Identifier demo_authz) = Inr ''a.example''" "bad_address (sv_lib demo_acme) [''8.8.8.8''] = None"
    by (simp_all add: ident_doc_def demo_ident_def string_field_def dec_struct_def dec_string_def ToLower_def to_lower_def bad_address_def
        demo_acme_lib_def disallowed_def IsLoopback_def IsPrivate_def IsLinkLocalUnicast_def IsLinkLocalMulticast_def IsUnspecified_def To4_def six)
  note v = this
  let ?w = "acme_start demo_ordered_db"
  have f: "db_sched (aw_db ?w) = []" "filter (\<lambda>r. az_ID r = ch_AuthzID demo_challenge) (acme_authorizations (aw_db ?w)) = [demo_authz]"
      "\<forall>b\<in>set (acme_authorizations (aw_db ?w)). az_OrderID b = az_OrderID demo_authz \<longrightarrow> az_ID b = az_ID demo_authz \<or> az_Status b = ''valid''"
    by (simp_all add: acme_start_def demo_ordered_db_def demo_ordered)
  have k: "TrimSpace (bytes_str (take 1024 demo_body)) = key_authorization demo_challenge (aa_JWK demo_account)"
    using demo_key_authorization by simp
  obtain w' where w': "run (acme_machine demo_acme) (validateChallenge demo_acme demo_challenge demo_account) ?w
      [ATime 0, AHosts (Inr [''8.8.8.8'']), AHttp (Received 200 demo_body)] = (Some None, w', [], [])"
      "acme_orders (aw_db w') = map (\<lambda>r. if ao_ID r = az_OrderID demo_authz
        then r\<lparr>ao_Status := ''ready'', ao_UpdatedAt := db_now (aw_db ?w)\<rparr> else r) (acme_orders (aw_db ?w))"
    using validation_makes_ready [OF f(1,2) v k demo_acme_simps(4) f(3), of 0 200] by blast
  have "map ao_Status (acme_orders (aw_db w')) = [''ready'']"
    unfolding w'(2) acme_start_def demo_ordered_db_def acme_world.simps demo_ordered by simp
  then show ?thesis using w'(1) by (intro exI [of _ w'] conjI)
qed

section \<open>Nonces\<close>

text \<open>
  What the server does to its nonces, one access under the lock after the other: a nonce is
  issued, taken, or the expired ones are removed, each at the time of the clock.
\<close>

datatype nonce_access = Issue string int | Take string int | Clean int

fun nonce_apply :: "nonce_access \<Rightarrow> nonces \<Rightarrow> nonces" where
  "nonce_apply (Issue n t) ns = add_nonce n t ns"
| "nonce_apply (Take n t) ns = snd (take_nonce n t ns)"
| "nonce_apply (Clean t) ns = cleanupNonces t ns"

definition nonces_after :: "nonce_access list \<Rightarrow> nonces" where
  "nonces_after as = fold nonce_apply as (\<lambda>_. None)"

lemma stored_nonce:
  "nonces_after as n = Some e \<Longrightarrow>
     \<exists>j<length as. \<exists>t. as ! j = Issue n t \<and> e = t + 3600 * second \<and> (\<forall>m. j < m \<and> m < length as \<longrightarrow> (\<forall>t'. as ! m \<noteq> Take n t'))"
proof (induction as rule: rev_induct)
  case (snoc a as)
  have step: "nonces_after (as @ [a]) = nonce_apply a (nonces_after as)" by (simp add: nonces_after_def)
  have "(\<exists>t. a = Issue n t \<and> e = t + 3600 * second) \<or> (nonces_after as n = Some e \<and> (\<forall>t. a \<noteq> Take n t))"
    using snoc.prems unfolding step
    by (cases a) (auto simp: add_nonce_def take_nonce_def cleanupNonces_def split: if_splits option.splits)
  then consider t where "a = Issue n t" "e = t + 3600 * second" | "nonces_after as n = Some e" "\<forall>t. a \<noteq> Take n t" by blast
  then show ?case
  proof cases
    case 1
    then show ?thesis by (intro exI [of _ "length as"]) auto
  next
    case 2
    from snoc.IH [OF 2(1)] obtain j t where j: "j < length as" "as ! j = Issue n t" "e = t + 3600 * second"
        "\<forall>m. j < m \<and> m < length as \<longrightarrow> (\<forall>t'. as ! m \<noteq> Take n t')" by blast
    then show ?thesis
      using 2(2) by (intro exI [of _ j]) (auto simp: nth_append less_Suc_eq)
  qed
qed (simp add: nonces_after_def)

text \<open>
  C37. A nonce is accepted at most once and not after an hour: when an access takes a nonce and
  finds it good, an earlier one issued this very nonce less than an hour before, and nobody has
  presented it in between, successfully or not.
\<close>

theorem nonce_accepted_once:
  assumes "i < length as" "as ! i = Take n t" "fst (take_nonce n t (nonces_after (take i as)))"
  shows "\<exists>j<i. \<exists>t0. as ! j = Issue n t0 \<and> t < t0 + 3600 * second \<and> (\<forall>m. j < m \<and> m < i \<longrightarrow> (\<forall>t'. as ! m \<noteq> Take n t'))"
proof -
  from assms(3) obtain e where "nonces_after (take i as) n = Some e" "t < e"
    by (auto simp: take_nonce_def split: option.splits)
  with stored_nonce [of "take i as" n e] assms(1) show ?thesis by auto
qed

theorem nonce_accepted_once_witness:
  "\<exists>j<1. \<exists>t0. [Issue ''n'' 0, Take ''n'' 5, Take ''n'' 6] ! j = Issue ''n'' t0 \<and> 5 < t0 + 3600 * second \<and>
     (\<forall>m. j < m \<and> m < 1 \<longrightarrow> (\<forall>t'. [Issue ''n'' 0, Take ''n'' 5, Take ''n'' 6] ! m \<noteq> Take ''n'' t')) \<and>
     \<not> fst (take_nonce ''n'' 6 (nonces_after [Issue ''n'' 0, Take ''n'' 5]))"
proof -
  have "fst (take_nonce ''n'' 5 (nonces_after (take 1 [Issue ''n'' 0, Take ''n'' 5, Take ''n'' 6])))"
    "\<not> fst (take_nonce ''n'' 6 (nonces_after [Issue ''n'' 0, Take ''n'' 5]))"
    by (simp_all add: nonces_after_def take_nonce_def add_nonce_def second_def)
  then show ?thesis
    using nonce_accepted_once [of 1 "[Issue ''n'' 0, Take ''n'' 5, Take ''n'' 6]" "''n''" 5] by auto
qed


section \<open>What finalizing does not ensure\<close>

definition demo_valid_db :: db where
  "demo_valid_db = updated_db (updated_db (updated_db demo_ready_db (id_of 0) ''processing'' (column ''csr'' ''''))
     (id_of 0) ''processing'' (column ''cert_serial'' ''AB'')) (id_of 0) ''valid'' (column ''certificate_url'' (certURL demo_acme (id_of 0)))"

lemma demo_valid_reached:
  "\<exists>w r1 r2 r3 r4. reaches demo_machine (acme_start demo_acme_db, [])
     (w, [Finish r1, Finish r2, Finish None, Finish r3, demo_pending, Finish r4, Finish None]) \<and> aw_db w = demo_valid_db"
proof -
  obtain w r1 r2 r3 where w: "reaches demo_machine (acme_start demo_acme_db, []) (w, [Finish r1, Finish r2, Finish None, Finish r3, demo_pending])"
      "aw_db w = demo_ready_db"
    using demo_ready_reached by blast
  let ?p = "''/acme/order/'' @ id_of 0 @ ''/finalize''" and ?o = "demo_order\<lparr>ao_Status := ''ready'', ao_UpdatedAt := 0\<rparr>"
  let ?csr = "demo_csr\<lparr>csr_Subject := demo_name\<lparr>nm_CommonName := ''evil.example''\<rparr>, csr_DNSNames := [''A.example'']\<rparr>"
  let ?r = "demo_signed ?p (Some (finalize_payload []))"
  have "ascii ?p" "length ?p \<le> 1000" using length_ids(1) [of 0]
    by (simp_all add: ascii_def [of "_ # _"] ascii_def [of "_ @ _"] token_ascii [unfolded ascii_def])
  moreover have "length (payload_bytes (Some (finalize_payload []))) \<le> 1000"
    by (simp add: payload_bytes_def finalize_payload_def member_text_def json_quote_def json_char_def base64url_EncodeToString_def)
  ultimately have g: "good_request demo_acme w (nonce_of ''0'') ?p demo_kid (Some (finalize_payload [])) (replicate 64 0) demo_account"
    using finalize_payload_decoded(1) by (intro demo_good) (simp_all add: w(2) demo_ready)
  have idents: "order_idents ?o = [demo_ident]"
    by (simp add: order_idents_def dec_slice_def dec_ident_def ident_doc_def string_field_def dec_struct_def dec_string_def ToLower_def to_lower_def demo_ident_def)
  have csr: "al_ParseCertificateRequest (sv_lib demo_acme) [] = Inr ?csr" by (simp add: demo_acme_lib_def)
  have named: "missing_ident ?csr (order_idents ?o) = None"
    unfolding idents by code_simp
  have pem: "al_pem_EncodeToMemory (sv_lib demo_acme) (''CERTIFICATE REQUEST'', []) = []" by (simp add: demo_acme_lib_def)
  have f: "db_sched (aw_db w) = []" "filter (\<lambda>r. ao_ID r = id_of 0) (acme_orders (aw_db w)) = [?o]" "ao_AccountID ?o = aa_ID demo_account"
      "ao_Status ?o = ''ready''"
    by (simp_all add: w(2) demo_ready)
  obtain r4 w1 where w1: "run demo_machine (acme_ServeHTTP demo_acme ?r) w [ANonce ''0'', ATime 0, ATime 0] =
        (Some r4, w1, [JFinalize (id_of 0) ?csr [] (order_idents ?o)], [])"
      "fair_run demo_machine (acme_ServeHTTP demo_acme ?r) w [ANonce ''0'', ATime 0, ATime 0]"
      "aw_db w1 = updated_db (aw_db w) (id_of 0) ''processing'' (column ''csr'' '''')"
    using run_finalize_request [OF g f(1) id_of_path f(2-4) csr named, of 0, unfolded pem] by (auto simp: bytes_str_def)
  let ?t = "processFinalize demo_acme (id_of 0) ?csr [] (order_idents ?o)"
  have a1: "reaches demo_machine (acme_start demo_acme_db, [])
      (w1, [Finish r1, Finish r2, Finish None, Finish r3, demo_pending, Finish r4, ?t])"
    using reaches_trans [OF arrive_and_run [OF demo_arrives w1(1,2)] w(1)] by (simp add: acme_machine_def goroutine_of_def)
  have up: "ToUpper ''ab'' = ''AB''" by code_simp
  have "db_sched (aw_db w1) = []" using f(1) by (simp add: w1(3))
  from run_issue_via_CA [OF this, of demo_acme "''ab''" "id_of 0" ?csr "[]" "order_idents ?o" 0 "Errorf ''context canceled''"]
  obtain w2 where w2: "run demo_machine ?t w1 [ATime 0, ATime 0, AHttp (Received 200 (ca_reply ''ab'')), AWait 0 (Errorf ''context canceled'')] = (Some None, w2, [], [])"
      "fair_run demo_machine ?t w1 [ATime 0, ATime 0, AHttp (Received 200 (ca_reply ''ab'')), AWait 0 (Errorf ''context canceled'')]"
      "aw_db w2 = demo_valid_db"
    by (auto simp: ascii_def demo_valid_db_def w1(3) w(2) up)
  have "reaches demo_machine (acme_start demo_acme_db, [])
      (w2, [Finish r1, Finish r2, Finish None, Finish r3, demo_pending, Finish r4, Finish None])"
    using reaches_trans [OF run_reaches [OF w2(1,2), of 6] a1] by (simp add: numeral_eq_Suc)
  with w2(3) show ?thesis by blast
qed

text \<open>
  C39. The status of an order can go back: from empty tables but for an account the server
  reaches a state in which the order has its certificate and is valid, and from there a state
  in which the same order is ready again, so that it can be finalized a second time. A request
  for a challenge starts a validation as long as the challenge is not valid or invalid, and no
  handler stores that one is running; the second validation, when it ends late, sets the order
  to ready without looking at its status.
\<close>

theorem order_reopened:
  "\<exists>w ts r w' ts' r'. reaches (acme_machine demo_acme) (acme_start demo_acme_db, []) (w, ts) \<and>
     r \<in> set (acme_orders (aw_db w)) \<and> ao_Status r = ''valid'' \<and> ao_CertSerial r = ''AB'' \<and>
     reaches (acme_machine demo_acme) (w, ts) (w', ts') \<and>
     r' \<in> set (acme_orders (aw_db w')) \<and> ao_ID r' = ao_ID r \<and> ao_Status r' = ''ready''"
proof -
  obtain w r1 r2 r3 r4 where w: "reaches demo_machine (acme_start demo_acme_db, [])
      (w, [Finish r1, Finish r2, Finish None, Finish r3, demo_pending, Finish r4, Finish None])" "aw_db w = demo_valid_db"
    using demo_valid_reached by blast
  let ?ts = "[Finish r1, Finish r2, Finish None, Finish r3, demo_pending, Finish r4, Finish None]" and ?a = "demo_authz\<lparr>az_Status := ''valid''\<rparr>"
  have db: "db_sched demo_valid_db = []" "acme_authorizations demo_valid_db = [?a]"
    by (simp_all add: demo_valid_db_def updated_db_def demo_ready)
  obtain r where r: "acme_orders demo_valid_db = [r]" "ao_ID r = id_of 0" "ao_Status r = ''valid''" "ao_CertSerial r = ''AB''"
    by (simp add: demo_valid_db_def updated_db_def demo_ready order_update_def set_column_def column_def)
  have "i < length ?ts" "?ts ! i = demo_pending" if "i = 4" for i using that by (simp_all add: numeral_eq_Suc)
  from demo_validation [OF reaches_refl this, of 4 w ?a "[]"] obtain w' where w': "reaches demo_machine (w, ?ts) (w', ?ts[4 := Finish None])"
      "aw_db w' = validated_db demo_valid_db demo_challenge 0 ?a"
    by (auto simp: w(2) db)
  have "acme_orders (aw_db w') = [order_ready (db_now demo_valid_db) (id_of 0) r]"
    unfolding w'(2) by (simp add: validated_db_def Let_def db r authz_accepted_def)
  then have "\<exists>r'\<in>set (acme_orders (aw_db w')). ao_ID r' = ao_ID r \<and> ao_Status r' = ''ready''" using r(2) by (simp add: order_ready_def)
  with w w'(1) r show ?thesis by (metis list.set_intros(1))
qed

end
