(* ===== verification/AcmeIssue.thy ===== *)
theory AcmeIssue
  imports AcmeInvariant AcmeClient
begin

text \<open>
  Issuing by the ACME server from end to end: the certificate of the log that
  \<open>processFinalizeMTC\<close> stores with an order, its entry in the log and the checkpoint it is
  proved against.
\<close>

section \<open>Orders after a run\<close>

definition no_valid :: "string \<Rightarrow> db \<Rightarrow> bool" where
  "no_valid oid d \<longleftrightarrow> (\<forall>r\<in>set (acme_orders d). ao_ID r = oid \<longrightarrow> ao_Status r \<noteq> ''valid'')"

lemma order_update_row [simp]:
  "ao_ID (order_update clock i status updates r) = ao_ID r" "ao_FinalCertDER (order_update clock i status updates r) = ao_FinalCertDER r"
  "ao_ID r = i \<Longrightarrow> ao_Status (order_update clock i status updates r) = status"
  by (simp_all add: order_update_def)

lemma no_valid_updated: "status \<noteq> ''valid'' \<Longrightarrow> no_valid oid (updated_db d oid status updates)"
  by (simp add: no_valid_def updated_db_def)

lemma run_fail_order:
  assumes "no_faults (aw_db w)"
  shows "\<exists>w'. acme_run srv (fail_order oid what err) w as = (Some None, w', [], as) \<and> no_valid oid (aw_db w')"
  using assms by (simp add: fail_order_def runs no_faults_def UpdateACMEOrderStatus_ok no_valid_updated)

definition cert_row :: "int \<Rightarrow> string \<Rightarrow> bytes \<Rightarrow> bytes \<Rightarrow> ACMEOrder \<Rightarrow> ACMEOrder" where
  "cert_row clock oid cert caCert r =
     (if ao_ID r = oid then r\<lparr>ao_FinalCertDER := cert, ao_CACertDER := caCert, ao_UpdatedAt := clock\<rparr> else r)"

lemma run_store_cert:
  assumes "no_faults (aw_db w)"
  shows "acme_run srv (store_cert srv ca oid what cert serial) w as = (Some None,
      w\<lparr>aw_db := updated_db ((aw_db w)\<lparr>acme_orders := map (cert_row (db_now (aw_db w)) oid cert (CACertDER ca)) (acme_orders (aw_db w))\<rparr>)
        oid ''valid'' [''certificate_url'' \<mapsto> certURL srv oid, ''cert_serial'' \<mapsto> serial]\<rparr>, [], as)"
  using assms
  by (simp add: store_cert_def runs no_faults_def SetOrderFinalCertDER_def wrap_def UpdateACMEOrderStatus_ok cert_row_def [abs_def])

text \<open>Appending, signing and proving: the log has the entry, and the path leads to the signed root.\<close>

lemma run_log_and_prove:
  assumes "log_ready (aw_db w)" "int (length (entries (aw_db w))) + 1 < 2 ^ 63"
  shows "(\<exists>d what err. acme_run srv (log_and_prove srv oid entry k) w as = acme_run srv (fail_order oid what err) (w\<lparr>aw_db := d\<rparr>) as \<and> no_faults d \<and>
      (\<exists>n h e. SignCheckpoint (sv_crypto srv) (sv_cosigner srv) n h = Inl e)) \<or>
    (\<exists>d cp. acme_run srv (log_and_prove srv oid entry k) w as =
        acme_run srv (k (int (length (entries (aw_db w)))) cp (path (length (entries (aw_db w))) (rng (leaf_at d) 0 (int (length (entries (aw_db w))) + 1))))
          (w\<lparr>aw_db := d\<rparr>) as \<and>
      no_faults d \<and> entries d = entries (aw_db w) @ [le_EntryData entry] \<and> acme_orders d = acme_orders (aw_db w) \<and>
      cp \<in> set (checkpoints d) \<and> cp_TreeSize cp = int (length (entries (aw_db w))) + 1 \<and>
      leaf_at d (int (length (entries (aw_db w)))) = LeafHash (le_EntryData entry) \<and>
      cp_RootHash cp = hash_bytes (mth (rng (leaf_at d) 0 (int (length (entries (aw_db w))) + 1))))"
proof -
  let ?n = "int (length (entries (aw_db w)))"
  have inv: "log_inv (aw_db w)" "no_faults (aw_db w)" and n: "length (log_entries (aw_db w)) = length (entries (aw_db w))"
    using assms(1) by (simp_all add: log_ready_def entries_def)
  obtain d1 where d1: "AppendDirectEntry entry (aw_db w) = (Inr ?n, d1)" "appended [entry\<lparr>le_Index := ?n\<rparr>] (aw_db w) d1" "no_faults d1" "log_inv d1"
    using AppendDirectEntry_run [OF inv, of entry] n by auto
  have e1: "entries d1 = entries (aw_db w) @ [le_EntryData entry]" using appended_entries [OF d1(2)] by simp
  have l1: "length (log_entries d1) = length (log_entries (aw_db w)) + 1" using arg_cong [OF e1, of length] by (simp add: entries_def)
  have o1: "acme_orders d1 = acme_orders (aw_db w)"
    using same_orders_run [OF keeps_orders_log(1) d1(1)] by (simp add: same_orders_def)
  have r1: "log_ready d1" using d1(3,4) by (simp add: log_ready_def)
  obtain x d2 where c: "CreateCheckpoint (sv_crypto srv) (sv_cosigner srv) d1 = (x, d2)" by fastforce
  from r1 c show ?thesis
  proof (cases rule: CreateCheckpoint_cases)
    case (1 e)
    then have "acme_run srv (log_and_prove srv oid entry k) w as = acme_run srv (fail_order oid ''checkpoint failed: '' e) (w\<lparr>aw_db := d1\<rparr>) as"
      using c by (simp add: log_and_prove_def runs d1(1))
    moreover have "\<exists>n h e. SignCheckpoint (sv_crypto srv) (sv_cosigner srv) n h = Inl e"
    proof (rule ccontr)
      assume "\<not> ?thesis"
      then have "\<exists>nt sg. SignCheckpoint (sv_crypto srv) (sv_cosigner srv) n h = Inr (nt, sg)" for n h
        by (metis old.sum.exhaust surj_pair)
      then obtain nt sg where s: "SignCheckpoint (sv_crypto srv) (sv_cosigner srv) (int (length (log_entries d1))) (root_of (entries d1)) = Inr (nt, sg)"
        by blast
      have "log_entries d1 \<noteq> []" using l1 by auto
      from CreateCheckpoint_run [OF d1(4,3) this s] c 1 show False by auto
    qed
    ultimately show ?thesis using d1(3) by blast
  next
    case (2 cp)
    have d2: "log_served d2" "no_faults d2" "entries d2 = entries d1" "acme_orders d2 = acme_orders d1" "log_size d2 = ?n + 1"
      using r1 2(2) assms(2) l1 log_inv_cong [of d2 d1]
      by (simp_all add: log_served_def log_ready_def log_size_def entries_def)
    have size: "cp_TreeSize cp = ?n + 1" using 2(4) e1 by simp
    have p: "InclusionProofFromNodes ?n (cp_TreeSize cp) (node_at d2) = Some (Inr (path (length (entries (aw_db w))) (rng (leaf_at d2) 0 (?n + 1))))"
      using log_nodes.InclusionProofFromNodes_path [OF d2(1), of ?n "?n + 1"] d2(5) size by simp
    have root: "cp_RootHash cp = hash_bytes (mth (rng (leaf_at d2) 0 (?n + 1)))"
      using 2(3,4) leaf_at_root [of "?n + 1" d2] d2(3,5) e1 by (simp add: cp_true_def)
    have leaf: "leaf_at d2 ?n = LeafHash (le_EntryData entry)"
      using leaf_at_entry [of ?n d2] d2(3,5) e1 by (simp add: nth_append)
    have "acme_run srv (log_and_prove srv oid entry k) w as =
        acme_run srv (k ?n cp (path (length (entries (aw_db w))) (rng (leaf_at d2) 0 (?n + 1)))) (w\<lparr>aw_db := d2\<rparr>) as"
      using c 2(1) p by (simp add: log_and_prove_def runs d1(1))
    moreover have "cp \<in> set (checkpoints d2)" using 2(2) by simp
    ultimately show ?thesis using d2 e1 o1 size root leaf by (intro disjI2 exI [of _ d2] exI [of _ cp]) auto
  qed
qed


section \<open>A certificate of the log\<close>

text \<open>
  What the goroutine does up to the certificate, for a run that leaves its order valid: the entry is
  built and appended, a checkpoint of the grown log is signed, and the path of the entry is read.
\<close>

definition mtc_rest :: "acme_Server \<Rightarrow> LocalCA \<Rightarrow> string \<Rightarrow> CertificateRequest \<Rightarrow> Ident list \<Rightarrow> string \<Rightarrow> int \<Rightarrow> Checkpoint \<Rightarrow> hash list \<Rightarrow> int \<Rightarrow> acme_thread" where
  "mtc_rest srv ca oid csr idents serial i cp pf t3 =
     (case IssueMTCCert ca t3 csr (map id_Value idents) 0 i (Some (mtc_proof cp pf)) (ac_MTCBridgeURL (sv_cfg srv)) of
        None \<Rightarrow> Finish None
      | Some (Inl err) \<Rightarrow> fail_order oid ''MTC cert build failed: '' err
      | Some (Inr finalCertDER) \<Rightarrow> store_cert srv ca oid ''store cert failed: '' finalCertDER serial)"

definition mtc_logged :: "acme_world \<Rightarrow> LogEntry \<Rightarrow> db \<Rightarrow> Checkpoint \<Rightarrow> bool" where
  "mtc_logged w entry d cp \<longleftrightarrow> (let n = length (entries (aw_db w)) in
     no_faults d \<and> entries d = entries (aw_db w) @ [le_EntryData entry] \<and> acme_orders d = acme_orders (aw_db w) \<and>
     cp \<in> set (checkpoints d) \<and> cp_TreeSize cp = int n + 1 \<and> leaf_at d (int n) = LeafHash (le_EntryData entry) \<and>
     cp_RootHash cp = hash_bytes (mth (rng (leaf_at d) 0 (int n + 1))))"

lemma run_mtc_logged:
  assumes log: "log_ready (aw_db w)" "int (length (entries (aw_db w))) + 1 < 2 ^ 63"
    and clock: "truncate_second t1 = ta" "truncate_second t2 = tb" and serial: "serial = ''MTC-'' @ oid"
    and run: "acme_run srv (processFinalizeMTC srv ca oid csr idents) w [ATime t1, ATime t2, ATime t3] = (Some None, w', js, as)"
    and valid: "\<not> no_valid oid (aw_db w')"
  obtains der entry d cp where
    "BuildLogEntryFromCSR (ac_MTCBridgeURL (sv_cfg srv)) (time_UTC ta) (time_UTC (tb + ninety_days)) csr (map id_Value idents) = Some (Inr der)"
    "BuildMTCEntry der serial = Inr entry" "mtc_logged w entry d cp"
    "\<exists>v. aw_db v = d \<and> acme_run srv (mtc_rest srv ca oid csr idents serial (int (length (entries (aw_db w)))) cp
        (path (length (entries (aw_db w))) (rng (leaf_at d) 0 (int (length (entries (aw_db w))) + 1))) t3) v [] = (Some None, w', js, as)"
proof -
  let ?dns = "map id_Value idents" and ?id = "ac_MTCBridgeURL (sv_cfg srv)" and ?n = "length (entries (aw_db w))"
  have fail: False if "acme_run srv (fail_order oid what err) v xs = (Some None, w', js, as)" "no_faults (aw_db v)" for what err v xs
    using run_fail_order [OF that(2), of srv oid what err xs] that(1) valid by auto
  have nf: "no_faults (aw_db v)" if "aw_db v = aw_db w" for v :: acme_world using log(1) that by (simp add: log_ready_def)
  define w2 where "w2 = hear QNow (ATime t2) (hear QNow (ATime t1) w)"
  have w2: "aw_db w2 = aw_db w" by (simp add: w2_def)
  obtain res where res: "BuildLogEntryFromCSR ?id (time_UTC ta) (time_UTC (tb + ninety_days)) csr ?dns = Some res"
    using BuildTrustAnchorDN_total [of ?id] by (auto simp: BuildLogEntryFromCSR_def)
  note steps = processFinalizeMTC_def runs clock Let_def serial [symmetric] res
  obtain der where der: "res = Inr der"
    using run fail [of "''MTC log entry build failed: ''" _ w2] nf [OF w2] unfolding steps by (cases res) (auto simp: w2_def)
  obtain entry where entry: "BuildMTCEntry der serial = Inr entry"
    using run fail [of "''MTC entry build failed: ''" _ w2] nf [OF w2] unfolding steps der
    by (cases "BuildMTCEntry der serial") (auto simp: w2_def)
  define k where "k = (\<lambda>i cp pf. ask_now (mtc_rest srv ca oid csr idents serial i cp pf))"
  have "acme_run srv (log_and_prove srv oid entry k) w2 [ATime t3] = (Some None, w', js, as)"
    using run unfolding steps der by (simp add: w2_def entry k_def mtc_rest_def [abs_def] Let_def)
  then obtain d cp where d: "acme_run srv (k (int ?n) cp (path ?n (rng (leaf_at d) 0 (int ?n + 1)))) (w2\<lparr>aw_db := d\<rparr>) [ATime t3] = (Some None, w', js, as)"
      "mtc_logged w entry d cp"
    using run_log_and_prove [of w2 srv oid entry k "[ATime t3]"] log fail unfolding w2 mtc_logged_def Let_def by fastforce
  have "\<exists>v. aw_db v = d \<and> acme_run srv (mtc_rest srv ca oid csr idents serial (int ?n) cp
        (path ?n (rng (leaf_at d) 0 (int ?n + 1))) t3) v [] = (Some None, w', js, as)"
    using d(1) by (intro exI [of _ "hear QNow (ATime t3) (w2\<lparr>aw_db := d\<rparr>)"]) (simp add: k_def runs)
  with res der entry d(2) show ?thesis by (intro that [of der entry d cp]) simp_all
qed

text \<open>The end of the run: the certificate that was issued is the one stored with the order.\<close>

lemma run_mtc_rest:
  assumes run: "acme_run srv (mtc_rest srv ca oid csr idents serial i cp pf t3) v [] = (Some None, w', js, as)"
    and d: "mtc_logged w entry (aw_db v) cp0" and before: "\<forall>r\<in>set (acme_orders (aw_db w)). ao_ID r = oid \<longrightarrow> ao_Status r \<noteq> ''valid''"
    and r: "r \<in> set (acme_orders (aw_db w'))" "ao_ID r = oid" "ao_Status r = ''valid''"
  shows "IssueMTCCert ca t3 csr (map id_Value idents) 0 i (Some (mtc_proof cp pf)) (ac_MTCBridgeURL (sv_cfg srv)) = Some (Inr (ao_FinalCertDER r))"
    and "entries (aw_db w') = entries (aw_db v)" and "checkpoints (aw_db w') = checkpoints (aw_db v)"
proof -
  let ?issue = "IssueMTCCert ca t3 csr (map id_Value idents) 0 i (Some (mtc_proof cp pf)) (ac_MTCBridgeURL (sv_cfg srv))"
  have nf: "no_faults (aw_db v)" and orders: "acme_orders (aw_db v) = acme_orders (aw_db w)"
    using d by (simp_all add: mtc_logged_def Let_def)
  obtain x where x: "?issue = Some x"
  proof (cases ?issue)
    case None
    then show ?thesis using run orders before r by (auto simp: mtc_rest_def)
  qed simp
  obtain c where c: "?issue = Some (Inr c)"
  proof (cases x)
    case (Inl e)
    then show ?thesis using run_fail_order [OF nf, of srv oid "''MTC cert build failed: ''" e "[]"] run r x
      unfolding no_valid_def by (auto simp: mtc_rest_def)
  qed (use x in simp)
  define d' where "d' = (aw_db v)\<lparr>acme_orders := map (cert_row (db_now (aw_db v)) oid c (CACertDER ca)) (acme_orders (aw_db v))\<rparr>"
  have w': "aw_db w' = updated_db d' oid ''valid'' [''certificate_url'' \<mapsto> certURL srv oid, ''cert_serial'' \<mapsto> serial]"
    using run run_store_cert [OF nf, of srv ca oid "''store cert failed: ''" c serial "[]"] unfolding mtc_rest_def c by (auto simp: d'_def)
  obtain y f where y: "r = order_update (db_now d') oid ''valid'' f (cert_row (db_now (aw_db v)) oid c (CACertDER ca) y)"
    using r(1) unfolding w' by (auto simp: updated_db_def d'_def)
  with r(2) have "ao_ID y = oid" by (simp add: cert_row_def split: if_splits)
  with y c show "?issue = Some (Inr (ao_FinalCertDER r))" by (simp add: cert_row_def)
  show "entries (aw_db w') = entries (aw_db v)" "checkpoints (aw_db w') = checkpoints (aw_db v)"
    unfolding w' by (simp_all add: updated_db_def d'_def entries_def)
qed

text \<open>
  C6. A certificate of the log matches the log. When \<open>processFinalizeMTC\<close> runs on a log in good
  state and leaves its order valid, and the clock shows one second throughout, then the
  certificate stored with the order parses as a Merkle tree certificate, the entry it gives back
  is the one at its index in the log, and its proof leads from this entry to the root that a
  checkpoint of the log signs. The subject of the request has a common name and otherwise
  organizations and countries only; the validity of the CA is the default.
\<close>

theorem mtc_certificate_verifies:
  fixes rdn :: "bytes \<Rightarrow> 'r option"
  assumes log: "log_ready (aw_db w)" "int (length (entries (aw_db w))) + 1 < 2 ^ 63"
    and srv: "sv_localCA srv = Some ca" "ac_MTCMode (sv_cfg srv)" "ca_validity ca = ninety_days"
    and csr: "csr_Subject csr = \<lparr>nm_Country = country, nm_Organization = org, nm_OrganizationalUnit = [], nm_Locality = [],
      nm_Province = [], nm_StreetAddress = [], nm_PostalCode = [], nm_SerialNumber = '''', nm_CommonName = cn\<rparr>" "cn \<noteq> ''''"
      "one_tlv (csr_RawSubjectPublicKeyInfo csr)"
    and clock: "truncate_second t1 = t" "truncate_second t2 = t" "truncate_second t3 = t" "time_ok (time_UTC t)" "time_ok (time_UTC (t + ninety_days))"
    and run: "run (acme_machine srv) (processFinalize srv oid csr pem idents) w [ATime t1, ATime t2, ATime t3] = (Some None, w', js, as)"
    and before: "\<forall>r\<in>set (acme_orders (aw_db w)). ao_ID r = oid \<longrightarrow> ao_Status r \<noteq> ''valid''"
    and order: "r \<in> set (acme_orders (aw_db w'))" "ao_ID r = oid" "ao_Status r = ''valid''" "length (ao_FinalCertDER r) < 2 ^ 31"
  shows "\<exists>parsed p i root. ParseMTCCertificate rdn (ao_FinalCertDER r) = Inr parsed \<and> IsMTCCertificate (ao_FinalCertDER r) \<and>
    pc_SerialNumber parsed = int i \<and> i = length (entries (aw_db w)) \<and> i < length (entries (aw_db w')) \<and>
    cert_entry_bytes parsed = Inr (entries (aw_db w') ! i) \<and> pc_Proof parsed = Some p \<and>
    cert_subtree_root (int i) p (entries (aw_db w') ! i) = Some root \<and>
    (\<exists>cp\<in>set (checkpoints (aw_db w')). cp_TreeSize cp = int i + 1 \<and> cp_RootHash cp = hash_bytes root)"
proof -
  let ?dns = "map id_Value idents" and ?id = "ac_MTCBridgeURL (sv_cfg srv)" and ?n = "length (entries (aw_db w))"
  have "acme_run srv (processFinalizeMTC srv ca oid csr idents) w [ATime t1, ATime t2, ATime t3] = (Some None, w', js, as)"
    using run srv(1,2) by (simp add: processFinalize_def)
  moreover have "\<not> no_valid oid (aw_db w')" using order(1-3) unfolding no_valid_def by blast
  ultimately obtain der entry d cp v where l: "BuildLogEntryFromCSR ?id (time_UTC t) (time_UTC (t + ninety_days)) csr ?dns = Some (Inr der)"
    "BuildMTCEntry der (''MTC-'' @ oid) = Inr entry" "mtc_logged w entry d cp" "aw_db v = d"
    "acme_run srv (mtc_rest srv ca oid csr idents (''MTC-'' @ oid) (int ?n) cp (path ?n (rng (leaf_at d) 0 (int ?n + 1))) t3) v [] = (Some None, w', js, as)"
    using run_mtc_logged [OF log clock(1,2) refl] by metis
  let ?p = "mtc_proof cp (path ?n (rng (leaf_at d) 0 (int ?n + 1)))" and ?root = "mth (rng (leaf_at d) 0 (int ?n + 1))"
  note rest = run_mtc_rest [OF l(5) l(3) [folded l(4)] before order(1-3)]
  have d: "entries (aw_db w') = entries (aw_db w) @ [le_EntryData entry]" "cp \<in> set (checkpoints (aw_db w'))" "cp_TreeSize cp = int ?n + 1"
      "leaf_at d (int ?n) = LeafHash (le_EntryData entry)" "cp_RootHash cp = hash_bytes ?root"
    using l(3) rest(2,3) l(4) by (simp_all add: mtc_logged_def Let_def)
  have "case name_tlv (csr_Subject csr) of Inl _ \<Rightarrow> False | Inr _ \<Rightarrow> True"
    using l(1) BuildTrustAnchorDN_total [of ?id] by (auto simp: BuildLogEntryFromCSR_def split: sum.splits)
  then have issue: "BuildMTCCertFromCSR csr ?id (time_UTC t) (time_UTC (t + ninety_days)) ?dns (int ?n) (Some ?p) = Some (Inr (ao_FinalCertDER r))"
    using rest(1) IssueMTCCert_eq [OF csr(1,2)] by (simp add: clock(3) srv(3))
  obtain parsed where parsed: "ParseMTCCertificate rdn (ao_FinalCertDER r) = Inr parsed" "IsMTCCertificate (ao_FinalCertDER r)"
      "pc_SerialNumber parsed = int ?n" "pc_Proof parsed = Some ?p" "cert_entry_bytes parsed = Inr (le_EntryData entry)"
      "cert_subtree_root (int ?n) ?p (le_EntryData entry) = Some ?root"
    using certificate_matches_log [where s = 0 and e = "int ?n + 1" and h = "leaf_at d" and sb = "[]" and rdn = rdn, OF l(1,2) issue] csr(3) clock(4,5) log(2) d(3,4) order(4)
    by (auto simp: mtc_proof_def marshalSignatures_def)
  have n: "entries (aw_db w') ! ?n = le_EntryData entry" "?n < length (entries (aw_db w'))" by (simp_all add: d(1) nth_append)
  have "\<exists>cp\<in>set (checkpoints (aw_db w')). cp_TreeSize cp = int ?n + 1 \<and> cp_RootHash cp = hash_bytes ?root"
    by (rule bexI [OF _ d(2)]) (intro conjI d(3) d(5))
  then show ?thesis
    by (intro exI [of _ parsed] exI [of _ ?p] exI [of _ ?n] exI [of _ ?root]) (simp add: parsed n)
qed

definition demo_mtc_csr :: CertificateRequest where
  "demo_mtc_csr = demo_csr\<lparr>csr_Subject := demo_name\<lparr>nm_CommonName := ''evil.example''\<rparr>, csr_DNSNames := [''a'']\<rparr>"

definition demo_mtc_server :: acme_Server where
  "demo_mtc_server = \<lparr>sv_cfg = \<lparr>ac_ExternalURL = ''https://ca.example'', ac_CAProxyURL = '''', ac_CAAPIKey = '''', ac_CAID = '''',
     ac_TemplateID = '''', ac_MTCBridgeURL = ''1'', ac_OrderExpiry = 0, ac_AssertionTimeout = 0, ac_AssertionPollInterval = 0,
     ac_AutoApproveChallenge = False, ac_MTCMode = True\<rparr>,
     sv_localCA = Some demo_ca, sv_crypto = toy_crypto, sv_cosigner = toy_cosigner,
     sv_lib = \<lparr>al_ecdsa_Verify = (\<lambda>c x y h r s. True), al_rsa_VerifyPKCS1v15 = (\<lambda>n e h s. None), al_ParseCertificateRequest = (\<lambda>der. Inr demo_mtc_csr),
       al_pem_EncodeToMemory = snd, al_SplitHostPort = (\<lambda>h. Inl ErrDB), al_ParseIP = (\<lambda>s. None), al_x509 = toy_x509\<rparr>\<rparr>"

definition demo_clock :: int where "demo_clock = 1772323200000000000"

definition demo_mtc_world :: acme_world where
  "demo_mtc_world = acme_start (demo_log\<lparr>acme_orders := [(new_order ''o'' ''a1'' [\<lparr>id_Type = ''dns'', id_Value = ''a''\<rparr>] 0)\<lparr>ao_Status := ''processing''\<rparr>]\<rparr>)"

lemma demo_mtc_parts:
  obtains i xs e v a subj where "BuildTrustAnchorDN ''1'' = Some (Inr i)" "length (asn1_Marshal_RawValue i) < 1000"
    "standard_extensions [''a''] = Inr xs" "extensions_field (Some xs) = Inr e" "length e < 1000"
    "validity_tlv (time_UTC demo_clock) (time_UTC (demo_clock + ninety_days)) = Inr v" "length v < 1000"
    "extractSPKIAlgorithm [0x30, 2, 0x30, 0] = Inr a" "length (asn1_Marshal_RawValue a) < 1000"
    "name_tlv (csr_Subject demo_mtc_csr) = Inr subj" "length subj < 1000" "subj \<noteq> []"
proof -
  have "case validity_tlv (time_UTC demo_clock) (time_UTC (demo_clock + ninety_days)) of Inr v \<Rightarrow> length v < 1000 | _ \<Rightarrow> False" by code_simp
  then obtain v where v: "validity_tlv (time_UTC demo_clock) (time_UTC (demo_clock + ninety_days)) = Inr v" "length v < 1000"
    by (auto split: sum.splits)
  have "case name_tlv (csr_Subject demo_mtc_csr) of Inr s \<Rightarrow> length s < 1000 \<and> s \<noteq> [] | _ \<Rightarrow> False" by code_simp
  then obtain s where s: "name_tlv (csr_Subject demo_mtc_csr) = Inr s" "length s < 1000" "s \<noteq> []"
    by (auto split: sum.splits)
  show ?thesis
  proof (rule demo_parts)
    fix i xs e w a
    assume "BuildTrustAnchorDN ''1'' = Some (Inr i)" "length (asn1_Marshal_RawValue i) < 1000"
      "standard_extensions [''a''] = Inr xs" "extensions_field (Some xs) = Inr e" "length e < 1000"
      "extractSPKIAlgorithm [0x30, 2, 0x30, 0] = Inr a" "length (asn1_Marshal_RawValue a) < 1000"
    then show ?thesis by (rule_tac that [OF _ _ _ _ _ v _ _ s])
  qed
qed

lemma demo_mtc_ready:
  "log_ready (aw_db demo_mtc_world)" "entries (aw_db demo_mtc_world) = [NullEntryBytes, [7]]"
  "acme_orders (aw_db demo_mtc_world) = [(new_order ''o'' ''a1'' [\<lparr>id_Type = ''dns'', id_Value = ''a''\<rparr>] 0)\<lparr>ao_Status := ''processing''\<rparr>]"
  using reachable_ready [OF demo_log_run(1)] demo_log_run(2)
  by (simp_all add: demo_mtc_world_def acme_start_def log_ready_def no_faults_def entries_def log_inv_def leaves_def)

lemma demo_mtc_built:
  "\<exists>der entry. BuildLogEntryFromCSR ''1'' (time_UTC demo_clock) (time_UTC (demo_clock + ninety_days)) demo_mtc_csr [''a''] = Some (Inr der) \<and>
     BuildMTCEntry der ser = Inr entry"
  "0 \<le> idx \<Longrightarrow> idx < 2 ^ 63 \<Longrightarrow> MarshalProof p = Inr pb \<Longrightarrow> length pb < 1000 \<Longrightarrow>
     \<exists>c. BuildMTCCertFromCSR demo_mtc_csr ''1'' (time_UTC demo_clock) (time_UTC (demo_clock + ninety_days)) [''a''] idx (Some p) = Some (Inr c) \<and> length c < 2 ^ 31"
proof (rule_tac [!] demo_mtc_parts)
  fix i xs e v a subj
  assume i: "BuildTrustAnchorDN ''1'' = Some (Inr i)" "length (asn1_Marshal_RawValue i) < 1000"
    and xs: "standard_extensions [''a''] = Inr xs" "extensions_field (Some xs) = Inr e" "length e < 1000"
    and v: "validity_tlv (time_UTC demo_clock) (time_UTC (demo_clock + ninety_days)) = Inr v" "length v < 1000"
    and a: "extractSPKIAlgorithm [0x30, 2, 0x30, 0] = Inr a" "length (asn1_Marshal_RawValue a) < 1000"
    and s: "name_tlv (csr_Subject demo_mtc_csr) = Inr subj" "length subj < 1000" "subj \<noteq> []"
  have m: "asn1_Marshal_RawValue (FullBytes_only subj) = subj" using s(3) by (simp add: asn1_Marshal_RawValue_def FullBytes_only_def)
  have k: "csr_RawSubjectPublicKeyInfo demo_mtc_csr = [0x30, 2, 0x30, 0]" by (simp add: demo_mtc_csr_def demo_csr_def)
  show "\<exists>der entry. BuildLogEntryFromCSR ''1'' (time_UTC demo_clock) (time_UTC (demo_clock + ninety_days)) demo_mtc_csr [''a''] = Some (Inr der) \<and>
      BuildMTCEntry der ser = Inr entry"
    using BuildLogEntry_logged [OF v(1) xs(2) a(1), of i "FullBytes_only subj" ser] i v xs a s m
    by (simp add: BuildLogEntryFromCSR_def k)
  assume p: "0 \<le> idx" "idx < 2 ^ 63" "MarshalProof p = Inr pb" "length pb < 1000"
  let ?f = "\<lparr>tf_Issuer = i, tf_NotBefore = time_UTC demo_clock, tf_NotAfter = time_UTC (demo_clock + ninety_days), tf_Subject = FullBytes_only subj,
     tf_SubjectPubKeyInfo = [0x30, 2, 0x30, 0], tf_Extensions = Some xs\<rparr>"
  show "\<exists>c. BuildMTCCertFromCSR demo_mtc_csr ''1'' (time_UTC demo_clock) (time_UTC (demo_clock + ninety_days)) [''a''] idx (Some p) = Some (Inr c) \<and> length c < 2 ^ 31"
    using BuildMTCCertificate_ok [of ?f v e p pb idx] i v xs p s m demo_ok(4)
    by (simp add: BuildMTCCertFromCSR_def k BuildCertExtensions_eq)
qed

lemma demo_mtc_subject:
  "csr_Subject demo_mtc_csr = \<lparr>nm_Country = [], nm_Organization = [], nm_OrganizationalUnit = [], nm_Locality = [],
     nm_Province = [], nm_StreetAddress = [], nm_PostalCode = [], nm_SerialNumber = '''', nm_CommonName = ''evil.example''\<rparr>"
  by (simp add: demo_mtc_csr_def demo_name_def)

lemma demo_mtc_validity: "ca_validity demo_ca = ninety_days"
  by (simp add: demo_ca_def defaultValidity_def ninety_days_def second_def)

lemma demo_mtc_clock:
  "truncate_second demo_clock = demo_clock" "truncate_second (demo_clock + 5) = demo_clock" "truncate_second (demo_clock + 9) = demo_clock"
  "time_ok (time_UTC demo_clock)" "time_ok (time_UTC (demo_clock + ninety_days))"
  by (simp_all add: truncate_second_def demo_clock_def) code_simp+

text \<open>A run of the goroutine that leaves its order valid.\<close>

lemma demo_mtc_run:
  assumes "log_ready (aw_db w)" "length (entries (aw_db w)) = 2" "acme_orders (aw_db w) = [o1]" "ao_ID o1 = ''o''"
  shows "\<exists>w' r. run (acme_machine demo_mtc_server) (processFinalize demo_mtc_server ''o'' demo_mtc_csr [] [\<lparr>id_Type = ''dns'', id_Value = ''a''\<rparr>])
       w [ATime demo_clock, ATime (demo_clock + 5), ATime (demo_clock + 9)] = (Some None, w', [], []) \<and>
     acme_orders (aw_db w') = [r] \<and> ao_ID r = ''o'' \<and> ao_Status r = ''valid'' \<and> length (ao_FinalCertDER r) < 2 ^ 31"
proof -
  obtain serial where serial: "''MTC-o'' = serial" by blast
  let ?srv = demo_mtc_server and ?nb = "time_UTC demo_clock" and ?na = "time_UTC (demo_clock + ninety_days)"
  obtain der entry where der: "BuildLogEntryFromCSR ''1'' ?nb ?na demo_mtc_csr [''a''] = Some (Inr der)" "BuildMTCEntry der serial = Inr entry"
    using demo_mtc_built(1) by blast
  define w2 where "w2 = hear QNow (ATime (demo_clock + 5)) (hear QNow (ATime demo_clock) w)"
  have w2: "aw_db w2 = aw_db w" by (simp add: w2_def)
  define k where "k = (\<lambda>leafIdx cp proofHashes. ask_now (\<lambda>t3.
      case IssueMTCCert demo_ca t3 demo_mtc_csr [''a''] 0 leafIdx (Some (mtc_proof cp proofHashes)) ''1'' of
        None \<Rightarrow> Finish None
      | Some (Inl err) \<Rightarrow> fail_order ''o'' ''MTC cert build failed: '' err
      | Some (Inr finalCertDER) \<Rightarrow> store_cert ?srv demo_ca ''o'' ''store cert failed: '' finalCertDER serial))"
  have cfg: "sv_localCA ?srv = Some demo_ca" "ac_MTCMode (sv_cfg ?srv)" "ac_MTCBridgeURL (sv_cfg ?srv) = ''1''"
    "sv_crypto ?srv = toy_crypto" "sv_cosigner ?srv = toy_cosigner" by (simp_all add: demo_mtc_server_def)
  have start: "acme_run ?srv (processFinalize ?srv ''o'' demo_mtc_csr [] [\<lparr>id_Type = ''dns'', id_Value = ''a''\<rparr>]) w
       [ATime demo_clock, ATime (demo_clock + 5), ATime (demo_clock + 9)] =
     acme_run ?srv (log_and_prove ?srv ''o'' entry k) w2 [ATime (demo_clock + 9)]"
    using der by (simp add: processFinalize_def processFinalizeMTC_def cfg runs demo_mtc_clock serial w2_def k_def Let_def)
  have ready: "log_ready (aw_db w2)" "length (entries (aw_db w2)) = 2" by (simp_all add: w2 assms(1,2))
  have signs: "\<not> (\<exists>n h e. SignCheckpoint (sv_crypto ?srv) (sv_cosigner ?srv) n h = Inl e)"
    using toy_signs by (metis cfg(4,5) sum.distinct(1))
  obtain d cp where d: "acme_run ?srv (log_and_prove ?srv ''o'' entry k) w2 [ATime (demo_clock + 9)] =
        acme_run ?srv (k 2 cp (path 2 (rng (leaf_at d) 0 3))) (w2\<lparr>aw_db := d\<rparr>) [ATime (demo_clock + 9)]"
      "no_faults d" "acme_orders d = acme_orders (aw_db w2)" "cp_TreeSize cp = 3"
    using run_log_and_prove [of w2 ?srv "''o''" entry k "[ATime (demo_clock + 9)]"] ready signs by auto
  let ?p = "mtc_proof cp (path 2 (rng (leaf_at d) 0 3))"
  have depth: "depth 2 3 = 1" by code_simp
  have hashes: "length (concat (map hash_bytes hs)) = length hs * 32" for hs by (induction hs) simp_all
  have "marshalSignatures [] = Inr []" by (simp add: marshalSignatures_def)
  then obtain pb where pb: "MarshalProof ?p = Inr pb" "length pb < 1000"
    using d(4) depth hashes by (auto simp: MarshalProof_def mtc_proof_def HashSize_def Let_def)
  obtain c where c: "BuildMTCCertFromCSR demo_mtc_csr ''1'' ?nb ?na [''a''] 2 (Some ?p) = Some (Inr c)" "length c < 2 ^ 31"
    using demo_mtc_built(2) [OF _ _ pb, of 2] by auto
  have "case name_tlv (csr_Subject demo_mtc_csr) of Inl _ \<Rightarrow> False | Inr _ \<Rightarrow> True"
    by (rule demo_mtc_parts) simp
  then have issue: "IssueMTCCert demo_ca (demo_clock + 9) demo_mtc_csr [''a''] 0 2 (Some ?p) ''1'' = Some (Inr c)"
    using c IssueMTCCert_eq [OF demo_mtc_subject, of demo_ca "demo_clock + 9" "[''a'']" 2 "Some ?p" "''1''"]
    by (simp add: demo_mtc_clock demo_mtc_validity)
  define v where "v = hear QNow (ATime (demo_clock + 9)) (w2\<lparr>aw_db := d\<rparr>)"
  have v: "aw_db v = d" by (simp add: v_def)
  have "acme_run ?srv (k 2 cp (path 2 (rng (leaf_at d) 0 3))) (w2\<lparr>aw_db := d\<rparr>) [ATime (demo_clock + 9)] =
      acme_run ?srv (store_cert ?srv demo_ca ''o'' ''store cert failed: '' c serial) v []"
    by (simp add: k_def runs issue v_def)
  also have "\<dots> = (Some None, v\<lparr>aw_db := updated_db (d\<lparr>acme_orders := map (cert_row (db_now d) ''o'' c (CACertDER demo_ca)) (acme_orders d)\<rparr>)
      ''o'' ''valid'' [''certificate_url'' \<mapsto> certURL ?srv ''o'', ''cert_serial'' \<mapsto> serial]\<rparr>, [], [])"
    using run_store_cert [of v ?srv demo_ca "''o''" "''store cert failed: ''" c serial "[]"] d(2) unfolding v by simp
  finally have run: "acme_run ?srv (processFinalize ?srv ''o'' demo_mtc_csr [] [\<lparr>id_Type = ''dns'', id_Value = ''a''\<rparr>]) w
       [ATime demo_clock, ATime (demo_clock + 5), ATime (demo_clock + 9)] = \<dots>"
    unfolding start d(1) .
  have o1: "acme_orders d = [o1]" "ao_ID o1 = ''o''" unfolding d(3) w2 by (fact assms(3,4))+
  show ?thesis unfolding run
    by (rule exI, rule exI, rule conjI, rule refl) (use c(2) in \<open>simp add: updated_db_def o1 cert_row_def del: ex_simps\<close>, intro exI conjI, rule refl, simp_all add: o1)
qed

theorem mtc_certificate_verifies_witness:
  "\<exists>w' r parsed. run (acme_machine demo_mtc_server) (processFinalize demo_mtc_server ''o'' demo_mtc_csr [] [\<lparr>id_Type = ''dns'', id_Value = ''a''\<rparr>])
       demo_mtc_world [ATime demo_clock, ATime (demo_clock + 5), ATime (demo_clock + 9)] = (Some None, w', [], []) \<and>
     r \<in> set (acme_orders (aw_db w')) \<and> ao_Status r = ''valid'' \<and>
     ParseMTCCertificate (\<lambda>d. Some d) (ao_FinalCertDER r) = Inr parsed \<and> cert_entry_bytes parsed = Inr (entries (aw_db w') ! 2)"
proof -
  obtain w' r where run: "run (acme_machine demo_mtc_server) (processFinalize demo_mtc_server ''o'' demo_mtc_csr [] [\<lparr>id_Type = ''dns'', id_Value = ''a''\<rparr>])
       demo_mtc_world [ATime demo_clock, ATime (demo_clock + 5), ATime (demo_clock + 9)] = (Some None, w', [], [])"
     and r: "acme_orders (aw_db w') = [r]" "ao_ID r = ''o''" "ao_Status r = ''valid''" "length (ao_FinalCertDER r) < 2 ^ 31"
    using demo_mtc_run [OF demo_mtc_ready(1) _ demo_mtc_ready(3)] by (auto simp: demo_mtc_ready(2) new_order_def)
  have "\<exists>parsed p i root. ParseMTCCertificate (\<lambda>d. Some d) (ao_FinalCertDER r) = Inr parsed \<and> IsMTCCertificate (ao_FinalCertDER r) \<and>
    pc_SerialNumber parsed = int i \<and> i = length (entries (aw_db demo_mtc_world)) \<and> i < length (entries (aw_db w')) \<and>
    cert_entry_bytes parsed = Inr (entries (aw_db w') ! i) \<and> pc_Proof parsed = Some p \<and>
    cert_subtree_root (int i) p (entries (aw_db w') ! i) = Some root \<and>
    (\<exists>cp\<in>set (checkpoints (aw_db w')). cp_TreeSize cp = int i + 1 \<and> cp_RootHash cp = hash_bytes root)"
  proof (rule mtc_certificate_verifies [where ca = demo_ca and t = demo_clock, OF _ _ _ _ _ _ _ _ _ _ _ _ _ run _ _ r(2-4)])
    show "csr_Subject demo_mtc_csr = \<lparr>nm_Country = [], nm_Organization = [], nm_OrganizationalUnit = [], nm_Locality = [],
      nm_Province = [], nm_StreetAddress = [], nm_PostalCode = [], nm_SerialNumber = '''', nm_CommonName = ''evil.example''\<rparr>"
      by (rule demo_mtc_subject)
    show "one_tlv (csr_RawSubjectPublicKeyInfo demo_mtc_csr)" using demo_ok(4) by (simp add: demo_mtc_csr_def demo_csr_def)
  qed (use r(1) in \<open>simp_all add: demo_mtc_ready demo_mtc_clock demo_mtc_server_def demo_mtc_validity new_order_def\<close>)
  then obtain parsed i where "ParseMTCCertificate (\<lambda>d. Some d) (ao_FinalCertDER r) = Inr parsed"
      "i = length (entries (aw_db demo_mtc_world))" "cert_entry_bytes parsed = Inr (entries (aw_db w') ! i)" by blast
  moreover have "length (entries (aw_db demo_mtc_world)) = 2" "r \<in> set (acme_orders (aw_db w'))"
    by (simp_all add: demo_mtc_ready(2) r(1))
  ultimately show ?thesis using run r(3) by (intro exI [of _ w'] exI [of _ r] exI [of _ parsed] conjI) simp_all
qed


end
