(* ===== verification/AcmeNames.thy ===== *)
theory AcmeNames
  imports AcmeSession AcmeIssue
begin

text \<open>
  The names in the certificates of the ACME server: from the request that finalizes an order to the
  certificate that is stored with it.
\<close>

section \<open>The subject of a certificate of the log\<close>

lemma IssueMTCCert_subject:
  fixes rdn :: "bytes \<Rightarrow> 'r option"
  assumes issue: "IssueMTCCert ca clock csr dns 0 idx (Some p) logID = Some (Inr c)" "length c < 2 ^ 31"
    and csr: "one_tlv (csr_RawSubjectPublicKeyInfo csr)"
    and times: "time_ok (time_UTC (truncate_second clock))" "time_ok (time_UTC (truncate_second clock + ca_validity ca))"
    and idx: "0 \<le> idx" "idx < 2 ^ 63" and sigs: "marshalSignatures (mp_Signatures p) = Inr sb" "length sb \<le> 0xFFFF"
  shows "\<exists>parsed subj. ParseMTCCertificate rdn c = Inr parsed \<and> name_tlv (mtc_subject csr dns) = Inr subj \<and> pc_Subject parsed = rdn subj"
proof -
  obtain iss where iss: "BuildTrustAnchorDN logID = Some (Inr iss)" using BuildTrustAnchorDN_total by blast
  obtain xs where xs: "standard_extensions dns = Inr xs" "list_all ext_ok xs"
    using standard_extensions_total [of dns] by (auto simp: list_all_iff)
  obtain subj where subj: "name_tlv (mtc_subject csr dns) = Inr subj"
    using issue(1) iss by (cases "name_tlv (mtc_subject csr dns)") (auto simp: IssueMTCCert_def Let_def)
  obtain sc where sc: "subj = seq sc" using name_tlv_seq [OF subj] ..
  let ?f = "\<lparr>tf_Issuer = iss, tf_NotBefore = time_UTC (truncate_second clock), tf_NotAfter = time_UTC (truncate_second clock + ca_validity ca),
    tf_Subject = FullBytes_only subj, tf_SubjectPubKeyInfo = csr_RawSubjectPublicKeyInfo csr, tf_Extensions = Some xs\<rparr>"
  have c: "BuildMTCCertificate ?f idx (Some p) = Inr c"
    using issue(1) iss xs(1) subj by (simp add: IssueMTCCert_def BuildCertExtensions_eq Let_def)
  have s: "asn1_Marshal_RawValue (FullBytes_only subj) = subj" by (simp add: sc)
  have "length subj < 2 ^ 31" using BuildMTCCertificate_length(2) [OF c] issue(2) s by simp
  then have one: "one_tlv subj" using length_tlv [of sc 0 16 True] unfolding sc by (intro one_tlv_tlv) simp_all
  have "one_tlv (asn1_Marshal_RawValue iss)"
    using BuildTrustAnchorDN_one_tlv [OF iss] BuildMTCCertificate_length(1) [OF c] issue(2) by simp
  then have "cert_fields_ok ?f" using csr times one xs(2) s by (simp add: cert_fields_ok_def)
  from parse_built [OF c issue(2) this idx sigs, where rdn = rdn] subj s show ?thesis by auto
qed

text \<open>A request that covers the names of the order by its DNS names passes, whatever its common name is.\<close>

lemma covered_idents:
  assumes "\<forall>i\<in>set idents. ToLower (id_Value i) \<in> ToLower ` set (csr_DNSNames csr)"
  shows "missing_ident csr idents = None"
  using assms by (auto simp: missing_ident_def csr_names_def find_None_iff)

lemma log_ready_updated: "log_ready (updated_db d i status updates) = log_ready d" "entries (updated_db d i status updates) = entries d"
  by (simp_all add: updated_db_def log_ready_def no_faults_def log_inv_def leaves_def entries_def)

text \<open>What every run of the goroutine stores that leaves the order valid.\<close>

lemma stored_subject:
  fixes rdn :: "bytes \<Rightarrow> 'r option"
  assumes log: "log_ready (aw_db w)" "int (length (entries (aw_db w))) + 1 < 2 ^ 63" and before: "no_valid oid (aw_db w)"
    and srv: "sv_localCA srv = Some ca" "ac_MTCMode (sv_cfg srv)" and csr: "one_tlv (csr_RawSubjectPublicKeyInfo csr)"
    and run: "run (acme_machine srv) (processFinalize srv oid csr pem idents) w [ATime t1, ATime t2, ATime t3] = (Some None, w', js, as)"
    and times: "time_ok (time_UTC (truncate_second t3))" "time_ok (time_UTC (truncate_second t3 + ca_validity ca))"
    and order: "row \<in> set (acme_orders (aw_db w'))" "ao_ID row = oid" "ao_Status row = ''valid''" "length (ao_FinalCertDER row) < 2 ^ 31"
  shows "\<exists>parsed subj. ParseMTCCertificate rdn (ao_FinalCertDER row) = Inr parsed \<and>
    name_tlv (mtc_subject csr (map id_Value idents)) = Inr subj \<and> pc_Subject parsed = rdn subj"
proof -
  let ?n = "length (entries (aw_db w))"
  have "acme_run srv (processFinalizeMTC srv ca oid csr idents) w [ATime t1, ATime t2, ATime t3] = (Some None, w', js, as)"
    using run srv by (simp add: processFinalize_def)
  moreover have "\<not> no_valid oid (aw_db w')" using order(1-3) unfolding no_valid_def by blast
  ultimately obtain entry d cp v where l: "mtc_logged w entry d cp" "aw_db v = d"
    "acme_run srv (mtc_rest srv ca oid csr idents (''MTC-'' @ oid) (int ?n) cp (path ?n (rng (leaf_at d) 0 (int ?n + 1))) t3) v [] = (Some None, w', js, as)"
    using run_mtc_logged [OF log refl refl refl] by metis
  have b: "\<forall>r\<in>set (acme_orders (aw_db w)). ao_ID r = oid \<longrightarrow> ao_Status r \<noteq> ''valid''" using before by (simp add: no_valid_def)
  note issue = run_mtc_rest(1) [OF l(3) l(1) [folded l(2)] b order(1-3)]
  show ?thesis
    by (rule IssueMTCCert_subject [OF issue order(4) csr times, where sb = "[]"]) (use log(2) in \<open>simp_all add: mtc_proof_def marshalSignatures_def\<close>)
qed

text \<open>
  C40. The names of a certificate request are not checked against the order: the server accepts a
  request to finalize whose DNS names cover the identifiers of the order, whatever its common
  name is, and starts issuing; and in MTC mode every run of the issuing goroutine that leaves the order valid
  stores a certificate whose subject has this common name, one that no challenge was ever made for.
\<close>

theorem foreign_common_name:
  fixes rdn :: "bytes \<Rightarrow> 'r option"
  assumes request: "good_request srv w (nonce_of s) (''/acme/order/'' @ i @ ''/finalize'') kid (Some (finalize_payload csrDER)) sig acct"
      "CHR ''/'' \<notin> set i" "i \<noteq> ''''"
    and log: "log_ready (aw_db w)" "int (length (entries (aw_db w))) + 1 < 2 ^ 63"
    and order: "filter (\<lambda>r. ao_ID r = i) (acme_orders (aw_db w)) = order # rest" "ao_AccountID order = aa_ID acct" "ao_Status order = ''ready''"
    and csr: "al_ParseCertificateRequest (sv_lib srv) csrDER = Inr csr" "one_tlv (csr_RawSubjectPublicKeyInfo csr)"
      "\<forall>d\<in>set (order_idents order). ToLower (id_Value d) \<in> ToLower ` set (csr_DNSNames csr)"
      "nm_CommonName (csr_Subject csr) = cn" "cn \<noteq> ''''"
    and srv: "sv_localCA srv = Some ca" "ac_MTCMode (sv_cfg srv)"
  shows "\<exists>resp w1 pem. run (acme_machine srv)
        (acme_ServeHTTP srv (signed_request srv (nonce_of s) (''/acme/order/'' @ i @ ''/finalize'') kid (Some (finalize_payload csrDER)) sig))
        w [ANonce s, ATime t, ATime t] = (Some resp, w1, [JFinalize i csr pem (order_idents order)], []) \<and>
    (\<forall>t1 t2 t3 w' js as row.
       run (acme_machine srv) (goroutine_of srv (JFinalize i csr pem (order_idents order))) w1 [ATime t1, ATime t2, ATime t3] = (Some None, w', js, as) \<and>
       time_ok (time_UTC (truncate_second t3)) \<and> time_ok (time_UTC (truncate_second t3 + ca_validity ca)) \<and>
       row \<in> set (acme_orders (aw_db w')) \<and> ao_ID row = i \<and> ao_Status row = ''valid'' \<and> length (ao_FinalCertDER row) < 2 ^ 31 \<longrightarrow>
       (\<exists>parsed subject subj. ParseMTCCertificate rdn (ao_FinalCertDER row) = Inr parsed \<and>
          pc_Subject parsed = rdn subj \<and> name_tlv subject = Inr subj \<and> nm_CommonName subject = cn))"
proof -
  have sched: "db_sched (aw_db w) = []" using log(1) by (simp add: log_ready_def no_faults_def)
  let ?pem = "al_pem_EncodeToMemory (sv_lib srv) (''CERTIFICATE REQUEST'', csrDER)"
  obtain resp w1 where w1: "run (acme_machine srv)
        (acme_ServeHTTP srv (signed_request srv (nonce_of s) (''/acme/order/'' @ i @ ''/finalize'') kid (Some (finalize_payload csrDER)) sig))
        w [ANonce s, ATime t, ATime t] = (Some resp, w1, [JFinalize i csr ?pem (order_idents order)], [])"
      "aw_db w1 = updated_db (aw_db w) i ''processing'' (column ''csr'' (bytes_str ?pem))"
    using run_finalize_request [OF request(1) sched request(2,3) order csr(1) covered_idents [OF csr(3)], of t] by blast
  have ready: "log_ready (aw_db w1)" "int (length (entries (aw_db w1))) + 1 < 2 ^ 63" "no_valid i (aw_db w1)"
    using log unfolding w1(2) by (simp_all add: log_ready_updated no_valid_updated)
  have "nm_CommonName (mtc_subject csr (map id_Value (order_idents order))) = cn"
    using csr(4,5) by (simp add: mtc_subject_def commonNameFromCSR_def)
  then show ?thesis
    using w1(1) stored_subject [OF ready srv csr(2), where rdn = rdn and pem = ?pem and idents = "order_idents order"]
    by (intro exI [of _ resp] exI [of _ w1] exI [of _ ?pem] conjI allI impI) (auto simp: goroutine_of_def, metis)
qed

section \<open>A session\<close>

definition demo_order_a :: ACMEOrder where
  "demo_order_a = (new_order ''o'' ''a1'' [\<lparr>id_Type = ''dns'', id_Value = ''a''\<rparr>] 0)\<lparr>ao_Status := ''ready''\<rparr>"

definition demo_names_world :: acme_world where
  "demo_names_world = acme_start (demo_log\<lparr>acme_accounts := [demo_account], acme_orders := [demo_order_a]\<rparr>)"

lemma demo_names_ready:
  "log_ready (aw_db demo_names_world)" "entries (aw_db demo_names_world) = [NullEntryBytes, [7]]"
  "acme_orders (aw_db demo_names_world) = [demo_order_a]" "acme_accounts (aw_db demo_names_world) = [demo_account]"
  using reachable_ready [OF demo_log_run(1)] demo_log_run(2)
  by (simp_all add: demo_names_world_def acme_start_def log_ready_def no_faults_def entries_def log_inv_def leaves_def)

lemma demo_names_request:
  "good_request demo_mtc_server demo_names_world (nonce_of ''0'') (''/acme/order/'' @ ''o'' @ ''/finalize'') demo_kid (Some (finalize_payload []))
     (replicate 64 0) demo_account"
  "order_idents demo_order_a = [\<lparr>id_Type = ''dns'', id_Value = ''a''\<rparr>]"
proof -
  have "length (payload_bytes (Some (finalize_payload []))) \<le> 1000"
    by (simp add: payload_bytes_def finalize_payload_def member_text_def json_quote_def json_char_def base64url_EncodeToString_def)
  then show "good_request demo_mtc_server demo_names_world (nonce_of ''0'') (''/acme/order/'' @ ''o'' @ ''/finalize'') demo_kid (Some (finalize_payload []))
     (replicate 64 0) demo_account"
    using finalize_payload_decoded(1)
    by (intro demo_good_for) (simp_all add: demo_mtc_server_def demo_names_ready ascii_def)
  show "order_idents demo_order_a = [\<lparr>id_Type = ''dns'', id_Value = ''a''\<rparr>]"
    by (simp add: demo_order_a_def new_order_def order_idents_def dec_slice_def dec_ident_def ident_doc_def string_field_def dec_struct_def
        dec_string_def ToLower_def to_lower_def)
qed

theorem foreign_common_name_witness:
  "\<exists>resp w1 w' row parsed subject subj.
     run (acme_machine demo_mtc_server) (acme_ServeHTTP demo_mtc_server (signed_request demo_mtc_server (nonce_of ''0'')
         ''/acme/order/o/finalize'' demo_kid (Some (finalize_payload [])) (replicate 64 0)))
       demo_names_world [ANonce ''0'', ATime 0, ATime 0] = (Some resp, w1, [JFinalize ''o'' demo_mtc_csr [] [\<lparr>id_Type = ''dns'', id_Value = ''a''\<rparr>]], []) \<and>
     run (acme_machine demo_mtc_server) (processFinalize demo_mtc_server ''o'' demo_mtc_csr [] [\<lparr>id_Type = ''dns'', id_Value = ''a''\<rparr>])
       w1 [ATime demo_clock, ATime (demo_clock + 5), ATime (demo_clock + 9)] = (Some None, w', [], []) \<and>
     row \<in> set (acme_orders (aw_db w')) \<and> ao_Status row = ''valid'' \<and>
     ParseMTCCertificate (\<lambda>d. Some d) (ao_FinalCertDER row) = Inr parsed \<and> pc_Subject parsed = Some subj \<and>
     name_tlv subject = Inr subj \<and> nm_CommonName subject = ''evil.example''"
proof -
  let ?idents = "[\<lparr>id_Type = ''dns'', id_Value = ''a''\<rparr>]"
  have srv: "sv_localCA demo_mtc_server = Some demo_ca" "ac_MTCMode (sv_cfg demo_mtc_server)"
      "al_ParseCertificateRequest (sv_lib demo_mtc_server) [] = Inr demo_mtc_csr"
    by (simp_all add: demo_mtc_server_def)
  have order: "filter (\<lambda>r. ao_ID r = ''o'') (acme_orders (aw_db demo_names_world)) = [demo_order_a]" "ao_AccountID demo_order_a = aa_ID demo_account"
      "ao_Status demo_order_a = ''ready''"
    by (simp_all add: demo_names_ready demo_order_a_def new_order_def)
  have csr: "one_tlv (csr_RawSubjectPublicKeyInfo demo_mtc_csr)"
      "\<forall>d\<in>set (order_idents demo_order_a). ToLower (id_Value d) \<in> ToLower ` set (csr_DNSNames demo_mtc_csr)"
      "nm_CommonName (csr_Subject demo_mtc_csr) = ''evil.example''"
    using demo_ok(4) by (simp_all add: demo_mtc_csr_def demo_csr_def demo_names_request)
  have times: "time_ok (time_UTC (truncate_second (demo_clock + 9)))" "time_ok (time_UTC (truncate_second (demo_clock + 9) + ca_validity demo_ca))"
    by (simp_all only: demo_mtc_clock demo_mtc_validity)
  have o: "CHR ''/'' \<notin> set ''o''" "''o'' \<noteq> ''''" "int (length (entries (aw_db demo_names_world))) + 1 < 2 ^ 63" "''evil.example'' \<noteq> ''''"
    by (simp_all add: demo_names_ready(2))
  obtain resp w1 pem where w1: "run (acme_machine demo_mtc_server) (acme_ServeHTTP demo_mtc_server (signed_request demo_mtc_server (nonce_of ''0'')
         (''/acme/order/'' @ ''o'' @ ''/finalize'') demo_kid (Some (finalize_payload [])) (replicate 64 0)))
       demo_names_world [ANonce ''0'', ATime 0, ATime 0] = (Some resp, w1, [JFinalize ''o'' demo_mtc_csr pem ?idents], [])"
    and stored: "\<And>w' js as row. run (acme_machine demo_mtc_server) (goroutine_of demo_mtc_server (JFinalize ''o'' demo_mtc_csr pem ?idents)) w1
         [ATime demo_clock, ATime (demo_clock + 5), ATime (demo_clock + 9)] = (Some None, w', js, as) \<Longrightarrow>
       row \<in> set (acme_orders (aw_db w')) \<Longrightarrow> ao_ID row = ''o'' \<Longrightarrow> ao_Status row = ''valid'' \<Longrightarrow> length (ao_FinalCertDER row) < 2 ^ 31 \<Longrightarrow>
       \<exists>parsed subject subj. ParseMTCCertificate (\<lambda>d. Some d) (ao_FinalCertDER row) = Inr parsed \<and> pc_Subject parsed = Some subj \<and>
          name_tlv subject = Inr subj \<and> nm_CommonName subject = ''evil.example''"
    using foreign_common_name [OF demo_names_request(1) o(1,2) demo_names_ready(1) o(3) order srv(3) csr o(4) srv(1,2), of 0 "\<lambda>d. Some d"] times
    unfolding demo_names_request(2) by blast
  note request = run_finalize_request [OF demo_names_request(1) _ _ _ order srv(3), of 0, unfolded w1 demo_names_request(2)]
  have "missing_ident demo_mtc_csr ?idents = None" using csr(2) unfolding demo_names_request(2) by (rule covered_idents)
  then have pem: "pem = []" and db: "aw_db w1 = updated_db (aw_db demo_names_world) ''o'' ''processing'' (column ''csr'' (bytes_str []))"
    using request demo_names_ready(1) by (auto simp: log_ready_def no_faults_def demo_mtc_server_def)
  obtain o1 where "acme_orders (aw_db w1) = [o1]" "ao_ID o1 = ''o''"
    by (simp add: db updated_db_def demo_names_ready demo_order_a_def new_order_def)
  then obtain w' row where run: "run (acme_machine demo_mtc_server) (processFinalize demo_mtc_server ''o'' demo_mtc_csr [] ?idents) w1
       [ATime demo_clock, ATime (demo_clock + 5), ATime (demo_clock + 9)] = (Some None, w', [], [])"
     and row: "acme_orders (aw_db w') = [row]" "ao_ID row = ''o''" "ao_Status row = ''valid''" "length (ao_FinalCertDER row) < 2 ^ 31"
    using demo_mtc_run [of w1 o1] by (auto simp: db log_ready_updated demo_names_ready)
  have "row \<in> set (acme_orders (aw_db w'))" by (simp add: row(1))
  from stored [unfolded pem goroutine_of_def job.case, OF run this row(2-4)] this w1 run row(3) show ?thesis
    unfolding pem append.simps by blast
qed

end
