(* ===== verification/Configuration.thy ===== *)
theory Configuration
  imports GoStrings
begin

text \<open>
  \<open>src/internal/config/config.go\<close>: the configuration of the bridge, its environment variables,
  its defaults and its validation. A duration is its number of nanoseconds. The YAML decoder is
  a third-party package and an argument of \<open>Load\<close>, as are the file and the environment.
\<close>

section \<open>The configuration\<close>

record ACMEConfig =
  am_Enabled :: bool
  am_Addr :: string
  am_ExternalURL :: string
  am_CAURL :: string
  am_CAAPIKey :: string
  am_CAID :: string
  am_TemplateID :: string
  am_MTCBridgeURL :: string
  am_OrderExpiry :: int
  am_AssertionTimeout :: int
  am_AssertionPollInterval :: int
  am_AutoApproveChallenge :: bool
  am_TLSCert :: string
  am_TLSKey :: string

text \<open>One target of the webhooks; \<open>Enabled\<close> of the issuer is a pointer.\<close>

record webhook_target =
  wt_URL :: string
  wt_Pattern :: string
  wt_Secret :: string

record AssertionIssuerConfig =
  ai_Enabled :: "bool option"
  ai_BatchSize :: int
  ai_Concurrency :: int
  ai_StalenessThreshold :: int
  ai_Webhooks :: "webhook_target list"

definition IsEnabled :: "AssertionIssuerConfig \<Rightarrow> bool" where
  "IsEnabled c = (case ai_Enabled c of None \<Rightarrow> True | Some b \<Rightarrow> b)"

record LocalCAConfig =
  lo_Enabled :: bool
  lo_MTCMode :: bool
  lo_KeyFile :: string
  lo_CertFile :: string
  lo_Validity :: int
  lo_Organization :: string
  lo_Country :: string

record LogConfig =
  lg_Name :: string
  lg_Origin :: string
  lg_BatchSize :: int

record PostgresConfig =
  pg_Host :: string
  pg_Port :: int
  pg_Database :: string
  pg_Username :: string
  pg_Password :: string
  pg_SSLMode :: string
  pg_MaxOpenConns :: int
  pg_MaxIdleConns :: int
  pg_ConnMaxLifetime :: int

definition pg_DSN :: "PostgresConfig \<Rightarrow> string" where
  "pg_DSN c =
     (let sslMode = (if pg_SSLMode c = '''' then ''disable'' else pg_SSLMode c) in
      ''host='' @ pg_Host c @ '' port='' @ dec_int (pg_Port c) @ '' dbname='' @ pg_Database c @ '' user='' @ pg_Username c @
      '' password='' @ pg_Password c @ '' sslmode='' @ sslMode)"

record MariaDBConfig =
  my_Host :: string
  my_Port :: int
  my_Database :: string
  my_Username :: string
  my_Password :: string
  my_IssuerID :: string

definition my_DSN :: "MariaDBConfig \<Rightarrow> string" where
  "my_DSN c = my_Username c @ '':'' @ my_Password c @ ''@tcp('' @ my_Host c @ '':'' @ dec_int (my_Port c) @ '')/'' @ my_Database c @
     ''?parseTime=true&loc=UTC''"

record HTTPConfig =
  hc_Addr :: string
  hc_ReadTimeout :: int
  hc_WriteTimeout :: int
  hc_TileCacheTTL :: int
  hc_CheckpointCacheTTL :: int

record WatcherConfig =
  wa_PollInterval :: int
  wa_RevocationPollInterval :: int
  wa_CheckpointInterval :: int
  wa_BatchSize :: int
  wa_HousekeepingInterval :: int
  wa_StaleBundleRetention :: int
  wa_CheckpointRetention :: int
  wa_CheckpointKeepRecent :: int
  wa_EventRetention :: int
  wa_EventKeepRecent :: int

record CosignerConfig =
  co_KeyFile :: string
  co_KeyID :: string
  co_Algorithm :: string
  co_CosignerID :: "16 word"

record AdditionalCosignerConfig =
  ad_KeyFile :: string
  ad_KeyID :: string
  ad_Algorithm :: string
  ad_CosignerID :: string

record LoggingConfig =
  ll_Level :: string
  ll_Format :: string

record bridge_Config =
  bc_Log :: LogConfig
  bc_StateDB :: PostgresConfig
  bc_CADB :: MariaDBConfig
  bc_HTTP :: HTTPConfig
  bc_Watcher :: WatcherConfig
  bc_Cosigner :: CosignerConfig
  bc_AdditionalCosigners :: "AdditionalCosignerConfig list"
  bc_Logging :: LoggingConfig
  bc_AssertionIssuer :: AssertionIssuerConfig
  bc_ACME :: ACMEConfig
  bc_LocalCA :: LocalCAConfig

section \<open>Environment variables\<close>

text \<open>
  A match of \<open>envVarPattern\<close> at the start of the text: the name, the default (empty without one)
  and the text after the match. The first byte that is not part of the name decides between the
  two forms, so the expression matches in one way only; the default runs to the next brace.
\<close>

definition name_start :: "char \<Rightarrow> bool" where
  "name_start c \<longleftrightarrow> (let n = (of_char c :: nat) in 65 \<le> n \<and> n \<le> 90 \<or> 97 \<le> n \<and> n \<le> 122 \<or> n = 95)"

definition name_char :: "char \<Rightarrow> bool" where
  "name_char c \<longleftrightarrow> name_start c \<or> is_digit c"

definition envVarPattern :: "string \<Rightarrow> (string \<times> string \<times> string) option" where
  "envVarPattern s =
     (if HasPrefix s ''${'' then
        let t = drop 2 s; name = takeWhile name_char t; r = dropWhile name_char t in
        if name = [] \<or> \<not> name_start (hd name) then None
        else if HasPrefix r ''}'' then Some (name, '''', tl r)
        else if HasPrefix r '':-'' then
          let e = drop 2 r in
          case dropWhile (\<lambda>c. c \<noteq> CHR ''}'') e of
            [] \<Rightarrow> None
          | _ # rest \<Rightarrow> Some (name, takeWhile (\<lambda>c. c \<noteq> CHR ''}'') e, rest)
        else None
      else None)"

lemma HasPrefix_length: "HasPrefix s p \<Longrightarrow> length p \<le> length s"
  unfolding HasPrefix_def by (metis length_take min.bounded_iff order_refl take_all_iff nle_le)

lemma envVarPattern_shorter:
  assumes "envVarPattern s = Some (name, dflt, rest)"
  shows "length rest < length s"
proof -
  let ?r = "dropWhile name_char (drop 2 s)"
  have "HasPrefix s ''${''" using assms by (simp add: envVarPattern_def split: if_splits)
  from HasPrefix_length [OF this] have s: "2 \<le> length s" by simp
  have r: "length ?r \<le> length s - 2" using length_dropWhile_le [of name_char "drop 2 s"] by simp
  have "length (dropWhile P (drop 2 ?r)) \<le> length ?r - 2" for P using length_dropWhile_le [of P "drop 2 ?r"] by simp
  then have "length rest \<le> length ?r"
    using assms unfolding envVarPattern_def Let_def
    by (auto split: if_splits list.splits) (metis Suc_le_lessD diff_le_self le_trans length_Cons less_imp_le_nat)
  with s r show ?thesis by linarith
qed

function expandEnvVars :: "(string \<Rightarrow> string option) \<Rightarrow> string \<Rightarrow> string" where
  "expandEnvVars LookupEnv s =
     (case s of [] \<Rightarrow> []
      | c # cs \<Rightarrow>
        (case envVarPattern s of
           Some (varName, defaultVal, rest) \<Rightarrow>
             (case LookupEnv varName of Some val \<Rightarrow> val | None \<Rightarrow> defaultVal) @ expandEnvVars LookupEnv rest
         | None \<Rightarrow> c # expandEnvVars LookupEnv cs))"
  by pat_completeness auto
termination
  by (relation "measure (length \<circ> snd)") (auto dest: envVarPattern_shorter)

declare expandEnvVars.simps [simp del]

section \<open>Defaults\<close>

abbreviation seconds :: "int \<Rightarrow> int" where "seconds n \<equiv> n * 1000000000"

abbreviation minutes :: "int \<Rightarrow> int" where "minutes n \<equiv> n * 60000000000"

abbreviation hours :: "int \<Rightarrow> int" where "hours n \<equiv> n * 3600000000000"

text \<open>The two kinds of default: for an empty text, and for a number that is not positive.\<close>

abbreviation if_empty :: "string \<Rightarrow> string \<Rightarrow> string" where
  "if_empty s dflt \<equiv> (if s = '''' then dflt else s)"

abbreviation unless_positive :: "int \<Rightarrow> int \<Rightarrow> int" where
  "unless_positive n dflt \<equiv> (if n \<le> 0 then dflt else n)"

definition log_defaults :: "LogConfig \<Rightarrow> LogConfig" where
  "log_defaults c = c\<lparr>lg_Name := if_empty (lg_Name c) ''mtc-bridge'', lg_Origin := if_empty (lg_Origin c) ''localhost/mtc-bridge'',
     lg_BatchSize := unless_positive (lg_BatchSize c) 100\<rparr>"

definition state_db_defaults :: "PostgresConfig \<Rightarrow> PostgresConfig" where
  "state_db_defaults c = c\<lparr>pg_Port := (if pg_Port c = 0 then 5432 else pg_Port c),
     pg_Database := if_empty (pg_Database c) ''mtcbridge'', pg_SSLMode := if_empty (pg_SSLMode c) ''disable'',
     pg_MaxOpenConns := unless_positive (pg_MaxOpenConns c) 25, pg_MaxIdleConns := unless_positive (pg_MaxIdleConns c) 5,
     pg_ConnMaxLifetime := unless_positive (pg_ConnMaxLifetime c) (minutes 5)\<rparr>"

definition ca_db_defaults :: "MariaDBConfig \<Rightarrow> MariaDBConfig" where
  "ca_db_defaults c = c\<lparr>my_Port := (if my_Port c = 0 then 3306 else my_Port c),
     my_Database := if_empty (my_Database c) ''digicert_ca''\<rparr>"

definition http_defaults :: "HTTPConfig \<Rightarrow> HTTPConfig" where
  "http_defaults c = c\<lparr>hc_Addr := if_empty (hc_Addr c) '':8080'', hc_ReadTimeout := unless_positive (hc_ReadTimeout c) (seconds 10),
     hc_WriteTimeout := unless_positive (hc_WriteTimeout c) (seconds 30), hc_TileCacheTTL := unless_positive (hc_TileCacheTTL c) (hours 24),
     hc_CheckpointCacheTTL := unless_positive (hc_CheckpointCacheTTL c) (seconds 5)\<rparr>"

text \<open>A retention that is not given is set only when the housekeeping runs.\<close>

definition watcher_defaults :: "WatcherConfig \<Rightarrow> WatcherConfig" where
  "watcher_defaults c =
     (let housekeeping = (if wa_HousekeepingInterval c < 0 then 0 else wa_HousekeepingInterval c) in
      c\<lparr>wa_PollInterval := unless_positive (wa_PollInterval c) (seconds 10),
        wa_RevocationPollInterval := unless_positive (wa_RevocationPollInterval c) (seconds 30),
        wa_CheckpointInterval := unless_positive (wa_CheckpointInterval c) (seconds 60),
        wa_BatchSize := unless_positive (wa_BatchSize c) 100,
        wa_HousekeepingInterval := housekeeping,
        wa_StaleBundleRetention := (if wa_StaleBundleRetention c \<le> 0 \<and> housekeeping > 0 then hours (30 * 24) else wa_StaleBundleRetention c),
        wa_CheckpointRetention := (if wa_CheckpointRetention c \<le> 0 \<and> housekeeping > 0 then hours (90 * 24) else wa_CheckpointRetention c),
        wa_CheckpointKeepRecent := unless_positive (wa_CheckpointKeepRecent c) 1000,
        wa_EventRetention := (if wa_EventRetention c \<le> 0 \<and> housekeeping > 0 then hours (90 * 24) else wa_EventRetention c),
        wa_EventKeepRecent := unless_positive (wa_EventKeepRecent c) 5000\<rparr>)"

definition cosigner_defaults :: "CosignerConfig \<Rightarrow> CosignerConfig" where
  "cosigner_defaults c = c\<lparr>co_KeyID := if_empty (co_KeyID c) ''mtc-bridge-cosigner''\<rparr>"

definition logging_defaults :: "LoggingConfig \<Rightarrow> LoggingConfig" where
  "logging_defaults c = c\<lparr>ll_Level := if_empty (ll_Level c) ''info'', ll_Format := if_empty (ll_Format c) ''json''\<rparr>"

definition issuer_defaults :: "AssertionIssuerConfig \<Rightarrow> AssertionIssuerConfig" where
  "issuer_defaults c = c\<lparr>ai_BatchSize := unless_positive (ai_BatchSize c) 100, ai_Concurrency := unless_positive (ai_Concurrency c) 4,
     ai_StalenessThreshold := unless_positive (ai_StalenessThreshold c) 5\<rparr>"

definition acme_defaults :: "ACMEConfig \<Rightarrow> ACMEConfig" where
  "acme_defaults c = c\<lparr>am_Addr := if_empty (am_Addr c) '':8443'', am_ExternalURL := if_empty (am_ExternalURL c) ''http://localhost:8443'',
     am_MTCBridgeURL := if_empty (am_MTCBridgeURL c) ''http://localhost:8080'',
     am_OrderExpiry := unless_positive (am_OrderExpiry c) (hours 24),
     am_AssertionTimeout := unless_positive (am_AssertionTimeout c) (minutes 5),
     am_AssertionPollInterval := unless_positive (am_AssertionPollInterval c) (seconds 5)\<rparr>"

definition applyDefaults :: "bridge_Config \<Rightarrow> bridge_Config" where
  "applyDefaults cfg = cfg\<lparr>bc_Log := log_defaults (bc_Log cfg), bc_StateDB := state_db_defaults (bc_StateDB cfg),
     bc_CADB := ca_db_defaults (bc_CADB cfg), bc_HTTP := http_defaults (bc_HTTP cfg), bc_Watcher := watcher_defaults (bc_Watcher cfg),
     bc_Cosigner := cosigner_defaults (bc_Cosigner cfg), bc_Logging := logging_defaults (bc_Logging cfg),
     bc_AssertionIssuer := issuer_defaults (bc_AssertionIssuer cfg), bc_ACME := acme_defaults (bc_ACME cfg)\<rparr>"

section \<open>Loading and validation\<close>

definition Load :: "(string \<Rightarrow> goerr + string) \<Rightarrow> (string \<Rightarrow> string option) \<Rightarrow> (string \<Rightarrow> goerr + bridge_Config) \<Rightarrow> string \<Rightarrow> goerr + bridge_Config" where
  "Load os_ReadFile LookupEnv yaml_Unmarshal path =
     (case os_ReadFile path of
        Inl err \<Rightarrow> Inl (Wrap (''config.Load: read '' @ path @ '': %w'') err)
      | Inr data \<Rightarrow>
        (case yaml_Unmarshal (expandEnvVars LookupEnv data) of
           Inl err \<Rightarrow> Inl (Wrap (''config.Load: parse '' @ path @ '': %w'') err)
         | Inr cfg \<Rightarrow> Inr (applyDefaults cfg)))"

definition Validate :: "bridge_Config \<Rightarrow> goerr option" where
  "Validate c =
     (let errs = (if pg_Host (bc_StateDB c) = '''' then [''state_db.host is required''] else []) @
          (if pg_Username (bc_StateDB c) = '''' then [''state_db.username is required''] else []) @
          (if my_Host (bc_CADB c) = '''' then [''ca_db.host is required''] else []) @
          (if my_Username (bc_CADB c) = '''' then [''ca_db.username is required''] else []) @
          (if co_KeyFile (bc_Cosigner c) = '''' then [''cosigner.key_file is required''] else [])
      in if errs \<noteq> [] then Some (Errorf (''config.Validate: '' @ Join ''; '' errs)) else None)"

datatype level = LevelDebug | LevelInfo | LevelWarn | LevelError

definition ParseLogLevel :: "string \<Rightarrow> level" where
  "ParseLogLevel s =
     (let l = ToLower s in
      if l = ''debug'' then LevelDebug else if l = ''info'' then LevelInfo else if l = ''warn'' then LevelWarn
      else if l = ''error'' then LevelError else LevelInfo)"

text \<open>\<open>None\<close> is the panic.\<close>

definition MustAtoi :: "string \<Rightarrow> int option" where
  "MustAtoi s = (case ParseInt s of Inl err \<Rightarrow> None | Inr v \<Rightarrow> Some v)"

section \<open>Substitution\<close>

text \<open>A text as the pieces a template is made of, the template and what it stands for.\<close>

datatype piece = Lit string | Var string | VarOr string string

fun template_of :: "piece \<Rightarrow> string" where
  "template_of (Lit s) = s"
| "template_of (Var v) = ''${'' @ v @ ''}''"
| "template_of (VarOr v d) = ''${'' @ v @ '':-'' @ d @ ''}''"

fun value_of :: "(string \<Rightarrow> string option) \<Rightarrow> piece \<Rightarrow> string" where
  "value_of env (Lit s) = s"
| "value_of env (Var v) = (case env v of Some x \<Rightarrow> x | None \<Rightarrow> '''')"
| "value_of env (VarOr v d) = (case env v of Some x \<Rightarrow> x | None \<Rightarrow> d)"

fun piece_ok :: "piece \<Rightarrow> bool" where
  "piece_ok (Lit s) = (CHR ''$'' \<notin> set s)"
| "piece_ok (Var v) = (v \<noteq> [] \<and> name_start (hd v) \<and> list_all name_char v)"
| "piece_ok (VarOr v d) = (v \<noteq> [] \<and> name_start (hd v) \<and> list_all name_char v \<and> CHR ''}'' \<notin> set d)"

lemma no_name_char [simp]: "\<not> name_char CHR ''}''" "\<not> name_char CHR '':''"
  by code_simp+

lemma take_name:
  assumes "list_all name_char v" "\<not> name_char c"
  shows "takeWhile name_char (v @ c # r) = v" "dropWhile name_char (v @ c # r) = c # r"
  using assms by (simp_all add: list_all_iff takeWhile_append2 dropWhile_append2)

lemma take_brace:
  assumes "CHR ''}'' \<notin> set d"
  shows "takeWhile (\<lambda>c. c \<noteq> CHR ''}'') (d @ CHR ''}'' # r) = d" "dropWhile (\<lambda>c. c \<noteq> CHR ''}'') (d @ CHR ''}'' # r) = CHR ''}'' # r"
  using assms by (induction d) auto

lemma envVarPattern_nil [simp]: "envVarPattern [] = None"
  by (simp add: envVarPattern_def HasPrefix_def)

lemma envVarPattern_pieces:
  "piece_ok (Var v) \<Longrightarrow> envVarPattern (template_of (Var v) @ s) = Some (v, '''', s)"
  "piece_ok (VarOr v d) \<Longrightarrow> envVarPattern (template_of (VarOr v d) @ s) = Some (v, d, s)"
  by (auto simp: envVarPattern_def HasPrefix_def take_name take_brace Let_def)

lemma expandEnvVars_no_match: "envVarPattern (c # s) = None \<Longrightarrow> expandEnvVars env (c # s) = c # expandEnvVars env s"
  by (simp add: expandEnvVars.simps [of env "c # s"])

lemma expandEnvVars_match:
  "envVarPattern s = Some (v, d, r) \<Longrightarrow> expandEnvVars env s = (case env v of Some x \<Rightarrow> x | None \<Rightarrow> d) @ expandEnvVars env r"
  by (subst expandEnvVars.simps) (auto split: list.splits)

lemma expandEnvVars_lit: "CHR ''$'' \<notin> set s \<Longrightarrow> expandEnvVars env (s @ r) = s @ expandEnvVars env r"
  by (induction s) (auto simp: expandEnvVars_no_match envVarPattern_def HasPrefix_def)

lemma expandEnvVars_nil [simp]: "expandEnvVars env [] = []"
  by (simp add: expandEnvVars.simps)

text \<open>
  The configuration text is expanded piece by piece: a text made of literal pieces without a
  dollar sign and of the two forms of a variable becomes the literals and the values of the
  variables, and the default stands only for a variable that is not set. No value is expanded
  again.
\<close>

lemma expandEnvVars_template:
  assumes "list_all piece_ok ps"
  shows "expandEnvVars env (concat (map template_of ps)) = concat (map (value_of env) ps)"
  using assms
proof (induction ps)
  case Nil
  then show ?case by simp
next
  case (Cons p ps)
  then show ?case
    by (cases p) (simp_all add: expandEnvVars_lit expandEnvVars_match [OF envVarPattern_pieces(1), simplified]
        expandEnvVars_match [OF envVarPattern_pieces(2), simplified])
qed

lemma expandEnvVars_template_witness:
  "expandEnvVars [''LEVEL'' \<mapsto> ''${X}''] ''level: ${LEVEL:-info} ${NONE:-a:b}${OTHER}'' = ''level: ${X} a:b''"
  using expandEnvVars_template [of "[Lit ''level: '', VarOr ''LEVEL'' ''info'', Lit '' '', VarOr ''NONE'' ''a:b'', Var ''OTHER'']" "[''LEVEL'' \<mapsto> ''${X}'']"]
  by (simp add: list_all_iff) (auto simp: name_char_def name_start_def)

end
