(* ===== verification/Bridge.thy ===== *)
theory Bridge
  imports Configuration Watcher Assertionissuer AcmeIssue Tlogtiles
begin

text \<open>
  \<open>src/cmd/mtc-bridge/main.go\<close>: from the configuration to the running bridge. \<open>startup\<close> is the
  part of \<open>main\<close> that connects the databases and builds the components; it ends with the message
  of an exit with code 1 or with the components as they start. The second part is the
  multiplexer of the HTTP server. Command line, logging, listening and shutting down are left
  out.
\<close>

section \<open>From the configuration to the components\<close>

definition watcher_config :: "bridge_Config \<Rightarrow> Config" where
  "watcher_config cfg = (let c = bc_Watcher cfg in
     \<lparr>cf_PollInterval = wa_PollInterval c, cf_CheckpointInterval = wa_CheckpointInterval c, cf_BatchSize = wa_BatchSize c,
      cf_RevocationPollInterval = wa_RevocationPollInterval c, cf_HousekeepingInterval = wa_HousekeepingInterval c,
      cf_StaleBundleRetention = wa_StaleBundleRetention c, cf_CheckpointRetention = wa_CheckpointRetention c,
      cf_CheckpointKeepRecent = wa_CheckpointKeepRecent c, cf_EventRetention = wa_EventRetention c,
      cf_EventKeepRecent = wa_EventKeepRecent c\<rparr>)"

definition issuer_config :: "bridge_Config \<Rightarrow> issuer_Config" where
  "issuer_config cfg = (let c = bc_AssertionIssuer cfg in
     \<lparr>ic_Enabled = IsEnabled c, ic_BatchSize = ai_BatchSize c, ic_Concurrency = ai_Concurrency c,
      ic_StalenessThreshold = ai_StalenessThreshold c,
      ic_Webhooks = map (\<lambda>wh. \<lparr>wh_URL = wt_URL wh, wh_Pattern = wt_Pattern wh, wh_Secret = wt_Secret wh\<rparr>) (ai_Webhooks c)\<rparr>)"

definition acme_config :: "bridge_Config \<Rightarrow> acme_Config" where
  "acme_config cfg = (let c = bc_ACME cfg in
     \<lparr>ac_ExternalURL = am_ExternalURL c, ac_CAProxyURL = am_CAURL c, ac_CAAPIKey = am_CAAPIKey c, ac_CAID = am_CAID c,
      ac_TemplateID = am_TemplateID c, ac_MTCBridgeURL = am_MTCBridgeURL c, ac_OrderExpiry = am_OrderExpiry c,
      ac_AssertionTimeout = am_AssertionTimeout c, ac_AssertionPollInterval = am_AssertionPollInterval c,
      ac_AutoApproveChallenge = am_AutoApproveChallenge c, ac_MTCMode = lo_MTCMode (bc_LocalCA cfg)\<rparr>)"

definition local_ca_config :: "bridge_Config \<Rightarrow> localca_Config" where
  "local_ca_config cfg = (let c = bc_LocalCA cfg in
     \<lparr>lc_KeyFile = lo_KeyFile c, lc_CertFile = lo_CertFile c, lc_Validity = lo_Validity c,
      lc_Organization = lo_Organization c, lc_Country = lo_Country c\<rparr>)"

definition New_watcher :: "Adapter \<Rightarrow> Cosigner \<Rightarrow> Config \<Rightarrow> Watcher" where
  "New_watcher ca cs cfg = \<lparr>w_adapter = ca, w_cosigner = cs, w_cfg = cfg, w_hasCallback = False, w_running = False,
     w_lastCheckpoint = 0, w_certsProcessed = 0, w_revocsProcessed = 0, w_callbacks = []\<rparr>"

definition OnCheckpoint :: "Watcher \<Rightarrow> Watcher" where
  "OnCheckpoint w = w\<lparr>w_hasCallback := True\<rparr>"

section \<open>The databases\<close>

text \<open>
  The drivers: opening a connection string and the first ping may fail. A pool keeps what it was
  opened with and its limits.
\<close>

record driver =
  sql_Open :: "string \<Rightarrow> goerr option"
  sql_Ping :: "string \<Rightarrow> goerr option"

record pool =
  pl_DSN :: string
  pl_MaxOpenConns :: int
  pl_MaxIdleConns :: int
  pl_ConnMaxLifetime :: int

definition New_store :: "driver \<Rightarrow> PostgresConfig \<Rightarrow> goerr + pool" where
  "New_store pgx cfg =
     (case sql_Open pgx (pg_DSN cfg) of
        Some err \<Rightarrow> Inl (Wrap ''store.New: open: %w'' err)
      | None \<Rightarrow>
        (case sql_Ping pgx (pg_DSN cfg) of
           Some err \<Rightarrow> Inl (Wrap ''store.New: ping: %w'' err)
         | None \<Rightarrow> Inr \<lparr>pl_DSN = pg_DSN cfg, pl_MaxOpenConns = pg_MaxOpenConns cfg, pl_MaxIdleConns = pg_MaxIdleConns cfg,
             pl_ConnMaxLifetime = pg_ConnMaxLifetime cfg\<rparr>))"

text \<open>
  The migrations on a database whose tables exist: each statement says \<open>IF NOT EXISTS\<close> and leaves
  the tables as they are, and may fail.
\<close>

fun migrate_from :: "nat \<Rightarrow> unit io" where
  "migrate_from 0 d = (Inr (), d)"
| "migrate_from (Suc n) d =
     (case stmt (\<lambda>d. Inr ((), d)) d of
        (Inl err, d1) \<Rightarrow> (Inl (Wrap ''store.Migrate: migration %d: %w'' err), d1)
      | (Inr _, d1) \<Rightarrow> migrate_from n d1)"

definition migrations :: nat where "migrations = 34"

definition Migrate :: "unit io" where
  "Migrate d = migrate_from migrations d"

definition New_cadb :: "driver \<Rightarrow> MariaDBConfig \<Rightarrow> cadb \<Rightarrow> (goerr + Adapter) \<times> cadb" where
  "New_cadb mysql cfg ca =
     (case sql_Open mysql (my_DSN cfg) of
        Some err \<Rightarrow> (Inl (Wrap ''cadb.New: open: %w'' err), ca)
      | None \<Rightarrow>
        (case sql_Ping mysql (my_DSN cfg) of
           Some err \<Rightarrow> (Inl (Wrap ''cadb.New: ping: %w'' err), ca)
         | None \<Rightarrow>
           (case loadCAs ca of
              (Inl err, ca1) \<Rightarrow> (Inl (Wrap ''cadb.New: load CAs: %w'' err), ca1)
            | (Inr cache, ca1) \<Rightarrow> (Inr \<lparr>ad_IssuerID = my_IssuerID cfg, ad_caCache = cache\<rparr>, ca1))))"

section \<open>Start\<close>

text \<open>What \<open>main\<close> uses of its host: files, environment, drivers and the libraries of the components.\<close>

record host =
  ho_ReadFile :: "string \<Rightarrow> goerr + bytes"
  ho_ReadConfig :: "string \<Rightarrow> goerr + string"
  ho_LookupEnv :: "string \<Rightarrow> string option"
  ho_yaml_Unmarshal :: "string \<Rightarrow> goerr + bridge_Config"
  ho_pgx :: driver
  ho_mysql :: driver
  ho_pem_Decode :: "bytes \<Rightarrow> (string \<times> bytes) option"
  ho_crypto :: crypto
  ho_ca_tools :: ca_tools
  ho_files :: files
  ho_acme_lib :: acme_lib
  ho_parse_cert :: x509_parser
  ho_parse_template :: "goerr option"

record bridge =
  br_cfg :: bridge_Config
  br_pool :: pool
  br_watcher :: Watcher
  br_issuer :: Issuer
  br_tlog :: Handler
  br_caNames :: "string \<Rightarrow> string option"
  br_acmeExtURL :: string
  br_acme :: "acme_Server option"

definition bytes_of :: "string \<Rightarrow> bytes" where
  "bytes_of s = map of_char s"

definition start_acme :: "host \<Rightarrow> bridge_Config \<Rightarrow> Cosigner \<Rightarrow> goerr + acme_Server option" where
  "start_acme h cfg cs =
     (if am_Enabled (bc_ACME cfg) then
        (if lo_Enabled (bc_LocalCA cfg) then
           (case New_localca (ho_ca_tools h) (local_ca_config cfg) (ho_files h) of
              Inl err \<Rightarrow> Inl (Wrap ''failed to initialize local CA'' err)
            | Inr lca \<Rightarrow> Inr (Some (New_acme (acme_config cfg) (Some lca) (ho_crypto h) cs (ho_acme_lib h))))
         else Inr (Some (New_acme (acme_config cfg) None (ho_crypto h) cs (ho_acme_lib h))))
      else Inr None)"

definition startup :: "host \<Rightarrow> string \<Rightarrow> db \<Rightarrow> cadb \<Rightarrow> (goerr + bridge) \<times> db \<times> cadb" where
  "startup h configFile d ca =
     (case Load (ho_ReadConfig h) (ho_LookupEnv h) (ho_yaml_Unmarshal h) configFile of
        Inl err \<Rightarrow> (Inl (Wrap ''error loading config'' err), d, ca)
      | Inr cfg \<Rightarrow>
     (case New_store (ho_pgx h) (bc_StateDB cfg) of
        Inl err \<Rightarrow> (Inl (Wrap ''failed to connect to state store'' err), d, ca)
      | Inr stateStore \<Rightarrow>
     (case Migrate d of
        (Inl err, d1) \<Rightarrow> (Inl (Wrap ''migration failed'' err), d1, ca)
      | (Inr _, d1) \<Rightarrow>
     (case New_cadb (ho_mysql h) (bc_CADB cfg) ca of
        (Inl err, ca1) \<Rightarrow> (Inl (Wrap ''failed to connect to CA database'' err), d1, ca1)
      | (Inr caAdapter, ca1) \<Rightarrow>
     (case New (ho_crypto h) (ho_ReadFile h (co_KeyFile (bc_Cosigner cfg))) (ho_pem_Decode h)
         (co_KeyID (bc_Cosigner cfg)) (lg_Origin (bc_Log cfg)) of
        Inl err \<Rightarrow> (Inl (Wrap ''failed to initialize cosigner'' err), d1, ca1)
      | Inr cs0 \<Rightarrow>
        let cs = SetCosignerID (bytes_of (lg_Origin (bc_Log cfg))) cs0;
            w = OnCheckpoint (New_watcher caAdapter cs (watcher_config cfg));
            issuer = New_issuer (lg_Origin (bc_Log cfg)) (issuer_config cfg);
            tlogHandler = \<lparr>h_assertBld = \<lparr>bd_logOrigin = lg_Origin (bc_Log cfg)\<rparr>, h_parse = ho_parse_cert h\<rparr>;
            acmeExtURL = (if am_Enabled (bc_ACME cfg) then am_ExternalURL (bc_ACME cfg) else '''')
        in
     (case ho_parse_template h of
        Some err \<Rightarrow> (Inl (Wrap ''failed to create admin handler'' err), d1, ca1)
      | None \<Rightarrow>
     (case start_acme h cfg cs of
        Inl err \<Rightarrow> (Inl err, d1, ca1)
      | Inr acmeSrv \<Rightarrow>
          (Inr \<lparr>br_cfg = cfg, br_pool = stateStore, br_watcher = w, br_issuer = issuer, br_tlog = tlogHandler,
             br_caNames = (\<lambda>i. map_option ca_Name (ad_caCache caAdapter i)), br_acmeExtURL = acmeExtURL, br_acme = acmeSrv\<rparr>,
           d1, ca1))))))))"

section \<open>The multiplexer\<close>

text \<open>
  The patterns that the server registers, for paths without percent escapes. The path of a
  subtree without its last slash is redirected. The redirect itself is that of \<open>net/http\<close>, a parameter.
\<close>

datatype target = ToTlog | ToAdmin | ToHealthz | ToRedirect string

definition mux_target :: "string \<Rightarrow> target option" where
  "mux_target p =
     (if p = ''/checkpoint'' \<or> HasPrefix p ''/tile/'' \<or> p = ''/revocation'' \<or> HasPrefix p ''/proof/'' \<or>
         HasPrefix p ''/assertion/'' \<or> HasPrefix p ''/assertions/'' then Some ToTlog
      else if p = ''/admin'' \<or> HasPrefix p ''/admin/'' then Some ToAdmin
      else if p = ''/healthz'' then Some ToHealthz
      else if p \<in> {''/tile'', ''/proof'', ''/assertion'', ''/assertions''} then Some (ToRedirect (p @ ''/''))
      else None)"

definition healthz :: "int \<Rightarrow> response" where
  "healthz clock = \<lparr>rs_Status = 200, rs_Header = [(''Content-Type'', ''application/json'')],
     rs_Body = Json (JObj [(''status'', JStr ''ok''), (''timestamp'', JTime (truncate_second clock))])\<rparr>"

text \<open>
  \<open>cleanPath\<close> of \<open>net/http\<close>: empty segments and \<open>.\<close> are dropped, \<open>..\<close> drops the segment before it, and a
  slash at the end is kept.
\<close>

definition clean_segment :: "string list \<Rightarrow> string \<Rightarrow> string list" where
  "clean_segment segs s = (if s = '''' \<or> s = ''.'' then segs else if s = ''..'' then butlast segs else segs @ [s])"

definition cleanPath :: "string \<Rightarrow> string" where
  "cleanPath p =
     (let np = concat (map (\<lambda>s. CHR ''/'' # s) (foldl clean_segment [] (Split CHR ''/'' p)))
      in if np = '''' then ''/'' else if last p = CHR ''/'' then np @ ''/'' else np)"

text \<open>
  A request whose path is not clean is redirected to the clean one, or to the directory with its slash
  when that is registered; only \<open>CONNECT\<close> is dispatched by the path as it is.
\<close>

definition bridge_ServeHTTP :: "(request \<Rightarrow> string \<Rightarrow> response) \<Rightarrow> handler \<Rightarrow> int \<Rightarrow> Handler \<Rightarrow> handler" where
  "bridge_ServeHTTP redirect adminHandler clock tlogHandler r d =
     (let p = if rq_Method r = ''CONNECT'' then rq_Path r else cleanPath (rq_Path r) in
      case mux_target p of
        Some (ToRedirect p') \<Rightarrow> (Some (redirect r p'), d)
      | t \<Rightarrow>
        if p \<noteq> rq_Path r then (Some (redirect r p), d)
        else case t of
          Some ToTlog \<Rightarrow> ServeHTTP tlogHandler r d
        | Some ToAdmin \<Rightarrow> adminHandler r d
        | Some ToHealthz \<Rightarrow>
            if rq_Method r \<in> {''GET'', ''HEAD''} then (Some (healthz clock), d)
            else (Some (http_Error ''Method Not Allowed'' 405), d)
        | _ \<Rightarrow> (Some (http_Error ''404 page not found'' 404), d))"

section \<open>A bridge that has started\<close>

lemma New_origin: "New cr rd pem keyID origin = Inr cs \<Longrightarrow> cs_origin cs = origin \<and> cs_keyID cs = keyID"
  by (auto simp: New_def ed25519_cosigner_def Let_def split: sum.splits option.splits prod.splits if_splits)

lemma startup_result:
  assumes "startup h file d ca = (Inr b, d', ca')"
  obtains cfg0 a cs where "br_cfg b = applyDefaults cfg0" "cs_origin cs = lg_Origin (bc_Log (br_cfg b))"
    "br_watcher b = OnCheckpoint (New_watcher a (SetCosignerID (bytes_of (lg_Origin (bc_Log (br_cfg b)))) cs) (watcher_config (br_cfg b)))"
    "br_issuer b = New_issuer (lg_Origin (bc_Log (br_cfg b))) (issuer_config (br_cfg b))"
    "bd_logOrigin (h_assertBld (br_tlog b)) = lg_Origin (bc_Log (br_cfg b))"
    "start_acme h (br_cfg b) (w_cosigner (br_watcher b)) = Inr (br_acme b)"
proof -
  obtain cfg where l: "Load (ho_ReadConfig h) (ho_LookupEnv h) (ho_yaml_Unmarshal h) file = Inr cfg"
    using assms by (cases "Load (ho_ReadConfig h) (ho_LookupEnv h) (ho_yaml_Unmarshal h) file") (simp_all add: startup_def)
  then obtain cfg0 where cfg: "cfg = applyDefaults cfg0" by (auto simp: Load_def split: sum.splits)
  obtain cs where n: "New (ho_crypto h) (ho_ReadFile h (co_KeyFile (bc_Cosigner cfg))) (ho_pem_Decode h)
         (co_KeyID (bc_Cosigner cfg)) (lg_Origin (bc_Log cfg)) = Inr cs"
    using assms l by (auto simp: startup_def split: sum.splits prod.splits)
  have x: "br_cfg b = cfg" "br_watcher b = OnCheckpoint (New_watcher (w_adapter (br_watcher b)) (SetCosignerID (bytes_of (lg_Origin (bc_Log cfg))) cs) (watcher_config cfg))"
    "br_issuer b = New_issuer (lg_Origin (bc_Log cfg)) (issuer_config cfg)"
    "bd_logOrigin (h_assertBld (br_tlog b)) = lg_Origin (bc_Log cfg)"
    "start_acme h cfg (SetCosignerID (bytes_of (lg_Origin (bc_Log cfg))) cs) = Inr (br_acme b)"
    using assms l n by (auto simp: startup_def Let_def OnCheckpoint_def New_watcher_def split: sum.splits prod.splits option.splits)
  from x(2) obtain a where w: "br_watcher b = OnCheckpoint (New_watcher a (SetCosignerID (bytes_of (lg_Origin (bc_Log cfg))) cs) (watcher_config cfg))"
    by blast
  then have "w_cosigner (br_watcher b) = SetCosignerID (bytes_of (lg_Origin (bc_Log cfg))) cs"
    by (simp add: OnCheckpoint_def New_watcher_def)
  with x(1,3-5) w cfg New_origin [OF n] show ?thesis by (intro that [of cfg0 cs a]) simp_all
qed

text \<open>
  What the components rely on: the intervals of the tickers are positive, a housekeeping that runs
  has all its retentions, batches are not empty, and one origin names the log everywhere.
\<close>

definition watcher_typed :: "Config \<Rightarrow> bool" where
  "watcher_typed c \<longleftrightarrow> 0 < cf_PollInterval c \<and> 0 < cf_RevocationPollInterval c \<and> 0 < cf_CheckpointInterval c \<and>
     0 < cf_BatchSize c \<and> 0 \<le> cf_HousekeepingInterval c \<and> 0 < cf_CheckpointKeepRecent c \<and> 0 < cf_EventKeepRecent c \<and>
     (cf_HousekeepingInterval c = 0 \<or> 0 < cf_StaleBundleRetention c \<and> 0 < cf_CheckpointRetention c \<and> 0 < cf_EventRetention c)"

definition issuer_typed :: "issuer_Config \<Rightarrow> bool" where
  "issuer_typed c \<longleftrightarrow> 0 < ic_BatchSize c \<and> 0 < ic_Concurrency c \<and> 0 < ic_StalenessThreshold c"

definition acme_typed :: "acme_Config \<Rightarrow> bool" where
  "acme_typed c \<longleftrightarrow> 0 < ac_OrderExpiry c \<and> 0 < ac_AssertionTimeout c \<and> 0 < ac_AssertionPollInterval c \<and>
     ac_ExternalURL c \<noteq> '''' \<and> ac_MTCBridgeURL c \<noteq> ''''"

definition same_origin :: "bridge \<Rightarrow> bool" where
  "same_origin b \<longleftrightarrow> (let o' = lg_Origin (bc_Log (br_cfg b)) in o' \<noteq> '''' \<and>
     cs_origin (w_cosigner (br_watcher b)) = o' \<and> cs_cosignerID (w_cosigner (br_watcher b)) = bytes_of o' \<and>
     bd_logOrigin (iss_builder (br_issuer b)) = o' \<and> bd_logOrigin (h_assertBld (br_tlog b)) = o')"

lemma watcher_defaults_typed: "watcher_typed (watcher_config (applyDefaults cfg))"
  by (simp add: watcher_typed_def watcher_config_def applyDefaults_def watcher_defaults_def Let_def)

lemma issuer_defaults_typed: "issuer_typed (issuer_config (applyDefaults cfg))"
  by (simp add: issuer_typed_def issuer_config_def applyDefaults_def issuer_defaults_def Let_def)

lemma acme_defaults_typed: "acme_typed (acme_config (applyDefaults cfg))"
  by (simp add: acme_typed_def acme_config_def applyDefaults_def acme_defaults_def Let_def)

lemma New_issuer_typed: "issuer_typed c \<Longrightarrow> iss_cfg (New_issuer o' c) = c"
  by (simp add: issuer_typed_def New_issuer_def Let_def)

lemma New_acme_typed: "acme_typed c \<Longrightarrow> sv_cfg (New_acme c lca cr cs lib) = c"
  by (simp add: acme_typed_def New_acme_def)

lemma start_acme_cfg:
  assumes "start_acme h (applyDefaults cfg) cs = Inr (Some s)"
  shows "sv_cfg s = acme_config (applyDefaults cfg)" "sv_cosigner s = cs"
  using assms New_acme_typed [OF acme_defaults_typed [of cfg]]
  by (auto simp: start_acme_def New_acme_def split: if_splits sum.splits)

lemma Run_typed: "watcher_typed (w_cfg (wd_w s)) \<Longrightarrow> Run cr ticks s \<noteq> None"
  by (auto simp: Run_def watcher_typed_def Let_def split: prod.splits sum.splits)

text \<open>
  C26. Whatever the configuration file says, a bridge that starts is well configured: the watcher,
  the issuer and the ACME server run with exactly the loaded values, which are in range, so that
  none of the defaults of their constructors applies and no ticker of the watcher panics, and all
  components name the log by one origin that is not empty.
\<close>

theorem startup_well_configured:
  assumes "startup h file d ca = (Inr b, d', ca')"
  shows "watcher_typed (w_cfg (br_watcher b)) \<and> w_cfg (br_watcher b) = watcher_config (br_cfg b) \<and>
    issuer_typed (iss_cfg (br_issuer b)) \<and> iss_cfg (br_issuer b) = issuer_config (br_cfg b) \<and>
    (\<forall>s\<in>set_option (br_acme b). acme_typed (sv_cfg s) \<and> sv_cfg s = acme_config (br_cfg b) \<and> sv_cosigner s = w_cosigner (br_watcher b)) \<and>
    same_origin b \<and> Run cr ticks \<lparr>wd_db = d', wd_ca = ca', wd_w = br_watcher b\<rparr> \<noteq> None"
proof -
  from assms obtain cfg0 ad cs where b: "br_cfg b = applyDefaults cfg0" "cs_origin cs = lg_Origin (bc_Log (br_cfg b))"
    "br_watcher b = OnCheckpoint (New_watcher ad (SetCosignerID (bytes_of (lg_Origin (bc_Log (br_cfg b)))) cs) (watcher_config (br_cfg b)))"
    "br_issuer b = New_issuer (lg_Origin (bc_Log (br_cfg b))) (issuer_config (br_cfg b))"
    "bd_logOrigin (h_assertBld (br_tlog b)) = lg_Origin (bc_Log (br_cfg b))"
    "start_acme h (br_cfg b) (w_cosigner (br_watcher b)) = Inr (br_acme b)"
    by (rule startup_result)
  have w: "w_cfg (br_watcher b) = watcher_config (br_cfg b)" by (simp add: b(3) OnCheckpoint_def New_watcher_def)
  have t: "watcher_typed (w_cfg (br_watcher b))" unfolding w b(1) by (rule watcher_defaults_typed)
  have i: "iss_cfg (br_issuer b) = issuer_config (br_cfg b)"
    unfolding b(4) by (rule New_issuer_typed) (simp add: b(1) issuer_defaults_typed)
  have i': "issuer_typed (iss_cfg (br_issuer b))" unfolding i b(1) by (rule issuer_defaults_typed)
  have a: "\<forall>s\<in>set_option (br_acme b). acme_typed (sv_cfg s) \<and> sv_cfg s = acme_config (br_cfg b) \<and> sv_cosigner s = w_cosigner (br_watcher b)"
    using start_acme_cfg [of h cfg0] b(6) acme_defaults_typed unfolding b(1) by (cases "br_acme b") auto
  have "lg_Origin (bc_Log (br_cfg b)) \<noteq> ''''" by (simp add: b(1) applyDefaults_def log_defaults_def)
  then have o: "same_origin b"
    using b(2,5) by (simp add: same_origin_def Let_def b(3,4) OnCheckpoint_def New_watcher_def SetCosignerID_def New_issuer_def)
  have "Run cr ticks \<lparr>wd_db = d', wd_ca = ca', wd_w = br_watcher b\<rparr> \<noteq> None"
    by (rule Run_typed) (simp add: t)
  with w t i i' a o show ?thesis by blast
qed

section \<open>The endpoints that are reached\<close>

lemma HasPrefix_iff: "HasPrefix s p \<longleftrightarrow> (\<exists>r. s = p @ r)"
  by (metis HasPrefix_append HasPrefix_def append_take_drop_id)

lemma Split_head: "Split sep q = x # y # zs \<Longrightarrow> HasPrefix q (x @ [sep])"
proof (induction q arbitrary: x)
  case (Cons c cs)
  then show ?case by (cases "Split sep cs") (auto simp: HasPrefix_def split: if_splits)
qed simp

lemma mux_values:
  "mux_target ''/admin'' = Some ToAdmin" "mux_target (''/admin/'' @ s) = Some ToAdmin" "mux_target ''/healthz'' = Some ToHealthz"
  "mux_target ''/tile'' = Some (ToRedirect ''/tile/'')" "mux_target ''/proof'' = Some (ToRedirect ''/proof/'')"
  "mux_target ''/assertion'' = Some (ToRedirect ''/assertion/'')" "mux_target ''/assertions'' = Some (ToRedirect ''/assertions/'')"
  "mux_target ''/landmarks'' = None" "mux_target (''/landmark/'' @ s) = None" "mux_target ''/checkpoint'' = Some ToTlog"
  "mux_target ''/revocation'' = Some ToTlog" "mux_target ''/proof/inclusion'' = Some ToTlog" "mux_target ''/proof/consistency'' = Some ToTlog"
  "mux_target ''/assertions/pending'' = Some ToTlog" "mux_target ''/assertions/stats'' = Some ToTlog"
  "mux_target (''/tile/'' @ s) = Some ToTlog" "mux_target (''/assertion/'' @ s) = Some ToTlog"
  by (simp_all add: mux_target_def HasPrefix_def)

lemma route_prefixes:
  assumes "route h p \<noteq> None" "p = CHR ''/'' # q" "p \<noteq> ''/landmarks''" "\<not> HasPrefix p ''/landmark/''"
  shows "mux_target p = Some ToTlog"
proof -
  have tl: "tl (Split CHR ''/'' p) = Split CHR ''/'' q" by (simp add: assms(2))
  have seg: "\<exists>s. p = CHR ''/'' # x @ ''/'' @ s" if n: "length (Split CHR ''/'' q) = n" "2 \<le> n" "Split CHR ''/'' q ! 0 = x" for x n
  proof -
    obtain y zs where "Split CHR ''/'' q = x # y # zs"
      using n by (cases "Split CHR ''/'' q" rule: remdups_adj.cases) auto
    from Split_head [OF this] show ?thesis by (simp add: assms(2) HasPrefix_iff)
  qed
  have "p \<in> {''/checkpoint'', ''/revocation'', ''/proof/inclusion'', ''/proof/consistency'', ''/assertions/pending'', ''/assertions/stats''} \<or>
      (\<exists>s. p = ''/tile/'' @ s) \<or> (\<exists>s. p = ''/assertion/'' @ s)"
    using assms(1,3,4) seg [of 2 "''assertion''"] seg [of 3 "''assertion''"] seg [of 2 "''landmark''"]
    unfolding route_def tl Let_def HasPrefix_iff by (simp split: if_splits)
  then show ?thesis by (elim insertE disjE exE emptyE) (simp_all only: mux_values)
qed

lemma mux_landmark: "p = ''/landmarks'' \<or> HasPrefix p ''/landmark/'' \<Longrightarrow> mux_target p = None"
  unfolding HasPrefix_iff by (elim disjE exE) (simp_all only: mux_values)

definition dispatched :: "(request \<Rightarrow> string \<Rightarrow> response) \<Rightarrow> handler \<Rightarrow> int \<Rightarrow> Handler \<Rightarrow> handler" where
  "dispatched redirect adm clock h r d =
     (case mux_target (rq_Path r) of
        Some (ToRedirect p) \<Rightarrow> (Some (redirect r p), d)
      | Some ToTlog \<Rightarrow> ServeHTTP h r d
      | Some ToAdmin \<Rightarrow> adm r d
      | Some ToHealthz \<Rightarrow> (Some (if rq_Method r \<in> {''GET'', ''HEAD''} then healthz clock else http_Error ''Method Not Allowed'' 405), d)
      | None \<Rightarrow> (Some (http_Error ''404 page not found'' 404), d))"

lemma if_targets:
  assumes "(if l then Some ToTlog else if a then Some ToAdmin else if z then Some ToHealthz else if dir then Some (ToRedirect q) else None) = Some t"
  shows "t = ToAdmin \<Longrightarrow> a" "t = ToHealthz \<Longrightarrow> z" "t = ToRedirect p' \<Longrightarrow> dir \<and> p' = q"
  using assms by (simp_all split: if_splits)

lemma mux_only:
  assumes "mux_target p = Some t"
  shows "t = ToAdmin \<Longrightarrow> p = ''/admin'' \<or> HasPrefix p ''/admin/''" "t = ToHealthz \<Longrightarrow> p = ''/healthz''"
    "t = ToRedirect p' \<Longrightarrow> p \<in> {''/tile'', ''/proof'', ''/assertion'', ''/assertions''} \<and> p' = p @ ''/''"
  by (fact if_targets [OF assms [unfolded mux_target_def]])+

lemma mux_patterns:
  "mux_target p = Some ToAdmin \<longleftrightarrow> p = ''/admin'' \<or> HasPrefix p ''/admin/''"
  "mux_target p = Some ToHealthz \<longleftrightarrow> p = ''/healthz''"
  "mux_target p = Some (ToRedirect p') \<longleftrightarrow> p \<in> {''/tile'', ''/proof'', ''/assertion'', ''/assertions''} \<and> p' = p @ ''/''"
proof -
  show "mux_target p = Some ToAdmin \<longleftrightarrow> p = ''/admin'' \<or> HasPrefix p ''/admin/''"
    using mux_only(1) mux_values(1,2) unfolding HasPrefix_iff by blast
  show "mux_target p = Some ToHealthz \<longleftrightarrow> p = ''/healthz''" using mux_only(2) mux_values(3) by blast
  have "mux_target p = Some (ToRedirect p')" if d: "p \<in> {''/tile'', ''/proof'', ''/assertion'', ''/assertions''} \<and> p' = p @ ''/''"
  proof -
    from d have "mux_target p = Some (ToRedirect (p @ ''/''))"
      by (elim conjE insertE emptyE) (simp_all only: mux_values append.simps)
    with d show ?thesis by (simp only: simp_thms)
  qed
  then show "mux_target p = Some (ToRedirect p') \<longleftrightarrow> p \<in> {''/tile'', ''/proof'', ''/assertion'', ''/assertions''} \<and> p' = p @ ''/''"
    by (intro iffI mux_only(3) [OF _ refl])
qed

lemma dispatched_by:
  assumes "landmark \<Longrightarrow> t = None" "routed \<Longrightarrow> \<not> landmark \<Longrightarrow> t = Some ToTlog" "\<not> routed \<Longrightarrow> serve = none"
    and "t = Some ToAdmin \<longleftrightarrow> a" "t = Some ToHealthz \<longleftrightarrow> z" "\<And>p'. t = Some (ToRedirect p') \<longleftrightarrow> dir \<and> p' = p2"
  shows "(case t of Some (ToRedirect p') \<Rightarrow> red p' | Some ToTlog \<Rightarrow> serve | Some ToAdmin \<Rightarrow> adm | Some ToHealthz \<Rightarrow> hz | None \<Rightarrow> none) =
    (if landmark then none else if routed then serve else if a then adm else if z then hz else if dir then red p2 else none)"
proof (cases t)
  case (Some u)
  have d: "t = Some (ToRedirect p2) \<longleftrightarrow> dir" using assms(6) [of p2] by (simp only: simp_thms)
  show ?thesis
  proof (cases u)
    case (ToRedirect p')
    with assms(6) [of p'] Some have "dir" "p' = p2" by simp_all
    with assms(1,2,4,5) Some ToRedirect show ?thesis by auto
  qed (use assms(1-5) d Some in auto)
next
  case None
  with assms(1-5) assms(6) [of p2] show ?thesis by auto
qed

lemma ServeHTTP_unrouted: "route h (rq_Path r) = None \<Longrightarrow> ServeHTTP h r d = (Some (http_Error ''404 page not found'' 404), d)"
  by (simp add: ServeHTTP_def)

text \<open>
  C27. What the server does with every request whose path starts with a slash and contains no percent escapes:
  a path that is not clean is redirected; the landmarks get 404 although the handler of the log
  registers them; every other path that this handler has an endpoint for is passed to it; the admin paths and
  the health check are served; the bare names of the directories of the log are redirected; and
  everything else gets 404, also the paths below these directories that only the handler of the log refuses.
\<close>

theorem bridge_routes:
  assumes "rq_Path r = CHR ''/'' # q"
  shows "bridge_ServeHTTP redirect adm clock h r d =
    (let p = rq_Path r; p' = cleanPath p in
     if rq_Method r \<noteq> ''CONNECT'' \<and> p' \<noteq> p
     then (Some (redirect r (if p' \<in> {''/tile'', ''/proof'', ''/assertion'', ''/assertions''} then p' @ ''/'' else p')), d)
     else if p = ''/landmarks'' \<or> HasPrefix p ''/landmark/'' then (Some (http_Error ''404 page not found'' 404), d)
     else if route h p \<noteq> None then ServeHTTP h r d
     else if p = ''/admin'' \<or> HasPrefix p ''/admin/'' then adm r d
     else if p = ''/healthz''
     then (Some (if rq_Method r \<in> {''GET'', ''HEAD''} then healthz clock else http_Error ''Method Not Allowed'' 405), d)
     else if p \<in> {''/tile'', ''/proof'', ''/assertion'', ''/assertions''} then (Some (redirect r (p @ ''/'')), d)
     else (Some (http_Error ''404 page not found'' 404), d))"
proof -
  let ?p = "rq_Path r"
  have route: "mux_target ?p = Some ToTlog" if "route h ?p \<noteq> None" "\<not> (?p = ''/landmarks'' \<or> HasPrefix ?p ''/landmark/'')"
    using route_prefixes [OF that(1) assms] that(2) by blast
  show ?thesis
  proof (cases "rq_Method r \<noteq> ''CONNECT'' \<and> cleanPath ?p \<noteq> ?p")
    case True
    obtain t where t: "mux_target (cleanPath ?p) = t" by blast
    note m = mux_patterns(3) [of "cleanPath ?p", unfolded t]
    from True have "bridge_ServeHTTP redirect adm clock h r d =
        (Some (redirect r (case t of Some (ToRedirect p') \<Rightarrow> p' | _ \<Rightarrow> cleanPath ?p)), d)"
      by (simp add: bridge_ServeHTTP_def t split: option.split target.split)
    moreover have "(case t of Some (ToRedirect p') \<Rightarrow> p' | _ \<Rightarrow> cleanPath ?p) =
        (if cleanPath ?p \<in> {''/tile'', ''/proof'', ''/assertion'', ''/assertions''} then cleanPath ?p @ ''/'' else cleanPath ?p)"
      using m by (simp only: if_split split: option.split target.split) blast
    ultimately show ?thesis using True by (simp only: Let_def if_True simp_thms)
  next
    case False
    then have "(if rq_Method r = ''CONNECT'' then ?p else cleanPath ?p) = ?p" by presburger
    then have b: "bridge_ServeHTTP redirect adm clock h r d = dispatched redirect adm clock h r d"
      unfolding bridge_ServeHTTP_def dispatched_def Let_def by (simp split: option.split target.split)
    show ?thesis
      unfolding b dispatched_def Let_def if_not_P [OF False]
      by (rule dispatched_by [OF mux_landmark route _ mux_patterns]) (simp_all only: not_not not_False_eq_True ServeHTTP_unrouted)
  qed
qed

text \<open>
  With a local CA whose validity is left to its default, the ACME server of the bridge issues
  certificates with the validity of the entries it logs.
\<close>

lemma startup_mtc_server:
  assumes "startup h file d ca = (Inr b, d', ca')" "br_acme b = Some s" "lo_Enabled (bc_LocalCA (br_cfg b))" "lo_Validity (bc_LocalCA (br_cfg b)) = 0"
  obtains lca where "sv_localCA s = Some lca" "ca_validity lca = ninety_days"
proof -
  have "start_acme h (br_cfg b) (w_cosigner (br_watcher b)) = Inr (Some s)"
    using startup_result [OF assms(1)] assms(2) by metis
  then obtain lca where l: "New_localca (ho_ca_tools h) (local_ca_config (br_cfg b)) (ho_files h) = Inr lca" "sv_localCA s = Some lca"
    using assms(3) by (auto simp: start_acme_def New_acme_def split: if_splits sum.splits)
  then have "ca_validity lca = defaultValidity"
    using assms(4) by (auto simp: New_localca_def local_ca_config_def Let_def split: sum.splits option.splits prod.splits)
  then show ?thesis using that l(2) by (simp add: defaultValidity_def ninety_days_def second_def)
qed

section \<open>A start\<close>

text \<open>A configuration that leaves nearly everything to the defaults, with a negative interval.\<close>

definition demo_config :: bridge_Config where
  "demo_config = \<lparr>bc_Log = \<lparr>lg_Name = '''', lg_Origin = '''', lg_BatchSize = 0\<rparr>,
     bc_StateDB = \<lparr>pg_Host = '''', pg_Port = 0, pg_Database = '''', pg_Username = '''', pg_Password = '''', pg_SSLMode = '''',
       pg_MaxOpenConns = 0, pg_MaxIdleConns = 0, pg_ConnMaxLifetime = 0\<rparr>,
     bc_CADB = \<lparr>my_Host = '''', my_Port = 0, my_Database = '''', my_Username = '''', my_Password = '''', my_IssuerID = ''''\<rparr>,
     bc_HTTP = \<lparr>hc_Addr = '''', hc_ReadTimeout = 0, hc_WriteTimeout = 0, hc_TileCacheTTL = 0, hc_CheckpointCacheTTL = 0\<rparr>,
     bc_Watcher = \<lparr>wa_PollInterval = -1, wa_RevocationPollInterval = 0, wa_CheckpointInterval = 0, wa_BatchSize = 0,
       wa_HousekeepingInterval = 1, wa_StaleBundleRetention = 0, wa_CheckpointRetention = 0, wa_CheckpointKeepRecent = 0,
       wa_EventRetention = 0, wa_EventKeepRecent = 0\<rparr>,
     bc_Cosigner = \<lparr>co_KeyFile = ''key'', co_KeyID = '''', co_Algorithm = '''', co_CosignerID = 0\<rparr>,
     bc_AdditionalCosigners = [], bc_Logging = \<lparr>ll_Level = '''', ll_Format = ''''\<rparr>,
     bc_AssertionIssuer = \<lparr>ai_Enabled = None, ai_BatchSize = 0, ai_Concurrency = 0, ai_StalenessThreshold = 0, ai_Webhooks = []\<rparr>,
     bc_ACME = \<lparr>am_Enabled = True, am_Addr = '''', am_ExternalURL = '''', am_CAURL = '''', am_CAAPIKey = '''', am_CAID = '''',
       am_TemplateID = '''', am_MTCBridgeURL = '''', am_OrderExpiry = 0, am_AssertionTimeout = 0, am_AssertionPollInterval = 0,
       am_AutoApproveChallenge = False, am_TLSCert = '''', am_TLSKey = ''''\<rparr>,
     bc_LocalCA = \<lparr>lo_Enabled = False, lo_MTCMode = False, lo_KeyFile = '''', lo_CertFile = '''', lo_Validity = 0,
       lo_Organization = '''', lo_Country = ''''\<rparr>\<rparr>"

definition demo_driver :: driver where
  "demo_driver = \<lparr>sql_Open = (\<lambda>_. None), sql_Ping = (\<lambda>_. None)\<rparr>"

definition demo_tools :: ca_tools where
  "demo_tools = \<lparr>ReadFile = (\<lambda>p fs. case fs p of None \<Rightarrow> Inl (Errorf ''no such file'') | Some b \<Rightarrow> Inr b),
     WriteFile = (\<lambda>p b fs. (None, fs(p \<mapsto> b))), pem_Decode = (\<lambda>b. Some ('''', b)), pem_EncodeToMemory = snd,
     ParseECPrivateKey = Inr, MarshalECPrivateKey = Inr, CreateSelfSigned = (\<lambda>t k. Inr k), ParseCertificate = (\<lambda>d. Inl (Errorf ''''))\<rparr>"

definition demo_host :: host where
  "demo_host = \<lparr>ho_ReadFile = (\<lambda>_. Inr []), ho_ReadConfig = (\<lambda>_. Inr ''''), ho_LookupEnv = (\<lambda>_. None),
     ho_yaml_Unmarshal = (\<lambda>_. Inr demo_config), ho_pgx = demo_driver, ho_mysql = demo_driver,
     ho_pem_Decode = (\<lambda>_. Some (''ED25519 PRIVATE KEY'', replicate 32 0)), ho_crypto = toy_crypto, ho_ca_tools = demo_tools,
     ho_files = (\<lambda>_. None), ho_acme_lib = sv_lib demo_mtc_server, ho_parse_cert = (\<lambda>_. Inl ErrDB), ho_parse_template = None\<rparr>"

lemma stmt_noop: "db_sched d = [] \<Longrightarrow> stmt (\<lambda>d. Inr ((), d)) d = (Inr (), d)"
  by (cases d) (simp add: stmt_def)

lemma migrate_ok: "db_sched d = [] \<Longrightarrow> migrate_from n d = (Inr (), d)"
  by (induction n) (simp_all add: stmt_noop)

lemma demo_startup:
  "\<exists>b. startup demo_host ''config.yaml'' empty_db \<lparr>ca_rows = [], cert_rows = [], ca_sched = []\<rparr> =
       (Inr b, empty_db, \<lparr>ca_rows = [], cert_rows = [], ca_sched = []\<rparr>) \<and>
     br_cfg b = applyDefaults demo_config \<and> br_acme b \<noteq> None"
proof -
  have load: "Load (ho_ReadConfig demo_host) (ho_LookupEnv demo_host) (ho_yaml_Unmarshal demo_host) ''config.yaml'' = Inr (applyDefaults demo_config)"
    by (simp add: Load_def demo_host_def)
  have "Migrate empty_db = (Inr (), empty_db)" by (simp add: Migrate_def migrate_ok empty_db_def)
  moreover obtain pl where "New_store (ho_pgx demo_host) (bc_StateDB (applyDefaults demo_config)) = Inr pl"
    by (simp add: New_store_def demo_host_def demo_driver_def)
  moreover obtain a where "New_cadb (ho_mysql demo_host) (bc_CADB (applyDefaults demo_config)) \<lparr>ca_rows = [], cert_rows = [], ca_sched = []\<rparr> =
      (Inr a, \<lparr>ca_rows = [], cert_rows = [], ca_sched = []\<rparr>)"
    by (simp add: New_cadb_def demo_host_def demo_driver_def loadCAs_def ca_query_def)
  moreover obtain cs where "New (ho_crypto demo_host) (ho_ReadFile demo_host (co_KeyFile (bc_Cosigner (applyDefaults demo_config)))) (ho_pem_Decode demo_host)
         (co_KeyID (bc_Cosigner (applyDefaults demo_config))) (lg_Origin (bc_Log (applyDefaults demo_config))) = Inr cs"
    by (simp add: New_def demo_host_def)
  moreover obtain s where "start_acme demo_host (applyDefaults demo_config)
      (SetCosignerID (bytes_of (lg_Origin (bc_Log (applyDefaults demo_config)))) cs) = Inr (Some s)"
    by (simp add: start_acme_def applyDefaults_def acme_defaults_def demo_config_def)
  moreover have "ho_parse_template demo_host = None" by (simp add: demo_host_def)
  ultimately show ?thesis using load by (simp add: startup_def Let_def)
qed

theorem startup_well_configured_witness:
  "\<exists>b. startup demo_host ''config.yaml'' empty_db \<lparr>ca_rows = [], cert_rows = [], ca_sched = []\<rparr> =
       (Inr b, empty_db, \<lparr>ca_rows = [], cert_rows = [], ca_sched = []\<rparr>) \<and>
     watcher_typed (w_cfg (br_watcher b)) \<and> cf_PollInterval (w_cfg (br_watcher b)) = seconds 10 \<and>
     (\<exists>s. br_acme b = Some s \<and> acme_typed (sv_cfg s)) \<and> same_origin b"
proof -
  obtain b where b: "startup demo_host ''config.yaml'' empty_db \<lparr>ca_rows = [], cert_rows = [], ca_sched = []\<rparr> =
       (Inr b, empty_db, \<lparr>ca_rows = [], cert_rows = [], ca_sched = []\<rparr>)" "br_cfg b = applyDefaults demo_config" "br_acme b \<noteq> None"
    using demo_startup by blast
  have s: "watcher_typed (w_cfg (br_watcher b))" "w_cfg (br_watcher b) = watcher_config (br_cfg b)" "same_origin b"
    "\<forall>s\<in>set_option (br_acme b). acme_typed (sv_cfg s)"
    using startup_well_configured [OF b(1), of toy_crypto "[]"] by blast+
  have "cf_PollInterval (w_cfg (br_watcher b)) = seconds 10"
    unfolding s(2) b(2) by (simp add: watcher_config_def applyDefaults_def watcher_defaults_def demo_config_def Let_def)
  moreover obtain a where "br_acme b = Some a" using b(3) by (cases "br_acme b") simp_all
  moreover have "acme_typed (sv_cfg a)" using s(4) \<open>br_acme b = Some a\<close> by auto
  ultimately show ?thesis using b(1) s(1,3) by (intro exI [of _ b]) simp
qed

theorem bridge_routes_witness:
  "route demo_handler ''/landmarks'' \<noteq> None \<and>
   bridge_ServeHTTP (\<lambda>_ _. internal_error) (\<lambda>r d. (None, d)) 0 demo_handler (get_request ''/landmarks'' (\<lambda>_. '''')) empty_db =
     (Some (http_Error ''404 page not found'' 404), empty_db) \<and>
   bridge_ServeHTTP (\<lambda>_ _. internal_error) (\<lambda>r d. (None, d)) 0 demo_handler (get_request ''/proof/inclusion'' (\<lambda>_. '''')) empty_db =
     ServeHTTP demo_handler (get_request ''/proof/inclusion'' (\<lambda>_. '''')) empty_db \<and>
   bridge_ServeHTTP (\<lambda>_ p. octets p []) (\<lambda>r d. (None, d)) 0 demo_handler (get_request ''/tile//0'' (\<lambda>_. '''')) empty_db =
     (Some (octets ''/tile/0'' []), empty_db)"
proof -
  have r: "route demo_handler ''/landmarks'' \<noteq> None" "route demo_handler ''/proof/inclusion'' \<noteq> None"
    by (simp_all add: route_def HasPrefix_def Let_def)
  have c: "cleanPath ''/landmarks'' = ''/landmarks''" "cleanPath ''/proof/inclusion'' = ''/proof/inclusion''" "cleanPath ''/tile//0'' = ''/tile/0''"
    by (simp_all add: cleanPath_def clean_segment_def)
  show ?thesis
    using r c bridge_routes [of "get_request ''/landmarks'' (\<lambda>_. '''')" "''landmarks''"]
      bridge_routes [of "get_request ''/proof/inclusion'' (\<lambda>_. '''')" "''proof/inclusion''"]
      bridge_routes [of "get_request ''/tile//0'' (\<lambda>_. '''')" "''tile//0''"]
    by (simp add: get_request_def HasPrefix_def Let_def)
qed


end
