(* ===== verification/Viz.thy ===== *)
theory Viz
  imports StoreTables Certutil Cadb Asn1Values
begin

text \<open>
  \<open>src/internal/store/store.go\<close>, last part: the metadata of the certificates of the log, which is
  filled in from the entries, and the aggregations over it that the dashboard shows. Times are
  nanoseconds since 1970. Text columns are ordered bytewise.
\<close>

section \<open>Classification\<close>

definition isPQAlgorithm :: "string \<Rightarrow> bool" where
  "isPQAlgorithm keyAlgo =
     (\<exists>p\<in>set [''ML-DSA'', ''ML-KEM'', ''SLH-DSA'', ''DILITHIUM'', ''KYBER'', ''SPHINCS'', ''FALCON'']. Contains (ToUpper keyAlgo) p)"

text \<open>The start of the six hours of the day in UTC; days have no leap seconds.\<close>

definition batchWindowTime :: "int \<Rightarrow> int" where
  "batchWindowTime t = t - t mod (6 * 3600 * 1000000000)"

definition vizCAColors :: "string list" where
  "vizCAColors = [''#34d399'', ''#38bdf8'', ''#818cf8'', ''#fbbf24'', ''#fb923c'', ''#f472b6'', ''#a78bfa'', ''#22d3ee'',
     ''#f87171'', ''#84cc16'', ''#e879f9'', ''#2dd4bf'']"

text \<open>The characters of a name, as the numbers that \<open>range\<close> yields; names are ASCII here.\<close>

definition vizCAColor :: "string \<Rightarrow> string" where
  "vizCAColor name =
     (let h = foldl (\<lambda>h c. h * 31 + of_nat (of_char c)) (0 :: 32 word) name in vizCAColors ! (unat h mod length vizCAColors))"

text \<open>\<open>Format("Jan 2 15:04")\<close>.\<close>

definition month_name :: "nat \<Rightarrow> string" where
  "month_name m = [''Jan'', ''Feb'', ''Mar'', ''Apr'', ''May'', ''Jun'', ''Jul'', ''Aug'', ''Sep'', ''Oct'', ''Nov'', ''Dec''] ! (m - 1)"

definition two_digits :: "nat \<Rightarrow> string" where
  "two_digits n = [digit (n div 10), digit (n mod 10)]"

definition batch_label :: "int \<Rightarrow> string" where
  "batch_label t = (let c = time_UTC t in
     month_name (t_month c) @ '' '' @ dec_nat (t_day c) @ '' '' @ two_digits (t_hour c) @ '':'' @ two_digits (t_min c))"

section \<open>Filling in the metadata\<close>

text \<open>The entries of certificates that have no metadata yet, at most a thousand.\<close>

definition has_metadata :: "db \<Rightarrow> int \<Rightarrow> bool" where
  "has_metadata d i \<longleftrightarrow> (\<exists>m\<in>set (cert_metadata d). cm_EntryIdx m = i)"

definition unpopulated :: "db \<Rightarrow> LogEntry list" where
  "unpopulated d = take 1000 (sort_key le_Index (filter (\<lambda>e. le_EntryType e = 1 \<and> \<not> has_metadata d (le_Index e)) (log_entries d)))"

definition meta_row :: "(string \<Rightarrow> string option) \<Rightarrow> LogEntry \<Rightarrow> CertMeta \<Rightarrow> CertMetadata" where
  "meta_row caNames e meta =
     \<lparr>cm_EntryIdx = le_Index e, cm_CACertID = le_CACertID e,
      cm_CAName = (case caNames (le_CACertID e) of Some name \<Rightarrow> if name \<noteq> '''' then name else le_CACertID e | None \<Rightarrow> le_CACertID e),
      cm_KeyAlgorithm = me_KeyAlgorithm meta, cm_SigAlgorithm = me_SignatureAlgorithm meta, cm_CommonName = me_CommonName meta,
      cm_IsPQ = isPQAlgorithm (me_KeyAlgorithm meta), cm_BatchWindow = batchWindowTime (le_CreatedAt e), cm_CreatedAt = le_CreatedAt e\<rparr>"

text \<open>An entry that does not parse is skipped; \<open>None\<close> is the panic of \<open>ParseLogEntry\<close>.\<close>

primrec pending_rows :: "x509_parser \<Rightarrow> (string \<Rightarrow> string option) \<Rightarrow> LogEntry list \<Rightarrow> CertMetadata list option" where
  "pending_rows parse caNames [] = Some []"
| "pending_rows parse caNames (e # es) =
     (case ParseLogEntry parse (le_EntryData e) of
        None \<Rightarrow> None
      | Some (Some meta, _, None) \<Rightarrow> map_option ((#) (meta_row caNames e meta)) (pending_rows parse caNames es)
      | Some _ \<Rightarrow> pending_rows parse caNames es)"

definition insert_metadata :: "CertMetadata \<Rightarrow> db \<Rightarrow> goerr + db" where
  "insert_metadata m d =
     (if has_metadata d (cm_EntryIdx m) then Inr d
      else if \<exists>e\<in>set (log_entries d). le_Index e = cm_EntryIdx m then Inr (d\<lparr>cert_metadata := cert_metadata d @ [m]\<rparr>)
      else Inl ErrDB)"

definition PopulateCertMetadata :: "x509_parser \<Rightarrow> (string \<Rightarrow> string option) \<Rightarrow> db \<Rightarrow> (goerr + int) option \<times> db" where
  "PopulateCertMetadata parse caNames d =
     (case wrap ''store.PopulateCertMetadata: query: %w'' (query (\<lambda>d. Inr (unpopulated d))) d of
        (Inl err, d1) \<Rightarrow> (Some (Inl err), d1)
      | (Inr rows, d1) \<Rightarrow>
        (case pending_rows parse caNames rows of
           None \<Rightarrow> (None, d1)
         | Some pending \<Rightarrow>
           if pending = [] then (Some (Inr 0), d1)
           else (case tx (
                io_bind (wrap ''store.PopulateCertMetadata: begin: %w'' noop) (\<lambda>_.
                io_bind (wrap ''store.PopulateCertMetadata: prepare: %w'' noop) (\<lambda>_.
                io_bind (for_each (\<lambda>m. wrap ''store.PopulateCertMetadata: insert idx %d: %w'' (exec (insert_metadata m))) pending) (\<lambda>_.
                wrap ''store.PopulateCertMetadata: commit: %w'' noop)))) d1 of
                (Inl err, d2) \<Rightarrow> (Some (Inl err), d2)
              | (Inr _, d2) \<Rightarrow> (Some (Inr (int (length pending))), d2))))"

section \<open>Queries\<close>

definition is_revoked :: "db \<Rightarrow> int \<Rightarrow> bool" where
  "is_revoked d i \<longleftrightarrow> (\<exists>r\<in>set (revoked_indices d). ri_EntryIdx r = i)"

record SubtreeLeafInfo =
  sl_EntryIdx :: int
  sl_CommonName :: string
  sl_CAName :: string
  sl_KeyAlgorithm :: string
  sl_IsPQ :: bool
  sl_Revoked :: bool

definition GetSubtreeLeafInfo :: "int \<Rightarrow> int \<Rightarrow> SubtreeLeafInfo list io" where
  "GetSubtreeLeafInfo startIdx endIdx = wrap ''store.GetSubtreeLeafInfo: %w'' (query (\<lambda>d. Inr (
     map (\<lambda>m. \<lparr>sl_EntryIdx = cm_EntryIdx m, sl_CommonName = cm_CommonName m, sl_CAName = cm_CAName m,
          sl_KeyAlgorithm = cm_KeyAlgorithm m, sl_IsPQ = cm_IsPQ m, sl_Revoked = is_revoked d (cm_EntryIdx m)\<rparr>)
       (sort_key cm_EntryIdx (filter (\<lambda>m. startIdx \<le> cm_EntryIdx m \<and> cm_EntryIdx m < endIdx) (cert_metadata d))))))"

definition GetCertLocation :: "int \<Rightarrow> (string \<times> int \<times> string) io" where
  "GetCertLocation idx = wrap ''store.GetCertLocation: %w''
     (query_row (\<lambda>d. map (\<lambda>m. (cm_CAName m, cm_BatchWindow m, cm_KeyAlgorithm m)) (filter (\<lambda>m. cm_EntryIdx m = idx) (cert_metadata d))))"

text \<open>The rows of certificates (the null entry has index 0) and the assertion bundle joined to one.\<close>

definition viz_metadata :: "db \<Rightarrow> CertMetadata list" where
  "viz_metadata d = filter (\<lambda>m. cm_EntryIdx m > 0) (cert_metadata d)"

definition bundle_of :: "db \<Rightarrow> int \<Rightarrow> AssertionBundle option" where
  "bundle_of d i = find (\<lambda>b. ab_EntryIdx b = i) (assertion_bundles d)"

definition is_fresh :: "db \<Rightarrow> int \<Rightarrow> bool" where
  "is_fresh d i = (case bundle_of d i of Some b \<Rightarrow> \<not> ab_Stale b | None \<Rightarrow> False)"

definition is_stale :: "db \<Rightarrow> int \<Rightarrow> bool" where
  "is_stale d i = (case bundle_of d i of Some b \<Rightarrow> ab_Stale b | None \<Rightarrow> False)"

definition count_idx :: "(int \<Rightarrow> bool) \<Rightarrow> CertMetadata list \<Rightarrow> int" where
  "count_idx P ms = int (length (filter (\<lambda>m. P (cm_EntryIdx m)) ms))"

subsection \<open>The hierarchy\<close>

text \<open>The seven counters of a node; they are added field by field.\<close>

datatype viz_counts = Counts (vc_Cert: int) (vc_Revoked: int) (vc_PQ: int) (vc_Classical: int) (vc_Fresh: int) (vc_Stale: int) (vc_Missing: int)

instantiation viz_counts :: comm_monoid_add
begin

definition zero_viz_counts :: viz_counts where
  "zero_viz_counts = Counts 0 0 0 0 0 0 0"

definition plus_viz_counts :: "viz_counts \<Rightarrow> viz_counts \<Rightarrow> viz_counts" where
  "plus_viz_counts a b = Counts (vc_Cert a + vc_Cert b) (vc_Revoked a + vc_Revoked b) (vc_PQ a + vc_PQ b) (vc_Classical a + vc_Classical b)
     (vc_Fresh a + vc_Fresh b) (vc_Stale a + vc_Stale b) (vc_Missing a + vc_Missing b)"

instance
  by standard (simp_all add: zero_viz_counts_def plus_viz_counts_def)

end

text \<open>A group of the query: CA, batch window, algorithm, whether it is post-quantum, and its counters.\<close>

record viz_row =
  vr_CAName :: string
  vr_BatchWin :: int
  vr_KeyAlgo :: string
  vr_IsPQ :: bool
  vr_Counts :: viz_counts

definition group_key :: "CertMetadata \<Rightarrow> string \<times> int \<times> string \<times> bool" where
  "group_key m = (cm_CAName m, cm_BatchWindow m, cm_KeyAlgorithm m, cm_IsPQ m)"

definition group_row :: "db \<Rightarrow> string \<times> int \<times> string \<times> bool \<Rightarrow> viz_row" where
  "group_row d k =
     (case k of (ca, win, algo, pq) \<Rightarrow>
      let ms = filter (\<lambda>m. group_key m = k) (viz_metadata d); n = int (length ms) in
      \<lparr>vr_CAName = ca, vr_BatchWin = win, vr_KeyAlgo = algo, vr_IsPQ = pq,
       vr_Counts = Counts n (count_idx (is_revoked d) ms) (if pq then n else 0) (if pq then 0 else n)
         (count_idx (is_fresh d) ms) (count_idx (is_stale d) ms) (count_idx (\<lambda>i. bundle_of d i = None) ms)\<rparr>)"

definition row_before :: "viz_row \<Rightarrow> viz_row \<Rightarrow> bool" where
  "row_before a b \<longleftrightarrow> id_less (vr_CAName a) (vr_CAName b) \<or> vr_CAName a = vr_CAName b \<and>
     (vr_BatchWin a > vr_BatchWin b \<or> vr_BatchWin a = vr_BatchWin b \<and> vc_Cert (vr_Counts a) > vc_Cert (vr_Counts b))"

fun insert_row :: "viz_row \<Rightarrow> viz_row list \<Rightarrow> viz_row list" where
  "insert_row r [] = [r]"
| "insert_row r (x # xs) = (if row_before r x then r # x # xs else x # insert_row r xs)"

definition viz_groups :: "db \<Rightarrow> viz_row list" where
  "viz_groups d = foldr insert_row (map (group_row d) (remdups (map group_key (viz_metadata d)))) []"

text \<open>
  A node of the hierarchy. The maps of the code find the node of a CA and the node of a batch
  label below it; here they are found among the children by their names.
\<close>

datatype VizSummary = VizSummary (vs_Name: string) (vs_BatchKey: "int option") (vs_Level: string) (vs_Counts: viz_counts)
  (vs_Children: "VizSummary list") (vs_Color: string)

fun at_child :: "string \<Rightarrow> VizSummary \<Rightarrow> (VizSummary \<Rightarrow> VizSummary) \<Rightarrow> VizSummary list \<Rightarrow> VizSummary list" where
  "at_child name fresh f [] = [f fresh]"
| "at_child name fresh f (n # ns) = (if vs_Name n = name then f n # ns else n # at_child name fresh f ns)"

fun grown :: "viz_counts \<Rightarrow> (VizSummary list \<Rightarrow> VizSummary list) \<Rightarrow> VizSummary \<Rightarrow> VizSummary" where
  "grown c f (VizSummary name key level counts children color) = VizSummary name key level (counts + c) (f children) color"

definition add_viz_row :: "VizSummary \<Rightarrow> viz_row \<Rightarrow> VizSummary" where
  "add_viz_row root r =
     (let c = vr_Counts r; caName = vr_CAName r; color = vizCAColor caName; batchLabel = batch_label (vr_BatchWin r);
          ca = VizSummary caName None ''ca'' 0 [] color;
          batch = VizSummary batchLabel (Some (vr_BatchWin r)) ''batch'' 0 [] color;
          algo = VizSummary (vr_KeyAlgo r) None ''algo'' c [] color
      in grown c (at_child caName ca (grown c (at_child batchLabel batch (grown c (\<lambda>ns. ns @ [algo]))))) root)"

definition GetVizSummary :: "VizSummary io" where
  "GetVizSummary = wrap ''store.GetVizSummary: %w''
     (query (\<lambda>d. Inr (foldl add_viz_row (VizSummary ''All CAs'' None ''root'' 0 [] '''') (viz_groups d))))"

subsection \<open>Certificates and statistics\<close>

record VizCertificate =
  vz_Index :: int
  vz_SerialHex :: string
  vz_CommonName :: string
  vz_CAName :: string
  vz_KeyAlgorithm :: string
  vz_IsPQ :: bool
  vz_BatchWindow :: string
  vz_CreatedAt :: int
  vz_Revoked :: bool

text \<open>
  The conditions are put together from the parameters that are not empty; the server reads the
  batch window as a timestamp, which may fail.
\<close>

definition viz_where :: "(string \<Rightarrow> int option) \<Rightarrow> string \<Rightarrow> string \<Rightarrow> string \<Rightarrow> db \<Rightarrow> goerr + CertMetadata list" where
  "viz_where timestamptz caName batchWin algo d =
     (let ms = filter (\<lambda>m. (caName = '''' \<or> cm_CAName m = caName) \<and> (algo = '''' \<or> cm_KeyAlgorithm m = algo)) (viz_metadata d) in
      if batchWin = '''' then Inr ms
      else case timestamptz batchWin of None \<Rightarrow> Inl ErrDB | Some t \<Rightarrow> Inr (filter (\<lambda>m. cm_BatchWindow m = t) ms))"

definition viz_certificate :: "db \<Rightarrow> CertMetadata \<Rightarrow> LogEntry \<Rightarrow> VizCertificate" where
  "viz_certificate d m e = \<lparr>vz_Index = cm_EntryIdx m, vz_SerialHex = le_SerialHex e, vz_CommonName = cm_CommonName m,
     vz_CAName = cm_CAName m, vz_KeyAlgorithm = cm_KeyAlgorithm m, vz_IsPQ = cm_IsPQ m, vz_BatchWindow = batch_label (cm_BatchWindow m),
     vz_CreatedAt = le_CreatedAt e, vz_Revoked = is_revoked d (cm_EntryIdx m)\<rparr>"

definition GetVizCertificates ::
  "(string \<Rightarrow> int option) \<Rightarrow> string \<Rightarrow> string \<Rightarrow> string \<Rightarrow> int \<Rightarrow> int \<Rightarrow> (VizCertificate list \<times> int) io" where
  "GetVizCertificates timestamptz caName batchWin algo limit offset =
     (let limit = (if limit \<le> 0 then 500 else limit) in
      io_bind (wrap ''store.GetVizCertificates: count: %w''
        (query (\<lambda>d. map_sum id (\<lambda>ms. int (length ms)) (viz_where timestamptz caName batchWin algo d)))) (\<lambda>total.
      io_bind (wrap ''store.GetVizCertificates: query: %w'' (query (\<lambda>d.
        case viz_where timestamptz caName batchWin algo d of
          Inl err \<Rightarrow> Inl err
        | Inr ms \<Rightarrow>
          let rows = concat (map (\<lambda>m. map (viz_certificate d m) (filter (\<lambda>e. le_Index e = cm_EntryIdx m) (log_entries d)))
                (desc cm_EntryIdx ms)) in
          if offset < 0 then Inl ErrDB else sql_limit limit (drop (nat offset) rows)))) (\<lambda>certs.
      io_return (certs, total))))"

text \<open>A rate is kept as its numerator and denominator, before it is rounded to a floating point number.\<close>

record VizStats =
  vt_Total :: int
  vt_Valid :: int
  vt_Revoked :: int
  vt_PQCount :: int
  vt_CACount :: int
  vt_RevRate :: "int \<times> int"
  vt_FreshCount :: int
  vt_StaleCount :: int
  vt_MissingCount :: int
  vt_CoverageRate :: "int \<times> int"

definition GetVizStats :: "VizStats io" where
  "GetVizStats = wrap ''store.GetVizStats: %w'' (query (\<lambda>d.
     let ms = viz_metadata d; total = int (length ms); revoked = count_idx (is_revoked d) ms; fresh = count_idx (is_fresh d) ms in
     Inr \<lparr>vt_Total = total, vt_Valid = total - revoked, vt_Revoked = revoked, vt_PQCount = int (length (filter cm_IsPQ ms)),
       vt_CACount = int (card (cm_CAName ` set ms)), vt_RevRate = (if total > 0 then (revoked, total) else (0, 1)),
       vt_FreshCount = fresh, vt_StaleCount = count_idx (is_stale d) ms, vt_MissingCount = count_idx (\<lambda>i. bundle_of d i = None) ms,
       vt_CoverageRate = (if total > 0 then (fresh, total) else (0, 1))\<rparr>))"

section \<open>The counters add up\<close>

text \<open>What one certificate adds to the counters.\<close>

definition cert_counts :: "db \<Rightarrow> CertMetadata \<Rightarrow> viz_counts" where
  "cert_counts d m = (let i = cm_EntryIdx m; one = (\<lambda>b. if b then 1 else 0) in
     Counts 1 (one (is_revoked d i)) (one (cm_IsPQ m)) (one (\<not> cm_IsPQ m)) (one (is_fresh d i)) (one (is_stale d i)) (one (bundle_of d i = None)))"

lemma sum_counts:
  "sum_list (map (cert_counts d) ms) = Counts (int (length ms)) (count_idx (is_revoked d) ms) (int (length (filter cm_IsPQ ms)))
     (int (length (filter (\<lambda>m. \<not> cm_IsPQ m) ms))) (count_idx (is_fresh d) ms) (count_idx (is_stale d) ms) (count_idx (\<lambda>i. bundle_of d i = None) ms)"
  by (induction ms) (auto simp: zero_viz_counts_def plus_viz_counts_def cert_counts_def count_idx_def Let_def)

lemma group_counts: "vr_Counts (group_row d k) = sum_list (map (cert_counts d) (filter (\<lambda>m. group_key m = k) (viz_metadata d)))"
proof -
  obtain ca win algo pq where k: "k = (ca, win, algo, pq)" by (cases k) auto
  have "filter cm_IsPQ (filter (\<lambda>m. group_key m = k) ms) = (if pq then filter (\<lambda>m. group_key m = k) ms else [])"
    "filter (\<lambda>m. \<not> cm_IsPQ m) (filter (\<lambda>m. group_key m = k) ms) = (if pq then [] else filter (\<lambda>m. group_key m = k) ms)" for ms
    by (induction ms) (auto simp: k group_key_def)
  then show ?thesis by (simp add: sum_counts group_row_def k Let_def)
qed

text \<open>Groups by distinct keys that cover a list partition a sum over it.\<close>

lemma sum_groups:
  fixes f :: "'a \<Rightarrow> 'b::comm_monoid_add"
  assumes "distinct ks" "key ` set xs \<subseteq> set ks"
  shows "(\<Sum>k\<leftarrow>ks. sum_list (map f (filter (\<lambda>x. key x = k) xs))) = sum_list (map f xs)"
  using assms(2)
proof (induction xs)
  case (Cons x xs)
  have none: "(\<Sum>k\<leftarrow>ks. if key x = k then f x else 0) = 0" if "key x \<notin> set ks" for ks
    using that by (induction ks) auto
  have one: "(\<Sum>k\<leftarrow>ks. if key x = k then f x else 0) = f x" if "key x \<in> set ks"
    using assms(1) that by (induction ks) (auto simp: none)
  have "(\<Sum>k\<leftarrow>ks. sum_list (map f (filter (\<lambda>y. key y = k) (x # xs)))) =
      (\<Sum>k\<leftarrow>ks. (if key x = k then f x else 0) + sum_list (map f (filter (\<lambda>y. key y = k) xs)))"
    by (intro arg_cong [where f = sum_list] map_cong) auto
  also have "\<dots> = f x + sum_list (map f xs)"
    using Cons by (simp add: sum_list_addf one)
  finally show ?case by simp
qed (simp add: sum_list_0)

lemma insert_row_counts: "sum_list (map vr_Counts (insert_row r rs)) = vr_Counts r + sum_list (map vr_Counts rs)"
  by (induction rs) (auto simp: ac_simps)

lemma viz_groups_counts: "sum_list (map vr_Counts (viz_groups d)) = sum_list (map (cert_counts d) (viz_metadata d))"
proof -
  have "sum_list (map vr_Counts (foldr insert_row rs [])) = sum_list (map vr_Counts rs)" for rs
    by (induction rs) (simp_all add: insert_row_counts)
  moreover have "sum_list (map vr_Counts (map (group_row d) ks)) =
      (\<Sum>k\<leftarrow>ks. sum_list (map (cert_counts d) (filter (\<lambda>m. group_key m = k) (viz_metadata d))))" for ks
    by (simp add: o_def group_counts)
  ultimately show ?thesis
    unfolding viz_groups_def by (simp only:) (rule sum_groups; simp)
qed

text \<open>
  A node of the given height above the algorithms: its counters are the sums of those of its
  children.
\<close>

primrec adds_up :: "nat \<Rightarrow> VizSummary \<Rightarrow> bool" where
  "adds_up 0 n \<longleftrightarrow> vs_Children n = []"
| "adds_up (Suc k) n \<longleftrightarrow> vs_Counts n = sum_list (map vs_Counts (vs_Children n)) \<and> list_all (adds_up k) (vs_Children n)"

lemma grown_simps [simp]:
  "vs_Counts (grown c f n) = vs_Counts n + c" "vs_Children (grown c f n) = f (vs_Children n)" "vs_Name (grown c f n) = vs_Name n"
  by (cases n; simp)+

definition adds :: "nat \<Rightarrow> viz_counts \<Rightarrow> (VizSummary \<Rightarrow> VizSummary) \<Rightarrow> bool" where
  "adds k c f \<longleftrightarrow> (\<forall>n. adds_up k n \<longrightarrow> adds_up k (f n) \<and> vs_Counts (f n) = vs_Counts n + c)"

lemma at_child_adds:
  assumes "adds k c f" "adds_up k fresh" "vs_Counts fresh = 0" "list_all (adds_up k) ns"
  shows "list_all (adds_up k) (at_child name fresh f ns) \<and>
    sum_list (map vs_Counts (at_child name fresh f ns)) = sum_list (map vs_Counts ns) + c"
  using assms by (induction ns) (auto simp: adds_def ac_simps)

lemma grown_adds:
  assumes "\<And>ns. list_all (adds_up k) ns \<Longrightarrow> list_all (adds_up k) (f ns) \<and> sum_list (map vs_Counts (f ns)) = sum_list (map vs_Counts ns) + c"
  shows "adds (Suc k) c (grown c f)"
  using assms by (simp add: adds_def)

lemma add_viz_row_adds: "adds_up 3 root \<Longrightarrow> adds_up 3 (add_viz_row root r) \<and> vs_Counts (add_viz_row root r) = vs_Counts root + vr_Counts r"
proof -
  let ?c = "vr_Counts r" and ?color = "vizCAColor (vr_CAName r)"
  have "adds 1 ?c (grown ?c (\<lambda>ns. ns @ [VizSummary (vr_KeyAlgo r) None ''algo'' ?c [] ?color]))"
    unfolding One_nat_def by (rule grown_adds) simp
  then have "adds 2 ?c (grown ?c (at_child (batch_label (vr_BatchWin r)) (VizSummary (batch_label (vr_BatchWin r)) (Some (vr_BatchWin r)) ''batch'' 0 [] ?color)
      (grown ?c (\<lambda>ns. ns @ [VizSummary (vr_KeyAlgo r) None ''algo'' ?c [] ?color]))))"
    unfolding numeral_2_eq_2 One_nat_def by (intro grown_adds at_child_adds) simp_all
  then have "adds 3 ?c (\<lambda>root. add_viz_row root r)"
    unfolding add_viz_row_def Let_def numeral_3_eq_3 numeral_2_eq_2 by (intro grown_adds at_child_adds) simp_all
  then show "adds_up 3 root \<Longrightarrow> ?thesis" by (simp add: adds_def)
qed

lemma foldl_viz_rows:
  "adds_up 3 root \<Longrightarrow> adds_up 3 (foldl add_viz_row root rs) \<and>
     vs_Counts (foldl add_viz_row root rs) = vs_Counts root + sum_list (map vr_Counts rs)"
  by (induction rs arbitrary: root) (simp_all add: add_viz_row_adds ac_simps)

text \<open>
  C24. The aggregation loses nothing: the counters of every node of the hierarchy, down to the
  algorithms, are the sums of those of its children, and the root shows the numbers of the
  statistics bar, which come from a query of their own.
\<close>

theorem viz_summary_adds_up:
  assumes "no_faults d"
  shows "\<exists>root st. GetVizSummary d = (Inr root, d) \<and> GetVizStats d = (Inr st, d) \<and> adds_up 3 root \<and>
    vs_Counts root = Counts (vt_Total st) (vt_Revoked st) (vt_PQCount st) (vt_Total st - vt_PQCount st) (vt_FreshCount st)
      (vt_StaleCount st) (vt_MissingCount st)"
proof -
  let ?root = "foldl add_viz_row (VizSummary ''All CAs'' None ''root'' 0 [] '''') (viz_groups d)" and ?ms = "viz_metadata d"
  have "adds_up 3 (VizSummary ''All CAs'' None ''root'' 0 [] '''')" by (simp add: numeral_3_eq_3)
  from foldl_viz_rows [OF this, of "viz_groups d"]
  have root: "adds_up 3 ?root" "vs_Counts ?root = sum_list (map (cert_counts d) ?ms)" by (simp_all add: viz_groups_counts)
  have "length (filter (\<lambda>m. \<not> cm_IsPQ m) ms) + length (filter cm_IsPQ ms) = length ms" for ms
    using sum_length_filter_compl [of cm_IsPQ ms] by simp
  then have "int (length (filter (\<lambda>m. \<not> cm_IsPQ m) ?ms)) = int (length ?ms) - int (length (filter cm_IsPQ ?ms))"
    by (metis add_diff_cancel_right' of_nat_add)
  with root assms show ?thesis
    by (simp add: GetVizSummary_def GetVizStats_def run_simps sum_counts Let_def)
qed

definition demo_viz_row :: "int \<Rightarrow> string \<Rightarrow> CertMetadata" where
  "demo_viz_row i algo = \<lparr>cm_EntryIdx = i, cm_CACertID = ''ca'', cm_CAName = ''CA'', cm_KeyAlgorithm = algo, cm_SigAlgorithm = algo,
     cm_CommonName = ''a'', cm_IsPQ = isPQAlgorithm algo, cm_BatchWindow = 0, cm_CreatedAt = 0\<rparr>"

definition demo_viz_db :: db where
  "demo_viz_db = empty_db\<lparr>cert_metadata := [demo_viz_row 1 ''ECDSA'', demo_viz_row 2 ''ML-DSA-44'', demo_viz_row 3 ''ECDSA''],
     revoked_indices := [\<lparr>ri_EntryIdx = 2, ri_SerialHex = ''1'', ri_RevokedAt = 0, ri_Reason = 0\<rparr>]\<rparr>"

theorem viz_summary_adds_up_witness:
  "\<exists>root. GetVizSummary demo_viz_db = (Inr root, demo_viz_db) \<and> adds_up 3 root \<and> vs_Counts root = Counts 3 1 1 2 0 0 3"
proof -
  have pq: "isPQAlgorithm ''ML-DSA-44''" "\<not> isPQAlgorithm ''ECDSA''" by code_simp+
  have nf: "no_faults demo_viz_db" by (simp add: demo_viz_db_def no_faults_def empty_db_def)
  from viz_summary_adds_up [OF nf] obtain root st where r: "GetVizSummary demo_viz_db = (Inr root, demo_viz_db)" "GetVizStats demo_viz_db = (Inr st, demo_viz_db)"
      "adds_up 3 root" "vs_Counts root = Counts (vt_Total st) (vt_Revoked st) (vt_PQCount st) (vt_Total st - vt_PQCount st) (vt_FreshCount st)
      (vt_StaleCount st) (vt_MissingCount st)" by blast
  have "vt_Total st = 3 \<and> vt_Revoked st = 1 \<and> vt_PQCount st = 1 \<and> vt_FreshCount st = 0 \<and> vt_StaleCount st = 0 \<and> vt_MissingCount st = 3"
    using r(2) nf by (auto simp: GetVizStats_def run_simps Let_def viz_metadata_def demo_viz_db_def demo_viz_row_def empty_db_def count_idx_def
        is_revoked_def is_fresh_def is_stale_def bundle_of_def pq)
  with r show ?thesis by auto
qed


section \<open>The metadata is filled in\<close>

definition with_metadata :: "db \<Rightarrow> CertMetadata list \<Rightarrow> db" where
  "with_metadata d ms = d\<lparr>cert_metadata := cert_metadata d @ ms\<rparr>"

lemma with_metadata_simps [simp]:
  "no_faults (with_metadata d ms) = no_faults d" "log_entries (with_metadata d ms) = log_entries d"
  "has_metadata (with_metadata d ms) i \<longleftrightarrow> has_metadata d i \<or> i \<in> cm_EntryIdx ` set ms"
  "with_metadata (with_metadata d ms) ns = with_metadata d (ms @ ns)" "with_metadata d [] = d"
  by (auto simp: with_metadata_def has_metadata_def no_faults_def)

lemma insert_metadata_run:
  assumes "no_faults d" "distinct (map cm_EntryIdx ms)" "\<forall>m\<in>set ms. \<not> has_metadata d (cm_EntryIdx m)"
    and "\<forall>m\<in>set ms. \<exists>e\<in>set (log_entries d). le_Index e = cm_EntryIdx m"
  shows "for_each (\<lambda>m. wrap msg (exec (insert_metadata m))) ms d = (Inr (), with_metadata d ms)"
  using assms
proof (induction ms arbitrary: d)
  case Nil
  then show ?case by (simp add: run_simps with_metadata_def)
next
  case (Cons m ms)
  have "insert_metadata m d = Inr (with_metadata d [m])"
    using Cons.prems(3,4) by (simp add: insert_metadata_def with_metadata_def)
  moreover have "for_each (\<lambda>m. wrap msg (exec (insert_metadata m))) ms (with_metadata d [m]) = (Inr (), with_metadata (with_metadata d [m]) ms)"
    by (rule Cons.IH) (use Cons.prems in \<open>auto simp: image_iff\<close>)
  ultimately show ?case using Cons.prems(1) by (simp add: run_simps)
qed

text \<open>An entry that parses, and the rows made from a list of entries.\<close>

definition parses :: "x509_parser \<Rightarrow> LogEntry \<Rightarrow> bool" where
  "parses parse e \<longleftrightarrow> (\<exists>meta der. ParseLogEntry parse (le_EntryData e) = Some (Some meta, der, None))"

lemma pending_rows_idx:
  "pending_rows parse caNames es = Some ms \<Longrightarrow> map cm_EntryIdx ms = map le_Index (filter (parses parse) es)"
proof (induction es arbitrary: ms)
  case (Cons e es)
  then show ?case
    by (cases "ParseLogEntry parse (le_EntryData e)") (auto simp: parses_def meta_row_def split: option.splits prod.splits)
qed simp

lemma unpopulated_props:
  assumes "distinct (map le_Index (log_entries d))"
  shows "distinct (map le_Index (unpopulated d))" "e \<in> set (unpopulated d) \<Longrightarrow> e \<in> set (log_entries d) \<and> \<not> has_metadata d (le_Index e)"
proof -
  let ?es = "sort_key le_Index (filter (\<lambda>e. le_EntryType e = 1 \<and> \<not> has_metadata d (le_Index e)) (log_entries d))"
  have "distinct (map le_Index ?es)"
    using distinct_map_filter [OF assms] by (simp add: distinct_map distinct_sort inj_on_def)
  then show "distinct (map le_Index (unpopulated d))" unfolding unpopulated_def by (simp add: take_map [symmetric])
  show "e \<in> set (unpopulated d) \<Longrightarrow> e \<in> set (log_entries d) \<and> \<not> has_metadata d (le_Index e)"
    using set_take_subset [of 1000 ?es] unfolding unpopulated_def by auto
qed

lemma PopulateCertMetadata_run:
  assumes "no_faults d" "distinct (map le_Index (log_entries d))" "pending_rows parse caNames (unpopulated d) = Some ms"
  shows "PopulateCertMetadata parse caNames d = (Some (Inr (int (length ms))), with_metadata d ms)"
proof -
  note idx = pending_rows_idx [OF assms(3)] and un = unpopulated_props [OF assms(2)]
  have "distinct (map cm_EntryIdx ms)" unfolding idx using un(1) by (rule distinct_map_filter)
  moreover have "cm_EntryIdx m \<in> le_Index ` set (unpopulated d)" if "m \<in> set ms" for m
    using that arg_cong [OF idx, of set] by auto
  ultimately have "for_each (\<lambda>m. wrap ''store.PopulateCertMetadata: insert idx %d: %w'' (exec (insert_metadata m))) ms d = (Inr (), with_metadata d ms)"
    using un(2) by (intro insert_metadata_run assms(1)) fastforce+
  then have "tx (
                io_bind (wrap ''store.PopulateCertMetadata: begin: %w'' noop) (\<lambda>_.
                io_bind (wrap ''store.PopulateCertMetadata: prepare: %w'' noop) (\<lambda>_.
                io_bind (for_each (\<lambda>m. wrap ''store.PopulateCertMetadata: insert idx %d: %w'' (exec (insert_metadata m))) ms) (\<lambda>_.
                wrap ''store.PopulateCertMetadata: commit: %w'' noop)))) d = (Inr (), with_metadata d ms)"
    using assms(1) by (simp add: run_simps)
  then show ?thesis
    using assms(1,3) by (simp add: PopulateCertMetadata_def run_simps)
qed

lemma length_filter_mono: "(\<And>x. P x \<Longrightarrow> Q x) \<Longrightarrow> length (filter P xs) \<le> length (filter Q xs)"
  by (induction xs) (simp_all add: le_SucI)

text \<open>
  The loop that fills in the metadata ends with a call that returns 0. By then every entry of a
  certificate that parses has its row, or a thousand entries that do not parse are in the way.
\<close>

lemma populated_complete:
  assumes "no_faults d" "distinct (map le_Index (log_entries d))" "PopulateCertMetadata parse caNames d = (Some (Inr 0), d')"
    and "e \<in> set (log_entries d)" "le_EntryType e = 1" "parses parse e"
  shows "has_metadata d (le_Index e) \<or> length (filter (\<lambda>e. le_EntryType e = 1 \<and> \<not> parses parse e) (log_entries d)) \<ge> 1000"
proof -
  let ?P = "\<lambda>e. le_EntryType e = 1 \<and> \<not> has_metadata d (le_Index e)"
  let ?es = "sort_key le_Index (filter ?P (log_entries d))"
  obtain ms where ms: "pending_rows parse caNames (unpopulated d) = Some ms"
    using assms(1,3) by (auto simp: PopulateCertMetadata_def run_simps split: option.splits)
  with PopulateCertMetadata_run [OF assms(1,2) this] assms(3) have "ms = []" by simp
  with pending_rows_idx [OF ms] have bad: "\<not> parses parse x" if "x \<in> set (take 1000 ?es)" for x
    using that by (auto simp: unpopulated_def filter_empty_conv)
  have "length (take 1000 ?es) = 1000" if "\<not> has_metadata d (le_Index e)"
  proof (rule ccontr)
    assume "\<not> ?thesis"
    then have "take 1000 ?es = ?es" by simp
    with bad [of e] assms(4-6) that show False by simp
  qed
  moreover have "length (take 1000 ?es) \<le> length (filter (\<lambda>e. le_EntryType e = 1 \<and> \<not> parses parse e) (log_entries d))"
  proof -
    have "take 1000 ?es = filter (\<lambda>e. \<not> parses parse e) (take 1000 ?es)" by (rule filter_True [symmetric]) (use bad in blast)
    also have "length \<dots> \<le> length (filter (\<lambda>e. \<not> parses parse e) ?es)"
      using arg_cong [OF filter_append [of "\<lambda>e. \<not> parses parse e" "take 1000 ?es" "drop 1000 ?es"], of length]
      unfolding append_take_drop_id length_append by linarith
    also have "\<dots> = length (filter (\<lambda>e. ?P e \<and> \<not> parses parse e) (log_entries d))"
      by (simp only: filter_sort length_sort filter_filter)
    also have "\<dots> \<le> length (filter (\<lambda>e. le_EntryType e = 1 \<and> \<not> parses parse e) (log_entries d))"
      by (rule length_filter_mono) simp
    finally show ?thesis .
  qed
  ultimately show ?thesis by (metis (no_types, lifting))
qed


end
