(* ===== verification/Admin.thy ===== *)
theory Admin
  imports Viz Tlogtiles Assertionissuer Watcher Json Localca
begin

text \<open>
  \<open>src/internal/admin/handler.go\<close>: the dashboard. The endpoints that answer with JSON are modelled
  as they are. Pages are HTML: modelled is what they show, the values and their texts in the order
  of the page; the markup around them is not. The template of the main page and its execution are
  arguments. \<open>None\<close> is a panic.
\<close>

section \<open>Texts\<close>

text \<open>\<open>Format("2006-01-02 15:04:05 UTC")\<close> and the short form without the zone; years have four digits.\<close>

definition four_digits :: "nat \<Rightarrow> string" where
  "four_digits n = two_digits (n div 100) @ two_digits (n mod 100)"

definition short_time :: "int \<Rightarrow> string" where
  "short_time t = (let c = time_UTC t in four_digits (nat (t_year c)) @ ''-'' @ two_digits (t_month c) @ ''-'' @ two_digits (t_day c) @
     '' '' @ two_digits (t_hour c) @ '':'' @ two_digits (t_min c) @ '':'' @ two_digits (t_sec c))"

definition long_time :: "int \<Rightarrow> string" where
  "long_time t = short_time t @ '' UTC''"

definition truncateHash :: "string \<Rightarrow> string" where
  "truncateHash h = (if length h > 32 then take 32 h @ ''...'' else h)"

definition boolStatus :: "bool \<Rightarrow> string" where
  "boolStatus b = (if b then ''Running'' else ''Stopped'')"

definition plain_json :: "json \<Rightarrow> response" where
  "plain_json doc = http_OK [(''Content-Type'', ''application/json'')] (Json doc)"

definition hash_hex :: "hash \<Rightarrow> string" where
  "hash_hex h = hex_EncodeToString (hash_bytes h)"

section \<open>Integrity of the log\<close>

text \<open>
  A consistency proof made from the stored nodes and checked against roots made from the same
  nodes: the proof, the two roots and the verdict.
\<close>

definition check_consistency :: "int \<Rightarrow> int \<Rightarrow> nodeAt \<Rightarrow> (goerr + hash list \<times> hash \<times> hash \<times> bool) option" where
  "check_consistency oldSize newSize nodeAt =
     (case ConsistencyProofFromNodes oldSize newSize nodeAt of
        None \<Rightarrow> None
      | Some (Inl err) \<Rightarrow> Some (Inl err)
      | Some (Inr proof) \<Rightarrow> do {
          oldRoot \<leftarrow> RootFromNodes oldSize nodeAt;
          newRoot \<leftarrow> RootFromNodes newSize nodeAt;
          ok \<leftarrow> VerifyConsistency oldSize newSize proof oldRoot newRoot;
          Some (Inr (proof, oldRoot, newRoot, ok))
        })"

definition treeDepth :: "int \<Rightarrow> int" where
  "treeDepth n = (if n > 1 then int (bits_Len (nat (n - 1))) else 0)"

datatype verdict = NotAvailable | Verified int int int | Failed int int

record integrity =
  ig_ProofDepth :: int
  ig_LandmarkCount :: int
  ig_Verdict :: verdict
  ig_LinkOld :: int
  ig_LinkNew :: int

text \<open>The verdict about the two most recent checkpoints, and the sizes the page links to.\<close>

definition verify_recent :: "Checkpoint list \<Rightarrow> nodeAt \<Rightarrow> (verdict \<times> int \<times> int) option" where
  "verify_recent cps nodeAt =
     (case cps of
        newCp # oldCp # _ \<Rightarrow>
          let old = cp_TreeSize oldCp; new = cp_TreeSize newCp in
          (case check_consistency old new nodeAt of
             None \<Rightarrow> None
           | Some (Inl _) \<Rightarrow> Some (NotAvailable, old, new)
           | Some (Inr (proof, _, _, ok)) \<Rightarrow>
               Some (if ok then Verified old new (int (length proof)) else Failed old new, old, new))
      | _ \<Rightarrow> Some (NotAvailable, 0, 0))"

definition landmark_count :: "db \<Rightarrow> int \<times> db" where
  "landmark_count d = (case ListLandmarks d of (Inl _, d1) \<Rightarrow> (0, d1) | (Inr ls, d1) \<Rightarrow> (int (length ls), d1))"

definition integrity_of :: "int \<Rightarrow> int \<Rightarrow> Checkpoint list \<Rightarrow> nodeAt \<Rightarrow> integrity option" where
  "integrity_of treeSize landmarkCount cps nodeAt =
     map_option (\<lambda>(v, old, new). \<lparr>ig_ProofDepth = treeDepth treeSize, ig_LandmarkCount = landmarkCount, ig_Verdict = v,
       ig_LinkOld = old, ig_LinkNew = new\<rparr>) (verify_recent cps nodeAt)"

section \<open>The dashboard\<close>

text \<open>What the handler holds beside the store; the statistics are read when a page is asked for.\<close>

record admin_Handler =
  ah_watcher :: Watcher
  ah_issuer :: Issuer
  ah_parse :: x509_parser
  ah_assertBld :: Builder
  ah_caNames :: "string \<Rightarrow> string option"
  ah_acmeURL :: string

record dashboard =
  da_Stats :: Stats
  da_Events :: "Event list"
  da_Checkpoints :: "Checkpoint list"
  da_WatcherStats :: Stats_w
  da_AssertionStats :: AssertionStats
  da_IssuerStats :: issuer_Stats
  da_Integrity :: integrity

definition no_assertion_stats :: AssertionStats where
  "no_assertion_stats = \<lparr>as_TotalBundles = 0, as_FreshBundles = 0, as_StaleBundles = 0, as_PendingEntries = 0, as_LastGenerated = zero_time\<rparr>"

text \<open>An error of a query that is only reported leaves the value of the type.\<close>

definition or_else :: "'a \<Rightarrow> (goerr + 'a) \<times> db \<Rightarrow> 'a \<times> db" where
  "or_else dflt r = (case r of (Inl _, d) \<Rightarrow> (dflt, d) | (Inr v, d) \<Rightarrow> (v, d))"

definition handleDashboard :: "admin_Handler \<Rightarrow> db \<Rightarrow> (response + dashboard) option \<times> db" where
  "handleDashboard h d =
     (case GetStats d of
        (Inl _, d1) \<Rightarrow> (Some (Inl internal_error), d1)
      | (Inr stats, d1) \<Rightarrow>
     (case or_else [] (RecentEvents 20 d1) of (evs, d2) \<Rightarrow>
     (case or_else [] (RecentCheckpoints 10 d2) of (cps, d3) \<Rightarrow>
     (case or_else no_assertion_stats (GetAssertionStats d3) of (assertionStats, d4) \<Rightarrow>
     (case landmark_count d4 of (landmarkCount, d5) \<Rightarrow>
     (case integrity_of (st_TreeSize stats) landmarkCount cps (node_at d5) of
        None \<Rightarrow> (None, d5)
      | Some ig \<Rightarrow>
          (Some (Inr \<lparr>da_Stats = stats, da_Events = evs, da_Checkpoints = cps, da_WatcherStats = GetStats_w (ah_watcher h),
             da_AssertionStats = assertionStats, da_IssuerStats = GetStats_issuer (ah_issuer h), da_Integrity = ig\<rparr>), d5)))))))"

text \<open>The panel that is refreshed: the same values with the texts for times that are not set.\<close>

record stats_panel =
  sp_Stats :: Stats
  sp_WatcherStatus :: string
  sp_CertsProcessed :: int
  sp_LatestCheckpoint :: string
  sp_AssertionStats :: AssertionStats
  sp_LastGenerated :: string
  sp_LastRun :: "int option"
  sp_Integrity :: integrity

definition handleStats :: "admin_Handler \<Rightarrow> db \<Rightarrow> (response + stats_panel) option \<times> db" where
  "handleStats h d =
     (case GetStats d of
        (Inl _, d1) \<Rightarrow> (Some (Inl internal_error), d1)
      | (Inr stats, d1) \<Rightarrow>
     (case or_else no_assertion_stats (GetAssertionStats d1) of (assertionStats, d2) \<Rightarrow>
     (case landmark_count d2 of (landmarkCount, d3) \<Rightarrow>
     (case or_else [] (RecentCheckpoints 2 d3) of (cps, d4) \<Rightarrow>
     (case integrity_of (st_TreeSize stats) landmarkCount cps (node_at d4) of
        None \<Rightarrow> (None, d4)
      | Some ig \<Rightarrow>
        let watcherStats = GetStats_w (ah_watcher h); issuerStats = GetStats_issuer (ah_issuer h);
            generated = as_LastGenerated assertionStats in
          (Some (Inr \<lparr>sp_Stats = stats, sp_WatcherStatus = boolStatus (sw_Running watcherStats),
             sp_CertsProcessed = sw_CertsProcessed watcherStats,
             sp_LatestCheckpoint = (if st_LatestCheckpoint stats = zero_time then ''never'' else long_time (st_LatestCheckpoint stats)),
             sp_AssertionStats = assertionStats,
             sp_LastGenerated = (if generated \<noteq> zero_time \<and> t_year (time_UTC generated) > 1970 then long_time generated else ''never''),
             sp_LastRun = (if is_LastRunTime issuerStats = zero_time then None else Some (is_LastRunDuration issuerStats)),
             sp_Integrity = ig\<rparr>), d4))))))"

section \<open>Lists\<close>

text \<open>
  The page asked for, the number of pages and the pages before and after it. A number that does
  not parse gives the first page; one out of range is the nearest that \<open>strconv.Atoi\<close> returns.
\<close>

definition Atoi_value :: "string \<Rightarrow> int" where
  "Atoi_value s =
     (case ParseInt s of
        Inr v \<Rightarrow> v
      | Inl err \<Rightarrow> if err = Errorf ''strconv.ParseInt: value out of range'' then (if HasPrefix s ''-'' then - (2 ^ 63) else 2 ^ 63 - 1) else 0)"

definition page_param :: "request \<Rightarrow> int" where
  "page_param r = (let p = Atoi_value (rq_Query r ''page'') in if p < 1 then 1 else p)"

record pager =
  pr_TotalPages :: int
  pr_Total :: int
  pr_Prev :: "int option"
  pr_Next :: "int option"

definition pager_of :: "int \<Rightarrow> int \<Rightarrow> int \<Rightarrow> pager option" where
  "pager_of pageSize pg n =
     (let totalPages = (n + pageSize - 1) div pageSize in
      if totalPages > 1 then Some \<lparr>pr_TotalPages = totalPages, pr_Total = n,
          pr_Prev = (if pg > 1 then Some (pg - 1) else None), pr_Next = (if pg < totalPages then Some (pg + 1) else None)\<rparr>
      else None)"

definition handleEvents :: "request \<Rightarrow> db \<Rightarrow> (response + (int \<times> string \<times> string) list \<times> pager option) \<times> db" where
  "handleEvents r d =
     (let pg = page_param r in
      case PaginatedEvents pg 20 d of
        (Inl _, d1) \<Rightarrow> (Inl internal_error, d1)
      | (Inr res, d1) \<Rightarrow>
          (Inr (map (\<lambda>e. (ev_ID e, ev_EventType e, long_time (ev_CreatedAt e))) (pg_Rows res), pager_of 20 pg (pg_Total res)), d1))"

text \<open>The first eight bytes of the root are sliced off: a shorter root panics.\<close>

definition handleCheckpoints :: "request \<Rightarrow> db \<Rightarrow> (response + (int \<times> int \<times> string \<times> string) list \<times> pager option) option \<times> db" where
  "handleCheckpoints r d =
     (let pg = page_param r in
      case PaginatedCheckpoints pg 10 d of
        (Inl _, d1) \<Rightarrow> (Some (Inl internal_error), d1)
      | (Inr res, d1) \<Rightarrow>
          if \<exists>cp\<in>set (pg_Rows res). length (cp_RootHash cp) < 8 then (None, d1)
          else (Some (Inr (map (\<lambda>cp. (cp_ID cp, cp_TreeSize cp, hex_EncodeToString (take 8 (cp_RootHash cp)), long_time (cp_CreatedAt cp)))
                 (pg_Rows res), pager_of 10 pg (pg_Total res))), d1))"

text \<open>
  The event stream: what one tick of the ticker writes, and the id it goes on from. A client that
  reconnects sends the last id it saw.
\<close>

definition sse_start :: "request \<Rightarrow> int" where
  "sse_start r = (let s = rq_Header r ''Last-Event-ID'' in if s = '''' then 0 else Atoi_value s)"

definition sse_tick :: "int \<Rightarrow> db \<Rightarrow> ((int \<times> string \<times> Event) list \<times> int) \<times> db" where
  "sse_tick lastEventID d =
     (case EventsSince lastEventID d of
        (Inl _, d1) \<Rightarrow> (([], lastEventID), d1)
      | (Inr evs, d1) \<Rightarrow> ((map (\<lambda>e. (ev_ID e, ev_EventType e, e)) evs, last (lastEventID # map ev_ID evs)), d1))"

section \<open>Certificates\<close>

definition cert_line :: "SearchResult \<Rightarrow> int \<times> string \<times> string \<times> bool" where
  "cert_line e = (let serial = le_SerialHex (sr_Entry e) in
     (le_Index (sr_Entry e), if length serial > 24 then take 24 serial @ ''...'' else serial,
      short_time (le_CreatedAt (sr_Entry e)), sr_Revoked e))"

definition handleCerts :: "db \<Rightarrow> (response + (int \<times> string \<times> string \<times> bool) list) \<times> db" where
  "handleCerts d =
     (case RecentEntries 50 d of
        (Inl _, d1) \<Rightarrow> (Inl internal_error, d1)
      | (Inr es, d1) \<Rightarrow> (Inr (map cert_line es), d1))"

definition handleCertSearch :: "request \<Rightarrow> db \<Rightarrow> (response + (int \<times> string \<times> string \<times> bool) list) \<times> db" where
  "handleCertSearch r d =
     (let q = rq_Query r ''q'' in
      case (if rq_Query r ''status'' = ''revoked'' then RevokedEntries q 50 d
            else if q = '''' then RecentEntries 50 d else SearchEntries q 50 d) of
        (Inl _, d1) \<Rightarrow> (Inl internal_error, d1)
      | (Inr es, d1) \<Rightarrow> (Inr (map cert_line es), d1))"

text \<open>The fields of a certificate with their labels; they are written into the page as they are.\<close>

definition cert_fields :: "CertMeta \<Rightarrow> (string \<times> string) list" where
  "cert_fields m = [(''Common Name'', me_CommonName m)] @
     (case me_Organization m of [] \<Rightarrow> [] | x # _ \<Rightarrow> [(''Organization'', x)]) @
     [(''Serial Number'', me_SerialNumber m), (''Not Before'', long_time (me_NotBefore m)), (''Not After'', long_time (me_NotAfter m)),
      (''Key Algorithm'', me_KeyAlgorithm m), (''Signature Algorithm'', me_SignatureAlgorithm m), (''Issuer CN'', me_IssuerCN m)] @
     (if me_KeyUsage m \<noteq> '''' then [(''Key Usage'', me_KeyUsage m)] else []) @
     (case me_SANs m of [] \<Rightarrow> [] | x # xs \<Rightarrow> (''SANs'', x) # map (\<lambda>s. ('''', s)) xs)"

definition certField :: "string \<Rightarrow> string \<Rightarrow> string" where
  \<open>certField label value =
     (if label \<noteq> '''' then ''<dt class="text-gray-500">'' @ label @ ''</dt>'' else ''<dt></dt>'') @ ''<dd class="font-mono">'' @ value @ ''</dd>''\<close>

definition proof_fields :: "Bundle \<Rightarrow> (string \<times> string) list" where
  "proof_fields b = [(''Leaf Index'', dec_int (bu_LeafIndex b)), (''Tree Size'', dec_int (bu_TreeSize b)),
     (''Leaf Hash'', truncateHash (bu_LeafHash b)), (''Root Hash'', truncateHash (bu_RootHash b)),
     (''Proof Length'', dec_int (int (length (bu_Proof b))) @ '' hashes'')]"

text \<open>The page of a certificate: its fields, when it was revoked, the fields and hashes of its proof, the certificate.\<close>

record cert_page =
  ct_Index :: int
  ct_Fields :: "(string \<times> string) list"
  ct_Revoked :: "string option"
  ct_ProofFields :: "(string \<times> string) list"
  ct_ProofHashes :: "string list"
  ct_CertDER :: bytes

definition handleCertDetail :: "admin_Handler \<Rightarrow> string \<Rightarrow> db \<Rightarrow> (response + cert_page) option \<times> db" where
  "handleCertDetail h indexStr d =
     (case ParseInt indexStr of
        Inl _ \<Rightarrow> (Some (Inl (http_Error ''invalid index'' 400)), d)
      | Inr idx \<Rightarrow>
        (case BuildByIndex (ah_parse h) (ah_assertBld h) idx d of
           (None, d1) \<Rightarrow> (None, d1)
         | (Some (Inl err), d1) \<Rightarrow> (Some (Inl (http_Error (error_text err) 404)), d1)
         | (Some (Inr b), d1) \<Rightarrow>
             (Some (Inr \<lparr>ct_Index = idx,
                ct_Fields = (if bu_CertDER b \<noteq> [] then (case bu_CertMeta b of None \<Rightarrow> [] | Some m \<Rightarrow> cert_fields m) else []),
                ct_Revoked = (if bu_Revoked b then Some (case bu_RevokedAt b of None \<Rightarrow> ''unknown'' | Some t \<Rightarrow> long_time t) else None),
                ct_ProofFields = proof_fields b, ct_ProofHashes = bu_Proof b, ct_CertDER = bu_CertDER b\<rparr>), d1)))"

section \<open>Visualization\<close>

text \<open>
  Opening the page fills in the metadata in the background until a call finds nothing to do or
  fails. \<open>None\<close> is the panic of a call, the outer \<open>None\<close> that the fuel was used up.
\<close>

fun populate_loop :: "admin_Handler \<Rightarrow> nat \<Rightarrow> db \<Rightarrow> db option option" where
  "populate_loop h 0 d = None"
| "populate_loop h (Suc fuel) d =
     (case PopulateCertMetadata (ah_parse h) (ah_caNames h) d of
        (None, d1) \<Rightarrow> Some None
      | (Some (Inl err), d1) \<Rightarrow> Some (Some d1)
      | (Some (Inr n), d1) \<Rightarrow> if n = 0 then Some (Some d1) else populate_loop h fuel d1)"

definition omit_zero :: "string \<Rightarrow> string \<Rightarrow> (string \<times> json) list" where
  "omit_zero name s = (if s = '''' then [] else [(name, JStr s)])"

fun summary_json :: "VizSummary \<Rightarrow> json" where
  "summary_json (VizSummary name key level c children color) = JObj (
     [(''name'', JStr name)] @ (case key of None \<Rightarrow> [] | Some t \<Rightarrow> [(''batch_key'', JTime (truncate_second t))]) @
     [(''level'', JStr level), (''certCount'', JNum (vc_Cert c)), (''revokedCount'', JNum (vc_Revoked c)), (''pqCount'', JNum (vc_PQ c)),
      (''classicalCount'', JNum (vc_Classical c)), (''freshCount'', JNum (vc_Fresh c)), (''staleCount'', JNum (vc_Stale c)),
      (''missingCount'', JNum (vc_Missing c))] @
     (if children = [] then [] else [(''children'', JArr (map summary_json children))]) @ omit_zero ''color'' color)"

definition handleVizSummary :: "db \<Rightarrow> response \<times> db" where
  "handleVizSummary d =
     (case GetVizSummary d of (Inl _, d1) \<Rightarrow> (internal_error, d1) | (Inr s, d1) \<Rightarrow> (plain_json (summary_json s), d1))"

definition certificate_json :: "VizCertificate \<Rightarrow> json" where
  "certificate_json c = JObj [(''index'', JNum (vz_Index c)), (''serialHex'', JStr (vz_SerialHex c)), (''commonName'', JStr (vz_CommonName c)),
     (''ca'', JStr (vz_CAName c)), (''algorithm'', JStr (vz_KeyAlgorithm c)), (''isPQ'', JBool (vz_IsPQ c)),
     (''batchWindow'', JStr (vz_BatchWindow c)), (''issuedAt'', JTime (truncate_second (vz_CreatedAt c))), (''revoked'', JBool (vz_Revoked c))]"

text \<open>The offset is computed in 64 bits. A nil slice is \<open>null\<close>.\<close>

definition handleVizCertificates :: "(string \<Rightarrow> int option) \<Rightarrow> request \<Rightarrow> db \<Rightarrow> response \<times> db" where
  "handleVizCertificates timestamptz r d =
     (let pg = page_param r; limit = 500; offset = wrap64 ((pg - 1) * limit) in
      case GetVizCertificates timestamptz (rq_Query r ''ca'') (rq_Query r ''batch'') (rq_Query r ''algo'') limit offset d of
        (Inl _, d1) \<Rightarrow> (internal_error, d1)
      | (Inr (certs, n), d1) \<Rightarrow> (plain_json (JObj
          [(''certificates'', if certs = [] then JNull else JArr (map certificate_json certs)), (''page'', JNum pg), (''pageSize'', JNum limit),
           (''total'', JNum n)]), d1))"

definition handleVizRevocations :: "db \<Rightarrow> response \<times> db" where
  "handleVizRevocations d =
     (case GetRevokedIndices d of
        (Inl _, d1) \<Rightarrow> (internal_error, d1)
      | (Inr idx, d1) \<Rightarrow> (plain_json (JObj [(''revokedIndices'', if idx = [] then JNull else JArr (map JNum idx))]), d1))"

text \<open>The text of a rate is the one of the floating point number, an argument.\<close>

definition handleVizStats :: "(int \<times> int \<Rightarrow> string) \<Rightarrow> db \<Rightarrow> response \<times> db" where
  "handleVizStats float_text d =
     (case GetVizStats d of
        (Inl _, d1) \<Rightarrow> (internal_error, d1)
      | (Inr s, d1) \<Rightarrow> (plain_json (JObj [(''total'', JNum (vt_Total s)), (''valid'', JNum (vt_Valid s)), (''revoked'', JNum (vt_Revoked s)),
          (''pqCount'', JNum (vt_PQCount s)), (''caCount'', JNum (vt_CACount s)), (''revocationRate'', JReal (float_text (vt_RevRate s))),
          (''freshCount'', JNum (vt_FreshCount s)), (''staleCount'', JNum (vt_StaleCount s)), (''missingCount'', JNum (vt_MissingCount s)),
          (''coverageRate'', JReal (float_text (vt_CoverageRate s)))]), d1))"

subsection \<open>Proofs\<close>

text \<open>The side of the sibling at each level of the proof, read off the bits of the index.\<close>

definition proof_sides :: "int \<Rightarrow> nat \<Rightarrow> string list" where
  "proof_sides idx n = map (\<lambda>i. if (idx div 2 ^ i) mod 2 = 0 then ''right'' else ''left'') [0..<n]"

definition handleVizProof :: "string \<Rightarrow> db \<Rightarrow> response option \<times> db" where
  "handleVizProof idxStr d =
     (case ParseInt idxStr of
        Inl _ \<Rightarrow> (Some (http_Error ''invalid index'' 400), d)
      | Inr idx \<Rightarrow>
     (case LatestCheckpoint d of
        (Inl _, d1) \<Rightarrow> (Some (http_Error ''no checkpoint available'' 503), d1)
      | (Inr cp, d1) \<Rightarrow>
        if idx < 0 \<or> idx \<ge> cp_TreeSize cp then
          (Some (http_Error (''index '' @ dec_int idx @ '' out of range [0, '' @ dec_int (cp_TreeSize cp) @ '')'') 400), d1)
        else
     (case GetEntryDetail idx d1 of
        (Inl _, d2) \<Rightarrow> (Some (http_Error ''entry not found'' 404), d2)
      | (Inr detail, d2) \<Rightarrow>
     (case InclusionProofFromNodes idx (cp_TreeSize cp) (node_at d2) of
        None \<Rightarrow> (None, d2)
      | Some (Inl _) \<Rightarrow> (Some (http_Error ''failed to compute proof'' 500), d2)
      | Some (Inr proof) \<Rightarrow>
          (Some (plain_json (JObj [(''leafIndex'', JNum idx), (''treeSize'', JNum (cp_TreeSize cp)),
             (''leafHash'', JStr (hash_hex (LeafHash (le_EntryData (sr_Entry detail))))), (''rootHash'', JStr (hex_EncodeToString (cp_RootHash cp))),
             (''proofPath'', jstrs (map hash_hex proof)), (''proofSides'', jstrs (proof_sides idx (length proof))),
             (''treeDepth'', JNum (treeDepth (cp_TreeSize cp)))])), d2)))))"

definition handleVizCertInfo :: "string \<Rightarrow> db \<Rightarrow> response \<times> db" where
  "handleVizCertInfo idxStr d =
     (case ParseInt idxStr of
        Inl _ \<Rightarrow> (http_Error ''invalid index'' 400, d)
      | Inr idx \<Rightarrow>
        (case GetCertLocation idx d of
           (Inl _, d1) \<Rightarrow> (http_Error ''certificate metadata not found'' 404, d1)
         | (Inr (caName, batchWindow, keyAlgo), d1) \<Rightarrow>
             (plain_json (JObj [(''algo'', JStr keyAlgo), (''batch'', JStr (batch_label batchWindow)), (''ca'', JStr caName)]), d1)))"

definition handleVizConsistency :: "request \<Rightarrow> db \<Rightarrow> response option \<times> db" where
  "handleVizConsistency r d =
     (let oldParam = rq_Query r ''old''; newParam = rq_Query r ''new''; bad = (\<lambda>msg. (Some (http_Error msg 400), d)) in
      if oldParam = '''' \<or> newParam = '''' then bad (''missing '' @ quoted ''old'' @ '' and '' @ quoted ''new'' @ '' query parameters'')
      else case ParseInt oldParam of
        Inl _ \<Rightarrow> bad (''invalid '' @ quoted ''old'' @ '' parameter'')
      | Inr oldSize \<Rightarrow>
        if oldSize < 1 then bad (''invalid '' @ quoted ''old'' @ '' parameter'')
        else case ParseInt newParam of
        Inl _ \<Rightarrow> bad (''invalid '' @ quoted ''new'' @ '' parameter'')
      | Inr newSize \<Rightarrow>
        if newSize < 1 then bad (''invalid '' @ quoted ''new'' @ '' parameter'')
        else if oldSize > newSize then bad (quoted ''old'' @ '' must be <= '' @ quoted ''new'')
        else case GetStats d of
          (Inl _, d1) \<Rightarrow> (Some internal_error, d1)
        | (Inr stats, d1) \<Rightarrow>
          if newSize > st_TreeSize stats then
            (Some (http_Error (quoted ''new'' @ '' ('' @ dec_int newSize @ '') exceeds tree size ('' @ dec_int (st_TreeSize stats) @ '')'') 400), d1)
          else (case check_consistency oldSize newSize (node_at d1) of
              None \<Rightarrow> (None, d1)
            | Some (Inl _) \<Rightarrow> (Some (http_Error ''failed to compute proof'' 500), d1)
            | Some (Inr (proof, oldRoot, newRoot, verified)) \<Rightarrow>
                (Some (plain_json (JObj [(''oldSize'', JNum oldSize), (''newSize'', JNum newSize), (''oldRoot'', JStr (hash_hex oldRoot)),
                   (''newRoot'', JStr (hash_hex newRoot)), (''proof'', jstrs (map hash_hex proof)), (''proofLen'', JNum (int (length proof))),
                   (''verified'', JBool verified), (''treeDepth'', JNum (treeDepth newSize))])), d1)))"

subsection \<open>Checkpoints and proof events\<close>

definition handleCheckpointsList :: "db \<Rightarrow> response \<times> db" where
  "handleCheckpointsList d =
     (case RecentCheckpoints 20 d of
        (Inl _, d1) \<Rightarrow> (internal_error, d1)
      | (Inr cps, d1) \<Rightarrow> (plain_json (JArr (map (\<lambda>cp. JObj [(''id'', JNum (cp_ID cp)), (''treeSize'', JNum (cp_TreeSize cp)),
          (''rootHash'', JStr (hex_EncodeToString (if length (cp_RootHash cp) > 8 then take 8 (cp_RootHash cp) else cp_RootHash cp))),
          (''time'', JStr (short_time (cp_CreatedAt cp)))]) cps)), d1))"

definition dec_number :: "int \<Rightarrow> json \<Rightarrow> goerr + int" where
  "dec_number old j = (case j of JNum n \<Rightarrow> if - (2 ^ 63) \<le> n \<and> n < 2 ^ 63 then Inr n else Inl type_error | JNull \<Rightarrow> Inr old | _ \<Rightarrow> Inl type_error)"

definition proof_event :: "Event \<Rightarrow> (int \<times> int \<times> int \<times> string) list" where
  "proof_event ev =
     (case dec_struct (ev_Payload ev) of
        Inl _ \<Rightarrow> []
      | Inr kvs \<Rightarrow>
        (case (dec_field dec_number ''old_size'' 0 kvs, dec_field dec_number ''new_size'' 0 kvs, dec_field dec_number ''proof_length'' 0 kvs) of
           (Inr old, Inr new, Inr len) \<Rightarrow> [(old, new, len, long_time (ev_CreatedAt ev))]
         | _ \<Rightarrow> []))"

definition handleRecentConsistencyProofs :: "db \<Rightarrow> (response + (int \<times> int \<times> int \<times> string) list) \<times> db" where
  "handleRecentConsistencyProofs d =
     (case RecentEventsByType ''consistency_proof'' 10 d of
        (Inl _, d1) \<Rightarrow> (Inl internal_error, d1)
      | (Inr evs, d1) \<Rightarrow> (Inr (concat (map proof_event evs)), d1))"


subsection \<open>A slice of the tree\<close>

definition subtree_size :: "request \<Rightarrow> int" where
  "subtree_size r = (case ParseInt (rq_Query r ''size'') of Inl _ \<Rightarrow> 8 | Inr s \<Rightarrow> if s \<in> {4, 8, 16} then s else 8)"

definition subtree_start :: "request \<Rightarrow> int \<Rightarrow> int" where
  "subtree_start r sz = (let s = (case ParseInt (rq_Query r ''start'') of Inl _ \<Rightarrow> 0 | Inr s \<Rightarrow> if s \<ge> 0 then s else 0) in s div sz * sz)"

record subtreeNode =
  sn_Index :: int
  sn_Hash :: string
  sn_CommonName :: string
  sn_CA :: string
  sn_Algorithm :: string
  sn_IsPQ :: bool
  sn_Revoked :: bool

definition node_json :: "subtreeNode \<Rightarrow> json" where
  "node_json n = JObj ([(''index'', JNum (sn_Index n)), (''hash'', JStr (sn_Hash n))] @ omit_zero ''commonName'' (sn_CommonName n) @
     omit_zero ''ca'' (sn_CA n) @ omit_zero ''algorithm'' (sn_Algorithm n) @ (if sn_IsPQ n then [(''isPQ'', JBool True)] else []) @
     (if sn_Revoked n then [(''revoked'', JBool True)] else []))"

text \<open>The levels from the leaves to the root of the slice; the first error ends the loop.\<close>

primrec subtree_levels :: "int \<Rightarrow> int \<Rightarrow> nat list \<Rightarrow> (nat \<times> subtreeNode list) list io" where
  "subtree_levels start sz [] = io_return []"
| "subtree_levels start sz (level # levels) =
     (let levelStart = start div 2 ^ level; n = sz div 2 ^ level; levelCount = (if n < 1 then 1 else n) in
      io_bind (GetTileHashes (int level) levelStart levelCount) (\<lambda>hashes.
      io_bind (subtree_levels start sz levels) (\<lambda>rest.
      io_return ((level, map (\<lambda>i. \<lparr>sn_Index = levelStart + int i, sn_Hash = hash_hex (hashes ! i), sn_CommonName = '''', sn_CA = '''',
        sn_Algorithm = '''', sn_IsPQ = False, sn_Revoked = False\<rparr>) [0..<length hashes]) # rest))))"

definition label_leaf :: "SubtreeLeafInfo list \<Rightarrow> subtreeNode \<Rightarrow> subtreeNode" where
  "label_leaf infos n =
     (case find (\<lambda>i. sl_EntryIdx i = sn_Index n) (rev infos) of
        None \<Rightarrow> n
      | Some i \<Rightarrow> n\<lparr>sn_CommonName := sl_CommonName i, sn_CA := sl_CAName i, sn_Algorithm := sl_KeyAlgorithm i, sn_IsPQ := sl_IsPQ i,
          sn_Revoked := sl_Revoked i\<rparr>)"

definition label_leaves :: "SubtreeLeafInfo list \<Rightarrow> (nat \<times> subtreeNode list) list \<Rightarrow> (nat \<times> subtreeNode list) list" where
  "label_leaves infos levels = (case levels of [] \<Rightarrow> [] | (l, ns) # rest \<Rightarrow> (l, map (label_leaf infos) ns) # rest)"

definition subtree_depth :: "int \<Rightarrow> nat" where
  "subtree_depth sz = bits_Len (nat sz) - 1"

definition handleVizSubtree :: "request \<Rightarrow> db \<Rightarrow> response \<times> db" where
  "handleVizSubtree r d =
     (let subtreeSize = subtree_size r; start = subtree_start r subtreeSize in
      case LatestCheckpoint d of
        (Inl _, d1) \<Rightarrow> (http_Error ''no checkpoint available'' 503, d1)
      | (Inr cp, d1) \<Rightarrow>
        let treeSize = cp_TreeSize cp;
            start = (if start \<ge> treeSize then go_div (treeSize - 1) subtreeSize * subtreeSize else start);
            actualLeaves = (if start + subtreeSize > treeSize then treeSize - start else subtreeSize) in
        (case subtree_levels start subtreeSize [0..<subtree_depth subtreeSize + 1] d1 of
           (Inl _, d2) \<Rightarrow> (http_Error ''failed to fetch tree nodes'' 500, d2)
         | (Inr levels, d2) \<Rightarrow>
           (case GetSubtreeLeafInfo start (start + actualLeaves) d2 of (info, d3) \<Rightarrow>
            let levels = (case info of Inl _ \<Rightarrow> levels | Inr leafInfos \<Rightarrow> label_leaves leafInfos levels) in
            (plain_json (JObj [(''treeSize'', JNum treeSize), (''subtreeStart'', JNum start), (''subtreeSize'', JNum subtreeSize),
               (''globalRootHash'', JStr (hex_EncodeToString (cp_RootHash cp))),
               (''levels'', JArr (map (\<lambda>(l, ns). JObj [(''level'', JNum (int l)), (''nodes'', JArr (map node_json ns))]) levels))]), d3))))"

section \<open>Routes\<close>

text \<open>
  The patterns that \<open>New\<close> registers. A pattern for \<open>GET\<close> also admits \<open>HEAD\<close>; every other path below
  \<open>/admin/\<close> is the main page. Paths are clean.
\<close>

datatype admin_endpoint = Dashboard | StatsPanel | EventsPage | CheckpointsPage | EventStream | CertsPage | CertSearch | CertDetail string
  | VizPage | VizSummaryDoc | VizCertificates | VizRevocations | VizStatsDoc | VizProof string | VizCertInfo string | VizSubtree
  | VizConsistency | CheckpointsList | ConsistencyProofs | ACMEDemo | ACMEProxy | RedirectTo string | MethodNotAllowed

definition admin_pages :: "(string \<times> admin_endpoint) list" where
  "admin_pages = [(''/admin'', Dashboard), (''/admin/stats'', StatsPanel), (''/admin/events'', EventsPage), (''/admin/checkpoints'', CheckpointsPage),
     (''/admin/sse'', EventStream), (''/admin/certs'', CertsPage), (''/admin/certs/search'', CertSearch), (''/admin/viz'', VizPage),
     (''/admin/viz/summary'', VizSummaryDoc), (''/admin/viz/certificates'', VizCertificates), (''/admin/viz/revocations'', VizRevocations),
     (''/admin/viz/stats'', VizStatsDoc), (''/admin/viz/subtree'', VizSubtree), (''/admin/viz/consistency'', VizConsistency),
     (''/admin/checkpoints/list'', CheckpointsList), (''/admin/consistency-proofs'', ConsistencyProofs), (''/admin/acme-demo'', ACMEDemo)]"

definition admin_route :: "string \<Rightarrow> string \<Rightarrow> admin_endpoint option" where
  "admin_route meth p =
     (let segs = tl (Split CHR ''/'' p); get = meth \<in> {''GET'', ''HEAD''}; on_get = (\<lambda>e. Some (if get then e else MethodNotAllowed)) in
      if HasPrefix p ''/admin/acme-proxy/'' then Some (if get \<or> meth = ''POST'' then ACMEProxy else MethodNotAllowed)
      else if p = ''/admin/acme-proxy'' then Some (if get \<or> meth = ''POST'' then RedirectTo ''/admin/acme-proxy/'' else MethodNotAllowed)
      else case map_of admin_pages p of
        Some e \<Rightarrow> on_get e
      | None \<Rightarrow>
          if length segs = 3 \<and> take 2 segs = [''admin'', ''certs''] \<and> segs ! 2 \<noteq> '''' then on_get (CertDetail (segs ! 2))
          else if length segs = 4 \<and> take 3 segs = [''admin'', ''viz'', ''proof''] \<and> segs ! 3 \<noteq> '''' then on_get (VizProof (segs ! 3))
          else if length segs = 4 \<and> take 3 segs = [''admin'', ''viz'', ''cert-info''] \<and> segs ! 3 \<noteq> '''' then on_get (VizCertInfo (segs ! 3))
          else if HasPrefix p ''/admin/'' then on_get Dashboard
          else None)"

text \<open>
  The proxy to the ACME server: without a URL, and with one that does not parse, it answers
  itself. The reverse proxy is an argument; the prefix of the path is stripped before it.
\<close>

definition acmeProxy :: "(string \<Rightarrow> 'u option) \<Rightarrow> ('u \<Rightarrow> request \<Rightarrow> response) \<Rightarrow> string \<Rightarrow> request \<Rightarrow> response" where
  "acmeProxy url_Parse reverse_proxy acmeURL r =
     (if acmeURL = '''' then http_Error ''ACME server not configured'' 503
      else case url_Parse acmeURL of
        None \<Rightarrow> http_Error ''ACME proxy misconfigured'' 500
      | Some target \<Rightarrow> reverse_proxy target (r\<lparr>rq_Path := TrimPrefix (rq_Path r) ''/admin/acme-proxy''\<rparr>))"

section \<open>What the dashboard shows\<close>

lemma check_consistency_served:
  assumes "log_served d" "0 < m" "m \<le> n" "n \<le> log_size d"
  shows "\<exists>pf. ConsistencyProofFromNodes m n (node_at d) = Some (Inr pf) \<and> check_consistency m n (node_at d) =
    Some (Inr (pf, root_of (take (nat m) (entries d)), root_of (take (nat n) (entries d)), True))"
  using served_subproof [OF assms] served_root [OF assms(1,2)] served_root [OF assms(1), of n] assms
  by (auto simp: check_consistency_def)

text \<open>
  C25. The integrity panel of the dashboard raises no alarm on a log in good state: for the two newest
  checkpoints it says verified, with the length of the proof. This holds whatever roots and
  signatures these two carry, because the panel checks a proof of its own against roots of its own.
\<close>

theorem integrity_panel_verified:
  assumes "log_served d" "desc cp_ID (checkpoints d) = newCp # oldCp # cps"
    and "0 < cp_TreeSize oldCp" "cp_TreeSize oldCp \<le> cp_TreeSize newCp" "cp_TreeSize newCp \<le> log_size d"
  shows "\<exists>da pf. handleDashboard h d = (Some (Inr da), d) \<and> da_Checkpoints da = newCp # oldCp # take 8 cps \<and>
    ConsistencyProofFromNodes (cp_TreeSize oldCp) (cp_TreeSize newCp) (node_at d) = Some (Inr pf) \<and>
    ig_Verdict (da_Integrity da) = Verified (cp_TreeSize oldCp) (cp_TreeSize newCp) (int (length pf))"
proof -
  have nf: "no_faults d" using assms(1) by (simp add: log_served_def log_ready_def)
  obtain pf where pf: "ConsistencyProofFromNodes (cp_TreeSize oldCp) (cp_TreeSize newCp) (node_at d) = Some (Inr pf)"
      "check_consistency (cp_TreeSize oldCp) (cp_TreeSize newCp) (node_at d) =
        Some (Inr (pf, root_of (take (nat (cp_TreeSize oldCp)) (entries d)), root_of (take (nat (cp_TreeSize newCp)) (entries d)), True))"
    using check_consistency_served [OF assms(1,3-5)] by blast
  show ?thesis
    by (simp add: handleDashboard_def GetStats_def RecentEvents_def RecentCheckpoints_def GetAssertionStats_def landmark_count_def ListLandmarks_def
        run_simps nf sql_limit_def or_else_def integrity_of_def verify_recent_def Let_def assms(2) pf)
qed

definition demo_dashboard_db :: db where
  "demo_dashboard_db = demo_log\<lparr>checkpoints :=
     [\<lparr>cp_ID = 1, cp_TreeSize = 1, cp_RootHash = [], cp_Timestamp = 0, cp_Signature = [], cp_Body = '''', cp_CreatedAt = 0\<rparr>,
      \<lparr>cp_ID = 2, cp_TreeSize = 2, cp_RootHash = [], cp_Timestamp = 0, cp_Signature = [], cp_Body = '''', cp_CreatedAt = 0\<rparr>]\<rparr>"

theorem integrity_panel_verified_witness:
  "\<forall>h. \<exists>da n. handleDashboard h demo_dashboard_db = (Some (Inr da), demo_dashboard_db) \<and>
     map cp_RootHash (da_Checkpoints da) = [[], []] \<and> ig_Verdict (da_Integrity da) = Verified 1 2 n"
proof -
  let ?cps = "desc cp_ID (checkpoints demo_dashboard_db)"
  have served: "log_served demo_dashboard_db" "log_size demo_dashboard_db = 2"
    using reachable_ready [OF demo_log_run(1)] arg_cong [OF demo_log_run(2), of length]
    by (simp_all add: demo_dashboard_db_def log_served_def log_ready_def log_inv_def log_size_def entries_def leaves_def no_faults_def)
  have cps: "?cps = [?cps ! 0, ?cps ! 1]" "cp_TreeSize (?cps ! 0) = 2" "cp_TreeSize (?cps ! 1) = 1"
      "cp_RootHash (?cps ! 0) = []" "cp_RootHash (?cps ! 1) = []"
    by (simp_all add: demo_dashboard_db_def desc_def)
  show ?thesis
    using integrity_panel_verified [OF served(1) cps(1)] cps(2-5) served(2) by fastforce
qed


section \<open>The background loop\<close>

definition unfilled :: "db \<Rightarrow> LogEntry list" where
  "unfilled d = filter (\<lambda>e. le_EntryType e = 1 \<and> \<not> has_metadata d (le_Index e)) (log_entries d)"

definition parse_returns :: "x509_parser \<Rightarrow> db \<Rightarrow> bool" where
  "parse_returns parse d \<longleftrightarrow> (\<forall>e\<in>set (log_entries d). ParseLogEntry parse (le_EntryData e) \<noteq> None)"

lemma pending_rows_return:
  "\<forall>e\<in>set es. ParseLogEntry parse (le_EntryData e) \<noteq> None \<Longrightarrow> \<exists>ms. pending_rows parse caNames es = Some ms"
proof (induction es)
  case (Cons e es)
  then obtain ms v where "pending_rows parse caNames es = Some ms" "ParseLogEntry parse (le_EntryData e) = Some v" by auto
  then show ?case by (cases v) (auto split: option.splits)
qed simp

lemma unfilled_shrinks:
  assumes "pending_rows parse caNames (unpopulated d) = Some ms" "ms \<noteq> []" "distinct (map le_Index (log_entries d))"
  shows "length (unfilled (with_metadata d ms)) < length (unfilled d)"
proof -
  obtain m where m: "m \<in> set ms" using assms(2) by (cases ms) auto
  then obtain e where e: "e \<in> set (unpopulated d)" "le_Index e = cm_EntryIdx m"
  proof -
    have "cm_EntryIdx m \<in> set (map le_Index (filter (parses parse) (unpopulated d)))"
      unfolding pending_rows_idx [OF assms(1), symmetric] using m by simp
    then show ?thesis using that by fastforce
  qed
  have "e \<in> set (unfilled d)"
    using e(1) set_take_subset [of 1000 "sort_key le_Index (unfilled d)"] by (auto simp: unpopulated_def unfilled_def)
  moreover have "unfilled (with_metadata d ms) = filter (\<lambda>e. le_Index e \<notin> cm_EntryIdx ` set ms) (unfilled d)"
    by (simp add: unfilled_def conj_ac)
  ultimately show ?thesis using e(2) m by (auto intro!: length_filter_less)
qed

lemma populate_loop_returns:
  assumes "no_faults d" "distinct (map le_Index (log_entries d))" "parse_returns (ah_parse h) d" "length (unfilled d) < fuel"
  shows "\<exists>ms. populate_loop h fuel d = Some (Some (with_metadata d ms)) \<and>
    PopulateCertMetadata (ah_parse h) (ah_caNames h) (with_metadata d ms) = (Some (Inr 0), with_metadata d ms)"
  using assms
proof (induction fuel arbitrary: d)
  case (Suc fuel)
  obtain ms where ms: "pending_rows (ah_parse h) (ah_caNames h) (unpopulated d) = Some ms"
  proof -
    have "\<forall>e\<in>set (unpopulated d). ParseLogEntry (ah_parse h) (le_EntryData e) \<noteq> None"
      using unpopulated_props(2) [OF Suc.prems(2)] Suc.prems(3) unfolding parse_returns_def by blast
    then show ?thesis using pending_rows_return that by blast
  qed
  note run = PopulateCertMetadata_run [OF Suc.prems(1,2) ms]
  show ?case
  proof (cases "ms = []")
    case True
    with run show ?thesis by (auto intro!: exI [of _ "[]"])
  next
    case False
    have "\<exists>ns. populate_loop h fuel (with_metadata d ms) = Some (Some (with_metadata (with_metadata d ms) ns)) \<and>
        PopulateCertMetadata (ah_parse h) (ah_caNames h) (with_metadata (with_metadata d ms) ns) = (Some (Inr 0), with_metadata (with_metadata d ms) ns)"
      by (rule Suc.IH) (use Suc.prems unfilled_shrinks [OF ms False Suc.prems(2)] in \<open>simp_all add: parse_returns_def\<close>)
    then show ?thesis using run False by (auto simp: length_0_conv)
  qed
qed simp

lemma short_parse_returns: "\<forall>e\<in>set (log_entries d). length (le_EntryData e) < 2 ^ 32 \<Longrightarrow> parse_returns parse d"
  by (auto simp: parse_returns_def ParseLogEntry_def Let_def split: sum.split)

text \<open>
  C23. The loop that the visualization page starts ends, after at most one call more than there are
  entries. When it ends every entry of a certificate that parses has its row of metadata, unless
  a thousand or more entries of the log do not parse: then they fill the batch and hide the rest.
  Entries are shorter than four gigabytes.
\<close>

theorem populate_loop_complete:
  assumes "log_ready d" "\<forall>e\<in>set (log_entries d). length (le_EntryData e) < 2 ^ 32" "length (log_entries d) < fuel"
  shows "\<exists>ms. populate_loop h fuel d = Some (Some (with_metadata d ms)) \<and>
    ((\<forall>e\<in>set (log_entries d). le_EntryType e = 1 \<longrightarrow> parses (ah_parse h) e \<longrightarrow> has_metadata (with_metadata d ms) (le_Index e)) \<or>
     length (filter (\<lambda>e. le_EntryType e = 1 \<and> \<not> parses (ah_parse h) e) (log_entries d)) \<ge> 1000)"
proof -
  have nf: "no_faults d" and dist: "distinct (map le_Index (log_entries d))"
    using assms(1) by (simp_all add: log_ready_def log_inv_def numbered_def)
  have "length (unfilled d) < fuel" using assms(3) length_filter_le unfolding unfilled_def by (rule le_less_trans [rotated])
  from populate_loop_returns [OF nf dist short_parse_returns [OF assms(2)] this]
  obtain ms where ms: "populate_loop h fuel d = Some (Some (with_metadata d ms))"
      "PopulateCertMetadata (ah_parse h) (ah_caNames h) (with_metadata d ms) = (Some (Inr 0), with_metadata d ms)" by blast
  show ?thesis
    using ms(1) populated_complete [OF _ _ ms(2)] nf dist by auto
qed

definition demo_logged_cert :: Certificate where
  "demo_logged_cert = \<lparr>ce_ID = ''1'', ce_SerialNumber = ''01'', ce_CertBlob = [48], ce_ValidFrom = 0, ce_ValidTo = 0, ce_CreatedDate = 0,
     ce_IsRevoked = False, ce_RevokedDate = None, ce_RevokedReason = None, ce_IssuerID = ''ca'', ce_ThumbprintSHA256 = ''''\<rparr>"

definition demo_cert_log :: db where
  "demo_cert_log = snd (AppendDirectEntry (BuildEntry demo_logged_cert) demo_log)"

lemma demo_cert_log_run:
  "log_ready demo_cert_log" "\<exists>t a b. log_entries demo_cert_log = [a, b, BuildEntry demo_logged_cert\<lparr>le_Index := 2, le_CreatedAt := t\<rparr>] \<and>
     length (le_EntryData a) < 100 \<and> length (le_EntryData b) < 100"
proof -
  have ready: "log_ready demo_log" by (rule reachable_ready [OF demo_log_run(1)])
  obtain t t' where rows: "log_entries demo_log = [null_entry\<lparr>le_CreatedAt := t\<rparr>, demo_entry\<lparr>le_Index := 1, le_CreatedAt := t'\<rparr>]"
    using demo_log_rows(1) by blast
  obtain r d' where d': "AppendDirectEntry (BuildEntry demo_logged_cert) demo_log = (r, d')" "no_faults d'" "log_inv d'"
      "appended [BuildEntry demo_logged_cert\<lparr>le_Index := int (length (log_entries demo_log))\<rparr>] demo_log d'"
    using AppendDirectEntry_run [of demo_log "BuildEntry demo_logged_cert"] ready by (auto simp: log_ready_def)
  have eq: "demo_cert_log = d'" by (simp add: demo_cert_log_def d')
  show "log_ready demo_cert_log" using d' by (simp add: eq log_ready_def)
  show "\<exists>t a b. log_entries demo_cert_log = [a, b, BuildEntry demo_logged_cert\<lparr>le_Index := 2, le_CreatedAt := t\<rparr>] \<and>
     length (le_EntryData a) < 100 \<and> length (le_EntryData b) < 100"
    using d'(4) rows by (auto simp: eq appended_def nodes_only_def stamped_def null_entry_def demo_entry_def log_entry_def NullEntryBytes_def)
qed

theorem populate_loop_complete_witness:
  "\<forall>h x. \<exists>d. populate_loop (h\<lparr>ah_parse := \<lambda>_. Inr x\<rparr>) 5 demo_cert_log = Some (Some d) \<and> has_metadata d 2"
proof (intro allI)
  fix h :: admin_Handler and x
  let ?h = "h\<lparr>ah_parse := \<lambda>_. Inr x\<rparr>"
  obtain t a b where es: "log_entries demo_cert_log = [a, b, BuildEntry demo_logged_cert\<lparr>le_Index := 2, le_CreatedAt := t\<rparr>]"
      "length (le_EntryData a) < 100" "length (le_EntryData b) < 100" using demo_cert_log_run(2) by blast
  let ?c = "BuildEntry demo_logged_cert\<lparr>le_Index := 2, le_CreatedAt := t\<rparr>"
  have "length (le_EntryData ?c) < 100" "le_EntryType ?c = 1"
    by (simp_all add: BuildEntry_data demo_logged_cert_def le_bytes_def BuildEntry_def log_entry_def EntryTypeCertificate_def Let_def)
  moreover have "parses (ah_parse ?h) ?c"
    using log_entry_roundtrip [of demo_logged_cert "ah_parse ?h"] by (simp add: parses_def ParseDER_def demo_logged_cert_def)
  ultimately have "\<exists>ms. populate_loop ?h 5 demo_cert_log = Some (Some (with_metadata demo_cert_log ms)) \<and>
      has_metadata (with_metadata demo_cert_log ms) (le_Index ?c)"
    using populate_loop_complete [OF demo_cert_log_run(1), of 5 ?h] es
      length_filter_le [of "\<lambda>e. le_EntryType e = 1 \<and> \<not> parses (ah_parse ?h) e" "log_entries demo_cert_log"]
    by auto
  then show "\<exists>d. populate_loop ?h 5 demo_cert_log = Some (Some d) \<and> has_metadata d 2" by auto
qed


end
