(* ===== verification/Verifiers.thy ===== *)
theory Verifiers
  imports Assertion Json Tlogtiles Localca
begin

text \<open>
  The command line verifiers: \<open>cmd/mtc-tls-verify\<close>, \<open>cmd/mtc-verify-cert\<close> and \<open>cmd/mtc-assertion\<close>. A
  run is what the program prints on the standard output, line by line, and its exit status; what
  it writes to the standard error is left out. Numbers of documents without types are in the range of
  floating point numbers, and texts of times have no escapes. Flags are arguments, and so are the network, the
  files, \<open>url.Parse\<close>, \<open>x509.ParseCertificate\<close> and \<open>time.Time.UnmarshalJSON\<close>. \<open>None\<close> is a panic.
\<close>

section \<open>Programs and their surroundings\<close>

type_synonym run = "string list \<times> int"

text \<open>A GET request: the error of the connection, or the status and the body or the error of reading it.\<close>

type_synonym http_get = "string \<Rightarrow> goerr + int \<times> (goerr + string)"

definition printed :: "string list \<Rightarrow> run \<Rightarrow> run" where
  "printed ls r = (ls @ fst r, snd r)"

definition no_slash :: "string \<Rightarrow> string" where
  "no_slash s = trim_right (\<lambda>c. c = CHR ''/'') s"

text \<open>Decimal numbers padded with zeros, and times as \<open>time.RFC3339\<close> writes them.\<close>

definition padded :: "nat \<Rightarrow> nat \<Rightarrow> string" where
  "padded w n = replicate (w - length (dec_nat n)) CHR ''0'' @ dec_nat n"

definition rfc3339_text :: "go_time \<Rightarrow> string" where
  "rfc3339_text t =
     padded 4 (nat (t_year t)) @ ''-'' @ padded 2 (t_month t) @ ''-'' @ padded 2 (t_day t) @ ''T'' @
     padded 2 (t_hour t) @ '':'' @ padded 2 (t_min t) @ '':'' @ padded 2 (t_sec t) @
     (if t_off t = 0 then ''Z''
      else (if t_off t < 0 then ''-'' else ''+'') @ padded 2 (nat (\<bar>t_off t\<bar> div 3600)) @ '':'' @ padded 2 (nat (\<bar>t_off t\<bar> div 60 mod 60)))"

text \<open>\<open>strings.EqualFold\<close> where one side is hexadecimal: no letter of it folds beyond ASCII.\<close>

definition EqualFold :: "string \<Rightarrow> string \<Rightarrow> bool" where
  "EqualFold s t \<longleftrightarrow> ToLower s = ToLower t"

section \<open>mtc-tls-verify\<close>

record checkResult =
  ck_name :: string
  ck_passed :: bool
  ck_detail :: string

definition check :: "string \<Rightarrow> bool \<Rightarrow> string \<Rightarrow> checkResult" where
  "check name ok detail = \<lparr>ck_name = name, ck_passed = ok, ck_detail = detail\<rparr>"

definition dash :: string where
  "dash = '' '' @ [CHR 0xE2, CHR 0x80, CHR 0x94] @ '' ''"

definition result_line :: "bool \<Rightarrow> checkResult \<Rightarrow> string" where
  "result_line verbose r =
     (if ck_passed r then ''  [PASS] '' @ ck_name r @ (if verbose \<and> ck_detail r \<noteq> '''' then '' ('' @ ck_detail r @ '')'' else '''')
      else ''  [FAIL] '' @ ck_name r @ (if ck_detail r \<noteq> '''' then dash @ ck_detail r else ''''))"

definition printResults :: "bool \<Rightarrow> checkResult list \<Rightarrow> run" where
  "printResults verbose results =
     (let allPassed = list_all ck_passed results in
      (''Verification:'' # map (result_line verbose) results @ ['''', if allPassed then ''Result: MTC-VERIFIED'' else ''Result: VERIFICATION FAILED''],
       if allPassed then 0 else 1))"

definition fetchCheckpoint :: "http_get \<Rightarrow> string \<Rightarrow> goerr + int \<times> string" where
  "fetchCheckpoint http bridgeBase =
     (case http (no_slash bridgeBase @ ''/checkpoint'') of
        Inl err \<Rightarrow> Inl (Wrap ''HTTP GET: %w'' err)
      | Inr (status, body) \<Rightarrow>
        if status \<noteq> 200 then Inl (Errorf ''checkpoint returned HTTP %d'')
        else case body of
          Inl err \<Rightarrow> Inl (Wrap ''read body: %w'' err)
        | Inr text \<Rightarrow>
          let part = (case cut [NL, NL] text of None \<Rightarrow> text | Some (a, _) \<Rightarrow> a);
              lines = Split NL (trim_right (\<lambda>c. c = NL) part) in
          if length lines < 3 then Inl (Errorf ''checkpoint has %d lines, need at least 3'')
          else case ParseInt (lines ! 1) of
            Inl err \<Rightarrow> Inl (Wrap ''parse tree size %q: %w'' err)
          | Inr treeSize \<Rightarrow>
            (case base64_DecodeString (lines ! 2) of
               Inl err \<Rightarrow> Inl (Wrap ''decode root hash: %w'' err)
             | Inr hashBytes \<Rightarrow> Inr (treeSize, ToUpper (hex_EncodeToString hashBytes))))"

subsection \<open>Reading a bundle\<close>

definition and_then :: "goerr + 'a \<Rightarrow> ('a \<Rightarrow> goerr + 'b) \<Rightarrow> goerr + 'b" where
  "and_then r f = (case r of Inl err \<Rightarrow> Inl err | Inr v \<Rightarrow> f v)"

definition dec_int64 :: "int \<Rightarrow> json \<Rightarrow> goerr + int" where
  "dec_int64 old j =
     (case j of JNum n \<Rightarrow> if - (2 ^ 63) \<le> n \<and> n < 2 ^ 63 then Inr n else Inl type_error | JNull \<Rightarrow> Inr old | _ \<Rightarrow> Inl type_error)"

definition dec_uint64 :: "64 word \<Rightarrow> json \<Rightarrow> goerr + 64 word" where
  "dec_uint64 old j =
     (case j of JNum n \<Rightarrow> if 0 \<le> n \<and> n < 2 ^ 64 then Inr (of_int n) else Inl type_error | JNull \<Rightarrow> Inr old | _ \<Rightarrow> Inl type_error)"

definition dec_byte :: "json \<Rightarrow> goerr + byte" where
  "dec_byte j = (case j of JNum n \<Rightarrow> if 0 \<le> n \<and> n < 256 then Inr (of_int n) else Inl type_error | JNull \<Rightarrow> Inr 0 | _ \<Rightarrow> Inl type_error)"

definition dec_bytes :: "bytes \<Rightarrow> json \<Rightarrow> goerr + bytes" where
  "dec_bytes old j = (case j of JStr s \<Rightarrow> base64_DecodeString s | _ \<Rightarrow> dec_slice dec_byte old j)"

definition dec_strings :: "string list \<Rightarrow> json \<Rightarrow> goerr + string list" where
  "dec_strings = dec_slice (dec_string '''')"

text \<open>\<open>time.Time\<close> and a pointer to one; \<open>unmarshal\<close> reads the text between the quotes.\<close>

definition dec_time :: "(string \<Rightarrow> goerr + int) \<Rightarrow> int \<Rightarrow> json \<Rightarrow> goerr + int" where
  "dec_time unmarshal old j =
     (case j of JStr s \<Rightarrow> unmarshal s | JNull \<Rightarrow> Inr old | _ \<Rightarrow> Inl (Errorf ''Time.UnmarshalJSON: input is not a JSON string''))"

definition dec_time_ptr :: "(string \<Rightarrow> goerr + int) \<Rightarrow> int option \<Rightarrow> json \<Rightarrow> goerr + int option" where
  "dec_time_ptr unmarshal old j =
     (if j = JNull then Inr None
      else case dec_time unmarshal (case old of None \<Rightarrow> zero_time | Some t \<Rightarrow> t) j of Inl err \<Rightarrow> Inl err | Inr t \<Rightarrow> Inr (Some t))"

definition zero_CertMeta :: CertMeta where
  "zero_CertMeta = \<lparr>me_CommonName = '''', me_Organization = [], me_OrganizationalUnit = [], me_Country = [], me_Province = [],
     me_Locality = [], me_SerialNumber = '''', me_SANs = [], me_IssuerCN = '''', me_IssuerOrganization = [], me_NotBefore = zero_time,
     me_NotAfter = zero_time, me_KeyAlgorithm = '''', me_SignatureAlgorithm = '''', me_KeyUsage = '''', me_IsCA = False,
     me_ExtKeyUsage = [], me_CRLEndpoints = [], me_OCSPServers = [], me_IssuingCertURL = []\<rparr>"

text \<open>The next field of the document goes into the struct.\<close>

definition into :: "(string \<times> json) list \<Rightarrow> string \<Rightarrow> ('a \<Rightarrow> json \<Rightarrow> goerr + 'a) \<Rightarrow> ('s \<Rightarrow> 'a) \<Rightarrow> ('a \<Rightarrow> 's \<Rightarrow> 's) \<Rightarrow> goerr + 's \<Rightarrow> goerr + 's" where
  "into kvs name f get put r = and_then r (\<lambda>s. and_then (dec_field f name (get s) kvs) (\<lambda>v. Inr (put v s)))"

definition dec_CertMeta :: "(string \<Rightarrow> goerr + int) \<Rightarrow> CertMeta option \<Rightarrow> json \<Rightarrow> goerr + CertMeta option" where
  "dec_CertMeta tm old j =
     (if j = JNull then Inr None
      else and_then (dec_struct j) (\<lambda>kvs.
        let m = (case old of None \<Rightarrow> zero_CertMeta | Some m \<Rightarrow> m);
            r0 = Inr m;
            r1 = into kvs ''common_name'' dec_string me_CommonName (\<lambda>v m. m\<lparr>me_CommonName := v\<rparr>) r0;
            r2 = into kvs ''organization'' dec_strings me_Organization (\<lambda>v m. m\<lparr>me_Organization := v\<rparr>) r1;
            r3 = into kvs ''organizational_unit'' dec_strings me_OrganizationalUnit (\<lambda>v m. m\<lparr>me_OrganizationalUnit := v\<rparr>) r2;
            r4 = into kvs ''country'' dec_strings me_Country (\<lambda>v m. m\<lparr>me_Country := v\<rparr>) r3;
            r5 = into kvs ''province'' dec_strings me_Province (\<lambda>v m. m\<lparr>me_Province := v\<rparr>) r4;
            r6 = into kvs ''locality'' dec_strings me_Locality (\<lambda>v m. m\<lparr>me_Locality := v\<rparr>) r5;
            r7 = into kvs ''serial_number'' dec_string me_SerialNumber (\<lambda>v m. m\<lparr>me_SerialNumber := v\<rparr>) r6;
            r8 = into kvs ''sans'' dec_strings me_SANs (\<lambda>v m. m\<lparr>me_SANs := v\<rparr>) r7;
            r9 = into kvs ''issuer_cn'' dec_string me_IssuerCN (\<lambda>v m. m\<lparr>me_IssuerCN := v\<rparr>) r8;
            r10 = into kvs ''issuer_organization'' dec_strings me_IssuerOrganization (\<lambda>v m. m\<lparr>me_IssuerOrganization := v\<rparr>) r9;
            r11 = into kvs ''not_before'' (dec_time tm) me_NotBefore (\<lambda>v m. m\<lparr>me_NotBefore := v\<rparr>) r10;
            r12 = into kvs ''not_after'' (dec_time tm) me_NotAfter (\<lambda>v m. m\<lparr>me_NotAfter := v\<rparr>) r11;
            r13 = into kvs ''key_algorithm'' dec_string me_KeyAlgorithm (\<lambda>v m. m\<lparr>me_KeyAlgorithm := v\<rparr>) r12;
            r14 = into kvs ''signature_algorithm'' dec_string me_SignatureAlgorithm (\<lambda>v m. m\<lparr>me_SignatureAlgorithm := v\<rparr>) r13;
            r15 = into kvs ''key_usage'' dec_string me_KeyUsage (\<lambda>v m. m\<lparr>me_KeyUsage := v\<rparr>) r14;
            r16 = into kvs ''is_ca'' dec_bool me_IsCA (\<lambda>v m. m\<lparr>me_IsCA := v\<rparr>) r15;
            r17 = into kvs ''ext_key_usage'' dec_strings me_ExtKeyUsage (\<lambda>v m. m\<lparr>me_ExtKeyUsage := v\<rparr>) r16;
            r18 = into kvs ''crl_endpoints'' dec_strings me_CRLEndpoints (\<lambda>v m. m\<lparr>me_CRLEndpoints := v\<rparr>) r17;
            r19 = into kvs ''ocsp_servers'' dec_strings me_OCSPServers (\<lambda>v m. m\<lparr>me_OCSPServers := v\<rparr>) r18;
            r20 = into kvs ''issuing_cert_url'' dec_strings me_IssuingCertURL (\<lambda>v m. m\<lparr>me_IssuingCertURL := v\<rparr>) r19
        in and_then r20 (\<lambda>m. Inr (Some m))))"

definition zero_Bundle :: Bundle where
  "zero_Bundle = \<lparr>bu_LeafIndex = 0, bu_SerialHex = '''', bu_CertDER = [], bu_CertMeta = None, bu_LeafHash = '''', bu_Proof = [],
     bu_TreeSize = 0, bu_RootHash = '''', bu_Checkpoint = '''', bu_MTCMode = False, bu_SubtreeStart = 0, bu_SubtreeEnd = 0,
     bu_Signatures = [], bu_Revoked = False, bu_RevokedAt = None, bu_LogOrigin = '''', bu_CreatedAt = zero_time\<rparr>"

definition dec_Bundle :: "(string \<Rightarrow> goerr + int) \<Rightarrow> json \<Rightarrow> goerr + Bundle" where
  "dec_Bundle tm j = and_then (dec_struct j) (\<lambda>kvs.
     let r0 = Inr zero_Bundle;
         r1 = into kvs ''leaf_index'' dec_int64 bu_LeafIndex (\<lambda>v b. b\<lparr>bu_LeafIndex := v\<rparr>) r0;
         r2 = into kvs ''serial_hex'' dec_string bu_SerialHex (\<lambda>v b. b\<lparr>bu_SerialHex := v\<rparr>) r1;
         r3 = into kvs ''cert_der'' dec_bytes bu_CertDER (\<lambda>v b. b\<lparr>bu_CertDER := v\<rparr>) r2;
         r4 = into kvs ''cert_meta'' (dec_CertMeta tm) bu_CertMeta (\<lambda>v b. b\<lparr>bu_CertMeta := v\<rparr>) r3;
         r5 = into kvs ''leaf_hash'' dec_string bu_LeafHash (\<lambda>v b. b\<lparr>bu_LeafHash := v\<rparr>) r4;
         r6 = into kvs ''proof'' dec_strings bu_Proof (\<lambda>v b. b\<lparr>bu_Proof := v\<rparr>) r5;
         r7 = into kvs ''tree_size'' dec_int64 bu_TreeSize (\<lambda>v b. b\<lparr>bu_TreeSize := v\<rparr>) r6;
         r8 = into kvs ''root_hash'' dec_string bu_RootHash (\<lambda>v b. b\<lparr>bu_RootHash := v\<rparr>) r7;
         r9 = into kvs ''checkpoint'' dec_string bu_Checkpoint (\<lambda>v b. b\<lparr>bu_Checkpoint := v\<rparr>) r8;
         r10 = into kvs ''mtc_mode'' dec_bool bu_MTCMode (\<lambda>v b. b\<lparr>bu_MTCMode := v\<rparr>) r9;
         r11 = into kvs ''subtree_start'' dec_uint64 bu_SubtreeStart (\<lambda>v b. b\<lparr>bu_SubtreeStart := v\<rparr>) r10;
         r12 = into kvs ''subtree_end'' dec_uint64 bu_SubtreeEnd (\<lambda>v b. b\<lparr>bu_SubtreeEnd := v\<rparr>) r11;
         r13 = into kvs ''signatures'' dec_strings bu_Signatures (\<lambda>v b. b\<lparr>bu_Signatures := v\<rparr>) r12;
         r14 = into kvs ''revoked'' dec_bool bu_Revoked (\<lambda>v b. b\<lparr>bu_Revoked := v\<rparr>) r13;
         r15 = into kvs ''revoked_at'' (dec_time_ptr tm) bu_RevokedAt (\<lambda>v b. b\<lparr>bu_RevokedAt := v\<rparr>) r14;
         r16 = into kvs ''log_origin'' dec_string bu_LogOrigin (\<lambda>v b. b\<lparr>bu_LogOrigin := v\<rparr>) r15
     in into kvs ''created_at'' (dec_time tm) bu_CreatedAt (\<lambda>v b. b\<lparr>bu_CreatedAt := v\<rparr>) r16)"

subsection \<open>The checks\<close>

definition serial_hex :: "x509_Certificate \<Rightarrow> string" where
  "serial_hex leaf = ToUpper (hex_EncodeToString (big_Bytes (nat \<bar>x_SerialNumber leaf\<bar>)))"

definition serial_check :: "string \<Rightarrow> Bundle \<Rightarrow> checkResult" where
  "serial_check leafSerial b =
     (if EqualFold leafSerial (bu_SerialHex b) then check ''Certificate serial matches assertion'' True ''''
      else check ''Certificate serial matches assertion'' False (''cert='' @ leafSerial @ '' assertion='' @ bu_SerialHex b))"

definition proof_check :: "Bundle \<Rightarrow> checkResult" where
  "proof_check b =
     (case Verify_bundle b of
        Inl err \<Rightarrow> check ''Merkle inclusion proof valid'' False (error_text err)
      | Inr True \<Rightarrow> check ''Merkle inclusion proof valid'' True ''''
      | Inr False \<Rightarrow> check ''Merkle inclusion proof valid'' False ''proof verification returned false'')"

definition root_check :: "Bundle \<Rightarrow> int \<Rightarrow> string \<Rightarrow> checkResult" where
  "root_check b cpTreeSize cpRootHash =
     (if EqualFold (bu_RootHash b) cpRootHash then check ''Root hash matches checkpoint'' True ''exact match (latest checkpoint)''
      else if bu_TreeSize b \<le> cpTreeSize then
        check ''Root hash matches checkpoint'' True
          (''proof from tree_size='' @ dec_int (bu_TreeSize b) @ '', current='' @ dec_int cpTreeSize @ '' (valid older proof)'')
      else check ''Root hash matches checkpoint'' False
          (''root mismatch and bundle tree_size='' @ dec_int (bu_TreeSize b) @ '' > checkpoint='' @ dec_int cpTreeSize))"

text \<open>The check against the checkpoint, with the lines that it prints; the slices of the two hashes can panic.\<close>

definition checkpoint_check :: "bool \<Rightarrow> http_get \<Rightarrow> string \<Rightarrow> Bundle \<Rightarrow> (string list \<times> checkResult) option" where
  "checkpoint_check verbose http bridge b =
     (case fetchCheckpoint http bridge of
        Inl err \<Rightarrow> Some ([], check ''Root hash matches checkpoint'' False (''failed to fetch checkpoint: '' @ error_text err))
      | Inr (cpTreeSize, cpRootHash) \<Rightarrow>
        if verbose \<and> (length cpRootHash < 16 \<or> length (bu_RootHash b) < 16) then None
        else Some (if verbose then [''  Checkpoint tree_size='' @ dec_int cpTreeSize @ '' root='' @ take 16 cpRootHash @ ''...'',
                     ''  Bundle     tree_size='' @ dec_int (bu_TreeSize b) @ '' root='' @ take 16 (bu_RootHash b) @ ''...''] else [],
               root_check b cpTreeSize cpRootHash))"

definition revocation_check :: "Bundle \<Rightarrow> checkResult" where
  "revocation_check b =
     (if bu_Revoked b then check ''Certificate not revoked'' False ''certificate is marked as revoked in assertion''
      else check ''Certificate not revoked'' True '''')"

definition bundle_lines :: "Bundle \<Rightarrow> string list" where
  "bundle_lines b =
     [''Leaf Index:  '' @ dec_int (bu_LeafIndex b), ''Tree Size:   '' @ dec_int (bu_TreeSize b),
      ''Root Hash:   '' @ (if length (bu_RootHash b) > 16 then take 16 (bu_RootHash b) @ ''...'' else bu_RootHash b),
      ''Proof Depth: '' @ dec_int (int (length (bu_Proof b)))] @
     (if bu_LogOrigin b \<noteq> '''' then [''Log Origin:  '' @ bu_LogOrigin b] else []) @ ['''']"

definition verifyLegacyCert :: "bool \<Rightarrow> (string \<Rightarrow> goerr + int) \<Rightarrow> http_get \<Rightarrow> string \<Rightarrow> x509_Certificate \<Rightarrow> bytes list \<Rightarrow> run option" where
  "verifyLegacyCert verbose tm http bridge leaf scts =
     (let leafSerial = serial_hex leaf;
          hd_lines = [''Format:      Legacy (ECDSA + assertion staple)'', ''Subject:     CN='' @ nm_CommonName (x_Subject leaf),
            ''Serial:      '' @ leafSerial];
          present = ''Assertion present in TLS handshake'' in
      case scts of
        [] \<Rightarrow> Some (printed hd_lines (printResults verbose [check present False ''no SignedCertificateTimestamps in handshake'']))
      | sctData # _ \<Rightarrow>
        (case and_then (json_Unmarshal sctData) (dec_Bundle tm) of
           Inl _ \<Rightarrow> Some (hd_lines, 1)
         | Inr b \<Rightarrow>
           map_option (\<lambda>(ls, ck). printed (hd_lines @ bundle_lines b @ ls) (printResults verbose
               [check present True (dec_int (int (length sctData)) @ '' bytes''), serial_check leafSerial b, proof_check b, ck, revocation_check b]))
             (checkpoint_check verbose http bridge b)))"

definition mtc_lines :: "'r ParsedMTCCert \<Rightarrow> string list" where
  "mtc_lines parsed =
     [''Format:      MTC-spec (id-alg-mtcProof)'', ''Serial/Index: '' @ dec_int (pc_SerialNumber parsed),
      ''Not Before:  '' @ rfc3339_text (pc_NotBefore parsed), ''Not After:   '' @ rfc3339_text (pc_NotAfter parsed)] @
     (case pc_Proof parsed of
        None \<Rightarrow> []
      | Some p \<Rightarrow> [''Subtree:     ['' @ dec_int (uint (mp_Start p)) @ '', '' @ dec_int (uint (mp_End p)) @ '')'',
          ''Proof Depth: '' @ dec_int (int (length (mp_InclusionProof p))), ''Signatures:  '' @ dec_int (int (length (mp_Signatures p)))]) @ ['''']"

text \<open>The options are empty: no cosigner keys, no landmarks.\<close>

definition no_options :: VerifyOptions where
  "no_options = \<lparr>vo_CosignerKeys = Map.empty, vo_Landmarks = None, vo_LogID = []\<rparr>"

definition mtc_checks :: "(goerr + VerifyResult) \<Rightarrow> checkResult list" where
  "mtc_checks ver =
     (case ver of
        Inl err \<Rightarrow> [check ''Merkle inclusion proof valid'' False (error_text err)]
      | Inr r \<Rightarrow>
        [if vr_ProofValid r then check ''Merkle inclusion proof valid'' True
            (''leaf '' @ dec_int (vr_LeafIndex r) @ '' in subtree ['' @ dec_int (uint (vr_SubtreeStart r)) @ '', '' @ dec_int (uint (vr_SubtreeEnd r)) @ '')'')
         else check ''Merkle inclusion proof valid'' False ''proof verification returned false'',
         check ''Verification mode'' True
           (if vr_SignaturesVerified r > 0 then ''signed ('' @ dec_int (int (vr_SignaturesVerified r)) @ '' cosigners)'' else vr_Mode r)])"

definition verifyMTCCert :: "bool \<Rightarrow> (bytes \<Rightarrow> 'r option) \<Rightarrow> bytes \<Rightarrow> run option" where
  "verifyMTCCert verbose rdn certDER =
     (case ParseMTCCertificate rdn certDER of
        Inl _ \<Rightarrow> Some ([], 1)
      | Inr parsed \<Rightarrow>
        let received = check ''MTC certificate received via TLS'' True (''serial='' @ dec_int (pc_SerialNumber parsed)) in
        (case pc_Proof parsed of
           None \<Rightarrow> Some (printed (mtc_lines parsed) (printResults verbose [received, check ''MTCProof present in signatureValue'' False ''no proof found'']))
         | Some p \<Rightarrow>
           map_option (\<lambda>ver. printed (mtc_lines parsed) (printResults verbose
               ([received, check ''MTCProof present in signatureValue'' True
                   (''subtree ['' @ dec_int (uint (mp_Start p)) @ '', '' @ dec_int (uint (mp_End p)) @ ''), '' @
                    dec_int (int (length (mp_InclusionProof p))) @ '' hashes'')] @ mtc_checks ver)))
             (VerifyMTCCert rdn certDER no_options)))"

text \<open>
  What the handshake leaves: the certificates of the server, each with its DER, and the
  extension with the staple. \<open>url_Parse\<close> gives scheme and host.
\<close>

record tls_state =
  ts_PeerCertificates :: "(bytes \<times> x509_Certificate) list"
  ts_SignedCertificateTimestamps :: "bytes list"

record tls_verify =
  tv_url_Parse :: "string \<Rightarrow> (string \<times> string) option"
  tv_Dial :: "string \<Rightarrow> tls_state option"
  tv_http :: http_get
  tv_time :: "string \<Rightarrow> goerr + int"
  tv_serverURL :: string
  tv_bridgeURL :: string
  tv_verbose :: bool

definition host_port :: "string \<Rightarrow> string \<Rightarrow> string" where
  "host_port scheme host = (if Contains host '':'' then host else host @ (if scheme = ''https'' then '':443'' else '':80''))"

definition tls_verify_main :: "(bytes \<Rightarrow> 'r option) \<Rightarrow> tls_verify \<Rightarrow> run option" where
  "tls_verify_main rdn c =
     (case tv_url_Parse c (tv_serverURL c) of
        None \<Rightarrow> Some ([], 1)
      | Some (scheme, h) \<Rightarrow>
        let host = host_port scheme h;
            title = [''MTC TLS Verification Report'', ''===========================''] @
              (if tv_verbose c then [''Connecting to '' @ host @ ''...''] else []) in
        (case tv_Dial c host of
           None \<Rightarrow> Some (title, 1)
         | Some state \<Rightarrow>
           (case ts_PeerCertificates state of
              [] \<Rightarrow> Some (title, 1)
            | (raw, leaf) # _ \<Rightarrow>
              map_option (printed (title @ [''Server:      '' @ host]))
                (if IsMTCCertificate raw then verifyMTCCert (tv_verbose c) rdn raw
                 else verifyLegacyCert (tv_verbose c) (tv_time c) (tv_http c) (tv_bridgeURL c) leaf (ts_SignedCertificateTimestamps state)))))"


section \<open>mtc-verify-cert\<close>

text \<open>\<open>json.NewDecoder(r).Decode\<close> reads one document and leaves what follows it.\<close>

definition json_Decode :: "string \<Rightarrow> goerr + json" where
  "json_Decode text =
     (case json_value (2 * length text + 2) text of None \<Rightarrow> Inl (Errorf ''invalid character'') | Some (v, _) \<Rightarrow> Inr v)"

text \<open>The answer of the bridge about an entry, where only the size is printed.\<close>

definition dec_liveProof :: "json \<Rightarrow> goerr + string \<times> int" where
  "dec_liveProof j = and_then (dec_struct j) (\<lambda>kvs.
     and_then (dec_field dec_string ''leaf_hash'' '''' kvs) (\<lambda>leafHash.
     and_then (dec_field dec_int64 ''tree_size'' 0 kvs) (\<lambda>treeSize. Inr (leafHash, treeSize))))"

definition live_proof :: "http_get \<Rightarrow> string \<Rightarrow> int \<Rightarrow> string list" where
  "live_proof http bridge index =
     (case http (no_slash bridge @ ''/proof/inclusion?index='' @ dec_int index) of
        Inl err \<Rightarrow> [''[SKIP] Could not fetch live proof: '' @ error_text err]
      | Inr (status, body) \<Rightarrow>
        if status = 200 then
          (case and_then body (\<lambda>text. and_then (json_Decode text) dec_liveProof) of
             Inl _ \<Rightarrow> []
           | Inr (_, treeSize) \<Rightarrow> [''[PASS] Entry exists in live log at index '' @ dec_int index @ '' (tree_size='' @ dec_int treeSize @ '')''])
        else [])"

text \<open>
  The size that a proof is for against the size of the live checkpoint. The two formats print
  what they compare under different names.
\<close>

definition live_checkpoint :: "http_get \<Rightarrow> string \<Rightarrow> string \<Rightarrow> int \<Rightarrow> int \<Rightarrow> string list" where
  "live_checkpoint http bridge name claimed index =
     (case http (no_slash bridge @ ''/checkpoint'') of
        Inl err \<Rightarrow> [''[SKIP] Could not fetch checkpoint: '' @ error_text err]
      | Inr (status, body) \<Rightarrow>
        (case body of
           Inl err \<Rightarrow> [''[SKIP] Could not read checkpoint: '' @ error_text err]
         | Inr text \<Rightarrow>
           if status \<noteq> 200 then [''[SKIP] Bridge returned '' @ dec_int status @ '' for checkpoint'']
           else let lines = Split NL text in
           if length lines < 3 then [''[SKIP] Invalid checkpoint format'']
           else case ParseInt (lines ! 1) of
             Inl err \<Rightarrow> [''[SKIP] Invalid tree size in checkpoint: '' @ error_text err]
           | Inr liveTreeSize \<Rightarrow>
             (if claimed \<le> liveTreeSize
              then ''[PASS] '' @ name @ '' ('' @ dec_int claimed @ '') <= live tree size ('' @ dec_int liveTreeSize @ '')''
              else ''[WARN] '' @ name @ '' ('' @ dec_int claimed @ '') > live tree size ('' @ dec_int liveTreeSize @ '')'') #
             live_proof http bridge index))"

definition verifyMTCCheckpoint :: "http_get \<Rightarrow> string \<Rightarrow> 'r ParsedMTCCert \<Rightarrow> MTCProof \<Rightarrow> string list" where
  "verifyMTCCheckpoint http bridge parsed p =
     live_checkpoint http bridge ''Subtree end'' (sint (mp_End p)) (pc_SerialNumber parsed)"

definition verifyCheckpoint :: "http_get \<Rightarrow> string \<Rightarrow> InclusionProofExt \<Rightarrow> string list" where
  "verifyCheckpoint http bridge p = live_checkpoint http bridge ''Proof tree size'' (ip_TreeSize p) (ip_LeafIndex p)"

definition bridge_section :: "string \<Rightarrow> string list \<Rightarrow> string list" where
  "bridge_section bridge ls = (if bridge \<noteq> '''' then ['''', ''--- Bridge Checkpoint ---''] @ ls else [])"

definition hash_lines :: "bytes list \<Rightarrow> string list" where
  "hash_lines hs = map (\<lambda>i. ''  hash['' @ dec_int (int i) @ '']: '' @ hex_EncodeToString (hs ! i)) [0..<length hs]"

text \<open>\<open>%d\<close> on a slice of bytes.\<close>

definition printed_bytes :: "bytes \<Rightarrow> string" where
  "printed_bytes bs = ''['' @ Join '' '' (map (\<lambda>b. dec_int (uint b)) bs) @ '']''"

definition sig_lines :: "MTCSignature list \<Rightarrow> string list" where
  "sig_lines sigs = map (\<lambda>i. ''  sig['' @ dec_int (int i) @ '']: cosigner_id='' @ printed_bytes (ms_CosignerID (sigs ! i)) @ '', '' @
     dec_int (int (length (ms_Signature (sigs ! i)))) @ '' bytes'') [0..<length sigs]"

definition proof_lines_of :: "MTCProof \<Rightarrow> string list" where
  "proof_lines_of p =
     [''--- MTCProof ---'', ''Subtree:        ['' @ dec_int (uint (mp_Start p)) @ '', '' @ dec_int (uint (mp_End p)) @ '')'',
      ''Inclusion proof: '' @ dec_int (int (length (mp_InclusionProof p))) @ '' hashes''] @ hash_lines (mp_InclusionProof p) @
     [''Signatures:     '' @ dec_int (int (length (mp_Signatures p)))] @ sig_lines (mp_Signatures p) @
     [if mp_Signatures p = [] then ''Mode:           signatureless''
      else ''Mode:           signed ('' @ dec_int (int (length (mp_Signatures p))) @ '' cosigners)'', '''']"

definition verdict_lines :: "VerifyResult \<Rightarrow> string list" where
  "verdict_lines r =
     [if vr_ProofValid r then ''[PASS] Inclusion proof valid (leaf '' @ dec_int (vr_LeafIndex r) @ '' in subtree ['' @
         dec_int (uint (vr_SubtreeStart r)) @ '', '' @ dec_int (uint (vr_SubtreeEnd r)) @ ''))''
      else ''[FAIL] Inclusion proof invalid'',
      ''[INFO] Mode: '' @ vr_Mode r] @
     (if vr_SignaturesVerified r > 0 then [''[INFO] '' @ dec_int (int (vr_SignaturesVerified r)) @ '' cosigner signatures present''] else [])"

definition verifyMTCFormat :: "(bytes \<Rightarrow> 'r option) \<Rightarrow> http_get \<Rightarrow> string \<Rightarrow> bytes \<Rightarrow> run option" where
  "verifyMTCFormat rdn http bridge certDER =
     (let title = [''=== MTC-Spec Certificate Verification ==='', ''''] in
      case ParseMTCCertificate rdn certDER of
        Inl _ \<Rightarrow> Some (title, 1)
      | Inr parsed \<Rightarrow>
        let about = title @ [''Format:       MTC-spec (signatureAlgorithm = id-alg-mtcProof)'', ''Serial/Index: '' @ dec_int (pc_SerialNumber parsed),
              ''Not Before:   '' @ rfc3339_text (pc_NotBefore parsed), ''Not After:    '' @ rfc3339_text (pc_NotAfter parsed),
              ''Extensions:   '' @ dec_int (int (case pc_Extensions parsed of None \<Rightarrow> 0 | Some xs \<Rightarrow> length xs)), ''''] in
        (case pc_Proof parsed of
           None \<Rightarrow> Some (about @ [''[FAIL] No MTCProof found in signatureValue''], 1)
         | Some p \<Rightarrow>
           map_option (\<lambda>ver. printed (about @ proof_lines_of p)
               (case ver of
                  Inl err \<Rightarrow> ([''[FAIL] Verification error: '' @ error_text err], 1)
                | Inr r \<Rightarrow> (verdict_lines r @ bridge_section bridge (verifyMTCCheckpoint http bridge parsed p), 0)))
             (VerifyMTCCert rdn certDER no_options)))"

definition legacy_lines :: "x509_Certificate \<Rightarrow> string list" where
  "legacy_lines cert =
     [''Format:     Legacy (ECDSA + X.509 extension)'', ''Subject:    '' @ nm_CommonName (x_Subject cert),
      ''Issuer:     '' @ nm_CommonName (x_Issuer cert), ''Serial:     '' @ dec_int (x_SerialNumber cert),
      ''Not Before: '' @ rfc3339_text (time_UTC (x_NotBefore cert)), ''Not After:  '' @ rfc3339_text (time_UTC (x_NotAfter cert))] @
     (if x_DNSNames cert \<noteq> [] then [''DNS Names:  '' @ Join '', '' (x_DNSNames cert)] else []) @ ['''']"

definition embedded_lines :: "InclusionProofExt \<Rightarrow> string list" where
  "embedded_lines p =
     [''--- Inclusion Proof ---'', ''Log Origin: '' @ ip_LogOrigin p, ''Leaf Index: '' @ dec_int (ip_LeafIndex p),
      ''Tree Size:  '' @ dec_int (ip_TreeSize p), ''Root Hash:  '' @ hex_EncodeToString (ip_RootHash p),
      ''Proof Path: '' @ dec_int (int (length (ip_ProofHashes p))) @ '' hashes''] @ hash_lines (ip_ProofHashes p) @ ['''']"

definition verifyLegacyFormat :: "x509_parser \<Rightarrow> x509_lib \<Rightarrow> http_get \<Rightarrow> string \<Rightarrow> bytes \<Rightarrow> run option" where
  "verifyLegacyFormat parse lib http bridge certDER =
     (let title = [''=== Legacy Certificate Verification ==='', ''''] in
      case parse certDER of
        Inl _ \<Rightarrow> Some (title, 1)
      | Inr cert \<Rightarrow>
        (case VerifyEmbeddedProof lib certDER of
           (_, _, Some err) \<Rightarrow> Some (title @ legacy_lines cert @ [''[FAIL] '' @ error_text err], 1)
         | (None, _, None) \<Rightarrow> None
         | (Some p, ok, None) \<Rightarrow>
           Some (title @ legacy_lines cert @ embedded_lines p @
             [if ok then ''[PASS] Merkle inclusion proof verified'' else ''[FAIL] Merkle inclusion proof verification FAILED''] @
             (if ip_Checkpoint p \<noteq> '''' then [''[INFO] Checkpoint: '' @ ip_Checkpoint p] else []) @
             bridge_section bridge (verifyCheckpoint http bridge p), 0)))"

record verify_cert =
  vc_files :: files
  vc_pem_Decode :: "bytes \<Rightarrow> (string \<times> bytes) option"
  vc_parse :: x509_parser
  vc_x509 :: x509_lib
  vc_http :: http_get
  vc_certFile :: string
  vc_bridgeURL :: string

definition verify_cert_main :: "(bytes \<Rightarrow> 'r option) \<Rightarrow> verify_cert \<Rightarrow> run option" where
  "verify_cert_main rdn c =
     (if vc_certFile c = '''' then Some ([], 1)
      else case vc_files c (vc_certFile c) of
        None \<Rightarrow> Some ([], 1)
      | Some certPEM \<Rightarrow>
        (case vc_pem_Decode c certPEM of
           None \<Rightarrow> Some ([], 1)
         | Some (_, der) \<Rightarrow>
           if IsMTCCertificate der then verifyMTCFormat rdn (vc_http c) (vc_bridgeURL c) der
           else verifyLegacyFormat (vc_parse c) (vc_x509 c) (vc_http c) (vc_bridgeURL c) der))"


section \<open>mtc-assertion\<close>

subsection \<open>fetch\<close>

record fetch_options =
  fo_url :: string
  fo_serial :: string
  fo_index :: int
  fo_format :: string
  fo_output :: string

text \<open>What goes to the standard output, the file that is written, the exit status. \<open>create\<close> says whether a file can be made.\<close>

definition cmdFetch :: "http_get \<Rightarrow> (string \<Rightarrow> bool) \<Rightarrow> fetch_options \<Rightarrow> string \<times> (string \<times> string) option \<times> int" where
  "cmdFetch http create fo =
     (if fo_serial fo = '''' \<and> fo_index fo < 0 then ('''', None, 1)
      else
        let q = (if fo_serial fo \<noteq> '''' then fo_serial fo else dec_int (fo_index fo));
            url = no_slash (fo_url fo) @ ''/assertion/'' @ q @ (if fo_format fo = ''pem'' then ''/pem'' else '''') in
        (case http url of
           Inl _ \<Rightarrow> ('''', None, 1)
         | Inr (status, body) \<Rightarrow>
           (case body of
              Inl _ \<Rightarrow> ('''', None, 1)
            | Inr text \<Rightarrow>
              if status \<noteq> 200 then ('''', None, 1)
              else if fo_output fo = '''' then (text, None, 0)
              else if create (fo_output fo) then ('''', Some (fo_output fo, text), 0) else ('''', None, 1))))"

subsection \<open>verify\<close>

record bundleForVerify =
  bv_LeafIndex :: int
  bv_LeafHash :: string
  bv_Proof :: "string list"
  bv_TreeSize :: int
  bv_RootHash :: string
  bv_SerialHex :: string
  bv_Revoked :: bool

definition dec_bundleForVerify :: "json \<Rightarrow> goerr + bundleForVerify" where
  "dec_bundleForVerify j = and_then (dec_struct j) (\<lambda>kvs.
     and_then (dec_field dec_int64 ''leaf_index'' 0 kvs) (\<lambda>i.
     and_then (dec_field dec_string ''leaf_hash'' '''' kvs) (\<lambda>lh.
     and_then (dec_field dec_strings ''proof'' [] kvs) (\<lambda>pf.
     and_then (dec_field dec_int64 ''tree_size'' 0 kvs) (\<lambda>n.
     and_then (dec_field dec_string ''root_hash'' '''' kvs) (\<lambda>rh.
     and_then (dec_field dec_string ''serial_hex'' '''' kvs) (\<lambda>sh.
     and_then (dec_field dec_bool ''revoked'' False kvs) (\<lambda>rv.
       Inr \<lparr>bv_LeafIndex = i, bv_LeafHash = lh, bv_Proof = pf, bv_TreeSize = n, bv_RootHash = rh, bv_SerialHex = sh, bv_Revoked = rv\<rparr>))))))))"

text \<open>A hash in hexadecimal; every other length is refused.\<close>

definition hash_of_hex :: "string \<Rightarrow> bytes option" where
  "hash_of_hex s = (case hex_DecodeString s of Inl _ \<Rightarrow> None | Inr b \<Rightarrow> if length b = 32 then Some b else None)"

primrec all_hashes :: "string list \<Rightarrow> bytes list option" where
  "all_hashes [] = Some []"
| "all_hashes (s # ss) =
     (case hash_of_hex s of None \<Rightarrow> None | Some b \<Rightarrow> map_option ((#) b) (all_hashes ss))"

text \<open>The loop over the proof: the sides are the bits of the index.\<close>

primrec climb_proof :: "bytes list \<Rightarrow> int \<Rightarrow> bytes \<Rightarrow> bytes" where
  "climb_proof [] idx current = current"
| "climb_proof (sibling # siblings) idx current =
     climb_proof siblings (go_div idx 2)
       (hash_bytes (Sum256 (1 # (if idx mod 2 = 0 then current @ sibling else sibling @ current))))"

definition cmdVerify :: "files \<Rightarrow> string \<Rightarrow> run" where
  "cmdVerify files input =
     (if input = '''' then ([], 1)
      else case files input of
        None \<Rightarrow> ([], 1)
      | Some data \<Rightarrow>
        (case and_then (json_Unmarshal data) dec_bundleForVerify of
           Inl _ \<Rightarrow> ([], 1)
         | Inr bundle \<Rightarrow>
           (case (hash_of_hex (bv_LeafHash bundle), hash_of_hex (bv_RootHash bundle), all_hashes (bv_Proof bundle)) of
              (Some leafBytes, Some rootBytes, Some proofHashes) \<Rightarrow>
                let current = climb_proof proofHashes (bv_LeafIndex bundle) leafBytes in
                if current = rootBytes
                then ([''Inclusion proof is VALID'', ''  Leaf index: '' @ dec_int (bv_LeafIndex bundle), ''  Tree size:  '' @ dec_int (bv_TreeSize bundle),
                       ''  Root hash:  '' @ bv_RootHash bundle] @ (if bv_Revoked bundle then [''  Certificate is REVOKED''] else []), 0)
                else ([''Inclusion proof is INVALID'', ''  Expected root: '' @ bv_RootHash bundle,
                       ''  Got root:      '' @ hex_EncodeToString current], 1)
            | _ \<Rightarrow> ([], 1))))"

subsection \<open>inspect\<close>

text \<open>
  A field of a document without a type: \<open>fmt_v\<close> is \<open>%v\<close> of such a value and \<open>fmt_float\<close> the text of
  \<open>%.0f\<close> of a number, which is read as a floating point number. Labels fill twenty columns.
\<close>

definition left20 :: "string \<Rightarrow> string" where
  "left20 s = s @ replicate (20 - length s) CHR '' ''"

definition printField :: "(json \<Rightarrow> string) \<Rightarrow> (json \<Rightarrow> string) \<Rightarrow> string \<Rightarrow> json option \<Rightarrow> string list" where
  "printField fmt_v fmt_float label v =
     (let line = (\<lambda>l t. ''  '' @ left20 l @ '' '' @ t); l = label @ '':'' in
      case v of
        None \<Rightarrow> []
      | Some JNull \<Rightarrow> []
      | Some (JStr s) \<Rightarrow> if s = '''' then [] else [line l s]
      | Some (JNum n) \<Rightarrow> [line l (fmt_float (JNum n))]
      | Some (JReal s) \<Rightarrow> [line l (fmt_float (JReal s))]
      | Some (JBool b) \<Rightarrow> [line l (if b then ''true'' else ''false'')]
      | Some (JArr []) \<Rightarrow> []
      | Some (JArr (x # xs)) \<Rightarrow> line l (fmt_v x) # map (\<lambda>y. line '''' (fmt_v y)) xs
      | Some j \<Rightarrow> [line l (fmt_v j)])"

definition lookup :: "json \<Rightarrow> string \<Rightarrow> json option" where
  "lookup j key = (case j of JObj kvs \<Rightarrow> map_of (rev kvs) key | _ \<Rightarrow> None)"

definition inspect_fields :: "(string \<times> string) list" where
  "inspect_fields = [(''Log Origin'', ''log_origin''), (''Leaf Index'', ''leaf_index''), (''Tree Size'', ''tree_size''), (''Serial'', ''serial_hex''),
     (''Revoked'', ''revoked''), (''Leaf Hash'', ''leaf_hash''), (''Root Hash'', ''root_hash'')]"

definition inspect_meta :: "(string \<times> string) list" where
  "inspect_meta = [(''Common Name'', ''common_name''), (''Organization'', ''organization''), (''Serial'', ''serial_number''),
     (''Not Before'', ''not_before''), (''Not After'', ''not_after''), (''Key Algorithm'', ''key_algorithm''),
     (''Sig Algorithm'', ''signature_algorithm''), (''Issuer CN'', ''issuer_cn''), (''SANs'', ''sans''), (''Key Usage'', ''key_usage''),
     (''Ext Key Usage'', ''ext_key_usage''), (''Is CA'', ''is_ca'')]"

definition cmdInspect :: "(json \<Rightarrow> string) \<Rightarrow> (json \<Rightarrow> string) \<Rightarrow> files \<Rightarrow> string \<Rightarrow> run" where
  "cmdInspect fmt_v fmt_float files input =
     (if input = '''' then ([], 1)
      else case files input of
        None \<Rightarrow> ([], 1)
      | Some data \<Rightarrow>
        (case and_then (json_Unmarshal data) (\<lambda>j. and_then (dec_struct j) (\<lambda>kvs. Inr (JObj kvs))) of
           Inl _ \<Rightarrow> ([], 1)
         | Inr bundle \<Rightarrow>
           (let fld = (\<lambda>j. concat \<circ> map (\<lambda>(label, key). printField fmt_v fmt_float label (lookup j key))) in
            ([''=== MTC Assertion Bundle ==='', ''''] @ fld bundle inspect_fields @
             (case lookup bundle ''proof'' of
                Some (JArr hs) \<Rightarrow> (''  '' @ left20 ''Proof Length:'' @ '' '' @ dec_int (int (length hs)) @ '' hashes'') #
                  map (\<lambda>i. ''    ['' @ dec_int (int i) @ ''] '' @ fmt_v (hs ! i)) [0..<length hs]
              | _ \<Rightarrow> []) @
             (case lookup bundle ''cert_meta'' of
                Some (JObj kvs) \<Rightarrow> ['''', ''--- Certificate Details ---''] @ fld (JObj kvs) inspect_meta
              | _ \<Rightarrow> []) @
             (case lookup bundle ''checkpoint'' of Some (JStr cp) \<Rightarrow> ['''', ''--- Checkpoint ---'', cp] | _ \<Rightarrow> []), 0))))"

text \<open>The command word; the texts of the usage are left out.\<close>

datatype command = Fetch | Verify_command | Inspect | Help | Unknown

definition command_of :: "string list \<Rightarrow> command" where
  "command_of args =
     (if length args < 2 then Unknown
      else case map_of [(''fetch'', Fetch), (''verify'', Verify_command), (''inspect'', Inspect), (''help'', Help), (''-h'', Help), (''--help'', Help)]
          (args ! 1) of None \<Rightarrow> Unknown | Some c \<Rightarrow> c)"


section \<open>Lemmas\<close>

lemma ascii_hex [simp]: "ascii (hex_EncodeToString bs)"
proof -
  have "(of_char (hex_digit n) :: nat) < 128" if "n < 16" for n
    using that by (simp add: hex_digit_def of_char_of)
  moreover have "unat (b :: byte) div 16 < 16" for b using unat_byte_less [of b] by linarith
  ultimately show ?thesis by (induction bs) (simp_all add: ascii_def hex_EncodeToString_def)
qed

lemma ascii_ToUpper: "ascii s \<Longrightarrow> ascii (ToUpper s)"
  by (auto simp: ascii_def ToUpper_def to_upper_def list_all_iff of_char_of Let_def)

text \<open>A checkpoint as the log signs it is read back.\<close>

lemma fetchCheckpoint_note:
  assumes "NL \<notin> set origin" "- (2 ^ 63) \<le> n" "n < 2 ^ 63"
    and "http (no_slash bridge @ ''/checkpoint'') = Inr (200, Inr (checkpoint_body origin n h @ NL # t))"
  shows "fetchCheckpoint http bridge = Inr (n, ToUpper (hex_EncodeToString (hash_bytes h)))"
proof -
  let ?d = "dec_int n" and ?r = "base64_EncodeToString (hash_bytes h)"
  let ?p = "origin @ NL # ?d @ NL # ?r"
  have trim: "trim_right (\<lambda>c. c = NL) ?p = ?p"
    using root_line [of h] by (intro trim_right_id) simp
  have lines: "Split NL ?p = [origin, ?d, ?r]"
    using Split_append [OF assms(1)] Split_append [OF dec_int_no_NL(1)] Split_no_sep [OF root_line(2)] by simp
  show ?thesis
    using assms(4) lines ParseInt_dec_int [OF assms(2,3)]
    by (simp add: fetchCheckpoint_def cut_note [OF assms(1)] trim Let_def)
qed

lemma fetchCheckpoint_signed:
  assumes "SignCheckpoint cr c n h = Inr (note, sig)" "NL \<notin> set (cs_origin c)" "- (2 ^ 63) \<le> n" "n < 2 ^ 63"
    and "http (no_slash bridge @ ''/checkpoint'') = Inr (200, Inr note)"
  shows "fetchCheckpoint http bridge = Inr (n, ToUpper (hex_EncodeToString (hash_bytes h)))"
proof -
  obtain t where "note = checkpoint_body (cs_origin c) n h @ NL # t"
    using assms(1) by (auto simp: SignCheckpoint_def Let_def split: sum.splits)
  with assms(5) show ?thesis by (intro fetchCheckpoint_note [OF assms(2-4)]) simp
qed

text \<open>The run of the checks when none of them fails.\<close>

lemma all_passed:
  assumes "and_then (json_Unmarshal sct) (dec_Bundle tm) = Inr b" "fetchCheckpoint http bridge = Inr (n, r)"
    and "EqualFold (serial_hex leaf) (bu_SerialHex b)" "Verify_bundle b = Inr True" "\<not> bu_Revoked b"
    and "EqualFold (bu_RootHash b) r \<or> bu_TreeSize b \<le> n"
  shows "\<exists>ls. verifyLegacyCert False tm http bridge leaf (sct # scts) = Some (ls, 0) \<and> last ls = ''Result: MTC-VERIFIED''"
proof -
  have "ck_passed (serial_check (serial_hex leaf) b)" "ck_passed (proof_check b)" "ck_passed (revocation_check b)" "ck_passed (root_check b n r)"
    using assms(3-6) by (auto simp: serial_check_def proof_check_def revocation_check_def root_check_def check_def)
  then show ?thesis
    using assms(1,2) by (simp add: verifyLegacyCert_def checkpoint_check_def printed_def printResults_def check_def Let_def)
qed

section \<open>What the verifier of connections accepts\<close>

definition forged_bundle :: "string \<Rightarrow> hash \<Rightarrow> json" where
  "forged_bundle serial h = JObj [(''serial_hex'', JStr serial), (''leaf_hash'', JStr (hex_EncodeToString (hash_bytes h))),
     (''tree_size'', JNum 1), (''root_hash'', JStr (hex_EncodeToString (hash_bytes h)))]"

lemma dec_forged:
  "dec_Bundle tm (forged_bundle serial h) = Inr (zero_Bundle\<lparr>bu_SerialHex := serial, bu_LeafHash := hex_EncodeToString (hash_bytes h),
     bu_TreeSize := 1, bu_RootHash := hex_EncodeToString (hash_bytes h)\<rparr>)"
  by (simp add: dec_Bundle_def forged_bundle_def dec_struct_def and_then_def into_def ToLower_def to_lower_def dec_string_def dec_int64_def zero_Bundle_def)

text \<open>
  C19. \<open>mtc-tls-verify\<close> calls a connection verified for any certificate whatever, whether it was ever
  logged or not, when the server staples a bundle that anyone can make up from its serial number:
  a tree of one leaf, an arbitrary hash as leaf and as root, no proof. The check against the
  checkpoint accepts every root of a smaller tree, and no check ties the leaf to the certificate.
\<close>

theorem forged_bundle_verified:
  assumes "fetchCheckpoint http bridge = Inr (n, r)" "1 \<le> n"
  shows "\<exists>ls. verifyLegacyCert False tm http bridge leaf (str_bytes (json_text (forged_bundle (serial_hex leaf) h)) # scts) = Some (ls, 0) \<and>
    last ls = ''Result: MTC-VERIFIED''"
proof (rule all_passed [OF _ assms(1)])
  let ?b = "zero_Bundle\<lparr>bu_SerialHex := serial_hex leaf, bu_LeafHash := hex_EncodeToString (hash_bytes h), bu_TreeSize := 1,
      bu_RootHash := hex_EncodeToString (hash_bytes h)\<rparr>"
  have "plain (forged_bundle (serial_hex leaf) h)"
    by (simp add: forged_bundle_def serial_hex_def ascii_ToUpper) (simp add: ascii_def)
  then show "and_then (json_Unmarshal (str_bytes (json_text (forged_bundle (serial_hex leaf) h)))) (dec_Bundle tm) = Inr ?b"
    by (simp add: json_roundtrip and_then_def dec_forged)
  show "Verify_bundle ?b = Inr True"
    by (simp add: Verify_bundle_def zero_Bundle_def VerifyInclusion_def)
  show "EqualFold (serial_hex leaf) (bu_SerialHex ?b)" "\<not> bu_Revoked ?b" "EqualFold (bu_RootHash ?b) r \<or> bu_TreeSize ?b \<le> n"
    using assms(2) by (simp_all add: EqualFold_def zero_Bundle_def)
qed


theorem forged_bundle_verified_witness:
  "\<forall>leaf h. \<exists>ls. verifyLegacyCert False (\<lambda>_. Inl ErrDB) (\<lambda>_. Inr (200, Inr (checkpoint_body ''log'' 5 3 @ [NL]))) ''http://bridge'' leaf
     [str_bytes (json_text (forged_bundle (serial_hex leaf) h))] = Some (ls, 0) \<and> last ls = ''Result: MTC-VERIFIED''"
proof (intro allI)
  fix leaf h
  have "fetchCheckpoint (\<lambda>_. Inr (200, Inr (checkpoint_body ''log'' 5 3 @ [NL]))) ''http://bridge'' = Inr (5, ToUpper (hex_EncodeToString (hash_bytes 3)))"
    by (rule fetchCheckpoint_note [where t = "[]"]) simp_all
  from forged_bundle_verified [OF this, of "\<lambda>_. Inl ErrDB" leaf h "[]"]
  show "\<exists>ls. verifyLegacyCert False (\<lambda>_. Inl ErrDB) (\<lambda>_. Inr (200, Inr (checkpoint_body ''log'' 5 3 @ [NL]))) ''http://bridge'' leaf
     [str_bytes (json_text (forged_bundle (serial_hex leaf) h))] = Some (ls, 0) \<and> last ls = ''Result: MTC-VERIFIED''" by simp
qed

section \<open>The two verifiers of a bundle\<close>

definition for_verify :: "Bundle \<Rightarrow> bundleForVerify" where
  "for_verify b = \<lparr>bv_LeafIndex = bu_LeafIndex b, bv_LeafHash = bu_LeafHash b, bv_Proof = bu_Proof b, bv_TreeSize = bu_TreeSize b,
     bv_RootHash = bu_RootHash b, bv_SerialHex = bu_SerialHex b, bv_Revoked = bu_Revoked b\<rparr>"

lemma and_then_Inr [simp]: "and_then r f = Inr v \<longleftrightarrow> (\<exists>x. r = Inr x \<and> f x = Inr v)"
  by (cases r) (simp_all add: and_then_def)

lemma dec_for_verify: "dec_Bundle tm j = Inr b \<Longrightarrow> dec_bundleForVerify j = Inr (for_verify b)"
  unfolding dec_Bundle_def dec_bundleForVerify_def into_def Let_def zero_Bundle_def for_verify_def
  by (elim and_then_Inr [THEN iffD1, elim_format] exE conjE) (clarsimp simp: and_then_def)

lemma climb_proof_loop:
  "0 \<le> i \<Longrightarrow> climb_proof (map hash_bytes hs) i (hash_bytes x) = hash_bytes (verifyInclusionLoop hs i x)"
proof (induction hs arbitrary: i x)
  case (Cons h hs)
  have step: "hash_bytes (Sum256 (1 # (if i mod 2 = 0 then hash_bytes x @ hash_bytes h else hash_bytes h @ hash_bytes x))) =
      hash_bytes (if i mod 2 = 0 then InteriorHash x h else InteriorHash h x)"
    by (simp add: InteriorHash_def interior_input_def)
  have "go_div i 2 = i div 2" "0 \<le> i div 2" using Cons.prems by (cases "i = 0"; simp add: go_div_def)+
  then show ?case by (simp only: list.map climb_proof.simps step verifyInclusionLoop.simps Cons.IH)
qed simp

lemma all_hashes_decode:
  "all_hashes ss = Some bss \<Longrightarrow> decode_hashes ss = Inr (map bytes_hash bss) \<and> map hash_bytes (map bytes_hash bss) = bss"
  by (induction ss arbitrary: bss) (auto simp: hash_of_hex_def hash_bytes_bytes_hash split: option.splits sum.splits if_splits)

lemma cmdVerify_run:
  assumes "files input = Some data" "input \<noteq> ''''" "json_Unmarshal data = Inr doc" "dec_Bundle tm doc = Inr b"
  shows "snd (cmdVerify files input) = 0 \<longleftrightarrow>
    (\<exists>lb rb ps. hash_of_hex (bu_LeafHash b) = Some lb \<and> hash_of_hex (bu_RootHash b) = Some rb \<and> all_hashes (bu_Proof b) = Some ps \<and>
       climb_proof ps (bu_LeafIndex b) lb = rb)"
  using assms(1-3) dec_for_verify [OF assms(4)]
  by (simp add: cmdVerify_def and_then_def for_verify_def Let_def split: option.split)

text \<open>
  C22. For an index that is in the tree, \<open>mtc-assertion verify\<close> succeeds for a document exactly when
  all its hashes are 32 bytes in hexadecimal and the \<open>Verify\<close> of the package accepts the bundle. The package
  does not check the lengths: it accepts a bundle of a tree with one entry whose two hashes are empty,
  which the command refuses. The command in turn does not look at the size of the tree, so
  for an index beyond it only the package refuses.
\<close>

theorem cmdVerify_is_Verify:
  assumes "files input = Some data" "input \<noteq> ''''" "json_Unmarshal data = Inr doc" "dec_Bundle tm doc = Inr b"
    and "0 \<le> bu_LeafIndex b" "bu_LeafIndex b < bu_TreeSize b"
  shows "snd (cmdVerify files input) = 0 \<longleftrightarrow>
    Verify_bundle b = Inr True \<and> hash_of_hex (bu_LeafHash b) \<noteq> None \<and> hash_of_hex (bu_RootHash b) \<noteq> None \<and> all_hashes (bu_Proof b) \<noteq> None"
proof -
  have "Verify_bundle b = Inr True \<longleftrightarrow> climb_proof ps (bu_LeafIndex b) lb = rb"
    if h: "hash_of_hex (bu_LeafHash b) = Some lb" "hash_of_hex (bu_RootHash b) = Some rb" "all_hashes (bu_Proof b) = Some ps" for lb rb ps
  proof -
    have d: "hex_DecodeString (bu_LeafHash b) = Inr lb" "length lb = 32" "hex_DecodeString (bu_RootHash b) = Inr rb" "length rb = 32"
      using h by (auto simp: hash_of_hex_def split: sum.splits if_splits)
    note p = all_hashes_decode [OF h(3)]
    have "climb_proof ps (bu_LeafIndex b) lb = hash_bytes (verifyInclusionLoop (map bytes_hash ps) (bu_LeafIndex b) (bytes_hash lb))"
      using climb_proof_loop [OF assms(5), of "map bytes_hash ps" "bytes_hash lb"] p d by (simp add: hash_bytes_bytes_hash)
    moreover have "hash_bytes x = rb \<longleftrightarrow> x = bytes_hash rb" for x using d(4) hash_bytes_bytes_hash by force
    ultimately show ?thesis using assms(5,6) d p by (simp add: Verify_bundle_def VerifyInclusion_def)
  qed
  then show ?thesis using cmdVerify_run [of files input data doc tm b] assms(1-4) by auto
qed

lemma forged_doc: "json_Unmarshal (str_bytes (json_text (forged_bundle ''01'' h))) = Inr (forged_bundle ''01'' h)"
proof (rule json_roundtrip)
  show "plain (forged_bundle ''01'' h)" by (simp add: forged_bundle_def) (simp add: ascii_def)
qed

definition empty_hashes :: json where
  "empty_hashes = JObj [(''leaf_index'', JNum 0), (''leaf_hash'', JStr ''''), (''tree_size'', JNum 1), (''root_hash'', JStr '''')]"

lemma empty_hashes_doc:
  "json_Unmarshal (str_bytes (json_text empty_hashes)) = Inr empty_hashes"
  "dec_Bundle tm empty_hashes = Inr (zero_Bundle\<lparr>bu_TreeSize := 1\<rparr>)"
proof -
  show "json_Unmarshal (str_bytes (json_text empty_hashes)) = Inr empty_hashes"
    by (rule json_roundtrip) (simp add: empty_hashes_def, simp add: ascii_def)
  show "dec_Bundle tm empty_hashes = Inr (zero_Bundle\<lparr>bu_TreeSize := 1\<rparr>)"
    by (simp add: dec_Bundle_def empty_hashes_def zero_Bundle_def into_def and_then_def dec_struct_def ToLower_def to_lower_def dec_string_def dec_int64_def)
qed

theorem cmdVerify_is_Verify_witness:
  "(\<forall>h. snd (cmdVerify (\<lambda>_. Some (str_bytes (json_text (forged_bundle ''01'' h)))) ''bundle.json'') = 0) \<and>
   Verify_bundle (zero_Bundle\<lparr>bu_TreeSize := 1\<rparr>) = Inr True \<and>
   snd (cmdVerify (\<lambda>_. Some (str_bytes (json_text empty_hashes))) ''bundle.json'') \<noteq> 0"
proof (intro conjI allI)
  fix h
  let ?b = "zero_Bundle\<lparr>bu_SerialHex := ''01'', bu_LeafHash := hex_EncodeToString (hash_bytes h), bu_TreeSize := 1,
      bu_RootHash := hex_EncodeToString (hash_bytes h)\<rparr>"
  have "Verify_bundle ?b = Inr True"
    by (simp add: Verify_bundle_def zero_Bundle_def VerifyInclusion_def)
  then show "snd (cmdVerify (\<lambda>_. Some (str_bytes (json_text (forged_bundle ''01'' h)))) ''bundle.json'') = 0"
    using cmdVerify_is_Verify [where files = "\<lambda>_. Some (str_bytes (json_text (forged_bundle ''01'' h)))" and input = "''bundle.json''",
        OF refl _ forged_doc dec_forged [of "\<lambda>_. Inl ErrDB"]] by (simp add: zero_Bundle_def hash_of_hex_def)
next
  show "Verify_bundle (zero_Bundle\<lparr>bu_TreeSize := 1\<rparr>) = Inr True"
    by (simp add: Verify_bundle_def zero_Bundle_def VerifyInclusion_def)
  show "snd (cmdVerify (\<lambda>_. Some (str_bytes (json_text empty_hashes))) ''bundle.json'') \<noteq> 0"
    using cmdVerify_is_Verify [where files = "\<lambda>_. Some (str_bytes (json_text empty_hashes))" and input = "''bundle.json''",
        OF refl _ empty_hashes_doc(1) empty_hashes_doc(2) [of "\<lambda>_. Inl ErrDB"]] by (simp add: zero_Bundle_def hash_of_hex_def)
qed


section \<open>Bundles that the log issued\<close>

text \<open>The document of a bundle on its way: times are written as text.\<close>

primrec with_times :: "(int \<Rightarrow> string) \<Rightarrow> json \<Rightarrow> json" where
  "with_times txt JNull = JNull"
| "with_times txt (JBool b) = JBool b"
| "with_times txt (JNum n) = JNum n"
| "with_times txt (JReal s) = JReal s"
| "with_times txt (JStr s) = JStr s"
| "with_times txt (JTime t) = JStr (txt t)"
| "with_times txt (JArr js) = JArr (map (with_times txt) js)"
| "with_times txt (JObj kvs) = JObj (map (map_prod (\<lambda>k. k) (with_times txt)) kvs)"

definition empties :: "json set" where
  "empties = {JStr '''', JArr [], JNum 0, JBool False, JNull}"

text \<open>A document as a list of members that may be missing; a field is read from the one with its name.\<close>

definition piece :: "string \<Rightarrow> json option \<Rightarrow> (string \<times> json) list" where
  "piece k vo = (case vo of None \<Rightarrow> [] | Some v \<Rightarrow> [(k, v)])"

definition flat :: "(string \<times> json option) list \<Rightarrow> (string \<times> json) list" where
  "flat ps = concat (map (\<lambda>(k, vo). piece k vo) ps)"

definition unless_empty :: "(int \<Rightarrow> string) \<Rightarrow> json \<Rightarrow> json option" where
  "unless_empty txt v = (if v \<in> empties then None else Some (with_times txt v))"

lemma flat_simps: "flat [] = []" "flat ((k, vo) # ps) = piece k vo @ flat ps" "piece k (Some v) = [(k, v)]"
  by (simp_all add: flat_def piece_def)

lemma omit_times: "map (map_prod (\<lambda>k. k) (with_times txt)) (omit_empty k v) = piece k (unless_empty txt v)"
  by (simp add: omit_empty_def empties_def piece_def unless_empty_def)

lemma dec_field_absent: "ToLower n \<notin> (ToLower \<circ> fst) ` set ps \<Longrightarrow> dec_field f n old (flat ps) = Inr old"
  by (induction ps) (auto simp: flat_def piece_def split: option.split)

lemma dec_field_flat:
  assumes "(n, vo) \<in> set ps" "distinct (map (ToLower \<circ> fst) ps)"
  shows "dec_field f n old (flat ps) = (case vo of None \<Rightarrow> Inr old | Some v \<Rightarrow> f old v)"
  using assms
proof (induction ps)
  case (Cons p ps)
  obtain k wo where p: "p = (k, wo)" by (cases p)
  show ?case
  proof (cases "(k, wo) = (n, vo)")
    case True
    then have "ToLower n \<notin> (ToLower \<circ> fst) ` set ps" using Cons.prems(2) p by auto
    then have rest: "dec_field f n x (flat ps) = Inr x" for x by (rule dec_field_absent)
    show ?thesis using True p rest by (cases vo) (simp_all add: flat_simps piece_def split: sum.split)
  next
    case False
    then have mem: "(n, vo) \<in> set ps" using Cons.prems(1) p by auto
    then have "ToLower n \<in> (ToLower \<circ> fst) ` set ps" by force
    moreover have "ToLower k \<notin> (ToLower \<circ> fst) ` set ps" using Cons.prems(2) p by simp
    ultimately have "ToLower k \<noteq> ToLower n" by metis
    then show ?thesis using Cons.IH [OF mem] Cons.prems(2) p by (cases wo) (simp_all add: flat_simps piece_def)
  qed
qed simp

text \<open>What a field of each kind reads back.\<close>

definition reads :: "('a \<Rightarrow> json \<Rightarrow> goerr + 'a) \<Rightarrow> 'a \<Rightarrow> json option \<Rightarrow> 'a \<Rightarrow> bool" where
  "reads f old vo v \<longleftrightarrow> (case vo of None \<Rightarrow> Inr old | Some j \<Rightarrow> f old j) = Inr v"

lemma reads_string: "reads dec_string [] (unless_empty txt (JStr s)) s" "reads dec_string old (Some (JStr s)) s"
  by (simp_all add: reads_def unless_empty_def empties_def dec_string_def)

lemma dec_each_strings: "dec_each (dec_string '''') (map JStr xs) = Inr xs"
  by (induction xs) (simp_all add: dec_string_def)

lemma with_times_strings: "with_times txt (jstrs xs) = jstrs xs"
  by (simp add: jstrs_def)

lemma reads_strings: "reads dec_strings [] (unless_empty txt (jstrs xs)) xs" "reads dec_strings old (Some (jstrs xs)) xs"
proof -
  have d: "dec_strings x (jstrs xs) = Inr xs" for x by (simp add: dec_strings_def dec_slice_def jstrs_def dec_each_strings)
  show "reads dec_strings old (Some (jstrs xs)) xs" by (simp add: reads_def d)
  show "reads dec_strings [] (unless_empty txt (jstrs xs)) xs"
    by (simp add: reads_def unless_empty_def with_times_strings d) (simp add: empties_def jstrs_def)
qed

lemma reads_bool: "reads dec_bool False (unless_empty txt (JBool b)) b" "reads dec_bool old (Some (JBool b)) b"
  by (simp_all add: reads_def unless_empty_def empties_def dec_bool_def)

lemma reads_uint64: "reads dec_uint64 0 (unless_empty txt (JNum (uint w))) w"
  using uint_lt2p [of w] by (auto simp: reads_def unless_empty_def empties_def dec_uint64_def uint_0_iff)

lemma reads_int64: "- (2 ^ 63) \<le> n \<Longrightarrow> n < 2 ^ 63 \<Longrightarrow> reads dec_int64 old (Some (JNum n)) n"
  by (simp add: reads_def dec_int64_def)

lemma reads_bytes: "reads dec_bytes [] (unless_empty txt (JStr (base64_EncodeToString bs))) bs"
proof (cases "base64_EncodeToString bs = ''''")
  case True
  moreover have "base64_DecodeString '''' = Inr []" by (simp add: base64_DecodeString_def skip_newlines_def)
  ultimately have "bs = []" using base64_roundtrip [of bs] by simp
  with True show ?thesis by (simp add: reads_def unless_empty_def empties_def)
qed (simp add: reads_def unless_empty_def empties_def dec_bytes_def)

lemma reads_time: "(\<And>t. tm (txt t) = Inr t) \<Longrightarrow> reads (dec_time tm) old (Some (JStr (txt t))) t"
  by (simp add: reads_def dec_time_def)

lemma into_flat:
  assumes "(n, vo) \<in> set ps" "reads f (get s) vo v" "distinct (map (ToLower \<circ> fst) ps)"
  shows "into (flat ps) n f get put (Inr s) = Inr (put v s)"
  using assms by (simp add: into_def and_then_def dec_field_flat reads_def)

text \<open>The rules for one field: a member that may be missing needs the field to be empty before.\<close>

lemma reads_missing:
  "old = [] \<Longrightarrow> reads dec_string old (unless_empty txt (JStr s)) s"
  "olds = [] \<Longrightarrow> reads dec_strings olds (unless_empty txt (jstrs xs)) xs"
  "oldb = [] \<Longrightarrow> reads dec_bytes oldb (unless_empty txt (JStr (base64_EncodeToString bs))) bs"
  "oldn = 0 \<Longrightarrow> reads dec_uint64 oldn (unless_empty txt (JNum (uint w))) w"
  "\<not> oldt \<Longrightarrow> reads dec_bool oldt (unless_empty txt (JBool b)) b"
  by (simp_all add: reads_string reads_strings reads_bytes reads_uint64 reads_bool)

definition meta_members :: "(int \<Rightarrow> string) \<Rightarrow> CertMeta \<Rightarrow> (string \<times> json option) list" where
  "meta_members txt m =
    [(''common_name'', unless_empty txt (JStr (me_CommonName m))),
     (''organization'', unless_empty txt (jstrs (me_Organization m))),
     (''organizational_unit'', unless_empty txt (jstrs (me_OrganizationalUnit m))),
     (''country'', unless_empty txt (jstrs (me_Country m))),
     (''province'', unless_empty txt (jstrs (me_Province m))),
     (''locality'', unless_empty txt (jstrs (me_Locality m))),
     (''serial_number'', Some (JStr (me_SerialNumber m))),
     (''sans'', unless_empty txt (jstrs (me_SANs m))),
     (''issuer_cn'', unless_empty txt (JStr (me_IssuerCN m))),
     (''issuer_organization'', unless_empty txt (jstrs (me_IssuerOrganization m))),
     (''not_before'', Some (JStr (txt (me_NotBefore m)))),
     (''not_after'', Some (JStr (txt (me_NotAfter m)))),
     (''key_algorithm'', Some (JStr (me_KeyAlgorithm m))),
     (''signature_algorithm'', Some (JStr (me_SignatureAlgorithm m))),
     (''key_usage'', unless_empty txt (JStr (me_KeyUsage m))),
     (''is_ca'', Some (JBool (me_IsCA m))),
     (''ext_key_usage'', unless_empty txt (jstrs (me_ExtKeyUsage m))),
     (''crl_endpoints'', unless_empty txt (jstrs (me_CRLEndpoints m))),
     (''ocsp_servers'', unless_empty txt (jstrs (me_OCSPServers m))),
     (''issuing_cert_url'', unless_empty txt (jstrs (me_IssuingCertURL m)))]"

lemma with_times_CertMeta: "with_times txt (CertMeta_json m) = JObj (flat (meta_members txt m))"
  by (simp add: CertMeta_json_def meta_members_def flat_simps omit_times)

lemma meta_names: "distinct (map (ToLower \<circ> fst) (meta_members txt m))"
proof -
  have "map (ToLower \<circ> fst) (meta_members txt m) = map ToLower [''common_name'', ''organization'', ''organizational_unit'', ''country'', ''province'', ''locality'', ''serial_number'', ''sans'', ''issuer_cn'', ''issuer_organization'', ''not_before'', ''not_after'', ''key_algorithm'', ''signature_algorithm'', ''key_usage'', ''is_ca'', ''ext_key_usage'', ''crl_endpoints'', ''ocsp_servers'', ''issuing_cert_url'']"
    by (simp only: meta_members_def list.map comp_def fst_conv)
  also have "distinct \<dots>" by code_simp
  finally show ?thesis .
qed

lemma into_meta:
  assumes "\<And>t. tm (txt t) = Inr t"
  shows "\<And>put s. me_CommonName s = [] \<Longrightarrow> into (flat (meta_members txt m)) ''common_name'' dec_string me_CommonName put (Inr s) = Inr (put (me_CommonName m) s)"
    "\<And>put s. me_Organization s = [] \<Longrightarrow> into (flat (meta_members txt m)) ''organization'' dec_strings me_Organization put (Inr s) = Inr (put (me_Organization m) s)"
    "\<And>put s. me_OrganizationalUnit s = [] \<Longrightarrow> into (flat (meta_members txt m)) ''organizational_unit'' dec_strings me_OrganizationalUnit put (Inr s) = Inr (put (me_OrganizationalUnit m) s)"
    "\<And>put s. me_Country s = [] \<Longrightarrow> into (flat (meta_members txt m)) ''country'' dec_strings me_Country put (Inr s) = Inr (put (me_Country m) s)"
    "\<And>put s. me_Province s = [] \<Longrightarrow> into (flat (meta_members txt m)) ''province'' dec_strings me_Province put (Inr s) = Inr (put (me_Province m) s)"
    "\<And>put s. me_Locality s = [] \<Longrightarrow> into (flat (meta_members txt m)) ''locality'' dec_strings me_Locality put (Inr s) = Inr (put (me_Locality m) s)"
    "\<And>put s. into (flat (meta_members txt m)) ''serial_number'' dec_string me_SerialNumber put (Inr s) = Inr (put (me_SerialNumber m) s)"
    "\<And>put s. me_SANs s = [] \<Longrightarrow> into (flat (meta_members txt m)) ''sans'' dec_strings me_SANs put (Inr s) = Inr (put (me_SANs m) s)"
    "\<And>put s. me_IssuerCN s = [] \<Longrightarrow> into (flat (meta_members txt m)) ''issuer_cn'' dec_string me_IssuerCN put (Inr s) = Inr (put (me_IssuerCN m) s)"
    "\<And>put s. me_IssuerOrganization s = [] \<Longrightarrow> into (flat (meta_members txt m)) ''issuer_organization'' dec_strings me_IssuerOrganization put (Inr s) = Inr (put (me_IssuerOrganization m) s)"
    "\<And>put s. into (flat (meta_members txt m)) ''not_before'' (dec_time tm) me_NotBefore put (Inr s) = Inr (put (me_NotBefore m) s)"
    "\<And>put s. into (flat (meta_members txt m)) ''not_after'' (dec_time tm) me_NotAfter put (Inr s) = Inr (put (me_NotAfter m) s)"
    "\<And>put s. into (flat (meta_members txt m)) ''key_algorithm'' dec_string me_KeyAlgorithm put (Inr s) = Inr (put (me_KeyAlgorithm m) s)"
    "\<And>put s. into (flat (meta_members txt m)) ''signature_algorithm'' dec_string me_SignatureAlgorithm put (Inr s) = Inr (put (me_SignatureAlgorithm m) s)"
    "\<And>put s. me_KeyUsage s = [] \<Longrightarrow> into (flat (meta_members txt m)) ''key_usage'' dec_string me_KeyUsage put (Inr s) = Inr (put (me_KeyUsage m) s)"
    "\<And>put s. into (flat (meta_members txt m)) ''is_ca'' dec_bool me_IsCA put (Inr s) = Inr (put (me_IsCA m) s)"
    "\<And>put s. me_ExtKeyUsage s = [] \<Longrightarrow> into (flat (meta_members txt m)) ''ext_key_usage'' dec_strings me_ExtKeyUsage put (Inr s) = Inr (put (me_ExtKeyUsage m) s)"
    "\<And>put s. me_CRLEndpoints s = [] \<Longrightarrow> into (flat (meta_members txt m)) ''crl_endpoints'' dec_strings me_CRLEndpoints put (Inr s) = Inr (put (me_CRLEndpoints m) s)"
    "\<And>put s. me_OCSPServers s = [] \<Longrightarrow> into (flat (meta_members txt m)) ''ocsp_servers'' dec_strings me_OCSPServers put (Inr s) = Inr (put (me_OCSPServers m) s)"
    "\<And>put s. me_IssuingCertURL s = [] \<Longrightarrow> into (flat (meta_members txt m)) ''issuing_cert_url'' dec_strings me_IssuingCertURL put (Inr s) = Inr (put (me_IssuingCertURL m) s)"
  unfolding meta_members_def
  by (rule into_flat [OF _ _ meta_names [unfolded meta_members_def]], (rule list.set_intros)+,
      (rule reads_missing, assumption | rule reads_string(2) reads_strings(2) reads_bool(2) reads_time [OF assms]))+

lemma dec_CertMeta_json:
  assumes "\<And>t. tm (txt t) = Inr t"
  shows "dec_CertMeta tm None (with_times txt (CertMeta_json m)) = Inr (Some m)"
  by (simp add: dec_CertMeta_def with_times_CertMeta dec_struct_def and_then_def [of "Inr _"] into_meta [OF assms] Let_def zero_CertMeta_def)

lemma reads_CertMeta:
  assumes "\<And>t. tm (txt t) = Inr t"
  shows "oldm = None \<Longrightarrow> reads (dec_CertMeta tm) oldm (unless_empty txt (case mo of None \<Rightarrow> JNull | Some m \<Rightarrow> CertMeta_json m)) mo"
proof (cases mo)
  case (Some m)
  have "CertMeta_json m \<notin> empties" by (simp add: CertMeta_json_def empties_def)
  then show "oldm = None \<Longrightarrow> reads (dec_CertMeta tm) oldm (unless_empty txt (case mo of None \<Rightarrow> JNull | Some m \<Rightarrow> CertMeta_json m)) mo"
    using dec_CertMeta_json [where m = m, OF assms] Some by (simp add: reads_def unless_empty_def)
qed (simp add: reads_def unless_empty_def empties_def)

lemma reads_time_ptr:
  assumes "\<And>t. tm (txt t) = Inr t"
  shows "oldp = None \<Longrightarrow> reads (dec_time_ptr tm) oldp (unless_empty txt (case p of None \<Rightarrow> JNull | Some t \<Rightarrow> JTime t)) p"
  by (cases p) (simp_all add: reads_def unless_empty_def empties_def dec_time_ptr_def dec_time_def assms)

definition bundle_members :: "(int \<Rightarrow> string) \<Rightarrow> Bundle \<Rightarrow> (string \<times> json option) list" where
  "bundle_members txt b =
    [(''leaf_index'', Some (JNum (bu_LeafIndex b))),
     (''serial_hex'', unless_empty txt (JStr (bu_SerialHex b))),
     (''cert_der'', unless_empty txt (JStr (base64_EncodeToString (bu_CertDER b)))),
     (''cert_meta'', unless_empty txt (case bu_CertMeta b of None \<Rightarrow> JNull | Some m \<Rightarrow> CertMeta_json m)),
     (''leaf_hash'', Some (JStr (bu_LeafHash b))),
     (''proof'', Some (jstrs (bu_Proof b))),
     (''tree_size'', Some (JNum (bu_TreeSize b))),
     (''root_hash'', Some (JStr (bu_RootHash b))),
     (''checkpoint'', Some (JStr (bu_Checkpoint b))),
     (''mtc_mode'', unless_empty txt (JBool (bu_MTCMode b))),
     (''subtree_start'', unless_empty txt (JNum (uint (bu_SubtreeStart b)))),
     (''subtree_end'', unless_empty txt (JNum (uint (bu_SubtreeEnd b)))),
     (''signatures'', unless_empty txt (jstrs (bu_Signatures b))),
     (''revoked'', Some (JBool (bu_Revoked b))),
     (''revoked_at'', unless_empty txt (case bu_RevokedAt b of None \<Rightarrow> JNull | Some t \<Rightarrow> JTime t)),
     (''log_origin'', Some (JStr (bu_LogOrigin b))),
     (''created_at'', Some (JStr (txt (bu_CreatedAt b))))]"

lemma with_times_FormatJSON: "with_times txt (FormatJSON b) = JObj (flat (bundle_members txt b))"
  by (simp add: FormatJSON_def bundle_members_def flat_simps omit_times with_times_strings)

lemma bundle_names: "distinct (map (ToLower \<circ> fst) (bundle_members txt b))"
proof -
  have "map (ToLower \<circ> fst) (bundle_members txt b) = map ToLower [''leaf_index'', ''serial_hex'', ''cert_der'', ''cert_meta'', ''leaf_hash'', ''proof'', ''tree_size'', ''root_hash'', ''checkpoint'', ''mtc_mode'', ''subtree_start'', ''subtree_end'', ''signatures'', ''revoked'', ''revoked_at'', ''log_origin'', ''created_at'']"
    by (simp only: bundle_members_def list.map comp_def fst_conv)
  also have "distinct \<dots>" by code_simp
  finally show ?thesis .
qed

lemma into_bundle:
  assumes "\<And>t. tm (txt t) = Inr t" "- (2 ^ 63) \<le> bu_LeafIndex b" "bu_LeafIndex b < 2 ^ 63" "- (2 ^ 63) \<le> bu_TreeSize b" "bu_TreeSize b < 2 ^ 63"
  shows "\<And>put s. into (flat (bundle_members txt b)) ''leaf_index'' dec_int64 bu_LeafIndex put (Inr s) = Inr (put (bu_LeafIndex b) s)"
    "\<And>put s. bu_SerialHex s = [] \<Longrightarrow> into (flat (bundle_members txt b)) ''serial_hex'' dec_string bu_SerialHex put (Inr s) = Inr (put (bu_SerialHex b) s)"
    "\<And>put s. bu_CertDER s = [] \<Longrightarrow> into (flat (bundle_members txt b)) ''cert_der'' dec_bytes bu_CertDER put (Inr s) = Inr (put (bu_CertDER b) s)"
    "\<And>put s. bu_CertMeta s = None \<Longrightarrow> into (flat (bundle_members txt b)) ''cert_meta'' (dec_CertMeta tm) bu_CertMeta put (Inr s) = Inr (put (bu_CertMeta b) s)"
    "\<And>put s. into (flat (bundle_members txt b)) ''leaf_hash'' dec_string bu_LeafHash put (Inr s) = Inr (put (bu_LeafHash b) s)"
    "\<And>put s. into (flat (bundle_members txt b)) ''proof'' dec_strings bu_Proof put (Inr s) = Inr (put (bu_Proof b) s)"
    "\<And>put s. into (flat (bundle_members txt b)) ''tree_size'' dec_int64 bu_TreeSize put (Inr s) = Inr (put (bu_TreeSize b) s)"
    "\<And>put s. into (flat (bundle_members txt b)) ''root_hash'' dec_string bu_RootHash put (Inr s) = Inr (put (bu_RootHash b) s)"
    "\<And>put s. into (flat (bundle_members txt b)) ''checkpoint'' dec_string bu_Checkpoint put (Inr s) = Inr (put (bu_Checkpoint b) s)"
    "\<And>put s. \<not> bu_MTCMode s \<Longrightarrow> into (flat (bundle_members txt b)) ''mtc_mode'' dec_bool bu_MTCMode put (Inr s) = Inr (put (bu_MTCMode b) s)"
    "\<And>put s. bu_SubtreeStart s = 0 \<Longrightarrow> into (flat (bundle_members txt b)) ''subtree_start'' dec_uint64 bu_SubtreeStart put (Inr s) = Inr (put (bu_SubtreeStart b) s)"
    "\<And>put s. bu_SubtreeEnd s = 0 \<Longrightarrow> into (flat (bundle_members txt b)) ''subtree_end'' dec_uint64 bu_SubtreeEnd put (Inr s) = Inr (put (bu_SubtreeEnd b) s)"
    "\<And>put s. bu_Signatures s = [] \<Longrightarrow> into (flat (bundle_members txt b)) ''signatures'' dec_strings bu_Signatures put (Inr s) = Inr (put (bu_Signatures b) s)"
    "\<And>put s. into (flat (bundle_members txt b)) ''revoked'' dec_bool bu_Revoked put (Inr s) = Inr (put (bu_Revoked b) s)"
    "\<And>put s. bu_RevokedAt s = None \<Longrightarrow> into (flat (bundle_members txt b)) ''revoked_at'' (dec_time_ptr tm) bu_RevokedAt put (Inr s) = Inr (put (bu_RevokedAt b) s)"
    "\<And>put s. into (flat (bundle_members txt b)) ''log_origin'' dec_string bu_LogOrigin put (Inr s) = Inr (put (bu_LogOrigin b) s)"
    "\<And>put s. into (flat (bundle_members txt b)) ''created_at'' (dec_time tm) bu_CreatedAt put (Inr s) = Inr (put (bu_CreatedAt b) s)"
  unfolding bundle_members_def
  by (rule into_flat [OF _ _ bundle_names [unfolded bundle_members_def]], (rule list.set_intros)+,
      (rule reads_missing reads_CertMeta [OF assms(1)] reads_time_ptr [OF assms(1)], assumption |
       rule reads_string(2) reads_strings(2) reads_bool(2) reads_time [OF assms(1)] reads_int64 [OF assms(2,3)] reads_int64 [OF assms(4,5)]))+

lemma bundle_roundtrip:
  assumes "\<And>t. tm (txt t) = Inr t" "- (2 ^ 63) \<le> bu_LeafIndex b" "bu_LeafIndex b < 2 ^ 63" "- (2 ^ 63) \<le> bu_TreeSize b" "bu_TreeSize b < 2 ^ 63"
  shows "dec_Bundle tm (with_times txt (FormatJSON b)) = Inr b"
  by (simp add: dec_Bundle_def with_times_FormatJSON dec_struct_def and_then_def into_bundle [OF assms] Let_def zero_Bundle_def)

text \<open>
  C21. A bundle survives its JSON form: the document that the server makes of a bundle is read back
  by \<open>mtc-tls-verify\<close> as the same bundle, with all its fields and the metadata of the certificate, for
  every way of writing times that is read back.
\<close>

theorem bundle_json_roundtrip:
  assumes "\<And>t. tm (txt t) = Inr t" "- (2 ^ 63) \<le> bu_LeafIndex b" "bu_LeafIndex b < 2 ^ 63" "- (2 ^ 63) \<le> bu_TreeSize b" "bu_TreeSize b < 2 ^ 63"
  shows "dec_Bundle tm (with_times txt (FormatJSON b)) = Inr b"
  using assms by (rule bundle_roundtrip)

definition toy_unmarshal :: "string \<Rightarrow> goerr + int" where
  "toy_unmarshal s = Inr (if HasPrefix s ''-'' then - int (digits_nat (tl s)) else int (digits_nat s))"

lemma toy_unmarshal_dec [simp]: "toy_unmarshal (dec_int t) = Inr t"
proof -
  obtain c cs where "dec_nat (nat t) = c # cs" "c \<noteq> CHR ''-''" using dec_nat_hd [of "nat t"] digit_not_sign(1) by metis
  moreover from this have "int (digits_nat (c # cs)) = int (nat t)" using digits_nat_dec_nat [of "nat t"] by simp
  ultimately show ?thesis by (simp add: toy_unmarshal_def dec_int_def HasPrefix_def)
qed

definition demo_bundle :: Bundle where
  "demo_bundle = zero_Bundle\<lparr>bu_LeafIndex := 3, bu_CertDER := [48, 0], bu_CertMeta := Some (zero_CertMeta\<lparr>me_SANs := [''a''], me_NotAfter := 7\<rparr>),
     bu_Proof := [''00''], bu_TreeSize := 8, bu_SubtreeEnd := 8, bu_Revoked := True, bu_RevokedAt := Some 5, bu_CreatedAt := 9\<rparr>"

theorem bundle_json_roundtrip_witness:
  "dec_Bundle toy_unmarshal (with_times dec_int (FormatJSON demo_bundle)) = Inr demo_bundle"
  by (rule bundle_json_roundtrip) (simp_all add: demo_bundle_def zero_Bundle_def)

lemma plain_flat:
  "list_all (\<lambda>(k, vo). ascii k \<and> (case vo of None \<Rightarrow> True | Some v \<Rightarrow> plain v)) ps \<Longrightarrow> plain (JObj (flat ps))"
proof -
  have obj: "plain (JObj kvs) \<longleftrightarrow> list_all (\<lambda>(k, j). ascii k \<and> plain j) kvs" for kvs
    by (induction kvs) auto
  show "list_all (\<lambda>(k, vo). ascii k \<and> (case vo of None \<Rightarrow> True | Some v \<Rightarrow> plain v)) ps \<Longrightarrow> plain (JObj (flat ps))"
    unfolding obj
  proof (induction ps)
    case (Cons p ps)
    then show ?case by (cases p; cases "snd p") (simp_all add: flat_simps piece_def)
  qed (simp add: flat_simps)
qed

lemma plain_strings: "list_all ascii xs \<Longrightarrow> plain (jstrs xs)"
  by (auto simp: jstrs_def list_all_iff)

lemma ascii_dec [simp]: "ascii (dec_int n)"
proof -
  have "(of_char c :: nat) < 128" if "c \<in> set (dec_nat m)" for c m
    using dec_nat_digits [of m] that by (auto simp: list_all_iff is_digit_def digit_val_def Let_def split: if_splits)
  then show ?thesis by (auto simp: ascii_def dec_int_def list_all_iff)
qed

lemma built_texts:
  assumes "BuildByIndex parse bd idx d = (Some (Inr b), d')"
  shows "bu_Signatures b = [] \<and> bu_LogOrigin b = bd_logOrigin bd"
  using assms by (auto simp: BuildByIndex_def Let_def split: sum.splits prod.splits if_splits option.splits)

definition demo_staple_db :: db where
  "demo_staple_db = demo_log\<lparr>checkpoints := [\<lparr>cp_ID = 1, cp_TreeSize = 2, cp_RootHash = hash_bytes (root_of [NullEntryBytes, [7]]), cp_Timestamp = 0,
     cp_Signature = [], cp_Body = ''note'', cp_CreatedAt = 0\<rparr>]\<rparr>"

lemma demo_staple_ready:
  "log_served demo_staple_db" "entries demo_staple_db = [NullEntryBytes, [7]]" "revoked demo_staple_db = {}"
  "\<exists>t. log_entries demo_staple_db ! 1 = demo_entry\<lparr>le_Index := 1, le_CreatedAt := t\<rparr>"
  "\<exists>cp. LatestCheckpoint demo_staple_db = (Inr cp, demo_staple_db) \<and> cp_true (entries demo_staple_db) cp \<and> cp_TreeSize cp = 2 \<and> cp_Body cp = ''note''"
proof -
  have len: "length (log_entries demo_log) = 2" using arg_cong [OF demo_log_run(2), of length] by (simp add: entries_def)
  show served: "log_served demo_staple_db" and es: "entries demo_staple_db = [NullEntryBytes, [7]]"
    using reachable_ready [OF demo_log_run(1)] demo_log_run(2) len
    by (simp_all add: demo_staple_db_def log_served_def log_ready_def log_inv_def log_size_def entries_def leaves_def no_faults_def)
  show "revoked demo_staple_db = {}" using demo_log_rows(2) by (simp add: demo_staple_db_def revoked_def)
  show "\<exists>t. log_entries demo_staple_db ! 1 = demo_entry\<lparr>le_Index := 1, le_CreatedAt := t\<rparr>"
    using demo_log_rows(1) by (auto simp: demo_staple_db_def)
  have "no_faults demo_staple_db" using served by (simp add: log_served_def log_ready_def)
  then show "\<exists>cp. LatestCheckpoint demo_staple_db = (Inr cp, demo_staple_db) \<and> cp_true (entries demo_staple_db) cp \<and> cp_TreeSize cp = 2 \<and> cp_Body cp = ''note''"
    unfolding es by (simp add: LatestCheckpoint_def run_simps demo_staple_db_def desc_def cp_true_def)
qed

lemma plain_bundle:
  assumes "list_all ascii [bu_SerialHex b, bu_LeafHash b, bu_RootHash b, bu_Checkpoint b, bu_LogOrigin b]" "list_all ascii (bu_Proof b)"
    and "bu_CertDER b = []" "bu_CertMeta b = None" "bu_Signatures b = []"
  shows "plain (with_times dec_int (FormatJSON b))"
proof -
  have names: "list_all ascii [''leaf_index'', ''serial_hex'', ''cert_der'', ''cert_meta'', ''leaf_hash'', ''proof'', ''tree_size'', ''root_hash'',
     ''checkpoint'', ''mtc_mode'', ''subtree_start'', ''subtree_end'', ''signatures'', ''revoked'', ''revoked_at'', ''log_origin'', ''created_at'', '''']"
    by code_simp
  show ?thesis
    unfolding with_times_FormatJSON
    by (rule plain_flat) (use names assms in
      \<open>simp add: bundle_members_def plain_strings unless_empty_def with_times_strings base64_EncodeToString_def split: option.split\<close>)
qed

text \<open>The bundle of the second entry of this log.\<close>

lemma demo_issued:
  obtains b where "BuildByIndex (\<lambda>_. Inl ErrDB) \<lparr>bd_logOrigin = ''log''\<rparr> 1 demo_staple_db = (Some (Inr b), demo_staple_db)"
    "list_all ascii [bu_SerialHex b, bu_LeafHash b, bu_RootHash b, bu_Checkpoint b, bu_LogOrigin b]" "list_all ascii (bu_Proof b)"
    "bu_CertDER b = []" "bu_CertMeta b = None" "bu_Signatures b = []"
proof -
  obtain cp where cp: "LatestCheckpoint demo_staple_db = (Inr cp, demo_staple_db)" "cp_true (entries demo_staple_db) cp" "cp_TreeSize cp = 2 ^ 1"
      "cp_Body cp = ''note''"
    using demo_staple_ready(5) by auto
  obtain t where e: "log_entries demo_staple_db ! 1 = demo_entry\<lparr>le_Index := 1, le_CreatedAt := t\<rparr>" using demo_staple_ready(4) by blast
  obtain b where b: "BuildByIndex (\<lambda>_. Inl ErrDB) \<lparr>bd_logOrigin = ''log''\<rparr> 1 demo_staple_db = (Some (Inr b), demo_staple_db)"
      "bundle_ok demo_staple_db cp 1 b" "entry_cert (\<lambda>_. Inl ErrDB) (log_entries demo_staple_db ! 1) = Some (bu_CertMeta b, bu_CertDER b)"
    using BuildByIndex_run [OF demo_staple_ready(1), of 1 cp "\<lambda>_. Inl ErrDB" "\<lparr>bd_logOrigin = ''log''\<rparr>"] cp e
    by (auto simp: demo_entry_def log_entry_def)
  have names: "list_all ascii [''log'', ''note'', '''']" by code_simp
  have texts: "list_all ascii [bu_SerialHex b, bu_LeafHash b, bu_RootHash b, bu_Checkpoint b, bu_LogOrigin b]"
    using b(2) e cp(4) names built_texts [OF b(1)] by (simp add: bundle_ok_def Let_def demo_entry_def log_entry_def)
  obtain pf where "bu_Proof b = map (\<lambda>h. hex_EncodeToString (hash_bytes h)) pf" using b(2) by (auto simp: bundle_ok_def Let_def)
  then have "list_all ascii (bu_Proof b)" by (simp add: list_all_iff)
  with that [OF b(1) texts] show thesis
    using b(3) e built_texts [OF b(1)] by (simp add: entry_cert_def demo_entry_def log_entry_def)
qed

section \<open>Exit status of the certificate verifier\<close>

text \<open>
  A proof that does not verify is reported on the output only: the exit status of \<open>mtc-verify-cert\<close>
  is zero as for a proof that does, for both formats.
\<close>

lemma failed_proof_exits_zero:
  "ParseMTCCertificate rdn der = Inr parsed \<Longrightarrow> pc_Proof parsed = Some p \<Longrightarrow> VerifyMTCCert rdn der no_options = Some (Inr r) \<Longrightarrow> \<not> vr_ProofValid r \<Longrightarrow>
     \<exists>ls. verifyMTCFormat rdn http bridge der = Some (ls, 0) \<and> ''[FAIL] Inclusion proof invalid'' \<in> set ls"
  "parse der = Inr cert \<Longrightarrow> VerifyEmbeddedProof lib der = (Some q, False, None) \<Longrightarrow>
     \<exists>ls. verifyLegacyFormat parse lib http bridge der = Some (ls, 0) \<and> ''[FAIL] Merkle inclusion proof verification FAILED'' \<in> set ls"
  by (simp_all add: verifyMTCFormat_def verifyLegacyFormat_def printed_def verdict_lines_def Let_def)

end
