(* ===== verification/TlsServer.thy ===== *)
theory TlsServer
  imports Verifiers
begin

text \<open>
  \<open>cmd/mtc-tls-server\<close>: a TLS server that fetches the assertion of its certificate from the bridge,
  again and again, and staples it. The state behind its lock is a record, one round of the
  refresh loop an operation on it. The key parsers, the loading of key pairs, files and the
  network are arguments, and so is \<open>marshal\<close>, which writes a document; marshalling a staple cannot
  fail, because the times in it were read from text. The styles of the status page are left out: a
  page is the list of what it shows.

  The lemmas show which bundle the server staples after any rounds of the loop, that the staple is
  always that of the bundle on the status page, and that the staple of a bundle is read back by
  \<open>mtc-tls-verify\<close>; the property takes a logged certificate from the bridge through this server to
  the verdict of that tool.
\<close>

section \<open>State\<close>

text \<open>\<open>tls.Certificate\<close>, as far as the server fills it in.\<close>

record 'k tls_Certificate =
  tc_Certificate :: "bytes list"
  tc_PrivateKey :: 'k
  tc_SignedCertificateTimestamps :: "bytes list"

record ('r, 'k) assertionState =
  sv_baseCert :: "'k tls_Certificate"
  sv_leaf :: "x509_Certificate option"
  sv_mtcParsed :: "'r ParsedMTCCert option"
  sv_isMTC :: bool
  sv_serial :: string
  sv_bundle :: "Bundle option"
  sv_bundleJSON :: "bytes option"
  sv_fetchedAt :: int
  sv_lastError :: "goerr option"

text \<open>The certificate of a handshake carries the staple when there is one.\<close>

definition getCertificate :: "('r, 'k) assertionState \<Rightarrow> 'k tls_Certificate" where
  "getCertificate s = 
     (case sv_bundleJSON s of
        None \<Rightarrow> sv_baseCert s
      | Some data \<Rightarrow> (sv_baseCert s)\<lparr>tc_SignedCertificateTimestamps := [data]\<rparr>)"

text \<open>\<open>stapleBundle\<close>: the bundle without the certificate and its metadata.\<close>

definition staple_json :: "Bundle \<Rightarrow> json" where
  "staple_json b = JObj (
     [(''leaf_index'', JNum (bu_LeafIndex b))] @
     omit_empty ''serial_hex'' (JStr (bu_SerialHex b)) @
     [(''leaf_hash'', JStr (bu_LeafHash b)), (''proof'', jstrs (bu_Proof b)), (''tree_size'', JNum (bu_TreeSize b)),
      (''root_hash'', JStr (bu_RootHash b)), (''checkpoint'', JStr (bu_Checkpoint b)), (''revoked'', JBool (bu_Revoked b))] @
     omit_empty ''revoked_at'' (case bu_RevokedAt b of None \<Rightarrow> JNull | Some t \<Rightarrow> JTime t) @
     [(''log_origin'', JStr (bu_LogOrigin b)), (''created_at'', JTime (bu_CreatedAt b))])"

text \<open>One round: the request and its answer, then the new state.\<close>

definition fetched :: "(string \<Rightarrow> goerr + int) \<Rightarrow> http_get \<Rightarrow> string \<Rightarrow> string \<Rightarrow> goerr + Bundle" where
  "fetched tm http bridgeBase serial =
     (case http (no_slash bridgeBase @ ''/assertion/'' @ serial) of
        Inl err \<Rightarrow> Inl (Wrap ''fetch: %w'' err)
      | Inr (status, body) \<Rightarrow>
        if status \<noteq> 200 then Inl (Errorf ''bridge returned %d: %s'')
        else (case and_then body (\<lambda>text. and_then (json_Decode text) (dec_Bundle tm)) of
          Inl err \<Rightarrow> Inl (Wrap ''decode: %w'' err)
        | Inr b \<Rightarrow> Inr b))"

definition fetchAssertion ::
    "(string \<Rightarrow> goerr + int) \<Rightarrow> (json \<Rightarrow> bytes) \<Rightarrow> string \<Rightarrow> string \<Rightarrow> http_get \<times> int \<Rightarrow> ('r, 'k) assertionState \<Rightarrow> ('r, 'k) assertionState" where
  "fetchAssertion tm marshal bridgeBase serial = (\<lambda>(http, now) s.
     case fetched tm http bridgeBase serial of
       Inl err \<Rightarrow> s\<lparr>sv_lastError := Some err\<rparr>
     | Inr b \<Rightarrow> s\<lparr>sv_bundle := Some b, sv_bundleJSON := Some (marshal (staple_json b)), sv_fetchedAt := now, sv_lastError := None\<rparr>)"

text \<open>The rounds of the loop: what the network answers in each, and when.\<close>

definition refreshLoop ::
    "(string \<Rightarrow> goerr + int) \<Rightarrow> (json \<Rightarrow> bytes) \<Rightarrow> string \<Rightarrow> string \<Rightarrow> (http_get \<times> int) list \<Rightarrow> ('r, 'k) assertionState \<Rightarrow> ('r, 'k) assertionState" where
  "refreshLoop tm marshal bridgeBase serial rounds s = fold (fetchAssertion tm marshal bridgeBase serial) rounds s"

section \<open>Start\<close>

text \<open>The first parser that accepts the key.\<close>

definition parsePrivateKey :: "(bytes \<Rightarrow> 'k option) \<Rightarrow> (bytes \<Rightarrow> 'k option) \<Rightarrow> (bytes \<Rightarrow> 'k option) \<Rightarrow> bytes \<Rightarrow> goerr + 'k" where
  "parsePrivateKey pkcs8 ec pkcs1 der =
     (case pkcs8 der of
        Some key \<Rightarrow> Inr key
      | None \<Rightarrow> (case ec der of
          Some key \<Rightarrow> Inr key
        | None \<Rightarrow> (case pkcs1 der of Some key \<Rightarrow> Inr key | None \<Rightarrow> Inl (Errorf ''unsupported private key type''))))"

record 'k tls_server =
  ts_files :: files
  ts_pem_Decode :: "bytes \<Rightarrow> (string \<times> bytes) option"
  ts_pkcs8 :: "bytes \<Rightarrow> 'k option"
  ts_ec :: "bytes \<Rightarrow> 'k option"
  ts_pkcs1 :: "bytes \<Rightarrow> 'k option"
  ts_LoadX509KeyPair :: "bytes \<Rightarrow> bytes option \<Rightarrow> (bytes list \<times> 'k) option"
  ts_parse :: x509_parser
  ts_certFile :: string
  ts_keyFile :: string
  ts_bridgeURL :: string
  ts_listenAddr :: string

definition new_state :: "bytes list \<Rightarrow> 'k \<Rightarrow> string \<Rightarrow> ('r, 'k) assertionState" where
  "new_state chain privKey serial = \<lparr>sv_baseCert = \<lparr>tc_Certificate = chain, tc_PrivateKey = privKey, tc_SignedCertificateTimestamps = []\<rparr>, sv_leaf = None, sv_mtcParsed = None, sv_isMTC = False, sv_serial = serial, sv_bundle = None, sv_bundleJSON = None,
     sv_fetchedAt = zero_time, sv_lastError = None\<rparr>"

text \<open>A certificate with a Merkle proof needs its key only; nothing is fetched for it.\<close>

definition start_mtc :: "(bytes \<Rightarrow> 'r option) \<Rightarrow> 'k tls_server \<Rightarrow> bytes \<Rightarrow> (string list \<times> ('r, 'k) assertionState) option" where
  "start_mtc rdn c der =
     (case ParseMTCCertificate rdn der of
        Inl _ \<Rightarrow> None
      | Inr parsed \<Rightarrow>
     (case ts_files c (ts_keyFile c) of
        None \<Rightarrow> None
      | Some keyPEM \<Rightarrow>
     (case ts_pem_Decode c keyPEM of
        None \<Rightarrow> None
      | Some (_, keyDER) \<Rightarrow>
     (case parsePrivateKey (ts_pkcs8 c) (ts_ec c) (ts_pkcs1 c) keyDER of
        Inl _ \<Rightarrow> None
      | Inr privKey \<Rightarrow>
          Some ([''MTC TLS Server (MTC-spec mode)'', ''  Serial/Index: '' @ dec_int (pc_SerialNumber parsed),
             ''  Not Before:   '' @ rfc3339_text (pc_NotBefore parsed), ''  Not After:    '' @ rfc3339_text (pc_NotAfter parsed),
             ''  Listen:       '' @ ts_listenAddr c, ''  Bridge:       '' @ ts_bridgeURL c] @
             (case pc_Proof parsed of
                None \<Rightarrow> []
              | Some p \<Rightarrow> [''  Subtree:      ['' @ dec_int (uint (mp_Start p)) @ '', '' @ dec_int (uint (mp_End p)) @ '')'',
                  ''  Proof hashes: '' @ dec_int (int (length (mp_InclusionProof p))), ''  Signatures:   '' @ dec_int (int (length (mp_Signatures p)))]) @
             ['''', ''MTC proof embedded in certificate (no bridge assertion needed)''],
           (new_state [der] privKey (dec_int (pc_SerialNumber parsed)))\<lparr>sv_mtcParsed := Some parsed, sv_isMTC := True\<rparr>)))))"

text \<open>Any other certificate is loaded with its key, as a chain that is never empty, and its assertion is fetched once before the loop.\<close>

definition start_legacy :: "(string \<Rightarrow> goerr + int) \<Rightarrow> (json \<Rightarrow> bytes) \<Rightarrow> http_get \<times> int \<Rightarrow> 'k tls_server \<Rightarrow> bytes \<Rightarrow> (string list \<times> ('r, 'k) assertionState) option" where
  "start_legacy tm marshal first c certPEM =
     (case ts_LoadX509KeyPair c certPEM (ts_files c (ts_keyFile c)) of
        None \<Rightarrow> None
      | Some ([], _) \<Rightarrow> None
      | Some (der # chain, privKey) \<Rightarrow>
     (case ts_parse c der of
        Inl _ \<Rightarrow> None
      | Inr leaf \<Rightarrow>
        let serial = serial_hex leaf;
            s = fetchAssertion tm marshal (ts_bridgeURL c) serial first ((new_state (der # chain) privKey serial)\<lparr>sv_leaf := Some leaf\<rparr>) in
        Some ([''MTC TLS Server'', ''  Subject:    '' @ nm_CommonName (x_Subject leaf), ''  Serial:     '' @ serial,
           ''  Listen:     '' @ ts_listenAddr c, ''  Bridge:     '' @ ts_bridgeURL c, '''',
           ''Fetching MTC assertion... '' @
             (case sv_bundle s of
                Some b \<Rightarrow> ''OK (leaf='' @ dec_int (bu_LeafIndex b) @ '', tree_size='' @ dec_int (bu_TreeSize b) @ '')''
              | None \<Rightarrow> ''not available yet (will retry)'')], s)))"

definition tls_server_start ::
    "(bytes \<Rightarrow> 'r option) \<Rightarrow> (string \<Rightarrow> goerr + int) \<Rightarrow> (json \<Rightarrow> bytes) \<Rightarrow> http_get \<times> int \<Rightarrow> 'k tls_server \<Rightarrow> (string list \<times> ('r, 'k) assertionState) option" where
  "tls_server_start rdn tm marshal first c =
     (case ts_files c (ts_certFile c) of
        None \<Rightarrow> None
      | Some certPEM \<Rightarrow>
     (case ts_pem_Decode c certPEM of
        None \<Rightarrow> None
      | Some (_, der) \<Rightarrow> if IsMTCCertificate der then start_mtc rdn c der else start_legacy tm marshal first c certPEM))"

text \<open>The rounds that run: none with an interval of zero, and none for a certificate with its own proof.\<close>

definition serve_rounds :: "(string \<Rightarrow> goerr + int) \<Rightarrow> (json \<Rightarrow> bytes) \<Rightarrow> int \<Rightarrow> string \<Rightarrow> (http_get \<times> int) list \<Rightarrow> ('r, 'k) assertionState \<Rightarrow> ('r, 'k) assertionState" where
  "serve_rounds tm marshal refreshSec bridge rounds s =
     (if refreshSec > 0 \<and> \<not> sv_isMTC s then refreshLoop tm marshal bridge (sv_serial s) rounds s else s)"

section \<open>Status\<close>

text \<open>The document of the status; its members are in the order of their names.\<close>

definition mtc_status :: "(int \<Rightarrow> string) \<Rightarrow> ('r, 'k) assertionState \<Rightarrow> json" where
  "mtc_status local_time s =
     (case sv_bundle s of
        None \<Rightarrow> JObj [(''available'', JBool False), (''serial'', JStr (sv_serial s))]
      | Some b \<Rightarrow> JObj [(''available'', JBool True), (''fetched_at'', JStr (local_time (sv_fetchedAt s))), (''leaf_index'', JNum (bu_LeafIndex b)),
          (''log_origin'', JStr (bu_LogOrigin b)), (''proof_depth'', JNum (int (length (bu_Proof b)))), (''revoked'', JBool (bu_Revoked b)),
          (''root_hash'', JStr (bu_RootHash b)), (''serial'', JStr (sv_serial s)), (''tree_size'', JNum (bu_TreeSize b))])"

definition minute_text :: "go_time \<Rightarrow> string" where
  "minute_text t = padded 4 (nat (t_year t)) @ ''-'' @ padded 2 (t_month t) @ ''-'' @ padded 2 (t_day t) @ '' '' @
     padded 2 (t_hour t) @ '':'' @ padded 2 (t_min t) @ '' UTC''"

text \<open>What the page shows of the certificate, and of its proof or its staple.\<close>

definition certificate_rows :: "('r, 'k) assertionState \<Rightarrow> string list" where
  "certificate_rows s =
     (case (sv_isMTC s, sv_mtcParsed s) of
        (True, Some p) \<Rightarrow> [''(MTC-spec cert)'', dec_int (pc_SerialNumber p), ''(MTC-spec cert)'', minute_text (pc_NotBefore p), minute_text (pc_NotAfter p)]
      | _ \<Rightarrow> (case sv_leaf s of
          Some leaf \<Rightarrow> [nm_CommonName (x_Subject leaf), sv_serial s, nm_CommonName (x_Issuer leaf),
            minute_text (time_UTC (x_NotBefore leaf)), minute_text (time_UTC (x_NotAfter leaf))]
        | None \<Rightarrow> ['''', '''', '''', '''', '''']))"

definition assertion_rows :: "('r, 'k) assertionState \<Rightarrow> string list" where
  "assertion_rows s =
     (case (sv_isMTC s, Option.bind (sv_mtcParsed s) (\<lambda>m. map_option (Pair m) (pc_Proof m))) of
        (True, Some (m, p)) \<Rightarrow> [''MTC Proof Embedded (id-alg-mtcProof)'', dec_int (pc_SerialNumber m),
          ''['' @ dec_int (uint (mp_Start p)) @ '', '' @ dec_int (uint (mp_End p)) @ '')'', dec_int (int (length (mp_InclusionProof p))) @ '' sibling hashes'',
          if mp_Signatures p = [] then ''signatureless'' else ''signed ('' @ dec_int (int (length (mp_Signatures p))) @ '' cosigners)'']
      | _ \<Rightarrow> (case sv_bundle s of
          Some b \<Rightarrow> [''MTC Assertion Stapled'', dec_int (bu_LeafIndex b), dec_int (bu_TreeSize b),
            if length (bu_RootHash b) > 16 then take 16 (bu_RootHash b) @ ''...'' else bu_RootHash b,
            dec_int (int (length (bu_Proof b))) @ '' sibling hashes'', if bu_Revoked b then ''true'' else ''false'', bu_LogOrigin b]
        | None \<Rightarrow> [''Assertion Not Available'']))"

datatype status_page = StatusPage "string list" "string list" | StatusDocument json | NotFound

definition tls_server_route :: "(int \<Rightarrow> string) \<Rightarrow> ('r, 'k) assertionState \<Rightarrow> string \<Rightarrow> status_page" where
  "tls_server_route local_time s p =
     (if p = ''/'' then StatusPage (certificate_rows s) (assertion_rows s)
      else if p = ''/mtc-status'' then StatusDocument (mtc_status local_time s) else NotFound)"

section \<open>Which bundle is stapled\<close>

text \<open>
  What stays true of a running server: the staple is that of the bundle it shows, and the
  certificate of its handshakes is the one it was started with.
\<close>

definition staple_inv :: "(json \<Rightarrow> bytes) \<Rightarrow> ('r, 'k) assertionState \<Rightarrow> bool" where
  "staple_inv marshal s \<longleftrightarrow> sv_bundleJSON s = map_option (\<lambda>b. marshal (staple_json b)) (sv_bundle s) \<and>
     tc_SignedCertificateTimestamps (sv_baseCert s) = [] \<and> (sv_isMTC s \<longrightarrow> sv_bundle s = None)"

lemma fetch_keeps [simp]:
  "sv_baseCert (fetchAssertion tm marshal base serial r s) = sv_baseCert s"
  "sv_isMTC (fetchAssertion tm marshal base serial r s) = sv_isMTC s"
  "sv_serial (fetchAssertion tm marshal base serial r s) = sv_serial s"
  "sv_leaf (fetchAssertion tm marshal base serial r s) = sv_leaf s"
  by (simp_all add: fetchAssertion_def split: prod.split sum.split)

lemma fetch_inv: "staple_inv marshal s \<Longrightarrow> \<not> sv_isMTC s \<Longrightarrow> staple_inv marshal (fetchAssertion tm marshal base serial r s)"
  by (simp add: staple_inv_def fetchAssertion_def split: prod.split sum.split)

lemma refresh_simps [simp]:
  "refreshLoop tm marshal base serial [] s = s"
  "refreshLoop tm marshal base serial (r # rs) s = refreshLoop tm marshal base serial rs (fetchAssertion tm marshal base serial r s)"
  "refreshLoop tm marshal base serial (rs @ qs) s = refreshLoop tm marshal base serial qs (refreshLoop tm marshal base serial rs s)"
  by (simp_all add: refreshLoop_def)

lemma refresh_keeps [simp]: "sv_baseCert (refreshLoop tm marshal base serial rounds s) = sv_baseCert s"
  by (induction rounds arbitrary: s) simp_all

lemma refresh_inv: "staple_inv marshal s \<Longrightarrow> \<not> sv_isMTC s \<Longrightarrow> staple_inv marshal (refreshLoop tm marshal base serial rounds s)"
  by (induction rounds arbitrary: s) (simp_all add: fetch_inv)

lemma start_inv: "tls_server_start rdn tm marshal first c = Some (ls, s) \<Longrightarrow> staple_inv marshal s"
proof -
  have new: "staple_inv marshal ((new_state chain key serial)\<lparr>sv_leaf := leaf\<rparr>)" "\<not> sv_isMTC ((new_state chain key serial)\<lparr>sv_leaf := leaf\<rparr>)"
    "staple_inv marshal ((new_state chain key serial)\<lparr>sv_mtcParsed := parsed, sv_isMTC := mtc\<rparr>)"
    for chain serial leaf parsed mtc and key :: 'b
    by (simp_all add: staple_inv_def new_state_def)
  show "tls_server_start rdn tm marshal first c = Some (ls, s) \<Longrightarrow> staple_inv marshal s"
    by (auto simp: tls_server_start_def start_mtc_def start_legacy_def Let_def fetch_inv new split: option.splits prod.splits if_splits sum.splits list.splits)
qed

lemma served_inv:
  "tls_server_start rdn tm marshal first c = Some (ls, s) \<Longrightarrow> staple_inv marshal (serve_rounds tm marshal refreshSec bridge rounds s)"
  using start_inv [of rdn tm marshal first c ls s] by (auto simp: serve_rounds_def refresh_inv)

text \<open>A round that fails changes nothing but the last error: the staple is that of the last round that did not.\<close>

definition failed :: "(string \<Rightarrow> goerr + int) \<Rightarrow> string \<Rightarrow> string \<Rightarrow> http_get \<times> int \<Rightarrow> bool" where
  "failed tm base serial r = isl (fetched tm (fst r) base serial)"

lemma failed_round:
  assumes "failed tm base serial r"
  shows "getCertificate (fetchAssertion tm marshal base serial r s) = getCertificate s"
    "sv_bundle (fetchAssertion tm marshal base serial r s) = sv_bundle s"
  using assms by (auto simp: failed_def fetchAssertion_def getCertificate_def isl_def split: prod.split option.split)

lemma failed_rounds:
  "list_all (failed tm base serial) rounds \<Longrightarrow> getCertificate (refreshLoop tm marshal base serial rounds s) = getCertificate s \<and>
     sv_bundle (refreshLoop tm marshal base serial rounds s) = sv_bundle s"
  by (induction rounds arbitrary: s) (simp_all add: failed_round)

lemma round_succeeds:
  assumes "fetched tm http base serial = Inr b"
  shows "tc_SignedCertificateTimestamps (getCertificate (fetchAssertion tm marshal base serial (http, now) s)) = [marshal (staple_json b)]"
    "sv_bundle (fetchAssertion tm marshal base serial (http, now) s) = Some b"
  using assms by (simp_all add: fetchAssertion_def getCertificate_def)

lemma last_fetch:
  assumes "fetched tm http base serial = Inr b" "list_all (failed tm base serial) later"
  shows "tc_SignedCertificateTimestamps (getCertificate (refreshLoop tm marshal base serial (earlier @ (http, now) # later) s)) = [marshal (staple_json b)]"
    "sv_bundle (refreshLoop tm marshal base serial (earlier @ (http, now) # later) s) = Some b"
  by (simp_all add: failed_rounds [OF assms(2)] round_succeeds [OF assms(1)])

section \<open>The staple read back\<close>

text \<open>What a staple keeps of a bundle.\<close>

definition stapled :: "Bundle \<Rightarrow> Bundle" where
  "stapled b = b\<lparr>bu_CertDER := [], bu_CertMeta := None, bu_MTCMode := False, bu_SubtreeStart := 0, bu_SubtreeEnd := 0, bu_Signatures := []\<rparr>"

lemma staple_is_bundle: "staple_json b = FormatJSON (stapled b)"
  by (simp add: staple_json_def FormatJSON_def stapled_def omit_empty_def jstrs_def base64_EncodeToString_def)

lemma staple_roundtrip:
  assumes "\<And>t. tm (txt t) = Inr t" "- (2 ^ 63) \<le> bu_LeafIndex b" "bu_LeafIndex b < 2 ^ 63" "- (2 ^ 63) \<le> bu_TreeSize b" "bu_TreeSize b < 2 ^ 63"
  shows "dec_Bundle tm (with_times txt (staple_json b)) = Inr (stapled b)"
  unfolding staple_is_bundle by (rule bundle_roundtrip) (use assms in \<open>simp_all add: stapled_def\<close>)

lemma stapled_fields:
  "bu_LeafIndex (stapled b) = bu_LeafIndex b" "bu_LeafHash (stapled b) = bu_LeafHash b" "bu_Proof (stapled b) = bu_Proof b"
  "bu_SerialHex (stapled b) = bu_SerialHex b" "bu_Revoked (stapled b) = bu_Revoked b"
  "bu_RootHash (stapled b) = bu_RootHash b" "bu_TreeSize (stapled b) = bu_TreeSize b"
  by (simp_all add: stapled_def)

lemma stapled_verifies: "Verify_bundle (stapled b) = Verify_bundle b"
  unfolding Verify_bundle_def stapled_fields by (rule refl)

lemmas stapled_checks = stapled_fields stapled_verifies

section \<open>From the log to the verdict\<close>

text \<open>The request of a round is answered with the document of a bundle.\<close>

definition answers :: "(int \<Rightarrow> string) \<Rightarrow> http_get \<Rightarrow> string \<Rightarrow> string \<Rightarrow> Bundle \<Rightarrow> bool" where
  "answers wr http base serial b \<longleftrightarrow>
     (case http (no_slash base @ ''/assertion/'' @ serial) of
        Inr (status, Inr text) \<Rightarrow> status = 200 \<and> json_Decode text = Inr (with_times wr (FormatJSON b))
      | _ \<Rightarrow> False)"

lemma fetched_answer:
  assumes "answers wr http base serial b" "dec_Bundle tm (with_times wr (FormatJSON b)) = Inr b"
  shows "fetched tm http base serial = Inr b"
  using assms by (auto simp: answers_def fetched_def and_then_def split: sum.splits prod.splits)

text \<open>
  C20. A logged certificate passes from the log to the verdict: for every entry of a log in good state
  below its latest checkpoint, if in some round of the refresh loop the bridge answers
  \<open>mtc-tls-server\<close> with the bundle it builds, then whatever the rounds before were, and as long as the
  rounds after it fail, the certificate of a handshake carries a staple for which
  \<open>mtc-tls-verify\<close> reports success, given the certificate of that serial number, not revoked in the
  log when the bundle was built, a checkpoint whose tree is complete, and a checkpoint served by
  the bridge at the time of the check that is at least as large. The rounds that fail may be any
  number: a revocation after the bundle was built does not reach the verifier through them.
\<close>

theorem stapled_connection_verified:
  assumes "log_served d" "LatestCheckpoint d = (Inr cp, d)" "cp_true (entries d) cp" "cp_TreeSize cp = 2 ^ k"
    and "0 \<le> idx" "idx < cp_TreeSize cp" "le_EntryType (log_entries d ! nat idx) \<noteq> 0" "length (le_EntryData (log_entries d ! nat idx)) < 2 ^ 32"
    and "idx \<notin> revoked d" "EqualFold (serial_hex leaf) (le_SerialHex (log_entries d ! nat idx))"
    and "fetchCheckpoint live bridge = Inr (n, r)" "cp_TreeSize cp \<le> n" "\<And>t. tm (wr t) = Inr t"
    and "list_all (failed tm base serial) later"
  shows "\<exists>b. BuildByIndex parse bd idx d = (Some (Inr b), d) \<and>
    (answers wr http base serial b \<and> json_Unmarshal (marshal (staple_json b)) = Inr (with_times wr (staple_json b)) \<longrightarrow>
      (\<exists>ls. verifyLegacyCert False tm live bridge leaf
           (tc_SignedCertificateTimestamps (getCertificate (refreshLoop tm marshal base serial (earlier @ (http, now) # later) s))) = Some (ls, 0) \<and>
         last ls = ''Result: MTC-VERIFIED''))"
proof -
  obtain b where b: "BuildByIndex parse bd idx d = (Some (Inr b), d)" "bundle_ok d cp idx b"
    using BuildByIndex_run [OF assms(1,5,6,2,3,7,8), of parse bd] by blast
  have v: "Verify_bundle (stapled b) = Inr True" using Verify_complete [OF b(2) assms(4,5)] assms(4,6) by (simp add: stapled_checks)
  have size: "cp_TreeSize cp < 2 ^ 63"
    using assms(1,3) by (simp add: log_served_def cp_true_def log_size_def entries_def)
  have f: "bu_LeafIndex b = idx" "bu_TreeSize b = cp_TreeSize cp" "\<not> bu_Revoked b" "bu_SerialHex b = le_SerialHex (log_entries d ! nat idx)"
    using b(2) assms(9) by (simp_all add: bundle_ok_def Let_def)
  have read: "dec_Bundle tm (with_times wr (FormatJSON b)) = Inr b"
    by (rule bundle_roundtrip [OF assms(13)]) (use f assms(5,6) size in linarith)+
  have staple: "dec_Bundle tm (with_times wr (staple_json b)) = Inr (stapled b)"
    by (rule staple_roundtrip [OF assms(13)]) (use f assms(5,6) size in linarith)+
  have "\<exists>ls. verifyLegacyCert False tm live bridge leaf
           (tc_SignedCertificateTimestamps (getCertificate (refreshLoop tm marshal base serial (earlier @ (http, now) # later) s))) = Some (ls, 0) \<and>
         last ls = ''Result: MTC-VERIFIED''"
    if "answers wr http base serial b" "json_Unmarshal (marshal (staple_json b)) = Inr (with_times wr (staple_json b))"
    unfolding last_fetch(1) [OF fetched_answer [OF that(1) read] assms(14)]
    by (rule all_passed [OF _ assms(11), where b = "stapled b"]) (use staple that(2) v f assms(10,12) in \<open>simp_all add: and_then_def stapled_checks\<close>)
  with b(1) show ?thesis by blast
qed

lemma Decode_Unmarshal: "json_Unmarshal (str_bytes text) = Inr j \<Longrightarrow> json_Decode text = Inr j"
  by (simp add: json_Unmarshal_def json_Decode_def split: option.splits prod.splits if_splits del: json_value.simps)

definition demo_marshal :: "json \<Rightarrow> bytes" where
  "demo_marshal doc = str_bytes (json_text (with_times dec_int doc))"

definition demo_answer :: "Bundle \<Rightarrow> http_get" where
  "demo_answer b = (\<lambda>_. Inr (200, Inr (json_text (with_times dec_int (FormatJSON b)))))"

theorem stapled_connection_verified_witness:
  "\<forall>leaf s. \<exists>b ls. BuildByIndex (\<lambda>_. Inl ErrDB) \<lparr>bd_logOrigin = ''log''\<rparr> 1 demo_staple_db = (Some (Inr b), demo_staple_db) \<and>
     verifyLegacyCert False toy_unmarshal (\<lambda>_. Inr (200, Inr (checkpoint_body ''log'' 5 3 @ [NL]))) ''http://bridge'' (leaf\<lparr>x_SerialNumber := 0\<rparr>)
       (tc_SignedCertificateTimestamps (getCertificate
         (refreshLoop toy_unmarshal demo_marshal ''http://bridge'' '''' [(\<lambda>_. Inl ErrDB, 1), (demo_answer b, 2), (\<lambda>_. Inl ErrDB, 3)] s))) = Some (ls, 0) \<and>
     last ls = ''Result: MTC-VERIFIED''"
proof (intro allI)
  fix leaf :: x509_Certificate and s :: "('r, 'k) assertionState"
  let ?leaf = "leaf\<lparr>x_SerialNumber := 0\<rparr>" and ?http = "\<lambda>_. Inr (200, Inr (checkpoint_body ''log'' 5 3 @ [NL]))"
  obtain cp where cp: "LatestCheckpoint demo_staple_db = (Inr cp, demo_staple_db)" "cp_true (entries demo_staple_db) cp" "cp_TreeSize cp = 2 ^ 1"
    using demo_staple_ready(5) by auto
  obtain t where e: "log_entries demo_staple_db ! 1 = demo_entry\<lparr>le_Index := 1, le_CreatedAt := t\<rparr>" using demo_staple_ready(4) by blast
  have f: "fetchCheckpoint ?http ''http://bridge'' = Inr (5, ToUpper (hex_EncodeToString (hash_bytes 3)))"
    by (rule fetchCheckpoint_note [where t = "[]"]) simp_all
  have h: "serial_hex ?leaf = ''''" by (simp add: serial_hex_def big_Bytes.simps hex_EncodeToString_def ToUpper_def)
  have fails: "list_all (failed toy_unmarshal ''http://bridge'' '''') [(\<lambda>_. Inl ErrDB, 3)]" by (simp add: failed_def fetched_def)
  obtain b where b: "BuildByIndex (\<lambda>_. Inl ErrDB) \<lparr>bd_logOrigin = ''log''\<rparr> 1 demo_staple_db = (Some (Inr b), demo_staple_db)"
    "list_all ascii [bu_SerialHex b, bu_LeafHash b, bu_RootHash b, bu_Checkpoint b, bu_LogOrigin b]" "list_all ascii (bu_Proof b)"
    "bu_CertDER b = []" "bu_CertMeta b = None" "bu_Signatures b = []" by (rule demo_issued)
  have "plain (with_times dec_int (FormatJSON b))" "plain (with_times dec_int (FormatJSON (stapled b)))"
    by (rule plain_bundle; use b(2-6) in \<open>simp add: stapled_def\<close>)+
  then have docs: "answers dec_int (demo_answer b) ''http://bridge'' '''' b"
    "json_Unmarshal (demo_marshal (staple_json b)) = Inr (with_times dec_int (staple_json b))"
    using json_roundtrip Decode_Unmarshal by (simp_all add: answers_def demo_answer_def demo_marshal_def staple_is_bundle)
  show "\<exists>b ls. BuildByIndex (\<lambda>_. Inl ErrDB) \<lparr>bd_logOrigin = ''log''\<rparr> 1 demo_staple_db = (Some (Inr b), demo_staple_db) \<and>
     verifyLegacyCert False toy_unmarshal ?http ''http://bridge'' ?leaf
       (tc_SignedCertificateTimestamps (getCertificate
         (refreshLoop toy_unmarshal demo_marshal ''http://bridge'' '''' [(\<lambda>_. Inl ErrDB, 1), (demo_answer b, 2), (\<lambda>_. Inl ErrDB, 3)] s))) = Some (ls, 0) \<and>
     last ls = ''Result: MTC-VERIFIED''"
    using stapled_connection_verified [where idx = "1" and leaf = "?leaf" and tm = toy_unmarshal and wr = dec_int and parse = "\<lambda>_. Inl ErrDB"
        and bd = "\<lparr>bd_logOrigin = ''log''\<rparr>" and earlier = "[(\<lambda>_. Inl ErrDB, 1)]" and http = "demo_answer b" and now = 2 and marshal = demo_marshal and s = s,
        OF demo_staple_ready(1) cp(1-3) _ _ _ _ _ _ f _ _ fails]
      cp(3) e demo_staple_ready(3) h b(1) docs by (auto simp: demo_entry_def log_entry_def EqualFold_def)
qed

end
