(* ===== verification/Spec2Isabelle.thy ===== *)
theory Spec2Isabelle
  imports MerkleConsistency Mtcformat StoreAcme Batch Watcher Assertionissuer Tlogtiles Localca AcmeSession AcmeIssue AcmeNames Configuration Bridge Viz Admin Verifiers TlsServer
begin

text \<open>
  Verification library for the Merkle Tree Certificate (MTC) bridge, a Go program that copies the
  certificates of a CA into a transparency log, signs checkpoints of the log, serves proofs and
  assertion bundles, and issues certificates of its own over ACME.

  \<^bold>\<open>The program and its model.\<close> The watcher polls the CA database for new certificates and
  revocations and appends them to the issuance log; the log keeps its entries, the hashes of its
  Merkle tree and its signed checkpoints in the tables of the store. Batches and landmarks sign
  subtrees. The assertion issuer builds a bundle with an inclusion proof for every certificate
  below a checkpoint, the tile handler serves the log, its proofs and the bundles over HTTP, and
  the ACME server validates names, has certificates issued and puts them into the same log. The
  dashboard shows the state of all of them, and the main program builds them from a configuration.
  Each
  theory models one package, or a part of one, with the definitions in the order of the code:

  \<^item> \<open>Prelude\<close>, \<open>GoStrings\<close>, \<open>Http\<close>, \<open>Json\<close>, \<open>Asn1\<close>, \<open>Asn1Values\<close>, \<open>Sha256\<close>: what the program uses of
    Go and its standard library: bytes and words, strings, base 64, JSON, DER, SHA-256.
  \<^item> \<open>MerkleTree\<close>, \<open>MerkleInclusion\<close>, \<open>MerkleConsistency\<close>, \<open>MerkleNodes\<close>, \<open>Tiles\<close>:
    \<open>internal/merkle/merkle.go\<close>. Hashes, proofs over lists of leaves, their verifiers, proofs over
    stored nodes, tile coordinates.
  \<^item> \<open>Mtcformat\<close>, \<open>Logentry\<close>, \<open>Mtccert\<close>: \<open>internal/mtcformat\<close> and \<open>internal/mtccert\<close>. Wire formats, the
    entries that are logged for certificates, certificates with a Merkle proof as signature.
  \<^item> \<open>Store\<close>, \<open>StoreTables\<close>, \<open>StoreAcme\<close>: \<open>internal/store/store.go\<close>. The tables are the record \<open>db\<close>;
    each statement succeeds or fails as the schedule in the state decides, transactions roll back. A
    query for one row that is neither ordered nor unique takes it in the order of \<open>db_scan\<close>, an arbitrary
    function in the state; lists without \<open>ORDER BY\<close> come in the order of the table, as the code looks
    at all their rows.
  \<^item> \<open>Issuancelog\<close>, \<open>IssuancelogTree\<close>, \<open>IssuancelogSafety\<close>: \<open>internal/issuancelog\<close>. The operations,
    the correctness of the stored tree, and the log as a step relation \<open>log_step\<close>.
  \<^item> \<open>Cosigner\<close>, \<open>Cadb\<close>, \<open>Watcher\<close>, \<open>Revocation\<close>, \<open>Batch\<close>, \<open>Certutil\<close>, \<open>Assertion\<close>,
    \<open>Assertionissuer\<close>, \<open>Tlogtiles\<close>, \<open>Localca\<close>: the packages of these names.
  \<^item> \<open>Threads\<close>, \<open>Acme\<close>, \<open>AcmeFinalize\<close>: \<open>internal/acme\<close>. Handlers and goroutines are trees of
    atomic operations on the shared state and of questions to the world outside (clock, resolver,
    other servers); a step relation interleaves them in any order. \<open>AcmeInvariant\<close> and
    \<open>AcmeSafety\<close> hold the invariant and the interpretation of the locale \<open>guarantee\<close>, \<open>AcmeClient\<close>
    and \<open>AcmeSession\<close> the runs of single handlers, a session and the properties. \<open>AcmeIssue\<close> follows
    the issuance of a certificate with a Merkle proof through ACME, log, checkpoint and proof,
    \<open>AcmeNames\<close> the names of a request to finalize into the certificate.
  \<^item> \<open>Configuration\<close>, \<open>Bridge\<close>: \<open>internal/config/config.go\<close> and \<open>cmd/mtc-bridge/main.go\<close>. Environment
    variables, defaults and validation; the start of the bridge with every way it can fail, the
    migration of the database, the patterns of its HTTP server with the cleaning of paths, and which
    requests reach which handler.
  \<^item> \<open>Viz\<close>, \<open>Admin\<close>: the metadata and aggregations at the end of \<open>internal/store/store.go\<close>, and
    \<open>internal/admin/handler.go\<close>. Endpoints that answer with JSON are modelled as they are, pages by
    the values and texts they show.
  \<^item> \<open>Verifiers\<close>: the command line programs \<open>cmd/mtc-tls-verify\<close>, \<open>cmd/mtc-verify-cert\<close> and
    \<open>cmd/mtc-assertion\<close>: what they print and their exit status. \<open>TlsServer\<close>: \<open>cmd/mtc-tls-server\<close>,
    which staples the bundle of its certificate, round by round of its refresh loop.

  Values keep the names and the shape of the code: structs are records, an error is a value of
  \<open>goerr\<close> in a sum, a panic is the value \<open>None\<close> of an option, 64-bit integers are integers with
  the overflow written out where the code can reach it.

  \<^bold>\<open>What the lemmas show.\<close> The Merkle theories show that proofs are complete (generated proofs
  verify), sound (an accepted proof is genuine or the theorem names two inputs with the same
  hash; SHA-256 is never assumed injective) and equal to the definitions of RFC 9162. The log
  theories show that in every reachable state the stored nodes are those of the tree, every
  checkpoint signs the true root, and served proofs verify against it. The codec theories show
  round trips. Watcher, revocation, batch and issuer theorems say what a cycle achieves, the tile
  theorems what the endpoints answer. For ACME, when challenges are not approved automatically:
  control of every name is proved before an order leaves the status pending, whatever the
  interleaving; a nonce is accepted once; a validation completes; a certificate issued with a
  Merkle proof parses and verifies under conditions on the request, the CA and the clock that the
  theorem states. For the rest of the
  program: a bridge that starts has positive intervals and sizes, every request is
  answered, redirected or passed on as the theorem says, the aggregations add up to the statistics, and the loop that fills in the
  metadata ends. On the side of the client, a bundle survives its JSON form, the bundle of a logged
  certificate, stapled by the server, passes every check, and the two verifiers of bundles agree on hashes of
  the right length.
  Several theorems and lemmas state what the code does not ensure (\<open>torn_append\<close>,
  \<open>VerifyInclusion_right_edge\<close>, \<open>short_proof_wrong_leaf\<close>, \<open>VerifyMTCCert_accepts_any_proof\<close>, \<open>checkpoint_identity_unchecked\<close>,
  \<open>cursor_fault_duplicates\<close>, \<open>order_reopened\<close>, \<open>foreign_common_name\<close>, \<open>integrity_panel_verified\<close>,
  \<open>forged_bundle_verified\<close>).

  \<^bold>\<open>Interfaces.\<close> Each locale stands where one component relies on another and is interpreted on
  the model of the component that provides it. Cryptographic libraries, \<open>crypto/x509\<close>, PEM, files
  and the resolver are records of functions; the YAML decoder, the environment, the opening of
  databases and the reverse proxy are arguments; what a theorem needs of them is a named hypothesis
  with an instance (\<open>toy_crypto\<close>, \<open>toy_x509\<close>, \<open>demo_acme_lib\<close>) for its witness.

  \<^bold>\<open>Bounds.\<close> Recursions are structural or have a termination proof. The JSON parser takes a bound
  on its nesting, twice the length of the input and two, which every call below it respects.
  Theorems about served proofs assume that the log has fewer than \<open>2 ^ 63\<close> entries. Paths of
  requests are those without percent escapes.

  \<^bold>\<open>Granularity.\<close> One call of the store or of the log is one operation of a thread. The code has no
  lock around the statements of such a call, so interleavings inside one call of the log are not
  covered; \<open>torn_append\<close> shows what a fault between two of its statements does.

  \<^bold>\<open>Not modelled.\<close> The markup of the dashboard and its templates (\<open>internal/admin/templates.go\<close>); the
  programs \<open>cmd/mtc-conformance\<close>, \<open>cmd/mtc-interop\<close> and \<open>cmd/demo-embedded-cert\<close>, which test or
  demonstrate a running bridge; flags,
  logging, metrics, TLS, listening and shutting down; the redacted text of the configuration. The
  arguments of error texts are left out where nothing reads them, their format strings are kept.
\<close>

end
